(* ===== verification/Prelude.thy ===== *)
theory Prelude
  imports Complex_Main "HOL-Library.AList"
begin

text \<open>
  Shared base of the development: Python dictionaries as association lists in insertion
  order, dictionaries of lists, the two work-list traversals the channel code uses, and the
  interface of a graph search with the facts its clients need.

  Collections: \<open>dict_simps\<close> holds the rewrite rules for dictionaries, \<open>opt_simps\<close> the
  rules that invert option-valued computations.
\<close>

named_theorems dict_simps
named_theorems opt_simps

section \<open>Dictionaries\<close>

text \<open>
  A Python dict keeps its keys in the order of their first insertion; an assignment to a
  present key keeps its place. \<open>AList.update\<close> does exactly this.
\<close>

definition py_dict :: "('k \<times> 'v) list \<Rightarrow> ('k \<times> 'v) list" where
  "py_dict kvs = fold (\<lambda>(k, v). AList.update k v) kvs []"

definition dict_get_list :: "('k \<times> 'v list) list \<Rightarrow> 'k \<Rightarrow> 'v list" where
  "dict_get_list d k = (case map_of d k of None \<Rightarrow> [] | Some vs \<Rightarrow> vs)"

text \<open>\<open>d.setdefault(k, []).append(v)\<close>, and a loop of them.\<close>

definition dict_append :: "'k \<Rightarrow> 'v \<Rightarrow> ('k \<times> 'v list) list \<Rightarrow> ('k \<times> 'v list) list" where
  "dict_append k v d = AList.update k (dict_get_list d k @ [v]) d"

definition dict_group :: "('k \<times> 'v) list \<Rightarrow> ('k \<times> 'v list) list \<Rightarrow> ('k \<times> 'v list) list" where
  "dict_group kvs d = fold (\<lambda>(k, v). dict_append k v) kvs d"

lemma map_of_fold_update:
  "map_of (fold (\<lambda>(k, v). AList.update k v) kvs d) = map_of d ++ map_of (rev kvs)"
  by (induction kvs arbitrary: d) (auto simp: update_conv' map_add_def fun_eq_iff split: option.splits)

lemma map_of_py_dict [dict_simps]: "map_of (py_dict kvs) = map_of (rev kvs)"
  by (simp add: py_dict_def map_of_fold_update)

lemma keys_fold_update:
  "fst ` set (fold (\<lambda>(k, v). AList.update k v) kvs d) = fst ` set d \<union> fst ` set kvs"
  by (induction kvs arbitrary: d) (simp_all add: dom_update case_prod_beta)

lemma keys_py_dict [dict_simps]: "fst ` set (py_dict kvs) = fst ` set kvs"
  by (simp add: py_dict_def keys_fold_update)

lemma distinct_fold_update:
  "distinct (map fst d) \<Longrightarrow> distinct (map fst (fold (\<lambda>(k, v). AList.update k v) kvs d))"
  by (induction kvs arbitrary: d) (auto simp: distinct_update)

lemma distinct_py_dict [simp]: "distinct (map fst (py_dict kvs))"
  by (simp add: py_dict_def distinct_fold_update)

lemma update_new: "k \<notin> fst ` set d \<Longrightarrow> AList.update k v d = d @ [(k, v)]"
  by (induction d) auto

lemma fold_update_distinct:
  "distinct (map fst kvs) \<Longrightarrow> fst ` set kvs \<inter> fst ` set d = {} \<Longrightarrow>
   fold (\<lambda>(k, v). AList.update k v) kvs d = d @ kvs"
proof (induction kvs arbitrary: d)
  case Nil
  then show ?case by simp
next
  case (Cons kv kvs)
  obtain k v where kv: "kv = (k, v)" by (cases kv)
  have "k \<notin> fst ` set d" using Cons.prems kv by auto
  then have "AList.update k v d = d @ [(k, v)]" by (rule update_new)
  moreover have "fold (\<lambda>(k, v). AList.update k v) kvs (d @ [(k, v)]) = (d @ [(k, v)]) @ kvs"
    using Cons.prems kv by (intro Cons.IH) auto
  ultimately show ?case using kv by simp
qed

lemma py_dict_distinct: "distinct (map fst kvs) \<Longrightarrow> py_dict kvs = kvs"
  by (simp add: py_dict_def fold_update_distinct)

lemma dict_get_update [dict_simps]:
  "dict_get_list (AList.update k vs d) x = (if x = k then vs else dict_get_list d x)"
  by (simp add: dict_get_list_def update_conv')

lemma dict_get_append [dict_simps]:
  "dict_get_list (dict_append k v d) x = (if x = k then dict_get_list d k @ [v] else dict_get_list d x)"
  by (simp add: dict_append_def dict_get_list_def update_conv')

lemma dict_get_group [dict_simps]:
  "dict_get_list (dict_group kvs d) x = dict_get_list d x @ map snd (filter (\<lambda>kv. fst kv = x) kvs)"
  unfolding dict_group_def
  by (induction kvs arbitrary: d) (auto simp: dict_simps)

lemma keys_dict_group [dict_simps]:
  "fst ` set (dict_group kvs d) = fst ` set d \<union> fst ` set kvs"
  unfolding dict_group_def
  by (induction kvs arbitrary: d) (simp_all add: dict_append_def dom_update case_prod_beta)

lemma dict_get_list_empty [simp]: "dict_get_list [] k = []"
  by (simp add: dict_get_list_def)

lemma dict_get_list_not_key: "k \<notin> fst ` set d \<Longrightarrow> dict_get_list d k = []"
  by (cases "map_of d k") (auto simp: dict_get_list_def dest!: map_of_SomeD split: option.splits intro: rev_image_eqI)

lemma dict_get_list_const [simp]: "dict_get_list (map (\<lambda>k. (k, [])) ks) x = []"
  by (induction ks) (auto simp: dict_get_list_def)

section \<open>Options\<close>

lemma those_Some_iff [opt_simps]: "those xs = Some ys \<longleftrightarrow> xs = map Some ys"
proof (induction xs arbitrary: ys)
  case Nil
  then show ?case by auto
next
  case (Cons x xs)
  show ?case
    by (cases x; cases "those xs"; cases ys) (use Cons.IH in auto)
qed

lemma those_map_Some [simp]: "those (map (\<lambda>x. Some (f x)) xs) = Some (map f xs)"
  by (induction xs) auto

lemma those_map_total: "(\<And>x. x \<in> set xs \<Longrightarrow> f x \<noteq> None) \<Longrightarrow> \<exists>ys. those (map f xs) = Some ys"
proof (induction xs)
  case (Cons x xs)
  then obtain y ys where "f x = Some y" and "those (map f xs) = Some ys" by fastforce
  then show ?case by simp
qed simp

lemma those_map_member:
  "those (map f xs) = Some ys \<Longrightarrow> x \<in> set xs \<Longrightarrow> \<exists>y. f x = Some y \<and> y \<in> set ys"
  by (induction xs arbitrary: ys) (auto split: option.splits)

lemma those_map_source:
  "those (map f xs) = Some ys \<Longrightarrow> y \<in> set ys \<Longrightarrow> \<exists>x \<in> set xs. f x = Some y"
  by (induction xs arbitrary: ys) (auto split: option.splits)

text \<open>The problems of several passes, where a pass may raise (\<open>None\<close>).\<close>

definition gather :: "'a list option list \<Rightarrow> 'a list option" where
  "gather ps = map_option concat (those ps)"

lemma gather_Some_iff [opt_simps]:
  "gather ps = Some qs \<longleftrightarrow> (\<exists>qss. ps = map Some qss \<and> qs = concat qss)"
  by (auto simp: gather_def opt_simps)

lemma gather_empty_iff: "gather ps = Some [] \<longleftrightarrow> (\<forall>p \<in> set ps. p = Some [])"
proof
  assume "gather ps = Some []"
  then show "\<forall>p \<in> set ps. p = Some []" by (auto simp: opt_simps)
next
  assume "\<forall>p \<in> set ps. p = Some []"
  then have "ps = map Some (map (\<lambda>_. []) ps)" by (induction ps) auto
  moreover have "concat (map (\<lambda>_. []) ps) = []" by simp
  ultimately show "gather ps = Some []" unfolding gather_Some_iff by metis
qed

section \<open>Duplicates in a list\<close>

text \<open>The elements that an earlier element of the list repeats, in order.\<close>

fun repeats :: "'a set \<Rightarrow> ('b \<Rightarrow> 'a) \<Rightarrow> 'b list \<Rightarrow> 'b list" where
  "repeats seen f [] = []"
| "repeats seen f (x # xs) =
     (if f x \<in> seen then x # repeats seen f xs else repeats (insert (f x) seen) f xs)"

lemma repeats_empty_iff:
  "repeats seen f xs = [] \<longleftrightarrow> distinct (map f xs) \<and> f ` set xs \<inter> seen = {}"
  by (induction xs arbitrary: seen) auto

section \<open>Work-list traversals\<close>

text \<open>
  The stack is a Python list whose end is the top; here its top is the head of the list, so
  \<open>stack.extend(ys)\<close> is \<open>rev ys @ stack\<close>. The first traversal marks a node when it
  is popped, the second when it is pushed. Adjacency is a dict of lists.
\<close>

abbreviation (input) keys_of :: "('k \<times> 'v) list \<Rightarrow> 'k set" where
  "keys_of d \<equiv> fst ` set d"

function pop_loop :: "('a \<times> 'a list) list \<Rightarrow> 'a list \<Rightarrow> 'a list \<Rightarrow> 'a list" where
  "pop_loop adj seen [] = seen"
| "pop_loop adj seen (x # stack) =
     (if x \<in> set seen then pop_loop adj seen stack
      else pop_loop adj (seen @ [x]) (rev (dict_get_list adj x) @ stack))"
  by pat_completeness auto

lemma pop_loop_key_or_shorter:
  assumes "x \<notin> set seen"
  shows "card (keys_of adj - insert x (set seen)) < card (keys_of adj - set seen) \<or>
         (card (keys_of adj - insert x (set seen)) = card (keys_of adj - set seen) \<and>
          dict_get_list adj x = [])"
proof (cases "x \<in> keys_of adj")
  case True
  then have "keys_of adj - insert x (set seen) \<subset> keys_of adj - set seen" using assms by auto
  then show ?thesis by (simp add: psubset_card_mono)
next
  case False
  then have "keys_of adj - insert x (set seen) = keys_of adj - set seen" by auto
  with False show ?thesis by (simp add: dict_get_list_not_key)
qed

termination pop_loop
  apply (relation "measures [\<lambda>(adj, seen, st). card (keys_of adj - set seen), \<lambda>(adj, seen, st). length st]")
    apply simp
   apply simp
  subgoal for adj seen x stack using pop_loop_key_or_shorter [of x seen adj] by auto
  done

fun push_kids :: "'a list \<Rightarrow> 'a list \<Rightarrow> 'a list \<Rightarrow> 'a list \<times> 'a list" where
  "push_kids [] seen stack = (seen, stack)"
| "push_kids (c # cs) seen stack =
     (if c \<in> set seen then push_kids cs seen stack else push_kids cs (seen @ [c]) (c # stack))"

lemma push_kids_set:
  "push_kids cs seen stack = (s', st') \<Longrightarrow>
   set s' = set seen \<union> set cs \<and> set st' = set stack \<union> (set cs - set seen)"
  by (induction cs arbitrary: seen stack) (auto split: if_splits)

lemma push_kids_same:
  "set cs \<subseteq> set seen \<Longrightarrow> push_kids cs seen stack = (seen, stack)"
  by (induction cs arbitrary: seen stack) auto

definition targets_of :: "('a \<times> 'a list) list \<Rightarrow> 'a set" where
  "targets_of adj = (\<Union>kv \<in> set adj. set (snd kv))"

lemma dict_get_list_targets: "set (dict_get_list adj x) \<subseteq> targets_of adj"
proof (cases "map_of adj x")
  case (Some ys)
  then show ?thesis using map_of_SomeD [OF Some] by (force simp: dict_get_list_def targets_of_def)
qed (simp add: dict_get_list_def)

lemma finite_targets_of [simp]: "finite (targets_of adj)"
  by (simp add: targets_of_def)

function push_loop :: "('a \<times> 'a list) list \<Rightarrow> 'a list \<Rightarrow> 'a list \<Rightarrow> 'a list" where
  "push_loop adj seen [] = seen"
| "push_loop adj seen (x # stack) =
     (case push_kids (dict_get_list adj x) seen stack of (s', st') \<Rightarrow> push_loop adj s' st')"
  by pat_completeness auto

lemma push_kids_smaller:
  assumes k: "push_kids (dict_get_list adj x) seen stack = (s', st')"
  shows "card (targets_of adj - set s') < card (targets_of adj - set seen) \<or> (s' = seen \<and> st' = stack)"
proof (cases "set (dict_get_list adj x) \<subseteq> set seen")
  case True
  then show ?thesis using k by (simp add: push_kids_same)
next
  case False
  have "set s' = set seen \<union> set (dict_get_list adj x)" using push_kids_set [OF k] by simp
  with False have "targets_of adj - set s' \<subset> targets_of adj - set seen"
    using dict_get_list_targets [of adj x] by auto
  then show ?thesis by (simp add: psubset_card_mono)
qed

termination push_loop
  apply (relation "measures [\<lambda>(adj, seen, st). card (targets_of adj - set seen), \<lambda>(adj, seen, st). length st]")
   apply simp
  subgoal for adj seen x stack s' st' using push_kids_smaller [of adj x seen stack s' st'] by (auto split: prod.splits)
  done

section \<open>The interface of a graph search\<close>

text \<open>
  What the validator and the engine need of a traversal: it returns exactly the nodes that
  an edge path from a start node reaches. Both loops provide it.
\<close>

definition adj_rel :: "('a \<times> 'a list) list \<Rightarrow> ('a \<times> 'a) set" where
  "adj_rel adj = {(x, y). y \<in> set (dict_get_list adj x)}"

lemma adj_rel_iff [simp]: "(x, y) \<in> adj_rel adj \<longleftrightarrow> y \<in> set (dict_get_list adj x)"
  by (simp add: adj_rel_def)

locale graph_search =
  fixes search :: "('a \<times> 'a list) list \<Rightarrow> 'a list \<Rightarrow> 'a list"
  assumes search_set: "set (search adj starts) = (adj_rel adj)\<^sup>* `` set starts"
begin

lemma search_starts: "set starts \<subseteq> set (search adj starts)"
  by (auto simp: search_set)

lemma search_closed: "x \<in> set (search adj starts) \<Longrightarrow> y \<in> set (dict_get_list adj x) \<Longrightarrow> y \<in> set (search adj starts)"
  by (auto simp: search_set) (metis ImageI adj_rel_iff rtrancl.rtrancl_into_rtrancl)

lemma search_least:
  assumes "set starts \<subseteq> S" and "\<And>x y. x \<in> S \<Longrightarrow> y \<in> set (dict_get_list adj x) \<Longrightarrow> y \<in> S"
  shows "set (search adj starts) \<subseteq> S"
proof -
  have "(x, y) \<in> (adj_rel adj)\<^sup>* \<Longrightarrow> x \<in> S \<Longrightarrow> y \<in> S" for x y
    by (induction rule: rtrancl_induct) (auto intro: assms(2))
  then show ?thesis using assms(1) by (auto simp: search_set)
qed

lemma search_of_succs:
  "set (search adj (dict_get_list adj x)) = {y. (x, y) \<in> (adj_rel adj)\<^sup>+}"
  by (auto simp: search_set trancl_unfold_left relcomp_unfold)

end

lemma pop_loop_upper: "set (pop_loop adj seen st) \<subseteq> set seen \<union> (adj_rel adj)\<^sup>* `` set st"
proof (induction adj seen st rule: pop_loop.induct)
  case (1 adj seen)
  then show ?case by simp
next
  case (2 adj seen x stack)
  have "(adj_rel adj)\<^sup>* `` set (rev (dict_get_list adj x) @ stack) \<subseteq> (adj_rel adj)\<^sup>* `` set (x # stack)"
    by (auto 4 4 simp: Image_iff intro: converse_rtrancl_into_rtrancl)
  moreover have "x \<in> (adj_rel adj)\<^sup>* `` set (x # stack)" by auto
  moreover have "(adj_rel adj)\<^sup>* `` set stack \<subseteq> (adj_rel adj)\<^sup>* `` set (x # stack)" by auto
  ultimately show ?case using 2 by (cases "x \<in> set seen") (simp, blast, simp, blast)
qed

lemma pop_loop_lower: "set seen \<union> set st \<subseteq> set (pop_loop adj seen st)"
proof (induction adj seen st rule: pop_loop.induct)
  case (2 adj seen x stack)
  then show ?case by (cases "x \<in> set seen") auto
qed simp

lemma pop_loop_closed:
  "adj_rel adj `` set seen \<subseteq> set seen \<union> set st \<Longrightarrow>
   adj_rel adj `` set (pop_loop adj seen st) \<subseteq> set (pop_loop adj seen st)"
proof (induction adj seen st rule: pop_loop.induct)
  case (2 adj seen x stack)
  show ?case
  proof (cases "x \<in> set seen")
    case True
    then show ?thesis using 2 by (auto simp: Image_subset_eq)
  next
    case False
    have "adj_rel adj `` set (seen @ [x]) \<subseteq> set (seen @ [x]) \<union> set (rev (dict_get_list adj x) @ stack)"
      using "2.prems" by auto
    then show ?thesis using 2 False by simp
  qed
qed auto

lemma closed_rtrancl_Image: "r `` X \<subseteq> X \<Longrightarrow> r\<^sup>* `` X = X"
  by (rule Image_closed_trancl)

definition pop_search :: "('a \<times> 'a list) list \<Rightarrow> 'a list \<Rightarrow> 'a list" where
  "pop_search adj starts = pop_loop adj [] (rev starts)"

interpretation pop: graph_search pop_search
proof
  fix adj :: "('a \<times> 'a list) list" and starts
  let ?R = "set (pop_loop adj [] (rev starts))"
  have "adj_rel adj `` ?R \<subseteq> ?R" by (rule pop_loop_closed) simp
  then have "(adj_rel adj)\<^sup>* `` ?R = ?R" by (rule closed_rtrancl_Image)
  moreover have "set starts \<subseteq> ?R" using pop_loop_lower [of "[]" "rev starts" adj] by simp
  ultimately have "(adj_rel adj)\<^sup>* `` set starts \<subseteq> ?R" by blast
  moreover have "?R \<subseteq> (adj_rel adj)\<^sup>* `` set starts" using pop_loop_upper [of adj "[]" "rev starts"] by simp
  ultimately show "set (pop_search adj starts) = (adj_rel adj)\<^sup>* `` set starts"
    by (simp add: pop_search_def)
qed

lemma push_loop_upper: "set (push_loop adj seen st) \<subseteq> set seen \<union> (adj_rel adj)\<^sup>* `` set st"
proof (induction adj seen st rule: push_loop.induct)
  case (2 adj seen x stack)
  obtain s' st' where k: "push_kids (dict_get_list adj x) seen stack = (s', st')" by fastforce
  have "(adj_rel adj)\<^sup>* `` set (dict_get_list adj x) \<subseteq> (adj_rel adj)\<^sup>* `` {x}"
    by (auto intro: converse_rtrancl_into_rtrancl)
  moreover have "set (dict_get_list adj x) \<subseteq> (adj_rel adj)\<^sup>* `` {x}" by auto
  moreover have "set (push_loop adj s' st') \<subseteq> set s' \<union> (adj_rel adj)\<^sup>* `` set st'"
    using 2 k by simp
  ultimately show ?case using push_kids_set [OF k] k by (auto 0 3)
qed simp

lemma push_loop_closed:
  "set st \<subseteq> set seen \<Longrightarrow> adj_rel adj `` (set seen - set st) \<subseteq> set seen \<Longrightarrow>
   set seen \<subseteq> set (push_loop adj seen st) \<and>
   adj_rel adj `` set (push_loop adj seen st) \<subseteq> set (push_loop adj seen st)"
proof (induction adj seen st rule: push_loop.induct)
  case (2 adj seen x stack)
  obtain s' st' where k: "push_kids (dict_get_list adj x) seen stack = (s', st')" by fastforce
  note s = push_kids_set [OF k]
  have "set st' \<subseteq> set s'" using s "2.prems" by auto
  moreover have "adj_rel adj `` (set s' - set st') \<subseteq> set s'" using s "2.prems" by fastforce
  ultimately have "set s' \<subseteq> set (push_loop adj s' st') \<and>
     adj_rel adj `` set (push_loop adj s' st') \<subseteq> set (push_loop adj s' st')"
    using "2.IH" k by simp
  then show ?case using s k by simp
qed auto

definition push_search :: "('a \<times> 'a list) list \<Rightarrow> 'a list \<Rightarrow> 'a list" where
  "push_search adj starts = push_loop adj starts (rev starts)"

interpretation push: graph_search push_search
proof
  fix adj :: "('a \<times> 'a list) list" and starts
  let ?R = "set (push_loop adj starts (rev starts))"
  have "set starts \<subseteq> ?R \<and> adj_rel adj `` ?R \<subseteq> ?R" by (rule push_loop_closed) auto
  then have "(adj_rel adj)\<^sup>* `` set starts \<subseteq> ?R"
    using closed_rtrancl_Image [of "adj_rel adj" ?R] by blast
  moreover have "?R \<subseteq> (adj_rel adj)\<^sup>* `` set starts"
    using push_loop_upper [of adj starts "rev starts"] by auto
  ultimately show "set (push_search adj starts) = (adj_rel adj)\<^sup>* `` set starts"
    by (simp add: push_search_def)
qed

end
