(* ===== verification/Json.thy ===== *)
theory Json
  imports Prelude "HOL-Library.Char_ord" "HOL-Library.List_Lexorder"
begin

text \<open>
  The dynamic values the backend handles: decoded JSON. An object is an association list in
  key order, a float is the rational it denotes (JSON has no NaN), a string is a list of
  code points up to U+00FF. Also the paths into a document, ordered as Python orders the
  lists \<open>jsonschema\<close> reports, and the parts of \<open>str\<close> and \<open>repr\<close> the code uses.
\<close>

datatype json =
    JNull
  | JBool bool
  | JInt int
  | JFloat rat
  | JStr string
  | JArr "json list"
  | JObj "(string \<times> json) list"

fun json_get :: "string \<Rightarrow> json \<Rightarrow> json option" where
  "json_get k (JObj kvs) = map_of kvs k"
| "json_get k _ = None"

fun is_obj :: "json \<Rightarrow> bool" where
  "is_obj (JObj kvs) = True"
| "is_obj _ = False"

fun as_str :: "json \<Rightarrow> string option" where
  "as_str (JStr s) = Some s"
| "as_str _ = None"

fun as_obj :: "json \<Rightarrow> (string \<times> json) list option" where
  "as_obj (JObj kvs) = Some kvs"
| "as_obj _ = None"

fun as_arr :: "json \<Rightarrow> json list option" where
  "as_arr (JArr xs) = Some xs"
| "as_arr _ = None"

text \<open>\<open>isinstance(v, str)\<close> and friends on a value that may be absent.\<close>

definition get_str :: "string \<Rightarrow> json \<Rightarrow> string option" where
  "get_str k j = Option.bind (json_get k j) as_str"

definition get_obj :: "string \<Rightarrow> json \<Rightarrow> (string \<times> json) list option" where
  "get_obj k j = Option.bind (json_get k j) as_obj"

definition get_arr :: "string \<Rightarrow> json \<Rightarrow> json list option" where
  "get_arr k j = Option.bind (json_get k j) as_arr"

lemma as_obj_Some_iff [opt_simps]: "as_obj j = Some kvs \<longleftrightarrow> j = JObj kvs"
  by (cases j) auto

lemma as_arr_Some_iff [opt_simps]: "as_arr j = Some xs \<longleftrightarrow> j = JArr xs"
  by (cases j) auto

lemma as_str_Some_iff [opt_simps]: "as_str j = Some s \<longleftrightarrow> j = JStr s"
  by (cases j) auto

lemma size_map_of: "map_of kvs k = Some v \<Longrightarrow> size v < size_list (size_prod (\<lambda>_. 0) size) kvs"
  by (induction kvs) (auto split: if_splits)

lemma size_json_get: "json_get k j = Some v \<Longrightarrow> size v < size j"
  by (cases j) (auto dest!: size_map_of)

lemma size_get_arr: "get_arr k j = Some xs \<Longrightarrow> x \<in> set xs \<Longrightarrow> size x < size j"
proof -
  assume "get_arr k j = Some xs" and m: "x \<in> set xs"
  then have "size (JArr xs) < size j" by (auto simp: get_arr_def bind_eq_Some_conv opt_simps dest!: size_json_get)
  moreover have "size x \<le> size_list size xs"
    using m by (intro size_list_estimation') auto
  ultimately show ?thesis by simp
qed

lemma size_get_obj: "get_obj k j = Some kvs \<Longrightarrow> (q, x) \<in> set kvs \<Longrightarrow> size x < size j"
proof -
  assume "get_obj k j = Some kvs" and m: "(q, x) \<in> set kvs"
  then have "size (JObj kvs) < size j" by (auto simp: get_obj_def bind_eq_Some_conv opt_simps dest!: size_json_get)
  moreover have "size_prod (\<lambda>_. 0) size (q, x) \<le> size_list (size_prod (\<lambda>_. 0) size) kvs"
    using m by (intro size_list_estimation') auto
  ultimately show ?thesis by simp
qed

section \<open>Paths\<close>

datatype path_elem = PIdx nat | PKey string

text \<open>
  Two elements at the same depth below the same prefix are both keys or both indexes, so the
  order between an index and a key is never asked for.
\<close>

instantiation path_elem :: linorder
begin

fun less_eq_path_elem :: "path_elem \<Rightarrow> path_elem \<Rightarrow> bool" where
  "less_eq_path_elem (PIdx i) (PIdx j) = (i \<le> j)"
| "less_eq_path_elem (PIdx i) (PKey s) = True"
| "less_eq_path_elem (PKey s) (PIdx i) = False"
| "less_eq_path_elem (PKey s) (PKey t) = (s \<le> t)"

definition less_path_elem :: "path_elem \<Rightarrow> path_elem \<Rightarrow> bool" where
  "less_path_elem a b = (a \<le> b \<and> \<not> b \<le> a)"

instance
proof
  fix x y z :: path_elem
  show "(x < y) = (x \<le> y \<and> \<not> y \<le> x)" by (simp add: less_path_elem_def)
  show "x \<le> x" by (cases x) auto
  show "x \<le> y \<Longrightarrow> y \<le> z \<Longrightarrow> x \<le> z" by (cases x; cases y; cases z) auto
  show "x \<le> y \<Longrightarrow> y \<le> x \<Longrightarrow> x = y" by (cases x; cases y) auto
  show "x \<le> y \<or> y \<le> x" by (cases x; cases y) auto
qed

end

type_synonym path = "path_elem list"

section \<open>Text\<close>

fun str_nat :: "nat \<Rightarrow> string" where
  "str_nat n = (if n < 10 then [char_of (48 + n)] else str_nat (n div 10) @ [char_of (48 + n mod 10)])"

declare str_nat.simps [simp del]

definition str_int :: "int \<Rightarrow> string" where
  "str_int i = (if i < 0 then ''-'' @ str_nat (nat (- i)) else str_nat (nat i))"

definition hex_digit :: "nat \<Rightarrow> char" where
  "hex_digit n = (if n < 10 then char_of (48 + n) else char_of (87 + n))"

definition printable :: "nat \<Rightarrow> bool" where
  "printable n = (32 \<le> n \<and> n \<le> 126 \<or> 161 \<le> n \<and> n \<noteq> 173)"

definition repr_char :: "char \<Rightarrow> char \<Rightarrow> string" where
  "repr_char quote c =
     (let n = of_char c in
      if c = quote \<or> c = CHR 0x5C then [CHR 0x5C, c]
      else if n = 10 then [CHR 0x5C, CHR ''n'']
      else if n = 13 then [CHR 0x5C, CHR ''r'']
      else if n = 9 then [CHR 0x5C, CHR ''t'']
      else if printable n then [c]
      else [CHR 0x5C, CHR ''x'', hex_digit (n div 16), hex_digit (n mod 16)])"

text \<open>\<open>repr\<close> of a string: single quotes unless it holds a single and no double quote.\<close>

definition repr_str :: "string \<Rightarrow> string" where
  "repr_str s =
     (let q = (if CHR 0x27 \<in> set s \<and> CHR 0x22 \<notin> set s then CHR 0x22 else CHR 0x27)
      in [q] @ concat (map (repr_char q) s) @ [q])"

fun starts_with :: "string \<Rightarrow> string \<Rightarrow> bool" where
  "starts_with s [] = True"
| "starts_with [] (p # ps) = False"
| "starts_with (c # s) (p # ps) = (c = p \<and> starts_with s ps)"

lemma starts_with_append [simp]: "starts_with (p @ s) p"
  by (induction p) auto

text \<open>\<open>str.isidentifier\<close> on code points up to U+00FF.\<close>

definition id_start :: "char \<Rightarrow> bool" where
  "id_start c = (let n = (of_char c :: nat) in
     65 \<le> n \<and> n \<le> 90 \<or> 97 \<le> n \<and> n \<le> 122 \<or> n = 95 \<or> n = 170 \<or> n = 181 \<or> n = 186 \<or>
     192 \<le> n \<and> n \<le> 214 \<or> 216 \<le> n \<and> n \<le> 246 \<or> 248 \<le> n)"

definition id_continue :: "char \<Rightarrow> bool" where
  "id_continue c = (let n = (of_char c :: nat) in id_start c \<or> 48 \<le> n \<and> n \<le> 57 \<or> n = 183)"

fun is_identifier :: "string \<Rightarrow> bool" where
  "is_identifier [] = False"
| "is_identifier (c # cs) = (id_start c \<and> list_all id_continue cs)"

definition py_keywords :: "string list" where
  "py_keywords = [''False'', ''None'', ''True'', ''and'', ''as'', ''assert'', ''async'', ''await'',
     ''break'', ''class'', ''continue'', ''def'', ''del'', ''elif'', ''else'', ''except'',
     ''finally'', ''for'', ''from'', ''global'', ''if'', ''import'', ''in'', ''is'', ''lambda'',
     ''nonlocal'', ''not'', ''or'', ''pass'', ''raise'', ''return'', ''try'', ''while'', ''with'',
     ''yield'']"

end
