(* ===== verification/Channel_Graph.thy ===== *)
theory Channel_Graph
  imports Json
begin

text \<open>
  Data Channel graphs: the graph document (\<open>backend/channel/schemas/channels.py\<close>), the node
  type declarations (\<open>backend/channel/nodes/spec.py\<close>) and the structural algorithms of
  \<open>backend/channel/graph.py\<close>: frames, ancestors, reachability, cycles, topological order.

  Fields the code reads as \<open>str(node[...])\<close> are strings; fields it reads with
  \<open>node.get(...)\<close> are optional, \<open>None\<close> for an absent key. A dictionary is an
  association list, a set built by a loop is the list of its elements in insertion order.
\<close>

section \<open>Documents and declarations\<close>

record port_ref =
  pr_node :: string
  pr_port :: string

record edge =
  e_id :: string
  e_source :: port_ref
  e_target :: port_ref

text \<open>\<open>n_position\<close> is (x, y).\<close>

record node =
  n_id :: string
  n_ref :: "string option"
  n_type :: string
  n_name :: string
  n_position :: "(rat option \<times> rat option) option"
  n_config :: json
  n_on_error :: "string option"
  n_retry :: "json option"
  n_type_version :: "int option"
  n_parent :: "string option"

record settings =
  st_error_channel_id :: "string option"

record graph =
  g_nodes :: "node list"
  g_edges :: "edge list"
  g_settings :: settings

record problem =
  pb_code :: string
  pb_detail :: string
  pb_node :: "string option"
  pb_edge :: "string option"
  pb_severity :: string
  pb_path :: path

record resolved_attribute =
  ra_name :: string
  ra_unique :: bool
  ra_business_key :: bool
  ra_value_type :: string

type_synonym resolved_entity = "resolved_attribute list"

record resolver =
  rs_entity_head :: "string \<Rightarrow> resolved_entity option"
  rs_channel_exists :: "string \<Rightarrow> bool"
  rs_published_trigger_type :: "string \<Rightarrow> string option"
  rs_source_exists :: "string \<Rightarrow> bool"

record port_spec =
  ps_port :: string
  ps_coarse :: string

record upstream =
  up_schemas :: "(string \<times> (string \<times> json) list) list"
  up_names :: "(string \<times> string) list"
  up_inside :: "string list"

text \<open>The fields of \<open>NodeType\<close> the graph code reads; \<open>nt_container\<close> is the tuple of round
  templates of a container declaration.\<close>

record node_type =
  nt_type_id :: string
  nt_trigger :: bool
  nt_inputs :: "port_spec list"
  nt_outputs :: "port_spec list"
  nt_config_schema :: json
  nt_container :: "string list option"
  nt_type_version :: int
  nt_refine :: "(json \<Rightarrow> upstream \<Rightarrow> resolver \<Rightarrow> json) option"
  nt_check :: "(json \<Rightarrow> resolver \<Rightarrow> problem list) option"

type_synonym nodes_by_id = "(string \<times> node) list"
type_synonym 'x types_by_id = "(string \<times> 'x node_type_scheme) list"

abbreviation source_id :: "edge \<Rightarrow> string" where "source_id e \<equiv> pr_node (e_source e)"
abbreviation target_id :: "edge \<Rightarrow> string" where "target_id e \<equiv> pr_node (e_target e)"

text \<open>\<open>Problem(code, detail, node_id=..., edge_id=...)\<close> with the default severity and path.\<close>

definition mk_problem :: "string \<Rightarrow> string \<Rightarrow> string option \<Rightarrow> string option \<Rightarrow> problem" where
  "mk_problem code detail nid eid =
     \<lparr>pb_code = code, pb_detail = detail, pb_node = nid, pb_edge = eid,
      pb_severity = ''error'', pb_path = []\<rparr>"

definition nodes_index :: "node list \<Rightarrow> nodes_by_id" where
  "nodes_index nodes = py_dict (map (\<lambda>n. (n_id n, n)) nodes)"

definition types_index :: "'x node_type_scheme list \<Rightarrow> 'x types_by_id" where
  "types_index types = py_dict (map (\<lambda>t. (nt_type_id t, t)) types)"

abbreviation known :: "nodes_by_id \<Rightarrow> string \<Rightarrow> bool" where
  "known by_id i \<equiv> i \<in> fst ` set by_id"

section \<open>Frames\<close>

definition is_trigger :: "node \<Rightarrow> 'x types_by_id \<Rightarrow> bool" where
  "is_trigger n by_type = (case map_of by_type (n_type n) of None \<Rightarrow> False | Some spec \<Rightarrow> nt_trigger spec)"

definition is_container :: "string \<Rightarrow> 'x types_by_id \<Rightarrow> bool" where
  "is_container type_id by_type =
     (case map_of by_type type_id of None \<Rightarrow> False | Some spec \<Rightarrow> nt_container spec \<noteq> None)"

definition parent_ref :: "node \<Rightarrow> string option" where
  "parent_ref n = (case n_parent n of None \<Rightarrow> None | Some p \<Rightarrow> if p = [] then None else Some p)"

text \<open>The parent of a node given by its id; callers pass ids of \<open>by_id\<close>.\<close>

definition parent_at :: "nodes_by_id \<Rightarrow> string \<Rightarrow> string option" where
  "parent_at by_id i = Option.bind (map_of by_id i) parent_ref"

definition crosses_frame :: "string \<Rightarrow> string \<Rightarrow> nodes_by_id \<Rightarrow> bool" where
  "crosses_frame s t by_id =
     (if parent_at by_id s = parent_at by_id t then False else parent_at by_id t \<noteq> Some s)"

text \<open>The \<open>while True\<close> loop of \<open>_parent_cycle\<close>; it stops because \<open>seen\<close> grows inside \<open>by_id\<close>.\<close>

function parent_cycle_loop :: "nodes_by_id \<Rightarrow> 'x types_by_id \<Rightarrow> string list \<Rightarrow> string \<Rightarrow> bool" where
  "parent_cycle_loop by_id by_type seen current =
     (case parent_at by_id current of
        None \<Rightarrow> False
      | Some parent \<Rightarrow>
          (case map_of by_id parent of
             None \<Rightarrow> False
           | Some pnode \<Rightarrow>
               if parent \<in> set seen then True
               else if \<not> is_container (n_type pnode) by_type then False
               else parent_cycle_loop by_id by_type (parent # seen) parent))"
  by pat_completeness auto

lemma keys_minus_insert:
  "map_of d x = Some v \<Longrightarrow> x \<notin> A \<Longrightarrow> card (fst ` set d - insert x A) < card (fst ` set d - A)"
proof -
  assume "map_of d x = Some v" and "x \<notin> A"
  then have "x \<in> fst ` set d - A" by (auto dest: map_of_SomeD intro: rev_image_eqI)
  then have "fst ` set d - insert x A \<subset> fst ` set d - A" by auto
  then show ?thesis by (simp add: psubset_card_mono)
qed

termination parent_cycle_loop
  by (relation "measure (\<lambda>(by_id, by_type, seen, c). card (fst ` set by_id - set seen))")
    (auto simp: keys_minus_insert)

definition parent_cycle :: "string \<Rightarrow> nodes_by_id \<Rightarrow> 'x types_by_id \<Rightarrow> bool" where
  "parent_cycle start by_id by_type = parent_cycle_loop by_id by_type [start] start"

function containing_loop ::
  "nodes_by_id \<Rightarrow> 'x types_by_id \<Rightarrow> string list \<Rightarrow> string list \<Rightarrow> string \<Rightarrow> string list" where
  "containing_loop by_id by_type refs seen current =
     (if current \<in> set seen then refs
      else case map_of by_id current of
        None \<Rightarrow> refs
      | Some cnode \<Rightarrow>
          (case parent_ref cnode of
             None \<Rightarrow> refs
           | Some parent \<Rightarrow>
               (case map_of by_id parent of
                  None \<Rightarrow> refs
                | Some pnode \<Rightarrow>
                    containing_loop by_id by_type
                      (if is_container (n_type pnode) by_type
                       then (case n_ref pnode of None \<Rightarrow> refs | Some r \<Rightarrow> List.insert r refs)
                       else refs)
                      (current # seen) parent)))"
  by pat_completeness auto

termination containing_loop
  by (relation "measure (\<lambda>(by_id, by_type, refs, seen, c). card (fst ` set by_id - set seen))")
    (auto simp: keys_minus_insert)

definition containing_refs :: "string \<Rightarrow> nodes_by_id \<Rightarrow> 'x types_by_id \<Rightarrow> string list" where
  "containing_refs i by_id by_type = containing_loop by_id by_type [] [] i"

section \<open>Outgoing edges and reachability\<close>

definition outgoing :: "edge list \<Rightarrow> nodes_by_id \<Rightarrow> (string \<times> edge list) list" where
  "outgoing edges by_id =
     dict_group (map (\<lambda>e. (source_id e, e))
       (filter (\<lambda>e. known by_id (source_id e) \<and> known by_id (target_id e)) edges)) []"

text \<open>The ids a visit of a node pushes: the known targets of its outgoing edges.\<close>

definition pushed_ids :: "edge list \<Rightarrow> nodes_by_id \<Rightarrow> (string \<times> string list) list" where
  "pushed_ids edges by_id =
     map (\<lambda>(i, es). (i, filter (known by_id) (map target_id es))) (outgoing edges by_id)"

definition reachable_ids :: "node list \<Rightarrow> edge list \<Rightarrow> nodes_by_id \<Rightarrow> 'x types_by_id \<Rightarrow> string list" where
  "reachable_ids nodes edges by_id by_type =
     pop_search (pushed_ids edges by_id)
       (map n_id (filter (\<lambda>n. is_trigger n by_type) nodes))"

section \<open>Ancestors\<close>

text \<open>\<open>incoming[target].add(source)\<close>: sets without repetition.\<close>

definition dict_add :: "string \<Rightarrow> string \<Rightarrow> (string \<times> string list) list \<Rightarrow> (string \<times> string list) list" where
  "dict_add k v d = AList.update k (List.union (dict_get_list d k) [v]) d"

definition incoming_step :: "nodes_by_id \<Rightarrow> edge \<Rightarrow> (string \<times> string list) list \<Rightarrow> (string \<times> string list) list" where
  "incoming_step by_id e d =
     (if \<not> known by_id (source_id e) \<or> \<not> known by_id (target_id e) then d
      else if crosses_frame (source_id e) (target_id e) by_id then d
      else dict_add (target_id e) (source_id e) d)"

definition incoming_sets :: "nodes_by_id \<Rightarrow> edge list \<Rightarrow> (string \<times> string list) list" where
  "incoming_sets by_id edges =
     fold (incoming_step by_id) edges (map (\<lambda>(i, n). (i, [])) by_id)"

definition ancestors :: "nodes_by_id \<Rightarrow> edge list \<Rightarrow> (string \<times> string list) list" where
  "ancestors by_id edges =
     (let inc = incoming_sets by_id edges
      in map (\<lambda>(i, n). (i, pop_search inc (dict_get_list inc i))) by_id)"

definition ancestor_closure :: "graph \<Rightarrow> string \<Rightarrow> string list option" where
  "ancestor_closure g i =
     (let by_id = nodes_index (g_nodes g) in
      if \<not> known by_id i then None
      else Some (List.union (dict_get_list (ancestors by_id (g_edges g)) i) [i]))"

section \<open>Cycles\<close>

datatype color = White | Gray | Black

definition cycle_problem :: "edge \<Rightarrow> problem" where
  "cycle_problem e = mk_problem ''CHANNEL_GRAPH_CYCLE'' ''Graph contains a cycle''
     (Some (source_id e)) (Some (e_id e))"

type_synonym dfs_state = "(string \<times> color) list \<times> problem list"

text \<open>
  The body of \<open>dfs\<close>: the loop over the outgoing edges of a grey node. A white target is
  visited in full (coloured grey, its edges followed, coloured black) before the next edge. The stack of the
  recursive calls is not bounded here.
\<close>

function dfs_edges :: "(string \<times> edge list) list \<Rightarrow> edge list \<Rightarrow> dfs_state \<Rightarrow> dfs_state" where
  "dfs_edges out [] st = st"
| "dfs_edges out (e # es) (color, ps) =
     (case map_of color (target_id e) of
        None \<Rightarrow> dfs_edges out es (color, ps)
      | Some Gray \<Rightarrow> dfs_edges out es (color, ps @ [cycle_problem e])
      | Some White \<Rightarrow>
          (case dfs_edges out (dict_get_list out (target_id e)) (AList.update (target_id e) Gray color, ps) of
             (color', ps') \<Rightarrow> dfs_edges out es (AList.update (target_id e) Black color', ps'))
      | Some Black \<Rightarrow> dfs_edges out es (color, ps))"
  by pat_completeness auto

definition whites :: "(string \<times> color) list \<Rightarrow> string set" where
  "whites c = {i. map_of c i = Some White}"

lemma finite_whites [simp]: "finite (whites c)"
  by (rule finite_subset [of _ "dom (map_of c)"]) (auto simp: whites_def finite_dom_map_of)

lemma whites_update [simp]:
  "whites (AList.update i x c) = (if x = White then insert i (whites c) else whites c - {i})"
  by (auto simp: whites_def update_conv')

lemma dfs_edges_whites:
  "dfs_edges_dom (out, es, (c, ps)) \<Longrightarrow> dfs_edges out es (c, ps) = (c', ps') \<Longrightarrow> whites c' \<subseteq> whites c"
proof (induction out es "(c, ps)" arbitrary: c ps c' ps' rule: dfs_edges.pinduct)
  case (1 out)
  then show ?case by (simp add: dfs_edges.psimps)
next
  case (2 out e es c ps)
  show ?case
  proof (cases "map_of c (target_id e)")
    case None
    then show ?thesis using 2 by (simp add: dfs_edges.psimps)
  next
    case (Some col)
    show ?thesis
    proof (cases col)
      case White
      obtain c1 ps1 where d: "dfs_edges out (dict_get_list out (target_id e)) (AList.update (target_id e) Gray c, ps) = (c1, ps1)"
        by fastforce
      have "whites c1 \<subseteq> whites c - {target_id e}"
        using 2(3) [OF Some White d] by auto
      moreover have "whites c' \<subseteq> whites (AList.update (target_id e) Black c1)"
        using 2 Some White d by (simp add: dfs_edges.psimps)
      ultimately show ?thesis by auto
    qed (use 2 Some in \<open>simp_all add: dfs_edges.psimps\<close>)
  qed
qed

lemma whites_pick: "map_of c t = Some White \<Longrightarrow> card (whites c - {t}) < card (whites c)"
  by (rule card_Diff1_less) (simp, simp add: whites_def)

lemma dfs_edges_whites_card:
  assumes w: "map_of c t = Some White" and d: "dfs_edges_dom (out, es, AList.update t Gray c, ps)"
    and e: "(c', ps') = dfs_edges out es (AList.update t Gray c, ps)"
  shows "card (whites c' - {t}) < card (whites c)"
proof -
  have "whites c' \<subseteq> whites c - {t}" using dfs_edges_whites [OF d e [symmetric]] by simp
  then have "card (whites c' - {t}) \<le> card (whites c - {t})" by (intro card_mono) auto
  also have "\<dots> < card (whites c)" using w by (rule whites_pick)
  finally show ?thesis .
qed

termination dfs_edges
  apply (relation "measures [\<lambda>(out, es, st). card (whites (fst st)), \<lambda>(out, es, st). length es]")
       apply simp_all
  subgoal by (rule disjI1) (metis whites_pick card_Diff_singleton_if)
  subgoal by (rule disjI1) (blast intro: dfs_edges_whites_card)
  done

definition dfs :: "(string \<times> edge list) list \<Rightarrow> string \<Rightarrow> dfs_state \<Rightarrow> dfs_state" where
  "dfs out i st =
     (case dfs_edges out (dict_get_list out i) (AList.update i Gray (fst st), snd st) of
        (color', ps') \<Rightarrow> (AList.update i Black color', ps'))"

lemma dfs_edges_White:
  "map_of color (target_id e) = Some White \<Longrightarrow>
   dfs_edges out (e # es) (color, ps) = dfs_edges out es (dfs out (target_id e) (color, ps))"
  by (simp add: dfs_def split: prod.splits)

definition cycle_problems :: "node list \<Rightarrow> edge list \<Rightarrow> nodes_by_id \<Rightarrow> problem list" where
  "cycle_problems nodes edges by_id =
     (let out = outgoing edges by_id in
      snd (fold (\<lambda>n st. if map_of (fst st) (n_id n) = Some White then dfs out (n_id n) st else st)
             nodes (map (\<lambda>(i, n). (i, White)) by_id, [])))"

subsection \<open>Correctness of the colouring\<close>

definition blacks :: "(string \<times> color) list \<Rightarrow> string set" where
  "blacks c = {i. map_of c i = Some Black}"

definition grays :: "(string \<times> color) list \<Rightarrow> string set" where
  "grays c = {i. map_of c i = Some Gray}"

lemma grays_iff: "i \<in> grays c \<longleftrightarrow> map_of c i = Some Gray"
  by (simp add: grays_def)

lemma color_sets_update [simp]:
  "blacks (AList.update i x c) = (if x = Black then insert i (blacks c) else blacks c - {i})"
  "grays (AList.update i x c) = (if x = Gray then insert i (grays c) else grays c - {i})"
  by (auto simp: blacks_def grays_def update_conv')

text \<open>The edges the search follows, between nodes that have a colour.\<close>

definition follow :: "(string \<times> edge list) list \<Rightarrow> string set \<Rightarrow> (string \<times> string) set" where
  "follow out D = {(x, y). \<exists>e \<in> set (dict_get_list out x). target_id e = y \<and> y \<in> D}"

abbreviation colored :: "(string \<times> color) list \<Rightarrow> string set" where
  "colored c \<equiv> fst ` set c"

lemma colored_iff: "i \<in> colored c \<longleftrightarrow> map_of c i \<noteq> None"
  by (simp add: map_of_eq_None_iff)

lemma dfs_edges_frame:
  "dfs_edges out es (c, ps) = (c', ps') \<Longrightarrow>
   colored c' = colored c \<and> grays c' = grays c \<and> blacks c \<subseteq> blacks c' \<and> (\<exists>qs. ps' = ps @ qs)"
proof (induction out es "(c, ps)" arbitrary: c ps c' ps' rule: dfs_edges.induct)
  case (2 out e es c ps)
  show ?case
  proof (cases "map_of c (target_id e)")
    case None
    then show ?thesis using 2 by simp
  next
    case (Some col)
    show ?thesis
    proof (cases col)
      case White
      obtain c1 ps1 where d: "dfs_edges out (dict_get_list out (target_id e)) (AList.update (target_id e) Gray c, ps) = (c1, ps1)"
        by fastforce
      have t: "target_id e \<in> colored c" "target_id e \<notin> grays c" "target_id e \<notin> blacks c"
        using Some White by (auto simp: colored_iff grays_def blacks_def)
      have 1: "colored c1 = insert (target_id e) (colored c) \<and> grays c1 = insert (target_id e) (grays c) \<and>
          blacks c - {target_id e} \<subseteq> blacks c1 \<and> (\<exists>qs. ps1 = ps @ qs)"
        using "2.hyps"(2) [OF Some White d] by (simp add: dom_update)
      have "dfs_edges out es (AList.update (target_id e) Black c1, ps1) = (c', ps')"
        using "2.prems" Some White d by simp
      from "2.hyps"(3) [OF Some White d [symmetric] this]
      have 2: "colored c' = insert (target_id e) (colored c1) \<and> grays c' = grays c1 - {target_id e} \<and>
          insert (target_id e) (blacks c1) \<subseteq> blacks c' \<and> (\<exists>qs. ps' = ps1 @ qs)"
        by (simp add: dom_update)
      obtain q1 q2 where "ps1 = ps @ q1" and "ps' = ps1 @ q2" using 1 2 by blast
      moreover have "colored c' = colored c" by (metis 1 2 insert_absorb t(1))
      moreover have "grays c' = grays c" using 1 2 t(2) by simp
      moreover have "blacks c \<subseteq> blacks c1" using 1 t(3) by simp
      moreover have "blacks c1 \<subseteq> blacks c'" using 2 by simp
      ultimately show ?thesis by (simp add: subset_trans)
    next
      case Gray
      then have "dfs_edges out es (c, ps @ [cycle_problem e]) = (c', ps')" using 2 Some by simp
      from "2.hyps"(4) [OF Some Gray this] show ?thesis by auto
    next
      case Black
      then show ?thesis using 2 Some by simp
    qed
  qed
qed auto

text \<open>
  Finished (black) nodes: their successors are finished too and none lies on a cycle. This
  is kept as long as no back edge is reported.
\<close>

definition settled :: "(string \<times> edge list) list \<Rightarrow> (string \<times> color) list \<Rightarrow> bool" where
  "settled out c \<longleftrightarrow> follow out (colored c) `` blacks c \<subseteq> blacks c \<and>
     (\<forall>b \<in> blacks c. (b, b) \<notin> (follow out (colored c))\<^sup>+)"

lemma closed_trancl: "(x, y) \<in> r\<^sup>+ \<Longrightarrow> r `` B \<subseteq> B \<Longrightarrow> x \<in> B \<Longrightarrow> y \<in> B"
  by (induction rule: trancl_induct) auto

lemma not_on_cycle_insert:
  assumes "r `` B \<subseteq> B" and "x \<notin> B" and "r `` {x} \<subseteq> B"
  shows "(x, x) \<notin> r\<^sup>+"
proof
  assume "(x, x) \<in> r\<^sup>+"
  then obtain y where "(x, y) \<in> r" and "(y, x) \<in> r\<^sup>*" by (auto dest: tranclD)
  then have "y \<in> B" using assms(3) by auto
  then show False using \<open>(y, x) \<in> r\<^sup>*\<close> closed_trancl [OF _ assms(1)] assms(2)
    by (auto simp: rtrancl_eq_or_trancl)
qed

lemma settled_blacken:
  assumes "settled out c" and "map_of c t = Some Gray"
    and "\<forall>e \<in> set (dict_get_list out t). target_id e \<in> colored c \<longrightarrow> target_id e \<in> blacks c"
  shows "settled out (AList.update t Black c)"
proof -
  have c: "colored (AList.update t Black c) = colored c" using assms(2)
    by (auto simp: dom_update colored_iff)
  have t: "t \<notin> blacks c" using assms(2) by (simp add: blacks_def)
  have s: "follow out (colored c) `` {t} \<subseteq> blacks c" using assms(3) by (auto simp: follow_def)
  have "(t, t) \<notin> (follow out (colored c))\<^sup>+"
    using not_on_cycle_insert [OF _ t s] assms(1) by (simp add: settled_def)
  moreover have "follow out (colored c) `` insert t (blacks c) \<subseteq> insert t (blacks c)"
    using s assms(1) by (auto simp: settled_def)
  ultimately show ?thesis using assms(1) by (simp add: settled_def c)
qed

lemma settled_gray: "map_of c t = Some White \<Longrightarrow> settled out c \<Longrightarrow> settled out (AList.update t Gray c)"
proof -
  assume w: "map_of c t = Some White" and s: "settled out c"
  have "colored (AList.update t Gray c) = colored c" using w by (auto simp: dom_update colored_iff)
  moreover have "t \<notin> blacks c" using w by (simp add: blacks_def)
  then have "blacks (AList.update t Gray c) = blacks c" by simp
  ultimately show ?thesis using s by (simp add: settled_def)
qed

lemma dfs_edges_complete:
  "dfs_edges out es (c, ps) = (c', ps) \<Longrightarrow> settled out c \<Longrightarrow>
   settled out c' \<and> (\<forall>e \<in> set es. target_id e \<in> colored c \<longrightarrow> target_id e \<in> blacks c')"
proof (induction out es "(c, ps)" arbitrary: c ps c' rule: dfs_edges.induct)
  case (2 out e es c ps)
  let ?t = "target_id e"
  show ?case
  proof (cases "map_of c ?t")
    case None
    then show ?thesis using 2 by (auto simp: colored_iff)
  next
    case (Some col)
    show ?thesis
    proof (cases col)
      case White
      obtain c1 ps1 where d: "dfs_edges out (dict_get_list out ?t) (AList.update ?t Gray c, ps) = (c1, ps1)"
        by fastforce
      have e: "dfs_edges out es (AList.update ?t Black c1, ps1) = (c', ps)"
        using "2.prems" Some White d by simp
      have p: "ps1 = ps" using dfs_edges_frame [OF d] dfs_edges_frame [OF e] by auto
      have "?t \<in> colored c" using Some by (simp add: colored_iff)
      then have f: "colored c1 = colored c" "map_of c1 ?t = Some Gray"
        using dfs_edges_frame [OF d] by (auto simp: dom_update grays_iff [symmetric])
      have "settled out c1 \<and> (\<forall>e \<in> set (dict_get_list out ?t). target_id e \<in> colored c \<longrightarrow> target_id e \<in> blacks c1)"
        using "2.hyps"(2) [OF Some White] d p settled_gray [of c ?t] Some White "2.prems"
          dfs_edges_frame [OF d] by (auto simp: dom_update)
      then have "settled out (AList.update ?t Black c1)" using f by (intro settled_blacken) auto
      then have "settled out c' \<and> (\<forall>e \<in> set es. target_id e \<in> colored c \<longrightarrow> target_id e \<in> blacks c')"
        using "2.hyps"(3) [OF Some White d [symmetric]] e p f by (auto simp: dom_update)
      moreover have "?t \<in> blacks c'" using dfs_edges_frame [OF e] by auto
      ultimately show ?thesis by auto
    next
      case Gray
      then have "dfs_edges out es (c, ps @ [cycle_problem e]) = (c', ps)" using 2 Some by simp
      then show ?thesis using dfs_edges_frame by fastforce
    next
      case Black
      then have "dfs_edges out es (c, ps) = (c', ps)" using 2 Some by simp
      then show ?thesis using 2 Some Black dfs_edges_frame [of out es c ps c' ps] by (auto simp: blacks_def)
    qed
  qed
qed auto

text \<open>A reported edge closes a cycle: the grey nodes lie on a path to the current node.\<close>

definition on_cycle :: "(string \<times> string) set \<Rightarrow> edge \<Rightarrow> bool" where
  "on_cycle r e \<longleftrightarrow> (source_id e, target_id e) \<in> r \<and> (target_id e, source_id e) \<in> r\<^sup>*"

lemma dfs_edges_sound:
  "(\<And>i e. e \<in> set (dict_get_list out i) \<Longrightarrow> source_id e = i) \<Longrightarrow>
    dfs_edges out es (c, ps) = (c', ps') \<Longrightarrow> set es \<subseteq> set (dict_get_list out x) \<Longrightarrow>
    \<forall>g \<in> grays c. (g, x) \<in> (follow out (colored c))\<^sup>* \<Longrightarrow>
    set ps' \<subseteq> set ps \<union> cycle_problem ` {e. on_cycle (follow out (colored c)) e}"
proof (induction out es "(c, ps)" arbitrary: c ps c' ps' x rule: dfs_edges.induct)
  case (2 out e es c ps)
  let ?t = "target_id e" and ?E = "follow out (colored c)"
  show ?case
  proof (cases "map_of c ?t")
    case None
    then have e: "dfs_edges out es (c, ps) = (c', ps')" using "2.prems"(2) by simp
    show ?thesis using "2.hyps"(1) [OF None "2.prems"(1) e, of x] "2.prems"(3,4) by simp
  next
    case (Some col)
    then have t: "?t \<in> colored c" by (simp add: colored_iff)
    have xt: "(x, ?t) \<in> ?E" using "2.prems"(3) t by (auto simp: follow_def)
    have sx: "source_id e = x" using "2.prems"(3) by (intro "2.prems"(1)) simp
    show ?thesis
    proof (cases col)
      case White
      obtain c1 ps1 where d: "dfs_edges out (dict_get_list out ?t) (AList.update ?t Gray c, ps) = (c1, ps1)"
        by fastforce
      have e: "dfs_edges out es (AList.update ?t Black c1, ps1) = (c', ps')"
        using "2.prems"(2) Some White d by simp
      have same: "colored (AList.update ?t Gray c) = colored c" "colored (AList.update ?t Black c1) = colored c"
        using dfs_edges_frame [OF d] t by (auto simp: dom_update)
      have "\<forall>g \<in> grays (AList.update ?t Gray c). (g, ?t) \<in> ?E\<^sup>*"
        using "2.prems"(4) xt by (auto intro: rtrancl_into_rtrancl)
      then have 1: "set ps1 \<subseteq> set ps \<union> cycle_problem ` {e. on_cycle ?E e}"
        using "2.hyps"(2) [OF Some White "2.prems"(1) d, of ?t] same by simp
      have "\<forall>g \<in> grays (AList.update ?t Black c1). (g, x) \<in> ?E\<^sup>*"
        using "2.prems"(4) dfs_edges_frame [OF d] by auto
      then have "set ps' \<subseteq> set ps1 \<union> cycle_problem ` {e. on_cycle ?E e}"
        using "2.hyps"(3) [OF Some White d [symmetric] "2.prems"(1) e, of x] "2.prems"(3) same by simp
      with 1 show ?thesis by blast
    next
      case Gray
      then have e: "dfs_edges out es (c, ps @ [cycle_problem e]) = (c', ps')" using "2.prems"(2) Some by simp
      have "(?t, x) \<in> ?E\<^sup>*" using "2.prems"(4) Some Gray by (simp add: grays_iff)
      then have "on_cycle ?E e" using xt sx by (simp add: on_cycle_def)
      moreover have "set ps' \<subseteq> set (ps @ [cycle_problem e]) \<union> cycle_problem ` {e. on_cycle ?E e}"
        using "2.hyps"(4) [OF Some Gray "2.prems"(1) e, of x] "2.prems"(3,4) by auto
      ultimately show ?thesis by auto
    next
      case Black
      then have e: "dfs_edges out es (c, ps) = (c', ps')" using "2.prems"(2) Some by simp
      show ?thesis using "2.hyps"(5) [OF Some Black "2.prems"(1) e, of x] "2.prems"(3,4) by simp
    qed
  qed
qed auto

subsection \<open>The edges between known nodes\<close>

definition edge_rel :: "edge list \<Rightarrow> nodes_by_id \<Rightarrow> (string \<times> string) set" where
  "edge_rel edges by_id = {(source_id e, target_id e) | e. e \<in> set edges \<and>
     known by_id (source_id e) \<and> known by_id (target_id e)}"

lemma outgoing_get [dict_simps]:
  "dict_get_list (outgoing edges by_id) x =
     filter (\<lambda>e. known by_id (source_id e) \<and> known by_id (target_id e) \<and> source_id e = x) edges"
  by (simp add: outgoing_def dict_simps filter_map comp_def conj_ac)

lemma follow_outgoing: "follow (outgoing edges by_id) (fst ` set by_id) = edge_rel edges by_id"
  by (auto simp: follow_def edge_rel_def dict_simps)

lemma outgoing_keyed: "e \<in> set (dict_get_list (outgoing edges by_id) i) \<Longrightarrow> source_id e = i"
  by (simp add: dict_simps)

lemma keys_nodes_index [simp]: "fst ` set (nodes_index nodes) = n_id ` set nodes"
  by (simp add: nodes_index_def dict_simps image_image)

subsection \<open>Cycle detection is exact\<close>

abbreviation visit_roots :: "(string \<times> edge list) list \<Rightarrow> node list \<Rightarrow> dfs_state \<Rightarrow> dfs_state" where
  "visit_roots out \<equiv> fold (\<lambda>n st. if map_of (fst st) (n_id n) = Some White then dfs out (n_id n) st else st)"

lemma dfs_frame:
  assumes w: "map_of c i = Some White" and d: "dfs out i (c, ps) = (c', ps')"
  shows "colored c' = colored c \<and> grays c' = grays c \<and> insert i (blacks c) \<subseteq> blacks c' \<and> (\<exists>qs. ps' = ps @ qs)"
proof -
  obtain c1 where e: "dfs_edges out (dict_get_list out i) (AList.update i Gray c, ps) = (c1, ps')"
    and c': "c' = AList.update i Black c1"
    using d by (auto simp: dfs_def split: prod.splits)
  have i: "i \<in> colored c" "i \<notin> grays c" "i \<notin> blacks c" using w by (auto simp: colored_iff grays_def blacks_def)
  note f = dfs_edges_frame [OF e]
  have "colored c' = colored c" using f i by (simp add: c' dom_update insert_absorb)
  moreover have "grays c' = grays c" using f i by (simp add: c')
  moreover have "insert i (blacks c) \<subseteq> blacks c'" using f i by (auto simp: c')
  ultimately show ?thesis using f by blast
qed

lemma dfs_complete:
  assumes w: "map_of c i = Some White" and d: "dfs out i (c, ps) = (c', ps)" and s: "settled out c"
  shows "settled out c'"
proof -
  obtain c1 where e: "dfs_edges out (dict_get_list out i) (AList.update i Gray c, ps) = (c1, ps)"
    and c': "c' = AList.update i Black c1"
    using d by (auto simp: dfs_def split: prod.splits)
  note f = dfs_edges_frame [OF e]
  have "settled out c1 \<and> (\<forall>e \<in> set (dict_get_list out i). target_id e \<in> colored c1 \<longrightarrow> target_id e \<in> blacks c1)"
    using dfs_edges_complete [OF e settled_gray [OF w s]] f by simp
  moreover have "map_of c1 i = Some Gray" using f by (simp add: grays_iff [symmetric])
  ultimately show ?thesis unfolding c' by (intro settled_blacken) auto
qed

lemma visit_roots_frame:
  "visit_roots out ns (c, ps) = (c', ps') \<Longrightarrow>
   colored c' = colored c \<and> grays c' = grays c \<and> blacks c \<subseteq> blacks c' \<and> (\<exists>qs. ps' = ps @ qs) \<and>
   (grays c = {} \<longrightarrow> (\<forall>n \<in> set ns. n_id n \<in> colored c \<longrightarrow> n_id n \<in> blacks c'))"
proof (induction ns arbitrary: c ps)
  case (Cons n ns)
  obtain c1 ps1 where st: "(if map_of c (n_id n) = Some White then dfs out (n_id n) (c, ps) else (c, ps)) = (c1, ps1)"
    by fastforce
  have e: "visit_roots out ns (c1, ps1) = (c', ps')" using Cons.prems st by simp
  note IH = Cons.IH [OF e]
  have "colored c1 = colored c \<and> grays c1 = grays c \<and> blacks c \<subseteq> blacks c1 \<and> (\<exists>qs. ps1 = ps @ qs) \<and>
    (grays c = {} \<longrightarrow> n_id n \<in> colored c \<longrightarrow> n_id n \<in> blacks c1)"
  proof (cases "map_of c (n_id n) = Some White")
    case True
    then show ?thesis using dfs_frame [OF True, of out ps c1 ps1] st by auto
  next
    case False
    have "map_of c (n_id n) = Some col \<Longrightarrow> grays c = {} \<Longrightarrow> n_id n \<in> blacks c" for col
      using False by (cases col) (auto simp: grays_def blacks_def)
    then show ?thesis using False st by (auto simp: colored_iff)
  qed
  with IH show ?case by (auto simp del: colored_iff)
qed auto

lemma visit_roots_complete:
  "visit_roots out ns (c, ps) = (c', ps) \<Longrightarrow> settled out c \<Longrightarrow> settled out c'"
proof (induction ns arbitrary: c)
  case (Cons n ns)
  obtain c1 ps1 where st: "(if map_of c (n_id n) = Some White then dfs out (n_id n) (c, ps) else (c, ps)) = (c1, ps1)"
    by fastforce
  have e: "visit_roots out ns (c1, ps1) = (c', ps)" using Cons.prems st by simp
  have "ps1 = ps" using visit_roots_frame [OF e] st dfs_frame [of c "n_id n" out ps c1 ps1] by (auto split: if_splits)
  then show ?case using Cons.IH [of c1] e st dfs_complete [of c "n_id n" out ps c1] Cons.prems(2)
    by (auto split: if_splits)
qed auto

lemma visit_roots_sound:
  assumes keyed: "\<And>i e. e \<in> set (dict_get_list out i) \<Longrightarrow> source_id e = i"
  shows "visit_roots out ns (c, ps) = (c', ps') \<Longrightarrow> grays c = {} \<Longrightarrow>
    set ps' \<subseteq> set ps \<union> cycle_problem ` {e. on_cycle (follow out (colored c)) e}"
proof (induction ns arbitrary: c ps)
  case (Cons n ns)
  show ?case
  proof (cases "map_of c (n_id n) = Some White")
    case False
    then show ?thesis using Cons by simp
  next
    case True
    obtain c1 ps1 where d: "dfs out (n_id n) (c, ps) = (c1, ps1)" by fastforce
    obtain c2 where e: "dfs_edges out (dict_get_list out (n_id n)) (AList.update (n_id n) Gray c, ps) = (c2, ps1)"
      using d by (auto simp: dfs_def split: prod.splits)
    have same: "colored (AList.update (n_id n) Gray c) = colored c"
      using True by (auto simp: dom_update colored_iff)
    have "set ps1 \<subseteq> set ps \<union> cycle_problem ` {e. on_cycle (follow out (colored c)) e}"
      using dfs_edges_sound [OF keyed e, of "n_id n"] Cons.prems(2) same by simp
    moreover have "set ps' \<subseteq> set ps1 \<union> cycle_problem ` {e. on_cycle (follow out (colored c)) e}"
      using Cons.IH [of c1 ps1] Cons.prems d True dfs_frame [OF True d] by simp
    ultimately show ?thesis by blast
  qed
qed auto

lemma initial_colors:
  "colored (map (\<lambda>(i, n). (i, White)) d) = fst ` set d"
  "grays (map (\<lambda>(i, n). (i, White)) d) = {}" "blacks (map (\<lambda>(i, n). (i, White)) d) = {}"
proof -
  have "map_of (map (\<lambda>(i, n). (i, White)) d) i \<noteq> Some Gray \<and> map_of (map (\<lambda>(i, n). (i, White)) d) i \<noteq> Some Black" for i
    by (induction d) auto
  then show "grays (map (\<lambda>(i, n). (i, White)) d) = {}" "blacks (map (\<lambda>(i, n). (i, White)) d) = {}"
    by (auto simp: grays_def blacks_def)
qed force

lemma cycle_problems_sound:
  "set (cycle_problems nodes edges by_id) \<subseteq> cycle_problem ` {e. on_cycle (edge_rel edges by_id) e}"
proof -
  let ?out = "outgoing edges by_id" and ?c = "map (\<lambda>(i, n). (i, White)) by_id"
  obtain c' ps' where v: "visit_roots ?out nodes (?c, []) = (c', ps')" by fastforce
  have "set ps' \<subseteq> set [] \<union> cycle_problem ` {e. on_cycle (follow ?out (colored ?c)) e}"
    by (rule visit_roots_sound [OF _ v]) (erule outgoing_keyed, rule initial_colors)
  then have "set ps' \<subseteq> cycle_problem ` {e. on_cycle (edge_rel edges by_id) e}"
    unfolding initial_colors follow_outgoing by simp
  then show ?thesis using v by (simp add: cycle_problems_def)
qed

lemma cycle_problems_complete:
  assumes "cycle_problems nodes edges (nodes_index nodes) = []"
  shows "acyclic (edge_rel edges (nodes_index nodes))"
proof -
  let ?d = "nodes_index nodes"
  let ?out = "outgoing edges ?d" and ?c = "map (\<lambda>(i, n). (i, White)) ?d"
  obtain c' ps' where v': "visit_roots ?out nodes (?c, []) = (c', ps')" by fastforce
  then have "ps' = []" using assms by (simp add: cycle_problems_def)
  with v' have v: "visit_roots ?out nodes (?c, []) = (c', [])" by simp
  note f = visit_roots_frame [OF v]
  have "settled ?out ?c" by (simp add: settled_def initial_colors)
  with v have "settled ?out c'" by (rule visit_roots_complete)
  moreover have ck: "colored ?c = n_id ` set nodes" by (simp only: initial_colors keys_nodes_index)
  then have col: "colored c' = n_id ` set nodes" using f by simp
  moreover have "n_id ` set nodes \<subseteq> blacks c'" using f unfolding ck initial_colors by auto
  ultimately have no: "\<forall>b \<in> n_id ` set nodes. (b, b) \<notin> (edge_rel edges ?d)\<^sup>+"
    using follow_outgoing [of edges ?d] by (auto simp: settled_def)
  have "(x, y) \<in> edge_rel edges ?d \<Longrightarrow> x \<in> n_id ` set nodes" for x y by (auto simp: edge_rel_def)
  then have "(x, x) \<in> (edge_rel edges ?d)\<^sup>+ \<Longrightarrow> x \<in> n_id ` set nodes" for x by (meson tranclD)
  with no show ?thesis by (auto simp: acyclic_def)
qed

lemma on_cycle_not_acyclic: "on_cycle r e \<Longrightarrow> \<not> acyclic r"
  by (auto simp: on_cycle_def acyclic_def intro: rtrancl_into_trancl2)

lemma cycle_problems_exact:
  "cycle_problems nodes edges (nodes_index nodes) = [] \<longleftrightarrow> acyclic (edge_rel edges (nodes_index nodes))"
proof
  assume a: "acyclic (edge_rel edges (nodes_index nodes))"
  then have "{e. on_cycle (edge_rel edges (nodes_index nodes)) e} = {}"
    by (auto dest: on_cycle_not_acyclic)
  then show "cycle_problems nodes edges (nodes_index nodes) = []"
    using cycle_problems_sound [of nodes edges "nodes_index nodes"] by simp
qed (rule cycle_problems_complete)

section \<open>What the traversals compute\<close>

definition frame_rel :: "edge list \<Rightarrow> nodes_by_id \<Rightarrow> (string \<times> string) set" where
  "frame_rel edges by_id = {(source_id e, target_id e) | e. e \<in> set edges \<and>
     known by_id (source_id e) \<and> known by_id (target_id e) \<and>
     \<not> crosses_frame (source_id e) (target_id e) by_id}"

lemma dict_get_add [dict_simps]:
  "set (dict_get_list (dict_add k v d) x) = set (dict_get_list d x) \<union> (if x = k then {v} else {})"
  by (simp add: dict_add_def dict_simps)

lemma incoming_step_get:
  "set (dict_get_list (incoming_step by_id e d) t) =
     set (dict_get_list d t) \<union> {s. (s, t) \<in> frame_rel [e] by_id}"
  by (auto simp: incoming_step_def dict_simps frame_rel_def simp del: image_iff)

lemma incoming_fold:
  "set (dict_get_list (fold (incoming_step by_id) edges d) t) =
   set (dict_get_list d t) \<union> {s. (s, t) \<in> frame_rel edges by_id}"
proof (induction edges arbitrary: d)
  case Nil
  then show ?case by (simp add: frame_rel_def)
next
  case (Cons e edges)
  have "frame_rel (e # edges) by_id = frame_rel [e] by_id \<union> frame_rel edges by_id"
    by (auto simp: frame_rel_def)
  then show ?case by (auto simp: Cons.IH incoming_step_get)
qed

lemma dict_get_list_blank [simp]: "dict_get_list (map (\<lambda>(i, n). (i, [])) d) x = []"
  by (induction d) (auto simp: dict_get_list_def)

lemma incoming_sets_get [dict_simps]:
  "set (dict_get_list (incoming_sets by_id edges) t) = {s. (s, t) \<in> frame_rel edges by_id}"
  by (simp add: incoming_sets_def incoming_fold)

lemma adj_rel_incoming: "adj_rel (incoming_sets by_id edges) = (frame_rel edges by_id)\<inverse>"
  by (auto simp: dict_simps)

lemma map_of_keyed: "map_of (map (\<lambda>(i, n). (i, f i)) d) i = (if i \<in> fst ` set d then Some (f i) else None)"
  by (induction d) auto

lemma ancestors_get:
  "set (dict_get_list (ancestors by_id edges) i) =
     (if known by_id i then {a. (a, i) \<in> (frame_rel edges by_id)\<^sup>+} else {})"
proof -
  have "set (pop_search inc (dict_get_list inc i)) = {a. (a, i) \<in> (frame_rel edges by_id)\<^sup>+}"
    if "inc = incoming_sets by_id edges" for inc
    by (simp add: that pop.search_of_succs adj_rel_incoming trancl_converse)
  then show ?thesis
    by (simp add: ancestors_def Let_def dict_get_list_def [of "map _ _"] map_of_keyed)
qed

lemma map_of_map_snd: "map_of (map (\<lambda>(i, x). (i, f x)) d) i = map_option f (map_of d i)"
  by (induction d) auto

lemma pushed_get: "set (dict_get_list (pushed_ids edges by_id) x) = {t. (x, t) \<in> edge_rel edges by_id}"
proof -
  have "dict_get_list (pushed_ids edges by_id) x =
      filter (known by_id) (map target_id (dict_get_list (outgoing edges by_id) x))"
    by (simp add: pushed_ids_def dict_get_list_def map_of_map_snd split: option.splits)
  then show ?thesis by (auto simp: dict_simps edge_rel_def)
qed

lemma reachable_ids_set:
  "set (reachable_ids nodes edges by_id by_type) =
     (edge_rel edges by_id)\<^sup>* `` {n_id n | n. n \<in> set nodes \<and> is_trigger n by_type}"
proof -
  have "adj_rel (pushed_ids edges by_id) = edge_rel edges by_id" by (auto simp: pushed_get)
  then show ?thesis by (auto simp: reachable_ids_def pop.search_set)
qed

end
