(* ===== verification/Channel_Topo.thy ===== *)
theory Channel_Topo
  imports Channel_Graph
begin

text \<open>
  \<open>_topo\<close> of \<open>backend/channel/graph.py\<close>: Kahn's algorithm with a stack of ready nodes. The
  order lists every node once; on an acyclic graph the source of every edge comes before its
  target, which is what lets \<open>refine_ports\<close> read the outputs of the ancestors.
\<close>

section \<open>Topological order\<close>

type_synonym counts = "(string \<times> int) list"

definition count_of :: "counts \<Rightarrow> string \<Rightarrow> int" where
  "count_of inc i = (case map_of inc i of None \<Rightarrow> 0 | Some n \<Rightarrow> n)"

lemma count_of_update [simp]: "count_of (AList.update k n inc) i = (if i = k then n else count_of inc i)"
  by (simp add: count_of_def update_conv')

text \<open>The loop over the children of an ordered node; a child whose count drops to zero is ready.\<close>

fun topo_kids :: "string list \<Rightarrow> counts \<Rightarrow> string list \<Rightarrow> counts \<times> string list" where
  "topo_kids [] inc ready = (inc, ready)"
| "topo_kids (c # cs) inc ready =
     (let n = count_of inc c - 1
      in topo_kids cs (AList.update c n inc) (if n = 0 then c # ready else ready))"

definition topo_potential :: "counts \<Rightarrow> nat" where
  "topo_potential inc = (\<Sum>k \<in> fst ` set inc. nat (count_of inc k))"

lemma topo_potential_update:
  assumes "n \<le> 0 \<or> c \<in> fst ` set inc"
  shows "topo_potential (AList.update c n inc) + nat (count_of inc c) = topo_potential inc + nat n"
proof -
  let ?K = "fst ` set inc"
  have "topo_potential (AList.update c n inc) = (\<Sum>k \<in> insert c ?K. nat (if k = c then n else count_of inc k))"
    by (simp add: topo_potential_def dom_update)
  also have "\<dots> = nat n + (\<Sum>k \<in> ?K - {c}. nat (count_of inc k))"
    by (subst sum.insert_remove) (auto intro!: sum.cong)
  finally have 1: "topo_potential (AList.update c n inc) = nat n + (\<Sum>k \<in> ?K - {c}. nat (count_of inc k))" .
  show ?thesis
  proof (cases "c \<in> ?K")
    case True
    then show ?thesis using 1 by (simp add: topo_potential_def sum.remove [of ?K c])
  next
    case False
    then have "count_of inc c = 0" by (simp add: count_of_def map_of_eq_None_iff [symmetric] split: option.splits)
    then show ?thesis using 1 False assms by (simp add: topo_potential_def)
  qed
qed

lemma topo_kids_potential:
  "topo_kids cs inc ready = (inc', ready') \<Longrightarrow>
   topo_potential inc' + length ready' \<le> topo_potential inc + length ready"
proof (induction cs arbitrary: inc ready)
  case (Cons c cs)
  let ?n = "count_of inc c - 1"
  have "?n \<le> 0 \<or> c \<in> fst ` set inc"
    by (cases "map_of inc c") (auto simp: count_of_def dest: map_of_SomeD intro: rev_image_eqI)
  then have p: "topo_potential (AList.update c ?n inc) + nat (count_of inc c) = topo_potential inc + nat ?n"
    by (rule topo_potential_update)
  have "topo_potential inc' + length ready' \<le>
      topo_potential (AList.update c ?n inc) + length (if ?n = 0 then c # ready else ready)"
    using Cons by (simp add: Let_def)
  then show ?case using p by (auto split: if_splits)
qed auto

function topo_loop :: "(string \<times> string list) list \<Rightarrow> counts \<Rightarrow> string list \<Rightarrow> string list \<Rightarrow> string list" where
  "topo_loop out inc [] ordered = ordered"
| "topo_loop out inc (i # ready) ordered =
     (case topo_kids (dict_get_list out i) inc ready of
        (inc', ready') \<Rightarrow> topo_loop out inc' ready' (ordered @ [i]))"
  by pat_completeness auto

termination topo_loop
  apply (relation "measure (\<lambda>(out, inc, ready, ordered). topo_potential inc + length ready)")
   apply simp
  subgoal for out inc i ready ordered inc' ready'
    using topo_kids_potential [of "dict_get_list out i" inc ready inc' ready']
    by (auto split: prod.splits)
  done

text \<open>The first loop of \<open>_topo\<close>: child lists and in-degrees.\<close>

definition topo_children :: "edge list \<Rightarrow> nodes_by_id \<Rightarrow> (string \<times> string list) list" where
  "topo_children edges by_id =
     dict_group (map (\<lambda>e. (source_id e, target_id e))
        (filter (\<lambda>e. known by_id (source_id e) \<and> known by_id (target_id e)) edges))
       (map (\<lambda>(i, n). (i, [])) by_id)"

definition topo_counts :: "edge list \<Rightarrow> nodes_by_id \<Rightarrow> counts" where
  "topo_counts edges by_id =
     fold (\<lambda>e inc. AList.update (target_id e) (count_of inc (target_id e) + 1) inc)
       (filter (\<lambda>e. known by_id (source_id e) \<and> known by_id (target_id e)) edges)
       (map (\<lambda>(i, n). (i, 0)) by_id)"

definition topo_ids :: "edge list \<Rightarrow> nodes_by_id \<Rightarrow> string list" where
  "topo_ids edges by_id =
     (let inc = topo_counts edges by_id;
          ready = map fst (filter (\<lambda>(i, n). n = 0) inc);
          ordered = topo_loop (topo_children edges by_id) inc (rev ready) []
      in ordered @ filter (\<lambda>i. i \<notin> set ordered) (map fst by_id))"

definition topo :: "node list \<Rightarrow> edge list \<Rightarrow> nodes_by_id \<Rightarrow> node list" where
  "topo nodes edges by_id = List.map_filter (map_of by_id) (topo_ids edges by_id)"

subsection \<open>Correctness\<close>


definition known_edges :: "edge list \<Rightarrow> nodes_by_id \<Rightarrow> edge list" where
  "known_edges edges by_id = filter (\<lambda>e. known by_id (source_id e) \<and> known by_id (target_id e)) edges"

lemma edge_rel_known: "edge_rel edges by_id = {(source_id e, target_id e) | e. e \<in> set (known_edges edges by_id)}"
  by (auto simp: edge_rel_def known_edges_def)

lemma topo_children_get:
  "dict_get_list (topo_children edges by_id) i =
     map target_id (filter (\<lambda>e. source_id e = i) (known_edges edges by_id))"
  by (simp add: topo_children_def known_edges_def dict_simps filter_map comp_def)

lemma topo_counts_fold:
  "count_of (fold (\<lambda>e inc. AList.update (target_id e) (count_of inc (target_id e) + 1) inc) es inc) t =
     count_of inc t + int (length (filter (\<lambda>e. target_id e = t) es))"
  by (induction es arbitrary: inc) auto

lemma count_of_zero [simp]: "count_of (map (\<lambda>(i, n). (i, 0)) d) t = 0"
  by (simp add: count_of_def map_of_keyed)

lemma topo_counts_get:
  "count_of (topo_counts edges by_id) t = int (length (filter (\<lambda>e. target_id e = t) (known_edges edges by_id)))"
  by (simp add: topo_counts_def known_edges_def topo_counts_fold del: filter_filter)

lemma update_keys_present: "k \<in> fst ` set d \<Longrightarrow> map fst (AList.update k v d) = map fst d"
  by (simp add: update_keys)

lemma topo_counts_keys: "map fst (topo_counts edges by_id) = map fst by_id"
proof -
  have gen: "\<forall>e \<in> set es. target_id e \<in> fst ` set d \<Longrightarrow>
    map fst (fold (\<lambda>e inc. AList.update (target_id e) (count_of inc (target_id e) + 1) inc) es d) = map fst d"
    for es :: "edge list" and d :: counts
  proof (induction es arbitrary: d)
    case (Cons e es)
    let ?d = "AList.update (target_id e) (count_of d (target_id e) + 1) d"
    have k: "map fst ?d = map fst d" using Cons.prems by (intro update_keys_present) simp
    then have "fst ` set ?d = fst ` set d" by (metis list.set_map)
    then show ?case using Cons k by simp
  qed simp
  have K: "fst ` set (map (\<lambda>(i, n). (i, 0 :: int)) by_id) = fst ` set by_id" by force
  show ?thesis unfolding topo_counts_def
  proof (rule trans [OF gen])
    show "map fst (map (\<lambda>(i, n). (i, 0 :: int)) by_id) = map fst by_id" by (simp add: comp_def case_prod_beta)
  qed (unfold K, simp)
qed

lemma topo_kids_spec:
  "topo_kids cs inc ready = (inc', ready') \<Longrightarrow> \<forall>c \<in> set cs. int (count_list cs c) \<le> count_of inc c \<Longrightarrow>
   (\<forall>i. count_of inc' i = count_of inc i - int (count_list cs i)) \<and>
   set ready' = set ready \<union> {c \<in> set cs. count_of inc c = int (count_list cs c)} \<and>
   (distinct ready \<and> set ready \<inter> set cs = {} \<longrightarrow> distinct ready')"
proof (induction cs arbitrary: inc ready)
  case (Cons c cs)
  let ?n = "count_of inc c - 1"
  let ?inc = "AList.update c ?n inc" and ?ready = "if ?n = 0 then c # ready else ready"
  have e: "topo_kids cs ?inc ?ready = (inc', ready')" using Cons.prems(1) by (simp add: Let_def)
  have b: "\<forall>d \<in> set cs. int (count_list cs d) \<le> count_of ?inc d" using Cons.prems(2) by (auto split: if_splits)
  note IH = Cons.IH [OF e b]
  have c: "int (count_list cs c) \<le> ?n" using Cons.prems(2) by simp
  have nc: "c \<notin> set cs \<longleftrightarrow> count_list cs c = 0" by (simp add: count_list_0_iff)
  have new: "d \<in> set cs \<Longrightarrow> count_of ?inc d = int (count_list cs d) \<longleftrightarrow> count_of inc d = int (count_list (c # cs) d)" for d
    by auto
  have "{d \<in> set (c # cs). count_of inc d = int (count_list (c # cs) d)} =
      {d \<in> set cs. count_of ?inc d = int (count_list cs d)} \<union> (if ?n = 0 then {c} else {})"
    using new c nc by (cases "c \<in> set cs") auto
  then have "set ready' = set ready \<union> {d \<in> set (c # cs). count_of inc d = int (count_list (c # cs) d)}"
    using IH by (cases "?n = 0") auto
  moreover have "\<forall>i. count_of inc' i = count_of inc i - int (count_list (c # cs) i)" using IH by auto
  moreover have "distinct ready \<and> set ready \<inter> set (c # cs) = {} \<longrightarrow> distinct ready'"
    using IH c nc by (auto split: if_splits)
  ultimately show ?case by blast
qed simp

definition topo_inv :: "edge list \<Rightarrow> string set \<Rightarrow> counts \<Rightarrow> string list \<Rightarrow> string list \<Rightarrow> bool" where
  "topo_inv es K inc ready ordered \<longleftrightarrow>
     (\<forall>t. count_of inc t = int (length (filter (\<lambda>e. target_id e = t \<and> source_id e \<notin> set ordered) es))) \<and>
     distinct (ordered @ ready) \<and>
     set ordered \<union> set ready = {t \<in> K. count_of inc t = 0} \<and>
     (\<forall>a t b. ordered = a @ t # b \<longrightarrow> (\<forall>e \<in> set es. target_id e = t \<longrightarrow> source_id e \<in> set a))"

lemma count_list_targets:
  "count_list (map target_id (filter P es)) t = length (filter (\<lambda>e. target_id e = t \<and> P e) es)"
  by (induction es) auto

lemma filter_source_split:
  "i \<notin> A \<Longrightarrow> length (filter (\<lambda>e. target_id e = t \<and> source_id e \<notin> A) es) =
     length (filter (\<lambda>e. target_id e = t \<and> source_id e \<notin> insert i A) es) +
     length (filter (\<lambda>e. target_id e = t \<and> source_id e = i) es)"
  by (induction es) auto

lemma topo_inv_step:
  assumes inv: "topo_inv es K inc (i # ready) ordered" and K: "\<forall>e \<in> set es. target_id e \<in> K"
    and kids: "topo_kids (map target_id (filter (\<lambda>e. source_id e = i) es)) inc ready = (inc', ready')"
  shows "topo_inv es K inc' ready' (ordered @ [i])"
proof -
  define cs where "cs = map target_id (filter (\<lambda>e. source_id e = i) es)"
  have csK: "set cs \<subseteq> K" using K by (auto simp: cs_def)
  have cnt: "\<And>t. count_of inc t = int (length (filter (\<lambda>e. target_id e = t \<and> source_id e \<notin> set ordered) es))"
    and dist: "distinct (ordered @ i # ready)"
    and zero: "set ordered \<union> set (i # ready) = {t \<in> K. count_of inc t = 0}"
    and pre: "\<And>a t b. ordered = a @ t # b \<Longrightarrow> \<forall>e \<in> set es. target_id e = t \<longrightarrow> source_id e \<in> set a"
    using inv unfolding topo_inv_def by blast+
  have parts: "count_of inc t = int (length (filter (\<lambda>e. target_id e = t \<and> source_id e \<notin> insert i (set ordered)) es)) +
      int (count_list cs t)" for t
    using dist by (simp add: cnt cs_def count_list_targets filter_source_split [of i "set ordered"])
  have spec: "(\<forall>t. count_of inc' t = count_of inc t - int (count_list cs t)) \<and>
      set ready' = set ready \<union> {c \<in> set cs. count_of inc c = int (count_list cs c)} \<and>
      (distinct ready \<and> set ready \<inter> set cs = {} \<longrightarrow> distinct ready')"
    using kids unfolding cs_def [symmetric] by (rule topo_kids_spec) (simp add: parts)
  have pos: "t \<in> set cs \<Longrightarrow> count_of inc t \<noteq> 0" for t
    using parts [of t] count_list_0_iff [of cs t] by simp
  have nz: "count_of inc t = 0 \<Longrightarrow> t \<notin> set cs" for t using pos by blast
  have "count_of inc' t = 0 \<longleftrightarrow> count_of inc t = 0 \<or> (t \<in> set cs \<and> count_of inc t = int (count_list cs t))" for t
    using spec nz [of t] count_list_0_iff [of cs t] by (cases "t \<in> set cs") auto
  then have zero': "set (ordered @ [i]) \<union> set ready' = {t \<in> K. count_of inc' t = 0}"
    using spec zero csK by auto
  have "set ready' \<inter> set (ordered @ [i]) = {}" and "distinct ready'"
    using spec pos dist zero by (auto)
  then have "distinct ((ordered @ [i]) @ ready')" using dist by auto
  moreover have "ordered @ [i] = a @ t # b \<Longrightarrow> \<forall>e \<in> set es. target_id e = t \<longrightarrow> source_id e \<in> set a" for a t b
  proof (cases b rule: rev_cases)
    case Nil
    assume "ordered @ [i] = a @ t # b"
    moreover have "count_of inc i = 0" using zero by auto
    ultimately show ?thesis using Nil cnt [of i] by (auto simp: filter_empty_conv)
  next
    case (snoc b' x)
    assume "ordered @ [i] = a @ t # b"
    then have "ordered = a @ t # b'" using snoc by simp
    then show ?thesis by (rule pre)
  qed
  moreover have "count_of inc' t = int (length (filter (\<lambda>e. target_id e = t \<and> source_id e \<notin> set (ordered @ [i])) es))" for t
    using spec parts [of t] by simp
  ultimately show ?thesis using zero' unfolding topo_inv_def by blast
qed

lemma topo_loop_inv:
  "topo_inv es K inc ready ordered \<Longrightarrow> \<forall>e \<in> set es. target_id e \<in> K \<Longrightarrow>
   (\<And>i. dict_get_list out i = map target_id (filter (\<lambda>e. source_id e = i) es)) \<Longrightarrow>
   \<exists>inc'. topo_inv es K inc' [] (topo_loop out inc ready ordered)"
proof (induction out inc ready ordered rule: topo_loop.induct)
  case (2 out inc i ready ordered)
  obtain inc' ready' where k: "topo_kids (dict_get_list out i) inc ready = (inc', ready')" by fastforce
  then have "topo_inv es K inc' ready' (ordered @ [i])"
    using topo_inv_step [OF "2.prems"(1,2)] "2.prems"(3) by simp
  from "2.IH" [OF k [symmetric] this "2.prems"(2,3)] show ?case using k by simp
qed auto

definition precedes :: "string list \<Rightarrow> string \<Rightarrow> string \<Rightarrow> bool" where
  "precedes xs s t \<longleftrightarrow> (\<exists>a b. xs = a @ t # b \<and> s \<in> set a)"

lemma topo_ordered:
  assumes "distinct (map fst by_id)"
  obtains ordered where
    "topo_ids edges by_id = ordered @ filter (\<lambda>i. i \<notin> set ordered) (map fst by_id)"
    and "distinct ordered" and "set ordered \<subseteq> fst ` set by_id"
    and "\<forall>a t b s. ordered = a @ t # b \<longrightarrow> (s, t) \<in> edge_rel edges by_id \<longrightarrow> s \<in> set a"
    and "\<forall>t \<in> fst ` set by_id - set ordered. \<exists>s. s \<in> fst ` set by_id - set ordered \<and> (s, t) \<in> edge_rel edges by_id"
proof -
  let ?es = "known_edges edges by_id" and ?K = "fst ` set by_id" and ?inc = "topo_counts edges by_id"
  let ?ready = "rev (map fst (filter (\<lambda>(i, n). n = 0) ?inc))"
  let ?ordered = "topo_loop (topo_children edges by_id) ?inc ?ready []"
  have keys: "fst ` set ?inc = ?K" by (metis list.set_map topo_counts_keys)
  have d: "distinct (map fst ?inc)" using assms by (simp add: topo_counts_keys)
  have "set ?ready = {t \<in> ?K. count_of ?inc t = 0}"
  proof (intro set_eqI iffI)
    fix t assume "t \<in> set ?ready"
    then have "(t, 0) \<in> set ?inc" by auto
    then show "t \<in> {t \<in> ?K. count_of ?inc t = 0}"
      using d keys by (force simp: count_of_def map_of_is_SomeI)
  next
    fix t assume t: "t \<in> {t \<in> ?K. count_of ?inc t = 0}"
    then obtain n where n: "(t, n) \<in> set ?inc" using keys by force
    then have "n = 0" using t d by (simp add: count_of_def map_of_is_SomeI)
    with n show "t \<in> set ?ready" by force
  qed
  moreover have "distinct ?ready" using d by (simp add: distinct_map_filter)
  ultimately have "topo_inv ?es ?K ?inc ?ready []"
    by (simp add: topo_inv_def topo_counts_get)
  moreover have K: "\<forall>e \<in> set ?es. target_id e \<in> ?K" "\<forall>e \<in> set ?es. source_id e \<in> ?K"
    by (simp_all add: known_edges_def)
  ultimately obtain inc' where inv: "topo_inv ?es ?K inc' [] ?ordered"
    using topo_loop_inv [of ?es ?K ?inc ?ready "[]" "topo_children edges by_id"] topo_children_get by blast
  have cnt: "\<And>t. count_of inc' t = int (length (filter (\<lambda>e. target_id e = t \<and> source_id e \<notin> set ?ordered) ?es))"
    and zd: "set ?ordered \<union> set [] = {t \<in> ?K. count_of inc' t = 0}" "distinct (?ordered @ [])"
    and pre: "\<And>a t b. ?ordered = a @ t # b \<Longrightarrow> \<forall>e \<in> set ?es. target_id e = t \<longrightarrow> source_id e \<in> set a"
    using inv unfolding topo_inv_def by blast+
  have zero: "set ?ordered = {t \<in> ?K. count_of inc' t = 0}" and dist: "distinct ?ordered" using zd by simp_all
  have "\<exists>s. s \<in> ?K - set ?ordered \<and> (s, t) \<in> edge_rel edges by_id" if t: "t \<in> ?K - set ?ordered" for t
  proof -
    have "count_of inc' t \<noteq> 0" using t zero by simp
    then have "filter (\<lambda>e. target_id e = t \<and> source_id e \<notin> set ?ordered) ?es \<noteq> []" using cnt [of t] by auto
    then obtain e where "e \<in> set ?es" "target_id e = t" "source_id e \<notin> set ?ordered"
      by (auto simp: filter_empty_conv)
    then have "source_id e \<in> ?K - set ?ordered \<and> (source_id e, t) \<in> edge_rel edges by_id"
      using K(2) unfolding edge_rel_known by blast
    then show ?thesis by blast
  qed
  then have S: "\<forall>t \<in> ?K - set ?ordered. \<exists>s. s \<in> ?K - set ?ordered \<and> (s, t) \<in> edge_rel edges by_id" by blast
  have P: "\<forall>a t b s. ?ordered = a @ t # b \<longrightarrow> (s, t) \<in> edge_rel edges by_id \<longrightarrow> s \<in> set a"
    using pre by (auto simp: edge_rel_known)
  have T: "topo_ids edges by_id = ?ordered @ filter (\<lambda>i. i \<notin> set ?ordered) (map fst by_id)"
    by (simp add: topo_ids_def Let_def)
  have "set ?ordered \<subseteq> ?K" using zero by blast
  then show ?thesis by (rule that [OF T dist _ P S])
qed

lemma topo_ids_perm:
  assumes "distinct (map fst by_id)"
  shows "distinct (topo_ids edges by_id) \<and> set (topo_ids edges by_id) = fst ` set by_id"
proof -
  obtain ordered where o: "topo_ids edges by_id = ordered @ filter (\<lambda>i. i \<notin> set ordered) (map fst by_id)"
    and "distinct ordered" and "set ordered \<subseteq> fst ` set by_id"
    by (rule topo_ordered [OF assms, of edges]) (rule that)
  moreover have "set (filter (\<lambda>i. i \<notin> set ordered) (map fst by_id)) = fst ` set by_id - set ordered"
    by (simp add: set_diff_eq)
  ultimately show ?thesis using assms by (simp add: o del: set_filter) blast
qed

lemma finite_edge_rel: "finite (edge_rel edges by_id)"
  by (rule finite_subset [of _ "(\<lambda>e. (source_id e, target_id e)) ` set edges"]) (auto simp: edge_rel_def)

lemma topo_ids_respects:
  assumes d: "distinct (map fst by_id)" and ac: "acyclic (edge_rel edges by_id)"
    and st: "(s, t) \<in> edge_rel edges by_id"
  shows "precedes (topo_ids edges by_id) s t"
proof -
  obtain ordered where o: "topo_ids edges by_id = ordered @ filter (\<lambda>i. i \<notin> set ordered) (map fst by_id)"
    and "distinct ordered" and "set ordered \<subseteq> fst ` set by_id"
    and pre: "\<forall>a t b s. ordered = a @ t # b \<longrightarrow> (s, t) \<in> edge_rel edges by_id \<longrightarrow> s \<in> set a"
    and stuck: "\<forall>t \<in> fst ` set by_id - set ordered. \<exists>s. s \<in> fst ` set by_id - set ordered \<and> (s, t) \<in> edge_rel edges by_id"
    by (rule topo_ordered [OF d, of edges]) (rule that)
  have wf: "wf (edge_rel edges by_id)" by (rule finite_acyclic_wf [OF finite_edge_rel ac])
  have "fst ` set by_id - set ordered = {}"
  proof (rule ccontr)
    assume "fst ` set by_id - set ordered \<noteq> {}"
    then obtain t where "t \<in> fst ` set by_id - set ordered"
      and "\<And>s. (s, t) \<in> edge_rel edges by_id \<Longrightarrow> s \<notin> fst ` set by_id - set ordered"
      using wf by (metis wfE_min')
    then show False using stuck by blast
  qed
  then have "t \<in> set ordered" using st by (auto simp: edge_rel_def)
  then obtain a b where ab: "ordered = a @ t # b" by (auto dest: split_list)
  then show ?thesis using pre ab st o by (auto simp: precedes_def)
qed

end
