(* ===== verification/Channel_Validate.thy ===== *)
theory Channel_Validate
  imports Channel_Topo
begin

text \<open>
  The draft validation of \<open>backend/channel/graph.py\<close>: one definition per problem pass, the
  order of \<open>validate\<close>, and \<open>refine_ports\<close>.

  Parameters stand for code outside this model: \<open>iter_errors\<close> for the JSON Schema validator
  of the \<open>jsonschema\<close> package, a \<open>template_lib\<close> for the template parser (it rests on
  Python's own parser) and its static check. \<open>None\<close> is an exception that leaves a pass: the
  only one is the \<open>next\<close> without a default in \<open>_missing_required\<close>.
\<close>

section \<open>Parameters\<close>

record schema_error =
  se_message :: string
  se_path :: path
  se_validator :: string
  se_validator_value :: "string list"
  se_instance_keys :: "string list"

type_synonym iter_errors = "json \<Rightarrow> json \<Rightarrow> schema_error list"

record template =
  tp_refs :: "string list"
  tp_node_names :: "string list"

datatype static_status = Static_Ok | Static_Unknown | Static_Mismatch

record template_lib =
  tl_parse :: "string \<Rightarrow> template option"
  tl_static :: "string \<Rightarrow> json \<Rightarrow> static_status"

section \<open>Names, refs, policies\<close>

definition name_problems :: "node list \<Rightarrow> problem list" where
  "name_problems nodes =
     map (\<lambda>n. mk_problem ''CHANNEL_NODE_NAME_DUP'' ''Node name is duplicated'' (Some (n_id n)) None)
       (repeats {} n_name nodes)"

definition reserved_refs :: "string list" where
  "reserved_refs = [''nodes'', ''channel'', ''run'', ''platform'']"

definition ref_usable :: "string option \<Rightarrow> bool" where
  "ref_usable r =
     (case r of None \<Rightarrow> False
      | Some ref \<Rightarrow> is_identifier ref \<and> ref \<notin> set py_keywords \<and> \<not> starts_with ref ''_'' \<and>
          ref \<notin> set reserved_refs)"

fun ref_problems_from :: "string set \<Rightarrow> node list \<Rightarrow> problem list" where
  "ref_problems_from seen [] = []"
| "ref_problems_from seen (n # ns) =
     (if \<not> ref_usable (n_ref n)
      then mk_problem ''CHANNEL_NODE_REF_INVALID'' ''Node ref is not a usable Python identifier''
             (Some (n_id n)) None # ref_problems_from seen ns
      else if the (n_ref n) \<in> seen
      then mk_problem ''CHANNEL_NODE_REF_INVALID'' ''Node ref is duplicated'' (Some (n_id n)) None
             # ref_problems_from seen ns
      else ref_problems_from (insert (the (n_ref n)) seen) ns)"

definition ref_problems :: "node list \<Rightarrow> problem list" where
  "ref_problems nodes = ref_problems_from {} nodes"

definition has_port :: "port_spec list \<Rightarrow> string \<Rightarrow> bool" where
  "has_port ports name = list_ex (\<lambda>p. ps_port p = name) ports"

definition policy_problems :: "node list \<Rightarrow> 'x types_by_id \<Rightarrow> problem list" where
  "policy_problems nodes by_type =
     map (\<lambda>n. mk_problem ''CHANNEL_NODE_POLICY_UNSUPPORTED'' ''on_error error_output requires an error output''
            (Some (n_id n)) None)
       (filter (\<lambda>n. n_on_error n = Some ''error_output'' \<and>
          \<not> (case map_of by_type (n_type n) of None \<Rightarrow> False | Some spec \<Rightarrow> has_port (nt_outputs spec) ''error''))
        nodes)"

section \<open>Configuration\<close>

definition missing_required :: "schema_error \<Rightarrow> string option" where
  "missing_required e =
     List.find (\<lambda>name. name \<notin> set (se_instance_keys e) \<and> starts_with (se_message e) (repr_str name))
       (se_validator_value e)"

definition error_path :: "schema_error \<Rightarrow> path option" where
  "error_path e =
     (if se_validator e = ''required'' then map_option (\<lambda>n. se_path e @ [PKey n]) (missing_required e)
      else Some (se_path e))"

definition config_errors :: "iter_errors \<Rightarrow> json \<Rightarrow> json \<Rightarrow> (string \<times> path) list option" where
  "config_errors iter schema config =
     (if \<not> is_obj config then Some [(''Node configuration must be an object'', [])]
      else those (map (\<lambda>e. map_option (Pair (se_message e)) (error_path e))
                   (sort_key se_path (iter schema config))))"

text \<open>\<open>len(names) != len(set(names))\<close> for the names a list of objects gives under a key.\<close>

definition repeated_fields :: "json \<Rightarrow> string option" where
  "repeated_fields config =
     (case get_arr ''fields'' config of None \<Rightarrow> None
      | Some items \<Rightarrow>
          if distinct (List.map_filter (get_str ''name'')
               (filter (\<lambda>item. json_get ''value'' item \<noteq> None) items))
          then None else Some ''Field names are not unique'')"

definition repeated_mapping :: "json \<Rightarrow> string option" where
  "repeated_mapping config =
     (case get_arr ''mapping'' config of None \<Rightarrow> None
      | Some mapping \<Rightarrow>
          if distinct (List.map_filter (get_str ''attribute'') mapping)
          then None else Some ''Mapping names an attribute more than once'')"

definition version_problems :: "node \<Rightarrow> 'x node_type_scheme \<Rightarrow> problem list" where
  "version_problems n spec =
     (if (case n_type_version n of None \<Rightarrow> 1 | Some v \<Rightarrow> v) \<noteq> nt_type_version spec
      then [mk_problem ''CHANNEL_NODE_TYPE_VERSION'' ''Node type version is not the current version''
              (Some (n_id n)) None]
      else [])"

definition type_and_config_node :: "iter_errors \<Rightarrow> 'x types_by_id \<Rightarrow> node \<Rightarrow> problem list option" where
  "type_and_config_node iter by_type n =
     (case map_of by_type (n_type n) of
        None \<Rightarrow> Some [mk_problem ''CHANNEL_NODE_TYPE_UNKNOWN'' ''Unknown node type'' (Some (n_id n)) None]
      | Some spec \<Rightarrow>
          (case config_errors iter (nt_config_schema spec) (n_config n) of
             None \<Rightarrow> None
           | Some (e # es) \<Rightarrow> Some (version_problems n spec @
               map (\<lambda>(message, p). (mk_problem ''CHANNEL_NODE_CONFIG_INVALID'' message (Some (n_id n)) None)
                      \<lparr>pb_path := p\<rparr>) (e # es))
           | Some [] \<Rightarrow> Some (version_problems n spec @
               (case (case repeated_mapping (n_config n) of None \<Rightarrow> repeated_fields (n_config n) | Some m \<Rightarrow> Some m) of
                  None \<Rightarrow> []
                | Some m \<Rightarrow> [mk_problem ''CHANNEL_NODE_CONFIG_INVALID'' m (Some (n_id n)) None]))))"

definition type_and_config_problems :: "iter_errors \<Rightarrow> node list \<Rightarrow> 'x types_by_id \<Rightarrow> problem list option" where
  "type_and_config_problems iter nodes by_type = gather (map (type_and_config_node iter by_type) nodes)"

definition configuration_node :: "iter_errors \<Rightarrow> 'x types_by_id \<Rightarrow> resolver \<Rightarrow> node \<Rightarrow> problem list option" where
  "configuration_node iter by_type rs n =
     (case map_of by_type (n_type n) of
        None \<Rightarrow> Some []
      | Some spec \<Rightarrow>
          (case nt_check spec of
             None \<Rightarrow> Some []
           | Some check \<Rightarrow>
               map_option (\<lambda>errors. if errors \<noteq> [] then []
                  else map (\<lambda>p. p\<lparr>pb_node := Some (n_id n)\<rparr>) (check (n_config n) rs))
                 (config_errors iter (nt_config_schema spec) (n_config n))))"

definition configuration_problems ::
  "iter_errors \<Rightarrow> node list \<Rightarrow> 'x types_by_id \<Rightarrow> resolver \<Rightarrow> problem list option" where
  "configuration_problems iter nodes by_type rs = gather (map (configuration_node iter by_type rs) nodes)"

section \<open>Template expressions\<close>

definition attribute_value_schema :: "string \<Rightarrow> json" where
  "attribute_value_schema t =
     (let scalar = (\<lambda>k. JObj [(''type'', JArr [JStr k, JStr ''null''])]) in
      if t = ''json'' then JObj [(''type'', JArr (map JStr [''object'', ''array'', ''string'', ''number'', ''boolean'', ''null'']))]
      else if t = ''integer'' then scalar ''integer''
      else if t = ''number'' \<or> t = ''decimal'' then scalar ''number''
      else if t = ''boolean'' then scalar ''boolean''
      else scalar ''string'')"

definition declared_schema ::
  "json \<Rightarrow> json option \<Rightarrow> string option \<Rightarrow> resolver \<Rightarrow> json option" where
  "declared_schema marker parent entity_id rs =
     (if json_get ''from'' marker \<noteq> Some (JStr ''entity_attribute'') then Some marker
      else case Option.bind parent (get_str ''attribute'') of
        None \<Rightarrow> None
      | Some attribute \<Rightarrow>
          (case entity_id of None \<Rightarrow> None
           | Some e \<Rightarrow> if e = [] then None else
               (case rs_entity_head rs e of None \<Rightarrow> None
                | Some head \<Rightarrow>
                    map_option (\<lambda>a. attribute_value_schema (ra_value_type a))
                      (List.find (\<lambda>a. ra_name a = attribute) head))))"

text \<open>The entity an object names: the last property marked as an entity reference wins.\<close>

definition local_entity :: "(string \<times> json) list \<Rightarrow> json \<Rightarrow> string option \<Rightarrow> string option" where
  "local_entity properties value entity_id =
     fold (\<lambda>(key, sub) cur.
        if is_obj sub \<and> json_get ''x-refraq-ref'' sub = Some (JStr ''entity'')
        then (case get_str key value of None \<Rightarrow> cur | Some s \<Rightarrow> Some s) else cur)
       properties entity_id"

definition template_marker :: "json \<Rightarrow> json option" where
  "template_marker schema = map_option JObj (get_obj ''x-refraq-template'' schema)"

definition has_type :: "json \<Rightarrow> string \<Rightarrow> bool" where
  "has_type schema t = (json_get ''type'' schema = Some (JStr t))"

definition obj_fields :: "json \<Rightarrow> (string \<times> json) list" where
  "obj_fields j = (case as_obj j of None \<Rightarrow> [] | Some kvs \<Rightarrow> kvs)"

definition arr_items :: "json \<Rightarrow> json list" where
  "arr_items j = (case as_arr j of None \<Rightarrow> [] | Some xs \<Rightarrow> xs)"

type_synonym template_field = "string \<times> json option \<times> path"

function template_fields ::
  "resolver \<Rightarrow> json \<Rightarrow> json \<Rightarrow> string option \<Rightarrow> path \<Rightarrow> template_field list" where
  "template_fields rs schema value entity_id path =
     (case (template_marker schema, as_str value) of
        (Some marker, Some text) \<Rightarrow> [(text, declared_schema marker None entity_id rs, path)]
      | _ \<Rightarrow> []) @
     (if has_type schema ''object'' \<and> is_obj value then
        (case get_obj ''properties'' schema of None \<Rightarrow> []
         | Some properties \<Rightarrow>
             (let ent = local_entity properties value entity_id in
              concat (map (\<lambda>(key, sub).
                case json_get key value of None \<Rightarrow> []
                | Some item \<Rightarrow>
                    if \<not> is_obj sub then []
                    else (case (template_marker sub, as_str item) of
                        (Some marker, Some text) \<Rightarrow>
                          [(text, declared_schema marker (Some value) ent rs, path @ [PKey key])]
                      | _ \<Rightarrow> template_fields rs sub item ent (path @ [PKey key])))
                properties))) @
        (case json_get ''additionalProperties'' schema of None \<Rightarrow> []
         | Some additional \<Rightarrow>
             if template_marker additional = None then []
             else
               (let properties = (case get_obj ''properties'' schema of None \<Rightarrow> [] | Some ps \<Rightarrow> ps);
                    ent = local_entity properties value entity_id in
                concat (map (\<lambda>(key, item).
                  if key \<in> fst ` set properties then []
                  else template_fields rs additional item ent (path @ [PKey key])) (obj_fields value))))
      else []) @
     (if has_type schema ''array'' then
        (case get_obj ''items'' schema of None \<Rightarrow> []
         | Some item_schema \<Rightarrow>
             concat (map (\<lambda>(index, item).
               template_fields rs (JObj item_schema) item entity_id (path @ [PIdx index]))
               (enumerate 0 (arr_items value))))
      else [])"
  by pat_completeness auto

termination template_fields
  apply (relation "measure (\<lambda>(rs, schema, value, entity_id, path). size schema)")
      apply simp
  using size_get_obj size_json_get
     apply (auto simp: get_obj_def bind_eq_Some_conv opt_simps dest: size_json_get)
  done

definition template_upstream ::
  "string \<Rightarrow> string list \<Rightarrow> nodes_by_id \<Rightarrow> path \<Rightarrow> 'x node_type_scheme \<Rightarrow> string list" where
  "template_upstream i upstream by_id path spec =
     (let templates = (case nt_container spec of None \<Rightarrow> [] | Some ts \<Rightarrow> ts) in
      if \<exists>key \<in> set templates. path = [PKey key]
      then List.union upstream (map fst (filter (\<lambda>(j, other). n_parent other = Some i) by_id))
      else upstream)"

definition template_ref_problem :: "string \<Rightarrow> string \<Rightarrow> path \<Rightarrow> problem" where
  "template_ref_problem name i path =
     (mk_problem ''CHANNEL_TEMPLATE_REF_INVALID''
        (''Template names a node that is not upstream: '' @ name) (Some i) None)\<lparr>pb_path := path\<rparr>"

definition unresolved_names :: "(string \<times> string) list \<Rightarrow> string list \<Rightarrow> string list \<Rightarrow> string list" where
  "unresolved_names by_name allowed names =
     filter (\<lambda>name. case map_of by_name name of None \<Rightarrow> True | Some target \<Rightarrow> target \<notin> set allowed) names"

text \<open>\<open>str(item.get("ref"))\<close>: an absent ref reads as \<open>None\<close>.\<close>

definition by_ref_index :: "nodes_by_id \<Rightarrow> (string \<times> string) list" where
  "by_ref_index by_id =
     py_dict (map (\<lambda>(i, n). (case n_ref n of None \<Rightarrow> ''None'' | Some r \<Rightarrow> r, n_id n)) by_id)"

definition by_name_index :: "nodes_by_id \<Rightarrow> (string \<times> string) list" where
  "by_name_index by_id = py_dict (map (\<lambda>(i, n). (n_name n, n_id n)) by_id)"

definition template_problems ::
  "template_lib \<Rightarrow> string \<Rightarrow> json option \<Rightarrow> string \<Rightarrow> string list \<Rightarrow> nodes_by_id \<Rightarrow> path \<Rightarrow>
   'x node_type_scheme \<Rightarrow> problem list" where
  "template_problems lib text value_schema i upstream by_id path spec =
     (case tl_parse lib text of
        None \<Rightarrow> [(mk_problem ''CHANNEL_EXPRESSION_INVALID'' ''A template expression does not parse''
                   (Some i) None)\<lparr>pb_path := path\<rparr>]
      | Some template \<Rightarrow>
          (let allowed = template_upstream i upstream by_id path spec in
           map (\<lambda>r. template_ref_problem r i path)
             (unresolved_names (by_ref_index by_id) allowed (tp_refs template)) @
           map (\<lambda>r. template_ref_problem r i path)
             (unresolved_names (by_name_index by_id) allowed (tp_node_names template)) @
           (case value_schema of None \<Rightarrow> []
            | Some schema \<Rightarrow>
                (case tl_static lib text schema of
                   Static_Ok \<Rightarrow> []
                 | Static_Mismatch \<Rightarrow>
                     [(mk_problem ''CHANNEL_TEMPLATE_TYPE_MISMATCH''
                         ''Template value does not match the declared type'' (Some i) None)\<lparr>pb_path := path\<rparr>]
                 | Static_Unknown \<Rightarrow>
                     [(mk_problem ''CHANNEL_TEMPLATE_TYPE_UNKNOWN''
                         (''This template'' @ [CHR 0x27] @ ''s type is checked when the channel runs'') (Some i) None)
                       \<lparr>pb_path := path, pb_severity := ''warning''\<rparr>]))))"

definition expression_problems ::
  "template_lib \<Rightarrow> node list \<Rightarrow> edge list \<Rightarrow> nodes_by_id \<Rightarrow> 'x types_by_id \<Rightarrow> resolver \<Rightarrow> problem list" where
  "expression_problems lib nodes edges by_id by_type rs =
     (let anc = ancestors by_id edges in
      concat (map (\<lambda>n.
        case map_of by_type (n_type n) of
          None \<Rightarrow> []
        | Some spec \<Rightarrow>
            if \<not> is_obj (n_config n) then []
            else concat (map (\<lambda>(text, value_schema, path).
                   template_problems lib text value_schema (n_id n) (dict_get_list anc (n_id n)) by_id path spec)
                   (template_fields rs (nt_config_schema spec) (n_config n) None [])))
        nodes))"

record template_site =
  ts_text :: string
  ts_schema :: "json option"
  ts_problems :: "problem list"

definition template_site_of ::
  "template_lib \<Rightarrow> graph \<Rightarrow> string \<Rightarrow> path \<Rightarrow> resolver \<Rightarrow> 'x node_type_scheme list \<Rightarrow> template_site option" where
  "template_site_of lib g i path rs catalog =
     (let by_id = nodes_index (g_nodes g) in
      case map_of by_id i of
        None \<Rightarrow> None
      | Some n \<Rightarrow>
          if \<not> is_obj (n_config n) then None
          else (case List.find (\<lambda>t. nt_type_id t = n_type n) catalog of
             None \<Rightarrow> None
           | Some spec \<Rightarrow>
               map_option (\<lambda>(text, value_schema, found).
                   \<lparr>ts_text = text, ts_schema = value_schema,
                    ts_problems = template_problems lib text value_schema i
                      (dict_get_list (ancestors by_id (g_edges g)) i) by_id found spec\<rparr>)
                 (List.find (\<lambda>(text, value_schema, found). found = path)
                   (template_fields rs (nt_config_schema spec) (n_config n) None []))))"

section \<open>Edges and ports\<close>

definition coarse :: "port_spec list \<Rightarrow> string \<Rightarrow> string" where
  "coarse ports name =
     (case List.find (\<lambda>p. ps_port p = name) ports of None \<Rightarrow> ''unknown'' | Some p \<Rightarrow> ps_coarse p)"

datatype verdict = Port_Ok | Port_Warning | Port_Error

definition port_verdict :: "string \<Rightarrow> string \<Rightarrow> verdict" where
  "port_verdict s t =
     (if s = t then Port_Ok
      else if s = ''unknown'' \<and> t \<noteq> ''unknown'' then Port_Warning
      else if s = ''unknown'' \<or> t = ''unknown'' then Port_Ok
      else Port_Error)"

definition bad_edge :: "string \<Rightarrow> edge \<Rightarrow> problem list" where
  "bad_edge i e = [mk_problem ''CHANNEL_GRAPH_EDGE_INVALID'' ''Edge names an unknown node or port''
     (Some i) (Some (e_id e))]"

definition edge_problem :: "nodes_by_id \<Rightarrow> 'x types_by_id \<Rightarrow> edge \<Rightarrow> problem list" where
  "edge_problem by_id by_type e =
     (case (map_of by_id (source_id e), map_of by_id (target_id e)) of
        (Some source, Some target) \<Rightarrow>
          (let st = map_of by_type (n_type source); tt = map_of by_type (n_type target);
               sp = pr_port (e_source e); tp = pr_port (e_target e);
               bad_source = (case st of None \<Rightarrow> False | Some t \<Rightarrow> \<not> has_port (nt_outputs t) sp);
               bad_target = (case tt of None \<Rightarrow> False | Some t \<Rightarrow> \<not> has_port (nt_inputs t) tp) in
           if bad_source \<or> bad_target then bad_edge (if bad_source then source_id e else target_id e) e
           else case (st, tt) of
             (Some s, Some t) \<Rightarrow>
               (case port_verdict (coarse (nt_outputs s) sp) (coarse (nt_inputs t) tp) of
                  Port_Error \<Rightarrow> [mk_problem ''CHANNEL_PORT_TYPE_MISMATCH'' ''Ports have incompatible types''
                                  (Some (target_id e)) (Some (e_id e))]
                | Port_Warning \<Rightarrow> [(mk_problem ''CHANNEL_PORT_TYPE_UNKNOWN'' ''Upstream port type is not known yet''
                                  (Some (target_id e)) (Some (e_id e)))\<lparr>pb_severity := ''warning''\<rparr>]
                | Port_Ok \<Rightarrow> [])
           | _ \<Rightarrow> [])
      | (None, _) \<Rightarrow> bad_edge (source_id e) e
      | (Some _, None) \<Rightarrow> bad_edge (target_id e) e)"

definition edge_problems :: "edge list \<Rightarrow> nodes_by_id \<Rightarrow> 'x types_by_id \<Rightarrow> problem list" where
  "edge_problems edges by_id by_type = concat (map (edge_problem by_id by_type) edges)"

section \<open>Triggers, responses, reachability\<close>

definition trigger_problems :: "node list \<Rightarrow> edge list \<Rightarrow> nodes_by_id \<Rightarrow> 'x types_by_id \<Rightarrow> problem list" where
  "trigger_problems nodes edges by_id by_type =
     (let triggers = filter (\<lambda>n. is_trigger n by_type) nodes in
      (if triggers = [] then [mk_problem ''CHANNEL_GRAPH_NO_TRIGGER'' ''Graph has no trigger node'' None None]
       else if length triggers > 1
       then map (\<lambda>n. mk_problem ''CHANNEL_GRAPH_MULTIPLE_TRIGGERS'' ''Graph has more than one trigger node''
              (Some (n_id n)) None) triggers
       else []) @
      concat (map (\<lambda>e. case map_of by_id (target_id e) of
          None \<Rightarrow> []
        | Some target \<Rightarrow>
            if is_trigger target by_type
            then [mk_problem ''CHANNEL_GRAPH_TRIGGER_INPUT'' ''Trigger node has an inbound edge''
                    (Some (n_id target)) (Some (e_id e))]
            else []) edges))"

definition respond_mode :: "node \<Rightarrow> bool" where
  "respond_mode n =
     (n_type n = ''trigger.inbound'' \<and>
      (case get_obj ''response'' (n_config n) of None \<Rightarrow> False
       | Some response \<Rightarrow> map_of response ''mode'' = Some (JStr ''respond_node'')))"

definition respond_problems :: "node list \<Rightarrow> edge list \<Rightarrow> nodes_by_id \<Rightarrow> 'x types_by_id \<Rightarrow> problem list" where
  "respond_problems nodes edges by_id by_type =
     (let responds = filter (\<lambda>n. n_type n = ''action.respond'') nodes;
          triggers = filter (\<lambda>n. is_trigger n by_type) nodes in
      case (if length triggers = 1 \<and> respond_mode (hd triggers) then Some (hd triggers) else None) of
        None \<Rightarrow>
          map (\<lambda>n. mk_problem ''CHANNEL_NODE_CONFIG_INVALID''
                 ''Respond requires an Inbound Trigger in respond_node mode'' (Some (n_id n)) None) responds
      | Some inbound \<Rightarrow>
          if list_ex (\<lambda>n. n_id n \<in> set (reachable_ids nodes edges by_id by_type)) responds then []
          else [mk_problem ''CHANNEL_NODE_CONFIG_INVALID''
                  ''respond_node mode requires a Respond node reachable from the trigger''
                  (Some (n_id inbound)) None])"

definition reachability_problems ::
  "node list \<Rightarrow> edge list \<Rightarrow> nodes_by_id \<Rightarrow> 'x types_by_id \<Rightarrow> problem list" where
  "reachability_problems nodes edges by_id by_type =
     (let seen = reachable_ids nodes edges by_id by_type in
      map (\<lambda>n. mk_problem ''CHANNEL_GRAPH_UNREACHABLE'' ''Node is not reachable from a trigger'' (Some (n_id n)) None)
        (filter (\<lambda>n. n_id n \<notin> set seen) nodes))"

section \<open>Container frames\<close>

definition frame_problem :: "string \<Rightarrow> string \<Rightarrow> string option \<Rightarrow> problem list" where
  "frame_problem detail i eid = [mk_problem ''CHANNEL_LOOP_BODY_INVALID'' detail (Some i) eid]"

definition parent_problems :: "nodes_by_id \<Rightarrow> 'x types_by_id \<Rightarrow> node \<Rightarrow> problem list" where
  "parent_problems by_id by_type n =
     (case n_parent n of
        None \<Rightarrow> []
      | Some parent \<Rightarrow>
          if parent = [] \<or>
             (case map_of by_id parent of None \<Rightarrow> True | Some p \<Rightarrow> \<not> is_container (n_type p) by_type)
          then frame_problem ''parent does not name a container'' (n_id n) None
          else if parent_cycle (n_id n) by_id by_type
          then frame_problem ''parent chain contains a cycle'' (n_id n) None
          else [])"

definition frame_edge_problems :: "nodes_by_id \<Rightarrow> 'x types_by_id \<Rightarrow> edge \<Rightarrow> problem list" where
  "frame_edge_problems by_id by_type e =
     (let s = source_id e; t = target_id e in
      case (map_of by_id s, map_of by_id t) of
        (Some source, Some target) \<Rightarrow>
          if crosses_frame s t by_id then frame_problem ''Edge crosses a container frame'' s (Some (e_id e))
          else if \<not> is_container (n_type source) by_type then []
          else if parent_ref target = Some s \<and> pr_port (e_source e) \<noteq> ''each''
          then frame_problem ''A container frame is entered only from each'' s (Some (e_id e))
          else if pr_port (e_source e) = ''each'' \<and> parent_ref target \<noteq> Some s
          then frame_problem ''each connects only to a direct child of this container'' s (Some (e_id e))
          else []
      | _ \<Rightarrow> [])"

definition container_frame_problems ::
  "node list \<Rightarrow> edge list \<Rightarrow> nodes_by_id \<Rightarrow> 'x types_by_id \<Rightarrow> problem list" where
  "container_frame_problems nodes edges by_id by_type =
     concat (map (parent_problems by_id by_type) nodes) @
     concat (map (frame_edge_problems by_id by_type) edges)"

section \<open>References\<close>

type_synonym reference = "string \<times> string \<times> string option"

function refs_of :: "json \<Rightarrow> json \<Rightarrow> string option \<Rightarrow> reference list" where
  "refs_of schema value entity_id =
     (case (get_str ''x-refraq-ref'' schema, as_str value) of
        (Some ref, Some text) \<Rightarrow>
          if ref \<in> {''match_key'', ''expression'', ''json''} then [] else [(ref, text, entity_id)]
      | _ \<Rightarrow> []) @
     (if has_type schema ''object'' \<and> is_obj value then
        (case get_obj ''properties'' schema of None \<Rightarrow> []
         | Some properties \<Rightarrow>
             (let ent = local_entity properties value entity_id in
              concat (map (\<lambda>(key, sub).
                case json_get key value of None \<Rightarrow> []
                | Some item \<Rightarrow> if \<not> is_obj sub then [] else refs_of sub item ent) properties)))
      else []) @
     (if has_type schema ''array'' then
        (case get_obj ''items'' schema of None \<Rightarrow> []
         | Some item_schema \<Rightarrow> concat (map (\<lambda>item. refs_of (JObj item_schema) item entity_id) (arr_items value)))
      else [])"
  by pat_completeness auto

termination refs_of
  apply (relation "measure (\<lambda>(schema, value, entity_id). size schema)")
    apply simp
  using size_get_obj
   apply (auto simp: get_obj_def bind_eq_Some_conv opt_simps dest: size_json_get)
  done

definition unresolved :: "string \<Rightarrow> string \<Rightarrow> node \<Rightarrow> problem list" where
  "unresolved what value n =
     [mk_problem ''CHANNEL_REFERENCE_UNRESOLVED'' (what @ '' does not resolve: '' @ value) (Some (n_id n)) None]"

definition reference_problem :: "resolver \<Rightarrow> node \<Rightarrow> reference \<Rightarrow> problem list" where
  "reference_problem rs n ref =
     (case ref of (kind, value, entity_id) \<Rightarrow>
        if kind = ''entity'' then
          (if rs_entity_head rs value = None then unresolved ''Entity'' value n else [])
        else if kind = ''source'' then
          (if \<not> rs_source_exists rs value then unresolved ''Source'' value n else [])
        else (case (case entity_id of None \<Rightarrow> None | Some e \<Rightarrow> if e = [] then None else rs_entity_head rs e) of
                None \<Rightarrow> []
              | Some head \<Rightarrow>
                  if \<not> list_ex (\<lambda>a. ra_name a = value) head then unresolved ''Attribute'' value n else []))"

definition reference_node :: "iter_errors \<Rightarrow> 'x types_by_id \<Rightarrow> resolver \<Rightarrow> node \<Rightarrow> problem list option" where
  "reference_node iter by_type rs n =
     (case map_of by_type (n_type n) of
        None \<Rightarrow> Some []
      | Some spec \<Rightarrow>
          map_option (\<lambda>errors. if errors \<noteq> [] then []
              else concat (map (reference_problem rs n) (refs_of (nt_config_schema spec) (n_config n) None)))
            (config_errors iter (nt_config_schema spec) (n_config n)))"

definition reference_problems ::
  "iter_errors \<Rightarrow> node list \<Rightarrow> 'x types_by_id \<Rightarrow> resolver \<Rightarrow> problem list option" where
  "reference_problems iter nodes by_type rs = gather (map (reference_node iter by_type rs) nodes)"

definition settings_problems :: "settings \<Rightarrow> resolver \<Rightarrow> problem list" where
  "settings_problems st rs =
     (case st_error_channel_id st of
        None \<Rightarrow> []
      | Some channel_id \<Rightarrow>
          if \<not> rs_channel_exists rs channel_id then
            [mk_problem ''CHANNEL_REFERENCE_UNRESOLVED'' (''Data Channel does not resolve: '' @ channel_id) None None]
          else if rs_published_trigger_type rs channel_id = Some ''trigger.error'' then []
          else [mk_problem ''CHANNEL_ERROR_TRIGGER_REQUIRED'' ''Error workflow must use trigger.error'' None None])"

section \<open>The whole validation\<close>

text \<open>\<open>None\<close> is the bare \<open>next\<close> of \<open>_missing_required\<close> running out. Python's stack is not modelled: the cycle pass calls
  itself once per node of a path, so the code raises \<open>RecursionError\<close> on a chain of about a thousand nodes, where the model
  gives a list of problems. The checks and refinements of node types and the template functions are parameters that return.\<close>

definition validate_graph ::
  "iter_errors \<Rightarrow> template_lib \<Rightarrow> graph \<Rightarrow> resolver \<Rightarrow> 'x node_type_scheme list \<Rightarrow> problem list option" where
  "validate_graph iter lib g rs catalog =
     (let by_type = types_index catalog; nodes = g_nodes g; edges = g_edges g; by_id = nodes_index nodes in
      gather
        [Some (name_problems nodes),
         Some (ref_problems nodes),
         Some (policy_problems nodes by_type),
         type_and_config_problems iter nodes by_type,
         configuration_problems iter nodes by_type rs,
         Some (expression_problems lib nodes edges by_id by_type rs),
         Some (edge_problems edges by_id by_type),
         Some (trigger_problems nodes edges by_id by_type),
         Some (respond_problems nodes edges by_id by_type),
         Some (reachability_problems nodes edges by_id by_type),
         Some (cycle_problems nodes edges by_id),
         Some (container_frame_problems nodes edges by_id by_type),
         reference_problems iter nodes by_type rs,
         Some (settings_problems (g_settings g) rs)])"

section \<open>Refined ports\<close>

text \<open>\<open>names\<close> and \<open>ambiguous\<close> of \<open>_name_to_ref\<close>.\<close>

definition name_to_ref_step ::
  "nodes_by_id \<Rightarrow> string \<Rightarrow> (string \<times> string) list \<times> string list \<Rightarrow> (string \<times> string) list \<times> string list" where
  "name_to_ref_step by_id i st =
     (case map_of by_id i of
        None \<Rightarrow> st
      | Some ancestor \<Rightarrow>
          (case n_ref ancestor of
             None \<Rightarrow> st
           | Some r \<Rightarrow>
               (case map_of (fst st) (n_name ancestor) of
                  None \<Rightarrow> (AList.update (n_name ancestor) r (fst st), snd st)
                | Some previous \<Rightarrow>
                    if previous \<noteq> r then (fst st, List.insert (n_name ancestor) (snd st)) else st)))"

definition name_to_ref :: "string list \<Rightarrow> nodes_by_id \<Rightarrow> (string \<times> string) list" where
  "name_to_ref anc by_id =
     (case fold (name_to_ref_step by_id) anc ([], []) of
        (names, ambiguous) \<Rightarrow> filter (\<lambda>(name, r). name \<notin> set ambiguous) names)"

type_synonym produced = "(string \<times> json) list"
type_synonym outputs = "(string \<times> produced) list"

definition upstream_of :: "string \<Rightarrow> string list \<Rightarrow> nodes_by_id \<Rightarrow> 'x types_by_id \<Rightarrow> outputs \<Rightarrow> upstream" where
  "upstream_of i found by_id by_type outs =
     \<lparr>up_schemas = py_dict (List.map_filter (\<lambda>anc.
         case Option.bind (map_of by_id anc) n_ref of
           None \<Rightarrow> None
         | Some r \<Rightarrow> Some (r, (case map_of outs anc of None \<Rightarrow> [] | Some p \<Rightarrow> p))) found),
      up_names = name_to_ref found by_id,
      up_inside = containing_refs i by_id by_type\<rparr>"

definition node_produced ::
  "nodes_by_id \<Rightarrow> 'x types_by_id \<Rightarrow> (string \<times> string list) list \<Rightarrow> resolver \<Rightarrow> node \<Rightarrow> outputs \<Rightarrow> produced" where
  "node_produced by_id by_type anc rs n outs =
     (case map_of by_type (n_type n) of
        None \<Rightarrow> []
      | Some spec \<Rightarrow>
          (case nt_refine spec of
             None \<Rightarrow> []
           | Some refine \<Rightarrow>
               if is_obj (n_config n)
               then obj_fields (refine (n_config n)
                      (upstream_of (n_id n) (dict_get_list anc (n_id n)) by_id by_type outs) rs)
               else []))"

definition refine_node ::
  "nodes_by_id \<Rightarrow> 'x types_by_id \<Rightarrow> (string \<times> string list) list \<Rightarrow> resolver \<Rightarrow> node \<Rightarrow> outputs \<Rightarrow> outputs" where
  "refine_node by_id by_type anc rs n outs =
     AList.update (n_id n) (node_produced by_id by_type anc rs n outs) outs"

record refined_port =
  rp_node :: string
  rp_port :: string
  rp_direction :: string
  rp_coarse :: string
  rp_schema :: "json option"

definition dict_schema :: "json option \<Rightarrow> json option" where
  "dict_schema j = (case j of None \<Rightarrow> None | Some s \<Rightarrow> if is_obj s then Some s else None)"

definition port_output :: "outputs \<Rightarrow> string \<Rightarrow> string \<Rightarrow> json option" where
  "port_output outs i port = dict_schema (case map_of outs i of None \<Rightarrow> None | Some p \<Rightarrow> map_of p port)"

definition input_schema :: "string \<Rightarrow> string \<Rightarrow> edge list \<Rightarrow> outputs \<Rightarrow> json option" where
  "input_schema i port edges outs =
     (case filter (\<lambda>e. target_id e = i \<and> pr_port (e_target e) = port) edges of
        [e] \<Rightarrow> port_output outs (source_id e) (pr_port (e_source e))
      | _ \<Rightarrow> None)"

definition ports_of_node :: "edge list \<Rightarrow> 'x types_by_id \<Rightarrow> outputs \<Rightarrow> node \<Rightarrow> refined_port list" where
  "ports_of_node edges by_type outs n =
     (case map_of by_type (n_type n) of
        None \<Rightarrow> []
      | Some spec \<Rightarrow>
          map (\<lambda>p. \<lparr>rp_node = n_id n, rp_port = ps_port p, rp_direction = ''output'', rp_coarse = ps_coarse p,
                     rp_schema = port_output outs (n_id n) (ps_port p)\<rparr>) (nt_outputs spec) @
          map (\<lambda>p. \<lparr>rp_node = n_id n, rp_port = ps_port p, rp_direction = ''input'', rp_coarse = ps_coarse p,
                     rp_schema = input_schema (n_id n) (ps_port p) edges outs\<rparr>) (nt_inputs spec))"

definition refined_outputs :: "graph \<Rightarrow> resolver \<Rightarrow> 'x node_type_scheme list \<Rightarrow> outputs" where
  "refined_outputs g rs catalog =
     (let by_type = types_index catalog; by_id = nodes_index (g_nodes g);
          anc = ancestors by_id (g_edges g)
      in fold (refine_node by_id by_type anc rs) (topo (g_nodes g) (g_edges g) by_id) [])"

definition refine_ports :: "graph \<Rightarrow> resolver \<Rightarrow> 'x node_type_scheme list \<Rightarrow> refined_port list" where
  "refine_ports g rs catalog =
     concat (map (ports_of_node (g_edges g) (types_index catalog) (refined_outputs g rs catalog)) (g_nodes g))"

end
