(* ===== verification/Channel_Engine.thy ===== *)
theory Channel_Engine
  imports Channel_Validate "HOL-Library.Product_Lexorder" "HOL-Library.Monad_Syntax"
begin

text \<open>
  The control-flow interpreter of \<open>backend/channel/engine.py\<close>. The run object \<open>_Run\<close> is split
  into what its constructor fixes (\<open>run_ctx\<close>) and what the methods change (\<open>run_state\<close>).

  The hooks are the engine's outside: each call appends an event to the log of the run, and
  every answer (cancellation, the clock, the sequence number of a start, the result of a
  node's executor, the next step of a container) is a function of the log so far, so it may
  change from call to call. A container program is the tree of the rounds its \<open>run\<close>
  callable asks for; \<open>Inl\<close> carries the \<open>_RoundStopped\<close> exception.

  The recursion walk - node - container - walk goes through nested bodies. \<open>walk_at d\<close> allows
  \<open>d\<close> levels of it and is \<open>None\<close> beyond; all loops inside one level terminate by themselves.
\<close>

section \<open>Results, events, declarations\<close>

record node_result =
  nr_status :: string
  nr_output :: json
  nr_error_code :: "string option"
  nr_error_message :: "string option"
  nr_error_detail :: "json option"
  nr_ports :: "string list option"
  nr_minimum_wait :: "rat option"

record run_outcome =
  ro_status :: string
  ro_outcome :: "string option"
  ro_error_code :: "string option"
  ro_error_message :: "string option"
  ro_failed_node :: "string option"
  ro_stopped_node :: "string option"
  ro_skipped :: "string list"

datatype hook_event =
    Ev_Poll
  | Ev_Pause rat
  | Ev_Start string "(int \<times> nat) option"
  | Ev_Finish int string node_result
  | Ev_Output string json
  | Ev_Open int
  | Ev_Close
  | Ev_Round int nat json
  | Ev_Drop "string list"

type_synonym event_log = "hook_event list"
type_synonym round_record = "(string \<times> json) list"

datatype container_prog =
    Finish node_result
  | Round json "json option" "round_record \<Rightarrow> event_log \<Rightarrow> container_prog"

record exec_type = node_type +
  et_execute :: "node \<Rightarrow> event_log \<Rightarrow> node_result"
  et_run :: "node \<Rightarrow> event_log \<Rightarrow> container_prog"

text \<open>
  \<open>en_cancelled\<close> is \<open>hooks.cancelled() or hooks.superseded()\<close>, \<open>en_elapsed\<close> is
  \<open>time.monotonic() - self.clock\<close>, \<open>en_ticks\<close> the number of turns of the sleep loop before its
  deadline.
\<close>

record run_env =
  en_cancelled :: "event_log \<Rightarrow> bool"
  en_elapsed :: "event_log \<Rightarrow> rat"
  en_ticks :: "event_log \<Rightarrow> nat"
  en_seq :: "event_log \<Rightarrow> int"
  en_output_matches :: "json \<Rightarrow> json \<Rightarrow> bool"

record link =
  lk_source :: string
  lk_source_port :: string
  lk_target :: string
  lk_target_port :: string

datatype link_state = Pending | Live | Dead

record run_ctx =
  rc_nodes :: nodes_by_id
  rc_by_type :: "(string \<times> exec_type) list"
  rc_schemas :: "(string \<times> (string \<times> json option) list) list"
  rc_reachable :: "string list"
  rc_timeout :: "int option"
  rc_links :: "link list"
  rc_outgoing :: "(string \<times> nat list) list"
  rc_incoming :: "(string \<times> nat list) list"
  rc_loops :: "string list"
  rc_bodies :: "(string \<times> string list) list"
  rc_env :: run_env

record run_state =
  rn_state :: "link_state list"
  rn_skipped :: "string list"
  rn_produced :: "(string \<times> json) list"
  rn_ran_stack :: "string list list"
  rn_frames :: "(int \<times> nat) list"
  rn_log :: event_log

definition emit :: "hook_event \<Rightarrow> run_state \<Rightarrow> run_state" where
  "emit e s = s\<lparr>rn_log := rn_log s @ [e]\<rparr>"

section \<open>Links and the run object\<close>

definition links_of :: "edge list \<Rightarrow> nodes_by_id \<Rightarrow> link list" where
  "links_of edges nodes =
     map (\<lambda>e. \<lparr>lk_source = source_id e, lk_source_port = pr_port (e_source e),
               lk_target = target_id e, lk_target_port = pr_port (e_target e)\<rparr>)
       (filter (\<lambda>e. known nodes (source_id e) \<and> known nodes (target_id e)) edges)"

definition link_index :: "(link \<Rightarrow> string) \<Rightarrow> nodes_by_id \<Rightarrow> link list \<Rightarrow> (string \<times> nat list) list" where
  "link_index key nodes links =
     dict_group (map (\<lambda>(index, link). (key link, index)) (enumerate 0 links)) (map (\<lambda>(i, n). (i, [])) nodes)"

text \<open>\<open>_index_loops\<close>: the body of a container is the set of its children.\<close>

definition children_of :: "nodes_by_id \<Rightarrow> string \<Rightarrow> string list" where
  "children_of nodes p = map fst (filter (\<lambda>(i, n). n_parent n = Some p \<and> known nodes p \<and> p \<noteq> i) nodes)"

definition loop_ids :: "nodes_by_id \<Rightarrow> (string \<times> 'x node_type_scheme) list \<Rightarrow> string list" where
  "loop_ids nodes by_type = map fst (filter (\<lambda>(i, n). is_container (n_type n) by_type) nodes)"

definition body_index :: "nodes_by_id \<Rightarrow> (string \<times> 'x node_type_scheme) list \<Rightarrow> (string \<times> string list) list" where
  "body_index nodes by_type = map (\<lambda>i. (i, children_of nodes i)) (loop_ids nodes by_type)"

definition make_ctx ::
  "graph \<Rightarrow> (string \<times> exec_type) list \<Rightarrow> (string \<times> (string \<times> json option) list) list \<Rightarrow> run_env \<Rightarrow>
   string list \<Rightarrow> int option \<Rightarrow> run_ctx" where
  "make_ctx g by_type schemas env reachable timeout =
     (let nodes = nodes_index (g_nodes g); links = links_of (g_edges g) nodes in
      \<lparr>rc_nodes = nodes, rc_by_type = by_type, rc_schemas = schemas, rc_reachable = reachable,
       rc_timeout = timeout, rc_links = links,
       rc_outgoing = link_index lk_source nodes links, rc_incoming = link_index lk_target nodes links,
       rc_loops = loop_ids nodes by_type, rc_bodies = body_index nodes by_type, rc_env = env\<rparr>)"

definition init_state :: "run_ctx \<Rightarrow> run_state" where
  "init_state c = \<lparr>rn_state = replicate (length (rc_links c)) Pending, rn_skipped = [], rn_produced = [],
     rn_ran_stack = [[]], rn_frames = [], rn_log = []\<rparr>"

definition link_at :: "run_ctx \<Rightarrow> nat \<Rightarrow> link" where
  "link_at c index = rc_links c ! index"

section \<open>Gating and settling\<close>

definition back_link :: "run_ctx \<Rightarrow> nat \<Rightarrow> bool" where
  "back_link c index =
     (lk_target (link_at c index) \<in> set (rc_loops c) \<and> lk_target_port (link_at c index) \<noteq> ''main'')"

definition counting :: "run_ctx \<Rightarrow> string \<Rightarrow> nat list" where
  "counting c i = filter (\<lambda>index. \<not> back_link c index) (dict_get_list (rc_incoming c) i)"

definition ready :: "run_ctx \<Rightarrow> run_state \<Rightarrow> string \<Rightarrow> bool" where
  "ready c s i = list_all (\<lambda>index. rn_state s ! index \<noteq> Pending) (counting c i)"

definition live_incoming :: "run_ctx \<Rightarrow> run_state \<Rightarrow> string \<Rightarrow> bool" where
  "live_incoming c s i =
     (if counting c i = [] then True else list_ex (\<lambda>index. rn_state s ! index = Live) (counting c i))"

definition set_links :: "(nat \<Rightarrow> link_state) \<Rightarrow> nat list \<Rightarrow> run_state \<Rightarrow> run_state" where
  "set_links f indexes s = s\<lparr>rn_state := fold (\<lambda>index st. st[index := f index]) indexes (rn_state s)\<rparr>"

definition kill :: "run_ctx \<Rightarrow> string \<Rightarrow> run_state \<Rightarrow> run_state" where
  "kill c i s = set_links (\<lambda>_. Dead) (dict_get_list (rc_outgoing c) i) s"

definition live_ports :: "run_ctx \<Rightarrow> string \<Rightarrow> node_result \<Rightarrow> string list" where
  "live_ports c i r =
     (case nr_ports r of
        None \<Rightarrow> filter (\<lambda>port. port \<noteq> ''error'')
                  (map (\<lambda>index. lk_source_port (link_at c index)) (dict_get_list (rc_outgoing c) i))
      | Some ports \<Rightarrow> ports)"

definition settle :: "run_ctx \<Rightarrow> string \<Rightarrow> node_result \<Rightarrow> string list \<Rightarrow> run_state \<Rightarrow> run_state" where
  "settle c i r skip s =
     set_links (\<lambda>index. if lk_source_port (link_at c index) \<in> set (live_ports c i r) then Live else Dead)
       (filter (\<lambda>index. lk_source_port (link_at c index) \<notin> set skip) (dict_get_list (rc_outgoing c) i)) s"

definition position :: "node \<Rightarrow> rat \<times> rat" where
  "position n =
     (case n_position n of None \<Rightarrow> (0, 0)
      | Some (x, y) \<Rightarrow> ((case y of None \<Rightarrow> 0 | Some v \<Rightarrow> v), (case x of None \<Rightarrow> 0 | Some v \<Rightarrow> v)))"

definition position_of :: "run_ctx \<Rightarrow> string \<Rightarrow> rat \<times> rat" where
  "position_of c i = (case map_of (rc_nodes c) i of None \<Rightarrow> (0, 0) | Some n \<Rightarrow> position n)"

text \<open>
  \<open>kids.sort(key=..., reverse=True); stack.extend(kids)\<close>: a reverse sort keeps the order of
  equal keys, and the end of the Python list is the head of the stack here.
\<close>

definition onto_stack :: "run_ctx \<Rightarrow> string list \<Rightarrow> string list \<Rightarrow> string list" where
  "onto_stack c kids stack = sort_key (position_of c) (rev kids) @ stack"

definition push_ready :: "run_ctx \<Rightarrow> run_state \<Rightarrow> string \<Rightarrow> string list \<Rightarrow> string list \<Rightarrow> string list \<Rightarrow> string list" where
  "push_ready c s i direct visited stack =
     (let targets = map (\<lambda>index. lk_target (link_at c index)) (dict_get_list (rc_outgoing c) i);
          kids = filter (\<lambda>t. t \<in> set direct \<and> t \<notin> set visited \<and> ready c s t) (rev (remdups (rev targets)))
      in onto_stack c kids stack)"

section \<open>Stopping, retry budget, policy\<close>

definition mk_result :: "string \<Rightarrow> string option \<Rightarrow> string option \<Rightarrow> json option \<Rightarrow> node_result" where
  "mk_result st code msg detail =
     \<lparr>nr_status = st, nr_output = JNull, nr_error_code = code, nr_error_message = msg,
      nr_error_detail = detail, nr_ports = None, nr_minimum_wait = None\<rparr>"

definition mk_outcome :: "string \<Rightarrow> string option \<Rightarrow> string option \<Rightarrow> run_outcome" where
  "mk_outcome st code msg =
     \<lparr>ro_status = st, ro_outcome = None, ro_error_code = code, ro_error_message = msg,
      ro_failed_node = None, ro_stopped_node = None, ro_skipped = []\<rparr>"

definition stopped :: "run_ctx \<Rightarrow> string \<Rightarrow> run_state \<Rightarrow> run_outcome option \<times> run_state" where
  "stopped c pending s =
     (let s' = emit Ev_Poll s in
      if en_cancelled (rc_env c) (rn_log s')
      then (Some ((mk_outcome ''cancelled'' None None)
              \<lparr>ro_stopped_node := Some pending, ro_skipped := rn_skipped s\<rparr>), s')
      else (case rc_timeout c of
          None \<Rightarrow> (None, s')
        | Some t \<Rightarrow>
            if en_elapsed (rc_env c) (rn_log s') > of_int t
            then (Some ((mk_outcome ''failed'' (Some ''CHANNEL_RUN_TIMEOUT'') (Some ''Run timeout elapsed''))
                    \<lparr>ro_stopped_node := Some pending, ro_skipped := rn_skipped s\<rparr>), s')
            else (None, s')))"

definition retry_wait_cap :: rat where
  "retry_wait_cap = 3600"

definition retry_pause :: "int \<Rightarrow> rat option \<Rightarrow> rat" where
  "retry_pause wait minimum =
     (case minimum of None \<Rightarrow> of_int wait | Some m \<Rightarrow> min retry_wait_cap (max (of_int wait) m))"

definition budget_int :: "int \<Rightarrow> int \<Rightarrow> json option \<Rightarrow> int" where
  "budget_int lo dflt v = (case v of Some (JInt n) \<Rightarrow> if n < lo then dflt else n | _ \<Rightarrow> dflt)"

definition retry_budget :: "node \<Rightarrow> int \<times> int" where
  "retry_budget n =
     (case n_retry n of
        Some (JObj kvs) \<Rightarrow> (budget_int 1 1 (map_of kvs ''max_tries''), budget_int 0 0 (map_of kvs ''wait_sec''))
      | _ \<Rightarrow> (1, 0))"

definition declares_error :: "'x node_type_scheme option \<Rightarrow> bool" where
  "declares_error spec = (case spec of None \<Rightarrow> False | Some t \<Rightarrow> has_port (nt_outputs t) ''error'')"

definition opt_str :: "string option \<Rightarrow> json" where
  "opt_str v = (case v of None \<Rightarrow> JNull | Some t \<Rightarrow> JStr t)"

text \<open>\<open>error_code or "CHANNEL_NODE_FAILED"\<close>: an empty code counts as missing.\<close>

definition code_or_default :: "string option \<Rightarrow> string" where
  "code_or_default code = (case code of None \<Rightarrow> ''CHANNEL_NODE_FAILED'' | Some t \<Rightarrow> if t = [] then ''CHANNEL_NODE_FAILED'' else t)"

definition failure :: "run_state \<Rightarrow> string \<Rightarrow> node_result \<Rightarrow> run_outcome option" where
  "failure s i r =
     (if nr_status r \<noteq> ''failed'' then None
      else Some ((mk_outcome ''failed'' (Some (code_or_default (nr_error_code r))) (nr_error_message r))
             \<lparr>ro_failed_node := Some i, ro_skipped := rn_skipped s\<rparr>))"

text \<open>\<open>_policy\<close> returns an outcome or changes the result in place.\<close>

definition policy :: "run_ctx \<Rightarrow> run_state \<Rightarrow> string \<Rightarrow> node_result \<Rightarrow> run_outcome option \<times> node_result" where
  "policy c s i r =
     (if nr_status r \<noteq> ''failed'' then (None, r)
      else (let n = the (map_of (rc_nodes c) i);
                on_error = (case n_on_error n of None \<Rightarrow> ''stop'' | Some p \<Rightarrow> if p = [] then ''stop'' else p) in
        if on_error = ''continue'' then (None, r\<lparr>nr_output := JNull\<rparr>)
        else if on_error = ''error_output'' \<and> declares_error (map_of (rc_by_type c) (n_type n))
        then (None, r\<lparr>nr_output := JObj [(''code'', JStr (code_or_default (nr_error_code r))),
                 (''message'', opt_str (nr_error_message r)),
                 (''detail'', (case nr_error_detail r of None \<Rightarrow> JNull | Some d \<Rightarrow> d))],
               nr_ports := Some [''error'']\<rparr>)
        else (failure s i r, r)))"

definition note_result :: "string \<Rightarrow> node_result \<Rightarrow> run_state \<Rightarrow> run_state" where
  "note_result i r s =
     (let s1 = (if nr_status r = ''skipped'' then s\<lparr>rn_skipped := rn_skipped s @ [i]\<rparr> else s);
          s2 = emit (Ev_Output i (nr_output r)) s1 in
      s2\<lparr>rn_produced := AList.update i (nr_output r) (rn_produced s2),
         rn_ran_stack := (case rn_ran_stack s2 of [] \<Rightarrow> [] | cur # rest \<Rightarrow> List.insert i cur # rest)\<rparr>)"

definition apply_output_check :: "run_ctx \<Rightarrow> string \<Rightarrow> 'x node_type_scheme \<Rightarrow> node_result \<Rightarrow> node_result" where
  "apply_output_check c i spec r =
     (if nr_status r \<noteq> ''succeeded'' then r
      else if list_ex (\<lambda>p. ps_port p \<noteq> ''error'' \<and>
             (case nr_ports r of None \<Rightarrow> True | Some ports \<Rightarrow> ps_port p \<in> set ports) \<and>
             (case Option.bind (map_of (rc_schemas c) i) (\<lambda>produced. Option.bind (map_of produced (ps_port p)) id) of
                None \<Rightarrow> False
              | Some schema \<Rightarrow> is_obj schema \<and> \<not> en_output_matches (rc_env c) (nr_output r) schema)) (nt_outputs spec)
      then mk_result ''failed'' (Some ''CHANNEL_OUTPUT_SCHEMA_MISMATCH'')
             (Some ''Output does not match the declared schema'') None
      else r)"

text \<open>\<open>_round_stop_result\<close> for the outcome that stopped the body walk of round \<open>index\<close>.\<close>

definition round_stop_result :: "run_outcome \<Rightarrow> nat \<Rightarrow> node_result" where
  "round_stop_result outcome index =
     (case ro_failed_node outcome of
        Some failed \<Rightarrow> mk_result ''failed'' (Some ''CHANNEL_LOOP_BODY_STOPPED'') (Some ''A loop body node stopped the run.'')
          (Some (JObj [(''index'', JInt (int index)), (''node_id'', JStr failed)]))
      | None \<Rightarrow>
          if ro_status outcome = ''cancelled''
          then mk_result ''cancelled'' None None (Some (JObj [(''index'', JInt (int index))]))
          else mk_result ''failed'' (ro_error_code outcome) (ro_error_message outcome)
                 (Some (JObj [(''index'', JInt (int index))])))"

section \<open>One node: start, invoke, tries\<close>

text \<open>
  \<open>sub\<close> is the walk of a body. A computation is \<open>None\<close> only when the nesting allowance of
  \<open>sub\<close> is used up. \<open>Inl (outcome, index)\<close> is the \<open>_RoundStopped\<close> exception.
\<close>

type_synonym sub_walk = "string list \<Rightarrow> run_state \<Rightarrow> (run_outcome option \<times> run_state) option"
type_synonym round_stop = "run_outcome \<times> nat"

definition node_at :: "run_ctx \<Rightarrow> string \<Rightarrow> node" where
  "node_at c i = the (map_of (rc_nodes c) i)"

definition ref_or_id :: "run_ctx \<Rightarrow> string \<Rightarrow> string" where
  "ref_or_id c i = (case n_ref (node_at c i) of None \<Rightarrow> i | Some r \<Rightarrow> if r = [] then i else r)"

definition round_record_of :: "run_ctx \<Rightarrow> run_state \<Rightarrow> string list \<Rightarrow> round_record" where
  "round_record_of c s done_ids =
     py_dict (map (\<lambda>b. (ref_or_id c b, case map_of (rn_produced s) b of None \<Rightarrow> JNull | Some v \<Rightarrow> v))
       (sort_key (ref_or_id c) done_ids))"

definition arm :: "run_ctx \<Rightarrow> string \<Rightarrow> string list \<Rightarrow> run_state \<Rightarrow> run_state" where
  "arm c loop body s =
     (let from_loop = (\<lambda>l. lk_source l = loop \<and> lk_source_port l = ''each'') in
      set_links (\<lambda>index. if from_loop (link_at c index) then Live else Pending)
        (filter (\<lambda>index. lk_target (link_at c index) \<in> set body \<and>
             (lk_source (link_at c index) \<in> set body \<or> from_loop (link_at c index)))
          [0..<length (rc_links c)]) s)"

definition drop_outputs :: "run_ctx \<Rightarrow> string list \<Rightarrow> run_state \<Rightarrow> run_state" where
  "drop_outputs c body s = (if body = [] then s else emit (Ev_Drop (sort (map (ref_or_id c) body))) s)"

text \<open>Before the walk of a round: everything \<open>run_round\<close> does up to the \<open>try\<close>.\<close>

definition open_round :: "run_ctx \<Rightarrow> string \<Rightarrow> int \<Rightarrow> nat \<Rightarrow> json \<Rightarrow> json option \<Rightarrow> run_state \<Rightarrow> run_state" where
  "open_round c i seq index step record s =
     (let body = dict_get_list (rc_bodies c) i;
          s1 = drop_outputs c body s;
          s2 = s1\<lparr>rn_produced := filter (\<lambda>kv. fst kv \<notin> set body) (rn_produced s1)\<rparr>;
          s3 = emit (Ev_Output i step) s2;
          s4 = s3\<lparr>rn_produced := AList.update i step (rn_produced s3)\<rparr>;
          s5 = emit (Ev_Round seq index (case record of None \<Rightarrow> step | Some v \<Rightarrow> v)) s4;
          s6 = arm c i body s5
      in s6\<lparr>rn_ran_stack := [] # rn_ran_stack s6, rn_frames := (seq, index) # rn_frames s6\<rparr>)"

definition run_round ::
  "sub_walk \<Rightarrow> run_ctx \<Rightarrow> string \<Rightarrow> int \<Rightarrow> nat \<Rightarrow> json \<Rightarrow> json option \<Rightarrow> run_state \<Rightarrow>
   ((round_stop + round_record) \<times> run_state) option" where
  "run_round sub c i seq index step record s =
     Option.bind (sub (dict_get_list (rc_bodies c) i) (open_round c i seq index step record s))
       (\<lambda>(outcome, s1).
          let done_ids = hd (rn_ran_stack s1);
              s2 = s1\<lparr>rn_frames := tl (rn_frames s1), rn_ran_stack := tl (rn_ran_stack s1)\<rparr>
          in Some (case outcome of
                 Some x \<Rightarrow> (Inl (x, index), s2)
               | None \<Rightarrow> (Inr (round_record_of c s2 done_ids), s2)))"

primrec run_prog ::
  "sub_walk \<Rightarrow> run_ctx \<Rightarrow> string \<Rightarrow> int \<Rightarrow> container_prog \<Rightarrow> nat \<Rightarrow> run_state \<Rightarrow>
   ((round_stop + node_result) \<times> run_state) option" where
  "run_prog sub c i seq (Finish r) = (\<lambda>index s. Some (Inr r, s))"
| "run_prog sub c i seq (Round step record cont) = (\<lambda>index s.
     Option.bind (run_round sub c i seq index step record s)
       (\<lambda>(res, s1). case res of
            Inl stop \<Rightarrow> Some (Inl stop, s1)
          | Inr rec \<Rightarrow> run_prog sub c i seq (cont rec (rn_log s1)) (Suc index) s1))"

definition invoke ::
  "sub_walk \<Rightarrow> run_ctx \<Rightarrow> string \<Rightarrow> int \<Rightarrow> run_state \<Rightarrow> ((round_stop + node_result) \<times> run_state) option" where
  "invoke sub c i seq s =
     (let n = node_at c i in
      case map_of (rc_by_type c) (n_type n) of
        None \<Rightarrow> Some (Inr (mk_result ''failed'' (Some ''CHANNEL_NODE_FAILED'')
                    (Some (''No executor for '' @ n_type n)) None), s)
      | Some spec \<Rightarrow>
          if nt_container spec \<noteq> None
          then Option.bind (run_prog sub c i seq (et_run spec n (rn_log s)) 0 s)
                 (\<lambda>(res, s1). Some (map_sum id (apply_output_check c i spec) res, s1))
          else Some (Inr (apply_output_check c i spec (et_execute spec n (rn_log s))), s))"

definition skip_output :: "node_result \<Rightarrow> node_result" where
  "skip_output r =
     (if nr_status r = ''skipped'' \<and> nr_output r = JNull
      then r\<lparr>nr_output := JObj [(''skipped'', JBool True), (''reason'', opt_str (nr_error_message r))]\<rparr>
      else r)"

text \<open>\<open>_start\<close> with \<open>_attempt\<close>'s handler: \<open>Inl\<close> is the outcome that halts the run.\<close>

definition attempt ::
  "sub_walk \<Rightarrow> run_ctx \<Rightarrow> string \<Rightarrow> run_state \<Rightarrow> (((run_outcome \<times> node_result) + (int \<times> node_result)) \<times> run_state) option" where
  "attempt sub c i s =
     (let frame = (case rn_frames s of [] \<Rightarrow> None | f # _ \<Rightarrow> Some f);
          s1 = emit (Ev_Start i frame) s;
          seq = en_seq (rc_env c) (rn_log s1);
          s2 = emit (Ev_Open seq) s1
      in Option.bind (invoke sub c i seq s2)
        (\<lambda>(res, s3). Some (case res of
            Inl (outcome, index) \<Rightarrow>
              (Inl (outcome, round_stop_result outcome index),
               emit Ev_Close (emit (Ev_Finish seq i (round_stop_result outcome index)) s3))
          | Inr r \<Rightarrow> (Inr (seq, skip_output r), emit Ev_Close s3))))"

primrec pause_loop :: "run_ctx \<Rightarrow> string \<Rightarrow> nat \<Rightarrow> run_state \<Rightarrow> run_outcome option \<times> run_state" where
  "pause_loop c i 0 s = (None, s)"
| "pause_loop c i (Suc n) s =
     (case stopped c i s of (Some x, s1) \<Rightarrow> (Some x, s1) | (None, s1) \<Rightarrow> pause_loop c i n s1)"

definition pause :: "run_ctx \<Rightarrow> string \<Rightarrow> rat \<Rightarrow> run_state \<Rightarrow> run_outcome option \<times> run_state" where
  "pause c i wait s =
     (case stopped c i s of
        (Some x, s1) \<Rightarrow> (Some x, s1)
      | (None, s1) \<Rightarrow>
          if wait \<le> 0 then (None, s1)
          else pause_loop c i (en_ticks (rc_env c) (rn_log s1)) (emit (Ev_Pause wait) s1))"

text \<open>
  The retry loop of \<open>_tries\<close>; \<open>left\<close> is \<open>tries - attempt\<close>. The pair of a seq and a result is
  the last finished attempt.
\<close>

type_synonym tried = "(run_outcome + (int \<times> node_result)) \<times> run_state"

primrec retry_loop ::
  "sub_walk \<Rightarrow> run_ctx \<Rightarrow> string \<Rightarrow> int \<Rightarrow> nat \<Rightarrow> int \<Rightarrow> node_result \<Rightarrow> run_state \<Rightarrow> tried option" where
  "retry_loop sub c i wait 0 seq r s = Some (Inr (seq, r), s)"
| "retry_loop sub c i wait (Suc left) seq r s =
     (if nr_status r \<noteq> ''failed'' then Some (Inr (seq, r), s)
      else case pause c i (retry_pause wait (nr_minimum_wait r)) (emit (Ev_Finish seq i r) s) of
          (Some x, s1) \<Rightarrow> Some (Inl x, s1)
        | (None, s1) \<Rightarrow> (case stopped c i s1 of
              (Some x, s2) \<Rightarrow> Some (Inl x, s2)
            | (None, s2) \<Rightarrow> Option.bind (attempt sub c i s2)
                (\<lambda>(res, s3). case res of
                    Inl (x, _) \<Rightarrow> Some (Inl x, s3)
                  | Inr (seq', r') \<Rightarrow> retry_loop sub c i wait left seq' r' s3)))"

definition tries :: "sub_walk \<Rightarrow> run_ctx \<Rightarrow> string \<Rightarrow> run_state \<Rightarrow> tried option" where
  "tries sub c i s =
     (case stopped c i s of
        (Some x, s1) \<Rightarrow> Some (Inl x, s1)
      | (None, s1) \<Rightarrow> Option.bind (attempt sub c i s1)
          (\<lambda>(res, s2). case res of
              Inl (x, _) \<Rightarrow> Some (Inl x, s2)
            | Inr (seq, r) \<Rightarrow>
                (case retry_budget (node_at c i) of (n, wait) \<Rightarrow> retry_loop sub c i wait (nat (n - 1)) seq r s2)))"

section \<open>Walking\<close>

text \<open>
  The common part of \<open>_run\<close> and \<open>_run_loop\<close>: the policy sees the result before the finish
  event, and a container leaves its \<open>each\<close> links alone.
\<close>

definition run_node :: "sub_walk \<Rightarrow> run_ctx \<Rightarrow> string \<Rightarrow> run_state \<Rightarrow> (run_outcome option \<times> run_state) option" where
  "run_node sub c i s =
     Option.bind (tries sub c i s)
       (\<lambda>(res, s1). case res of
           Inl x \<Rightarrow> Some (Some x, s1)
         | Inr (seq, r) \<Rightarrow>
             (case policy c s1 i r of (outcome, r') \<Rightarrow>
                let s2 = emit (Ev_Finish seq i r') s1 in
                case outcome of
                  Some x \<Rightarrow> Some (Some x, s2)
                | None \<Rightarrow> Some (None, settle c i r' (if i \<in> set (rc_loops c) then [''each''] else []) (note_result i r' s2))))"

definition hidden :: "run_ctx \<Rightarrow> string list \<Rightarrow> string list" where
  "hidden c scope = concat (map snd (filter (\<lambda>(loop, body). loop \<in> set scope) (rc_bodies c)))"

definition direct_of :: "run_ctx \<Rightarrow> string list \<Rightarrow> string list" where
  "direct_of c scope = filter (\<lambda>i. i \<in> set (rc_reachable c) \<and> i \<notin> set (hidden c scope)) (remdups scope)"

definition seeds :: "run_ctx \<Rightarrow> run_state \<Rightarrow> string list \<Rightarrow> string list" where
  "seeds c s direct = onto_stack c (filter (ready c s) direct) []"

text \<open>The \<open>while stack\<close> loop; \<open>exec\<close> is \<open>_run\<close> up to the push of the successors.\<close>

function walk_loop ::
  "(string \<Rightarrow> run_state \<Rightarrow> (run_outcome option \<times> run_state) option) \<Rightarrow> run_ctx \<Rightarrow> string list \<Rightarrow>
   string list \<Rightarrow> string list \<Rightarrow> run_state \<Rightarrow> (run_outcome option \<times> run_state) option" where
  "walk_loop exec c direct visited [] s = Some (None, s)"
| "walk_loop exec c direct visited (i # stack) s =
     (case stopped c i s of
        (Some x, s1) \<Rightarrow> Some (Some x, s1)
      | (None, s1) \<Rightarrow>
          if i \<in> set visited \<or> i \<notin> set direct then walk_loop exec c direct visited stack s1
          else if \<not> ready c s1 i then walk_loop exec c direct visited stack s1
          else if \<not> live_incoming c s1 i then
            (let s2 = kill c i s1 in
             walk_loop exec c direct (i # visited) (push_ready c s2 i direct (i # visited) stack) s2)
          else Option.bind (exec i s1)
            (\<lambda>(outcome, s2). case outcome of
                Some x \<Rightarrow> Some (Some x, s2)
              | None \<Rightarrow> walk_loop exec c direct (i # visited) (push_ready c s2 i direct visited stack) s2))"
  by pat_completeness auto

lemma direct_minus_visited:
  "i \<in> set direct \<Longrightarrow> i \<notin> set visited \<Longrightarrow>
   card (set direct - insert i (set visited)) < card (set direct - set visited)"
  by (rule psubset_card_mono) auto

termination walk_loop
  apply (relation "measures [\<lambda>(exec, c, direct, visited, st, s). card (set direct - set visited),
                             \<lambda>(exec, c, direct, visited, st, s). length st]")
  by (auto simp: direct_minus_visited simp del: card_Diff_insert)

primrec walk_at :: "nat \<Rightarrow> run_ctx \<Rightarrow> string list \<Rightarrow> run_state \<Rightarrow> (run_outcome option \<times> run_state) option" where
  "walk_at 0 c scope s = None"
| "walk_at (Suc d) c scope s =
     walk_loop (run_node (walk_at d c) c) c (direct_of c scope) [] (seeds c s (direct_of c scope)) s"

definition walk_from :: "nat \<Rightarrow> run_ctx \<Rightarrow> string list \<Rightarrow> string \<Rightarrow> run_state \<Rightarrow> (run_outcome option \<times> run_state) option" where
  "walk_from d c scope start s =
     (let direct = direct_of c scope in
      walk_loop (run_node (walk_at d c) c) c direct [] (if start \<in> set direct then [start] else []) s)"

section \<open>Execute\<close>

definition child_index :: "graph \<Rightarrow> nodes_by_id \<Rightarrow> (string \<times> string list) list" where
  "child_index g nodes =
     map (\<lambda>(i, kids). (i, sort_key (\<lambda>k. case map_of nodes k of None \<Rightarrow> (0, 0) | Some n \<Rightarrow> position n) kids))
       (dict_group (map (\<lambda>e. (source_id e, target_id e))
           (filter (\<lambda>e. known nodes (source_id e) \<and> known nodes (target_id e)) (g_edges g)))
         (map (\<lambda>(i, n). (i, [])) nodes))"

definition output_schemas :: "refined_port list \<Rightarrow> (string \<times> (string \<times> json option) list) list" where
  "output_schemas ports =
     fold (\<lambda>p d. AList.update (rp_node p)
              (AList.update (rp_port p) (rp_schema p) (case map_of d (rp_node p) of None \<Rightarrow> [] | Some m \<Rightarrow> m)) d)
       (filter (\<lambda>p. rp_direction p = ''output'') ports) []"

definition reachable_of :: "graph \<Rightarrow> string \<Rightarrow> string option \<Rightarrow> string list" where
  "reachable_of g trigger stop_at =
     (let r = push_search (child_index g (nodes_index (g_nodes g))) [trigger] in
      case stop_at of None \<Rightarrow> r
      | Some t \<Rightarrow> (case ancestor_closure g t of None \<Rightarrow> [] | Some cl \<Rightarrow> filter (\<lambda>i. i \<in> set cl) r))"

definition execute ::
  "nat \<Rightarrow> graph \<Rightarrow> string \<Rightarrow> exec_type list \<Rightarrow> resolver \<Rightarrow> run_env \<Rightarrow> int option \<Rightarrow> string option \<Rightarrow>
   (run_outcome \<times> event_log) option" where
  "execute d g trigger types resolver env timeout stop_at =
     (if \<not> known (nodes_index (g_nodes g)) trigger
      then Some (mk_outcome ''cancelled'' (Some ''CHANNEL_TRIGGER_INVALID'') (Some ''Trigger node is not in the graph''), [])
      else
        (let reachable = reachable_of g trigger stop_at;
             c = make_ctx g (types_index types) (output_schemas (refine_ports g resolver types)) env reachable timeout
         in Option.bind (walk_from d c reachable trigger (init_state c))
           (\<lambda>(outcome, s). Some (case outcome of
               Some x \<Rightarrow> (x, rn_log s)
             | None \<Rightarrow> ((mk_outcome ''succeeded'' None None)\<lparr>ro_outcome := Some ''completed'', ro_skipped := rn_skipped s\<rparr>,
                         rn_log s)))))"

end
