(* ===== verification/Channel_Spec.thy ===== *)
theory Channel_Spec
  imports Channel_Validate
begin

text \<open>
  What the draft validation promises: the well-formedness of a graph as predicates over its
  nodes and edges, the soundness of the passes with respect to it, and the specification of
  \<open>refine_ports\<close> as the solution of the refinement equations.
\<close>


lemma index_unique:
  assumes "distinct (map n_id nodes)"
  shows "nodes_index nodes = map (\<lambda>n. (n_id n, n)) nodes"
  unfolding nodes_index_def by (rule py_dict_distinct) (simp add: comp_def assms)

lemma map_of_index:
  "distinct (map n_id nodes) \<Longrightarrow> n \<in> set nodes \<Longrightarrow> map_of (nodes_index nodes) (n_id n) = Some n"
  by (simp add: index_unique map_of_is_SomeI comp_def)

lemma map_of_index_None_iff [simp]: "map_of (nodes_index nodes) i = None \<longleftrightarrow> i \<notin> n_id ` set nodes"
  by (metis keys_nodes_index map_of_eq_None_iff)

lemma map_of_indexD: "map_of (nodes_index nodes) i = Some n \<Longrightarrow> n \<in> set nodes \<and> n_id n = i"
  by (auto simp: nodes_index_def dict_simps dest!: map_of_SomeD)

section \<open>Well-formed graphs\<close>

definition ports_ok :: "nodes_by_id \<Rightarrow> 'x types_by_id \<Rightarrow> edge \<Rightarrow> bool" where
  "ports_ok by_id by_type e \<longleftrightarrow>
     (\<exists>s t st tt. map_of by_id (source_id e) = Some s \<and> map_of by_id (target_id e) = Some t \<and>
        map_of by_type (n_type s) = Some st \<and> map_of by_type (n_type t) = Some tt \<and>
        has_port (nt_outputs st) (pr_port (e_source e)) \<and> has_port (nt_inputs tt) (pr_port (e_target e)))"

definition parent_rel :: "nodes_by_id \<Rightarrow> (string \<times> string) set" where
  "parent_rel by_id = {(i, p). parent_at by_id i = Some p}"

definition frame_entry_ok :: "nodes_by_id \<Rightarrow> 'x types_by_id \<Rightarrow> edge \<Rightarrow> bool" where
  "frame_entry_ok by_id by_type e \<longleftrightarrow>
     (parent_at by_id (source_id e) = parent_at by_id (target_id e) \<and>
        (pr_port (e_source e) = ''each'' \<longrightarrow>
           \<not> (\<exists>s. map_of by_id (source_id e) = Some s \<and> is_container (n_type s) by_type))) \<or>
     (parent_at by_id (target_id e) = Some (source_id e) \<and> pr_port (e_source e) = ''each'')"

definition graph_ok :: "graph \<Rightarrow> 'x node_type_scheme list \<Rightarrow> bool" where
  "graph_ok g catalog \<longleftrightarrow>
     (let by_id = nodes_index (g_nodes g); by_type = types_index catalog; nodes = g_nodes g; edges = g_edges g in
      distinct (map n_name nodes) \<and> distinct (map n_ref nodes) \<and> (\<forall>n \<in> set nodes. ref_usable (n_ref n)) \<and>
      (\<forall>n \<in> set nodes. map_of by_type (n_type n) \<noteq> None) \<and>
      (\<forall>e \<in> set edges. ports_ok by_id by_type e) \<and>
      (\<exists>t \<in> set nodes. is_trigger t by_type \<and> (\<forall>n \<in> set nodes. is_trigger n by_type \<longrightarrow> n = t) \<and>
         (\<forall>e \<in> set edges. target_id e \<noteq> n_id t) \<and>
         (\<forall>n \<in> set nodes. (n_id t, n_id n) \<in> (edge_rel edges by_id)\<^sup>*)) \<and>
      acyclic (edge_rel edges by_id) \<and> acyclic (parent_rel by_id) \<and>
      (\<forall>e \<in> set edges. frame_entry_ok by_id by_type e) \<and>
      (\<forall>i p. parent_at by_id i = Some p \<longrightarrow> (\<exists>n. map_of by_id p = Some n \<and> is_container (n_type n) by_type)))"

lemma ref_problems_from_empty:
  "ref_problems_from seen ns = [] \<Longrightarrow>
   (\<forall>n \<in> set ns. ref_usable (n_ref n)) \<and> distinct (map n_ref ns) \<and> (\<forall>n \<in> set ns. the (n_ref n) \<notin> seen)"
proof (induction ns arbitrary: seen)
  case (Cons n ns)
  have ok: "ref_usable (n_ref n)" "the (n_ref n) \<notin> seen"
    and rest: "ref_problems_from (insert (the (n_ref n)) seen) ns = []"
    using Cons.prems by (auto split: if_splits)
  note IH = Cons.IH [OF rest]
  have "n_ref n \<notin> n_ref ` set ns"
  proof
    assume "n_ref n \<in> n_ref ` set ns"
    then obtain m where "m \<in> set ns" "n_ref m = n_ref n" by auto
    then show False using IH by auto
  qed
  then show ?case using ok IH by auto
qed simp

section \<open>The errors that block a publish\<close>

text \<open>\<open>publish_channel\<close> refuses when \<open>blocking\<close> is not empty; warnings pass.\<close>

definition blocking :: "problem list \<Rightarrow> problem list" where
  "blocking ps = filter (\<lambda>p. pb_severity p = ''error'') ps"

lemma blocking_simps [simp]:
  "blocking [] = []" "blocking (ps @ qs) = blocking ps @ blocking qs"
  "blocking (mk_problem c d i j # ps) = mk_problem c d i j # blocking ps"
  by (simp_all add: blocking_def mk_problem_def)

lemma blocking_errors: "\<forall>p \<in> set ps. pb_severity p = ''error'' \<Longrightarrow> blocking ps = ps"
  by (simp add: blocking_def)

lemma blocking_concat: "blocking (concat pss) = [] \<longleftrightarrow> (\<forall>ps \<in> set pss. blocking ps = [])"
  by (induction pss) auto

lemma severity_mk [simp]: "pb_severity (mk_problem c d i j) = ''error''"
  by (simp add: mk_problem_def)

lemma blocking_map_mk [simp]: "blocking (map (\<lambda>n. mk_problem (c n) (d n) (i n) (j n)) xs) = map (\<lambda>n. mk_problem (c n) (d n) (i n) (j n)) xs"
  by (rule blocking_errors) simp

lemma gather_blocking:
  assumes "gather xs = Some ps" and "blocking ps = []" and "x \<in> set xs"
  shows "\<exists>q. x = Some q \<and> blocking q = []"
proof -
  obtain qss where "xs = map Some qss" "ps = concat qss" using assms(1) by (auto simp: opt_simps)
  then show ?thesis using assms(2,3) by (auto simp: blocking_concat)
qed

lemma ref_problems_from_severity: "\<forall>p \<in> set (ref_problems_from seen ns). pb_severity p = ''error''"
  by (induction ns arbitrary: seen) auto

lemma cycle_problems_severity: "\<forall>p \<in> set (cycle_problems nodes edges by_id). pb_severity p = ''error''"
  using cycle_problems_sound [of nodes edges by_id] by (auto simp: cycle_problem_def)

lemma type_and_config_known:
  assumes "type_and_config_problems iter nodes by_type = Some ps" and "blocking ps = []" and "n \<in> set nodes"
  shows "map_of by_type (n_type n) \<noteq> None"
proof -
  obtain q where "type_and_config_node iter by_type n = Some q" "blocking q = []"
    using gather_blocking [OF assms(1) [unfolded type_and_config_problems_def] assms(2)] assms(3) by fastforce
  then show ?thesis by (cases "map_of by_type (n_type n)") (auto simp: type_and_config_node_def)
qed

lemma edge_problem_ports:
  assumes "blocking (edge_problem by_id by_type e) = []"
    and "\<And>i n. map_of by_id i = Some n \<Longrightarrow> map_of by_type (n_type n) \<noteq> None"
  shows "ports_ok by_id by_type e"
proof -
  obtain s t where st: "map_of by_id (source_id e) = Some s" "map_of by_id (target_id e) = Some t"
    using assms(1) by (auto simp: edge_problem_def bad_edge_def split: option.splits)
  moreover obtain a b where "map_of by_type (n_type s) = Some a" "map_of by_type (n_type t) = Some b"
    using assms(2) st by blast
  ultimately show ?thesis using assms(1)
    by (auto simp: edge_problem_def bad_edge_def ports_ok_def Let_def split: if_splits)
qed

lemma parent_cycle_loop_detects:
  assumes "\<And>x p. parent_at by_id x = Some p \<Longrightarrow> \<exists>n. map_of by_id p = Some n \<and> is_container (n_type n) by_type"
  shows "\<forall>y. (cur, y) \<in> (parent_rel by_id)\<^sup>* \<longrightarrow> parent_at by_id y \<noteq> None \<Longrightarrow>
    parent_cycle_loop by_id by_type seen cur"
proof (induction "card (fst ` set by_id - set seen)" arbitrary: seen cur rule: less_induct)
  case less
  obtain p where p: "parent_at by_id cur = Some p" using less.prems by blast
  then obtain n where n: "map_of by_id p = Some n" "is_container (n_type n) by_type" using assms by blast
  show ?case
  proof (cases "p \<in> set seen")
    case True
    then show ?thesis using p n by (subst parent_cycle_loop.simps) simp
  next
    case False
    have "(cur, p) \<in> parent_rel by_id" using p by (simp add: parent_rel_def)
    then have "\<forall>y. (p, y) \<in> (parent_rel by_id)\<^sup>* \<longrightarrow> parent_at by_id y \<noteq> None"
      using less.prems by (meson converse_rtrancl_into_rtrancl)
    then have "parent_cycle_loop by_id by_type (p # seen) p"
      using less.hyps [of "p # seen" p] keys_minus_insert [OF n(1) False] by simp
    then show ?thesis using p n False by (subst parent_cycle_loop.simps) simp
  qed
qed

lemma function_cycle_total:
  assumes "single_valued r" and "(x, x) \<in> r\<^sup>+" and "(x, y) \<in> r\<^sup>*"
  shows "\<exists>z. (y, z) \<in> r"
  using assms(3)
proof (cases rule: rtrancl.cases)
  case rtrancl_refl
  then show ?thesis using assms(2) by (auto dest: tranclD)
next
  case rtrancl_into_rtrancl
  have "(y, x) \<in> r\<^sup>* \<or> (x, y) \<in> r\<^sup>*" using assms(3) by simp
  have "(y, x) \<in> r\<^sup>*" using assms(3)
  proof (induction rule: rtrancl_induct)
    case (step a b)
    have "(a, x) \<in> r\<^sup>+" using step assms(2) by (auto simp: rtrancl_eq_or_trancl)
    then obtain c where "(a, c) \<in> r" "(c, x) \<in> r\<^sup>*" by (auto dest: tranclD)
    then show ?case using step assms(1) by (auto simp: single_valued_def)
  qed simp
  then show ?thesis using assms(2) by (metis converse_rtranclE tranclD)
qed

lemma parent_problems_empty:
  assumes "blocking (parent_problems by_id by_type n) = []" and "n_parent n = Some p"
  shows "(\<exists>m. map_of by_id p = Some m \<and> is_container (n_type m) by_type) \<and> \<not> parent_cycle (n_id n) by_id by_type"
  using assms by (cases "map_of by_id p") (simp_all add: parent_problems_def frame_problem_def split: if_splits)

lemma parent_at_index:
  "parent_at (nodes_index nodes) i = Some p \<Longrightarrow> \<exists>n \<in> set nodes. n_id n = i \<and> n_parent n = Some p"
proof -
  assume "parent_at (nodes_index nodes) i = Some p"
  then obtain n where n: "map_of (nodes_index nodes) i = Some n" and "parent_ref n = Some p"
    by (auto simp: parent_at_def bind_eq_Some_conv)
  then have "n_parent n = Some p" by (simp add: parent_ref_def split: option.splits if_splits)
  then show ?thesis using map_of_indexD [OF n] by blast
qed

lemma parents_acyclic:
  assumes ok: "\<forall>n \<in> set nodes. blocking (parent_problems (nodes_index nodes) by_type n) = []"
  shows "acyclic (parent_rel (nodes_index nodes))"
proof (rule ccontr)
  let ?d = "nodes_index nodes"
  assume "\<not> acyclic (parent_rel ?d)"
  then obtain x where x: "(x, x) \<in> (parent_rel ?d)\<^sup>+" by (auto simp: acyclic_def)
  have cont: "\<exists>n. map_of ?d p = Some n \<and> is_container (n_type n) by_type" if "parent_at ?d i = Some p" for i p
    using parent_at_index [OF that] parent_problems_empty ok by blast
  have "single_valued (parent_rel ?d)" by (auto simp: single_valued_def parent_rel_def)
  then have "\<forall>y. (x, y) \<in> (parent_rel ?d)\<^sup>* \<longrightarrow> parent_at ?d y \<noteq> None"
    using function_cycle_total [OF _ x] by (auto simp: parent_rel_def)
  then have "parent_cycle x ?d by_type" unfolding parent_cycle_def
    using parent_cycle_loop_detects [of ?d by_type x "[x]"] cont by blast
  moreover obtain p where "parent_at ?d x = Some p" using x by (auto simp: parent_rel_def dest: tranclD)
  then obtain n where "n \<in> set nodes" "n_id n = x" "n_parent n = Some p" using parent_at_index by blast
  ultimately show False using ok parent_problems_empty by blast
qed

lemma frame_entry:
  assumes e: "blocking (frame_edge_problems by_id by_type e) = []" and p: "ports_ok by_id by_type e"
    and cont: "\<And>x q. parent_at by_id x = Some q \<Longrightarrow> \<exists>n. map_of by_id q = Some n \<and> is_container (n_type n) by_type"
  shows "frame_entry_ok by_id by_type e"
proof -
  obtain s t where st: "map_of by_id (source_id e) = Some s" "map_of by_id (target_id e) = Some t"
    using p by (auto simp: ports_ok_def)
  then have pt: "parent_ref t = parent_at by_id (target_id e)" by (simp add: parent_at_def)
  show ?thesis
    using e st pt cont [of "target_id e" "source_id e"]
    by (auto simp: frame_edge_problems_def frame_problem_def Let_def frame_entry_ok_def crosses_frame_def split: if_splits)
qed

lemma trigger_problems_empty:
  assumes "blocking (trigger_problems nodes edges by_id by_type) = []"
  shows "(\<exists>t \<in> set nodes. is_trigger t by_type \<and> (\<forall>n \<in> set nodes. is_trigger n by_type \<longrightarrow> n = t)) \<and>
    (\<forall>e \<in> set edges. \<forall>t. map_of by_id (target_id e) = Some t \<longrightarrow> \<not> is_trigger t by_type)"
proof -
  let ?T = "filter (\<lambda>n. is_trigger n by_type) nodes"
  have "?T \<noteq> []" and "\<not> length ?T > 1"
    using assms by (auto simp: trigger_problems_def Let_def split: if_splits)
  then obtain t where t: "?T = [t]" by (cases ?T) (auto simp: length_Suc_conv)
  then have "set ?T = {t}" by simp
  then have one: "\<exists>t \<in> set nodes. is_trigger t by_type \<and> (\<forall>n \<in> set nodes. is_trigger n by_type \<longrightarrow> n = t)" by auto
  have "\<not> is_trigger m by_type" if "e \<in> set edges" "map_of by_id (target_id e) = Some m" for e m
    using assms that by (auto simp: trigger_problems_def Let_def blocking_concat split: if_splits)
  then show ?thesis using one by blast
qed

lemma reachability_empty:
  "blocking (reachability_problems nodes edges by_id by_type) = [] \<Longrightarrow> n \<in> set nodes \<Longrightarrow>
   n_id n \<in> set (reachable_ids nodes edges by_id by_type)"
  by (auto simp: reachability_problems_def Let_def filter_empty_conv)

lemma validate_graph_ok:
  assumes v: "validate_graph iter lib g rs catalog = Some ps" and b: "blocking ps = []"
    and u: "distinct (map n_id (g_nodes g))"
  shows "graph_ok g catalog"
proof -
  let ?nodes = "g_nodes g" and ?edges = "g_edges g"
  let ?d = "nodes_index ?nodes" and ?T = "types_index catalog"
  note pass = gather_blocking [OF v [unfolded validate_graph_def Let_def] b, simplified]
  have names: "blocking (name_problems ?nodes) = []" and refs: "blocking (ref_problems ?nodes) = []"
    and edges: "blocking (edge_problems ?edges ?d ?T) = []"
    and trig: "blocking (trigger_problems ?nodes ?edges ?d ?T) = []"
    and reach: "blocking (reachability_problems ?nodes ?edges ?d ?T) = []"
    and cyc: "blocking (cycle_problems ?nodes ?edges ?d) = []"
    and frames: "blocking (container_frame_problems ?nodes ?edges ?d ?T) = []"
    using pass by auto
  obtain qs where "type_and_config_problems iter ?nodes ?T = Some qs" "blocking qs = []" using pass by blast
  then have types: "\<forall>n \<in> set ?nodes. map_of ?T (n_type n) \<noteq> None" using type_and_config_known by blast
  have ports: "\<forall>e \<in> set ?edges. ports_ok ?d ?T e"
    using edges types map_of_indexD by (auto simp: edge_problems_def blocking_concat intro!: edge_problem_ports)
  have parents: "\<forall>n \<in> set ?nodes. blocking (parent_problems ?d ?T n) = []"
    and entry: "\<forall>e \<in> set ?edges. blocking (frame_edge_problems ?d ?T e) = []"
    using frames by (auto simp: container_frame_problems_def blocking_concat)
  have cont: "\<exists>n. map_of ?d q = Some n \<and> is_container (n_type n) ?T" if "parent_at ?d x = Some q" for x q
    using parent_at_index [OF that] parents parent_problems_empty by blast
  obtain t where t: "t \<in> set ?nodes" "is_trigger t ?T" "\<forall>n \<in> set ?nodes. is_trigger n ?T \<longrightarrow> n = t"
    and no_in: "\<forall>e \<in> set ?edges. \<forall>m. map_of ?d (target_id e) = Some m \<longrightarrow> \<not> is_trigger m ?T"
    using trigger_problems_empty [OF trig] by blast
  have no_target: "\<forall>e \<in> set ?edges. target_id e \<noteq> n_id t"
    using no_in t(2) map_of_index [OF u t(1)] by metis
  have "{n_id n | n. n \<in> set ?nodes \<and> is_trigger n ?T} = {n_id t}" using t by blast
  then have "set (reachable_ids ?nodes ?edges ?d ?T) = (edge_rel ?edges ?d)\<^sup>* `` {n_id t}"
    by (simp add: reachable_ids_set)
  then have reached: "\<forall>n \<in> set ?nodes. (n_id t, n_id n) \<in> (edge_rel ?edges ?d)\<^sup>*"
    using reachability_empty [OF reach] by blast
  have ac: "acyclic (edge_rel ?edges ?d)"
    using cyc blocking_errors [OF cycle_problems_severity] cycle_problems_exact by metis
  have nm: "distinct (map n_name ?nodes)"
    using names by (simp add: name_problems_def repeats_empty_iff)
  have rf: "(\<forall>n \<in> set ?nodes. ref_usable (n_ref n)) \<and> distinct (map n_ref ?nodes)"
    using refs ref_problems_from_empty blocking_errors [OF ref_problems_from_severity] by (metis ref_problems_def)
  have fe: "\<forall>e \<in> set ?edges. frame_entry_ok ?d ?T e" using frame_entry entry ports cont by blast
  have one: "\<exists>t \<in> set ?nodes. is_trigger t ?T \<and> (\<forall>n \<in> set ?nodes. is_trigger n ?T \<longrightarrow> n = t) \<and>
      (\<forall>e \<in> set ?edges. target_id e \<noteq> n_id t) \<and> (\<forall>n \<in> set ?nodes. (n_id t, n_id n) \<in> (edge_rel ?edges ?d)\<^sup>*)"
    by (rule bexI [OF _ t(1)]) (intro conjI t no_target reached)
  have co: "\<forall>i p. parent_at ?d i = Some p \<longrightarrow> (\<exists>n. map_of ?d p = Some n \<and> is_container (n_type n) ?T)"
    using cont by blast
  show ?thesis unfolding graph_ok_def Let_def
    by (intro conjI nm conjunct1 [OF rf] conjunct2 [OF rf] types ports one ac parents_acyclic [OF parents] fe co)
qed

section \<open>Validation raises nothing\<close>

text \<open>
  The documented behaviour of the JSON Schema validator the path code relies on: an error of
  the \<open>required\<close> keyword names, at the start of its message, a required property the
  instance lacks.
\<close>

definition required_named :: "iter_errors \<Rightarrow> bool" where
  "required_named iter \<longleftrightarrow> (\<forall>schema config. \<forall>e \<in> set (iter schema config).
     se_validator e = ''required'' \<longrightarrow>
       (\<exists>name rest. name \<in> set (se_validator_value e) \<and> name \<notin> set (se_instance_keys e) \<and>
          se_message e = repr_str name @ rest))"

lemma find_exists: "x \<in> set xs \<Longrightarrow> P x \<Longrightarrow> List.find P xs \<noteq> None"
  by (auto simp: find_None_iff)

lemma config_errors_total:
  assumes "required_named iter"
  shows "\<exists>es. config_errors iter schema config = Some es"
proof -
  have "error_path e \<noteq> None" if e: "e \<in> set (iter schema config)" for e
  proof (cases "se_validator e = ''required''")
    case True
    then obtain name rest where "name \<in> set (se_validator_value e)" "name \<notin> set (se_instance_keys e)"
      "se_message e = repr_str name @ rest"
      using assms e unfolding required_named_def by blast
    then have "missing_required e \<noteq> None" unfolding missing_required_def by (intro find_exists) auto
    then show ?thesis using True by (simp add: error_path_def)
  qed (simp add: error_path_def)
  then have "\<exists>es. those (map (\<lambda>e. map_option (Pair (se_message e)) (error_path e))
      (sort_key se_path (iter schema config))) = Some es"
    by (intro those_map_total) auto
  then show ?thesis by (simp add: config_errors_def)
qed

lemma gather_map_total: "(\<And>x. x \<in> set xs \<Longrightarrow> \<exists>y. f x = Some y) \<Longrightarrow> \<exists>ys. gather (map f xs) = Some ys"
  unfolding gather_def using those_map_total [of xs f] by fastforce

lemma node_passes_total:
  assumes "required_named iter"
  shows "\<exists>ps. type_and_config_node iter by_type n = Some ps"
    and "\<exists>ps. configuration_node iter by_type rs n = Some ps"
    and "\<exists>ps. reference_node iter by_type rs n = Some ps"
proof -
  show "\<exists>ps. type_and_config_node iter by_type n = Some ps"
  proof (cases "map_of by_type (n_type n)")
    case (Some spec)
    obtain es where "config_errors iter (nt_config_schema spec) (n_config n) = Some es"
      using config_errors_total [OF assms] by blast
    then show ?thesis using Some by (cases es) (simp_all add: type_and_config_node_def)
  qed (simp add: type_and_config_node_def)
  show "\<exists>ps. configuration_node iter by_type rs n = Some ps"
  proof (cases "map_of by_type (n_type n)")
    case (Some spec)
    obtain es where "config_errors iter (nt_config_schema spec) (n_config n) = Some es"
      using config_errors_total [OF assms] by blast
    then show ?thesis using Some by (cases "nt_check spec") (simp_all add: configuration_node_def)
  qed (simp add: configuration_node_def)
  show "\<exists>ps. reference_node iter by_type rs n = Some ps"
  proof (cases "map_of by_type (n_type n)")
    case (Some spec)
    obtain es where "config_errors iter (nt_config_schema spec) (n_config n) = Some es"
      using config_errors_total [OF assms] by blast
    then show ?thesis using Some by (simp add: reference_node_def)
  qed (simp add: reference_node_def)
qed

text \<open>With the documented messages of the JSON Schema validator the only exception in the model, the bare \<open>next\<close>
  of \<open>_missing_required\<close>, does not occur.\<close>

lemma validate_total:
  assumes "required_named iter"
  shows "\<exists>ps. validate_graph iter lib g rs catalog = Some ps"
proof -
  obtain a b c where
    "type_and_config_problems iter (g_nodes g) (types_index catalog) = Some a"
    "configuration_problems iter (g_nodes g) (types_index catalog) rs = Some b"
    "reference_problems iter (g_nodes g) (types_index catalog) rs = Some c"
    using gather_map_total node_passes_total [OF assms]
    unfolding type_and_config_problems_def configuration_problems_def reference_problems_def by metis
  then show ?thesis by (simp add: validate_graph_def Let_def gather_def)
qed

section \<open>Refined ports solve the refinement equations\<close>

lemma upstream_of_cong:
  "(\<And>a. a \<in> set found \<Longrightarrow> map_of outs a = map_of outs' a) \<Longrightarrow>
   upstream_of i found by_id by_type outs = upstream_of i found by_id by_type outs'"
proof -
  assume eq: "\<And>a. a \<in> set found \<Longrightarrow> map_of outs a = map_of outs' a"
  have "List.map_filter (\<lambda>anc. case Option.bind (map_of by_id anc) n_ref of None \<Rightarrow> None
         | Some r \<Rightarrow> Some (r, (case map_of outs anc of None \<Rightarrow> [] | Some p \<Rightarrow> p))) found =
      List.map_filter (\<lambda>anc. case Option.bind (map_of by_id anc) n_ref of None \<Rightarrow> None
         | Some r \<Rightarrow> Some (r, (case map_of outs' anc of None \<Rightarrow> [] | Some p \<Rightarrow> p))) found"
    using eq by (induction found) (auto simp: map_filter_simps split: option.splits)
  then show ?thesis by (simp add: upstream_of_def)
qed

lemma node_produced_cong:
  "(\<And>a. a \<in> set (dict_get_list anc (n_id n)) \<Longrightarrow> map_of outs a = map_of outs' a) \<Longrightarrow>
   node_produced by_id by_type anc rs n outs = node_produced by_id by_type anc rs n outs'"
proof -
  assume eq: "\<And>a. a \<in> set (dict_get_list anc (n_id n)) \<Longrightarrow> map_of outs a = map_of outs' a"
  have "upstream_of (n_id n) (dict_get_list anc (n_id n)) by_id by_type outs =
      upstream_of (n_id n) (dict_get_list anc (n_id n)) by_id by_type outs'"
    by (rule upstream_of_cong) (rule eq)
  then show ?thesis by (simp add: node_produced_def split: option.split)
qed

lemma refine_fold_other:
  "i \<notin> n_id ` set ns \<Longrightarrow> map_of (fold (refine_node by_id by_type anc rs) ns outs) i = map_of outs i"
  by (induction ns arbitrary: outs) (auto simp: refine_node_def update_conv')

lemma refine_fold_at:
  assumes "distinct (map n_id (xs @ n # ys))"
    and "set (dict_get_list anc (n_id n)) \<subseteq> n_id ` set xs"
  shows "map_of (fold (refine_node by_id by_type anc rs) (xs @ n # ys) outs) (n_id n) =
     Some (node_produced by_id by_type anc rs n (fold (refine_node by_id by_type anc rs) (xs @ n # ys) outs))"
proof -
  let ?step = "refine_node by_id by_type anc rs"
  let ?mid = "fold ?step xs outs" and ?fin = "fold ?step (xs @ n # ys) outs"
  have "map_of ?fin a = map_of ?mid a" if "a \<in> set (dict_get_list anc (n_id n))" for a
  proof -
    have "a \<in> n_id ` set xs" using that assms(2) by blast
    moreover have "n_id ` set xs \<inter> n_id ` set (n # ys) = {}" using assms(1) by simp
    ultimately have "a \<notin> n_id ` set (n # ys)" by blast
    then show ?thesis using refine_fold_other [of a "n # ys" by_id by_type anc rs ?mid] by simp
  qed
  then have "node_produced by_id by_type anc rs n ?fin = node_produced by_id by_type anc rs n ?mid"
    by (rule node_produced_cong)
  moreover have "n_id n \<notin> n_id ` set ys" using assms(1) by auto
  then have "map_of ?fin (n_id n) = map_of (?step n ?mid) (n_id n)" by (simp add: refine_fold_other)
  ultimately show ?thesis by (simp add: refine_node_def update_conv')
qed

lemma split_distinct_unique:
  "xs @ b # ys = xs' @ b # ys' \<Longrightarrow> distinct (xs @ b # ys) \<Longrightarrow> xs = xs'"
proof -
  assume e: "xs @ b # ys = xs' @ b # ys'" and d: "distinct (xs @ b # ys)"
  have "b \<notin> set xs" and "b \<notin> set ys" using d by auto
  then show ?thesis using append_Cons_eq_iff [of b xs ys xs' ys'] e by blast
qed

lemma precedes_trans:
  assumes d: "distinct xs" and "precedes xs a b" and "precedes xs b c"
  shows "precedes xs a c"
proof -
  obtain p q where pq: "xs = p @ b # q" "a \<in> set p" using assms(2) by (auto simp: precedes_def)
  obtain p' q' where pq': "xs = p' @ c # q'" "b \<in> set p'" using assms(3) by (auto simp: precedes_def)
  obtain p1 p2 where "p' = p1 @ b # p2" using pq'(2) by (auto dest: split_list)
  then have "xs = p1 @ b # (p2 @ c # q')" using pq' by simp
  then have "p = p1" by (metis split_distinct_unique pq(1) d)
  then have "a \<in> set p'" using pq(2) \<open>p' = p1 @ b # p2\<close> by simp
  then show ?thesis unfolding precedes_def using pq'(1) by blast
qed

lemma frame_rel_subset: "frame_rel edges by_id \<subseteq> edge_rel edges by_id"
  by (auto simp: frame_rel_def edge_rel_def)

lemma ancestor_precedes:
  assumes d: "distinct (map fst by_id)" and ac: "acyclic (edge_rel edges by_id)"
    and a: "(a, i) \<in> (frame_rel edges by_id)\<^sup>+"
  shows "precedes (topo_ids edges by_id) a i"
  using a
proof (induction rule: trancl_induct)
  case (base y)
  then show ?case using topo_ids_respects [OF d ac] frame_rel_subset by blast
next
  case (step y z)
  then have "precedes (topo_ids edges by_id) y z" using topo_ids_respects [OF d ac] frame_rel_subset by blast
  then show ?case using step.IH precedes_trans topo_ids_perm [OF d] by blast
qed

lemma topo_nodes_ids:
  assumes "distinct (map n_id nodes)"
  shows "map n_id (topo nodes edges (nodes_index nodes)) = topo_ids edges (nodes_index nodes)"
proof -
  have d: "distinct (map fst (nodes_index nodes))" by (simp add: nodes_index_def)
  have "map n_id (List.map_filter (map_of (nodes_index nodes)) xs) = xs" if "set xs \<subseteq> n_id ` set nodes" for xs
    using that
  proof (induction xs)
    case (Cons x xs)
    then obtain n where "map_of (nodes_index nodes) x = Some n" by (metis list.set_intros(1) map_of_index_None_iff not_None_eq subsetD)
    then show ?case using Cons map_of_indexD by (simp add: map_filter_simps)
  qed (simp add: map_filter_simps)
  then show ?thesis using topo_ids_perm [OF d, of edges] by (simp add: topo_def)
qed

lemma in_map_filter: "y \<in> set (List.map_filter f xs) \<Longrightarrow> \<exists>x. f x = Some y"
  by (auto simp: map_filter_def)

lemma refined_outputs_solve:
  assumes u: "distinct (map n_id (g_nodes g))"
    and ac: "acyclic (edge_rel (g_edges g) (nodes_index (g_nodes g)))" and n: "n \<in> set (g_nodes g)"
  shows "map_of (refined_outputs g rs catalog) (n_id n) =
    Some (node_produced (nodes_index (g_nodes g)) (types_index catalog)
      (ancestors (nodes_index (g_nodes g)) (g_edges g)) rs n (refined_outputs g rs catalog))"
proof -
  let ?d = "nodes_index (g_nodes g)" and ?ts = "topo (g_nodes g) (g_edges g) (nodes_index (g_nodes g))"
  let ?anc = "ancestors ?d (g_edges g)"
  have d: "distinct (map fst ?d)" by (simp add: nodes_index_def)
  have ids: "map n_id ?ts = topo_ids (g_edges g) ?d" using u by (rule topo_nodes_ids)
  have dts: "distinct (map n_id ?ts)" using topo_ids_perm [OF d] by (simp add: ids)
  have "n_id n \<in> set (map n_id ?ts)" using n topo_ids_perm [OF d, of "g_edges g"] by (simp add: ids del: set_map)
  then obtain m where m: "m \<in> set ?ts" "n_id m = n_id n" by auto
  then obtain i where "map_of ?d i = Some m" using in_map_filter by (fastforce simp: topo_def)
  then have "m \<in> set (g_nodes g)" using map_of_indexD by blast
  then have "m = n" using u m(2) n by (meson distinct_map inj_onD)
  then obtain xs ys where split: "?ts = xs @ n # ys" using m(1) by (auto dest: split_list)
  have "set (dict_get_list ?anc (n_id n)) \<subseteq> n_id ` set xs"
  proof
    fix a assume "a \<in> set (dict_get_list ?anc (n_id n))"
    then have "(a, n_id n) \<in> (frame_rel (g_edges g) ?d)\<^sup>+" by (simp add: ancestors_get split: if_splits)
    then have "precedes (topo_ids (g_edges g) ?d) a (n_id n)" using ancestor_precedes [OF d ac] by blast
    then obtain p q where "map n_id xs @ n_id n # map n_id ys = p @ n_id n # q" "a \<in> set p"
      using ids split by (auto simp: precedes_def)
    moreover have "distinct (map n_id xs @ n_id n # map n_id ys)" using dts split by simp
    ultimately have "map n_id xs = p" by (metis split_distinct_unique)
    then show "a \<in> n_id ` set xs" using \<open>a \<in> set p\<close> by auto
  qed
  then show ?thesis using refine_fold_at [of xs n ys ?anc] dts split by (simp add: refined_outputs_def Let_def)
qed

section \<open>Properties of the validation\<close>

text \<open>
  A small channel for the witnesses: a trigger feeds a container whose body is one node, and
  a node after the container.
\<close>

definition demo_type :: "string \<Rightarrow> bool \<Rightarrow> port_spec list \<Rightarrow> port_spec list \<Rightarrow> string list option \<Rightarrow> node_type" where
  "demo_type t trig ins outs cont =
     \<lparr>nt_type_id = t, nt_trigger = trig, nt_inputs = ins, nt_outputs = outs,
      nt_config_schema = JObj [(''type'', JStr ''object'')], nt_container = cont, nt_type_version = 1,
      nt_refine = Some (\<lambda>c up rs. JObj [(''main'', JObj [(''inside'', JArr (map JStr (up_inside up)))])]),
      nt_check = None\<rparr>"

definition demo_port :: "string \<Rightarrow> port_spec" where
  "demo_port p = \<lparr>ps_port = p, ps_coarse = ''object''\<rparr>"

definition demo_catalog :: "node_type list" where
  "demo_catalog =
     [demo_type ''trigger.manual'' True [] [demo_port ''main''] None,
      demo_type ''volume.for'' False [demo_port ''main''] [demo_port ''main'', demo_port ''each''] (Some []),
      demo_type ''transform.set'' False [demo_port ''main''] [demo_port ''main''] None]"

definition demo_node :: "string \<Rightarrow> string \<Rightarrow> string option \<Rightarrow> node" where
  "demo_node i t par =
     \<lparr>n_id = i, n_ref = Some i, n_type = t, n_name = i, n_position = None, n_config = JObj [],
      n_on_error = None, n_retry = None, n_type_version = None, n_parent = par\<rparr>"

definition demo_edge :: "string \<Rightarrow> string \<Rightarrow> string \<Rightarrow> string \<Rightarrow> edge" where
  "demo_edge i s p t = \<lparr>e_id = i, e_source = \<lparr>pr_node = s, pr_port = p\<rparr>,
     e_target = \<lparr>pr_node = t, pr_port = ''main''\<rparr>\<rparr>"

definition demo_graph :: graph where
  "demo_graph =
     \<lparr>g_nodes = [demo_node ''start'' ''trigger.manual'' None, demo_node ''loop'' ''volume.for'' None,
                 demo_node ''body'' ''transform.set'' (Some ''loop''), demo_node ''after'' ''transform.set'' None],
      g_edges = [demo_edge ''e1'' ''start'' ''main'' ''loop'', demo_edge ''e2'' ''loop'' ''each'' ''body'',
                 demo_edge ''e3'' ''loop'' ''main'' ''after''],
      g_settings = \<lparr>st_error_channel_id = None\<rparr>\<rparr>"

definition demo_resolver :: resolver where
  "demo_resolver = \<lparr>rs_entity_head = (\<lambda>_. None), rs_channel_exists = (\<lambda>_. False),
     rs_published_trigger_type = (\<lambda>_. None), rs_source_exists = (\<lambda>_. False)\<rparr>"

definition demo_lib :: template_lib where
  "demo_lib = \<lparr>tl_parse = (\<lambda>_. None), tl_static = (\<lambda>_ _. Static_Ok)\<rparr>"

lemma demo_validates: "validate_graph (\<lambda>_ _. []) demo_lib demo_graph demo_resolver demo_catalog = Some []"
  by code_simp

lemma demo_cycle_free:
  "cycle_problems (g_nodes demo_graph) (g_edges demo_graph) (nodes_index (g_nodes demo_graph)) = []"
  by code_simp

lemma demo_distinct: "distinct (map n_id (g_nodes demo_graph))"
  by code_simp

text \<open>C1: a draft that \<open>publish_channel\<close> accepts (validation reports no problem of
  severity error) is well formed: node names and refs are unique and usable, every type is known,
  every edge joins declared ports, there is exactly one trigger, nothing flows into it and every node
  is reachable from it, the edges and the parent links have no cycle, a parent is a
  container, and its frame is entered only through its own each port.\<close>

theorem publishable_graph_ok:
  assumes "validate_graph iter lib g rs catalog = Some ps" and "blocking ps = []"
    and "distinct (map n_id (g_nodes g))"
  shows "graph_ok g catalog"
  using assms by (rule validate_graph_ok)

theorem publishable_graph_ok_witness: "graph_ok demo_graph demo_catalog"
  by (rule publishable_graph_ok [OF demo_validates _ demo_distinct]) simp

text \<open>C2: the three-colour search reports a cycle exactly when the edges between the
  nodes of the graph have one, and every edge it names lies on a cycle.\<close>

theorem cycle_detection_exact:
  "(cycle_problems nodes edges (nodes_index nodes) = [] \<longleftrightarrow> acyclic (edge_rel edges (nodes_index nodes))) \<and>
   set (cycle_problems nodes edges (nodes_index nodes))
     \<subseteq> cycle_problem ` {e. on_cycle (edge_rel edges (nodes_index nodes)) e}"
  using cycle_problems_exact cycle_problems_sound by blast

text \<open>C5: the ancestors of a node are the nodes a path of edges leads from, where no edge
  of the path crosses a frame; \<open>ancestor_closure\<close> adds the node itself.\<close>

theorem ancestors_exact:
  "set (dict_get_list (ancestors by_id edges) i) =
     (if known by_id i then {a. (a, i) \<in> (frame_rel edges by_id)\<^sup>+} else {}) \<and>
   map_option set (ancestor_closure g j) =
     (if j \<in> n_id ` set (g_nodes g)
      then Some {a. (a, j) \<in> (frame_rel (g_edges g) (nodes_index (g_nodes g)))\<^sup>*} else None)"
  by (auto simp: ancestors_get ancestor_closure_def Let_def rtrancl_eq_or_trancl)

text \<open>A node is reported unreachable exactly when no path of edges leads to it from a
  trigger node.\<close>

theorem reachability_exact:
  "map pb_node (reachability_problems nodes edges by_id by_type) =
     map (\<lambda>n. Some (n_id n)) (filter (\<lambda>n.
       n_id n \<notin> (edge_rel edges by_id)\<^sup>* `` {n_id t | t. t \<in> set nodes \<and> is_trigger t by_type}) nodes)"
  by (simp add: reachability_problems_def Let_def reachable_ids_set mk_problem_def comp_def)

text \<open>C4: \<open>_topo\<close> lists every node of the graph exactly once, cyclic or not, and on an
  acyclic graph the source of every edge comes before its target.\<close>

theorem topo_orders_edges:
  assumes "distinct (map n_id nodes)"
  shows "distinct (map n_id (topo nodes edges (nodes_index nodes))) \<and>
    n_id ` set (topo nodes edges (nodes_index nodes)) = n_id ` set nodes \<and>
    (acyclic (edge_rel edges (nodes_index nodes)) \<longrightarrow>
      (\<forall>(s, t) \<in> edge_rel edges (nodes_index nodes).
         precedes (map n_id (topo nodes edges (nodes_index nodes))) s t))"
proof -
  have d: "distinct (map fst (nodes_index nodes))" by (simp add: nodes_index_def)
  note ids = topo_nodes_ids [OF assms, of edges]
  have "n_id ` set (topo nodes edges (nodes_index nodes)) = set (topo_ids edges (nodes_index nodes))"
    by (metis ids list.set_map)
  then show ?thesis using topo_ids_perm [OF d, of edges] topo_ids_respects [OF d, of edges] by (auto simp: ids)
qed

theorem topo_orders_edges_witness:
  "precedes (map n_id (topo (g_nodes demo_graph) (g_edges demo_graph) (nodes_index (g_nodes demo_graph))))
     ''loop'' ''after''"
proof -
  let ?d = "nodes_index (g_nodes demo_graph)" and ?e = "g_edges demo_graph"
  have "acyclic (edge_rel ?e ?d)"
    using cycle_problems_exact [of "g_nodes demo_graph" ?e] by (metis demo_cycle_free)
  moreover have "(''loop'', ''after'') \<in> edge_rel ?e ?d"
    unfolding edge_rel_def
    by (rule CollectI, rule exI [of _ "demo_edge ''e3'' ''loop'' ''main'' ''after''"])
      (simp add: demo_graph_def demo_edge_def demo_node_def)
  ultimately show ?thesis using topo_orders_edges [OF demo_distinct, of ?e] by blast
qed

text \<open>C3: on an acyclic graph the refined outputs solve the refinement equations: each
  node's output schemas are what its type's \<open>refine\<close> returns for the final outputs of all its
  ancestors, whatever order \<open>_topo\<close> chose, and \<open>refine_ports\<close> reports them port by port.\<close>

theorem refined_ports_solution:
  assumes "distinct (map n_id (g_nodes g))"
    and "acyclic (edge_rel (g_edges g) (nodes_index (g_nodes g)))" and "n \<in> set (g_nodes g)"
  shows "map_of (refined_outputs g rs catalog) (n_id n) =
      Some (node_produced (nodes_index (g_nodes g)) (types_index catalog)
        (ancestors (nodes_index (g_nodes g)) (g_edges g)) rs n (refined_outputs g rs catalog)) \<and>
    (\<forall>spec. map_of (types_index catalog) (n_type n) = Some spec \<longrightarrow>
      (\<forall>p \<in> set (nt_outputs spec).
        \<lparr>rp_node = n_id n, rp_port = ps_port p, rp_direction = ''output'', rp_coarse = ps_coarse p,
         rp_schema = dict_schema (map_of (node_produced (nodes_index (g_nodes g)) (types_index catalog)
            (ancestors (nodes_index (g_nodes g)) (g_edges g)) rs n (refined_outputs g rs catalog)) (ps_port p))\<rparr>
        \<in> set (refine_ports g rs catalog)))"
proof -
  note eq = refined_outputs_solve [OF assms, of rs catalog]
  have "\<lparr>rp_node = n_id n, rp_port = ps_port p, rp_direction = ''output'', rp_coarse = ps_coarse p,
         rp_schema = port_output (refined_outputs g rs catalog) (n_id n) (ps_port p)\<rparr> \<in> set (refine_ports g rs catalog)"
    if "map_of (types_index catalog) (n_type n) = Some spec" "p \<in> set (nt_outputs spec)" for spec p
    using assms(3) that by (force simp: refine_ports_def ports_of_node_def)
  then show ?thesis using eq by (simp add: port_output_def)
qed

theorem refined_ports_solution_witness:
  "\<exists>schema. \<lparr>rp_node = ''body'', rp_port = ''main'', rp_direction = ''output'', rp_coarse = ''object'', rp_schema = schema\<rparr>
     \<in> set (refine_ports demo_graph demo_resolver demo_catalog)"
proof -
  have ac: "acyclic (edge_rel (g_edges demo_graph) (nodes_index (g_nodes demo_graph)))"
    using cycle_problems_exact [of "g_nodes demo_graph" "g_edges demo_graph"] by (metis demo_cycle_free)
  have n: "demo_node ''body'' ''transform.set'' (Some ''loop'') \<in> set (g_nodes demo_graph)"
    by (simp add: demo_graph_def)
  have "map_of (types_index demo_catalog) ''transform.set'' =
      Some (demo_type ''transform.set'' False [demo_port ''main''] [demo_port ''main''] None)"
    by (simp add: types_index_def py_dict_def demo_catalog_def demo_type_def)
  then show ?thesis
    using refined_ports_solution [OF demo_distinct ac n, of demo_resolver demo_catalog]
    by (auto simp: demo_node_def demo_type_def demo_port_def)
qed

end
