(* ===== verification/Channel_Runs.thy ===== *)
theory Channel_Runs
  imports Channel_Engine Channel_Spec
begin

text \<open>
  What the interpreter of \<open>Channel_Engine\<close> guarantees: the protocol of hook calls as a
  grammar of logs, the interface of a body walk and its laws, and the nesting depth that is
  always enough.
\<close>

section \<open>The protocol of the hooks\<close>

text \<open>
  \<open>trace A f es\<close>: the calls of a walk in the frame \<open>f\<close> (the container's seq and the round
  index) that executes nodes of \<open>A\<close> only. An execution opens with its start in that frame,
  holds the rounds of its container and is closed by one finish of the same seq and node.
  \<open>rounds A i q n es\<close>: the first \<open>n\<close> rounds of the container \<open>i\<close> started as \<open>q\<close>.
\<close>

inductive trace :: "string set \<Rightarrow> (int \<times> nat) option \<Rightarrow> event_log \<Rightarrow> bool"
  and rounds :: "string set \<Rightarrow> string \<Rightarrow> int \<Rightarrow> nat \<Rightarrow> event_log \<Rightarrow> bool"
  for A :: "string set" where
  tr_nil: "trace A f []"
| tr_append: "trace A f a \<Longrightarrow> trace A f b \<Longrightarrow> trace A f (a @ b)"
| tr_poll: "trace A f [Ev_Poll]"
| tr_pause: "trace A f [Ev_Pause w]"
| tr_output: "i \<in> A \<Longrightarrow> trace A f [Ev_Output i v]"
| tr_finished: "i \<in> A \<Longrightarrow> rounds A i q n mid \<Longrightarrow>
    trace A f (Ev_Start i f # Ev_Open q # mid @ [Ev_Close, Ev_Finish q i r])"
| tr_aborted: "i \<in> A \<Longrightarrow> rounds A i q n mid \<Longrightarrow>
    trace A f (Ev_Start i f # Ev_Open q # mid @ [Ev_Finish q i r, Ev_Close])"
| rd_nil: "rounds A i q 0 []"
| rd_round: "rounds A i q n es \<Longrightarrow> trace A (Some (q, n)) body \<Longrightarrow> drops = [] \<or> drops = [Ev_Drop refs] \<Longrightarrow>
    rounds A i q (Suc n) (es @ drops @ Ev_Output i step # Ev_Round q n v # body)"

definition cur_frame :: "run_state \<Rightarrow> (int \<times> nat) option" where
  "cur_frame s = (case rn_frames s of [] \<Rightarrow> None | f # _ \<Rightarrow> Some f)"

text \<open>What every operation of the run keeps: the links that leave nodes outside \<open>A\<close>, the
  frames and the outer node sets; the log grows by a trace in the current frame.\<close>

definition keeps :: "run_ctx \<Rightarrow> string set \<Rightarrow> run_state \<Rightarrow> run_state \<Rightarrow> bool" where
  "keeps c A s s' \<longleftrightarrow> length (rn_state s') = length (rn_state s) \<and>
     (\<forall>index. lk_source (link_at c index) \<notin> A \<and> (\<forall>i \<in> A. index \<notin> set (dict_get_list (rc_outgoing c) i)) \<longrightarrow>
        rn_state s' ! index = rn_state s ! index)"

definition extends :: "run_ctx \<Rightarrow> string set \<Rightarrow> run_state \<Rightarrow> run_state \<Rightarrow> bool" where
  "extends c A s s' \<longleftrightarrow> rn_frames s' = rn_frames s \<and> tl (rn_ran_stack s') = tl (rn_ran_stack s) \<and> keeps c A s s' \<and>
     (\<exists>es. rn_log s' = rn_log s @ es \<and> trace (A \<inter> set (rc_reachable c)) (cur_frame s) es)"

named_theorems run_simps

lemma emit_simps [run_simps]:
  "rn_log (emit e s) = rn_log s @ [e]" "rn_frames (emit e s) = rn_frames s"
  "rn_ran_stack (emit e s) = rn_ran_stack s" "rn_state (emit e s) = rn_state s"
  "rn_produced (emit e s) = rn_produced s" "rn_skipped (emit e s) = rn_skipped s"
  by (simp_all add: emit_def)

lemma length_fold_update [simp]: "length (fold (\<lambda>index st. st[index := f index]) is st) = length st"
  by (induction "is" arbitrary: st) auto

lemma nth_fold_update:
  "fold (\<lambda>index st. st[index := f index]) is st ! index =
     (if index \<in> set is \<and> index < length st then f index else st ! index)"
proof (induction "is" arbitrary: st)
  case (Cons a as)
  then show ?case by (cases "index < length st"; cases "a = index") (auto simp: nth_list_update list_update_beyond)
qed simp

lemma set_links_simps [run_simps]:
  "rn_log (set_links f is s) = rn_log s" "rn_frames (set_links f is s) = rn_frames s"
  "rn_ran_stack (set_links f is s) = rn_ran_stack s" "length (rn_state (set_links f is s)) = length (rn_state s)"
  "rn_state (set_links f is s) ! index =
     (if index \<in> set is \<and> index < length (rn_state s) then f index else rn_state s ! index)"
  by (simp_all add: set_links_def nth_fold_update)

lemma kill_simps [run_simps]:
  "rn_log (kill c i s) = rn_log s" "rn_frames (kill c i s) = rn_frames s" "rn_ran_stack (kill c i s) = rn_ran_stack s"
  by (simp_all add: kill_def run_simps)

lemma settle_simps [run_simps]:
  "rn_log (settle c i r k s) = rn_log s" "rn_frames (settle c i r k s) = rn_frames s"
  "rn_ran_stack (settle c i r k s) = rn_ran_stack s"
  by (simp_all add: settle_def run_simps)

lemma cur_frame_emit [run_simps]: "cur_frame (emit e s) = cur_frame s"
  by (simp add: cur_frame_def run_simps)

lemma keeps_refl [intro!]: "keeps c A s s"
  by (simp add: keeps_def)

lemma keeps_trans: "keeps c A s s' \<Longrightarrow> keeps c A s' s'' \<Longrightarrow> keeps c A s s''"
  by (simp add: keeps_def)

lemma keeps_same: "rn_state s' = rn_state s \<Longrightarrow> keeps c A s s'"
  by (simp add: keeps_def)

lemma keeps_emit [run_simps]:
  "keeps c A s (emit e s') = keeps c A s s'" "keeps c A (emit e s) s' = keeps c A s s'"
  by (simp_all add: keeps_def run_simps)

lemma keeps_kill: "i \<in> A \<Longrightarrow> keeps c A s (kill c i s)"
  by (auto simp: keeps_def kill_def run_simps)

lemma keeps_settle: "i \<in> A \<Longrightarrow> keeps c A s (settle c i r k s)"
  by (auto simp: keeps_def settle_def run_simps)

lemma keeps_arm: "i \<in> A \<Longrightarrow> set body \<subseteq> A \<Longrightarrow> keeps c A s (arm c i body s)"
  by (auto simp: keeps_def arm_def Let_def run_simps)

lemma keeps_mono: "keeps c A s s' \<Longrightarrow> A \<subseteq> B \<Longrightarrow> keeps c B s s'"
  unfolding keeps_def by blast

lemma extends_refl [intro!]: "extends c A s s"
  by (auto simp: extends_def tr_nil)

lemma extends_frame: "extends c A s s' \<Longrightarrow> cur_frame s' = cur_frame s"
  by (simp add: extends_def cur_frame_def)

lemma extends_trans [trans]: "extends c A s s' \<Longrightarrow> extends c A s' s'' \<Longrightarrow> extends c A s s''"
proof -
  assume a: "extends c A s s'" "extends c A s' s''"
  then obtain es es' where "rn_log s' = rn_log s @ es" "trace (A \<inter> set (rc_reachable c)) (cur_frame s) es"
    "rn_log s'' = rn_log s' @ es'" "trace (A \<inter> set (rc_reachable c)) (cur_frame s) es'"
    using extends_frame [OF a(1)] by (auto simp: extends_def)
  then have "rn_log s'' = rn_log s @ es @ es' \<and> trace (A \<inter> set (rc_reachable c)) (cur_frame s) (es @ es')"
    by (simp add: tr_append)
  then show ?thesis using a keeps_trans unfolding extends_def by metis
qed

lemma extends_emit:
  "extends c A s s' \<Longrightarrow> trace (A \<inter> set (rc_reachable c)) (cur_frame s) [e] \<Longrightarrow> extends c A s (emit e s')"
  unfolding extends_def keeps_def by (auto simp: run_simps intro: tr_append)

lemma extends_kill: "i \<in> A \<Longrightarrow> extends c A s (kill c i s)"
  by (auto simp: extends_def run_simps keeps_kill intro: tr_nil)

lemma extends_settle: "extends c A s s' \<Longrightarrow> i \<in> A \<Longrightarrow> extends c A s (settle c i r k s')"
  using keeps_trans [OF _ keeps_settle] by (auto simp: extends_def run_simps)

lemma extends_note:
  assumes e: "extends c A s s'" and i: "i \<in> A" "i \<in> set (rc_reachable c)"
  shows "extends c A s (note_result i r s')"
proof -
  have f: "rn_frames (note_result i r s') = rn_frames s'" "tl (rn_ran_stack (note_result i r s')) = tl (rn_ran_stack s')"
    "rn_log (note_result i r s') = rn_log s' @ [Ev_Output i (nr_output r)]" "rn_state (note_result i r s') = rn_state s'"
    by (simp_all add: note_result_def Let_def run_simps split: list.split)
  then show ?thesis using e i unfolding extends_def keeps_def
    by (auto intro!: tr_append tr_output)
qed

lemma stopped_extends: "stopped c i s = (o', s') \<Longrightarrow> extends c A s s'"
  by (auto simp: stopped_def Let_def intro!: extends_emit tr_poll split: if_splits option.splits)

lemma pause_loop_extends: "pause_loop c i n s = (o', s') \<Longrightarrow> extends c A s s'"
proof (induction n arbitrary: s)
  case (Suc n)
  obtain x s1 where x: "stopped c i s = (x, s1)" by fastforce
  note e = stopped_extends [OF x, of A]
  show ?case
  proof (cases x)
    case None
    then have "extends c A s1 s'" using Suc x by simp
    with e show ?thesis by (rule extends_trans)
  next
    case (Some y)
    then show ?thesis using Suc.prems x e by simp
  qed
qed auto

lemma pause_extends: "pause c i w s = (o', s') \<Longrightarrow> extends c A s s'"
proof -
  assume p: "pause c i w s = (o', s')"
  obtain x s1 where x: "stopped c i s = (x, s1)" by fastforce
  note e = stopped_extends [OF x, of A]
  show ?thesis
  proof (cases "x = None \<and> \<not> w \<le> 0")
    case True
    then have "pause_loop c i (en_ticks (rc_env c) (rn_log s1)) (emit (Ev_Pause w) s1) = (o', s')"
      using p x by (simp add: pause_def)
    from pause_loop_extends [OF this] extends_emit [OF e tr_pause] show ?thesis by (rule extends_trans [rotated])
  next
    case False
    then show ?thesis using p x e by (auto simp: pause_def split: option.splits)
  qed
qed

section \<open>The interface of a body walk\<close>

text \<open>
  What the execution of one node relies on: walking a body restores the frames and logs a
  trace. The engine's own walk provides it.
\<close>

locale body_walk =
  fixes sub :: sub_walk and c :: run_ctx and i :: string and A :: "string set"
  assumes sub_extends: "sub (dict_get_list (rc_bodies c) i) s = Some (res, s') \<Longrightarrow> extends c A s s'"
    and self: "i \<in> A" and body: "set (dict_get_list (rc_bodies c) i) \<subseteq> A"
begin

abbreviation R :: "string set" where "R \<equiv> A \<inter> set (rc_reachable c)"

lemma run_round_rounds:
  assumes "run_round sub c i q n step rcd s = Some (res, s')"
    and "rn_log s = L @ es" "rounds R i q n es"
  shows "rn_frames s' = rn_frames s \<and> rn_ran_stack s' = rn_ran_stack s \<and> keeps c A s s' \<and>
    (\<exists>es'. rn_log s' = L @ es' \<and> rounds R i q (Suc n) es')"
proof -
  let ?o = "open_round c i q n step rcd s"
  obtain x s1 where w: "sub (dict_get_list (rc_bodies c) i) ?o = Some (x, s1)"
    using assms(1) by (auto simp: run_round_def bind_eq_Some_conv)
  have s': "s' = s1\<lparr>rn_frames := tl (rn_frames s1), rn_ran_stack := tl (rn_ran_stack s1)\<rparr>"
    using assms(1) w by (auto simp: run_round_def Let_def split: option.splits)
  have o_frames: "rn_frames ?o = (q, n) # rn_frames s" "rn_ran_stack ?o = [] # rn_ran_stack s"
    by (simp_all add: open_round_def Let_def arm_def drop_outputs_def run_simps)
  obtain drops refs v where d: "drops = [] \<or> drops = [Ev_Drop refs]"
    and o_log: "rn_log ?o = rn_log s @ drops @ [Ev_Output i step, Ev_Round q n v]"
  proof -
    show ?thesis
    proof (cases "dict_get_list (rc_bodies c) i = []")
      case True
      then show ?thesis by (intro that [of "[]"]) (simp_all add: open_round_def Let_def arm_def drop_outputs_def run_simps)
    next
      case False
      then show ?thesis
        by (intro that [of "[Ev_Drop (sort (map (ref_or_id c) (dict_get_list (rc_bodies c) i)))]"])
          (simp_all add: open_round_def Let_def arm_def drop_outputs_def run_simps)
    qed
  qed
  have "keeps c A s ?o"
    using self body by (auto simp: keeps_def open_round_def Let_def arm_def drop_outputs_def run_simps)
  moreover have "rn_state s' = rn_state s1" by (simp add: s')
  moreover have e: "extends c A ?o s1" using sub_extends w by blast
  ultimately have kk: "keeps c A s s'" unfolding extends_def keeps_def by simp
  from e obtain body where b: "rn_log s1 = rn_log ?o @ body" "trace R (Some (q, n)) body"
    by (auto simp: extends_def cur_frame_def o_frames)
  have "rounds R i q (Suc n) (es @ drops @ Ev_Output i step # Ev_Round q n v # body)"
    by (rule rd_round [OF assms(3) b(2) d])
  moreover have "rn_log s' = L @ es @ drops @ Ev_Output i step # Ev_Round q n v # body"
    using b(1) o_log assms(2) by (simp add: s')
  ultimately show ?thesis using e kk by (auto simp: s' extends_def o_frames)
qed

lemma run_prog_rounds:
  assumes "run_prog sub c i q p n s = Some (res, s')" and "rn_log s = L @ es" "rounds R i q n es"
  shows "rn_frames s' = rn_frames s \<and> rn_ran_stack s' = rn_ran_stack s \<and> keeps c A s s' \<and>
    (\<exists>es' m. rn_log s' = L @ es' \<and> rounds R i q m es')"
  using assms
proof (induction p arbitrary: n s es)
  case (Finish r)
  then show ?case by auto
next
  case (Round step rcd cont)
  obtain x s1 where r: "run_round sub c i q n step rcd s = Some (x, s1)"
    using Round.prems(1) by (auto simp: bind_eq_Some_conv)
  note k = run_round_rounds [OF r Round.prems(2,3)]
  then obtain es1 where l: "rn_log s1 = L @ es1" "rounds R i q (Suc n) es1" by blast
  show ?case
  proof (cases x)
    case (Inl stop)
    then show ?thesis using Round.prems(1) r k by auto
  next
    case (Inr rd)
    then have "run_prog sub c i q (cont rd (rn_log s1)) (Suc n) s1 = Some (res, s')"
      using Round.prems(1) r by simp
    from Round.IH [OF rangeI [of cont rd] rangeI this l] show ?thesis using k keeps_trans by auto
  qed
qed

lemma invoke_rounds:
  assumes "invoke sub c i q s = Some (res, s')"
  shows "rn_frames s' = rn_frames s \<and> rn_ran_stack s' = rn_ran_stack s \<and> keeps c A s s' \<and>
    (\<exists>mid m. rn_log s' = rn_log s @ mid \<and> rounds R i q m mid)"
proof (cases "s' = s")
  case True
  then show ?thesis by (auto intro: rd_nil)
next
  case False
  have "\<exists>(spec :: exec_type) x. run_prog sub c i q (et_run spec (node_at c i) (rn_log s)) 0 s = Some (x, s')"
    using assms False by (auto simp: invoke_def Let_def bind_eq_Some_conv split: option.splits if_splits)
  then obtain spec :: exec_type and x where "run_prog sub c i q (et_run spec (node_at c i) (rn_log s)) 0 s = Some (x, s')" by blast
  from run_prog_rounds [OF this _ rd_nil, of "rn_log s"] show ?thesis by auto
qed

lemma attempt_trace:
  assumes "attempt sub c i s = Some (res, s')" and i: "i \<in> set (rc_reachable c)"
  shows "rn_frames s' = rn_frames s \<and> rn_ran_stack s' = rn_ran_stack s \<and> keeps c A s s' \<and>
    (\<exists>es. rn_log s' = rn_log s @ es \<and>
      (case res of Inl _ \<Rightarrow> trace R (cur_frame s) es
       | Inr (q, r) \<Rightarrow> (\<exists>f. Ev_Start i f \<in> set es) \<and> (\<forall>r'. trace R (cur_frame s) (es @ [Ev_Finish q i r']))))"
proof -
  let ?s1 = "emit (Ev_Start i (cur_frame s)) s"
  let ?q = "en_seq (rc_env c) (rn_log ?s1)"
  obtain x s3 where inv: "invoke sub c i ?q (emit (Ev_Open ?q) ?s1) = Some (x, s3)"
    and rest: "(res, s') = (case x of
            Inl (outcome, index) \<Rightarrow>
              (Inl (outcome, round_stop_result outcome index),
               emit Ev_Close (emit (Ev_Finish ?q i (round_stop_result outcome index)) s3))
          | Inr r \<Rightarrow> (Inr (?q, skip_output r), emit Ev_Close s3))"
    using assms(1) unfolding attempt_def Let_def cur_frame_def [symmetric] by (auto simp: bind_eq_Some_conv)
  have iR: "i \<in> R" using i self by simp
  from invoke_rounds [OF inv] obtain mid m where
    k: "rn_frames s3 = rn_frames s" "rn_ran_stack s3 = rn_ran_stack s" "keeps c A s s3"
    and l: "rn_log s3 = rn_log s @ Ev_Start i (cur_frame s) # Ev_Open ?q # mid" and r: "rounds R i ?q m mid"
    by (auto simp: run_simps)
  show ?thesis
  proof (cases x)
    case (Inl oi)
    then show ?thesis using rest k l tr_aborted [OF iR r] by (cases oi) (auto simp: run_simps)
  next
    case (Inr r')
    then show ?thesis using rest k l tr_finished [OF iR r] by (auto simp: run_simps)
  qed
qed

text \<open>A node whose last attempt is not finished yet: the log since \<open>s0\<close> becomes a trace
  with the finish of that attempt.\<close>

definition tried_from :: "run_state \<Rightarrow> run_outcome + (int \<times> node_result) \<Rightarrow> run_state \<Rightarrow> bool" where
  "tried_from s0 res s \<longleftrightarrow>
     rn_frames s = rn_frames s0 \<and> tl (rn_ran_stack s) = tl (rn_ran_stack s0) \<and> keeps c A s0 s \<and>
     (\<exists>es. rn_log s = rn_log s0 @ es \<and>
        (case res of Inl _ \<Rightarrow> trace R (cur_frame s0) es
         | Inr (q, r) \<Rightarrow> (\<exists>f. Ev_Start i f \<in> set es) \<and> (\<forall>r'. trace R (cur_frame s0) (es @ [Ev_Finish q i r']))))"

lemma tried_Inl: "tried_from s0 (Inl x) s \<longleftrightarrow> extends c A s0 s"
  by (auto simp: tried_from_def extends_def)

lemma tried_finish: "tried_from s0 (Inr (q, r)) s \<Longrightarrow> extends c A s0 (emit (Ev_Finish q i r') s)"
  by (auto simp: tried_from_def extends_def run_simps)

lemma tried_attempt:
  assumes "extends c A s0 s" and "attempt sub c i s = Some (res, s')" and "i \<in> set (rc_reachable c)"
  shows "tried_from s0 (map_sum fst id res) s'"
proof -
  obtain es0 where e0: "rn_log s = rn_log s0 @ es0" "trace R (cur_frame s0) es0"
    and fr: "rn_frames s = rn_frames s0" "tl (rn_ran_stack s) = tl (rn_ran_stack s0)" "keeps c A s0 s"
    using assms(1) by (auto simp: extends_def)
  note cf = extends_frame [OF assms(1)]
  from attempt_trace [OF assms(2,3), unfolded cf] obtain es where
    k: "rn_frames s' = rn_frames s" "rn_ran_stack s' = rn_ran_stack s" "keeps c A s s'" "rn_log s' = rn_log s @ es"
    and t: "case res of Inl _ \<Rightarrow> trace R (cur_frame s0) es
       | Inr (q, r) \<Rightarrow> (\<exists>f. Ev_Start i f \<in> set es) \<and> (\<forall>r'. trace R (cur_frame s0) (es @ [Ev_Finish q i r']))" by blast
  note kk = keeps_trans [OF fr(3) k(3)]
  show ?thesis
  proof (cases res)
    case (Inl a)
    then show ?thesis using k t e0 fr kk by (auto simp: tried_from_def intro: tr_append)
  next
    case (Inr a)
    obtain q r where a: "a = (q, r)" by fastforce
    have "trace R (cur_frame s0) ((es0 @ es) @ [Ev_Finish q i r'])" for r'
      using t Inr a e0(2) by (simp add: tr_append)
    then show ?thesis using Inr a k e0 fr kk t by (auto simp: tried_from_def)
  qed
qed

lemma retry_loop_tried:
  assumes "tried_from s0 (Inr (q, r)) s" and "retry_loop sub c i w n q r s = Some (res, s')" and "i \<in> set (rc_reachable c)"
  shows "tried_from s0 res s'"
  using assms
proof (induction n arbitrary: q r s)
  case (Suc n)
  show ?case
  proof (cases "nr_status r = ''failed''")
    case False
    then show ?thesis using Suc.prems by simp
  next
    case True
    obtain x s1 where p: "pause c i (retry_pause w (nr_minimum_wait r)) (emit (Ev_Finish q i r) s) = (x, s1)" by fastforce
    obtain y s2 where y: "stopped c i s1 = (y, s2)" by fastforce
    have e1: "extends c A s0 s1" by (rule extends_trans [OF tried_finish [OF Suc.prems(1)] pause_extends [OF p]])
    have e2: "extends c A s0 s2" by (rule extends_trans [OF e1 stopped_extends [OF y]])
    show ?thesis
    proof (cases "x = None \<and> y = None")
      case False
      then show ?thesis using Suc.prems(2) True p y e1 e2 by (auto simp: tried_Inl split: option.splits)
    next
      case no: True
      then obtain z s3 where z: "attempt sub c i s2 = Some (z, s3)"
        using Suc.prems(2) True p y by (auto simp: bind_eq_Some_conv)
      note t = tried_attempt [OF e2 z Suc.prems(3)]
      show ?thesis
      proof (cases z)
        case (Inl a)
        then show ?thesis using Suc.prems(2) True p y no z t by (cases a) auto
      next
        case (Inr a)
        obtain q' r' where a: "a = (q', r')" by fastforce
        then have "retry_loop sub c i w n q' r' s3 = Some (res, s')" using Suc.prems(2) True p y no z Inr by simp
        from Suc.IH [OF _ this Suc.prems(3)] show ?thesis using t Inr a by simp
      qed
    qed
  qed
qed simp

lemma tries_tried:
  assumes "tries sub c i s = Some (res, s')" and "i \<in> set (rc_reachable c)"
  shows "tried_from s res s'"
proof -
  obtain x s1 where x: "stopped c i s = (x, s1)" by fastforce
  note e = stopped_extends [OF x, of A]
  show ?thesis
  proof (cases x)
    case (Some y)
    then show ?thesis using assms(1) x e by (auto simp: tries_def tried_Inl)
  next
    case None
    then obtain z s2 where z: "attempt sub c i s1 = Some (z, s2)"
      using assms(1) x by (auto simp: tries_def bind_eq_Some_conv)
    note t = tried_attempt [OF e z assms(2)]
    show ?thesis
    proof (cases z)
      case (Inl a)
      then show ?thesis using assms(1) x None z t by (cases a) (auto simp: tries_def)
    next
      case (Inr a)
      obtain q r where a: "a = (q, r)" by fastforce
      obtain n w where b: "retry_budget (node_at c i) = (n, w)" by fastforce
      have "retry_loop sub c i w (nat (n - 1)) q r s2 = Some (res, s')"
        using assms(1) x None z Inr a b by (simp add: tries_def)
      from retry_loop_tried [OF _ this assms(2)] show ?thesis using t Inr a by simp
    qed
  qed
qed

lemma run_node_extends:
  assumes "run_node sub c i s = Some (res, s')" and "i \<in> set (rc_reachable c)"
  shows "extends c A s s'"
proof -
  obtain x s1 where x: "tries sub c i s = Some (x, s1)" using assms(1) by (auto simp: run_node_def bind_eq_Some_conv)
  note t = tries_tried [OF x assms(2)]
  show ?thesis
  proof (cases x)
    case (Inl y)
    then show ?thesis using assms(1) x t by (auto simp: run_node_def tried_Inl)
  next
    case (Inr a)
    obtain q r where a: "a = (q, r)" by fastforce
    obtain oc r' where p: "policy c s1 i r = (oc, r')" by fastforce
    have e: "extends c A s (emit (Ev_Finish q i r') s1)" by (rule tried_finish) (use t Inr a in simp)
    then show ?thesis using assms x Inr a p
      by (cases oc) (auto simp: run_node_def Let_def intro!: extends_settle extends_note self)
  qed
qed

end

section \<open>The walk provides the interface\<close>

text \<open>Induction over a finished walk: the six things the head of the loop does.\<close>

lemma walk_loop_induct [consumes 1, case_names empty stop skip kill halt run]:
  assumes "walk_loop exec c direct visited st s = Some (res, s')"
    and empty: "\<And>visited s. P visited [] s None s"
    and stop: "\<And>visited i st s x s1. stopped c i s = (Some x, s1) \<Longrightarrow> P visited (i # st) s (Some x) s1"
    and skip: "\<And>visited i st s s1 res s'. stopped c i s = (None, s1) \<Longrightarrow>
       i \<in> set visited \<or> i \<notin> set direct \<or> \<not> ready c s1 i \<Longrightarrow> P visited st s1 res s' \<Longrightarrow> P visited (i # st) s res s'"
    and kill: "\<And>visited i st s s1 res s'. stopped c i s = (None, s1) \<Longrightarrow> i \<notin> set visited \<Longrightarrow> i \<in> set direct \<Longrightarrow>
       ready c s1 i \<Longrightarrow> \<not> live_incoming c s1 i \<Longrightarrow>
       P (i # visited) (push_ready c (kill c i s1) i direct (i # visited) st) (kill c i s1) res s' \<Longrightarrow>
       P visited (i # st) s res s'"
    and halt: "\<And>visited i st s s1 x s2. stopped c i s = (None, s1) \<Longrightarrow> i \<notin> set visited \<Longrightarrow> i \<in> set direct \<Longrightarrow>
       ready c s1 i \<Longrightarrow> live_incoming c s1 i \<Longrightarrow> exec i s1 = Some (Some x, s2) \<Longrightarrow> P visited (i # st) s (Some x) s2"
    and run: "\<And>visited i st s s1 s2 res s'. stopped c i s = (None, s1) \<Longrightarrow> i \<notin> set visited \<Longrightarrow> i \<in> set direct \<Longrightarrow>
       ready c s1 i \<Longrightarrow> live_incoming c s1 i \<Longrightarrow> exec i s1 = Some (None, s2) \<Longrightarrow>
       P (i # visited) (push_ready c s2 i direct visited st) s2 res s' \<Longrightarrow> P visited (i # st) s res s'"
  shows "P visited st s res s'"
  using assms(1)
proof (induction "(visited, st)" arbitrary: visited st s
    rule: wf_induct_rule [OF wf_measures, of "[\<lambda>(v, st). card (set direct - set v), \<lambda>(v, st). length st]"])
  case 1
  note w = "1.prems" and IH = "1.hyps"
  show ?case
  proof (cases st)
    case Nil
    then show ?thesis using w empty by simp
  next
    case (Cons i stack)
    obtain x s1 where x: "stopped c i s = (x, s1)" by fastforce
    show ?thesis
    proof (cases x)
      case (Some y)
      have "res = Some y" "s' = s1" using w x Some Cons by auto
      then show ?thesis using stop [OF x [unfolded Some]] Cons by simp
    next
      case None
      note nx = x [unfolded None]
      consider "i \<in> set visited \<or> i \<notin> set direct \<or> \<not> ready c s1 i"
        | "i \<notin> set visited" "i \<in> set direct" "ready c s1 i" "\<not> live_incoming c s1 i"
        | "i \<notin> set visited" "i \<in> set direct" "ready c s1 i" "live_incoming c s1 i" by blast
      then show ?thesis
      proof cases
        case 1
        then have "walk_loop exec c direct visited stack s1 = Some (res, s')" using w x None Cons by (auto split: if_splits)
        then have "P visited stack s1 res s'" by (intro IH) (simp_all add: Cons)
        then show ?thesis unfolding Cons by (rule skip [OF nx 1])
      next
        case 2
        have "walk_loop exec c direct (i # visited) (push_ready c (kill c i s1) i direct (i # visited) stack) (kill c i s1) = Some (res, s')"
          using w x None Cons 2 by (simp add: Let_def)
        then have "P (i # visited) (push_ready c (kill c i s1) i direct (i # visited) stack) (kill c i s1) res s'"
          by (intro IH) (simp add: direct_minus_visited 2 del: card_Diff_insert)
        then show ?thesis unfolding Cons by (rule kill [OF nx 2])
      next
        case 3
        obtain y s2 where y: "exec i s1 = Some (y, s2)" using w x None Cons 3 by (auto simp: bind_eq_Some_conv)
        show ?thesis
        proof (cases y)
          case (Some z)
          then have "res = Some z" "s' = s2" using w x None Cons 3 y by auto
          then show ?thesis using halt [OF nx 3 y [unfolded Some]] Cons by simp
        next
          case n: None
          have "walk_loop exec c direct (i # visited) (push_ready c s2 i direct visited stack) s2 = Some (res, s')"
            using w x None Cons 3 y n by simp
          then have "P (i # visited) (push_ready c s2 i direct visited stack) s2 res s'"
            by (intro IH) (simp add: direct_minus_visited 3 del: card_Diff_insert)
          then show ?thesis unfolding Cons by (rule run [OF nx 3 y [unfolded n]])
        qed
      qed
    qed
  qed
qed

lemma walk_loop_extends:
  assumes "walk_loop exec c direct visited st s = Some (res, s')" and "set direct \<subseteq> A"
    and ex: "\<And>i s x s'. i \<in> set direct \<Longrightarrow> exec i s = Some (x, s') \<Longrightarrow> extends c A s s'"
  shows "extends c A s s'"
  using assms(1)
proof (induction rule: walk_loop_induct)
  case (stop visited i st s x s1)
  then show ?case by (rule stopped_extends)
next
  case (skip visited i st s s1 res s')
  show ?case by (rule extends_trans [OF stopped_extends [OF skip(1)] skip(3)])
next
  case (kill visited i st s s1 res s')
  have "i \<in> A" using kill assms(2) by blast
  show ?case by (rule extends_trans [OF stopped_extends [OF kill(1)] extends_trans [OF extends_kill [OF \<open>i \<in> A\<close>] kill(6)]])
next
  case (halt visited i st s s1 x s2)
  show ?case by (rule extends_trans [OF stopped_extends [OF halt(1)] ex [OF halt(3,6)]])
next
  case (run visited i st s s1 s2 res s')
  show ?case by (rule extends_trans [OF stopped_extends [OF run(1)] extends_trans [OF ex [OF run(3,6)] run(7)]])
qed auto

text \<open>A scope and everything inside its containers.\<close>

definition body_rel :: "run_ctx \<Rightarrow> (string \<times> string) set" where
  "body_rel c = {(j, i). j \<in> set (dict_get_list (rc_bodies c) i)}"

definition nested :: "run_ctx \<Rightarrow> string set \<Rightarrow> string set" where
  "nested c X = {j. \<exists>i \<in> X. (j, i) \<in> (body_rel c)\<^sup>*}"

lemma nested_self: "X \<subseteq> nested c X"
  by (auto simp: nested_def)

lemma nested_body: "i \<in> X \<Longrightarrow> nested c (set (dict_get_list (rc_bodies c) i)) \<subseteq> nested c X"
  by (auto simp: nested_def body_rel_def intro: rtrancl_into_rtrancl)

lemma nested_one: "i \<in> X \<Longrightarrow> nested c {i} \<subseteq> nested c X"
  by (auto simp: nested_def)

lemma trace_mono: "trace A f es \<Longrightarrow> A \<subseteq> B \<Longrightarrow> trace B f es"
  and rounds_mono: "rounds A i q n es \<Longrightarrow> A \<subseteq> B \<Longrightarrow> rounds B i q n es"
proof (induction rule: trace_rounds.inducts)
  case (rd_round i q n es body drops refs step v)
  then show ?case by (intro trace_rounds.rd_round)
qed (auto intro: trace_rounds.intros)

lemma trace_starts: "trace A f es \<Longrightarrow> Ev_Start j f' \<in> set es \<Longrightarrow> j \<in> A"
  and rounds_starts: "rounds A i q n es \<Longrightarrow> Ev_Start j f' \<in> set es \<Longrightarrow> j \<in> A"
  by (induction rule: trace_rounds.inducts) auto

lemma extends_mono: "extends c A s s' \<Longrightarrow> A \<subseteq> B \<Longrightarrow> extends c B s s'"
  unfolding extends_def using keeps_mono trace_mono by (metis Int_mono subset_refl)

lemma direct_of_subset: "set (direct_of c scope) \<subseteq> set (rc_reachable c) \<inter> set scope"
  by (auto simp: direct_of_def)

lemma walk_at_extends:
  "walk_at d c scope s = Some (res, s') \<Longrightarrow> extends c (nested c (set scope)) s s'"
proof (induction d arbitrary: scope s res s')
  case (Suc d)
  have node: "body_walk (walk_at d c) c i (nested c {i})" for i
  proof
    show "extends c (nested c {i}) s s'" if "walk_at d c (dict_get_list (rc_bodies c) i) s = Some (res, s')" for s s' res
      by (rule extends_mono [OF Suc.IH [OF that] nested_body]) simp
    show "i \<in> nested c {i}" using nested_self by blast
    show "set (dict_get_list (rc_bodies c) i) \<subseteq> nested c {i}"
      using nested_self nested_body [of i "{i}"] by blast
  qed
  show ?case
  proof (rule walk_loop_extends [OF Suc.prems [unfolded walk_at.simps]])
    show "set (direct_of c scope) \<subseteq> nested c (set scope)"
      using direct_of_subset nested_self by blast
    show "extends c (nested c (set scope)) s s'"
      if "i \<in> set (direct_of c scope)" "run_node (walk_at d c) c i s = Some (x, s')" for i s x s'
    proof -
      have "i \<in> set (rc_reachable c)" "i \<in> set scope" using that(1) direct_of_subset by blast+
      then show ?thesis
        by (intro extends_mono [OF body_walk.run_node_extends [OF node that(2)] nested_one])
    qed
  qed
qed simp

interpretation engine: body_walk "walk_at d c" c i "nested c {i}" for d c i
proof
  show "extends c (nested c {i}) s s'" if "walk_at d c (dict_get_list (rc_bodies c) i) s = Some (res, s')" for s s' res
    by (rule extends_mono [OF walk_at_extends [OF that] nested_body]) simp
  show "i \<in> nested c {i}" using nested_self by blast
  show "set (dict_get_list (rc_bodies c) i) \<subseteq> nested c {i}"
    using nested_self nested_body [of i "{i}"] by blast
qed

lemma walk_from_extends:
  assumes "walk_from d c scope start s = Some (res, s')"
  shows "extends c (nested c (set scope)) s s'"
proof (rule walk_loop_extends [OF assms [unfolded walk_from_def Let_def]])
  show "set (direct_of c scope) \<subseteq> nested c (set scope)"
    using direct_of_subset nested_self by blast
  show "extends c (nested c (set scope)) s s'"
    if "i \<in> set (direct_of c scope)" "run_node (walk_at d c) c i s = Some (x, s')" for i s x s'
  proof -
    have "i \<in> set (rc_reachable c)" "i \<in> set scope" using that(1) direct_of_subset by blast+
    then show ?thesis by (intro extends_mono [OF engine.run_node_extends [OF that(2)] nested_one])
  qed
qed

section \<open>Enough nesting\<close>

text \<open>The nodes strictly inside a container, at any depth.\<close>

definition inside :: "(string \<times> string) set \<Rightarrow> string \<Rightarrow> string set" where
  "inside par i = {j. (j, i) \<in> par\<^sup>+}"

definition child_rel :: "nodes_by_id \<Rightarrow> (string \<times> string) set" where
  "child_rel nodes = {(j, p). j \<in> set (children_of nodes p)}"

definition body_total :: "sub_walk \<Rightarrow> run_ctx \<Rightarrow> string \<Rightarrow> bool" where
  "body_total sub c i \<longleftrightarrow> (\<forall>s. sub (dict_get_list (rc_bodies c) i) s \<noteq> None)"

lemma run_round_total: "body_total sub c i \<Longrightarrow> \<exists>res s'. run_round sub c i q n step rcd s = Some (res, s')"
proof -
  assume "body_total sub c i"
  then obtain x s1 where "sub (dict_get_list (rc_bodies c) i) (open_round c i q n step rcd s) = Some (x, s1)"
    unfolding body_total_def by fastforce
  then show ?thesis by (simp add: run_round_def Let_def split: option.split)
qed

lemma run_prog_total: "body_total sub c i \<Longrightarrow> \<exists>res s'. run_prog sub c i q p n s = Some (res, s')"
proof (induction p arbitrary: n s)
  case (Round step rcd cont)
  obtain y s2 where r: "run_round sub c i q n step rcd s = Some (y, s2)"
    using run_round_total [OF Round.prems] by blast
  show ?case
  proof (cases y)
    case (Inr rd)
    show ?thesis using Round.IH [OF rangeI [of cont rd] rangeI Round.prems] by (simp add: r Inr)
  qed (simp add: r)
qed simp

lemma invoke_total: "body_total sub c i \<Longrightarrow> \<exists>res s'. invoke sub c i q s = Some (res, s')"
proof (cases "map_of (rc_by_type c) (n_type (node_at c i))")
  case (Some spec)
  assume "body_total sub c i"
  then obtain res s' where "run_prog sub c i q (et_run spec (node_at c i) (rn_log s)) 0 s = Some (res, s')"
    using run_prog_total by blast
  then show ?thesis by (simp add: invoke_def Let_def Some)
qed (simp add: invoke_def)

lemma attempt_total: "body_total sub c i \<Longrightarrow> \<exists>res s'. attempt sub c i s = Some (res, s')"
proof -
  assume t: "body_total sub c i"
  let ?s1 = "emit (Ev_Start i (cur_frame s)) s"
  let ?q = "en_seq (rc_env c) (rn_log ?s1)"
  obtain res s' where "invoke sub c i ?q (emit (Ev_Open ?q) ?s1) = Some (res, s')"
    using invoke_total [OF t] by blast
  then show ?thesis
    by (simp add: attempt_def cur_frame_def [symmetric] Let_def split: sum.split prod.split)
qed

lemma retry_loop_total: "body_total sub c i \<Longrightarrow> \<exists>res s'. retry_loop sub c i w n q r s = Some (res, s')"
proof (induction n arbitrary: q r s)
  case (Suc n)
  obtain x s1 where p: "pause c i (retry_pause w (nr_minimum_wait r)) (emit (Ev_Finish q i r) s) = (x, s1)" by fastforce
  obtain y s2 where y: "stopped c i s1 = (y, s2)" by fastforce
  obtain z s3 where z: "attempt sub c i s2 = Some (z, s3)" using attempt_total [OF Suc.prems] by blast
  show ?case
    using Suc.IH [OF Suc.prems] by (simp add: p y z split: option.split sum.split prod.split)
qed simp

lemma tries_total: "body_total sub c i \<Longrightarrow> \<exists>res s'. tries sub c i s = Some (res, s')"
proof -
  assume t: "body_total sub c i"
  obtain x s1 where x: "stopped c i s = (x, s1)" by fastforce
  obtain z s2 where z: "attempt sub c i s1 = Some (z, s2)" using attempt_total [OF t] by blast
  show ?thesis
    using retry_loop_total [OF t] by (simp add: tries_def x z split: option.split sum.split prod.split)
qed

lemma run_node_total: "body_total sub c i \<Longrightarrow> \<exists>res s'. run_node sub c i s = Some (res, s')"
proof -
  assume t: "body_total sub c i"
  obtain x s1 where x: "tries sub c i s = Some (x, s1)" using tries_total [OF t] by blast
  show ?thesis by (simp add: run_node_def x Let_def split: option.split sum.split prod.split)
qed

lemma walk_loop_total:
  assumes "\<And>i s. i \<in> set direct \<Longrightarrow> exec i s \<noteq> None"
  shows "walk_loop exec c direct visited st s \<noteq> None"
  using assms
proof (induction exec c direct visited st s rule: walk_loop.induct)
  case (2 exec c direct visited i stack s)
  obtain x s1 where x: "stopped c i s = (x, s1)" by fastforce
  show ?case
  proof (cases x)
    case None
    note pair = x [unfolded None, symmetric]
    show ?thesis
    proof (cases "i \<in> set visited \<or> i \<notin> set direct")
      case True
      then show ?thesis using "2.IH"(1) [OF pair refl True] "2.prems" x None by simp
    next
      case d: False
      then obtain y s2 where y: "exec i s1 = Some (y, s2)" using "2.prems" [of i s1] by fastforce
      show ?thesis
        using "2.IH"(2) [OF pair refl d] "2.IH"(3) [OF pair refl d _ _ refl] "2.IH"(4) [OF pair refl d _ _ y refl]
          "2.prems" x None d y
        by (cases y) (auto simp: Let_def)
    qed
  qed (simp add: x)
qed simp

lemma body_index_get:
  "dict_get_list (body_index nodes by_type) i = (if i \<in> set (loop_ids nodes by_type) then children_of nodes i else [])"
proof -
  have "map_of (map (\<lambda>i. (i, f i)) xs) i = (if i \<in> set xs then Some (f i) else None)" for f :: "string \<Rightarrow> string list" and xs
    by (induction xs) auto
  then show ?thesis by (simp add: dict_get_list_def body_index_def)
qed

text \<open>A scope whose nodes have fewer than \<open>d\<close> nodes inside can be walked with \<open>d + 1\<close> levels.\<close>

lemma walk_at_total:
  assumes "rc_bodies c = body_index nodes by_type" and ac: "acyclic (child_rel nodes)"
    and fin: "finite (child_rel nodes)"
    and "\<And>j. j \<in> set scope \<Longrightarrow> card (inside (child_rel nodes) j) < d"
  shows "walk_at (Suc d) c scope s \<noteq> None"
  using assms(4)
proof (induction d arbitrary: scope s)
  case 0
  then have "scope = []" by (cases scope) auto
  then show ?case by (simp add: direct_of_def seeds_def onto_stack_def)
next
  case (Suc d)
  have "body_total (walk_at (Suc d) c) c j" if j: "j \<in> set (direct_of c scope)" for j
    unfolding body_total_def
  proof
    fix s
    have "card (inside (child_rel nodes) k) < d" if k: "k \<in> set (dict_get_list (rc_bodies c) j)" for k
    proof -
      have kj: "(k, j) \<in> child_rel nodes" using k by (auto simp: assms(1) body_index_get child_rel_def split: if_splits)
      have "inside (child_rel nodes) j \<subseteq> Domain (child_rel nodes)"
        by (auto simp: inside_def dest: tranclD)
      then have "finite (inside (child_rel nodes) j)"
        by (rule finite_subset) (rule finite_Domain [OF fin])
      moreover have "inside (child_rel nodes) k \<subset> inside (child_rel nodes) j"
        using kj ac unfolding inside_def acyclic_def by (auto intro: trancl.intros)
      ultimately have "card (inside (child_rel nodes) k) < card (inside (child_rel nodes) j)"
        by (rule psubset_card_mono)
      then show ?thesis using Suc.prems [of j] j direct_of_subset by fastforce
    qed
    then show "walk_at (Suc d) c (dict_get_list (rc_bodies c) j) s \<noteq> None" by (rule Suc.IH)
  qed
  then have "run_node (walk_at (Suc d) c) c j s \<noteq> None" if "j \<in> set (direct_of c scope)" for j s
    using run_node_total that by fastforce
  then show ?case unfolding walk_at.simps(2) [of "Suc d"] by (rule walk_loop_total)
qed

section \<open>Runs of a graph\<close>

lemma child_index_rel: "adj_rel (child_index g by_id) = edge_rel (g_edges g) by_id"
proof -
  have "set (dict_get_list (child_index g by_id) x) =
      {target_id e | e. e \<in> set (g_edges g) \<and> known by_id (source_id e) \<and> known by_id (target_id e) \<and> source_id e = x}" for x
  proof -
    let ?d = "dict_group (map (\<lambda>e. (source_id e, target_id e))
       (filter (\<lambda>e. known by_id (source_id e) \<and> known by_id (target_id e)) (g_edges g))) (map (\<lambda>(i, n). (i, [])) by_id)"
    have "set (dict_get_list (child_index g by_id) x) = set (dict_get_list ?d x)"
      unfolding child_index_def dict_get_list_def map_of_map_snd by (simp split: option.split)
    also have "dict_get_list (map (\<lambda>(i, n). (i, [])) by_id) x = []" for x :: string
      by (induction by_id) (auto simp: dict_get_list_def)
    then have "set (dict_get_list ?d x) = {target_id e | e. e \<in> set (g_edges g) \<and> known by_id (source_id e) \<and>
        known by_id (target_id e) \<and> source_id e = x}"
      by (auto simp: dict_simps filter_map comp_def)
    finally show ?thesis .
  qed
  then show ?thesis by (auto simp: adj_rel_def edge_rel_def)
qed

lemma frame_edge_rel: "(frame_rel edges by_id)\<^sup>* \<subseteq> (edge_rel edges by_id)\<^sup>*"
  by (rule rtrancl_mono) (rule frame_rel_subset)

text \<open>The nodes a run from \<open>trigger\<close> may execute; with a stop node, only its ancestors and itself.\<close>

definition run_scope :: "graph \<Rightarrow> string \<Rightarrow> string option \<Rightarrow> string set" where
  "run_scope g trigger stop_at =
     {i. (trigger, i) \<in> (edge_rel (g_edges g) (nodes_index (g_nodes g)))\<^sup>* \<and>
         (\<forall>t. stop_at = Some t \<longrightarrow> t \<in> n_id ` set (g_nodes g) \<and>
            (i, t) \<in> (frame_rel (g_edges g) (nodes_index (g_nodes g)))\<^sup>*)}"

lemma closure_set:
  "ancestor_closure g t = (if t \<in> n_id ` set (g_nodes g) then ancestor_closure g t else None)"
  "ancestor_closure g t = Some cl \<Longrightarrow>
     t \<in> n_id ` set (g_nodes g) \<and> set cl = {a. (a, t) \<in> (frame_rel (g_edges g) (nodes_index (g_nodes g)))\<^sup>*}"
  by (auto simp: ancestors_get ancestor_closure_def Let_def rtrancl_eq_or_trancl split: if_splits)

lemma reachable_of_set: "set (reachable_of g trigger stop_at) = run_scope g trigger stop_at"
proof -
  have r: "set (push_search (child_index g (nodes_index (g_nodes g))) [trigger]) =
      {i. (trigger, i) \<in> (edge_rel (g_edges g) (nodes_index (g_nodes g)))\<^sup>*}"
    by (auto simp: push.search_set child_index_rel)
  show ?thesis
  proof (cases stop_at)
    case None
    then show ?thesis by (simp add: reachable_of_def run_scope_def r)
  next
    case (Some t)
    show ?thesis
    proof (cases "ancestor_closure g t")
      case None
      then have "t \<notin> n_id ` set (g_nodes g)" by (auto simp: ancestor_closure_def Let_def split: if_splits)
      then show ?thesis using Some None by (simp add: reachable_of_def run_scope_def)
    next
      case c: (Some cl)
      show ?thesis using Some c closure_set(2) [OF c] r by (auto simp: reachable_of_def run_scope_def)
    qed
  qed
qed

lemma make_ctx_simps [run_simps]:
  "rc_reachable (make_ctx g types schemas env reach timeout) = reach"
  "rc_bodies (make_ctx g types schemas env reach timeout) = body_index (nodes_index (g_nodes g)) types"
  "rc_nodes (make_ctx g types schemas env reach timeout) = nodes_index (g_nodes g)"
  by (simp_all add: make_ctx_def Let_def)

lemma execute_trace:
  assumes "execute d g trigger types rs env timeout stop_at = Some (out, evs)"
  shows "trace (run_scope g trigger stop_at) None evs"
proof (cases "known (nodes_index (g_nodes g)) trigger")
  case False
  then show ?thesis using assms by (simp add: execute_def tr_nil)
next
  case True
  let ?c = "make_ctx g (types_index types) (output_schemas (refine_ports g rs types)) env (reachable_of g trigger stop_at) timeout"
  obtain x s where w: "walk_from d ?c (reachable_of g trigger stop_at) trigger (init_state ?c) = Some (x, s)"
    and l: "evs = rn_log s"
    using assms True by (auto simp: execute_def Let_def bind_eq_Some_conv split: option.splits)
  from walk_from_extends [OF w] show ?thesis
    by (auto simp: extends_def run_simps reachable_of_set l init_state_def cur_frame_def intro: trace_mono)
qed

lemma child_rel_parents:
  assumes "[] \<notin> n_id ` set nodes"
  shows "child_rel (nodes_index nodes) \<subseteq> parent_rel (nodes_index nodes)"
proof
  fix x assume "x \<in> child_rel (nodes_index nodes)"
  then obtain j p where x: "x = (j, p)" "j \<in> set (children_of (nodes_index nodes) p)" by (auto simp: child_rel_def)
  then obtain n where n: "(j, n) \<in> set (nodes_index nodes)" "n_parent n = Some p" and p: "p \<in> n_id ` set nodes"
    by (auto simp: children_of_def)
  have "map_of (nodes_index nodes) j = Some n"
    using n(1) by (intro map_of_is_SomeI) (simp_all add: nodes_index_def)
  moreover have "p \<noteq> []" using p assms by metis
  ultimately show "x \<in> parent_rel (nodes_index nodes)"
    using n(2) by (simp add: x parent_rel_def parent_at_def parent_ref_def)
qed

lemma child_rel_ids: "Domain (child_rel (nodes_index nodes)) \<subseteq> n_id ` set nodes"
  by (auto simp: child_rel_def children_of_def simp flip: keys_nodes_index intro: rev_image_eqI)

lemma inside_few:
  "card (inside (child_rel (nodes_index nodes)) j) \<le> length nodes"
proof -
  have "inside (child_rel (nodes_index nodes)) j \<subseteq> Domain (child_rel (nodes_index nodes))"
    by (auto simp: inside_def dest: tranclD)
  then have "inside (child_rel (nodes_index nodes)) j \<subseteq> n_id ` set nodes" using child_rel_ids by blast
  then have "card (inside (child_rel (nodes_index nodes)) j) \<le> card (n_id ` set nodes)" by (intro card_mono) simp_all
  also have "\<dots> \<le> length nodes" using card_image_le [of "set nodes" n_id] card_length [of nodes] by simp
  finally show ?thesis .
qed

lemma execute_total:
  assumes "graph_ok g types" and "[] \<notin> n_id ` set (g_nodes g)" and "length (g_nodes g) + 1 < d"
  shows "\<exists>out evs. execute d g trigger types rs env timeout stop_at = Some (out, evs)"
proof -
  let ?r = "reachable_of g trigger stop_at" and ?n = "nodes_index (g_nodes g)"
  let ?c = "make_ctx g (types_index types) (output_schemas (refine_ports g rs types)) env ?r timeout"
  obtain e where e: "d = Suc e" "length (g_nodes g) < e" using assms(3) by (cases d) auto
  have ac: "acyclic (child_rel ?n)"
    using assms(1) child_rel_parents [OF assms(2)] by (auto simp: graph_ok_def Let_def intro: acyclic_subset)
  have "child_rel ?n \<subseteq> (n_id ` set (g_nodes g)) \<times> (n_id ` set (g_nodes g))"
  proof
    fix x assume "x \<in> child_rel ?n"
    then obtain j p where x: "x = (j, p)" "(j, p) \<in> child_rel ?n" by (cases x) auto
    then have "p \<in> n_id ` set (g_nodes g)" by (auto simp: child_rel_def children_of_def)
    moreover have "j \<in> n_id ` set (g_nodes g)" using child_rel_ids x by blast
    ultimately show "x \<in> (n_id ` set (g_nodes g)) \<times> (n_id ` set (g_nodes g))" using x by simp
  qed
  then have fin: "finite (child_rel ?n)" by (rule finite_subset) simp
  have "walk_at d ?c scope s \<noteq> None" for scope s
    unfolding e(1)
    by (rule walk_at_total [OF _ ac fin]) (use inside_few [of "g_nodes g"] e(2) in \<open>auto simp: run_simps intro: le_less_trans\<close>)
  then have "body_total (walk_at d ?c) ?c j" for j by (simp add: body_total_def)
  then have "run_node (walk_at d ?c) ?c j s \<noteq> None" for j s using run_node_total by fastforce
  then have "walk_from d ?c ?r trigger (init_state ?c) \<noteq> None"
    unfolding walk_from_def Let_def by (rule walk_loop_total)
  then obtain x s where "walk_from d ?c ?r trigger (init_state ?c) = Some (x, s)" by fastforce
  then show ?thesis by (simp add: execute_def Let_def split: option.split)
qed

end
