(* ===== verification/Channel_Schedule.thy ===== *)
theory Channel_Schedule
  imports Channel_Runs
begin

text \<open>
  Which nodes a walk executes. One frame of a graph is a set of nodes whose incoming links
  all come from the frame; the invariant of the stack loop says that no ready node is
  forgotten, and the walk that ends without an outcome has decided every node.
\<close>

section \<open>What one execution does to its frame\<close>

abbreviation n_links :: "run_ctx \<Rightarrow> nat" where "n_links c \<equiv> length (rc_links c)"

definition was_started :: "run_state \<Rightarrow> string \<Rightarrow> bool" where
  "was_started s i \<longleftrightarrow> (\<exists>f. Ev_Start i f \<in> set (rn_log s))"

text \<open>A node that ran: it was started and it decided its links, except that a container
  leaves the links of its \<open>each\<close> port to its rounds.\<close>

definition node_done :: "run_ctx \<Rightarrow> string \<Rightarrow> run_state \<Rightarrow> bool" where
  "node_done c i s \<longleftrightarrow> was_started s i \<and>
     (\<forall>index \<in> set (dict_get_list (rc_outgoing c) i). index < length (rn_state s) \<longrightarrow>
        \<not> (i \<in> set (rc_loops c) \<and> lk_source_port (link_at c index) = ''each'') \<longrightarrow> rn_state s ! index \<noteq> Pending)"

lemma settle_nth:
  "rn_state (settle c i r skip s) ! index =
     (if index \<in> set (dict_get_list (rc_outgoing c) i) \<and> lk_source_port (link_at c index) \<notin> set skip \<and> index < length (rn_state s)
      then if lk_source_port (link_at c index) \<in> set (live_ports c i r) then Live else Dead
      else rn_state s ! index)"
  by (auto simp: settle_def run_simps)

lemma run_node_done:
  assumes "run_node (walk_at d c) c i s = Some (None, s')" and "i \<in> set (rc_reachable c)"
  shows "node_done c i s'"
proof -
  obtain a s1 where a: "tries (walk_at d c) c i s = Some (a, s1)"
    using assms(1) by (auto simp: run_node_def bind_eq_Some_conv)
  then obtain q r where qr: "a = Inr (q, r)" using assms(1) by (cases a) (auto simp: run_node_def)
  note t = a [unfolded qr]
  obtain oc r' where p: "policy c s1 i r = (oc, r')" by fastforce
  have s': "s' = settle c i r' (if i \<in> set (rc_loops c) then [''each''] else []) (note_result i r' (emit (Ev_Finish q i r') s1))"
    using assms(1) t p by (auto simp: run_node_def Let_def split: option.splits)
  have "was_started s1 i" using engine.tries_tried [OF t assms(2)]
    by (auto simp: was_started_def engine.tried_from_def)
  then have "was_started s' i" by (simp add: s' was_started_def run_simps note_result_def Let_def split: list.split)
  moreover have "length (rn_state s') = length (rn_state (note_result i r' (emit (Ev_Finish q i r') s1)))"
    by (simp add: s' settle_def run_simps)
  ultimately show ?thesis by (auto simp: node_done_def s' settle_nth)
qed

text \<open>The engine executes the nodes of a frame under this contract.\<close>

locale frame_exec =
  fixes c :: run_ctx and direct :: "string list"
    and exec :: "string \<Rightarrow> run_state \<Rightarrow> (run_outcome option \<times> run_state) option"
  assumes exec_extends: "i \<in> set direct \<Longrightarrow> exec i s = Some (None, s') \<Longrightarrow> extends c (nested c {i}) s s'"
    and exec_done: "i \<in> set direct \<Longrightarrow> exec i s = Some (None, s') \<Longrightarrow> node_done c i s'"

text \<open>A frame: the link indexes are right, no link enters from outside, bodies lie outside,
  no link is a back link or comes from an \<open>each\<close> port, and the links have no cycle.\<close>

definition index_ok :: "run_ctx \<Rightarrow> bool" where
  "index_ok c \<longleftrightarrow>
     (\<forall>i index. index \<in> set (dict_get_list (rc_outgoing c) i) \<longleftrightarrow> index < n_links c \<and> lk_source (link_at c index) = i) \<and>
     (\<forall>i index. index \<in> set (dict_get_list (rc_incoming c) i) \<longleftrightarrow> index < n_links c \<and> lk_target (link_at c index) = i)"

definition link_rel :: "run_ctx \<Rightarrow> (string \<times> string) set" where
  "link_rel c = {(lk_source l, lk_target l) | l. l \<in> set (rc_links c)}"

definition frame_ok :: "run_ctx \<Rightarrow> string list \<Rightarrow> bool" where
  "frame_ok c direct \<longleftrightarrow> index_ok c \<and> acyclic (link_rel c) \<and>
     (\<forall>i \<in> set direct. nested c {i} \<inter> set direct = {i}) \<and>
     (\<forall>index < n_links c. lk_target (link_at c index) \<in> set direct \<longrightarrow>
        lk_source (link_at c index) \<in> set direct \<and> \<not> back_link c index \<and>
        \<not> (lk_source (link_at c index) \<in> set (rc_loops c) \<and> lk_source_port (link_at c index) = ''each''))"

definition into :: "run_ctx \<Rightarrow> string list \<Rightarrow> nat set" where
  "into c direct = {index. index < n_links c \<and> lk_target (link_at c index) \<in> set direct}"

text \<open>The invariant of the loop: \<open>visited\<close> nodes have decided their links, the others have
  not, and every ready one of the others is on the stack.\<close>

definition walk_inv :: "run_ctx \<Rightarrow> string list \<Rightarrow> string list \<Rightarrow> string list \<Rightarrow> run_state \<Rightarrow> bool" where
  "walk_inv c direct visited st s \<longleftrightarrow>
     length (rn_state s) = n_links c \<and> set visited \<subseteq> set direct \<and>
     (\<forall>i \<in> set direct - set visited. ready c s i \<longrightarrow> i \<in> set st) \<and>
     (\<forall>index \<in> into c direct. lk_source (link_at c index) \<in> set visited \<longleftrightarrow> rn_state s ! index \<noteq> Pending) \<and>
     (\<forall>index \<in> into c direct. lk_target (link_at c index) \<in> set visited \<longrightarrow> lk_source (link_at c index) \<in> set visited) \<and>
     (\<forall>i \<in> set visited. was_started s i \<longleftrightarrow> live_incoming c s i) \<and>
     (\<forall>i \<in> set direct - set visited. \<not> was_started s i)"

definition walk_decided :: "run_ctx \<Rightarrow> string list \<Rightarrow> run_state \<Rightarrow> bool" where
  "walk_decided c direct s \<longleftrightarrow>
     (\<forall>i \<in> set direct. ready c s i \<and> (was_started s i \<longleftrightarrow> live_incoming c s i))"

lemma counting_frame:
  assumes "frame_ok c direct" and "i \<in> set direct"
  shows "set (counting c i) = {index. index < n_links c \<and> lk_target (link_at c index) = i}"
  using assms by (auto simp: counting_def frame_ok_def index_ok_def)

lemma ready_frame:
  assumes "frame_ok c direct" and "i \<in> set direct"
  shows "ready c s i \<longleftrightarrow> (\<forall>index \<in> into c direct. lk_target (link_at c index) = i \<longrightarrow> rn_state s ! index \<noteq> Pending)"
  using assms(2) by (auto simp: ready_def list_all_iff counting_frame [OF assms] into_def)

lemma live_frame:
  assumes "frame_ok c direct" and "i \<in> set direct"
  shows "live_incoming c s i \<longleftrightarrow>
     (\<forall>index \<in> into c direct. lk_target (link_at c index) \<noteq> i) \<or>
     (\<exists>index \<in> into c direct. lk_target (link_at c index) = i \<and> rn_state s ! index = Live)"
proof -
  have "counting c i = [] \<longleftrightarrow> set (counting c i) = {}" by simp
  then show ?thesis using assms(2)
    by (auto simp: live_incoming_def list_ex_iff counting_frame [OF assms] into_def)
qed

lemma set_push_ready:
  "set (push_ready c s i direct visited st) =
     {lk_target (link_at c index) | index. index \<in> set (dict_get_list (rc_outgoing c) i) \<and>
        lk_target (link_at c index) \<in> set direct \<and> lk_target (link_at c index) \<notin> set visited \<and>
        ready c s (lk_target (link_at c index))} \<union> set st"
  by (auto simp: push_ready_def onto_stack_def Let_def)

section \<open>No ready node is forgotten\<close>

lemma walk_inv_pop:
  assumes "walk_inv c direct visited (i # st) s" and "i \<in> set visited \<or> i \<notin> set direct \<or> \<not> ready c s i"
  shows "walk_inv c direct visited st s"
proof -
  have "\<forall>j \<in> set direct - set visited. ready c s j \<longrightarrow> j \<in> set st"
    using assms unfolding walk_inv_def by auto
  then show ?thesis using assms(1) unfolding walk_inv_def by blast
qed

lemma stopped_state:
  assumes "stopped c i s = (x, s')"
  shows "rn_state s' = rn_state s" "was_started s' j = was_started s j"
  using assms by (auto simp: stopped_def Let_def run_simps was_started_def split: if_splits option.splits)

lemma stopped_inv:
  assumes "stopped c i s = (x, s')"
  shows "walk_inv c direct visited st s' = walk_inv c direct visited st s" "ready c s' j = ready c s j"
    "live_incoming c s' j = live_incoming c s j"
  using stopped_state [OF assms] by (simp_all add: walk_inv_def ready_def live_incoming_def)

lemma extends_starts:
  assumes "extends c A s s'"
  shows "was_started s j \<Longrightarrow> was_started s' j" "j \<notin> A \<Longrightarrow> was_started s' j = was_started s j"
proof -
  obtain es where e: "rn_log s' = rn_log s @ es" "trace (A \<inter> set (rc_reachable c)) (cur_frame s) es"
    using assms by (auto simp: extends_def)
  show "was_started s j \<Longrightarrow> was_started s' j" using e by (auto simp: was_started_def)
  show "j \<notin> A \<Longrightarrow> was_started s' j = was_started s j" using e trace_starts [OF e(2)] by (auto simp: was_started_def)
qed

lemma visit_inv:
  assumes fr: "frame_ok c direct" and inv: "walk_inv c direct visited (i # st) s"
    and i: "i \<in> set direct" "i \<notin> set visited" "ready c s i"
    and e: "extends c (nested c {i}) s s'"
    and own: "\<And>index. index \<in> into c direct \<Longrightarrow> lk_source (link_at c index) = i \<Longrightarrow> rn_state s' ! index \<noteq> Pending"
    and started: "was_started s' i = live_incoming c s i"
    and st': "set st \<union> {t. \<exists>index \<in> into c direct. lk_source (link_at c index) = i \<and>
        lk_target (link_at c index) = t \<and> t \<notin> set (i # visited) \<and> ready c s' t} \<subseteq> set st'"
  shows "walk_inv c direct (i # visited) st' s'"
proof -
  have idx: "index_ok c" and nest: "nested c {i} \<inter> set direct = {i}" using fr i by (auto simp: frame_ok_def)
  have src: "lk_source (link_at c index) \<in> set direct" if "index \<in> into c direct" for index
    using fr that by (auto simp: frame_ok_def into_def)
  have len: "length (rn_state s') = n_links c" using e inv by (simp add: extends_def keeps_def walk_inv_def)
  have same: "rn_state s' ! index = rn_state s ! index"
    if "index \<in> into c direct" "lk_source (link_at c index) \<noteq> i" for index
  proof -
    have "lk_source (link_at c index) \<notin> nested c {i}" using src [OF that(1)] nest that(2) by blast
    moreover have "\<forall>j \<in> nested c {i}. index \<notin> set (dict_get_list (rc_outgoing c) j)"
      using idx calculation unfolding index_ok_def by metis
    ultimately show ?thesis using e by (simp add: extends_def keeps_def)
  qed
  have links: "\<forall>index \<in> into c direct. lk_source (link_at c index) \<in> set (i # visited) \<longleftrightarrow> rn_state s' ! index \<noteq> Pending"
  proof
    fix index assume x: "index \<in> into c direct"
    show "lk_source (link_at c index) \<in> set (i # visited) \<longleftrightarrow> rn_state s' ! index \<noteq> Pending"
      using own [OF x] same [OF x] x inv by (cases "lk_source (link_at c index) = i") (auto simp: walk_inv_def)
  qed
  have closed: "\<forall>index \<in> into c direct. lk_target (link_at c index) \<in> set (i # visited) \<longrightarrow>
      lk_source (link_at c index) \<in> set (i # visited)"
  proof (intro ballI impI)
    fix index assume x: "index \<in> into c direct" "lk_target (link_at c index) \<in> set (i # visited)"
    show "lk_source (link_at c index) \<in> set (i # visited)"
    proof (cases "lk_target (link_at c index) = i")
      case True
      then have "rn_state s ! index \<noteq> Pending" using i(3) x ready_frame [OF fr i(1)] by blast
      then show ?thesis using x inv by (auto simp: walk_inv_def)
    next
      case False
      then show ?thesis using x inv by (auto simp: walk_inv_def)
    qed
  qed
  have live: "live_incoming c s' j = live_incoming c s j" if j: "j \<in> set (i # visited)" for j
  proof -
    have jd: "j \<in> set direct" using j i inv by (auto simp: walk_inv_def)
    have "lk_source (link_at c index) \<noteq> i" if t: "index \<in> into c direct" "lk_target (link_at c index) = j" for index
    proof
      assume s: "lk_source (link_at c index) = i"
      show False
      proof (cases "j = i")
        case True
        have "link_at c index \<in> set (rc_links c)" using t by (simp add: into_def link_at_def)
        then have "(i, i) \<in> link_rel c" using s t True unfolding link_rel_def by force
        then show False using fr by (auto simp: frame_ok_def acyclic_def)
      next
        case False
        then have "i \<in> set visited" using j s t inv by (auto simp: walk_inv_def)
        then show False using i by simp
      qed
    qed
    then show ?thesis using same by (auto simp: live_frame [OF fr jd])
  qed
  have old: "was_started s' j = was_started s j" if "j \<in> set direct" "j \<noteq> i" for j
    using extends_starts(2) [OF e] nest that by blast
  have vis: "set visited \<subseteq> set direct" using inv by (simp add: walk_inv_def)
  have done1: "\<forall>j \<in> set (i # visited). was_started s' j = live_incoming c s' j"
  proof
    fix j assume j: "j \<in> set (i # visited)"
    show "was_started s' j = live_incoming c s' j"
    proof (cases "j = i")
      case True
      then show ?thesis using started live [OF j] by simp
    next
      case False
      then have "j \<in> set visited" using j by simp
      then have "was_started s j = live_incoming c s j" "j \<in> set direct" using inv vis by (auto simp: walk_inv_def)
      then show ?thesis using live [OF j] old False by simp
    qed
  qed
  have rdy: "\<forall>j \<in> set direct - set (i # visited). ready c s' j \<longrightarrow> j \<in> set st'"
  proof (intro ballI impI)
    fix j assume j: "j \<in> set direct - set (i # visited)" "ready c s' j"
    show "j \<in> set st'"
    proof (cases "\<exists>index \<in> into c direct. lk_source (link_at c index) = i \<and> lk_target (link_at c index) = j")
      case True
      then show ?thesis using j st' by blast
    next
      case False
      have "ready c s j" using j(2) False same j(1) ready_frame [OF fr, of j] by (metis DiffE)
      then have "j \<in> set (i # st)" using inv j(1) unfolding walk_inv_def by auto
      then show ?thesis using j(1) st' by auto
    qed
  qed
  have fresh: "\<forall>j \<in> set direct - set (i # visited). \<not> was_started s' j"
    using old inv unfolding walk_inv_def by auto
  show ?thesis unfolding walk_inv_def
    by (intro conjI len links closed done1 rdy fresh) (use i vis in simp)
qed

lemma visit_rest:
  assumes "index_ok c" and "set (push_ready c s i direct visited' st) \<subseteq> set st'" and "set visited' \<subseteq> set (i # visited)"
  shows "set st \<union> {t. \<exists>index \<in> into c direct. lk_source (link_at c index) = i \<and>
        lk_target (link_at c index) = t \<and> t \<notin> set (i # visited) \<and> ready c s t} \<subseteq> set st'"
proof -
  have "{t. \<exists>index \<in> into c direct. lk_source (link_at c index) = i \<and>
        lk_target (link_at c index) = t \<and> t \<notin> set (i # visited) \<and> ready c s t}
      \<subseteq> set (push_ready c s i direct visited' st)"
    using assms(1,3) unfolding set_push_ready into_def index_ok_def by blast
  moreover have "set st \<subseteq> set (push_ready c s i direct visited' st)" by (simp add: set_push_ready)
  ultimately show ?thesis using assms(2) by blast
qed

lemma kill_links:
  assumes "frame_ok c direct" "index \<in> into c direct" "lk_source (link_at c index) = i" "length (rn_state s) = n_links c"
  shows "rn_state (kill c i s) ! index \<noteq> Pending"
  using assms by (auto simp: kill_def run_simps frame_ok_def index_ok_def into_def)

context frame_exec
begin

lemma walk_keeps_inv:
  assumes "walk_loop exec c direct visited st s = Some (res, s')" and fr: "frame_ok c direct"
  shows "res = None \<Longrightarrow> walk_inv c direct visited st s \<Longrightarrow>
    \<exists>visited'. walk_inv c direct visited' [] s'"
  using assms(1)
proof (induction rule: walk_loop_induct)
  case (skip visited i st s s1 res s')
  then show ?case using walk_inv_pop stopped_inv [OF skip(1)] by metis
next
  case (kill visited i st s s1 res s')
  have idx: "index_ok c" using fr by (simp add: frame_ok_def)
  have inv: "walk_inv c direct visited (i # st) s1" using kill.prems stopped_inv [OF kill(1)] by simp
  have "walk_inv c direct (i # visited) (push_ready c (kill c i s1) i direct (i # visited) st) (kill c i s1)"
  proof (rule visit_inv [OF fr inv kill(3,2,4) extends_kill])
    show "i \<in> nested c {i}" using nested_self by blast
    show "rn_state (kill c i s1) ! index \<noteq> Pending"
      if "index \<in> into c direct" "lk_source (link_at c index) = i" for index
      by (rule kill_links [OF fr that]) (use inv in \<open>simp add: walk_inv_def\<close>)
    have "\<not> was_started s1 i" using inv kill(2,3) by (simp add: walk_inv_def)
    then show "was_started (kill c i s1) i = live_incoming c s1 i"
      using kill(5) by (simp add: was_started_def run_simps)
  qed (rule visit_rest [OF idx subset_refl], simp)
  then show ?case using kill.IH kill.prems(1) by blast
next
  case (run visited i st s s1 s2 res s')
  have idx: "index_ok c" using fr by (simp add: frame_ok_def)
  have inv: "walk_inv c direct visited (i # st) s1" using run.prems stopped_inv [OF run(1)] by simp
  note e = exec_extends [OF run(3,6)] and d = exec_done [OF run(3,6)]
  have "walk_inv c direct (i # visited) (push_ready c s2 i direct visited st) s2"
  proof (rule visit_inv [OF fr inv run(3,2,4) e])
    have len: "length (rn_state s2) = n_links c" using e inv by (simp add: extends_def keeps_def walk_inv_def)
    show "rn_state s2 ! index \<noteq> Pending"
      if "index \<in> into c direct" "lk_source (link_at c index) = i" for index
      using d fr idx that len unfolding node_done_def frame_ok_def index_ok_def into_def by auto
    show "was_started s2 i = live_incoming c s1 i" using d run(5) by (simp add: node_done_def)
  qed (rule visit_rest [OF idx subset_refl], auto)
  then show ?case using run.IH run.prems(1) by blast
qed auto

lemma walk_decides:
  assumes w: "walk_loop exec c direct [] st s = Some (None, s')" and fr: "frame_ok c direct"
    and len: "length (rn_state s) = n_links c"
    and pending: "\<forall>index \<in> into c direct. rn_state s ! index = Pending"
    and fresh: "\<forall>i \<in> set direct. \<not> was_started s i"
    and seeds: "\<forall>i \<in> set direct. (\<forall>index \<in> into c direct. lk_target (link_at c index) \<noteq> i) \<longrightarrow> i \<in> set st"
  shows "walk_decided c direct s'"
proof -
  have "walk_inv c direct [] st s"
    using len pending fresh seeds ready_frame [OF fr] by (auto simp: walk_inv_def)
  then obtain v where v: "walk_inv c direct v [] s'" using walk_keeps_inv [OF w fr] by blast
  have "set direct \<subseteq> set v"
  proof (rule ccontr)
    assume "\<not> set direct \<subseteq> set v"
    then obtain z where "z \<in> set direct - set v" by blast
    have "finite (link_rel c)"
    proof -
      have "link_rel c = (\<lambda>l. (lk_source l, lk_target l)) ` set (rc_links c)" by (auto simp: link_rel_def)
      then show ?thesis by simp
    qed
    then have "wf (link_rel c)" using fr by (intro finite_acyclic_wf) (auto simp: frame_ok_def)
    then obtain j where j: "j \<in> set direct - set v" and least: "\<And>y. (y, j) \<in> link_rel c \<Longrightarrow> y \<notin> set direct - set v"
      using \<open>z \<in> set direct - set v\<close> by (rule wfE_min) blast
    have "\<not> ready c s' j" using v j by (auto simp: walk_inv_def)
    then obtain index where x: "index \<in> into c direct" "lk_target (link_at c index) = j" "rn_state s' ! index = Pending"
      using ready_frame [OF fr, of j] j by auto
    have "link_at c index \<in> set (rc_links c)" using x(1) by (simp add: into_def link_at_def)
    then have "(lk_source (link_at c index), j) \<in> link_rel c" using x(2) unfolding link_rel_def by force
    then have "lk_source (link_at c index) \<notin> set direct - set v" by (rule least)
    moreover have "lk_source (link_at c index) \<in> set direct" using fr x(1) by (auto simp: frame_ok_def into_def)
    moreover have "lk_source (link_at c index) \<notin> set v" using v x(1,3) by (simp add: walk_inv_def)
    ultimately show False by blast
  qed
  then have sv: "set v = set direct" using v by (auto simp: walk_inv_def)
  have "ready c s' i" if "i \<in> set direct" for i
    using v that sv ready_frame [OF fr that] by (auto simp: walk_inv_def)
  then show ?thesis using v sv by (auto simp: walk_decided_def walk_inv_def)
qed

end

interpretation frame: frame_exec c "direct_of c scope" "run_node (walk_at d c) c" for c scope d
proof
  fix i s s' assume i: "i \<in> set (direct_of c scope)" and r: "run_node (walk_at d c) c i s = Some (None, s')"
  have "i \<in> set (rc_reachable c)" using i direct_of_subset by blast
  then show "extends c (nested c {i}) s s'" and "node_done c i s'"
    using engine.run_node_extends [OF r] run_node_done [OF r] by blast+
qed

section \<open>The top frame of a published graph\<close>

lemma link_index_get:
  "set (dict_get_list (link_index key nodes links) i) = {index. index < length links \<and> key (links ! index) = i}"
proof -
  have "dict_get_list (map (\<lambda>(i, n). (i, [])) nodes) i = []" for i :: string
    by (induction nodes) (auto simp: dict_get_list_def)
  then have "set (dict_get_list (link_index key nodes links) i) =
      (\<lambda>x. snd (case x of (index, link) \<Rightarrow> (key link, index))) `
        {x. fst x < length links \<and> links ! fst x = snd x \<and> fst (case x of (index, link) \<Rightarrow> (key link, index)) = i}"
    unfolding link_index_def by (auto simp: dict_simps filter_map in_set_enumerate_eq comp_def)
  also have "\<dots> = {index. index < length links \<and> key (links ! index) = i}" (is "?f ` ?S = ?T")
  proof
    show "?T \<subseteq> ?f ` ?S"
    proof
      fix x assume "x \<in> ?T"
      then show "x \<in> ?f ` ?S" by (intro image_eqI [of _ _ "(x, links ! x)"]) auto
    qed
  qed auto
  finally show ?thesis .
qed

lemma make_ctx_links [run_simps]:
  "rc_links (make_ctx g types schemas env reach timeout) = links_of (g_edges g) (nodes_index (g_nodes g))"
  "rc_loops (make_ctx g types schemas env reach timeout) = loop_ids (nodes_index (g_nodes g)) types"
  by (simp_all add: make_ctx_def Let_def)

lemma make_ctx_index: "index_ok (make_ctx g types schemas env reach timeout)"
  by (auto simp: index_ok_def make_ctx_def Let_def link_index_get link_at_def)

lemma link_edge:
  assumes "index < n_links c" and "rc_links c = links_of edges by_id"
  obtains e where "e \<in> set edges" "lk_source (link_at c index) = source_id e" "lk_target (link_at c index) = target_id e"
    "lk_source_port (link_at c index) = pr_port (e_source e)" "lk_target_port (link_at c index) = pr_port (e_target e)"
    "known by_id (source_id e)" "known by_id (target_id e)"
proof -
  have "link_at c index \<in> set (links_of edges by_id)" using assms by (metis link_at_def nth_mem)
  then show ?thesis by (auto simp: links_of_def intro: that)
qed

lemma make_ctx_rel: "link_rel (make_ctx g types schemas env reach timeout) = edge_rel (g_edges g) (nodes_index (g_nodes g))"
  unfolding link_rel_def run_simps links_of_def edge_rel_def by force

lemma loop_ids_iff:
  assumes "distinct (map n_id nodes)" and "n \<in> set nodes"
  shows "n_id n \<in> set (loop_ids (nodes_index nodes) types) \<longleftrightarrow> is_container (n_type n) types"
proof
  assume "n_id n \<in> set (loop_ids (nodes_index nodes) types)"
  then obtain m where m: "(n_id n, m) \<in> set (nodes_index nodes)" "is_container (n_type m) types"
    by (auto simp: loop_ids_def)
  have "map_of (nodes_index nodes) (n_id n) = Some m"
    using m(1) by (intro map_of_is_SomeI) (simp_all add: nodes_index_def)
  then show "is_container (n_type n) types" using m(2) map_of_index [OF assms] by simp
next
  assume "is_container (n_type n) types"
  moreover have "(n_id n, n) \<in> set (nodes_index nodes)" by (rule map_of_SomeD [OF map_of_index [OF assms]])
  ultimately show "n_id n \<in> set (loop_ids (nodes_index nodes) types)"
    by (force simp: loop_ids_def)
qed

lemma children_of_parent:
  assumes "[] \<notin> n_id ` set nodes" and "acyclic (parent_rel (nodes_index nodes))"
  shows "j \<in> set (children_of (nodes_index nodes) p) \<longleftrightarrow>
    p \<in> n_id ` set nodes \<and> parent_at (nodes_index nodes) j = Some p"
proof
  assume "j \<in> set (children_of (nodes_index nodes) p)"
  then have "(j, p) \<in> parent_rel (nodes_index nodes)" "p \<in> n_id ` set nodes"
    using child_rel_parents [OF assms(1)] by (auto simp: child_rel_def children_of_def)
  then show "p \<in> n_id ` set nodes \<and> parent_at (nodes_index nodes) j = Some p" by (simp add: parent_rel_def)
next
  assume p: "p \<in> n_id ` set nodes \<and> parent_at (nodes_index nodes) j = Some p"
  then obtain n where n: "map_of (nodes_index nodes) j = Some n" "parent_ref n = Some p"
    by (auto simp: parent_at_def bind_eq_Some_conv)
  have "(j, p) \<in> parent_rel (nodes_index nodes)" using p by (simp add: parent_rel_def)
  then have "p \<noteq> j" using assms(2) by (auto simp: acyclic_def)
  moreover have "(j, n) \<in> set (nodes_index nodes)" using n(1) by (rule map_of_SomeD)
  moreover have "n_parent n = Some p" using n(2) by (auto simp: parent_ref_def split: option.splits if_splits)
  ultimately show "j \<in> set (children_of (nodes_index nodes) p)"
    using p by (force simp: children_of_def)
qed

text \<open>A run of the whole graph from its trigger; containers have the single input \<open>main\<close>,
  as all of the catalog do.\<close>

definition main_inputs :: "'x node_type_scheme list \<Rightarrow> bool" where
  "main_inputs types \<longleftrightarrow> list_all (\<lambda>t. nt_container t \<noteq> None \<longrightarrow> list_all (\<lambda>p. ps_port p = ''main'') (nt_inputs t)) types"

lemma top_frame_ok:
  assumes ok: "graph_ok g types" and u: "distinct (map n_id (g_nodes g))" and ne: "[] \<notin> n_id ` set (g_nodes g)"
    and mi: "main_inputs types" and all: "set reach = n_id ` set (g_nodes g)"
    and c: "c = make_ctx g (types_index types) schemas env reach timeout"
  shows "frame_ok c (direct_of c reach)"
    and "set (direct_of c reach) = {i \<in> n_id ` set (g_nodes g). parent_at (nodes_index (g_nodes g)) i = None}"
proof -
  let ?d = "nodes_index (g_nodes g)" and ?T = "types_index types"
  have pac: "acyclic (parent_rel ?d)" and eac: "acyclic (edge_rel (g_edges g) ?d)"
    and cont: "\<And>i p. parent_at ?d i = Some p \<Longrightarrow> \<exists>n. map_of ?d p = Some n \<and> is_container (n_type n) ?T"
    and entry: "\<And>e. e \<in> set (g_edges g) \<Longrightarrow> frame_entry_ok ?d ?T e"
    and ports: "\<And>e. e \<in> set (g_edges g) \<Longrightarrow> ports_ok ?d ?T e"
    using ok by (auto simp: graph_ok_def Let_def)
  have loop: "p \<in> set (rc_loops c)" if "map_of ?d p = Some n" "is_container (n_type n) ?T" for p n
    using map_of_indexD [OF that(1)] loop_ids_iff [OF u, of n ?T] that(2) by (auto simp: c run_simps)
  have loopD: "\<exists>n. map_of ?d p = Some n \<and> is_container (n_type n) ?T" if "p \<in> set (rc_loops c)" for p
  proof -
    have "p \<in> n_id ` set (g_nodes g)"
      using that by (auto simp: c run_simps loop_ids_def simp flip: keys_nodes_index intro: rev_image_eqI)
    then obtain n where "n \<in> set (g_nodes g)" "p = n_id n" by auto
    then show ?thesis using that loop_ids_iff [OF u, of n ?T] map_of_index [OF u] by (auto simp: c run_simps)
  qed
  have bodies: "j \<in> set (dict_get_list (rc_bodies c) p) \<longleftrightarrow> parent_at ?d j = Some p" for j p
  proof -
    have "p \<in> n_id ` set (g_nodes g) \<and> p \<in> set (rc_loops c)" if "parent_at ?d j = Some p"
      using cont [OF that] loop map_of_indexD by blast
    then show ?thesis using children_of_parent [OF ne pac]
      by (auto simp: c run_simps body_index_get)
  qed
  have hid: "j \<in> set (hidden c reach) \<longleftrightarrow> parent_at ?d j \<noteq> None" for j
  proof -
    have "j \<in> set (hidden c reach) \<longleftrightarrow> (\<exists>p \<in> set reach \<inter> set (rc_loops c). j \<in> set (children_of ?d p))"
      by (auto simp: hidden_def c run_simps body_index_def)
    also have "\<dots> \<longleftrightarrow> (\<exists>p. parent_at ?d j = Some p \<and> p \<in> n_id ` set (g_nodes g) \<and> p \<in> set (rc_loops c))"
      unfolding children_of_parent [OF ne pac] all by (auto simp del: image_iff)
    also have "\<dots> \<longleftrightarrow> parent_at ?d j \<noteq> None"
    proof
      assume "parent_at ?d j \<noteq> None"
      then obtain p where p: "parent_at ?d j = Some p" by auto
      then show "\<exists>p. parent_at ?d j = Some p \<and> p \<in> n_id ` set (g_nodes g) \<and> p \<in> set (rc_loops c)"
        using cont [OF p] loop map_of_indexD by blast
    qed auto
    finally show ?thesis .
  qed
  show dir: "set (direct_of c reach) = {i \<in> n_id ` set (g_nodes g). parent_at ?d i = None}"
    using all hid by (auto simp: direct_of_def c run_simps)
  show "frame_ok c (direct_of c reach)"
    unfolding frame_ok_def
  proof (intro conjI ballI allI impI)
    show "index_ok c" by (simp add: c make_ctx_index)
    show "acyclic (link_rel c)" using eac by (simp add: c make_ctx_rel)
    fix i assume i: "i \<in> set (direct_of c reach)"
    have "j = i" if "j \<in> nested c {i}" "j \<in> set (direct_of c reach)" for j
    proof (rule ccontr)
      assume "j \<noteq> i"
      then have "(j, i) \<in> (body_rel c)\<^sup>+" using that(1) by (auto simp: nested_def rtrancl_eq_or_trancl)
      then obtain k where "(j, k) \<in> body_rel c" by (auto dest: tranclD)
      then show False using that(2) dir bodies by (auto simp: body_rel_def)
    qed
    then show "nested c {i} \<inter> set (direct_of c reach) = {i}" using i nested_self by blast
  next
    fix index assume x: "index < n_links c" and t: "lk_target (link_at c index) \<in> set (direct_of c reach)"
    obtain e where e: "e \<in> set (g_edges g)" "lk_source (link_at c index) = source_id e" "lk_target (link_at c index) = target_id e"
      "lk_source_port (link_at c index) = pr_port (e_source e)" "lk_target_port (link_at c index) = pr_port (e_target e)"
      "known ?d (source_id e)" "known ?d (target_id e)"
      using link_edge [OF x, of "g_edges g" ?d] by (auto simp: c run_simps)
    have pt: "parent_at ?d (target_id e) = None" using t dir e(3) by simp
    then have fe: "parent_at ?d (source_id e) = None"
      "pr_port (e_source e) = ''each'' \<longrightarrow> \<not> (\<exists>s. map_of ?d (source_id e) = Some s \<and> is_container (n_type s) ?T)"
      using entry [OF e(1)] by (auto simp: frame_entry_ok_def)
    show "lk_source (link_at c index) \<in> set (direct_of c reach)" using fe(1) e(2,6) dir by simp
    show "\<not> back_link c index"
    proof
      assume "back_link c index"
      then have b: "target_id e \<in> set (rc_loops c)" "pr_port (e_target e) \<noteq> ''main''"
        by (simp_all add: back_link_def e)
      obtain t tt where tt: "map_of ?d (target_id e) = Some t" "map_of ?T (n_type t) = Some tt" "has_port (nt_inputs tt) (pr_port (e_target e))"
        using ports [OF e(1)] by (auto simp: ports_ok_def)
      have "is_container (n_type t) ?T" using loopD [OF b(1)] tt(1) by auto
      then have "nt_container tt \<noteq> None" using tt(2) by (simp add: is_container_def)
      moreover have "tt \<in> set types" using tt(2) by (auto simp: types_index_def dict_simps dest!: map_of_SomeD)
      ultimately have "list_all (\<lambda>p. ps_port p = ''main'') (nt_inputs tt)" using mi by (auto simp: main_inputs_def list_all_iff)
      then show False using tt(3) b(2) by (auto simp: has_port_def list_all_iff list_ex_iff)
    qed
    show "\<not> (lk_source (link_at c index) \<in> set (rc_loops c) \<and> lk_source_port (link_at c index) = ''each'')"
      using fe(2) loopD e(2,4) by auto
  qed
qed

lemma top_walk_decides:
  assumes ok: "graph_ok g types" and u: "distinct (map n_id (g_nodes g))" and ne: "[] \<notin> n_id ` set (g_nodes g)"
    and mi: "main_inputs types" and t: "t \<in> set (g_nodes g)" "is_trigger t (types_index types)"
    and c: "c = make_ctx g (types_index types) schemas env (reachable_of g (n_id t) None) timeout"
    and w: "walk_from d c (reachable_of g (n_id t) None) (n_id t) (init_state c) = Some (None, s)"
    and n: "n \<in> set (g_nodes g)" "parent_ref n = None"
  shows "(\<forall>index < n_links c. lk_target (link_at c index) = n_id n \<longrightarrow> rn_state s ! index \<noteq> Pending) \<and>
    (was_started s (n_id n) \<longleftrightarrow> n = t \<or> (\<exists>index < n_links c. lk_target (link_at c index) = n_id n \<and> rn_state s ! index = Live))"
proof -
  let ?r = "reachable_of g (n_id t) None" and ?d = "nodes_index (g_nodes g)"
  obtain t' where t': "t' \<in> set (g_nodes g)" "\<forall>n \<in> set (g_nodes g). is_trigger n (types_index types) \<longrightarrow> n = t'"
    and no_in: "\<forall>e \<in> set (g_edges g). target_id e \<noteq> n_id t'"
    and reach: "\<forall>n \<in> set (g_nodes g). (n_id t', n_id n) \<in> (edge_rel (g_edges g) ?d)\<^sup>*"
    using ok by (auto simp: graph_ok_def Let_def)
  have tt: "t' = t" using t' t by blast
  have "(n_id t, i) \<in> (edge_rel (g_edges g) ?d)\<^sup>* \<Longrightarrow> i \<in> n_id ` set (g_nodes g)" for i
    by (erule rtranclE) (use t(1) in \<open>auto simp: edge_rel_def\<close>)
  then have all: "set ?r = n_id ` set (g_nodes g)"
    using reach tt by (auto simp: reachable_of_set run_scope_def)
  note fr = top_frame_ok [OF ok u ne mi all c]
  have inn: "\<exists>index < n_links c. lk_target (link_at c index) = n_id m" if m: "m \<in> set (g_nodes g)" "m \<noteq> t" for m
  proof -
    have "n_id m \<noteq> n_id t" using m t(1) u by (auto simp: distinct_map inj_on_def)
    then have "(n_id t, n_id m) \<in> (edge_rel (g_edges g) ?d)\<^sup>+" using reach m tt by (auto simp: rtrancl_eq_or_trancl)
    then obtain a where "(a, n_id m) \<in> edge_rel (g_edges g) ?d" by (auto dest: tranclD2)
    then have "(a, n_id m) \<in> link_rel c" by (simp add: c make_ctx_rel)
    then obtain l where "l \<in> set (rc_links c)" "lk_target l = n_id m" by (auto simp: link_rel_def)
    then show ?thesis by (auto simp: in_set_conv_nth link_at_def)
  qed
  have t_none: "lk_target (link_at c index) \<noteq> n_id t" if "index < n_links c" for index
  proof -
    have links: "rc_links c = links_of (g_edges g) ?d" by (simp add: c run_simps)
    show ?thesis by (rule link_edge [OF that links]) (use no_in tt in simp)
  qed
  have dec: "walk_decided c (direct_of c ?r) s"
  proof (rule frame.walk_decides [OF w [unfolded walk_from_def Let_def] fr(1)])
    show "length (rn_state (init_state c)) = n_links c" by (simp add: init_state_def)
    show "\<forall>index \<in> into c (direct_of c ?r). rn_state (init_state c) ! index = Pending"
      by (simp add: init_state_def into_def)
    show "\<forall>i \<in> set (direct_of c ?r). \<not> was_started (init_state c) i"
      by (simp add: init_state_def was_started_def)
    show "\<forall>i \<in> set (direct_of c ?r). (\<forall>index \<in> into c (direct_of c ?r). lk_target (link_at c index) \<noteq> i) \<longrightarrow>
        i \<in> set (if n_id t \<in> set (direct_of c ?r) then [n_id t] else [])"
    proof (intro ballI impI)
      fix i assume i: "i \<in> set (direct_of c ?r)"
        and no: "\<forall>index \<in> into c (direct_of c ?r). lk_target (link_at c index) \<noteq> i"
      obtain m where m: "m \<in> set (g_nodes g)" "i = n_id m" using i fr(2) by auto
      have "m = t"
      proof (rule ccontr)
        assume "m \<noteq> t"
        then obtain index where "index < n_links c" "lk_target (link_at c index) = i" using inn m by blast
        then show False using no i by (auto simp: into_def)
      qed
      then show "i \<in> set (if n_id t \<in> set (direct_of c ?r) then [n_id t] else [])" using m i by simp
    qed
  qed
  have nd: "n_id n \<in> set (direct_of c ?r)"
    using n map_of_index [OF u n(1)] by (simp add: fr(2) parent_at_def)
  have p: "\<forall>index < n_links c. lk_target (link_at c index) = n_id n \<longrightarrow> rn_state s ! index \<noteq> Pending"
    using dec nd ready_frame [OF fr(1) nd] by (auto simp: walk_decided_def into_def)
  have "was_started s (n_id n) \<longleftrightarrow> live_incoming c s (n_id n)" using dec nd by (simp add: walk_decided_def)
  also have "\<dots> \<longleftrightarrow> n = t \<or> (\<exists>index < n_links c. lk_target (link_at c index) = n_id n \<and> rn_state s ! index = Live)"
  proof -
    have "(\<forall>index \<in> into c (direct_of c ?r). lk_target (link_at c index) \<noteq> n_id n) \<longleftrightarrow> n = t"
    proof
      assume a: "\<forall>index \<in> into c (direct_of c ?r). lk_target (link_at c index) \<noteq> n_id n"
      show "n = t"
      proof (rule ccontr)
        assume "n \<noteq> t"
        then obtain index where "index < n_links c" "lk_target (link_at c index) = n_id n" using inn n(1) by blast
        then show False using a nd by (auto simp: into_def)
      qed
    qed (use t_none in \<open>auto simp: into_def\<close>)
    moreover have "(\<exists>index \<in> into c (direct_of c ?r). lk_target (link_at c index) = n_id n \<and> rn_state s ! index = Live) \<longleftrightarrow>
        (\<exists>index < n_links c. lk_target (link_at c index) = n_id n \<and> rn_state s ! index = Live)"
      using nd by (auto simp: into_def)
    ultimately show ?thesis by (simp add: live_frame [OF fr(1) nd])
  qed
  finally show ?thesis using p by blast
qed

section \<open>Properties of runs\<close>

text \<open>The demo channel with executors: the container runs two rounds, the node after it fails
  and is asked to continue.\<close>

definition demo_result :: node_result where
  "demo_result = \<lparr>nr_status = ''succeeded'', nr_output = JInt 1, nr_error_code = None, nr_error_message = None,
     nr_error_detail = None, nr_ports = None, nr_minimum_wait = None\<rparr>"

definition demo_exec :: "node_type \<Rightarrow> exec_type" where
  "demo_exec t = node_type.extend t
     \<lparr>et_execute = (\<lambda>n evs. demo_result),
      et_run = (\<lambda>n evs. Round (JInt 1) None (\<lambda>rd evs. Round (JInt 2) None (\<lambda>rd evs. Finish demo_result)))\<rparr>"

definition demo_types :: "exec_type list" where
  "demo_types = map demo_exec demo_catalog"

definition demo_env :: run_env where
  "demo_env = \<lparr>en_cancelled = (\<lambda>_. False), en_elapsed = (\<lambda>_. 0), en_ticks = (\<lambda>_. 0),
     en_seq = (\<lambda>evs. int (length evs)), en_output_matches = (\<lambda>_ _. True)\<rparr>"

lemma demo_types_valid: "validate_graph (\<lambda>_ _. []) demo_lib demo_graph demo_resolver demo_types = Some []"
  by code_simp

lemma demo_types_ok: "graph_ok demo_graph demo_types"
  by (rule validate_graph_ok [OF demo_types_valid _ demo_distinct]) simp

lemma demo_ids: "[] \<notin> n_id ` set (g_nodes demo_graph)"
  by (simp add: demo_graph_def demo_node_def)

lemma demo_size: "length (g_nodes demo_graph) = 4"
  by (simp add: demo_graph_def)

text \<open>C8: a run of a well-formed graph always returns. Whatever the executors, the
  containers and the clock answer, and however often nodes retry, the interpreter comes back with
  an outcome, and it nests at most one level per node.\<close>

theorem run_returns:
  assumes "graph_ok g types" and "[] \<notin> n_id ` set (g_nodes g)" and "length (g_nodes g) + 1 < d"
  shows "\<exists>out evs. execute d g trigger types rs env timeout stop_at = Some (out, evs)"
  using assms by (rule execute_total)

theorem run_returns_witness:
  "\<exists>out evs. execute 6 demo_graph ''start'' demo_types demo_resolver demo_env (Some 5) None = Some (out, evs)"
  by (rule run_returns [OF demo_types_ok demo_ids]) (simp add: demo_size)

text \<open>C7: the hook calls of any run follow the protocol: only nodes that a path from the
  trigger reaches (with a stop node: its ancestors and itself) are started; every start is
  followed by one finish of the same node and sequence number; the starts inside a container's
  execution carry its sequence number and the index of the current round, and the rounds are
  numbered from 0 without gaps. This holds for retries, cancelled and timed out runs too.\<close>

theorem run_protocol:
  assumes "execute d g trigger types rs env timeout stop_at = Some (out, evs)"
  shows "trace (run_scope g trigger stop_at) None evs"
  using assms by (rule execute_trace)

definition demo_run_log :: "run_outcome \<times> event_log" where
  "demo_run_log = the (execute 6 demo_graph ''start'' demo_types demo_resolver demo_env None (Some ''after''))"

theorem run_protocol_witness:
  "trace (run_scope demo_graph ''start'' (Some ''after'')) None (snd demo_run_log)"
proof -
  obtain out evs where e: "execute 6 demo_graph ''start'' demo_types demo_resolver demo_env None (Some ''after'') = Some (out, evs)"
    using execute_total [OF demo_types_ok demo_ids, of 6 "''start''" demo_resolver demo_env None "Some ''after''"]
    by (simp add: demo_size) blast
  have "trace (run_scope demo_graph ''start'' (Some ''after'')) None evs" by (rule run_protocol [OF e])
  then show ?thesis by (simp add: demo_run_log_def e)
qed

text \<open>C6: when the walk of a published graph from its trigger ends without an
  outcome, every link into a node of the top frame is settled, and the node was started exactly if
  it is the trigger or one of the links into it is live. No ready node is forgotten and no
  node runs behind dead links only.\<close>

theorem run_decides_every_node:
  assumes "graph_ok g types" and "distinct (map n_id (g_nodes g))" and "[] \<notin> n_id ` set (g_nodes g)"
    and "main_inputs types" and "t \<in> set (g_nodes g)" and "is_trigger t (types_index types)"
    and "c = make_ctx g (types_index types) schemas env (reachable_of g (n_id t) None) timeout"
    and "walk_from d c (reachable_of g (n_id t) None) (n_id t) (init_state c) = Some (None, s)"
    and "n \<in> set (g_nodes g)" and "parent_ref n = None"
  shows "(\<forall>index < n_links c. lk_target (link_at c index) = n_id n \<longrightarrow> rn_state s ! index \<noteq> Pending) \<and>
    (was_started s (n_id n) \<longleftrightarrow> n = t \<or> (\<exists>index < n_links c. lk_target (link_at c index) = n_id n \<and> rn_state s ! index = Live))"
  using assms by (rule top_walk_decides)

definition demo_ctx :: run_ctx where
  "demo_ctx = make_ctx demo_graph (types_index demo_types) [] demo_env (reachable_of demo_graph ''start'' None) None"

definition demo_walk :: "(run_outcome option \<times> run_state) option" where
  "demo_walk = walk_from 6 demo_ctx (reachable_of demo_graph ''start'' None) ''start'' (init_state demo_ctx)"

lemma demo_walk_ends: "map_option fst demo_walk = Some None"
  by code_simp

theorem run_decides_every_node_witness: "\<exists>s. demo_walk = Some (None, s) \<and> rn_state s ! 2 \<noteq> Pending"
proof -
  let ?t = "demo_node ''start'' ''trigger.manual'' None" and ?n = "demo_node ''after'' ''transform.set'' None"
  obtain s where s: "demo_walk = Some (None, s)" using demo_walk_ends by auto
  have "main_inputs demo_types" by code_simp
  moreover have "?t \<in> set (g_nodes demo_graph)" "?n \<in> set (g_nodes demo_graph)" by (simp_all add: demo_graph_def)
  moreover have "is_trigger ?t (types_index demo_types)" by code_simp
  moreover have i: "n_id ?t = ''start''" "n_id ?n = ''after''" "parent_ref ?n = None" by (simp_all add: demo_node_def parent_ref_def)
  ultimately have "\<forall>index < n_links demo_ctx. lk_target (link_at demo_ctx index) = ''after'' \<longrightarrow> rn_state s ! index \<noteq> Pending"
    using run_decides_every_node [OF demo_types_ok demo_distinct demo_ids, of ?t demo_ctx "[]" demo_env None 6 s ?n]
      demo_ctx_def s [unfolded demo_walk_def] by simp
  moreover have "n_links demo_ctx = 3 \<and> lk_target (link_at demo_ctx 2) = ''after''" by code_simp
  ultimately show ?thesis using s by auto
qed

end
