(* ===== verification/Calendar.thy ===== *)
theory Calendar
  imports Prelude
begin

text \<open>
  The part of Python's \<open>datetime\<close> module the backend computes with: the proleptic
  Gregorian calendar. A \<open>date\<close> is its ordinal (day 1 is 0001-01-01), an aware \<open>datetime\<close>
  is its instant in microseconds, counted so that day \<open>n\<close> starts at \<open>n * day_us\<close>.
\<close>

definition is_leap :: "int \<Rightarrow> bool" where
  "is_leap y = (y mod 4 = 0 \<and> (y mod 100 \<noteq> 0 \<or> y mod 400 = 0))"

definition days_in_month :: "int \<Rightarrow> int \<Rightarrow> int" where
  "days_in_month y m =
     (if m = 2 then (if is_leap y then 29 else 28) else if m \<in> {4, 6, 9, 11} then 30 else 31)"

definition days_before_year :: "int \<Rightarrow> int" where
  "days_before_year y = (y - 1) * 365 + (y - 1) div 4 - (y - 1) div 100 + (y - 1) div 400"

fun days_before_month :: "int \<Rightarrow> nat \<Rightarrow> int" where
  "days_before_month y 0 = 0"
| "days_before_month y (Suc m) = days_before_month y m + (if m = 0 then 0 else days_in_month y (int m))"

definition ordinal :: "int \<Rightarrow> int \<Rightarrow> int \<Rightarrow> int" where
  "ordinal y m d = days_before_year y + days_before_month y (nat m) + d"

definition valid_date :: "int \<Rightarrow> int \<Rightarrow> int \<Rightarrow> bool" where
  "valid_date y m d \<longleftrightarrow> 1 \<le> y \<and> y \<le> 9999 \<and> 1 \<le> m \<and> m \<le> 12 \<and> 1 \<le> d \<and> d \<le> days_in_month y m"

lemma days_in_month_bounds: "28 \<le> days_in_month y m \<and> days_in_month y m \<le> 31"
  by (simp add: days_in_month_def)

lemma leap_arith:
  fixes y :: int
  assumes "R \<Longrightarrow> Q" and "Q \<Longrightarrow> P" and "y4 = a + (if P then 1 else 0)" and "y100 = b + (if Q then 1 else 0)"
    and "y400 = c + (if R then 1 else 0)" and "L = (P \<and> (\<not> Q \<or> R))"
  shows "y * 365 + y4 - y100 + y400 = (y - 1) * 365 + a - b + c + (if L then 366 else 365)"
  using assms by (cases P; cases Q; cases R) auto

lemma year_length: "days_before_year (y + 1) = days_before_year y + (if is_leap y then 366 else 365)"
proof -
  have d: "y div k = (y - 1) div k + (if y mod k = 0 then 1 else 0)" if "k > 0" for k :: int
  proof (cases "y mod k = 0")
    case True
    then obtain q where "y = k * q" by auto
    then have "y - 1 = k * (q - 1) + (k - 1)" by (simp add: algebra_simps)
    then have "(y - 1) div k = q - 1" by (rule int_div_pos_eq) (use that in simp_all)
    then show ?thesis using True \<open>y = k * q\<close> that by simp
  next
    case False
    have m: "0 < y mod k" using that False pos_mod_sign [of k y] by linarith
    have "y - 1 = k * (y div k) + (y mod k - 1)" by simp
    moreover have "0 \<le> y mod k - 1" "y mod k - 1 < k" using m pos_mod_bound [OF that, of y] by linarith+
    ultimately have "(y - 1) div k = y div k" by (intro int_div_pos_eq)
    then show ?thesis using False by simp
  qed
  have h: "y mod 400 = 0 \<Longrightarrow> y mod 100 = 0" by presburger
  have f: "y mod 100 = 0 \<Longrightarrow> y mod 4 = 0" by presburger
  have d4: "y div 4 = (y - 1) div 4 + (if y mod 4 = 0 then 1 else 0)" by (rule d) simp
  have d100: "y div 100 = (y - 1) div 100 + (if y mod 100 = 0 then 1 else 0)" by (rule d) simp
  have d400: "y div 400 = (y - 1) div 400 + (if y mod 400 = 0 then 1 else 0)" by (rule d) simp
  have s: "days_before_year (y + 1) = y * 365 + y div 4 - y div 100 + y div 400" by (simp add: days_before_year_def)
  have leap: "is_leap y \<longleftrightarrow> y mod 4 = 0 \<and> (y mod 100 \<noteq> 0 \<or> y mod 400 = 0)" by (simp only: is_leap_def)
  show ?thesis
    unfolding s days_before_year_def [of y] by (rule leap_arith [OF h f d4 d100 d400 leap])
qed

lemma days_before_year_mono: "y \<le> z \<Longrightarrow> days_before_year y \<le> days_before_year z"
proof (induction "nat (z - y)" arbitrary: z)
  case (Suc n)
  have "days_before_year y \<le> days_before_year (z - 1)" using Suc by (intro Suc.hyps(1)) auto
  then show ?case using year_length [of "z - 1"] by (simp split: if_splits)
qed simp

lemma days_before_year_strict: "y < z \<Longrightarrow> days_before_year y + 365 \<le> days_before_year z"
  using days_before_year_mono [of "y + 1" z] year_length [of y] by (simp split: if_splits)

lemma days_before_month_step:
  assumes "1 \<le> m" "m \<le> 12"
  shows "days_before_month y (nat (m + 1)) = days_before_month y (nat m) + days_in_month y m"
proof -
  obtain k where k: "nat m = Suc k" using assms by (cases "nat m") auto
  then have "nat (m + 1) = Suc (Suc k)" "int (Suc k) = m" using assms by auto
  then show ?thesis using k by simp
qed

lemma days_before_month_12: "days_before_month y 12 + 31 = (if is_leap y then 366 else 365)"
  by (simp add: numeral_eq_Suc days_in_month_def)

lemma days_before_month_mono:
  assumes "1 \<le> m" "m \<le> k" "k \<le> 13"
  shows "days_before_month y (nat m) \<le> days_before_month y (nat k)"
  using assms
proof (induction "nat (k - m)" arbitrary: k)
  case (Suc n)
  have "days_before_month y (nat m) \<le> days_before_month y (nat (k - 1))"
    using Suc by (intro Suc.hyps(1)) auto
  also have "\<dots> \<le> days_before_month y (nat k)"
    using days_before_month_step [of "k - 1" y] Suc days_in_month_bounds [of y "k - 1"] by simp
  finally show ?case .
qed simp

lemma days_before_month_strict:
  assumes "1 \<le> m" "m < k" "k \<le> 12"
  shows "days_before_month y (nat m) + days_in_month y m \<le> days_before_month y (nat k)"
  using days_before_month_mono [of "m + 1" k y] days_before_month_step [of m y] assms by simp

lemma valid_date_year:
  assumes "valid_date y m d"
  shows "days_before_year y < ordinal y m d" "ordinal y m d \<le> days_before_year (y + 1)"
proof -
  have m: "1 \<le> m" "m \<le> 12" "1 \<le> d" "d \<le> days_in_month y m" using assms by (auto simp: valid_date_def)
  have "0 \<le> days_before_month y (nat m)" using days_before_month_mono [of 1 m y] m by simp
  then show "days_before_year y < ordinal y m d" using m by (simp add: ordinal_def)
  have "days_before_month y (nat m) + days_in_month y m = days_before_month y (nat (m + 1))"
    using days_before_month_step m by simp
  also have "\<dots> \<le> days_before_month y 13" using days_before_month_mono [of "m + 1" 13 y] m by simp
  also have "days_before_month y 13 = (if is_leap y then 366 else 365)"
    using days_before_month_step [of 12 y] days_before_month_12 [of y] by (simp add: days_in_month_def)
  finally show "ordinal y m d \<le> days_before_year (y + 1)" using m by (simp add: ordinal_def year_length)
qed

section \<open>From ordinals back to dates\<close>

function year_up :: "int \<Rightarrow> int \<Rightarrow> int" where
  "year_up y n = (if n \<le> days_before_year (y + 1) then y else year_up (y + 1) n)"
  by pat_completeness auto

termination year_up
  apply (relation "measure (\<lambda>(y, n). nat (n - days_before_year (y + 1)))")
   apply simp
  subgoal for y n using days_before_year_strict [of "y + 1" "y + 1 + 1"] by simp
  done

declare year_up.simps [simp del]

definition year_of :: "int \<Rightarrow> int" where
  "year_of n = year_up ((n - 1) div 366 + 1) n"

function month_up :: "int \<Rightarrow> int \<Rightarrow> int \<Rightarrow> int \<times> int" where
  "month_up y m r = (if r \<le> days_in_month y m \<or> m \<ge> 12 then (m, r) else month_up y (m + 1) (r - days_in_month y m))"
  by pat_completeness auto

termination month_up
  by (relation "measure (\<lambda>(y, m, r). nat (12 - m))") auto

declare month_up.simps [simp del]

definition ymd :: "int \<Rightarrow> int \<times> int \<times> int" where
  "ymd n = (let y = year_of n in case month_up y 1 (n - days_before_year y) of (m, d) \<Rightarrow> (y, m, d))"

lemma year_up_range:
  "days_before_year y < n \<Longrightarrow> days_before_year (year_up y n) < n \<and> n \<le> days_before_year (year_up y n + 1)"
proof (induction y n rule: year_up.induct)
  case (1 y n)
  then show ?case by (cases "n \<le> days_before_year (y + 1)") (simp_all add: year_up.simps [of y n])
qed

lemma year_of_range:
  assumes "1 \<le> n"
  shows "days_before_year (year_of n) < n" "n \<le> days_before_year (year_of n + 1)"
proof -
  let ?q = "(n - 1) div 366"
  have q: "0 \<le> ?q" using assms by (simp add: pos_imp_zdiv_nonneg_iff)
  have "days_before_year (?q + 1) = ?q * 365 + ?q div 4 - ?q div 100 + ?q div 400"
    by (simp add: days_before_year_def)
  also have "\<dots> \<le> ?q * 366"
  proof -
    have "?q div 4 \<le> ?q" "?q div 400 \<le> ?q div 100" using q by (auto intro: zdiv_mono2 order_trans [OF zdiv_mono2 [of ?q 1 4]])
    then show ?thesis by simp
  qed
  also have "\<dots> \<le> n - 1" by (metis div_mult_mod_eq le_add_same_cancel1 mult.commute pos_mod_sign zero_less_numeral)
  finally have "days_before_year (?q + 1) < n" by simp
  then show "days_before_year (year_of n) < n" "n \<le> days_before_year (year_of n + 1)"
    using year_up_range unfolding year_of_def by blast+
qed

lemma year_of_ordinal: "valid_date y m d \<Longrightarrow> year_of (ordinal y m d) = y"
proof -
  assume v: "valid_date y m d"
  note r = valid_date_year [OF v]
  have "0 \<le> days_before_year y" using days_before_year_mono [of 1 y] v
    by (simp add: valid_date_def) (simp add: days_before_year_def)
  then have "1 \<le> ordinal y m d" using r by simp
  note s = year_of_range [OF this]
  show ?thesis
  proof (rule ccontr)
    assume "year_of (ordinal y m d) \<noteq> y"
    then consider "year_of (ordinal y m d) + 1 \<le> y" | "y + 1 \<le> year_of (ordinal y m d)" by linarith
    then show False
      by cases (use days_before_year_mono r s in fastforce)+
  qed
qed

lemma month_up_days:
  assumes "1 \<le> k" "k \<le> m" "m \<le> 12" "1 \<le> d" "d \<le> days_in_month y m"
  shows "month_up y k (days_before_month y (nat m) - days_before_month y (nat k) + d) = (m, d)"
  using assms
proof (induction "nat (m - k)" arbitrary: k)
  case 0
  then show ?case by (subst month_up.simps) simp
next
  case (Suc n)
  then have k: "k < m" by simp
  have "days_before_month y (nat k) + days_in_month y k \<le> days_before_month y (nat m)"
    using days_before_month_strict [of k m y] Suc.prems k by simp
  moreover have "month_up y (k + 1) (days_before_month y (nat m) - days_before_month y (nat (k + 1)) + d) = (m, d)"
    using Suc k by (intro Suc.hyps(1)) auto
  ultimately show ?case
    using Suc.prems k days_before_month_step [of k y]
    by (subst month_up.simps) (simp add: algebra_simps)
qed

theorem ymd_ordinal: "valid_date y m d \<Longrightarrow> ymd (ordinal y m d) = (y, m, d)"
proof -
  assume v: "valid_date y m d"
  then have "month_up y 1 (days_before_month y (nat m) - days_before_month y (nat 1) + d) = (m, d)"
    by (intro month_up_days) (auto simp: valid_date_def)
  then show ?thesis using year_of_ordinal [OF v] by (simp add: ymd_def ordinal_def)
qed

definition day_us :: int where "day_us = 86400 * 1000000"

definition weekday :: "int \<Rightarrow> int" where "weekday n = (n + 6) mod 7"

end
