(* ===== verification/Text.thy ===== *)
theory Text
  imports Json Calendar
begin

text \<open>
  The string handling the entity code shares: stripping, decimal digits, zero padding, SQL
  quoting, and the fallible results of code that raises application errors.
\<close>

section \<open>Results\<close>

datatype entity_error =
    Attribute_Invalid string
  | Row_Invalid string
  | Table_Name_Invalid
  | Type_Error
  | Value_Error
  | Key_Error
  | Overflow_Error
  | Assertion_Error
  | Decimal_Invalid

type_synonym 'a fallible = "entity_error + 'a"

definition ok_bind :: "'e + 'a \<Rightarrow> ('a \<Rightarrow> 'e + 'b) \<Rightarrow> 'e + 'b" where
  "ok_bind r f = (case r of Inl e \<Rightarrow> Inl e | Inr x \<Rightarrow> f x)"

lemma ok_bind_simps [simp]: "ok_bind (Inl e) f = Inl e" "ok_bind (Inr x) f = f x"
  by (simp_all add: ok_bind_def)

lemma ok_bind_Inr [opt_simps]: "ok_bind r f = Inr y \<longleftrightarrow> (\<exists>x. r = Inr x \<and> f x = Inr y)"
  by (cases r) simp_all

primrec map_ok :: "('a \<Rightarrow> 'e + 'b) \<Rightarrow> 'a list \<Rightarrow> 'e + 'b list" where
  "map_ok f [] = Inr []"
| "map_ok f (x # xs) = ok_bind (f x) (\<lambda>y. ok_bind (map_ok f xs) (\<lambda>ys. Inr (y # ys)))"

lemma map_ok_Inr [opt_simps]: "map_ok f xs = Inr ys \<longleftrightarrow> list_all2 (\<lambda>x y. f x = Inr y) xs ys"
  by (induction xs arbitrary: ys) (auto simp: opt_simps list_all2_Cons1)

section \<open>Characters and digits\<close>

definition is_space :: "char \<Rightarrow> bool" where
  "is_space c = (let n = (of_char c :: nat) in 9 \<le> n \<and> n \<le> 13 \<or> 28 \<le> n \<and> n \<le> 32 \<or> n = 133 \<or> n = 160)"

definition py_strip :: "string \<Rightarrow> string" where
  "py_strip s = rev (dropWhile is_space (rev (dropWhile is_space s)))"

text \<open>\<open>split(c)\<close> and \<open>split(c, 1)\<close>, the latter when the separator occurs.\<close>

fun split_on :: "char \<Rightarrow> string \<Rightarrow> string list" where
  "split_on c [] = [[]]"
| "split_on c (x # xs) =
     (if x = c then [] # split_on c xs
      else case split_on c xs of [] \<Rightarrow> [[x]] | w # ws \<Rightarrow> (x # w) # ws)"

definition split_once :: "char \<Rightarrow> string \<Rightarrow> (string \<times> string) option" where
  "split_once c s = (if c \<in> set s then Some (takeWhile (\<lambda>x. x \<noteq> c) s, tl (dropWhile (\<lambda>x. x \<noteq> c) s)) else None)"

lemma split_on_some: "split_on c s \<noteq> []"
  by (cases s) (auto split: list.splits)

definition join :: "string \<Rightarrow> string list \<Rightarrow> string" where
  "join sep xs = (case xs of [] \<Rightarrow> [] | y # ys \<Rightarrow> y @ concat (map (\<lambda>z. sep @ z) ys))"

lemma split_on_prefix: "c \<notin> set x \<Longrightarrow> split_on c (x @ s) = (x @ hd (split_on c s)) # tl (split_on c s)"
proof (induction x)
  case Nil
  then show ?case using split_on_some [of c s] by simp
next
  case (Cons y x)
  then have "y \<noteq> c" by auto
  then show ?case using Cons by simp
qed

lemma split_join: "\<forall>x \<in> set xs. c \<notin> set x \<Longrightarrow> xs \<noteq> [] \<Longrightarrow> split_on c (join [c] xs) = xs"
proof (induction xs rule: induct_list012)
  case (2 x)
  then show ?case using split_on_prefix [of c x "[]"] by (simp add: join_def)
next
  case (3 x y xs)
  have "join [c] (x # y # xs) = x @ c # join [c] (y # xs)" by (simp add: join_def)
  moreover have "split_on c (join [c] (y # xs)) = y # xs" using 3 by simp
  ultimately show ?case using split_on_prefix [of c x "c # join [c] (y # xs)"] 3(3) by simp
qed simp

definition is_digit :: "char \<Rightarrow> bool" where
  "is_digit c = (let n = (of_char c :: nat) in 48 \<le> n \<and> n \<le> 57)"

definition is_lower :: "char \<Rightarrow> bool" where
  "is_lower c = (let n = (of_char c :: nat) in 97 \<le> n \<and> n \<le> 122)"

definition is_upper :: "char \<Rightarrow> bool" where
  "is_upper c = (let n = (of_char c :: nat) in 65 \<le> n \<and> n \<le> 90)"

definition is_hex :: "char \<Rightarrow> bool" where
  "is_hex c = (let n = (of_char c :: nat) in 48 \<le> n \<and> n \<le> 57 \<or> 97 \<le> n \<and> n \<le> 102)"

definition digit_val :: "char \<Rightarrow> nat" where
  "digit_val c = of_char c - 48"

definition nat_of_digits :: "string \<Rightarrow> nat" where
  "nat_of_digits s = foldl (\<lambda>n c. n * 10 + digit_val c) 0 s"

lemma digit_char [simp]: "n < 10 \<Longrightarrow> is_digit (char_of (48 + n :: nat))" "n < 10 \<Longrightarrow> digit_val (char_of (48 + n :: nat)) = n"
  by (simp_all add: is_digit_def digit_val_def)

lemma nat_of_digits_snoc: "nat_of_digits (s @ [c]) = nat_of_digits s * 10 + digit_val c"
  by (simp add: nat_of_digits_def)

lemma nat_of_str_nat [simp]: "nat_of_digits (str_nat n) = n"
proof (induction n rule: str_nat.induct)
  case (1 n)
  show ?case
  proof (cases "n < 10")
    case True
    then show ?thesis by (simp add: str_nat.simps [of n] nat_of_digits_def)
  next
    case False
    then show ?thesis using 1 by (simp add: str_nat.simps [of n] nat_of_digits_snoc)
  qed
qed

lemma str_nat_digits: "str_nat n \<noteq> [] \<and> list_all is_digit (str_nat n)"
proof (induction n rule: str_nat.induct)
  case (1 n)
  then show ?case by (cases "n < 10") (simp_all add: str_nat.simps [of n])
qed

lemma str_nat_inject [simp]: "str_nat m = str_nat n \<longleftrightarrow> m = n"
  by (metis nat_of_str_nat)

text \<open>Zero padding to a width, as \<open>%02d\<close>.\<close>

definition pad :: "nat \<Rightarrow> nat \<Rightarrow> string" where
  "pad w n = (let s = str_nat n in replicate (w - length s) (CHR ''0'') @ s)"

lemma digit_val_less: "is_digit c \<Longrightarrow> digit_val c < 10"
  by (auto simp: is_digit_def digit_val_def Let_def)

lemma char_digit_val: "is_digit c \<Longrightarrow> char_of (48 + digit_val c) = c"
  by (simp add: is_digit_def digit_val_def Let_def)

lemma nat_of_digits_bound: "list_all is_digit s \<Longrightarrow> nat_of_digits s < 10 ^ length s"
proof (induction s rule: rev_induct)
  case (snoc c s)
  then have "nat_of_digits s < 10 ^ length s" "digit_val c < 10" using digit_val_less by auto
  then show ?case by (simp add: nat_of_digits_snoc)
qed (simp add: nat_of_digits_def)

lemma str_nat_length: "n < 10 ^ w \<Longrightarrow> w \<noteq> 0 \<Longrightarrow> length (str_nat n) \<le> w"
proof (induction n arbitrary: w rule: str_nat.induct)
  case (1 n)
  show ?case
  proof (cases "n < 10")
    case True
    then show ?thesis using 1 by (simp add: str_nat.simps [of n])
  next
    case False
    have "w \<noteq> 1" using False 1 by auto
    then obtain v where w: "w = Suc v" "v \<noteq> 0" using 1(3) by (metis One_nat_def old.nat.exhaust)
    then have "n div 10 < 10 ^ v" using 1 by (simp add: div_less_iff_less_mult mult.commute)
    then show ?thesis using 1 False w by (simp add: str_nat.simps [of n])
  qed
qed

lemma pad_length: "n < 10 ^ w \<Longrightarrow> w \<noteq> 0 \<Longrightarrow> length (pad w n) = w"
  using str_nat_length [of n w] by (simp add: pad_def Let_def)

lemma nat_of_zeros: "nat_of_digits (replicate k (CHR ''0'') @ s) = nat_of_digits s"
  by (induction k) (simp_all add: nat_of_digits_def digit_val_def)

lemma nat_of_pad [simp]: "nat_of_digits (pad w n) = n"
  by (simp add: pad_def Let_def nat_of_zeros)

lemma pad_digits: "list_all is_digit (pad w n)"
  using str_nat_digits [of n] by (auto simp: pad_def Let_def list_all_iff is_digit_def)

lemma digit_zero: "char_of (48 :: nat) = CHR ''0''"
  by code_simp

text \<open>Padding is the inverse of reading the digits.\<close>

lemma pad_nat_of_digits: "list_all is_digit s \<Longrightarrow> s \<noteq> [] \<Longrightarrow> pad (length s) (nat_of_digits s) = s"
proof (induction s rule: rev_induct)
  case (snoc c s)
  have c: "is_digit c" "list_all is_digit s" using snoc.prems by simp_all
  note d = digit_val_less [OF c(1)] char_digit_val [OF c(1)]
  show ?case
  proof (cases "s = []")
    case True
    then show ?thesis using d by (simp add: nat_of_digits_def pad_def str_nat.simps)
  next
    case False
    note ih = snoc.IH [OF c(2) False]
    show ?thesis
    proof (cases "nat_of_digits s = 0")
      case True
      then have "s = replicate (length s - 1) (CHR ''0'') @ ''0''" using ih digit_zero by (simp add: pad_def str_nat.simps [of 0])
      then have "s = replicate (length s) (CHR ''0'')"
        using False by (metis length_greater_0_conv replicate_append_same replicate_Suc Suc_diff_1)
      then show ?thesis using True d by (simp add: nat_of_digits_snoc pad_def str_nat.simps [of "digit_val c"] digit_zero)
    next
      case nz: False
      then have "str_nat (nat_of_digits s * 10 + digit_val c) = str_nat (nat_of_digits s) @ [c]"
        using d by (simp add: str_nat.simps [of "nat_of_digits s * 10 + digit_val c"])
      then show ?thesis using ih by (simp add: nat_of_digits_snoc pad_def Let_def)
    qed
  qed
qed simp

section \<open>Quoting\<close>

definition quoted :: "string \<Rightarrow> string" where
  "quoted s = CHR 0x27 # s @ [CHR 0x27]"

text \<open>\<open>value.replace("'", "''")\<close>\<close>

definition sql_escape :: "string \<Rightarrow> string" where
  "sql_escape s = concat (map (\<lambda>c. if c = CHR 0x27 then [c, c] else [c]) s)"

definition sql_quote :: "string \<Rightarrow> string" where
  "sql_quote s = quoted (sql_escape s)"

text \<open>The lexer of a standard-conforming SQL server: the text of the string constant at the
  start of the input and the input after it.\<close>

fun sql_lex :: "string \<Rightarrow> (string \<times> string) option" where
  "sql_lex [] = None"
| "sql_lex (c # cs) =
     (if c \<noteq> CHR 0x27 then map_option (\<lambda>(t, r). (c # t, r)) (sql_lex cs)
      else (case cs of
          d # ds \<Rightarrow> if d = CHR 0x27 then map_option (\<lambda>(t, r). (c # t, r)) (sql_lex ds) else Some ([], cs)
        | [] \<Rightarrow> Some ([], [])))"

definition sql_string :: "string \<Rightarrow> (string \<times> string) option" where
  "sql_string s = (case s of c # cs \<Rightarrow> if c = CHR 0x27 then sql_lex cs else None | [] \<Rightarrow> None)"

text \<open>Quoting is read back exactly, whatever follows that is not another quote: no value can end
  the constant early.\<close>

lemma sql_lex_escape:
  assumes "rest = [] \<or> hd rest \<noteq> CHR 0x27"
  shows "sql_lex (sql_escape s @ CHR 0x27 # rest) = Some (s, rest)"
proof (induction s)
  case Nil
  then show ?case using assms by (cases rest) (simp_all add: sql_escape_def)
next
  case (Cons c s)
  then show ?case by (simp add: sql_escape_def)
qed

lemma sql_string_quote:
  "rest = [] \<or> hd rest \<noteq> CHR 0x27 \<Longrightarrow> sql_string (sql_quote s @ rest) = Some (s, rest)"
  by (simp add: sql_string_def sql_quote_def quoted_def sql_lex_escape)

end
