(* ===== verification/Attribute_Type.thy ===== *)
theory Attribute_Type
  imports Text "HOL-Library.Sublist"
begin

text \<open>
  The closed set of attribute types of \<open>backend/entity/attribute_type\<close>: the row codec
  (\<open>codec.py\<close>), and per type its configuration, physical column, operators and the classes of
  its configuration changes (\<open>types.py\<close>).

  A configuration integer is a JSON value, so the code's tests for other types stay tests; a float
  is the rational that Python prints for it; a decimal is a coefficient and an exponent. The ISO
  8601 parser of the standard library (\<open>datetime.fromisoformat\<close>) is the parameter \<open>iso8601\<close>: local
  microseconds and the UTC offset, if the text has one.
\<close>

section \<open>Values\<close>

record attribute =
  at_name :: string
  at_type :: string
  at_required :: bool
  at_unique :: bool
  at_indexed :: bool
  at_business_key :: bool
  at_description :: "string option"
  at_max_length :: "json option"
  at_precision :: "json option"
  at_scale :: "json option"
  at_dictionary_id :: "string option"
  at_target_entity_id :: "string option"
  at_codes :: "string list option"
  at_reference_key_type :: "string option"
  at_reference_max_length :: "int option"
  at_attribute_id :: "string option"

datatype dec = Dec int int

datatype cell =
    C_Str string
  | C_Int int
  | C_Dec dec
  | C_Float rat
  | C_Bool bool
  | C_Date int
  | C_Stamp int
  | C_Time int
  | C_Json json

type_synonym iso_parser = "string \<Rightarrow> (int \<times> int option) option"

definition attr_text :: "attribute \<Rightarrow> string \<Rightarrow> string" where
  "attr_text a t = ''Attribute '' @ quoted (at_name a) @ CHR '' '' # t"

definition row_error :: "attribute \<Rightarrow> string \<Rightarrow> 'b fallible" where
  "row_error a t = Inl (Row_Invalid (attr_text a t))"

definition attr_error :: "attribute \<Rightarrow> string \<Rightarrow> 'b fallible" where
  "attr_error a t = Inl (Attribute_Invalid (attr_text a t))"

section \<open>Encoding\<close>

definition encode_string :: "attribute \<Rightarrow> json \<Rightarrow> cell fallible" where
  "encode_string a raw =
     (case raw of
        JStr s \<Rightarrow> (case at_max_length a of
            None \<Rightarrow> Inl Assertion_Error
          | Some (JInt m) \<Rightarrow>
              if int (length s) > m then row_error a (''exceeds max_length '' @ str_int m) else Inr (C_Str s)
          | Some _ \<Rightarrow> Inl Type_Error)
      | _ \<Rightarrow> row_error a ''must be a string'')"

definition encode_text :: "attribute \<Rightarrow> json \<Rightarrow> cell fallible" where
  "encode_text a raw = (case raw of JStr s \<Rightarrow> Inr (C_Str s) | _ \<Rightarrow> row_error a ''must be a string'')"

definition bigint_min :: int where "bigint_min = - (2 ^ 63)"
definition bigint_max :: int where "bigint_max = 2 ^ 63 - 1"

definition encode_bigint :: "attribute \<Rightarrow> json \<Rightarrow> cell fallible" where
  "encode_bigint a raw =
     (case raw of
        JInt n \<Rightarrow> if n < bigint_min \<or> n > bigint_max then row_error a ''is out of BIGINT range'' else Inr (C_Int n)
      | _ \<Rightarrow> row_error a ''must be an integer'')"

text \<open>
  \<open>Decimal(text)\<close>: a finite number, a special value, or not a number. \<open>Decimal(str(f))\<close> of a float
  has the digits of its shortest form: one place for an integral value below 1e16, no trailing
  zeros otherwise.
\<close>

datatype parsed = Bad_Number | Special_Number | Finite_Number dec

definition lower :: "string \<Rightarrow> string" where
  "lower s = map (\<lambda>c. if is_upper c then char_of (of_char c + 32 :: nat) else c) s"

definition special_number :: "string \<Rightarrow> bool" where
  "special_number s =
     (let t = lower s in
      t = ''inf'' \<or> t = ''infinity'' \<or>
      take 3 t = ''nan'' \<and> list_all is_digit (drop 3 t) \<or> take 4 t = ''snan'' \<and> list_all is_digit (drop 4 t))"

definition parse_exponent :: "string \<Rightarrow> int option" where
  "parse_exponent s =
     (case s of
        [] \<Rightarrow> Some 0
      | e # t \<Rightarrow>
          if e \<noteq> CHR ''e'' \<and> e \<noteq> CHR ''E'' then None
          else (let neg = (take 1 t = ''-''); u = (if take 1 t \<in> {''-'', ''+''} then drop 1 t else t) in
            if u = [] \<or> \<not> list_all is_digit u then None
            else Some (if neg then - int (nat_of_digits u) else int (nat_of_digits u))))"

definition parse_decimal :: "string \<Rightarrow> parsed" where
  "parse_decimal text =
     (let s = filter (\<lambda>c. c \<noteq> CHR ''_'') (py_strip text);
          neg = (take 1 s = ''-'');
          b = (if take 1 s \<in> {''-'', ''+''} then drop 1 s else s);
          ip = takeWhile is_digit b; r = dropWhile is_digit b;
          point = (take 1 r = ''.'');
          fp = (if point then takeWhile is_digit (drop 1 r) else []);
          r2 = (if point then dropWhile is_digit (drop 1 r) else r)
      in if ip = [] \<and> fp = [] then (if special_number b then Special_Number else Bad_Number)
         else (case parse_exponent r2 of
             None \<Rightarrow> Bad_Number
           | Some e \<Rightarrow> (let coef = int (nat_of_digits (ip @ fp)) in
               Finite_Number (Dec (if neg then - coef else coef) (e - int (length fp))))))"

fun places_up :: "nat \<Rightarrow> int \<Rightarrow> nat \<Rightarrow> nat" where
  "places_up 0 b k = k"
| "places_up (Suc f) b k = (if 10 ^ k mod b = 0 then k else places_up f b (Suc k))"

fun strip_zeros :: "nat \<Rightarrow> int \<Rightarrow> int \<Rightarrow> dec" where
  "strip_zeros 0 c e = Dec c e"
| "strip_zeros (Suc f) c e = (if c \<noteq> 0 \<and> c mod 10 = 0 then strip_zeros f (c div 10) (e + 1) else Dec c e)"

definition dec_of_float :: "rat \<Rightarrow> dec" where
  "dec_of_float r =
     (case quotient_of r of (a, b) \<Rightarrow>
        if b = 1 then (if \<bar>a\<bar> < 10 ^ 16 then Dec (10 * a) (-1) else strip_zeros 400 a 0)
        else (let k = places_up 400 b 0 in Dec (a * (10 ^ k div b)) (- int k)))"

definition dec_digits :: "dec \<Rightarrow> nat" where
  "dec_digits d = (case d of Dec c e \<Rightarrow> length (str_nat (nat \<bar>c\<bar>)))"

text \<open>\<open>value.quantize(Decimal(1).scaleb(-scale))\<close> for a value with at most \<open>scale\<close> places, in the
  default context of 28 digits.\<close>

definition quantize :: "dec \<Rightarrow> int \<Rightarrow> dec fallible" where
  "quantize d scale =
     (case d of Dec c e \<Rightarrow>
        (let q = Dec (c * 10 ^ nat (e + scale)) (- scale)
         in if dec_digits q > 28 then Inl Decimal_Invalid else Inr q))"

definition encode_decimal :: "attribute \<Rightarrow> json \<Rightarrow> cell fallible" where
  "encode_decimal a raw =
     (case (at_precision a, at_scale a) of
        (Some (JInt p), Some (JInt sc)) \<Rightarrow>
          (case (case raw of
               JStr s \<Rightarrow> parse_decimal s
             | JInt n \<Rightarrow> Finite_Number (Dec n 0)
             | JFloat r \<Rightarrow> Finite_Number (dec_of_float r)
             | _ \<Rightarrow> Bad_Number) of
             Bad_Number \<Rightarrow> row_error a ''must be a decimal''
           | Special_Number \<Rightarrow> row_error a ''must be finite''
           | Finite_Number (Dec c e) \<Rightarrow>
               (let scale = (if e < 0 then - e else 0); precision = int (dec_digits (Dec c e)) in
                if scale > sc \<or> precision > p then row_error a ''exceeds precision/scale''
                else ok_bind (quantize (Dec c e) sc) (\<lambda>q. Inr (C_Dec q))))
      | (Some _, Some _) \<Rightarrow> Inl Type_Error
      | _ \<Rightarrow> Inl Assertion_Error)"

text \<open>\<open>float(n)\<close>: round half to even to 53 bits.\<close>

fun bit_len :: "nat \<Rightarrow> nat" where
  "bit_len n = (if n = 0 then 0 else Suc (bit_len (n div 2)))"

declare bit_len.simps [simp del]

definition round53 :: "nat \<Rightarrow> nat" where
  "round53 n =
     (let k = bit_len n - 53; q = n div 2 ^ k; r = n mod 2 ^ k in
      (if 2 * r > 2 ^ k \<or> (2 * r = 2 ^ k \<and> odd q) then q + 1 else q) * 2 ^ k)"

definition float_of_int :: "int \<Rightarrow> rat fallible" where
  "float_of_int n =
     (let m = round53 (nat \<bar>n\<bar>) in
      if m \<ge> 2 ^ 1024 then Inl Overflow_Error else Inr (if n < 0 then - of_nat m else of_nat m))"

definition encode_number :: "attribute \<Rightarrow> json \<Rightarrow> cell fallible" where
  "encode_number a raw =
     (case raw of
        JInt n \<Rightarrow> ok_bind (float_of_int n) (\<lambda>r. Inr (C_Float r))
      | JFloat r \<Rightarrow> Inr (C_Float r)
      | _ \<Rightarrow> row_error a ''must be a number'')"

definition encode_boolean :: "attribute \<Rightarrow> json \<Rightarrow> cell fallible" where
  "encode_boolean a raw = (case raw of JBool b \<Rightarrow> Inr (C_Bool b) | _ \<Rightarrow> row_error a ''must be a boolean'')"

definition parse_date :: "string \<Rightarrow> int option" where
  "parse_date s =
     (let y = take 4 s; m = take 2 (drop 5 s); d = take 2 (drop 8 s);
          year = int (nat_of_digits y); month = int (nat_of_digits m); day = int (nat_of_digits d)
      in if length s = 10 \<and> s ! 4 = CHR ''-'' \<and> s ! 7 = CHR ''-'' \<and> list_all is_digit (y @ m @ d) \<and> valid_date year month day
         then Some (ordinal year month day) else None)"

definition encode_date :: "attribute \<Rightarrow> json \<Rightarrow> cell fallible" where
  "encode_date a raw =
     (case raw of
        JStr s \<Rightarrow> (case parse_date s of Some n \<Rightarrow> Inr (C_Date n) | None \<Rightarrow> row_error a ''must be YYYY-MM-DD'')
      | _ \<Rightarrow> row_error a ''must be YYYY-MM-DD'')"

text \<open>\<open>parse_instant\<close> of \<open>core/time.py\<close>: the conversion to UTC raises \<open>OverflowError\<close>, which is not a \<open>ValueError\<close>,
  when the instant leaves the years 1 to 9999.\<close>

datatype instant_error = Not_Instant | No_Offset | Out_Of_Range

definition instant_min :: int where "instant_min = day_us"
definition instant_end :: int where "instant_end = 3652060 * day_us"

definition parse_instant :: "iso_parser \<Rightarrow> string \<Rightarrow> instant_error + int" where
  "parse_instant iso8601 value =
     (let t = py_strip value;
          u = (if t \<noteq> [] \<and> last t \<in> {CHR ''Z'', CHR ''z''} then butlast t @ ''+00:00'' else t)
      in case iso8601 u of
           None \<Rightarrow> Inl Not_Instant
         | Some (us, None) \<Rightarrow> Inl No_Offset
         | Some (us, Some offset) \<Rightarrow>
             if us - offset < instant_min \<or> us - offset \<ge> instant_end then Inl Out_Of_Range else Inr (us - offset))"

definition encode_timestamp :: "iso_parser \<Rightarrow> attribute \<Rightarrow> json \<Rightarrow> cell fallible" where
  "encode_timestamp iso8601 a raw =
     (case raw of
        JStr s \<Rightarrow> (case parse_instant iso8601 s of
            Inr us \<Rightarrow> Inr (C_Stamp us)
          | Inl No_Offset \<Rightarrow> row_error a ''timestamp must include an offset''
          | Inl Not_Instant \<Rightarrow> row_error a ''must be an RFC 3339 timestamp''
          | Inl Out_Of_Range \<Rightarrow> Inl Overflow_Error)
      | _ \<Rightarrow> row_error a ''must be an RFC 3339 timestamp'')"

definition two_digits :: "string \<Rightarrow> nat \<Rightarrow> nat option" where
  "two_digits s bound =
     (if length s = 2 \<and> list_all is_digit s \<and> nat_of_digits s < bound then Some (nat_of_digits s) else None)"

definition parse_time :: "string \<Rightarrow> int option" where
  "parse_time s =
     (case (two_digits (take 2 s) 24, two_digits (take 2 (drop 3 s)) 60) of
        (Some h, Some mi) \<Rightarrow>
          (let base = (int h * 60 + int mi) * 60 in
           if s ! 2 \<noteq> CHR '':'' then None
           else if length s = 5 then Some (base * 1000000)
           else (case two_digits (take 2 (drop 6 s)) 60 of
               None \<Rightarrow> None
             | Some sec \<Rightarrow>
                 if s ! 5 \<noteq> CHR '':'' then None
                 else if length s = 8 then Some ((base + int sec) * 1000000)
                 else (let f = drop 9 s in
                   if s ! 8 = CHR ''.'' \<and> f \<noteq> [] \<and> length f \<le> 6 \<and> list_all is_digit f
                   then Some ((base + int sec) * 1000000 + int (nat_of_digits f) * 10 ^ (6 - length f))
                   else None)))
      | _ \<Rightarrow> None)"

definition encode_time :: "attribute \<Rightarrow> json \<Rightarrow> cell fallible" where
  "encode_time a raw =
     (case raw of
        JStr s \<Rightarrow> (case parse_time s of Some us \<Rightarrow> Inr (C_Time us) | None \<Rightarrow> row_error a ''must be HH:MM[:SS[.ffffff]]'')
      | _ \<Rightarrow> row_error a ''must be HH:MM[:SS[.ffffff]]'')"

definition encode_json :: "attribute \<Rightarrow> json \<Rightarrow> cell fallible" where
  "encode_json a raw = Inr (C_Json raw)"

definition encode_dictionary :: "attribute \<Rightarrow> json \<Rightarrow> string list option \<Rightarrow> bool \<Rightarrow> cell fallible" where
  "encode_dictionary a raw codes as_filter =
     (case raw of
        JStr s \<Rightarrow>
          if s \<notin> set (case codes of None \<Rightarrow> [] | Some cs \<Rightarrow> cs)
          then row_error a (if as_filter then ''filter code is not in the head snapshot'' else ''code is not writable'')
          else Inr (C_Str s)
      | _ \<Rightarrow> row_error a (if as_filter then ''filter value must be a string'' else ''must be a string code''))"

definition user_id_max_length :: nat where "user_id_max_length = 64"

definition encode_user :: "attribute \<Rightarrow> json \<Rightarrow> cell fallible" where
  "encode_user a raw =
     (case raw of
        JStr s \<Rightarrow>
          if s = [] then row_error a ''must be a User id string''
          else if length s > user_id_max_length
          then row_error a (''User id exceeds '' @ str_nat user_id_max_length @ '' characters'')
          else Inr (C_Str s)
      | _ \<Rightarrow> row_error a ''must be a User id string'')"

section \<open>Decoding\<close>

text \<open>What a stored value of the column's type becomes in a response; a float of the column is finite.\<close>

definition dec_text :: "dec \<Rightarrow> string" where
  "dec_text d =
     (case d of Dec c e \<Rightarrow>
        (let sign = (if c < 0 then ''-'' else []); digits = str_nat (nat \<bar>c\<bar>) in
         if e \<ge> 0 then sign @ (if c = 0 then digits else digits @ replicate (nat e) (CHR ''0''))
         else (let k = nat (- e); padded = replicate (Suc k - length digits) (CHR ''0'') @ digits
               in sign @ take (length padded - k) padded @ CHR ''.'' # drop (length padded - k) padded)))"

definition date_text :: "int \<Rightarrow> string" where
  "date_text n = (case ymd n of (y, m, d) \<Rightarrow> pad 4 (nat y) @ ''-'' @ pad 2 (nat m) @ ''-'' @ pad 2 (nat d))"

definition clock_text :: "int \<Rightarrow> string" where
  "clock_text s = pad 2 (nat (s div 3600)) @ '':'' @ pad 2 (nat (s div 60 mod 60)) @ '':'' @ pad 2 (nat (s mod 60))"

definition time_text :: "int \<Rightarrow> string" where
  "time_text us =
     clock_text (us div 1000000) @ (if us mod 1000000 = 0 then [] else ''.'' @ pad 6 (nat (us mod 1000000)))"

text \<open>\<open>format_instant(value, timespec="seconds")\<close>: the microseconds are cut off.\<close>

definition format_instant :: "int \<Rightarrow> string" where
  "format_instant us = date_text (us div day_us) @ ''T'' @ clock_text (us mod day_us div 1000000) @ ''Z''"

datatype codec =
    Co_String | Co_Text | Co_Bigint | Co_Decimal | Co_Number | Co_Boolean | Co_Date | Co_Timestamp
  | Co_Time | Co_Json | Co_Dictionary | Co_User

definition run_encode :: "iso_parser \<Rightarrow> codec \<Rightarrow> attribute \<Rightarrow> json \<Rightarrow> string list option \<Rightarrow> bool \<Rightarrow> cell fallible" where
  "run_encode iso8601 co a raw codes as_filter =
     (case co of
        Co_String \<Rightarrow> encode_string a raw
      | Co_Text \<Rightarrow> encode_text a raw
      | Co_Bigint \<Rightarrow> encode_bigint a raw
      | Co_Decimal \<Rightarrow> encode_decimal a raw
      | Co_Number \<Rightarrow> encode_number a raw
      | Co_Boolean \<Rightarrow> encode_boolean a raw
      | Co_Date \<Rightarrow> encode_date a raw
      | Co_Timestamp \<Rightarrow> encode_timestamp iso8601 a raw
      | Co_Time \<Rightarrow> encode_time a raw
      | Co_Json \<Rightarrow> encode_json a raw
      | Co_Dictionary \<Rightarrow> encode_dictionary a raw codes as_filter
      | Co_User \<Rightarrow> encode_user a raw)"

text \<open>The decoders by the kind of cell; \<open>None\<close>: no column of that type holds such a value.\<close>

definition run_decode :: "codec \<Rightarrow> cell \<Rightarrow> json option" where
  "run_decode co v =
     (case v of
        C_Str s \<Rightarrow> if co \<in> {Co_String, Co_Text, Co_Dictionary, Co_User} then Some (JStr s) else None
      | C_Int n \<Rightarrow> if co = Co_Bigint then Some (JInt n) else None
      | C_Dec d \<Rightarrow> if co = Co_Decimal then Some (JStr (dec_text d)) else None
      | C_Float r \<Rightarrow> if co = Co_Number then Some (JFloat r) else None
      | C_Bool b \<Rightarrow> if co = Co_Boolean then Some (JBool b) else None
      | C_Date n \<Rightarrow> if co = Co_Date then Some (JStr (date_text n)) else None
      | C_Stamp us \<Rightarrow> if co = Co_Timestamp then Some (JStr (format_instant us)) else None
      | C_Time us \<Rightarrow> if co = Co_Time then Some (JStr (time_text us)) else None
      | C_Json j \<Rightarrow> if co = Co_Json then Some j else None)"

end
