(* ===== verification/Attribute_Catalog.thy ===== *)
theory Attribute_Catalog
  imports Attribute_Type
begin

text \<open>
  The attribute type objects of \<open>types.py\<close> and the stored form of attributes
  (\<open>entity/records.py\<close>). A type object is a record; the methods a subclass overrides are functions
  that branch on its name.
\<close>

section \<open>Type objects\<close>

record config_limit =
  cl_name :: string
  cl_kind :: string
  cl_minimum :: "int option"
  cl_maximum :: "int option"
  cl_at_most :: "string option"

record attr_kind =
  ak_name :: string
  ak_operators :: "string list"
  ak_template :: string
  ak_bare :: string
  ak_codec :: codec
  ak_upsert_key :: bool
  ak_reads :: "string list"
  ak_config_keys :: "string list"
  ak_limits :: "config_limit list"

datatype change_class = Breaking | Non_Breaking | Unchanged

record config_change =
  cc_suffix :: string
  cc_old :: json
  cc_new :: json
  cc_class :: change_class

definition string_max_length_min :: int where "string_max_length_min = 1"
definition string_max_length_max :: int where "string_max_length_max = 65535"
definition decimal_precision_min :: int where "decimal_precision_min = 1"
definition decimal_precision_max :: int where "decimal_precision_max = 1000"

definition config_field_order :: "string list" where
  "config_field_order = [''max_length'', ''precision'', ''scale'', ''dictionary_id'', ''target_entity_id'']"

definition ops_eq_ne_null :: "string list" where "ops_eq_ne_null = [''eq'', ''ne'', ''is_null'']"
definition ops_eq_ne_in_null :: "string list" where "ops_eq_ne_in_null = [''eq'', ''ne'', ''in'', ''is_null'']"
definition ops_contains :: "string list" where "ops_contains = [''eq'', ''ne'', ''in'', ''contains'', ''is_null'']"
definition ops_cmp :: "string list" where
  "ops_cmp = [''eq'', ''ne'', ''in'', ''gt'', ''gte'', ''lt'', ''lte'', ''is_null'']"

definition simple_kind :: "string \<Rightarrow> string list \<Rightarrow> string \<Rightarrow> codec \<Rightarrow> attr_kind" where
  "simple_kind name ops template co =
     \<lparr>ak_name = name, ak_operators = ops, ak_template = template, ak_bare = template, ak_codec = co,
      ak_upsert_key = True, ak_reads = [], ak_config_keys = [], ak_limits = []\<rparr>"

definition limit :: "string \<Rightarrow> string \<Rightarrow> int option \<Rightarrow> int option \<Rightarrow> string option \<Rightarrow> config_limit" where
  "limit n k lo hi m = \<lparr>cl_name = n, cl_kind = k, cl_minimum = lo, cl_maximum = hi, cl_at_most = m\<rparr>"

definition string_kind :: attr_kind where
  "string_kind =
     (simple_kind ''string'' ops_contains ''VARCHAR({max_length})'' Co_String)
       \<lparr>ak_bare := ''VARCHAR'', ak_config_keys := [''max_length''],
        ak_limits := [limit ''max_length'' ''int'' (Some string_max_length_min) (Some string_max_length_max) None]\<rparr>"

definition decimal_kind :: attr_kind where
  "decimal_kind =
     (simple_kind ''decimal'' ops_cmp ''NUMERIC({precision},{scale})'' Co_Decimal)
       \<lparr>ak_bare := ''NUMERIC'', ak_config_keys := [''precision'', ''scale''],
        ak_limits := [limit ''precision'' ''int'' (Some decimal_precision_min) (Some decimal_precision_max) None,
                      limit ''scale'' ''int'' (Some 0) (Some decimal_precision_max) (Some ''precision'')]\<rparr>"

definition dictionary_kind :: attr_kind where
  "dictionary_kind =
     (simple_kind ''dictionary'' ops_eq_ne_in_null ''VARCHAR(64)'' Co_Dictionary)
       \<lparr>ak_reads := [''dictionary''], ak_config_keys := [''dictionary_id''],
        ak_limits := [limit ''dictionary_id'' ''string'' None None None]\<rparr>"

definition reference_kind :: attr_kind where
  "reference_kind =
     (simple_kind ''reference'' ops_cmp ''VARCHAR | BIGINT'' Co_Bigint)
       \<lparr>ak_reads := [''target''], ak_config_keys := [''target_entity_id''],
        ak_limits := [limit ''target_entity_id'' ''string'' None None None]\<rparr>"

definition attr_kinds :: "attr_kind list" where
  "attr_kinds =
     [string_kind,
      simple_kind ''text'' ops_contains ''TEXT'' Co_Text,
      simple_kind ''integer'' ops_cmp ''BIGINT'' Co_Bigint,
      decimal_kind,
      (simple_kind ''number'' ops_cmp ''DOUBLE PRECISION'' Co_Number)\<lparr>ak_upsert_key := False\<rparr>,
      simple_kind ''boolean'' ops_eq_ne_null ''BOOLEAN'' Co_Boolean,
      simple_kind ''date'' ops_cmp ''DATE'' Co_Date,
      simple_kind ''timestamp'' ops_cmp ''TIMESTAMPTZ'' Co_Timestamp,
      simple_kind ''time'' ops_cmp ''TIME'' Co_Time,
      (simple_kind ''json'' ops_eq_ne_null ''JSONB'' Co_Json)\<lparr>ak_upsert_key := False\<rparr>,
      dictionary_kind,
      reference_kind,
      (simple_kind ''user'' ops_eq_ne_in_null ''VARCHAR(64)'' Co_User)\<lparr>ak_reads := [''user'']\<rparr>]"

definition resolve :: "string option \<Rightarrow> attr_kind fallible" where
  "resolve name =
     (let key = (case name of None \<Rightarrow> [] | Some n \<Rightarrow> n) in
      case List.find (\<lambda>k. ak_name k = key) attr_kinds of
        Some k \<Rightarrow> Inr k
      | None \<Rightarrow> Inl (Attribute_Invalid
          (if key \<noteq> [] then ''Attribute type '' @ quoted key @ '' is not in the closed set''
           else ''Attribute type is required'')))"

section \<open>Configuration\<close>

fun has_config :: "attribute \<Rightarrow> string \<Rightarrow> bool" where
  "has_config a key =
     (if key = ''max_length'' then at_max_length a \<noteq> None
      else if key = ''precision'' then at_precision a \<noteq> None
      else if key = ''scale'' then at_scale a \<noteq> None
      else if key = ''dictionary_id'' then at_dictionary_id a \<noteq> None
      else at_target_entity_id a \<noteq> None)"

declare has_config.simps [simp del]

fun comma_list :: "string list \<Rightarrow> string" where
  "comma_list [] = []"
| "comma_list [x] = x"
| "comma_list (x # xs) = x @ '', '' @ comma_list xs"

definition reject_foreign :: "attribute \<Rightarrow> string \<Rightarrow> string list \<Rightarrow> unit fallible" where
  "reject_foreign a type_name allowed =
     (let foreign = filter (\<lambda>k. k \<notin> set allowed) (filter (has_config a) config_field_order) in
      if foreign \<noteq> [] then attr_error a (''of type '' @ type_name @ '' rejects config '' @ comma_list foreign)
      else Inr ())"

definition reset_config ::
  "attribute \<Rightarrow> json option \<Rightarrow> json option \<Rightarrow> json option \<Rightarrow> string option \<Rightarrow> string option \<Rightarrow> attribute" where
  "reset_config a ml p s d t =
     a\<lparr>at_max_length := ml, at_precision := p, at_scale := s, at_dictionary_id := d, at_target_entity_id := t,
       at_codes := None\<rparr>"

definition require_max_length :: "attribute \<Rightarrow> json fallible" where
  "require_max_length a =
     (case at_max_length a of
        None \<Rightarrow> attr_error a ''of type string requires max_length''
      | Some (JInt n) \<Rightarrow>
          if n < string_max_length_min \<or> n > string_max_length_max
          then attr_error a (''max_length must be between '' @ str_int string_max_length_min @ '' and '' @
                 str_int string_max_length_max @ '' (got '' @ str_int n @ '')'')
          else Inr (JInt n)
      | Some _ \<Rightarrow> attr_error a ''max_length must be an integer'')"

definition require_precision_scale :: "attribute \<Rightarrow> (json \<times> json) fallible" where
  "require_precision_scale a =
     (case (at_precision a, at_scale a) of
        (Some p, Some s) \<Rightarrow>
          (case p of
             JInt pn \<Rightarrow>
               (case s of
                  JInt sn \<Rightarrow>
                    if pn < decimal_precision_min \<or> pn > decimal_precision_max
                    then attr_error a (''decimal precision must be between '' @ str_int decimal_precision_min @ '' and '' @
                           str_int decimal_precision_max @ '' (got '' @ str_int pn @ '')'')
                    else if sn < 0 \<or> sn > pn
                    then attr_error a (''decimal scale must be between 0 and precision (got '' @ str_int sn @ '')'')
                    else Inr (p, s)
                | _ \<Rightarrow> attr_error a ''decimal scale must be an integer'')
           | _ \<Rightarrow> attr_error a ''decimal precision must be an integer'')
      | _ \<Rightarrow> attr_error a ''of type decimal requires precision and scale'')"

definition stripped_id :: "string option \<Rightarrow> string" where
  "stripped_id v = py_strip (case v of None \<Rightarrow> [] | Some s \<Rightarrow> s)"

definition clean_string :: "attribute \<Rightarrow> attribute fallible" where
  "clean_string a = ok_bind (require_max_length a) (\<lambda>m. Inr (reset_config a (Some m) None None None None))"

definition clean_decimal :: "attribute \<Rightarrow> attribute fallible" where
  "clean_decimal a =
     ok_bind (require_precision_scale a) (\<lambda>(p, s). Inr (reset_config a None (Some p) (Some s) None None))"

definition clean_dictionary :: "attribute \<Rightarrow> attribute fallible" where
  "clean_dictionary a =
     (let d = stripped_id (at_dictionary_id a) in
      if d = [] then attr_error a ''of type dictionary requires dictionary_id''
      else Inr (reset_config a None None None (Some d) None))"

definition clean_reference :: "attribute \<Rightarrow> attribute fallible" where
  "clean_reference a =
     (let t = stripped_id (at_target_entity_id a) in
      if t = [] then attr_error a ''of type reference requires target_entity_id''
      else Inr (reset_config a None None None None (Some t)))"

definition clean_attr :: "attr_kind \<Rightarrow> attribute \<Rightarrow> attribute fallible" where
  "clean_attr k a =
     ok_bind (reject_foreign a (ak_name k) (ak_config_keys k)) (\<lambda>_.
       if ak_name k = ''string'' then clean_string a
       else if ak_name k = ''decimal'' then clean_decimal a
       else if ak_name k = ''dictionary'' then clean_dictionary a
       else if ak_name k = ''reference'' then clean_reference a
       else Inr (reset_config a None None None None None))"

lemmas clean_defs = clean_attr_def clean_string_def clean_decimal_def clean_dictionary_def clean_reference_def

text \<open>Configuration objects: the stored one of a definition, and the one of a request. Both give the
  fields to set on the record; \<open>_stored_int\<close>, \<open>_http_int\<close> and \<open>_stored_str\<close> check the types.\<close>

type_synonym config = "(string \<times> json) list"

definition stored_int :: "json option \<Rightarrow> json fallible" where
  "stored_int v =
     (case v of None \<Rightarrow> Inr JNull | Some JNull \<Rightarrow> Inr JNull | Some (JInt n) \<Rightarrow> Inr (JInt n) | Some _ \<Rightarrow> Inl Type_Error)"

definition stored_str :: "json option \<Rightarrow> json fallible" where
  "stored_str v =
     (case v of None \<Rightarrow> Inr JNull | Some JNull \<Rightarrow> Inr JNull | Some (JStr s) \<Rightarrow> Inr (JStr s) | Some _ \<Rightarrow> Inl Type_Error)"

definition http_int :: "string \<Rightarrow> string \<Rightarrow> json option \<Rightarrow> json fallible" where
  "http_int name key v =
     (case v of Some (JInt n) \<Rightarrow> Inr (JInt n)
      | _ \<Rightarrow> Inl (Attribute_Invalid (''Attribute '' @ quoted name @ CHR '' '' # key @ '' must be an integer'')))"

definition optional_key :: "config \<Rightarrow> string \<Rightarrow> (json option \<Rightarrow> json fallible) \<Rightarrow> config fallible" where
  "optional_key conf key check =
     (if key \<notin> fst ` set conf then Inr [] else ok_bind (check (map_of conf key)) (\<lambda>v. Inr [(key, v)]))"

text \<open>\<open>str(value)\<close> of a stored target id, for the values a stored id has.\<close>

definition text_of :: "json \<Rightarrow> string fallible" where
  "text_of v = (case v of JStr s \<Rightarrow> Inr s | JInt n \<Rightarrow> Inr (str_int n) | JBool b \<Rightarrow> Inr (if b then ''True'' else ''False'')
     | _ \<Rightarrow> Inl Type_Error)"

definition stored_string :: "config \<Rightarrow> config fallible" where
  "stored_string conf = optional_key conf ''max_length'' stored_int"

definition stored_decimal :: "config \<Rightarrow> config fallible" where
  "stored_decimal conf =
     ok_bind (optional_key conf ''precision'' stored_int) (\<lambda>p.
       ok_bind (optional_key conf ''scale'' stored_int) (\<lambda>s. Inr (p @ s)))"

definition stored_dictionary :: "config \<Rightarrow> config fallible" where
  "stored_dictionary conf = optional_key conf ''dictionary_id'' stored_str"

definition stored_reference :: "config \<Rightarrow> config fallible" where
  "stored_reference conf =
     (case map_of conf ''target_entity_id'' of
        None \<Rightarrow> Inr []
      | Some JNull \<Rightarrow> Inr []
      | Some v \<Rightarrow> ok_bind (text_of v) (\<lambda>t. Inr [(''target_entity_id'', JStr t)]))"

definition stored_fields :: "attr_kind \<Rightarrow> config \<Rightarrow> config fallible" where
  "stored_fields k conf =
     (if ak_name k = ''string'' then stored_string conf
      else if ak_name k = ''decimal'' then stored_decimal conf
      else if ak_name k = ''dictionary'' then stored_dictionary conf
      else if ak_name k = ''reference'' then stored_reference conf
      else Inr [])"

lemmas stored_defs = stored_fields_def stored_string_def stored_decimal_def stored_dictionary_def stored_reference_def

text \<open>A configuration value of a request that must be a string, stripped.\<close>

definition http_str :: "string \<Rightarrow> string \<Rightarrow> json option \<Rightarrow> json fallible" where
  "http_str name key v =
     (case v of Some (JStr s) \<Rightarrow> Inr (JStr (py_strip s))
      | _ \<Rightarrow> Inl (Attribute_Invalid (''Attribute '' @ quoted name @ CHR '' '' # key @ '' must be a string'')))"

definition parse_string :: "string \<Rightarrow> config \<Rightarrow> config fallible" where
  "parse_string name conf = optional_key conf ''max_length'' (http_int name ''max_length'')"

definition parse_decimal_config :: "string \<Rightarrow> config \<Rightarrow> config fallible" where
  "parse_decimal_config name conf =
     ok_bind (optional_key conf ''precision'' (http_int name ''precision'')) (\<lambda>p.
       ok_bind (optional_key conf ''scale'' (http_int name ''scale'')) (\<lambda>s. Inr (p @ s)))"

definition parse_dictionary :: "string \<Rightarrow> config \<Rightarrow> config fallible" where
  "parse_dictionary name conf = optional_key conf ''dictionary_id'' (http_str name ''dictionary_id'')"

definition parse_reference :: "string \<Rightarrow> config \<Rightarrow> config fallible" where
  "parse_reference name conf =
     optional_key conf ''target_entity_id''
       (\<lambda>v. if v = Some JNull then Inr JNull else http_str name ''target_entity_id'' v)"

definition parse_config :: "attr_kind \<Rightarrow> string \<Rightarrow> config \<Rightarrow> config fallible" where
  "parse_config k name conf =
     (if ak_name k = ''string'' then parse_string name conf
      else if ak_name k = ''decimal'' then parse_decimal_config name conf
      else if ak_name k = ''dictionary'' then parse_dictionary name conf
      else if ak_name k = ''reference'' then parse_reference name conf
      else Inr [])"

definition json_opt :: "json option \<Rightarrow> json" where
  "json_opt v = (case v of None \<Rightarrow> JNull | Some j \<Rightarrow> j)"

definition json_str_opt :: "string option \<Rightarrow> json" where
  "json_str_opt v = (case v of None \<Rightarrow> JNull | Some s \<Rightarrow> JStr s)"

definition config_payload :: "attr_kind \<Rightarrow> attribute \<Rightarrow> config" where
  "config_payload k a =
     (if ak_name k = ''string'' then [(''max_length'', json_opt (at_max_length a))]
      else if ak_name k = ''decimal''
      then [(''precision'', json_opt (at_precision a)), (''scale'', json_opt (at_scale a))]
      else if ak_name k = ''dictionary'' then [(''dictionary_id'', json_str_opt (at_dictionary_id a))]
      else if ak_name k = ''reference'' then [(''target_entity_id'', json_str_opt (at_target_entity_id a))]
      else [])"

section \<open>Physical columns\<close>

text \<open>\<open>physical_template.format(...)\<close> with the values of the named fields; a missing value is the failing assertion.\<close>

definition config_value :: "attribute \<Rightarrow> string \<Rightarrow> string option" where
  "config_value a key =
     (let v = (if key = ''max_length'' then at_max_length a else if key = ''precision'' then at_precision a
               else if key = ''scale'' then at_scale a else None) in
      case v of Some (JInt n) \<Rightarrow> Some (str_int n) | _ \<Rightarrow> None)"

function fill_template :: "(string \<Rightarrow> string option) \<Rightarrow> string \<Rightarrow> string fallible" where
  "fill_template f [] = Inr []"
| "fill_template f (c # cs) =
     (if c = CHR ''{''
      then (let name = takeWhile (\<lambda>x. x \<noteq> CHR ''}'') cs in
            case f name of
              None \<Rightarrow> Inl Assertion_Error
            | Some v \<Rightarrow> ok_bind (fill_template f (drop (Suc (length name)) cs)) (\<lambda>t. Inr (v @ t)))
      else ok_bind (fill_template f cs) (\<lambda>t. Inr (c # t)))"
  by pat_completeness auto
termination by (relation "measure (\<lambda>(f, s). length s)") auto

definition physical_sql :: "attr_kind \<Rightarrow> attribute \<Rightarrow> string fallible" where
  "physical_sql k a =
     (if ak_name k = ''reference''
      then (case at_reference_key_type a of
              Some t \<Rightarrow>
                if t = ''string''
                then Inr (''VARCHAR('' @ (case at_reference_max_length a of None \<Rightarrow> ''None'' | Some n \<Rightarrow> str_int n) @ '')'')
                else if t = ''integer'' then Inr ''BIGINT'' else Inl Key_Error
            | None \<Rightarrow> Inl Key_Error)
      else fill_template (config_value a) (ak_template k))"

definition check_predicate :: "attr_kind \<Rightarrow> attribute \<Rightarrow> string \<Rightarrow> string option fallible" where
  "check_predicate k a column =
     (if ak_name k \<noteq> ''dictionary'' then Inr None
      else (case at_codes a of
          None \<Rightarrow> Inl Value_Error
        | Some codes \<Rightarrow>
            if codes = [] then Inl Value_Error
            else Inr (Some (column @ '' IS NULL OR '' @ column @ '' IN ('' @ comma_list (map sql_quote codes) @ '')''))))"

definition encode_attr :: "iso_parser \<Rightarrow> attr_kind \<Rightarrow> attribute \<Rightarrow> json \<Rightarrow> string list option \<Rightarrow> bool \<Rightarrow> cell fallible" where
  "encode_attr iso8601 k a raw codes as_filter = run_encode iso8601 (ak_codec k) a raw codes as_filter"

definition decode_attr :: "attr_kind \<Rightarrow> cell \<Rightarrow> json option" where
  "decode_attr k v = run_decode (ak_codec k) v"

section \<open>Configuration changes\<close>

definition change :: "string \<Rightarrow> json \<Rightarrow> json \<Rightarrow> change_class \<Rightarrow> config_change" where
  "change sfx old new cls = \<lparr>cc_suffix = sfx, cc_old = old, cc_new = new, cc_class = cls\<rparr>"

definition widening :: "json option \<Rightarrow> json option \<Rightarrow> bool" where
  "widening old new = (case (old, new) of (Some (JInt m), Some (JInt n)) \<Rightarrow> n > m | _ \<Rightarrow> False)"

definition code_list :: "attribute \<Rightarrow> string list" where
  "code_list a = (case at_codes a of None \<Rightarrow> [] | Some cs \<Rightarrow> cs)"

definition json_strs :: "string list \<Rightarrow> json" where
  "json_strs xs = JArr (map JStr xs)"

definition codes_minus :: "string list \<Rightarrow> string list \<Rightarrow> string list" where
  "codes_minus xs ys = sort (remdups (filter (\<lambda>x. x \<notin> set ys) xs))"

definition dictionary_changes :: "attribute \<Rightarrow> attribute \<Rightarrow> config_change list" where
  "dictionary_changes before after =
     (let added = codes_minus (code_list after) (code_list before);
          removed = codes_minus (code_list before) (code_list after);
          same_codes = (set (code_list before) = set (code_list after))
      in if same_codes \<and> at_dictionary_id before = at_dictionary_id after then []
         else [change ''config.dictionary''
            (JObj [(''dictionary_id'', json_str_opt (at_dictionary_id before)), (''codes'', json_strs (code_list before))])
            (JObj [(''dictionary_id'', json_str_opt (at_dictionary_id after)), (''codes'', json_strs (code_list after)),
                   (''added'', json_strs added), (''removed'', json_strs removed)])
            (if same_codes then Unchanged else if removed = [] then Non_Breaking else Breaking)])"

definition string_changes :: "attribute \<Rightarrow> attribute \<Rightarrow> config_change list" where
  "string_changes before after =
     (if at_max_length before = at_max_length after then []
      else [change ''config.max_length'' (json_opt (at_max_length before)) (json_opt (at_max_length after))
             (if widening (at_max_length before) (at_max_length after) then Non_Breaking else Breaking)])"

definition decimal_changes :: "attribute \<Rightarrow> attribute \<Rightarrow> config_change list" where
  "decimal_changes before after =
     (if at_precision before = at_precision after then []
      else [change ''config.precision'' (json_opt (at_precision before)) (json_opt (at_precision after)) Breaking]) @
     (if at_scale before = at_scale after then []
      else [change ''config.scale'' (json_opt (at_scale before)) (json_opt (at_scale after)) Breaking])"

definition reference_changes :: "attribute \<Rightarrow> attribute \<Rightarrow> config_change list" where
  "reference_changes before after =
     (if at_target_entity_id before = at_target_entity_id after then []
      else [change ''config.target_entity_id'' (json_str_opt (at_target_entity_id before))
             (json_str_opt (at_target_entity_id after)) Breaking])"

definition config_changes :: "attr_kind \<Rightarrow> attribute \<Rightarrow> attribute \<Rightarrow> config_change list" where
  "config_changes k before after =
     (if ak_name k = ''string'' then string_changes before after
      else if ak_name k = ''decimal'' then decimal_changes before after
      else if ak_name k = ''dictionary'' then dictionary_changes before after
      else if ak_name k = ''reference'' then reference_changes before after
      else [])"

lemmas changes_defs = config_changes_def string_changes_def decimal_changes_def reference_changes_def

definition json_int_opt :: "int option \<Rightarrow> json" where
  "json_int_opt v = (case v of None \<Rightarrow> JNull | Some n \<Rightarrow> JInt n)"

definition export_catalog :: "json list" where
  "export_catalog =
     map (\<lambda>k. JObj [(''name'', JStr (ak_name k)),
        (''config'', JArr (map (\<lambda>l. JObj [(''name'', JStr (cl_name l)), (''kind'', JStr (cl_kind l)),
            (''minimum'', json_int_opt (cl_minimum l)), (''maximum'', json_int_opt (cl_maximum l)),
            (''at_most'', json_str_opt (cl_at_most l))]) (ak_limits k))),
        (''physical'', JObj [(''template'', JStr (ak_template k)), (''bare'', JStr (ak_bare k))])]) attr_kinds"

section \<open>Stored attributes\<close>

definition attribute_to_dict :: "attribute \<Rightarrow> (string \<times> json) list fallible" where
  "attribute_to_dict a =
     ok_bind (resolve (Some (at_type a))) (\<lambda>k. Inr
       [(''name'', JStr (at_name a)), (''type'', JStr (at_type a)), (''required'', JBool (at_required a)),
        (''unique'', JBool (at_unique a)), (''indexed'', JBool (at_indexed a)),
        (''business_key'', JBool (at_business_key a)), (''description'', json_str_opt (at_description a)),
        (''config'', JObj (config_payload k a))])"

definition attribute_to_stored :: "attribute \<Rightarrow> (string \<times> json) list fallible" where
  "attribute_to_stored a =
     ok_bind (attribute_to_dict a) (\<lambda>d. Inr (case at_attribute_id a of
         None \<Rightarrow> d | Some i \<Rightarrow> AList.update ''attribute_id'' (JStr i) d))"

text \<open>\<open>bool(payload.get(key, False))\<close>, and a field of the configuration given as a keyword argument.\<close>

definition truthy :: "json option \<Rightarrow> bool" where
  "truthy v = (case v of None \<Rightarrow> False | Some JNull \<Rightarrow> False | Some (JBool b) \<Rightarrow> b | Some (JInt n) \<Rightarrow> n \<noteq> 0
     | Some (JFloat r) \<Rightarrow> r \<noteq> 0 | Some (JStr s) \<Rightarrow> s \<noteq> [] | Some (JArr xs) \<Rightarrow> xs \<noteq> [] | Some (JObj kvs) \<Rightarrow> kvs \<noteq> [])"

definition int_field :: "config \<Rightarrow> string \<Rightarrow> json option" where
  "int_field conf key = (case map_of conf key of Some JNull \<Rightarrow> None | v \<Rightarrow> v)"

definition str_field :: "config \<Rightarrow> string \<Rightarrow> string option" where
  "str_field conf key = (case map_of conf key of Some (JStr s) \<Rightarrow> Some s | _ \<Rightarrow> None)"

definition attribute_from_dict :: "(string \<times> json) list \<Rightarrow> attribute fallible" where
  "attribute_from_dict payload =
     (case map_of payload ''type'' of
        None \<Rightarrow> Inl Key_Error
      | Some ty \<Rightarrow>
          (case map_of payload ''config'' of
             Some (JObj conf) \<Rightarrow>
               ok_bind (text_of ty) (\<lambda>type_name.
                 ok_bind (case map_of payload ''name'' of None \<Rightarrow> Inl Key_Error | Some n \<Rightarrow> text_of n) (\<lambda>name.
                   ok_bind (resolve (Some type_name)) (\<lambda>k.
                     ok_bind (stored_fields k conf) (\<lambda>fs. Inr
                       \<lparr>at_name = name, at_type = type_name, at_required = truthy (map_of payload ''required''),
                        at_unique = truthy (map_of payload ''unique''), at_indexed = truthy (map_of payload ''indexed''),
                        at_business_key = truthy (map_of payload ''business_key''),
                        at_description = str_field payload ''description'',
                        at_max_length = int_field fs ''max_length'', at_precision = int_field fs ''precision'',
                        at_scale = int_field fs ''scale'', at_dictionary_id = str_field fs ''dictionary_id'',
                        at_target_entity_id = str_field fs ''target_entity_id'', at_codes = None,
                        at_reference_key_type = None, at_reference_max_length = None,
                        at_attribute_id = str_field payload ''attribute_id''\<rparr>))))
           | _ \<Rightarrow> Inl Type_Error))"

end
