(* ===== verification/Entity_Shape.thy ===== *)
theory Entity_Shape
  imports Attribute_Catalog "HOL-Library.Product_Lexorder"
begin

text \<open>
  Business Entity definitions: write validation (\<open>entity/validate.py\<close>), the lifecycle queries over
  the versions (\<open>lifecycle.py\<close>), the classification of a proposed shape against the current one
  (\<open>classify.py\<close>), physical names (\<open>table_name.py\<close>) and the DDL text (\<open>ddl.py\<close>). The dictionary
  and entity stores are functions from ids, the SHA-1 prefix of a long name is the parameter \<open>digest\<close>.
\<close>

section \<open>Write validation\<close>

definition ident_char :: "char \<Rightarrow> bool" where
  "ident_char c = (is_lower c \<or> is_digit c \<or> c = CHR ''_'')"

definition is_ident :: "string \<Rightarrow> bool" where
  "is_ident s = (s \<noteq> [] \<and> is_lower (hd s) \<and> list_all ident_char s)"

text \<open>\<open>^.+__v[0-9]+__[0-9a-f]{16}$\<close>, read from the end: 16 hexadecimal digits, two underscores, the
  digits of the version, \<open>__v\<close>, and at least one character before.\<close>

definition physical_tail :: "string \<Rightarrow> string option" where
  "physical_tail r =
     (let hex = take 16 r; r1 = drop 16 r; r2 = drop 2 r1; r3 = dropWhile is_digit r2
      in if length hex = 16 \<and> list_all is_hex hex \<and> take 2 r1 = ''__'' \<and> takeWhile is_digit r2 \<noteq> [] \<and> take 3 r3 = ''v__''
         then Some (drop 3 r3) else None)"

definition is_physical_table :: "string \<Rightarrow> bool" where
  "is_physical_table s =
     (case physical_tail (rev s) of None \<Rightarrow> False | Some stem \<Rightarrow> stem \<noteq> [] \<and> CHR 0x0A \<notin> set stem)"

definition name_max :: nat where "name_max = 63"

definition row_id_column :: string where "row_id_column = ''row_id''"

definition require_table_name :: "string \<Rightarrow> string fallible" where
  "require_table_name name =
     (let cleaned = py_strip name in
      if cleaned = [] \<or> length cleaned > name_max \<or> \<not> is_ident cleaned \<or> is_physical_table cleaned
      then Inl Table_Name_Invalid else Inr cleaned)"

definition require_attribute_name :: "string \<Rightarrow> string fallible" where
  "require_attribute_name name =
     (let cleaned = py_strip name in
      if cleaned = [] then Inl (Attribute_Invalid ''Attribute name is required'')
      else if length cleaned > name_max
      then Inl (Attribute_Invalid (''Attribute name must be at most '' @ str_nat name_max @ '' characters''))
      else if \<not> is_ident cleaned
      then Inl (Attribute_Invalid (''Attribute name must start with a letter and use only a-z, 0-9, and underscore (got ''
             @ quoted cleaned @ '')''))
      else if cleaned = row_id_column
      then Inl (Attribute_Invalid (''Attribute name '' @ quoted row_id_column @ '' is reserved for the platform primary key''))
      else Inr cleaned)"

definition require_attribute_type :: "string \<Rightarrow> string fallible" where
  "require_attribute_type ty = (let cleaned = py_strip ty in ok_bind (resolve (Some cleaned)) (\<lambda>_. Inr cleaned))"

definition clean_description :: "string option \<Rightarrow> string option" where
  "clean_description d =
     (case d of None \<Rightarrow> None | Some s \<Rightarrow> if py_strip s \<noteq> [] then Some (py_strip s) else Some s)"

definition validate_attribute :: "attribute \<Rightarrow> string \<Rightarrow> attribute fallible" where
  "validate_attribute a name =
     ok_bind (require_attribute_type (at_type a)) (\<lambda>ty.
       ok_bind (resolve (Some ty)) (\<lambda>k.
         clean_attr k (a\<lparr>at_name := name, at_type := ty, at_description := clean_description (at_description a)\<rparr>)))"

primrec shape_loop :: "string list \<Rightarrow> attribute list \<Rightarrow> attribute list fallible" where
  "shape_loop seen [] = Inr []"
| "shape_loop seen (a # as) =
     ok_bind (require_attribute_name (at_name a)) (\<lambda>name.
       if name \<in> set seen
       then Inl (Attribute_Invalid (''Attribute name '' @ quoted name @ '' is already used in this version''))
       else ok_bind (validate_attribute a name) (\<lambda>b. ok_bind (shape_loop (name # seen) as) (\<lambda>bs. Inr (b # bs))))"

definition require_business_key :: "attribute list \<Rightarrow> unit fallible" where
  "require_business_key attrs =
     (case filter at_business_key attrs of
        [] \<Rightarrow> Inr ()
      | [a] \<Rightarrow>
          if at_type a \<notin> {''string'', ''integer''}
          then attr_error a ''business_key requires type string or integer''
          else if \<not> at_unique a \<or> \<not> at_required a
          then attr_error a ''business_key requires unique and required''
          else Inr ()
      | _ \<Rightarrow> Inl (Attribute_Invalid ''A version has at most one business_key''))"

definition validate_shape :: "attribute list \<Rightarrow> attribute list fallible" where
  "validate_shape attrs =
     ok_bind (shape_loop [] attrs) (\<lambda>cleaned. ok_bind (require_business_key cleaned) (\<lambda>_. Inr cleaned))"

definition reference_self :: string where "reference_self = ''self''"

definition bind_reference_self :: "attribute list \<Rightarrow> string \<Rightarrow> attribute list fallible" where
  "bind_reference_self attrs entity_id =
     map_ok (\<lambda>a. ok_bind (resolve (Some (at_type a))) (\<lambda>k.
        Inr (if ''target'' \<in> set (ak_reads k) \<and> stripped_id (at_target_entity_id a) = reference_self
             then a\<lparr>at_target_entity_id := Some entity_id\<rparr> else a))) attrs"

text \<open>\<open>entities i\<close>: whether the entity \<open>i\<close> is deprecated, if it exists.\<close>

primrec require_reference_targets :: "(string \<Rightarrow> bool option) \<Rightarrow> attribute list \<Rightarrow> string \<Rightarrow> unit fallible" where
  "require_reference_targets entities [] entity_id = Inr ()"
| "require_reference_targets entities (a # as) entity_id =
     ok_bind (resolve (Some (at_type a))) (\<lambda>k.
       let target = (case at_target_entity_id a of None \<Rightarrow> [] | Some t \<Rightarrow> t) in
       if ''target'' \<notin> set (ak_reads k) \<or> target = entity_id then require_reference_targets entities as entity_id
       else (case entities target of
           None \<Rightarrow> Inl (Attribute_Invalid (''Attribute target_entity_id '' @ quoted target @ '' does not name an existing entity''))
         | Some deprecated \<Rightarrow>
             if deprecated
             then Inl (Attribute_Invalid (''Attribute target_entity_id '' @ quoted target @ '' names a deprecated entity''))
             else require_reference_targets entities as entity_id))"

section \<open>Versions\<close>

record entity_version =
  ev_id :: string
  ev_version :: int
  ev_attributes :: "attribute list"
  ev_materialized :: "(string \<times> json) list list"
  ev_publish_status :: string
  ev_dictionary_snapshots :: "(string \<times> json) list"

definition any_publishing :: "entity_version list \<Rightarrow> bool" where
  "any_publishing vs = list_ex (\<lambda>v. ev_publish_status v = ''publishing'') vs"

definition ever_published :: "entity_version list \<Rightarrow> bool" where
  "ever_published vs = list_ex (\<lambda>v. ev_publish_status v = ''published'') vs"

text \<open>\<open>max(xs, key=...)\<close>: the first of the greatest.\<close>

primrec max_by :: "('a \<Rightarrow> 'b::linorder) \<Rightarrow> 'a \<Rightarrow> 'a list \<Rightarrow> 'a" where
  "max_by key best [] = best"
| "max_by key best (x # xs) = max_by key (if key best < key x then x else best) xs"

definition version_key :: "entity_version \<Rightarrow> int \<times> string" where
  "version_key v = (ev_version v, ev_id v)"

definition current_version_of :: "entity_version list \<Rightarrow> entity_version option" where
  "current_version_of vs = (case vs of [] \<Rightarrow> None | v # rest \<Rightarrow> Some (max_by version_key v rest))"

definition latest_published_of :: "entity_version list \<Rightarrow> entity_version option" where
  "latest_published_of vs = current_version_of (filter (\<lambda>v. ev_publish_status v = ''published'') vs)"

definition entity_list_status :: "bool \<Rightarrow> entity_version list \<Rightarrow> string" where
  "entity_list_status deprecated vs =
     (if deprecated then ''deprecated'' else if ever_published vs then ''serving'' else ''not_serving'')"

definition entity_list_statuses :: "string set" where
  "entity_list_statuses = {''not_serving'', ''serving'', ''deprecated''}"

definition status_filter_selection :: "string list option \<Rightarrow> string set option" where
  "status_filter_selection statuses =
     (case statuses of None \<Rightarrow> None | Some ss \<Rightarrow> if set ss = entity_list_statuses then None else Some (set ss))"

definition table_present :: "entity_version \<Rightarrow> bool" where
  "table_present v = (ev_materialized v \<noteq> [])"

definition published_attributes :: "entity_version \<Rightarrow> attribute list fallible" where
  "published_attributes v =
     (if table_present v then map_ok attribute_from_dict (ev_materialized v) else Inr (ev_attributes v))"

text \<open>\<open>s[:n]\<close> with Python's reading of a negative bound.\<close>

definition prefix_upto :: "int \<Rightarrow> string \<Rightarrow> string" where
  "prefix_upto n s = (if n \<ge> 0 then take (nat n) s else take (length s - nat (- n)) s)"

definition table_suffix :: "int \<Rightarrow> string \<Rightarrow> string" where
  "table_suffix version version_id = ''__v'' @ str_int version @ ''__'' @ version_id"

definition compose_physical_table_name :: "string \<Rightarrow> int \<Rightarrow> string \<Rightarrow> string \<times> string option" where
  "compose_physical_table_name stem version version_id =
     (let sfx = table_suffix version version_id in
      if length stem + length sfx \<le> name_max then (stem @ sfx, None)
      else (prefix_upto (int name_max - int (length sfx)) stem @ sfx, Some stem))"

definition physical_table_name :: "entity_version \<Rightarrow> string \<Rightarrow> string option" where
  "physical_table_name v stem =
     (if table_present v then Some (fst (compose_physical_table_name stem (ev_version v) (ev_id v))) else None)"

definition occupies_live_table :: "entity_version \<Rightarrow> entity_version option \<Rightarrow> bool" where
  "occupies_live_table v latest =
     (table_present v \<and> (case latest of None \<Rightarrow> False | Some w \<Rightarrow> ev_id v = ev_id w))"

section \<open>Classification\<close>

record shape_change =
  sc_field :: string
  sc_old :: json
  sc_new :: json
  sc_class :: change_class

type_synonym dictionaries = "string \<Rightarrow> (string \<times> bool) list option"

definition snapshot_for :: "(string \<times> json) list \<Rightarrow> string \<Rightarrow> (string \<times> json) list option" where
  "snapshot_for snapshots name =
     (case map_of snapshots name of
        Some (JObj kvs) \<Rightarrow> if truthy (map_of kvs ''dictionary_id'') then Some kvs else None
      | _ \<Rightarrow> None)"

definition bind_codes :: "dictionaries \<Rightarrow> (string \<times> json) list \<Rightarrow> bool \<Rightarrow> attribute \<Rightarrow> attribute fallible" where
  "bind_codes dicts snapshots use_snapshot a =
     ok_bind (resolve (Some (at_type a))) (\<lambda>k.
       if ''dictionary'' \<notin> set (ak_reads k) then Inr a
       else (case (if use_snapshot then snapshot_for snapshots (at_name a) else None) of
           Some snap \<Rightarrow>
             ok_bind (text_of (json_opt (map_of snap ''dictionary_id''))) (\<lambda>d.
               ok_bind (case map_of snap ''codes'' of Some (JArr cs) \<Rightarrow> map_ok text_of cs | _ \<Rightarrow> Inr []) (\<lambda>codes.
                 Inr (a\<lparr>at_dictionary_id := Some d, at_codes := Some codes\<rparr>)))
         | None \<Rightarrow>
             (let d = (case at_dictionary_id a of None \<Rightarrow> [] | Some d \<Rightarrow> d) in
              case dicts d of
                None \<Rightarrow> attr_error a (''dictionary_id '' @ quoted d @ '' does not name a dictionary'')
              | Some entries \<Rightarrow> Inr (a\<lparr>at_codes := Some (map fst (filter snd entries))\<rparr>))))"

definition bind_dictionary_codes ::
  "dictionaries \<Rightarrow> attribute list \<Rightarrow> entity_version list \<Rightarrow> bool \<Rightarrow> attribute list fallible" where
  "bind_dictionary_codes dicts attrs versions use_snapshot =
     map_ok (bind_codes dicts
        (case latest_published_of versions of None \<Rightarrow> [] | Some v \<Rightarrow> ev_dictionary_snapshots v) use_snapshot) attrs"

definition shape_change_of :: "string \<Rightarrow> json \<Rightarrow> json \<Rightarrow> change_class \<Rightarrow> shape_change" where
  "shape_change_of fld old new cls = \<lparr>sc_field = fld, sc_old = old, sc_new = new, sc_class = cls\<rparr>"

definition flag_change ::
  "string \<Rightarrow> (attribute \<Rightarrow> bool) \<Rightarrow> (bool \<Rightarrow> change_class) \<Rightarrow> attribute \<Rightarrow> attribute \<Rightarrow> shape_change list" where
  "flag_change fld get cls before after =
     (if get before = get after then []
      else [shape_change_of fld (JBool (get before)) (JBool (get after)) (cls (get after))])"

definition attribute_changes :: "attribute option \<Rightarrow> attribute option \<Rightarrow> shape_change list fallible" where
  "attribute_changes before after =
     (case (before, after) of
        (None, None) \<Rightarrow> Inl Assertion_Error
      | (None, Some b) \<Rightarrow> ok_bind (attribute_to_dict b) (\<lambda>d.
          Inr [shape_change_of (''attributes.'' @ at_name b) JNull (JObj d)
                 (if at_required b then Breaking else Non_Breaking)])
      | (Some a, None) \<Rightarrow> ok_bind (attribute_to_dict a) (\<lambda>d.
          Inr [shape_change_of (''attributes.'' @ at_name a) (JObj d) JNull Breaking])
      | (Some a, Some b) \<Rightarrow>
          (let px = ''attributes.'' @ at_name a in
           if at_type a \<noteq> at_type b
           then Inr [shape_change_of (px @ ''.type'') (JStr (at_type a)) (JStr (at_type b)) Breaking]
           else ok_bind (resolve (Some (at_type a))) (\<lambda>k. Inr (
              map (\<lambda>c. shape_change_of (px @ CHR ''.'' # cc_suffix c) (cc_old c) (cc_new c) (cc_class c)) (config_changes k a b) @
              flag_change (px @ ''.required'') at_required (\<lambda>r. if r then Breaking else Non_Breaking) a b @
              flag_change (px @ ''.unique'') at_unique (\<lambda>_. Non_Breaking) a b @
              flag_change (px @ ''.business_key'') at_business_key (\<lambda>_. Breaking) a b @
              flag_change (px @ ''.indexed'') at_indexed (\<lambda>_. Non_Breaking) a b @
              (if at_description a = at_description b then []
               else [shape_change_of (px @ ''.description'') (json_str_opt (at_description a))
                       (json_str_opt (at_description b)) Unchanged])))))"

definition roll_up :: "shape_change list \<Rightarrow> change_class" where
  "roll_up changes =
     (if Breaking \<in> sc_class ` set changes then Breaking
      else if Non_Breaking \<in> sc_class ` set changes then Non_Breaking else Unchanged)"

definition by_name :: "attribute list \<Rightarrow> (string \<times> attribute) list" where
  "by_name attrs = py_dict (map (\<lambda>a. (at_name a, a)) attrs)"

definition compare_shapes :: "attribute list \<Rightarrow> attribute list \<Rightarrow> (change_class \<times> shape_change list) fallible" where
  "compare_shapes before after =
     (let names = sort (remdups (map fst (by_name before) @ map fst (by_name after))) in
      ok_bind (map_ok (\<lambda>n. attribute_changes (map_of (by_name before) n) (map_of (by_name after) n)) names)
        (\<lambda>css. Inr (roll_up (concat css), concat css)))"

definition classify_shapes ::
  "dictionaries \<Rightarrow> attribute list \<Rightarrow> attribute list \<Rightarrow> entity_version list \<Rightarrow> (change_class \<times> shape_change list) fallible" where
  "classify_shapes dicts before after versions =
     ok_bind (bind_dictionary_codes dicts before versions True) (\<lambda>b.
       ok_bind (bind_dictionary_codes dicts after versions False) (\<lambda>a. compare_shapes b a))"

end
