(* ===== verification/Entity_Ddl.thy ===== *)
theory Entity_Ddl
  imports Entity_Shape
begin

text \<open>
  The DDL text of an entity table (\<open>entity/ddl.py\<close>). \<open>digest\<close> stands for the hexadecimal SHA-1 of a
  name; everything else is string building, with the errors \<open>ident\<close> and the type objects raise.
\<close>

definition entity_data_schema :: string where "entity_data_schema = ''entity_data''"
definition entity_owner_role :: string where "entity_owner_role = ''refraq_entity_owner''"
definition exposure_owner_role :: string where "exposure_owner_role = ''refraq_exposure_owner''"
definition reader_role :: string where "reader_role = ''refraq_reader''"
definition exposure_policy :: string where "exposure_policy = ''refraq_exposure_read''"
definition owner_policy :: string where "owner_policy = ''refraq_owner_write''"

definition dquoted :: "string \<Rightarrow> string" where
  "dquoted s = CHR 0x22 # s @ [CHR 0x22]"

definition row_id_sql :: string where
  "row_id_sql = dquoted row_id_column @ '' BIGINT GENERATED BY DEFAULT AS IDENTITY PRIMARY KEY''"

section \<open>Identifiers\<close>

definition ident_start :: "char \<Rightarrow> bool" where
  "ident_start c = (is_upper c \<or> is_lower c \<or> c = CHR ''_'')"

text \<open>\<open>^[A-Za-z_][A-Za-z0-9_]*$\<close>: the dollar also matches before a line feed at the end.\<close>

definition sql_ident :: "string \<Rightarrow> bool" where
  "sql_ident s =
     (let t = (if s \<noteq> [] \<and> last s = CHR 0x0A then butlast s else s)
      in t \<noteq> [] \<and> ident_start (hd t) \<and> list_all (\<lambda>c. ident_start c \<or> is_digit c) t)"

definition ident :: "string \<Rightarrow> string fallible" where
  "ident name = (if \<not> sql_ident name then Inl Value_Error else Inr (dquoted name))"

definition qualified_table :: "string \<Rightarrow> string \<Rightarrow> string fallible" where
  "qualified_table schema table =
     ok_bind (ident schema) (\<lambda>s. ok_bind (ident table) (\<lambda>t. Inr (s @ ''.'' @ t)))"

definition bounded_name :: "(string \<Rightarrow> string) \<Rightarrow> string \<Rightarrow> string \<Rightarrow> string \<Rightarrow> string" where
  "bounded_name digest kind table column =
     (let raw = kind @ ''_'' @ table @ ''_'' @ column in
      if length raw \<le> name_max then raw
      else (let px = kind @ ''_'' @ take 8 (digest raw) @ ''_''
            in px @ prefix_upto (int name_max - int (length px)) column))"

definition unique_constraint_name :: "(string \<Rightarrow> string) \<Rightarrow> string \<Rightarrow> string \<Rightarrow> string" where
  "unique_constraint_name digest table column = bounded_name digest ''uq'' table column"

definition index_name :: "(string \<Rightarrow> string) \<Rightarrow> string \<Rightarrow> string \<Rightarrow> string" where
  "index_name digest table column = bounded_name digest ''ix'' table column"

section \<open>Statements\<close>

definition column_sql :: "(string \<Rightarrow> string) \<Rightarrow> attribute \<Rightarrow> string \<Rightarrow> string fallible" where
  "column_sql digest a table =
     ok_bind (resolve (Some (at_type a))) (\<lambda>k.
       ok_bind (physical_sql k a) (\<lambda>physical.
         ok_bind (ident (at_name a)) (\<lambda>col.
           ok_bind (check_predicate k a col) (\<lambda>predicate.
             ok_bind (case predicate of
                 None \<Rightarrow> Inr []
               | Some p \<Rightarrow> if p = [] then Inr [] else
                   ok_bind (ident (bounded_name digest ''ck'' table (at_name a))) (\<lambda>c.
                     Inr ('' CONSTRAINT '' @ c @ '' CHECK ('' @ p @ '')''))) (\<lambda>check.
               Inr (col @ '' '' @ physical @ (if at_required a then '' NOT NULL'' else []) @ check))))))"

definition attr_wants_index :: "attribute \<Rightarrow> bool" where
  "attr_wants_index a = (at_indexed a \<and> \<not> at_unique a)"

definition table_security_statements :: "string \<Rightarrow> string \<Rightarrow> string list fallible" where
  "table_security_statements schema table =
     ok_bind (qualified_table schema table) (\<lambda>q.
       let owner = dquoted entity_owner_role; reader = dquoted reader_role; exposure = dquoted exposure_owner_role in
       Inr [''ALTER TABLE '' @ q @ '' OWNER TO '' @ owner,
         ''REVOKE ALL ON '' @ q @ '' FROM PUBLIC'',
         ''REVOKE ALL ON '' @ q @ '' FROM '' @ reader,
         ''ALTER TABLE '' @ q @ '' ENABLE ROW LEVEL SECURITY'',
         ''ALTER TABLE '' @ q @ '' FORCE ROW LEVEL SECURITY'',
         ''CREATE POLICY '' @ dquoted exposure_policy @ '' ON '' @ q @ '' AS PERMISSIVE FOR SELECT TO '' @ exposure @
           '' USING (true)'',
         ''CREATE POLICY '' @ dquoted owner_policy @ '' ON '' @ q @ '' AS PERMISSIVE FOR ALL TO '' @ owner @
           '' USING (true) WITH CHECK (true)'',
         ''GRANT SELECT ON '' @ q @ '' TO '' @ exposure])"

definition view_security_statements :: "string \<Rightarrow> string \<Rightarrow> string list fallible" where
  "view_security_statements schema view =
     ok_bind (qualified_table schema view) (\<lambda>q. Inr
       [''ALTER VIEW '' @ q @ '' OWNER TO '' @ dquoted entity_owner_role,
        ''REVOKE ALL ON '' @ q @ '' FROM PUBLIC'',
        ''REVOKE ALL ON '' @ q @ '' FROM '' @ dquoted reader_role])"

definition create_index_sql :: "(string \<Rightarrow> string) \<Rightarrow> string \<Rightarrow> string \<Rightarrow> string \<Rightarrow> string fallible" where
  "create_index_sql digest schema table column =
     ok_bind (ident (index_name digest table column)) (\<lambda>i.
       ok_bind (qualified_table schema table) (\<lambda>q.
         ok_bind (ident column) (\<lambda>c. Inr (''CREATE INDEX '' @ i @ '' ON '' @ q @ '' ('' @ c @ '')''))))"

definition create_table_statements ::
  "(string \<Rightarrow> string) \<Rightarrow> string \<Rightarrow> string \<Rightarrow> attribute list \<Rightarrow> string list fallible" where
  "create_table_statements digest schema table attrs =
     ok_bind (map_ok (\<lambda>a. column_sql digest a table) attrs) (\<lambda>cols.
       ok_bind (map_ok (\<lambda>a.
           ok_bind (ident (unique_constraint_name digest table (at_name a))) (\<lambda>n.
             ok_bind (ident (at_name a)) (\<lambda>c. Inr (''CONSTRAINT '' @ n @ '' UNIQUE ('' @ c @ '')'')))) (filter at_unique attrs))
         (\<lambda>uniques.
           ok_bind (qualified_table schema table) (\<lambda>q.
             ok_bind (map_ok (\<lambda>a. create_index_sql digest schema table (at_name a)) (filter attr_wants_index attrs)) (\<lambda>indexes.
               ok_bind (table_security_statements schema table) (\<lambda>security.
                 Inr ((''CREATE TABLE '' @ q @ '' ('' @ comma_list (row_id_sql # cols @ uniques) @ '')'')
                      # indexes @ security))))))"

definition comment_table_sql :: "string \<Rightarrow> string \<Rightarrow> string \<Rightarrow> string fallible" where
  "comment_table_sql schema table comment =
     ok_bind (qualified_table schema table) (\<lambda>q. Inr (''COMMENT ON TABLE '' @ q @ '' IS '' @ sql_quote comment))"

definition create_view_sql :: "string \<Rightarrow> string \<Rightarrow> string \<Rightarrow> string fallible" where
  "create_view_sql schema view table =
     ok_bind (qualified_table schema view) (\<lambda>v.
       ok_bind (qualified_table schema table) (\<lambda>t. Inr (''CREATE VIEW '' @ v @ '' AS SELECT * FROM '' @ t)))"

definition drop_view_sql :: "string \<Rightarrow> string \<Rightarrow> string fallible" where
  "drop_view_sql schema view = ok_bind (qualified_table schema view) (\<lambda>v. Inr (''DROP VIEW '' @ v))"

end
