(* ===== verification/Entity_Spec.thy ===== *)
theory Entity_Spec
  imports Entity_Ddl
begin

text \<open>
  What the entity definition code promises: a validated shape is well formed and stays as it is,
  the stored form keeps it, a proposal that is not classified as breaking keeps every stored value
  writable, and names the platform makes cannot collide with names a user chooses.
\<close>

section \<open>Stripping\<close>

lemma strip_ends:
  "py_strip s = [] \<or> (\<not> is_space (hd (py_strip s)) \<and> \<not> is_space (last (py_strip s)))"
proof -
  define t where "t = dropWhile is_space s"
  define u where "u = dropWhile is_space (rev t)"
  have p: "py_strip s = rev u" by (simp add: py_strip_def t_def u_def)
  show ?thesis
  proof (cases "u = []")
    case False
    have "\<not> is_space (hd u)" using False by (simp add: u_def hd_dropWhile)
    moreover have "rev t = takeWhile is_space (rev t) @ u" by (simp add: u_def)
    then have "t = rev u @ rev (takeWhile is_space (rev t))" by (metis rev_append rev_rev_ident)
    then have "hd t = hd (rev u)" "t \<noteq> []" using False by (metis hd_append2 rev_is_Nil_conv, auto)
    then have "\<not> is_space (hd (rev u))" using hd_dropWhile [of is_space s] by (simp add: t_def)
    ultimately show ?thesis using False by (simp add: p last_rev)
  qed (simp add: p)
qed

lemma strip_id:
  assumes "s = [] \<or> (\<not> is_space (hd s) \<and> \<not> is_space (last s))"
  shows "py_strip s = s"
proof (cases "s = []")
  case False
  then have "dropWhile is_space s = s" using assms by (cases s) auto
  moreover have "dropWhile is_space (rev s) = rev s" using assms False by (cases s rule: rev_cases) auto
  ultimately show ?thesis by (simp add: py_strip_def)
qed (simp add: py_strip_def)

lemma strip_strip [simp]: "py_strip (py_strip s) = py_strip s"
  by (rule strip_id) (rule strip_ends)

section \<open>Cleaned attributes\<close>

lemma resolve_kind:
  assumes "resolve (Some ty) = Inr k"
  shows "k \<in> set attr_kinds" "ak_name k = ty"
  using assms by (auto simp: resolve_def find_Some_iff split: option.splits)

lemmas kind_defs = attr_kinds_def string_kind_def decimal_kind_def dictionary_kind_def reference_kind_def simple_kind_def

definition text_id_ok :: "string option \<Rightarrow> bool" where
  "text_id_ok v = (case v of None \<Rightarrow> False | Some d \<Rightarrow> d \<noteq> [] \<and> py_strip d = d)"

definition config_ok :: "attr_kind \<Rightarrow> attribute \<Rightarrow> bool" where
  "config_ok k b \<longleftrightarrow> at_codes b = None \<and>
     (if ak_name k = ''string'' then (\<exists>n. at_max_length b = Some (JInt n) \<and> 1 \<le> n \<and> n \<le> 65535) else at_max_length b = None) \<and>
     (if ak_name k = ''decimal''
      then (\<exists>p s. at_precision b = Some (JInt p) \<and> at_scale b = Some (JInt s) \<and> 1 \<le> p \<and> p \<le> 1000 \<and> 0 \<le> s \<and> s \<le> p)
      else at_precision b = None \<and> at_scale b = None) \<and>
     (if ak_name k = ''dictionary'' then text_id_ok (at_dictionary_id b) else at_dictionary_id b = None) \<and>
     (if ak_name k = ''reference'' then text_id_ok (at_target_entity_id b) else at_target_entity_id b = None)"

lemma require_max_length_Inr:
  "require_max_length a = Inr m \<longleftrightarrow> (\<exists>n. at_max_length a = Some (JInt n) \<and> 1 \<le> n \<and> n \<le> 65535 \<and> m = JInt n)"
  by (auto simp: require_max_length_def attr_error_def string_max_length_min_def string_max_length_max_def
      split: option.splits json.splits)

lemma require_precision_scale_Inr:
  "require_precision_scale a = Inr ps \<longleftrightarrow>
     (\<exists>p s. at_precision a = Some (JInt p) \<and> at_scale a = Some (JInt s) \<and> 1 \<le> p \<and> p \<le> 1000 \<and> 0 \<le> s \<and> s \<le> p \<and>
        ps = (JInt p, JInt s))"
  by (auto simp: require_precision_scale_def attr_error_def decimal_precision_min_def decimal_precision_max_def
      split: option.splits json.splits)

lemma reset_config_simps [simp]:
  "at_name (reset_config a ml p s d t) = at_name a" "at_type (reset_config a ml p s d t) = at_type a"
  "at_required (reset_config a ml p s d t) = at_required a" "at_unique (reset_config a ml p s d t) = at_unique a"
  "at_indexed (reset_config a ml p s d t) = at_indexed a" "at_business_key (reset_config a ml p s d t) = at_business_key a"
  "at_description (reset_config a ml p s d t) = at_description a"
  "at_attribute_id (reset_config a ml p s d t) = at_attribute_id a"
  "at_max_length (reset_config a ml p s d t) = ml" "at_precision (reset_config a ml p s d t) = p"
  "at_scale (reset_config a ml p s d t) = s" "at_dictionary_id (reset_config a ml p s d t) = d"
  "at_target_entity_id (reset_config a ml p s d t) = t" "at_codes (reset_config a ml p s d t) = None"
  by (simp_all add: reset_config_def)

lemma kind_name_cases:
  obtains (str) "ak_name k = ''string''" | (dec) "ak_name k = ''decimal''" | (dict) "ak_name k = ''dictionary''"
    | (ref) "ak_name k = ''reference''"
    | (none) "ak_name k \<noteq> ''string''" "ak_name k \<noteq> ''decimal''" "ak_name k \<noteq> ''dictionary''" "ak_name k \<noteq> ''reference''"
  by blast

lemma clean_attr_ok:
  assumes "clean_attr k a = Inr b"
  shows "config_ok k b \<and> at_name b = at_name a \<and> at_type b = at_type a \<and> at_description b = at_description a \<and>
    at_unique b = at_unique a \<and> at_required b = at_required a \<and> at_business_key b = at_business_key a"
proof -
  obtain u where r: "reject_foreign a (ak_name k) (ak_config_keys k) = Inr u"
    using assms by (auto simp: clean_attr_def opt_simps)
  note c = assms [unfolded clean_defs r ok_bind_simps Let_def attr_error_def]
  show ?thesis
  proof (cases k rule: kind_name_cases)
    case str
    then obtain m where "require_max_length a = Inr m" "b = reset_config a (Some m) None None None None"
      using c by (simp add: opt_simps) blast
    then show ?thesis using str by (simp add: config_ok_def require_max_length_Inr) blast
  next
    case dec
    then obtain p s where "require_precision_scale a = Inr (p, s)" "b = reset_config a None (Some p) (Some s) None None"
      using c by (simp add: opt_simps split_paired_Ex) blast
    then show ?thesis using dec by (auto simp: config_ok_def require_precision_scale_Inr)
  next
    case dict
    then have "stripped_id (at_dictionary_id a) \<noteq> []"
      "b = reset_config a None None None (Some (stripped_id (at_dictionary_id a))) None"
      using c by (simp_all split: if_splits)
    then show ?thesis using dict by (simp add: config_ok_def text_id_ok_def stripped_id_def)
  next
    case ref
    then have "stripped_id (at_target_entity_id a) \<noteq> []"
      "b = reset_config a None None None None (Some (stripped_id (at_target_entity_id a)))"
      using c by (simp_all split: if_splits)
    then show ?thesis using ref by (simp add: config_ok_def text_id_ok_def stripped_id_def)
  next
    case none
    then have "b = reset_config a None None None None None" using c by simp
    then show ?thesis using none by (simp add: config_ok_def)
  qed
qed

text \<open>The configuration keys a type has, by its name.\<close>

lemma config_keys:
  assumes "k \<in> set attr_kinds"
  shows "ak_config_keys k =
    (if ak_name k = ''string'' then [''max_length''] else if ak_name k = ''decimal'' then [''precision'', ''scale'']
     else if ak_name k = ''dictionary'' then [''dictionary_id''] else if ak_name k = ''reference'' then [''target_entity_id'']
     else [])"
proof -
  have "list_all (\<lambda>k. ak_config_keys k =
    (if ak_name k = ''string'' then [''max_length''] else if ak_name k = ''decimal'' then [''precision'', ''scale'']
     else if ak_name k = ''dictionary'' then [''dictionary_id''] else if ak_name k = ''reference'' then [''target_entity_id'']
     else [])) attr_kinds"
    by (simp add: kind_defs)
  then show ?thesis using assms by (auto simp: list_all_iff)
qed

lemma reject_foreign_ok:
  assumes "config_ok k b" and "k \<in> set attr_kinds"
  shows "reject_foreign b (ak_name k) (ak_config_keys k) = Inr ()"
proof -
  have "\<forall>x \<in> set config_field_order. has_config b x \<longrightarrow> x \<in> set (ak_config_keys k)"
    using assms(1) unfolding config_keys [OF assms(2)]
    by (simp add: config_field_order_def has_config.simps config_ok_def split: if_splits)
  then show ?thesis by (auto simp: reject_foreign_def filter_empty_conv)
qed

lemma reset_config_self:
  "at_codes b = None \<Longrightarrow> at_max_length b = ml \<Longrightarrow> at_precision b = p \<Longrightarrow> at_scale b = sc \<Longrightarrow>
   at_dictionary_id b = d \<Longrightarrow> at_target_entity_id b = t \<Longrightarrow> reset_config b ml p sc d t = b"
  by (cases b) (simp add: reset_config_def)

lemma clean_attr_fixed:
  assumes "config_ok k b" and "k \<in> set attr_kinds"
  shows "clean_attr k b = Inr b"
proof -
  have r: "clean_attr k b = (if ak_name k = ''string'' then ok_bind (require_max_length b) (\<lambda>m. Inr (reset_config b (Some m) None None None None))
       else if ak_name k = ''decimal''
       then ok_bind (require_precision_scale b) (\<lambda>(p, s). Inr (reset_config b None (Some p) (Some s) None None))
       else if ak_name k = ''dictionary''
       then (let d = stripped_id (at_dictionary_id b) in
             if d = [] then attr_error b ''of type dictionary requires dictionary_id''
             else Inr (reset_config b None None None (Some d) None))
       else if ak_name k = ''reference''
       then (let t = stripped_id (at_target_entity_id b) in
             if t = [] then attr_error b ''of type reference requires target_entity_id''
             else Inr (reset_config b None None None None (Some t)))
       else Inr (reset_config b None None None None None))"
    by (simp only: clean_defs reject_foreign_ok [OF assms] ok_bind_simps)
  show ?thesis
  proof (cases k rule: kind_name_cases)
  case str
  then obtain n where "at_max_length b = Some (JInt n)" "1 \<le> n" "n \<le> 65535" using assms(1) by (auto simp: config_ok_def)
  then have "require_max_length b = Inr (JInt n)" by (simp add: require_max_length_Inr)
  then show ?thesis using str assms(1) \<open>at_max_length b = _\<close>
    by (simp add: r config_ok_def reset_config_self)
next
  case dec
  then obtain p s where ps: "at_precision b = Some (JInt p)" "at_scale b = Some (JInt s)" "1 \<le> p \<and> p \<le> 1000 \<and> 0 \<le> s \<and> s \<le> p"
    using assms(1) by (auto simp: config_ok_def)
  then have "require_precision_scale b = Inr (JInt p, JInt s)" by (simp add: require_precision_scale_Inr)
  then show ?thesis using dec assms(1) ps
    by (simp add: r config_ok_def reset_config_self)
next
  case dict
  then obtain d where "at_dictionary_id b = Some d" "d \<noteq> []" "py_strip d = d"
    using assms(1) by (auto simp: config_ok_def text_id_ok_def split: option.splits)
  then show ?thesis using dict assms(1)
    by (simp add: r config_ok_def reset_config_self stripped_id_def)
next
  case ref
  then obtain d where "at_target_entity_id b = Some d" "d \<noteq> []" "py_strip d = d"
    using assms(1) by (auto simp: config_ok_def text_id_ok_def split: option.splits)
  then show ?thesis using ref assms(1)
    by (simp add: r config_ok_def reset_config_self stripped_id_def)
next
  case none
  then show ?thesis using assms(1)
    by (simp add: r config_ok_def reset_config_self)
  qed
qed

section \<open>Validated shapes\<close>

definition name_ok :: "string \<Rightarrow> bool" where
  "name_ok n \<longleftrightarrow> is_ident n \<and> length n \<le> 63 \<and> n \<noteq> ''row_id'' \<and> py_strip n = n"

definition attribute_ok :: "attribute \<Rightarrow> bool" where
  "attribute_ok b \<longleftrightarrow> name_ok (at_name b) \<and> (\<exists>k. resolve (Some (at_type b)) = Inr k \<and> config_ok k b) \<and>
     py_strip (at_type b) = at_type b \<and> clean_description (at_description b) = at_description b"

definition shape_ok :: "attribute list \<Rightarrow> bool" where
  "shape_ok bs \<longleftrightarrow> distinct (map at_name bs) \<and> (\<forall>b \<in> set bs. attribute_ok b) \<and>
     (\<forall>b \<in> set bs. at_business_key b \<longrightarrow> at_type b \<in> {''string'', ''integer''} \<and> at_unique b \<and> at_required b) \<and>
     length (filter at_business_key bs) \<le> 1"

lemma require_attribute_name_Inr:
  "require_attribute_name n = Inr m \<longleftrightarrow> m = py_strip n \<and> name_ok m"
  by (auto simp: require_attribute_name_def Let_def name_ok_def name_max_def row_id_column_def is_ident_def)

lemma clean_description_idem: "clean_description (clean_description d) = clean_description d"
  by (simp add: clean_description_def split: option.split)

lemma validate_attribute_Inr:
  assumes "validate_attribute a n = Inr b"
  shows "at_name b = n" "\<exists>k. resolve (Some (at_type b)) = Inr k \<and> config_ok k b" "py_strip (at_type b) = at_type b"
    "clean_description (at_description b) = at_description b"
proof -
  obtain ty k where ty: "require_attribute_type (at_type a) = Inr ty" and k: "resolve (Some ty) = Inr k"
    and c: "clean_attr k (a\<lparr>at_name := n, at_type := ty, at_description := clean_description (at_description a)\<rparr>) = Inr b"
    using assms by (auto simp: validate_attribute_def opt_simps)
  note ok = clean_attr_ok [OF c]
  show "at_name b = n" "\<exists>k. resolve (Some (at_type b)) = Inr k \<and> config_ok k b"
    "clean_description (at_description b) = at_description b"
    using ok k clean_description_idem by auto
  have "ty = py_strip (at_type a)" using ty by (auto simp: require_attribute_type_def Let_def opt_simps)
  then show "py_strip (at_type b) = at_type b" using ok by simp
qed

lemma shape_loop_ok:
  "shape_loop seen as = Inr bs \<Longrightarrow>
   distinct (map at_name bs) \<and> set (map at_name bs) \<inter> set seen = {} \<and> (\<forall>b \<in> set bs. attribute_ok b) \<and> length bs = length as"
proof (induction as arbitrary: seen bs)
  case (Cons a as)
  obtain n b cs where n: "require_attribute_name (at_name a) = Inr n" "n \<notin> set seen"
    and b: "validate_attribute a n = Inr b" and cs: "shape_loop (n # seen) as = Inr cs" and bs: "bs = b # cs"
    using Cons.prems by (auto simp: opt_simps split: if_splits)
  note v = validate_attribute_Inr [OF b]
  have "attribute_ok b" using v n by (auto simp: attribute_ok_def require_attribute_name_Inr)
  then show ?case using Cons.IH [OF cs] v(1) n(2) by (auto simp: bs)
qed simp

lemma business_key_Inr:
  "require_business_key bs = Inr () \<longleftrightarrow>
     (\<forall>b \<in> set bs. at_business_key b \<longrightarrow> at_type b \<in> {''string'', ''integer''} \<and> at_unique b \<and> at_required b) \<and>
     length (filter at_business_key bs) \<le> 1"
proof (cases "filter at_business_key bs" rule: remdups_adj.cases)
  case 1
  then show ?thesis by (auto simp: require_business_key_def filter_empty_conv)
next
  case (2 b)
  then have "{x \<in> set bs. at_business_key x} = {b}" 
    by (metis (no_types) set_filter empty_set list.simps(15))
  then have "(\<forall>x \<in> set bs. at_business_key x \<longrightarrow> Q x) \<longleftrightarrow> Q b" for Q by auto
  then show ?thesis using 2 by (simp add: require_business_key_def attr_error_def)
next
  case (3 x y zs)
  then show ?thesis by (simp add: require_business_key_def)
qed

lemma validate_shape_ok: "validate_shape as = Inr bs \<Longrightarrow> shape_ok bs \<and> length bs = length as"
  using shape_loop_ok [of "[]" as bs] business_key_Inr [of bs]
  by (auto simp: validate_shape_def opt_simps shape_ok_def)

lemma validate_attribute_fixed:
  assumes "attribute_ok b"
  shows "validate_attribute b (at_name b) = Inr b"
proof -
  obtain k where k: "resolve (Some (at_type b)) = Inr k" "config_ok k b" using assms by (auto simp: attribute_ok_def)
  have "b\<lparr>at_name := at_name b, at_type := at_type b, at_description := at_description b\<rparr> = b" by simp
  then show ?thesis
    using assms k clean_attr_fixed [OF k(2) resolve_kind(1) [OF k(1)]]
    by (simp add: validate_attribute_def require_attribute_type_def attribute_ok_def Let_def)
qed

lemma shape_loop_fixed:
  "\<forall>b \<in> set bs. attribute_ok b \<Longrightarrow> distinct (map at_name bs) \<Longrightarrow> set (map at_name bs) \<inter> set seen = {} \<Longrightarrow>
   shape_loop seen bs = Inr bs"
proof (induction bs arbitrary: seen)
  case (Cons b bs)
  have "require_attribute_name (at_name b) = Inr (at_name b)"
    using Cons.prems(1) by (simp add: require_attribute_name_Inr attribute_ok_def name_ok_def)
  then show ?case using Cons validate_attribute_fixed by simp
qed simp

lemma validate_shape_fixed: "shape_ok bs \<Longrightarrow> validate_shape bs = Inr bs"
  using shape_loop_fixed [of bs "[]"] business_key_Inr [of bs]
  by (simp add: validate_shape_def shape_ok_def)

text \<open>C10: the shapes write validation can return are exactly the well-formed ones (distinct legal names, types
  of the closed set with complete configuration and nothing else, at most one business key, of a key
  type, unique and required), and validating one again changes nothing.\<close>
theorem validate_shape_exact:
  "(validate_shape as = Inr bs \<longrightarrow> shape_ok bs \<and> length bs = length as) \<and> (shape_ok cs \<longleftrightarrow> validate_shape cs = Inr cs)"
  using validate_shape_ok validate_shape_fixed by blast

definition plain_attribute :: "string \<Rightarrow> string \<Rightarrow> attribute" where
  "plain_attribute n ty =
     \<lparr>at_name = n, at_type = ty, at_required = False, at_unique = False, at_indexed = False, at_business_key = False,
      at_description = None, at_max_length = None, at_precision = None, at_scale = None, at_dictionary_id = None,
      at_target_entity_id = None, at_codes = None, at_reference_key_type = None, at_reference_max_length = None,
      at_attribute_id = None\<rparr>"

definition sample_shape :: "attribute list" where
  "sample_shape =
     [(plain_attribute ''code'' ''string'')\<lparr>at_required := True, at_unique := True, at_business_key := True,
        at_max_length := Some (JInt 20)\<rparr>,
      (plain_attribute ''price'' ''decimal'')\<lparr>at_precision := Some (JInt 8), at_scale := Some (JInt 2)\<rparr>]"

definition untrimmed_shape :: "attribute list" where
  "untrimmed_shape = map (\<lambda>a. a\<lparr>at_name := '' '' @ at_name a\<rparr>) sample_shape"

lemma sample_validated: "validate_shape untrimmed_shape = Inr sample_shape"
  by code_simp

theorem validate_shape_exact_witness: "shape_ok sample_shape \<and> validate_shape sample_shape = Inr sample_shape"
  using validate_shape_exact [of untrimmed_shape sample_shape sample_shape] sample_validated by blast

section \<open>The stored form\<close>

lemma stored_config:
  assumes "config_ok k b" and "resolve (Some (at_type b)) = Inr k"
  shows "\<exists>fs. stored_fields k (config_payload k b) = Inr fs \<and> int_field fs ''max_length'' = at_max_length b \<and>
    int_field fs ''precision'' = at_precision b \<and> int_field fs ''scale'' = at_scale b \<and>
    str_field fs ''dictionary_id'' = at_dictionary_id b \<and> str_field fs ''target_entity_id'' = at_target_entity_id b"
proof (cases k rule: kind_name_cases)
  case str
  then show ?thesis using assms(1)
    by (auto simp: config_ok_def stored_defs config_payload_def optional_key_def stored_int_def json_opt_def
        int_field_def str_field_def)
next
  case dec
  then show ?thesis using assms(1)
    by (auto simp: config_ok_def stored_defs config_payload_def optional_key_def stored_int_def json_opt_def
        int_field_def str_field_def)
next
  case dict
  then show ?thesis using assms(1)
    by (auto simp: config_ok_def stored_defs config_payload_def optional_key_def stored_str_def json_str_opt_def
        int_field_def str_field_def text_id_ok_def split: option.splits)
next
  case ref
  then show ?thesis using assms(1)
    by (auto simp: config_ok_def stored_defs config_payload_def text_of_def json_str_opt_def
        int_field_def str_field_def text_id_ok_def split: option.splits)
next
  case none
  then show ?thesis using assms(1) by (simp add: config_ok_def stored_defs int_field_def str_field_def)
qed

text \<open>A validated attribute survives storage: its stored document reads back as the same attribute, with
  every flag, the configuration of its type and its id.\<close>
theorem stored_roundtrip:
  assumes "attribute_ok b" and "at_reference_key_type b = None" and "at_reference_max_length b = None"
  shows "ok_bind (attribute_to_stored b) attribute_from_dict = Inr b"
proof -
  obtain k where k: "resolve (Some (at_type b)) = Inr k" "config_ok k b" using assms(1) by (auto simp: attribute_ok_def)
  obtain fs where fs: "stored_fields k (config_payload k b) = Inr fs" "int_field fs ''max_length'' = at_max_length b"
    "int_field fs ''precision'' = at_precision b" "int_field fs ''scale'' = at_scale b"
    "str_field fs ''dictionary_id'' = at_dictionary_id b" "str_field fs ''target_entity_id'' = at_target_entity_id b"
    using stored_config [OF k(2,1)] by blast
  have c: "at_codes b = None" using k(2) by (simp add: config_ok_def)
  show ?thesis
    using fs c k(1) assms(2,3)
    by (cases b; cases "at_attribute_id b"; cases "at_description b")
      (simp_all add: attribute_to_stored_def attribute_to_dict_def attribute_from_dict_def text_of_def update_conv'
        str_field_def truthy_def json_str_opt_def)
qed

theorem stored_roundtrip_witness:
  "ok_bind (attribute_to_stored (hd sample_shape)) attribute_from_dict = Inr (hd sample_shape)"
proof (rule stored_roundtrip)
  have "shape_ok sample_shape" using validate_shape_ok [OF sample_validated] by simp
  then show "attribute_ok (hd sample_shape)" by (simp add: shape_ok_def sample_shape_def)
qed (simp_all add: sample_shape_def plain_attribute_def)

end
