(* ===== verification/Entity_Names.thy ===== *)
theory Entity_Names
  imports Entity_Spec
begin

text \<open>
  Physical names: the tables the platform makes for a version can be told from every table name a
  user may choose, fit a PostgreSQL identifier and name the version; the DDL of a validated shape
  never raises and protects the table.
\<close>

section \<open>Table names\<close>

lemma hex_ident: "is_hex c \<Longrightarrow> ident_char c"
  by (auto simp: is_hex_def ident_char_def is_digit_def is_lower_def Let_def)

lemma digit_ident: "is_digit c \<Longrightarrow> ident_char c"
  by (simp add: ident_char_def)

lemma prefix_upto_take: "0 \<le> n \<Longrightarrow> prefix_upto n s = take (nat n) s"
  by (simp add: prefix_upto_def)

lemma compose_form:
  assumes "length (table_suffix v vid) < name_max"
  shows "\<exists>k. 0 < k \<and> fst (compose_physical_table_name stem v vid) = take k stem @ table_suffix v vid \<and>
    length (fst (compose_physical_table_name stem v vid)) \<le> name_max"
proof (cases "length stem + length (table_suffix v vid) \<le> name_max")
  case True
  then show ?thesis by (intro exI [of _ "Suc (length stem)"]) (simp add: compose_physical_table_name_def)
next
  case False
  then show ?thesis using assms
    by (intro exI [of _ "name_max - length (table_suffix v vid)"])
      (simp add: compose_physical_table_name_def prefix_upto_take nat_diff_distrib Let_def)
qed

lemma physical_tail_suffix:
  assumes "length vid = 16" and "list_all is_hex vid" and "0 \<le> v"
  shows "physical_tail (rev (p @ table_suffix v vid)) = Some (rev p)"
proof -
  have d: "str_int v \<noteq> [] \<and> list_all is_digit (str_int v)" using assms(3) str_nat_digits by (simp add: str_int_def)
  have s: "\<not> is_digit (CHR ''v'')" by (simp add: is_digit_def)
  have t: "takeWhile is_digit (rev (str_int v) @ CHR ''v'' # r) = rev (str_int v)"
    "dropWhile is_digit (rev (str_int v) @ CHR ''v'' # r) = CHR ''v'' # r" for r
    using d s by (simp_all add: list_all_iff takeWhile_append dropWhile_append)
  show ?thesis
    using assms(1,2) d by (simp add: physical_tail_def table_suffix_def Let_def t list_all_iff)
qed

lemma table_suffix_chars:
  assumes "list_all is_hex vid" and "0 \<le> v"
  shows "list_all ident_char (table_suffix v vid)"
proof -
  have "list_all ident_char (str_int v)" using assms(2) str_nat_digits [of "nat v"] digit_ident
    by (auto simp: str_int_def list_all_iff)
  moreover have "list_all ident_char vid" using assms(1) hex_ident by (auto simp: list_all_iff)
  ultimately show ?thesis by (simp add: table_suffix_def ident_char_def is_lower_def)
qed

lemma require_table_name_Inr:
  "require_table_name n = Inr t \<longleftrightarrow>
     t = py_strip n \<and> t \<noteq> [] \<and> length t \<le> name_max \<and> is_ident t \<and> \<not> is_physical_table t"
  by (auto simp: require_table_name_def Let_def)

text \<open>C12: the physical name of a version is a legal identifier of at most 63 characters, ends in the version's id,
  and no user can claim it: write validation never returns it as a table name.\<close>
theorem table_names_disjoint:
  assumes "require_table_name m = Inr stem" and "0 \<le> v" and "length (str_int v) \<le> 41"
    and "length vid = 16" and "list_all is_hex vid"
  shows "(let name = fst (compose_physical_table_name stem v vid) in
     is_ident name \<and> length name \<le> 63 \<and> drop (length name - 16) name = vid \<and> (\<forall>n. require_table_name n \<noteq> Inr name))"
proof -
  have sl: "length (table_suffix v vid) < name_max" using assms(3,4) by (simp add: table_suffix_def name_max_def)
  obtain k where k: "0 < k" "fst (compose_physical_table_name stem v vid) = take k stem @ table_suffix v vid"
    "length (fst (compose_physical_table_name stem v vid)) \<le> name_max"
    using compose_form [OF sl] by blast
  have st: "is_ident stem" using assms(1) require_table_name_Inr by blast
  have p: "take k stem \<noteq> []" "hd (take k stem) = hd stem" "list_all ident_char (take k stem)"
    using st k(1) by (auto simp: is_ident_def list_all_iff dest: in_set_takeD)
  have nl: "CHR 0x0A \<notin> set (take k stem)"
    using p(3) by (auto simp: list_all_iff ident_char_def is_lower_def is_digit_def)
  let ?n = "take k stem @ table_suffix v vid"
  have "is_physical_table ?n"
    using p nl by (simp add: is_physical_table_def physical_tail_suffix [OF assms(4,5,2)] del: rev_append)
  moreover have "is_ident ?n"
    using p st table_suffix_chars [OF assms(5,2)] by (simp add: is_ident_def hd_append)
  moreover have "?n = (take k stem @ ''__v'' @ str_int v @ ''__'') @ vid" by (simp add: table_suffix_def)
  then have "drop (length ?n - 16) ?n = vid" using assms(4) by (metis append_eq_conv_conj diff_add_inverse2 length_append)
  moreover have "\<forall>n. require_table_name n \<noteq> Inr ?n" using \<open>is_physical_table ?n\<close> by (auto simp: require_table_name_Inr)
  moreover have "length ?n \<le> 63" using k by (simp add: name_max_def)
  ultimately show ?thesis unfolding k(2) Let_def by blast
qed

theorem table_names_disjoint_witness:
  "\<forall>n. require_table_name n \<noteq> Inr ''orders__v3__0123456789abcdef''"
proof -
  have "require_table_name ''orders'' = Inr ''orders''" "length (str_int 3) \<le> 41"
    "fst (compose_physical_table_name ''orders'' 3 ''0123456789abcdef'') = ''orders__v3__0123456789abcdef''"
    "list_all is_hex ''0123456789abcdef''"
    by code_simp+
  then show ?thesis using table_names_disjoint [of "''orders''" "''orders''" 3 "''0123456789abcdef''"] by (simp add: Let_def)
qed

section \<open>DDL\<close>

lemma sql_ident_chars:
  "t \<noteq> [] \<Longrightarrow> ident_start (hd t) \<Longrightarrow> list_all (\<lambda>c. ident_start c \<or> is_digit c) t \<Longrightarrow> sql_ident t"
proof -
  assume t: "t \<noteq> []" "ident_start (hd t)" "list_all (\<lambda>c. ident_start c \<or> is_digit c) t"
  then have "ident_start (last t) \<or> is_digit (last t)" using last_in_set [of t] by (simp only: list_all_iff) blast
  moreover have "\<not> (ident_start (CHR 0x0A) \<or> is_digit (CHR 0x0A))" by code_simp
  ultimately have "last t \<noteq> CHR 0x0A" by metis
  then show ?thesis using t by (simp add: sql_ident_def)
qed

lemma ident_char_sql: "ident_char c \<Longrightarrow> ident_start c \<or> is_digit c"
  by (auto simp: ident_char_def ident_start_def)

lemma is_ident_sql: "is_ident s \<Longrightarrow> sql_ident s"
  using ident_char_sql by (intro sql_ident_chars) (auto simp: is_ident_def ident_start_def list_all_iff)

lemma prefix_upto_fill: "length px \<le> name_max \<Longrightarrow> length (px @ prefix_upto (int name_max - int (length px)) s) \<le> name_max"
  by (simp add: prefix_upto_take)

lemma bounded_name_length: "length kind = 2 \<Longrightarrow> length (bounded_name digest kind table column) \<le> 63"
proof -
  assume "length kind = 2"
  then have "length (kind @ ''_'' @ take 8 (digest r) @ ''_'') \<le> name_max" for r by (simp add: name_max_def)
  from prefix_upto_fill [OF this] show ?thesis by (simp add: bounded_name_def Let_def name_max_def del: length_append)
qed

lemma bounded_name_ident:
  assumes "is_ident table" and "is_ident column" and "list_all ident_char (digest (kind @ ''_'' @ table @ ''_'' @ column))"
    and "kind \<in> {''ck'', ''uq'', ''ix''}"
  shows "ident (bounded_name digest kind table column) = Inr (dquoted (bounded_name digest kind table column))"
proof -
  have c: "list_all ident_char table" "list_all ident_char column" using assms by (auto simp: is_ident_def)
  have k: "kind \<noteq> []" "ident_start (hd kind)" "list_all ident_char kind" "length kind = 2"
    using assms(4) by (auto simp: ident_start_def ident_char_def is_lower_def)
  have "list_all ident_char (bounded_name digest kind table column)"
    using c k assms(3)
    by (auto simp: bounded_name_def Let_def prefix_upto_def list_all_iff ident_char_def dest!: in_set_takeD)
  moreover have "bounded_name digest kind table column \<noteq> []" "hd (bounded_name digest kind table column) = hd kind"
    using k by (auto simp: bounded_name_def Let_def hd_append)
  ultimately show ?thesis using k ident_char_sql
    by (auto simp: ident_def list_all_iff intro!: sql_ident_chars)
qed

text \<open>What publishing adds to a validated attribute before the DDL: the writable codes of its
  dictionary, the key type of the entity it refers to.\<close>

definition ddl_ready :: "attribute \<Rightarrow> bool" where
  "ddl_ready a \<longleftrightarrow> attribute_ok (a\<lparr>at_codes := None\<rparr>) \<and>
     (at_type a = ''dictionary'' \<longrightarrow> at_codes a \<noteq> None \<and> at_codes a \<noteq> Some []) \<and>
     (at_type a = ''reference'' \<longrightarrow> at_reference_key_type a \<in> {Some ''string'', Some ''integer''})"

lemma fill_plain: "CHR ''{'' \<notin> set t \<Longrightarrow> fill_template f t = Inr t"
  by (induction t) auto

lemma plain_templates:
  "k \<in> set attr_kinds \<Longrightarrow> ak_name k \<noteq> ''string'' \<Longrightarrow> ak_name k \<noteq> ''decimal'' \<Longrightarrow> CHR ''{'' \<notin> set (ak_template k)"
proof -
  have "list_all (\<lambda>k. ak_name k \<noteq> ''string'' \<longrightarrow> ak_name k \<noteq> ''decimal'' \<longrightarrow> CHR ''{'' \<notin> set (ak_template k)) attr_kinds"
    by code_simp
  then show "k \<in> set attr_kinds \<Longrightarrow> ak_name k \<noteq> ''string'' \<Longrightarrow> ak_name k \<noteq> ''decimal'' \<Longrightarrow> CHR ''{'' \<notin> set (ak_template k)"
    by (simp add: list_all_iff)
qed

lemma filled_templates:
  "k \<in> set attr_kinds \<Longrightarrow> ak_name k = ''string'' \<Longrightarrow> ak_template k = ''VARCHAR({max_length})''"
  "k \<in> set attr_kinds \<Longrightarrow> ak_name k = ''decimal'' \<Longrightarrow> ak_template k = ''NUMERIC({precision},{scale})''"
proof -
  have "list_all (\<lambda>k. (ak_name k = ''string'' \<longrightarrow> ak_template k = ''VARCHAR({max_length})'') \<and>
    (ak_name k = ''decimal'' \<longrightarrow> ak_template k = ''NUMERIC({precision},{scale})'')) attr_kinds"
    by code_simp
  then show "k \<in> set attr_kinds \<Longrightarrow> ak_name k = ''string'' \<Longrightarrow> ak_template k = ''VARCHAR({max_length})''"
    "k \<in> set attr_kinds \<Longrightarrow> ak_name k = ''decimal'' \<Longrightarrow> ak_template k = ''NUMERIC({precision},{scale})''"
    by (simp_all add: list_all_iff)
qed

lemma physical_sql_returns:
  assumes "k \<in> set attr_kinds" and "config_ok k (a\<lparr>at_codes := None\<rparr>)"
    and "ak_name k = ''reference'' \<longrightarrow> at_reference_key_type a \<in> {Some ''string'', Some ''integer''}"
  shows "\<exists>s. physical_sql k a = Inr s"
proof (cases k rule: kind_name_cases)
  case str
  then obtain n where "at_max_length a = Some (JInt n)" using assms(2) by (auto simp: config_ok_def)
  then show ?thesis using str filled_templates(1) [OF assms(1)] by (simp add: physical_sql_def config_value_def)
next
  case dec
  then obtain p s where "at_precision a = Some (JInt p)" "at_scale a = Some (JInt s)" using assms(2) by (auto simp: config_ok_def)
  then show ?thesis using dec filled_templates(2) [OF assms(1)] by (simp add: physical_sql_def config_value_def)
next
  case ref
  then show ?thesis using assms(3) by (auto simp: physical_sql_def)
qed (simp_all add: physical_sql_def fill_plain plain_templates [OF assms(1)])

lemma ident_of: "is_ident n \<Longrightarrow> ident n = Inr (dquoted n)"
  by (simp add: ident_def is_ident_sql)

lemma column_sql_returns:
  assumes "ddl_ready a" and "is_ident table" and "\<And>s. list_all ident_char (digest s)"
  shows "\<exists>s. column_sql digest a table = Inr s"
proof -
  obtain k where k: "resolve (Some (at_type a)) = Inr k" "config_ok k (a\<lparr>at_codes := None\<rparr>)"
    and n: "is_ident (at_name a)"
    using assms(1) by (auto simp: ddl_ready_def attribute_ok_def name_ok_def)
  note km = resolve_kind [OF k(1)]
  obtain p where p: "physical_sql k a = Inr p"
    using physical_sql_returns [OF km(1) k(2)] assms(1) km(2) by (auto simp: ddl_ready_def)
  have c: "ident (bounded_name digest ''ck'' table (at_name a)) = Inr (dquoted (bounded_name digest ''ck'' table (at_name a)))"
    using bounded_name_ident assms n by blast
  have "\<exists>q. check_predicate k a (dquoted (at_name a)) = Inr q"
    using assms(1) km(2) by (cases "at_codes a") (auto simp: check_predicate_def ddl_ready_def)
  then obtain q where "check_predicate k a (dquoted (at_name a)) = Inr q" by blast
  then show ?thesis using k p c ident_of [OF n] by (simp add: column_sql_def split: option.split)
qed

lemma map_ok_returns: "(\<And>x. x \<in> set xs \<Longrightarrow> \<exists>y. f x = Inr y) \<Longrightarrow> \<exists>ys. map_ok f xs = Inr ys"
proof (induction xs)
  case (Cons x xs)
  then obtain y ys where "f x = Inr y" "map_ok f xs = Inr ys" by fastforce
  then show ?case by simp
qed simp

text \<open>C13: creating the table of a validated shape never raises, whatever its names: the statements start with the
  table, and put it under forced row level security with the reader shut out; the constraint and
  index names fit PostgreSQL's 63 characters.\<close>
theorem create_table_protects:
  assumes "\<forall>a \<in> set attrs. ddl_ready a" and "is_ident schema" and "is_ident table"
    and "\<And>s. list_all ident_char (digest s)"
  shows "\<exists>first rest. create_table_statements digest schema table attrs = Inr (first # rest) \<and>
    take 12 first = ''CREATE TABLE'' \<and>
    (\<forall>q. qualified_table schema table = Inr q \<longrightarrow>
       ''ALTER TABLE '' @ q @ '' ENABLE ROW LEVEL SECURITY'' \<in> set rest \<and>
       ''ALTER TABLE '' @ q @ '' FORCE ROW LEVEL SECURITY'' \<in> set rest \<and>
       ''REVOKE ALL ON '' @ q @ '' FROM '' @ dquoted reader_role \<in> set rest) \<and>
    (\<forall>c. length (unique_constraint_name digest table c) \<le> 63 \<and> length (index_name digest table c) \<le> 63)"
proof -
  have n: "is_ident (at_name a)" if "a \<in> set attrs" for a
    using assms(1) that by (auto simp: ddl_ready_def attribute_ok_def name_ok_def)
  note names = bounded_name_ident [where table = table, OF assms(3)]
  obtain cols where cols: "map_ok (\<lambda>a. column_sql digest a table) attrs = Inr cols"
    using map_ok_returns [of attrs "\<lambda>a. column_sql digest a table"] column_sql_returns assms by blast
  have u: "\<exists>us. map_ok (\<lambda>a. ok_bind (ident (unique_constraint_name digest table (at_name a))) (\<lambda>n.
      ok_bind (ident (at_name a)) (\<lambda>c. Inr (''CONSTRAINT '' @ n @ '' UNIQUE ('' @ c @ '')'')))) (filter at_unique attrs) = Inr us"
  proof (rule map_ok_returns)
    fix a assume "a \<in> set (filter at_unique attrs)"
    then have a: "is_ident (at_name a)" using n by simp
    then show "\<exists>y. ok_bind (ident (unique_constraint_name digest table (at_name a))) (\<lambda>n.
      ok_bind (ident (at_name a)) (\<lambda>c. Inr (''CONSTRAINT '' @ n @ '' UNIQUE ('' @ c @ '')''))) = Inr y"
      using names [OF a assms(4), of "''uq''"] by (simp add: unique_constraint_name_def ident_of)
  qed
  have q: "qualified_table schema table = Inr (dquoted schema @ ''.'' @ dquoted table)"
    using assms(2,3) by (simp add: qualified_table_def ident_of)
  have "\<exists>ixs. map_ok (\<lambda>a. create_index_sql digest schema table (at_name a)) (filter attr_wants_index attrs) = Inr ixs"
  proof (rule map_ok_returns)
    fix a assume "a \<in> set (filter attr_wants_index attrs)"
    then have a: "is_ident (at_name a)" using n by simp
    then show "\<exists>y. create_index_sql digest schema table (at_name a) = Inr y"
      using names [OF a assms(4), of "''ix''"] by (simp add: create_index_sql_def index_name_def ident_of q)
  qed
  then obtain us ixs where r: "create_table_statements digest schema table attrs = Inr
      ((''CREATE TABLE '' @ dquoted schema @ ''.'' @ dquoted table @ '' ('' @ comma_list (row_id_sql # cols @ us) @ '')'') # ixs @
       projr (table_security_statements schema table))"
    using u cols q by (auto simp: create_table_statements_def table_security_statements_def Let_def)
  show ?thesis
    unfolding r using q bounded_name_length
    by (simp add: table_security_statements_def Let_def unique_constraint_name_def index_name_def)
qed

theorem create_table_protects_witness:
  "\<exists>first rest. create_table_statements (\<lambda>_. ''abc'') ''entity_data'' ''orders'' sample_shape = Inr (first # rest) \<and>
     take 12 first = ''CREATE TABLE''"
proof -
  have "shape_ok sample_shape" using validate_shape_ok [OF sample_validated] by simp
  then have "\<forall>a \<in> set sample_shape. ddl_ready a"
    by (simp add: shape_ok_def sample_shape_def plain_attribute_def ddl_ready_def)
  moreover have "is_ident ''entity_data''" "is_ident ''orders''" "list_all ident_char ''abc''" by code_simp+
  ultimately show ?thesis
    using create_table_protects [of sample_shape "''entity_data''" "''orders''" "\<lambda>_. ''abc''"] by blast
qed

end
