(* ===== verification/Entity_Values.thy ===== *)
theory Entity_Values
  imports Entity_Spec "HOL-Library.Word"
begin

text \<open>
  What the row codec promises: an encoded value fits its column, a decimal keeps its value, decoding
  gives the written value back, and a change that is not classified as breaking keeps every value
  writable.
\<close>

section \<open>Values fit their column\<close>

definition dec_value :: "dec \<Rightarrow> rat" where
  "dec_value d = (case d of Dec c e \<Rightarrow> of_int c * (if e \<ge> 0 then 10 ^ nat e else inverse (10 ^ nat (- e))))"

text \<open>PostgreSQL keeps no \<open>U+0000\<close> in a text or in a \<open>jsonb\<close> value.\<close>

fun null_free :: "json \<Rightarrow> bool" where
  "null_free (JStr s) = (CHR 0x00 \<notin> set s)"
| "null_free (JArr xs) = list_all (\<lambda>b. b) (map null_free xs)"
| "null_free (JObj kvs) = list_all (\<lambda>b. b) (map (\<lambda>(k, v). CHR 0x00 \<notin> set k \<and> null_free v) kvs)"
| "null_free _ = True"

text \<open>What the column of a type holds: a decimal of the column \<open>NUMERIC(p,s)\<close> has scale \<open>s\<close> and at most \<open>p\<close> digits.\<close>

definition cell_fits :: "attr_kind \<Rightarrow> attribute \<Rightarrow> string list option \<Rightarrow> cell \<Rightarrow> bool" where
  "cell_fits k a codes v =
     (case v of
        C_Str s \<Rightarrow>
          CHR 0x00 \<notin> set s \<and>
          (ak_name k = ''string'' \<longrightarrow> (\<exists>m. at_max_length a = Some (JInt m) \<and> int (length s) \<le> m)) \<and>
          (ak_name k = ''dictionary'' \<longrightarrow> (\<exists>cs. codes = Some cs \<and> s \<in> set cs)) \<and>
          (ak_name k = ''user'' \<longrightarrow> s \<noteq> [] \<and> length s \<le> 64)
      | C_Int n \<Rightarrow> sint (word_of_int n :: 64 word) = n
      | C_Dec d \<Rightarrow> (\<exists>c sc p. d = Dec c (- sc) \<and> at_scale a = Some (JInt sc) \<and> at_precision a = Some (JInt p) \<and> \<bar>c\<bar> < 10 ^ nat p)
      | C_Time us \<Rightarrow> 0 \<le> us \<and> us < day_us
      | C_Stamp us \<Rightarrow> instant_min \<le> us \<and> us < instant_end
      | C_Date n \<Rightarrow> (\<exists>y m d. valid_date y m d \<and> n = ordinal y m d)
      | C_Json j \<Rightarrow> null_free j
      | _ \<Rightarrow> True)"

text \<open>The number an input denotes, and room for it before the point: it is below \<open>10 ^ (p - s)\<close>.\<close>

definition number_of :: "json \<Rightarrow> parsed" where
  "number_of raw =
     (case raw of JStr s \<Rightarrow> parse_decimal s | JInt n \<Rightarrow> Finite_Number (Dec n 0)
      | JFloat r \<Rightarrow> Finite_Number (dec_of_float r) | _ \<Rightarrow> Bad_Number)"

definition room_before_point :: "attribute \<Rightarrow> json \<Rightarrow> bool" where
  "room_before_point a raw =
     (case (number_of raw, at_precision a, at_scale a) of
        (Finite_Number d, Some (JInt p), Some (JInt s)) \<Rightarrow> \<bar>dec_value d\<bar> * 10 ^ nat s < 10 ^ nat p
      | _ \<Rightarrow> False)"

lemma dec_value_shift:
  assumes "- e \<le> sc" and "0 \<le> e \<longrightarrow> 0 \<le> sc"
  shows "dec_value (Dec (c * 10 ^ nat (e + sc)) (- sc)) = dec_value (Dec c e)"
proof -
  have sc: "0 \<le> sc" using assms by linarith
  show ?thesis
  proof (cases "0 \<le> e")
    case True
    then have "nat (e + sc) = nat e + nat sc" using sc by simp
    then show ?thesis using True sc by (cases "sc = 0") (simp_all add: dec_value_def power_add)
  next
    case False
    then have "nat sc = nat (e + sc) + nat (- e)" using assms by simp
    then have "(10 :: rat) ^ nat sc = 10 ^ nat (e + sc) * 10 ^ nat (- e)" by (simp add: power_add)
    moreover have "sc > 0" using False assms by simp
    ultimately show ?thesis using False by (simp add: dec_value_def divide_simps)
  qed
qed

lemma dec_value_scaled: "0 \<le> sc \<Longrightarrow> \<bar>dec_value (Dec c (- sc))\<bar> * 10 ^ nat sc = \<bar>of_int c\<bar>"
  by (cases "sc = 0") (simp_all add: dec_value_def abs_mult)

lemma bigint_word:
  assumes "encode_bigint a raw = Inr (C_Int n)"
  shows "sint (word_of_int n :: 64 word) = n"
proof -
  have "bigint_min \<le> n" "n \<le> bigint_max"
    using assms by (auto simp: encode_bigint_def row_error_def split: json.splits if_splits)
  then show ?thesis by (simp add: bigint_min_def bigint_max_def signed_of_int signed_take_bit_int_eq_self)
qed

lemma two_digits_Some [opt_simps]:
  "two_digits s b = Some n \<longleftrightarrow> length s = 2 \<and> list_all is_digit s \<and> n = nat_of_digits s \<and> n < b"
  by (auto simp: two_digits_def)

lemma parse_time_Some:
  assumes "parse_time s = Some us"
  shows "\<exists>h mi sec f. h < 24 \<and> mi < 60 \<and> sec < 60 \<and> f < 1000000 \<and>
    us = ((int h * 60 + int mi) * 60 + int sec) * 1000000 + int f"
proof -
  obtain h mi where hm: "two_digits (take 2 s) 24 = Some h" "two_digits (take 2 (drop 3 s)) 60 = Some mi"
    using assms by (auto simp: parse_time_def split: option.splits)
  let ?base = "(int h * 60 + int mi) * 60"
  have b: "h < 24" "mi < 60" using hm by (auto simp: opt_simps)
  have "s ! 2 = CHR '':''" using assms hm by (simp add: parse_time_def Let_def split: if_splits)
  show ?thesis
  proof (cases "length s = 5")
    case True
    then have "us = ?base * 1000000" using assms hm \<open>s ! 2 = _\<close> by (simp add: parse_time_def Let_def)
    then show ?thesis using b by (intro exI [of _ h] exI [of _ mi] exI [of _ 0]) simp
  next
    case False
    then obtain sec where sec: "two_digits (take 2 (drop 6 s)) 60 = Some sec"
      using assms hm \<open>s ! 2 = _\<close> by (auto simp: parse_time_def Let_def split: option.splits)
    then have sb: "sec < 60" by (simp add: opt_simps)
    show ?thesis
    proof (cases "length s = 8")
      case True
      then have "us = (?base + int sec) * 1000000"
        using assms hm sec False \<open>s ! 2 = _\<close> by (simp add: parse_time_def Let_def split: if_splits)
      then show ?thesis using b sb by (intro exI [of _ h] exI [of _ mi] exI [of _ sec] exI [of _ 0]) simp
    next
      case F8: False
      let ?f = "drop 9 s"
      have us: "us = (?base + int sec) * 1000000 + int (nat_of_digits ?f) * 10 ^ (6 - length ?f)"
        and f: "length ?f \<le> 6" "list_all is_digit ?f"
        using assms hm sec False F8 \<open>s ! 2 = _\<close> by (auto simp: parse_time_def Let_def split: if_splits)
      have "nat_of_digits ?f * 10 ^ (6 - length ?f) < 10 ^ length ?f * 10 ^ (6 - length ?f)"
        using nat_of_digits_bound [OF f(2)] by simp
      also have "\<dots> = (10 :: nat) ^ 6" using f(1) by (metis le_add_diff_inverse power_add)
      finally have "nat_of_digits ?f * 10 ^ (6 - length ?f) < 1000000" by simp
      then show ?thesis using b sb us
        by (intro exI [of _ h] exI [of _ mi] exI [of _ sec] exI [of _ "nat_of_digits ?f * 10 ^ (6 - length ?f)"]) simp
    qed
  qed
qed

lemma parse_time_range: "parse_time s = Some us \<Longrightarrow> 0 \<le> us \<and> us < day_us"
  using parse_time_Some [of s us] by (auto simp: day_us_def)

lemma parse_date_range: "parse_date s = Some n \<Longrightarrow> \<exists>y m d. valid_date y m d \<and> n = ordinal y m d"
  by (auto simp: parse_date_def Let_def split: if_splits)

text \<open>The codec of a type by its name.\<close>

lemma codec_names:
  assumes "k \<in> set attr_kinds"
  shows "(ak_codec k = Co_String \<longleftrightarrow> ak_name k = ''string'') \<and> (ak_codec k = Co_Dictionary \<longleftrightarrow> ak_name k = ''dictionary'') \<and>
    (ak_codec k = Co_User \<longleftrightarrow> ak_name k = ''user'') \<and> (ak_codec k = Co_Decimal \<longleftrightarrow> ak_name k = ''decimal'')"
proof -
  have "list_all (\<lambda>k. (ak_codec k = Co_String \<longleftrightarrow> ak_name k = ''string'') \<and> (ak_codec k = Co_Dictionary \<longleftrightarrow> ak_name k = ''dictionary'') \<and>
    (ak_codec k = Co_User \<longleftrightarrow> ak_name k = ''user'') \<and> (ak_codec k = Co_Decimal \<longleftrightarrow> ak_name k = ''decimal'')) attr_kinds"
    by code_simp
  then show ?thesis using assms by (simp add: list_all_iff)
qed

text \<open>The kind of cell a codec makes.\<close>

lemma encode_simps [simp]:
  "encode_string a raw = Inr v \<longleftrightarrow> (\<exists>s m. raw = JStr s \<and> at_max_length a = Some (JInt m) \<and> int (length s) \<le> m \<and> v = C_Str s)"
  "encode_text a raw = Inr v \<longleftrightarrow> (\<exists>s. raw = JStr s \<and> v = C_Str s)"
  "encode_bigint a raw = Inr v \<longleftrightarrow> (\<exists>n. raw = JInt n \<and> bigint_min \<le> n \<and> n \<le> bigint_max \<and> v = C_Int n)"
  "encode_boolean a raw = Inr v \<longleftrightarrow> (\<exists>b. raw = JBool b \<and> v = C_Bool b)"
  "encode_date a raw = Inr v \<longleftrightarrow> (\<exists>s n. raw = JStr s \<and> parse_date s = Some n \<and> v = C_Date n)"
  "encode_time a raw = Inr v \<longleftrightarrow> (\<exists>s n. raw = JStr s \<and> parse_time s = Some n \<and> v = C_Time n)"
  "encode_json a raw = Inr v \<longleftrightarrow> v = C_Json raw"
  "encode_dictionary a raw codes f = Inr v \<longleftrightarrow> (\<exists>s cs. raw = JStr s \<and> codes = Some cs \<and> s \<in> set cs \<and> v = C_Str s)"
  "encode_user a raw = Inr v \<longleftrightarrow> (\<exists>s. raw = JStr s \<and> s \<noteq> [] \<and> length s \<le> 64 \<and> v = C_Str s)"
  by (auto simp: encode_string_def encode_text_def encode_bigint_def encode_boolean_def encode_date_def encode_time_def
      encode_json_def encode_dictionary_def encode_user_def user_id_max_length_def row_error_def split: json.splits option.splits)

lemma encode_stamp_number:
  "encode_timestamp iso8601 a raw = Inr v \<Longrightarrow> \<exists>us. v = C_Stamp us \<and> instant_min \<le> us \<and> us < instant_end"
  "encode_number a raw = Inr v \<Longrightarrow> \<exists>r. v = C_Float r"
  by (auto simp: encode_timestamp_def encode_number_def row_error_def parse_instant_def Let_def opt_simps
      split: json.splits sum.splits if_splits instant_error.splits option.splits)

lemma encode_decimal_Inr:
  assumes "encode_decimal a raw = Inr v"
  shows "\<exists>p sc c e. at_precision a = Some (JInt p) \<and> at_scale a = Some (JInt sc) \<and> - e \<le> sc \<and> (0 \<le> e \<longrightarrow> 0 \<le> sc) \<and>
       (case raw of JStr s \<Rightarrow> parse_decimal s | JInt n \<Rightarrow> Finite_Number (Dec n 0)
        | JFloat r \<Rightarrow> Finite_Number (dec_of_float r) | _ \<Rightarrow> Bad_Number) = Finite_Number (Dec c e) \<and>
       int (dec_digits (Dec c e)) \<le> p \<and> v = C_Dec (Dec (c * 10 ^ nat (e + sc)) (- sc)) \<and>
       dec_digits (Dec (c * 10 ^ nat (e + sc)) (- sc)) \<le> 28"
proof -
  obtain p sc where ps: "at_precision a = Some (JInt p)" "at_scale a = Some (JInt sc)"
    using assms by (auto simp: encode_decimal_def split: option.splits json.splits)
  obtain c e where n: "(case raw of JStr s \<Rightarrow> parse_decimal s | JInt n \<Rightarrow> Finite_Number (Dec n 0)
        | JFloat r \<Rightarrow> Finite_Number (dec_of_float r) | _ \<Rightarrow> Bad_Number) = Finite_Number (Dec c e)"
    using assms unfolding encode_decimal_def ps
    by (cases "(case raw of JStr s \<Rightarrow> parse_decimal s | JInt n \<Rightarrow> Finite_Number (Dec n 0)
        | JFloat r \<Rightarrow> Finite_Number (dec_of_float r) | _ \<Rightarrow> Bad_Number)"; simp add: row_error_def split: dec.splits)
  show ?thesis
    using assms unfolding encode_decimal_def ps
    by (simp add: n row_error_def quantize_def Let_def opt_simps split: if_splits)
qed

lemma decimal_fits:
  assumes "encode_decimal a raw = Inr v"
  shows "\<exists>d. v = C_Dec d \<and> (cell_fits k a codes (C_Dec d) \<longleftrightarrow> room_before_point a raw)"
proof -
  obtain p sc c e where ps: "at_precision a = Some (JInt p)" "at_scale a = Some (JInt sc)" "- e \<le> sc" "0 \<le> e \<longrightarrow> 0 \<le> sc"
    and n: "number_of raw = Finite_Number (Dec c e)" and v: "v = C_Dec (Dec (c * 10 ^ nat (e + sc)) (- sc))"
    using encode_decimal_Inr [OF assms] unfolding number_of_def by blast
  let ?c = "c * 10 ^ nat (e + sc)"
  have sc: "0 \<le> sc" using ps(3,4) by linarith
  have d: "\<bar>dec_value (Dec c e)\<bar> * 10 ^ nat sc = of_int \<bar>?c\<bar>"
    unfolding of_int_abs dec_value_scaled [OF sc, of ?c, symmetric] dec_value_shift [OF ps(3,4), of c] ..
  have t: "(10 :: rat) ^ nat p = of_int (10 ^ nat p)" by simp
  have "room_before_point a raw \<longleftrightarrow> \<bar>dec_value (Dec c e)\<bar> * 10 ^ nat sc < 10 ^ nat p"
    by (simp add: room_before_point_def n ps)
  also have "\<dots> \<longleftrightarrow> \<bar>?c\<bar> < 10 ^ nat p" unfolding d t by (rule of_int_less_iff)
  finally have "room_before_point a raw \<longleftrightarrow> \<bar>?c\<bar> < 10 ^ nat p" .
  moreover have "cell_fits k a codes (C_Dec (Dec ?c (- sc))) \<longleftrightarrow> \<bar>?c\<bar> < 10 ^ nat p"
    unfolding cell_fits_def using ps by simp
  ultimately show ?thesis using v by blast
qed

definition rating :: attribute where
  "rating = (plain_attribute ''rating'' ''decimal'')\<lparr>at_precision := Some (JInt 2), at_scale := Some (JInt 1)\<rparr>"

text \<open>C11: a value the codec accepts fits its column (text within its length, an integer in a 64-bit word, a
  dictionary code among the codes, dates, times and instants in range, a decimal at the scale of the column and within its
  precision), up to two checks that are left to the database, and these are the only ones: a text or a JSON value fits
  unless it has a \<open>U+0000\<close>, and a decimal fits if and only if the number it denotes has at most \<open>precision - scale\<close> digits before the
  point.\<close>
theorem encode_fits:
  assumes "resolve (Some (at_type a)) = Inr k" and "encode_attr iso8601 k a raw codes f = Inr v"
  shows "cell_fits k a codes v \<longleftrightarrow>
    (case v of C_Str s \<Rightarrow> CHR 0x00 \<notin> set s | C_Json j \<Rightarrow> null_free j | C_Dec d \<Rightarrow> room_before_point a raw | _ \<Rightarrow> True)"
proof -
  note km = codec_names [OF resolve_kind(1) [OF assms(1)]]
  have e: "run_encode iso8601 (ak_codec k) a raw codes f = Inr v" using assms(2) by (simp add: encode_attr_def)
  show ?thesis
  proof (cases "ak_codec k")
    case Co_Bigint
    then show ?thesis using e bigint_word [of a raw] by (auto simp: run_encode_def cell_fits_def)
  next
    case Co_Decimal
    then obtain d where "v = C_Dec d" "cell_fits k a codes (C_Dec d) \<longleftrightarrow> room_before_point a raw"
      using e decimal_fits [of a raw v k codes] by (auto simp: run_encode_def)
    then show ?thesis by simp
  next
    case Co_Number
    then show ?thesis using e encode_stamp_number(2) [of a raw v] by (auto simp: run_encode_def cell_fits_def)
  next
    case Co_Timestamp
    then show ?thesis using e encode_stamp_number(1) [of iso8601 a raw v] by (auto simp: run_encode_def cell_fits_def)
  next
    case Co_Date
    then show ?thesis using e parse_date_range by (auto simp: run_encode_def cell_fits_def)
  next
    case Co_Time
    then show ?thesis using e parse_time_range by (auto simp: run_encode_def cell_fits_def)
  next
    case Co_User
    then show ?thesis using e km by (auto simp: run_encode_def cell_fits_def)
  qed (use e km in \<open>auto simp: run_encode_def cell_fits_def\<close>)
qed

text \<open>A text and two decimals for \<open>NUMERIC(2,1)\<close>: 1.5 fits, 12 is accepted and does not.\<close>

theorem encode_fits_witness:
  "cell_fits string_kind (hd sample_shape) None (C_Str ''ABC'') \<and> cell_fits decimal_kind rating None (C_Dec (Dec 15 (-1))) \<and>
   \<not> cell_fits decimal_kind rating None (C_Dec (Dec 120 (-1)))"
proof (intro conjI)
  have r: "resolve (Some (at_type (hd sample_shape))) = Inr string_kind" "resolve (Some (at_type rating)) = Inr decimal_kind"
    by code_simp+
  have e: "encode_attr (\<lambda>_. None) string_kind (hd sample_shape) (JStr ''ABC'') None False = Inr (C_Str ''ABC'')"
    "encode_attr (\<lambda>_. None) decimal_kind rating (JStr ''1.5'') None False = Inr (C_Dec (Dec 15 (-1)))"
    "encode_attr (\<lambda>_. None) decimal_kind rating (JInt 12) None False = Inr (C_Dec (Dec 120 (-1)))"
    by code_simp+
  have "parse_decimal ''1.5'' = Finite_Number (Dec 15 (-1))" by code_simp
  then have n: "number_of (JStr ''1.5'') = Finite_Number (Dec 15 (-1))" "number_of (JInt 12) = Finite_Number (Dec 12 0)"
    by (simp_all add: number_of_def)
  then have room: "room_before_point rating (JStr ''1.5'')" "\<not> room_before_point rating (JInt 12)"
    by (simp_all add: room_before_point_def rating_def dec_value_def)
  show "cell_fits string_kind (hd sample_shape) None (C_Str ''ABC'')"
    using encode_fits [OF r(1) e(1)] by simp
  show "cell_fits decimal_kind rating None (C_Dec (Dec 15 (-1)))"
    using encode_fits [OF r(2) e(2)] room(1) by simp
  show "\<not> cell_fits decimal_kind rating None (C_Dec (Dec 120 (-1)))"
    using encode_fits [OF r(2) e(3)] room(2) by simp
qed

section \<open>Decimals\<close>

text \<open>A decimal is stored exactly: the value written is the value the input denotes, never a rounded one.\<close>
theorem decimal_exact:
  assumes "encode_decimal a raw = Inr v"
  shows "\<exists>d d0. v = C_Dec d \<and> number_of raw = Finite_Number d0 \<and> dec_value d = dec_value d0"
proof -
  obtain sc c e where "- e \<le> sc" "0 \<le> e \<longrightarrow> 0 \<le> sc" "number_of raw = Finite_Number (Dec c e)"
    "v = C_Dec (Dec (c * 10 ^ nat (e + sc)) (- sc))"
    using encode_decimal_Inr [OF assms] unfolding number_of_def by blast
  then show ?thesis using dec_value_shift by blast
qed

definition money :: attribute where
  "money = (plain_attribute ''price'' ''decimal'')\<lparr>at_precision := Some (JInt 5), at_scale := Some (JInt 2)\<rparr>"

theorem decimal_exact_witness:
  "encode_decimal money (JStr ''1.5'') = Inr (C_Dec (Dec 150 (-2))) \<and>
   (\<exists>d0. number_of (JStr ''1.5'') = Finite_Number d0 \<and> dec_value d0 = dec_value (Dec 150 (-2)))"
proof -
  have "encode_decimal money (JStr ''1.5'') = Inr (C_Dec (Dec 150 (-2)))" by code_simp
  then show ?thesis using decimal_exact [of money "JStr ''1.5''" "C_Dec (Dec 150 (-2))"] by force
qed

definition decimal_attribute :: "int \<Rightarrow> int \<Rightarrow> attribute" where
  "decimal_attribute p s = (plain_attribute ''price'' ''decimal'')\<lparr>at_precision := Some (JInt p), at_scale := Some (JInt s)\<rparr>"

lemma str_nat_length_ge: "10 ^ w \<le> n \<Longrightarrow> w < length (str_nat n)"
proof (induction w arbitrary: n)
  case 0
  then show ?case using str_nat_digits [of n] by simp
next
  case (Suc w)
  then have "10 * 10 ^ w \<le> n" by simp
  then have w: "10 ^ w \<le> n div 10" by (simp add: less_eq_div_iff_mult_less_eq mult.commute)
  have "(1 :: nat) \<le> 10 ^ w" by simp
  then have "\<not> n < 10" using \<open>10 * 10 ^ w \<le> n\<close> by linarith
  then show ?case using Suc.IH [OF w] by (simp add: str_nat.simps [of n])
qed

lemma nat_ten [simp]: "nat (10 ^ k) = 10 ^ k"
  by (simp add: nat_power_eq)

lemma encode_decimal_int:
  "encode_decimal (decimal_attribute p s) (JInt n) =
     (if 0 > s \<or> int (dec_digits (Dec n 0)) > p then row_error (decimal_attribute p s) ''exceeds precision/scale''
      else ok_bind (quantize (Dec n 0) s) (\<lambda>q. Inr (C_Dec q)))"
  by (simp add: encode_decimal_def decimal_attribute_def Let_def)

text \<open>The precision check counts the digits as they are written, not as they are stored: for every column with a
  scale, a number of \<open>precision\<close> digits before the point is accepted, although stored at the scale it has
  more digits than the precision.\<close>
theorem decimal_precision_exceeded:
  assumes "1 \<le> p" and "1 \<le> s" and "p + s \<le> 28"
  shows "\<exists>d. encode_decimal (decimal_attribute (int p) (int s)) (JInt (10 ^ (p - 1))) = Inr (C_Dec d) \<and> dec_digits d > p"
proof -
  let ?n = "(10 :: nat) ^ (p - 1)"
  have l: "length (str_nat ?n) \<le> p" using assms(1) by (intro str_nat_length power_strict_increasing) auto
  have m: "?n * 10 ^ s = 10 ^ (p - 1 + s)" by (simp add: power_add)
  have "length (str_nat (10 ^ (p - 1 + s))) \<le> p + s"
    using assms(1,2) by (intro str_nat_length power_strict_increasing) auto
  moreover have "p < length (str_nat (10 ^ (p - 1 + s)))"
    using str_nat_length_ge [of "p - 1 + s" "10 ^ (p - 1 + s)"] assms(2) by simp
  moreover have "(10 :: int) ^ (p - 1) * 10 ^ s = 10 ^ (p - 1 + s)" by (simp add: power_add)
  ultimately show ?thesis
    using l assms(3) by (simp add: encode_decimal_int quantize_def dec_digits_def Let_def)
qed

theorem decimal_precision_exceeded_witness:
  "\<exists>d. encode_decimal (decimal_attribute 5 2) (JInt 10000) = Inr (C_Dec d) \<and> dec_digits d > 5"
  using decimal_precision_exceeded [of 5 2] by simp

text \<open>A declared precision above 28 lets through numbers whose quantization needs more digits than the decimal
  context has, so the encoder raises an error that is not a row error.\<close>
theorem decimal_quantize_raises:
  assumes "29 \<le> p"
  shows "encode_decimal (decimal_attribute p (int s)) (JInt (10 ^ 28)) = Inl Decimal_Invalid"
proof -
  have l: "length (str_nat (10 ^ 28)) \<le> 29" by (rule str_nat_length) simp_all
  have "28 + s < length (str_nat (10 ^ (28 + s)))" by (rule str_nat_length_ge) simp
  moreover have "(10 :: int) ^ 28 * 10 ^ s = 10 ^ (28 + s)" by (simp only: power_add)
  then have "nat \<bar>10 ^ 28 * 10 ^ s\<bar> = (10 :: nat) ^ (28 + s)" by (simp only: power_abs abs_numeral nat_ten)
  ultimately have "28 < length (str_nat (nat \<bar>10 ^ 28 * 10 ^ s\<bar>))" by simp
  then show ?thesis
    using l assms by (simp add: encode_decimal_int quantize_def dec_digits_def Let_def)
qed

theorem decimal_quantize_raises_witness:
  "encode_decimal (decimal_attribute 40 2) (JInt (10 ^ 28)) = Inl Decimal_Invalid"
  using decimal_quantize_raises [of 40 2] by simp

section \<open>Reading back\<close>

lemma take_drop_date:
  assumes "length s = 10" and "s ! 4 = CHR ''-''" and "s ! 7 = CHR ''-''"
  shows "s = take 4 s @ ''-'' @ take 2 (drop 5 s) @ ''-'' @ take 2 (drop 8 s)"
proof -
  have "s = take 4 s @ s ! 4 # drop 5 s" using assms(1) id_take_nth_drop [of 4 s] by simp
  moreover have "drop 5 s = take 2 (drop 5 s) @ s ! 7 # drop 8 s"
    using assms(1) id_take_nth_drop [of 2 "drop 5 s"] by simp
  moreover have "take 2 (drop 8 s) = drop 8 s" using assms(1) by simp
  ultimately show ?thesis using assms by (metis append_Cons append_Nil)
qed

lemma pad_digits_id: "length t = w \<Longrightarrow> w \<noteq> 0 \<Longrightarrow> list_all is_digit t \<Longrightarrow> pad w (nat_of_digits t) = t"
  using pad_nat_of_digits [of t] by auto

lemma date_text_parse:
  assumes "parse_date s = Some n"
  shows "date_text n = s"
proof -
  let ?y = "take 4 s" and ?m = "take 2 (drop 5 s)" and ?d = "take 2 (drop 8 s)"
  have l: "length s = 10" "s ! 4 = CHR ''-''" "s ! 7 = CHR ''-''" and dg: "list_all is_digit (?y @ ?m @ ?d)"
    and v: "valid_date (int (nat_of_digits ?y)) (int (nat_of_digits ?m)) (int (nat_of_digits ?d))"
    and n: "n = ordinal (int (nat_of_digits ?y)) (int (nat_of_digits ?m)) (int (nat_of_digits ?d))"
    using assms by (simp_all add: parse_date_def Let_def split: if_splits)
  have "pad 4 (nat_of_digits ?y) = ?y" "pad 2 (nat_of_digits ?m) = ?m" "pad 2 (nat_of_digits ?d) = ?d"
    by (rule pad_digits_id; use l(1) dg in simp)+
  then show ?thesis using take_drop_date [OF l] by (simp add: date_text_def n ymd_ordinal [OF v])
qed

lemma two_digits_pad: "n < b \<Longrightarrow> b \<le> 100 \<Longrightarrow> two_digits (pad 2 n) b = Some n"
  using pad_length [of n 2] pad_digits [of 2 n] by (simp add: two_digits_def)

lemma length_two: "length s = 2 \<longleftrightarrow> (\<exists>a b. s = [a, b])"
  by (auto simp: numeral_2_eq_2 length_Suc_conv)

lemma parse_time_text:
  assumes "0 \<le> us" and "us < day_us"
  shows "parse_time (time_text us) = Some us"
proof -
  define s where "s = us div 1000000"
  define h mi sec where "h = nat (s div 3600)" and "mi = nat (s div 60 mod 60)" and "sec = nat (s mod 60)"
  define f where "f = nat (us mod 1000000)"
  have s: "0 \<le> s" "s < 86400" using assms by (auto simp: s_def day_us_def)
  have b: "h < 24" "mi < 60" "sec < 60" "f < 1000000" using s by (auto simp: h_def mi_def sec_def f_def nat_less_iff)
  have us: "us = ((int h * 60 + int mi) * 60 + int sec) * 1000000 + int f"
  proof -
    have i: "int h = s div 60 div 60" "int mi = s div 60 mod 60" "int sec = s mod 60"
      using s zdiv_zmult2_eq [of 60 s 60] by (simp_all add: h_def mi_def sec_def)
    have "(int h * 60 + int mi) * 60 + int sec = s" unfolding i by (simp only: div_mult_mod_eq)
    moreover have "us div 1000000 * 1000000 + us mod 1000000 = us" by (rule div_mult_mod_eq)
    ultimately show ?thesis using assms(1) by (simp add: f_def s_def)
  qed
  have "length (pad 2 h) = 2" by (rule pad_length) (use b in simp_all)
  then obtain h1 h2 where hp: "pad 2 h = [h1, h2]" by (auto simp: length_two)
  have "length (pad 2 mi) = 2" by (rule pad_length) (use b in simp_all)
  then obtain m1 m2 where mp: "pad 2 mi = [m1, m2]" by (auto simp: length_two)
  have "length (pad 2 sec) = 2" by (rule pad_length) (use b in simp_all)
  then obtain s1 s2 where sp: "pad 2 sec = [s1, s2]" by (auto simp: length_two)
  have t: "two_digits [h1, h2] 24 = Some h" "two_digits [m1, m2] 60 = Some mi" "two_digits [s1, s2] 60 = Some sec"
    using two_digits_pad [of h 24] two_digits_pad [of mi 60] two_digits_pad [of sec 60] b hp mp sp by simp_all
  have c: "clock_text s = [h1, h2, CHR '':'', m1, m2, CHR '':'', s1, s2]"
    using hp mp sp by (simp add: clock_text_def h_def mi_def sec_def)
  have n: "us mod 1000000 = int f" by (simp add: f_def)
  have fp: "length (pad 6 f) = 6" "list_all is_digit (pad 6 f)" by (rule pad_length, use b in simp_all) (rule pad_digits)
  show ?thesis
  proof (cases "f = 0")
    case True
    then have "time_text us = [h1, h2, CHR '':'', m1, m2, CHR '':'', s1, s2]" by (simp add: time_text_def s_def [symmetric] n c)
    then show ?thesis using t us True by (simp add: parse_time_def Let_def)
  next
    case False
    then have "time_text us = [h1, h2, CHR '':'', m1, m2, CHR '':'', s1, s2, CHR ''.''] @ pad 6 f"
      by (simp add: time_text_def s_def [symmetric] n c)
    moreover have "pad 6 f \<noteq> []" using fp(1) by auto
    ultimately show ?thesis using t us fp by (simp add: parse_time_def Let_def)
  qed
qed

text \<open>C14: reading gives back what was written: the value itself for every type but decimals, numbers, timestamps and
  times; of a time, a text that is written as the same time.\<close>
theorem decode_encode:
  assumes "encode_attr iso8601 k a raw codes f = Inr v"
  shows "(ak_codec k \<notin> {Co_Decimal, Co_Number, Co_Timestamp, Co_Time} \<longrightarrow> decode_attr k v = Some raw) \<and>
    (ak_codec k = Co_Time \<longrightarrow>
       (\<exists>t. decode_attr k v = Some (JStr t) \<and> encode_attr iso8601 k a (JStr t) codes f = Inr v))"
proof -
  have e: "run_encode iso8601 (ak_codec k) a raw codes f = Inr v" using assms by (simp add: encode_attr_def)
  show ?thesis
  proof (cases "ak_codec k")
    case Co_Date
    then show ?thesis using e date_text_parse by (auto simp: run_encode_def decode_attr_def run_decode_def)
  next
    case Co_Time
    then show ?thesis using e parse_time_text parse_time_range
      by (auto simp: run_encode_def decode_attr_def run_decode_def encode_attr_def)
  qed (use e in \<open>auto simp: run_encode_def decode_attr_def run_decode_def\<close>)
qed

definition date_kind :: attr_kind where
  "date_kind = simple_kind ''date'' ops_cmp ''DATE'' Co_Date"

theorem decode_encode_witness:
  "decode_attr date_kind (C_Date 2) = Some (JStr ''0001-01-02'')"
proof -
  have "encode_attr (\<lambda>_. None) date_kind money (JStr ''0001-01-02'') None False = Inr (C_Date 2)" by code_simp
  then show ?thesis
    using decode_encode [of "\<lambda>_. None" date_kind money "JStr ''0001-01-02''" None False "C_Date 2"]
    by (simp add: date_kind_def simple_kind_def)
qed

section \<open>Changes that keep every value\<close>

lemma roll_up_not_breaking: "roll_up cs \<noteq> Breaking \<Longrightarrow> c \<in> set cs \<Longrightarrow> sc_class c \<noteq> Breaking"
  by (force simp: roll_up_def split: if_splits)

lemma by_name_distinct:
  assumes "distinct (map at_name as)"
  shows "by_name as = map (\<lambda>a. (at_name a, a)) as"
  using assms by (simp add: by_name_def py_dict_distinct comp_def)

lemma by_name_Some: "map_of (by_name as) n = Some a \<Longrightarrow> a \<in> set as \<and> at_name a = n"
  by (auto simp: by_name_def dict_simps dest!: map_of_SomeD)

lemma by_name_member:
  assumes "distinct (map at_name as)" and "a \<in> set as"
  shows "map_of (by_name as) (at_name a) = Some a"
  using assms by (auto simp: by_name_distinct comp_def intro!: map_of_is_SomeI)

lemma by_name_none: "map_of (by_name as) n = None \<longleftrightarrow> n \<notin> at_name ` set as"
  by (auto simp: by_name_def dict_simps map_of_eq_None_iff image_image rev_map)

lemma compare_shapes_at:
  assumes "compare_shapes before after = Inr (c, ch)" and "n \<in> at_name ` (set before \<union> set after)"
  shows "\<exists>cs. attribute_changes (map_of (by_name before) n) (map_of (by_name after) n) = Inr cs \<and> set cs \<subseteq> set ch"
    and "c = roll_up ch"
proof -
  let ?names = "sort (remdups (map fst (by_name before) @ map fst (by_name after)))"
  obtain css where l: "list_all2 (\<lambda>n cs. attribute_changes (map_of (by_name before) n) (map_of (by_name after) n) = Inr cs) ?names css"
    and ch: "ch = concat css" "c = roll_up ch"
    using assms(1) unfolding compare_shapes_def Let_def ok_bind_Inr map_ok_Inr by auto
  have "n \<in> set ?names"
    using assms(2) by (auto simp: by_name_def dict_simps image_image)
  then obtain i where i: "i < length ?names" "?names ! i = n" by (metis in_set_conv_nth)
  then have "attribute_changes (map_of (by_name before) n) (map_of (by_name after) n) = Inr (css ! i)" "i < length css"
    using l list_all2_nthD [OF l i(1)] list_all2_lengthD [OF l] by (simp_all del: set_sort length_sort)
  then show "\<exists>cs. attribute_changes (map_of (by_name before) n) (map_of (by_name after) n) = Inr cs \<and> set cs \<subseteq> set ch"
    using ch(1) nth_mem by fastforce
  show "c = roll_up ch" by (rule ch(2))
qed

lemma flag_change_class:
  "(\<forall>x \<in> set (flag_change fld get cls a b). sc_class x \<noteq> Breaking) \<longleftrightarrow> get a = get b \<or> cls (get b) \<noteq> Breaking"
  by (simp add: flag_change_def shape_change_of_def)

lemma attribute_kept:
  assumes "attribute_changes (Some a) mb = Inr cs" and "\<And>x. x \<in> set cs \<Longrightarrow> sc_class x \<noteq> Breaking"
  shows "\<exists>b k. mb = Some b \<and> at_type b = at_type a \<and> (at_required b \<longrightarrow> at_required a) \<and>
    at_business_key b = at_business_key a \<and> resolve (Some (at_type a)) = Inr k \<and>
    (\<forall>x \<in> set (config_changes k a b). cc_class x \<noteq> Breaking)"
proof (cases mb)
  case None
  then obtain x where "cs = [x]" "sc_class x = Breaking"
    using assms(1) by (auto simp: attribute_changes_def opt_simps shape_change_of_def)
  then show ?thesis using assms(2) by simp
next
  case (Some b)
  have t: "at_type a = at_type b"
    using assms by (auto simp: Some attribute_changes_def shape_change_of_def Let_def split: if_splits)
  then obtain k where k: "resolve (Some (at_type a)) = Inr k"
    using assms(1) by (auto simp: Some attribute_changes_def Let_def opt_simps)
  let ?px = "''attributes.'' @ at_name a"
  let ?cs = "map (\<lambda>c. shape_change_of (?px @ CHR ''.'' # cc_suffix c) (cc_old c) (cc_new c) (cc_class c)) (config_changes k a b) @
      flag_change (?px @ ''.required'') at_required (\<lambda>r. if r then Breaking else Non_Breaking) a b @
      flag_change (?px @ ''.unique'') at_unique (\<lambda>_. Non_Breaking) a b @
      flag_change (?px @ ''.business_key'') at_business_key (\<lambda>_. Breaking) a b @
      flag_change (?px @ ''.indexed'') at_indexed (\<lambda>_. Non_Breaking) a b @
      (if at_description a = at_description b then []
       else [shape_change_of (?px @ ''.description'') (json_str_opt (at_description a))
               (json_str_opt (at_description b)) Unchanged])"
  have "attribute_changes (Some a) mb = Inr ?cs"
    unfolding Some attribute_changes_def Let_def prod.case option.case using t k by (simp only: if_cancel ok_bind_simps simp_thms if_False)
  then have cs: "cs = ?cs" using assms(1) by (simp only: sum.inject)
  have "\<forall>x \<in> set cs. sc_class x \<noteq> Breaking" using assms(2) by blast
  then have "(\<forall>x \<in> set (config_changes k a b). cc_class x \<noteq> Breaking) \<and> (at_required b \<longrightarrow> at_required a) \<and>
      at_business_key b = at_business_key a"
    unfolding cs set_append ball_Un flag_change_class by (auto simp: shape_change_of_def split: if_splits)
  then show ?thesis using Some t k by auto
qed

lemma row_error_name: "at_name b = at_name a \<Longrightarrow> row_error b = row_error a"
  by (rule ext) (simp add: row_error_def attr_text_def)

lemma config_keeps_values:
  assumes "resolve (Some (at_type a)) = Inr k" and "at_name b = at_name a" and "\<forall>x \<in> set (config_changes k a b). cc_class x \<noteq> Breaking"
    and "encode_attr iso8601 k a raw (at_codes a) f = Inr v"
  shows "encode_attr iso8601 k b raw (at_codes b) f = Inr v"
proof -
  note km = codec_names [OF resolve_kind(1) [OF assms(1)]]
  have e: "run_encode iso8601 (ak_codec k) a raw (at_codes a) f = Inr v" using assms(4) by (simp add: encode_attr_def)
  show ?thesis
  proof (cases "ak_codec k")
    case Co_String
    then obtain s m where s: "raw = JStr s" "at_max_length a = Some (JInt m)" "int (length s) \<le> m" "v = C_Str s"
      using e by (auto simp: run_encode_def)
    have "at_max_length a = at_max_length b \<or> widening (at_max_length a) (at_max_length b)"
      using assms(3) Co_String km by (auto simp: changes_defs change_def split: if_splits)
    then obtain n where "at_max_length b = Some (JInt n)" "m \<le> n"
      using s(2) by (auto simp: widening_def split: option.splits json.splits)
    then show ?thesis using s Co_String by (auto simp: encode_attr_def run_encode_def)
  next
    case Co_Decimal
    then have "at_precision a = at_precision b" "at_scale a = at_scale b"
      using assms(3) km by (auto simp: changes_defs change_def split: if_splits)
    then have "encode_decimal a raw = encode_decimal b raw"
      by (simp only: encode_decimal_def row_error_name [OF assms(2)])
    then show ?thesis using e Co_Decimal by (simp add: encode_attr_def run_encode_def)
  next
    case Co_Dictionary
    then obtain s cs where s: "raw = JStr s" "at_codes a = Some cs" "s \<in> set cs" "v = C_Str s"
      using e by (auto simp: run_encode_def)
    have "codes_minus (code_list a) (code_list b) = [] \<or> set (code_list a) = set (code_list b)"
      using assms(3) Co_Dictionary km by (auto simp: changes_defs dictionary_changes_def change_def Let_def split: if_splits)
    then have "set (code_list a) \<subseteq> set (code_list b)"
      by (auto simp: codes_minus_def filter_empty_conv dest: arg_cong [where f = set])
    then have "s \<in> set (code_list b)" using s(2,3) by (auto simp: code_list_def)
    then show ?thesis using s Co_Dictionary
      by (cases "at_codes b") (auto simp: encode_attr_def run_encode_def code_list_def)
  next
    case Co_Number
    have "encode_number a raw = encode_number b raw"
      by (simp only: encode_number_def row_error_name [OF assms(2)])
    then show ?thesis using e \<open>ak_codec k = _\<close> by (simp add: encode_attr_def run_encode_def)
  next
    case Co_Timestamp
    have "encode_timestamp iso8601 a raw = encode_timestamp iso8601 b raw"
      by (simp only: encode_timestamp_def row_error_name [OF assms(2)])
    then show ?thesis using e \<open>ak_codec k = _\<close> by (simp add: encode_attr_def run_encode_def)
  qed (use e in \<open>auto simp: encode_attr_def run_encode_def\<close>)
qed

text \<open>C9: a change the classification does not call breaking is safe for the stored data: every attribute is still
  there with its type and business key, none becomes required, no new one is required, and every value
  that could be written before can still be written, as the same cell.\<close>
theorem non_breaking_keeps_values:
  assumes "compare_shapes before after = Inr (c, ch)" and "c \<noteq> Breaking"
    and "distinct (map at_name before)" and "distinct (map at_name after)"
  shows "(\<forall>a \<in> set before. \<exists>b \<in> set after. at_name b = at_name a \<and> at_type b = at_type a \<and>
      at_business_key b = at_business_key a \<and> (at_required b \<longrightarrow> at_required a) \<and>
      (\<forall>k raw f v. resolve (Some (at_type a)) = Inr k \<longrightarrow> encode_attr iso8601 k a raw (at_codes a) f = Inr v \<longrightarrow>
         encode_attr iso8601 k b raw (at_codes b) f = Inr v)) \<and>
    (\<forall>b \<in> set after. at_name b \<notin> at_name ` set before \<longrightarrow> \<not> at_required b)"
proof (intro conjI ballI impI)
  fix a assume a: "a \<in> set before"
  then obtain cs where cs: "attribute_changes (map_of (by_name before) (at_name a)) (map_of (by_name after) (at_name a)) = Inr cs"
    "set cs \<subseteq> set ch" and c: "c = roll_up ch"
    using compare_shapes_at [OF assms(1), of "at_name a"] by blast
  have "sc_class x \<noteq> Breaking" if "x \<in> set cs" for x using roll_up_not_breaking assms(2) c cs(2) that by blast
  then obtain b k where b: "map_of (by_name after) (at_name a) = Some b" "at_type b = at_type a" "at_required b \<longrightarrow> at_required a"
    "at_business_key b = at_business_key a" "resolve (Some (at_type a)) = Inr k"
    "\<forall>x \<in> set (config_changes k a b). cc_class x \<noteq> Breaking"
    using attribute_kept cs(1) unfolding by_name_member [OF assms(3) a] by blast
  note m = by_name_Some [OF b(1)]
  show "\<exists>b \<in> set after. at_name b = at_name a \<and> at_type b = at_type a \<and>
      at_business_key b = at_business_key a \<and> (at_required b \<longrightarrow> at_required a) \<and>
      (\<forall>k raw f v. resolve (Some (at_type a)) = Inr k \<longrightarrow> encode_attr iso8601 k a raw (at_codes a) f = Inr v \<longrightarrow>
         encode_attr iso8601 k b raw (at_codes b) f = Inr v)"
    using b m config_keeps_values [of a k b iso8601] by (intro bexI [of _ b]) auto
next
  fix b assume b: "b \<in> set after" and n: "at_name b \<notin> at_name ` set before"
  then obtain cs where cs: "attribute_changes (map_of (by_name before) (at_name b)) (map_of (by_name after) (at_name b)) = Inr cs"
    "set cs \<subseteq> set ch" and c: "c = roll_up ch"
    using compare_shapes_at [OF assms(1), of "at_name b"] by blast
  have "map_of (by_name before) (at_name b) = None" using n by (simp add: by_name_none)
  then have "attribute_changes None (Some b) = Inr cs" using cs(1) by_name_member [OF assms(4) b] by simp
  then obtain x where "cs = [x]" "sc_class x = (if at_required b then Breaking else Non_Breaking)"
    by (auto simp: attribute_changes_def opt_simps shape_change_of_def)
  then show "\<not> at_required b" using roll_up_not_breaking [of ch x] assms(2) c cs(2) by auto
qed

definition widened_shape :: "attribute list" where
  "widened_shape = map (\<lambda>a. if at_name a = ''code'' then a\<lparr>at_max_length := Some (JInt 40)\<rparr> else a) sample_shape"

theorem non_breaking_keeps_values_witness:
  "\<exists>b \<in> set widened_shape. at_name b = ''code'' \<and> at_business_key b \<and>
     encode_attr (\<lambda>_. None) string_kind b (JStr ''ABC'') None False = Inr (C_Str ''ABC'')"
proof -
  have "case compare_shapes sample_shape widened_shape of Inl e \<Rightarrow> False | Inr (c, ch) \<Rightarrow> c = Non_Breaking"
    by code_simp
  then obtain ch where ch: "compare_shapes sample_shape widened_shape = Inr (Non_Breaking, ch)"
    by (auto split: sum.splits)
  have d: "distinct (map at_name sample_shape)" "distinct (map at_name widened_shape)" by code_simp+
  have a: "hd sample_shape \<in> set sample_shape" "at_name (hd sample_shape) = ''code''" "at_business_key (hd sample_shape)"
    by (simp_all add: sample_shape_def plain_attribute_def)
  have r: "resolve (Some (at_type (hd sample_shape))) = Inr string_kind" by code_simp
  have e: "encode_attr (\<lambda>_. None) string_kind (hd sample_shape) (JStr ''ABC'') (at_codes (hd sample_shape)) False = Inr (C_Str ''ABC'')"
    by code_simp
  have "\<forall>b \<in> set widened_shape. at_codes b = None" by (simp add: widened_shape_def sample_shape_def plain_attribute_def)
  moreover obtain b where "b \<in> set widened_shape" "at_name b = ''code''" "at_business_key b"
    "encode_attr (\<lambda>_. None) string_kind b (JStr ''ABC'') (at_codes b) False = Inr (C_Str ''ABC'')"
    using non_breaking_keeps_values [OF ch change_class.distinct(2) d, of "\<lambda>_. None"] a r e by metis
  ultimately show ?thesis by metis
qed

end
