(* ===== verification/Row_Rule.thy ===== *)
theory Row_Rule
  imports Entity_Values
begin

text \<open>
  The row-rule language (\<open>entity/access/dsl.py\<close>, with \<open>AttrFact\<close> and \<open>SubjectAttrFact\<close> of \<open>facts.py\<close>): the
  check of an authored rule, the warnings, the SQL text a rule compiles to and its evaluation on a
  row in memory. The SQL is built as an expression (\<open>sql_expr\<close>) and printed by \<open>sql_text\<close>.

  A row maps a column to the value the driver or the decoder gives for it; the \<open>repr\<close> of psycopg's
  \<open>Jsonb\<close> wrapper is the parameter \<open>jsonb_repr\<close>.
\<close>

section \<open>Facts\<close>

record attr_fact =
  af_id :: string
  af_name :: string
  af_type :: string
  af_dictionary_id :: "string option"
  af_max_length :: "int option"
  af_precision :: "int option"
  af_scale :: "int option"
  af_codes :: "string list option"
  af_reference_key_type :: "string option"
  af_reference_max_length :: "int option"

record subject_fact =
  sf_key :: string
  sf_value_type :: string
  sf_dictionary_id :: "string option"
  sf_multi_value :: bool

type_synonym attr_facts = "string \<Rightarrow> attr_fact option"
type_synonym subject_facts = "string \<Rightarrow> subject_fact option"
type_synonym subject_values = "string \<Rightarrow> cell list"
type_synonym row = "string \<Rightarrow> cell option"

datatype rule_error = Rule_Problem string string | Rule_Raised entity_error

type_synonym 'a ruled = "rule_error + 'a"

definition raised :: "'a fallible \<Rightarrow> 'a ruled" where
  "raised r = (case r of Inl e \<Rightarrow> Inl (Rule_Raised e) | Inr x \<Rightarrow> Inr x)"

definition value_type :: "attr_fact \<Rightarrow> string" where
  "value_type a =
     (if af_type a = ''reference'' then (case af_reference_key_type a of None \<Rightarrow> [] | Some t \<Rightarrow> t) else af_type a)"

definition fact_operators :: "attr_fact \<Rightarrow> string list fallible" where
  "fact_operators a =
     (if value_type a = [] then Inr [] else ok_bind (resolve (Some (value_type a))) (\<lambda>k. Inr (ak_operators k)))"

definition pg_types :: "(string \<times> string) list" where
  "pg_types =
     [(''string'', ''text''), (''text'', ''text''), (''integer'', ''bigint''), (''decimal'', ''numeric''),
      (''number'', ''double precision''), (''boolean'', ''boolean''), (''date'', ''date''), (''timestamp'', ''timestamptz''),
      (''time'', ''time''), (''json'', ''jsonb''), (''dictionary'', ''text''), (''user'', ''text'')]"

definition pg_type :: "attr_fact \<Rightarrow> string" where
  "pg_type a = (case map_of pg_types (value_type a) of None \<Rightarrow> ''text'' | Some t \<Rightarrow> t)"

section \<open>Durations\<close>

text \<open>The groups of the duration expression, as the digits it matched; seconds may have a fraction.\<close>

record duration =
  du_neg :: bool
  du_y :: "string option"
  du_mo :: "string option"
  du_d :: "string option"
  du_h :: "string option"
  du_mi :: "string option"
  du_s :: "(string \<times> string option) option"

definition take_unit :: "char \<Rightarrow> string \<Rightarrow> string option \<times> string" where
  "take_unit u s =
     (let ds = takeWhile is_digit s; r = dropWhile is_digit s in
      if ds \<noteq> [] \<and> take 1 r = [u] then (Some ds, drop 1 r) else (None, s))"

definition take_seconds :: "string \<Rightarrow> (string \<times> string option) option \<times> string" where
  "take_seconds s =
     (let ds = takeWhile is_digit s; r = dropWhile is_digit s; fs = takeWhile is_digit (drop 1 r); q = dropWhile is_digit (drop 1 r) in
      if ds = [] then (None, s)
      else if take 1 r = ''S'' then (Some (ds, None), drop 1 r)
      else if take 1 r = ''.'' \<and> fs \<noteq> [] \<and> take 1 q = ''S'' then (Some (ds, Some fs), drop 1 q)
      else (None, s))"

definition match_duration :: "string \<Rightarrow> duration option" where
  "match_duration raw =
     (let neg = (take 1 raw = ''-''); s = (if neg then drop 1 raw else raw) in
      if take 1 s \<noteq> ''P'' then None
      else
        (case take_unit (CHR ''Y'') (drop 1 s) of (y, s1) \<Rightarrow>
         case take_unit (CHR ''M'') s1 of (mo, s2) \<Rightarrow>
         case take_unit (CHR ''D'') s2 of (d, s3) \<Rightarrow>
         if s3 = []
         then Some \<lparr>du_neg = neg, du_y = y, du_mo = mo, du_d = d, du_h = None, du_mi = None, du_s = None\<rparr>
         else if take 1 s3 \<noteq> ''T'' then None
         else
           (case take_unit (CHR ''H'') (drop 1 s3) of (h, s4) \<Rightarrow>
            case take_unit (CHR ''M'') s4 of (mi, s5) \<Rightarrow>
            case take_seconds s5 of (sec, s6) \<Rightarrow>
            if s6 = [] then Some \<lparr>du_neg = neg, du_y = y, du_mo = mo, du_d = d, du_h = h, du_mi = mi, du_s = sec\<rparr>
            else None)))"

definition has_time :: "duration \<Rightarrow> bool" where
  "has_time u = (du_h u \<noteq> None \<or> du_mi u \<noteq> None \<or> du_s u \<noteq> None)"

definition has_date :: "duration \<Rightarrow> bool" where
  "has_date u = (du_y u \<noteq> None \<or> du_mo u \<noteq> None \<or> du_d u \<noteq> None)"

definition parse_duration :: "json \<Rightarrow> string \<Rightarrow> string \<Rightarrow> duration ruled" where
  "parse_duration raw path kind =
     (case raw of
        JStr s \<Rightarrow>
          (case match_duration s of
             None \<Rightarrow> Inl (Rule_Problem path ''rel_time must be an ISO 8601 duration'')
           | Some u \<Rightarrow>
               if \<not> has_date u \<and> \<not> has_time u then Inl (Rule_Problem path ''rel_time must be an ISO 8601 duration'')
               else if kind = ''date'' \<and> has_time u then Inl (Rule_Problem path ''rel_time on a date cannot include a time'')
               else if CHR ''T'' \<in> set s \<and> \<not> has_time u then Inl (Rule_Problem path ''rel_time must be an ISO 8601 duration'')
               else Inr u)
      | _ \<Rightarrow> Inl (Rule_Problem path ''rel_time must be an ISO 8601 duration''))"

definition digits_int :: "string option \<Rightarrow> int" where
  "digits_int v = (case v of None \<Rightarrow> 0 | Some ds \<Rightarrow> int (nat_of_digits ds))"

definition micros :: "string option \<Rightarrow> int" where
  "micros f = (case f of None \<Rightarrow> 0 | Some fs \<Rightarrow> int (nat_of_digits (take 6 (fs @ ''000000''))))"

definition seconds_us :: "(string \<times> string option) option \<Rightarrow> int" where
  "seconds_us s = (case s of None \<Rightarrow> 0 | Some (ds, f) \<Rightarrow> int (nat_of_digits ds) * 1000000 + micros f)"

definition time_us :: "string option \<Rightarrow> string option \<Rightarrow> (string \<times> string option) option \<Rightarrow> int" where
  "time_us h mi s = (digits_int h * 60 + digits_int mi) * 60 * 1000000 + seconds_us s"

text \<open>Month arithmetic with the day clamped to the length of the month, then days and clock time, in UTC.\<close>

definition shift_year_month :: "int \<Rightarrow> int \<Rightarrow> int \<times> int" where
  "shift_year_month now months =
     (case ymd (now div day_us) of (y, m, d) \<Rightarrow> (y + (m - 1 + months) div 12, (m - 1 + months) mod 12 + 1))"

definition shift_us :: "int \<Rightarrow> int \<Rightarrow> int \<Rightarrow> int \<Rightarrow> int" where
  "shift_us now months days us =
     (case shift_year_month now months of (y, m) \<Rightarrow>
        (ordinal y m (min (snd (snd (ymd (now div day_us)))) (days_in_month y m)) + days) * day_us + now mod day_us + us)"

definition duration_sign :: "duration \<Rightarrow> int" where
  "duration_sign u = (if du_neg u then - 1 else 1)"

text \<open>\<open>_shift\<close>: every group takes the sign. \<open>_month_days\<close> steps back from the first of the next month, so December
  9999 raises and December of the year 0 overflows; a result outside the years 1 to 9999 overflows.\<close>

definition shift :: "int \<Rightarrow> duration \<Rightarrow> int fallible" where
  "shift now u =
     (let sg = duration_sign u; months = sg * (12 * digits_int (du_y u) + digits_int (du_mo u));
          (y, m) = shift_year_month now months;
          t = shift_us now months (sg * digits_int (du_d u)) (sg * time_us (du_h u) (du_mi u) (du_s u))
      in if y = 0 \<and> m = 12 then Inl Overflow_Error
         else if y < 1 \<or> y > 9999 \<or> (y = 9999 \<and> m = 12) then Inl Value_Error
         else if t < instant_min \<or> t \<ge> instant_end then Inl Overflow_Error else Inr t)"

section \<open>Checking a rule\<close>

definition leaf_max :: nat where "leaf_max = 20"
definition depth_max :: nat where "depth_max = 8"
definition rule_ops :: "string list" where
  "rule_ops = [''eq'', ''ne'', ''lt'', ''lte'', ''gt'', ''gte'', ''in'', ''is_null'', ''contains'']"
definition rule_cmp :: "string list" where "rule_cmp = [''lt'', ''lte'', ''gt'', ''gte'']"

record walk_state =
  ws_leaves :: nat
  ws_ids :: "string list"
  ws_keys :: "string list"
  ws_uses_subject :: bool

definition operand_name :: "(string \<times> json) list \<Rightarrow> string \<Rightarrow> string ruled" where
  "operand_name body path =
     (case filter (\<lambda>k. k \<noteq> ''attr'') (map fst body) of
        [n] \<Rightarrow> Inr n
      | _ \<Rightarrow> Inl (Rule_Problem path ''leaf must name exactly one operand''))"

definition subject_compat :: "string \<Rightarrow> string list" where
  "subject_compat t =
     (if t = ''string'' then [''string'', ''text'']
      else if t \<in> {''integer'', ''date'', ''dictionary'', ''user''} then [t] else [])"

definition blank_id :: "string option \<Rightarrow> bool" where
  "blank_id d = (d = None \<or> d = Some [])"

definition subject_compatible :: "string \<Rightarrow> attr_fact \<Rightarrow> subject_fact \<Rightarrow> unit ruled" where
  "subject_compatible path a sub =
     (if value_type a \<notin> set (subject_compat (sf_value_type sub))
      then Inl (Rule_Problem path (''subject attribute '' @ quoted (sf_key sub) @ '' is not compatible with '' @ af_type a))
      else if (af_type a = ''dictionary'' \<or> sf_value_type sub = ''dictionary'') \<and>
         (af_dictionary_id a \<noteq> sf_dictionary_id sub \<or> blank_id (af_dictionary_id a))
      then Inl (Rule_Problem path ''dictionary operands must share the attribute dictionary_id'')
      else Inr ())"

text \<open>\<open>_encode\<close> builds an attribute record from the fact; its value type is that of the key for a reference.\<close>

definition fact_attribute :: "attr_fact \<Rightarrow> attribute" where
  "fact_attribute a =
     \<lparr>at_name = af_name a, at_type = (if value_type a = [] then af_type a else value_type a), at_required = False,
      at_unique = False, at_indexed = False, at_business_key = False, at_description = None,
      at_max_length = map_option JInt (if af_type a = ''reference'' then af_reference_max_length a else af_max_length a),
      at_precision = map_option JInt (af_precision a), at_scale = map_option JInt (af_scale a),
      at_dictionary_id = af_dictionary_id a, at_target_entity_id = None, at_codes = af_codes a,
      at_reference_key_type = None, at_reference_max_length = None, at_attribute_id = Some (af_id a)\<rparr>"

definition encode_fact :: "iso_parser \<Rightarrow> json \<Rightarrow> attr_fact \<Rightarrow> string \<Rightarrow> cell ruled" where
  "encode_fact iso8601 raw a path =
     (if value_type a = [] then Inl (Rule_Problem path (''attribute '' @ quoted (af_id a) @ '' has no value type''))
      else case resolve (Some (value_type a)) of
          Inl e \<Rightarrow> Inl (Rule_Raised e)
        | Inr k \<Rightarrow> (case encode_attr iso8601 k (fact_attribute a) raw (af_codes a) True of
              Inl (Row_Invalid msg) \<Rightarrow> Inl (Rule_Problem path msg)
            | Inl e \<Rightarrow> Inl (Rule_Raised e)
            | Inr v \<Rightarrow> Inr v))"

definition item_path :: "string \<Rightarrow> nat \<Rightarrow> string" where
  "item_path p i = p @ ''['' @ str_nat i @ '']''"

primrec encode_items :: "iso_parser \<Rightarrow> attr_fact \<Rightarrow> string \<Rightarrow> nat \<Rightarrow> json list \<Rightarrow> cell list ruled" where
  "encode_items iso8601 a path i [] = Inr []"
| "encode_items iso8601 a path i (x # xs) =
     ok_bind (encode_fact iso8601 x a (item_path path i)) (\<lambda>v.
       ok_bind (encode_items iso8601 a path (Suc i) xs) (\<lambda>vs. Inr (v # vs)))"

definition check_value :: "iso_parser \<Rightarrow> string \<Rightarrow> json \<Rightarrow> attr_fact \<Rightarrow> string \<Rightarrow> unit ruled" where
  "check_value iso8601 op raw a path =
     (if op = ''in'' then
        (case raw of
           JArr (x # xs) \<Rightarrow> ok_bind (encode_items iso8601 a (path @ ''.value'') 0 (x # xs)) (\<lambda>_. Inr ())
         | _ \<Rightarrow> Inl (Rule_Problem path ''in value must be a non-empty list''))
      else if op = ''contains'' then
        (case raw of JStr s \<Rightarrow> Inr () | _ \<Rightarrow> Inl (Rule_Problem path ''contains value must be a string''))
      else ok_bind (encode_fact iso8601 raw a (path @ ''.value'')) (\<lambda>_. Inr ()))"

definition body_at :: "(string \<times> json) list \<Rightarrow> string \<Rightarrow> json ruled" where
  "body_at body key = (case map_of body key of None \<Rightarrow> Inl (Rule_Raised Key_Error) | Some v \<Rightarrow> Inr v)"

definition walk_leaf ::
  "iso_parser \<Rightarrow> attr_facts \<Rightarrow> subject_facts \<Rightarrow> string \<Rightarrow> json \<Rightarrow> string \<Rightarrow> walk_state \<Rightarrow> walk_state ruled" where
  "walk_leaf iso8601 attrs subs op body path st =
     (case body of
        JObj kvs \<Rightarrow>
          (case map_of kvs ''attr'' of
             Some (JStr attribute_id) \<Rightarrow>
               if attribute_id = [] then Inl (Rule_Problem path ''attr must be an attribute id'')
               else (case attrs attribute_id of
                   None \<Rightarrow> Inl (Rule_Problem path (''unknown attribute '' @ quoted attribute_id))
                 | Some a \<Rightarrow>
                     ok_bind (operand_name kvs path) (\<lambda>operand.
                       let st1 = st\<lparr>ws_ids := ws_ids st @ [attribute_id]\<rparr>; v = json_opt (map_of kvs operand) in
                       if op = ''is_null'' then
                         (case v of
                            JBool b \<Rightarrow> if operand = ''value'' then Inr st1
                              else Inl (Rule_Problem path ''is_null takes value true or false'')
                          | _ \<Rightarrow> Inl (Rule_Problem path ''is_null takes value true or false''))
                       else if operand = ''subject_id'' then
                         (if v \<noteq> JBool True \<or> op \<notin> {''eq'', ''ne''}
                          then Inl (Rule_Problem path ''subject_id is true and only eq or ne'')
                          else if af_type a \<noteq> ''user''
                          then Inl (Rule_Problem path ''subject_id compares only a user attribute'')
                          else Inr (st1\<lparr>ws_uses_subject := True\<rparr>))
                       else if operand = ''subject_attr'' then
                         (if op \<noteq> ''in'' then Inl (Rule_Problem path ''subject_attr is only valid for in'')
                          else (case v of
                              JStr key \<Rightarrow>
                                if key = [] then Inl (Rule_Problem path ''subject_attr must be a key'')
                                else (case subs key of
                                    None \<Rightarrow> Inl (Rule_Problem path (''unknown subject attribute '' @ quoted key))
                                  | Some sub \<Rightarrow> ok_bind (subject_compatible path a sub) (\<lambda>_.
                                      Inr (st1\<lparr>ws_keys := ws_keys st1 @ [key]\<rparr>)))
                            | _ \<Rightarrow> Inl (Rule_Problem path ''subject_attr must be a key'')))
                       else if operand = ''rel_time'' then
                         (if op \<notin> set rule_cmp
                          then Inl (Rule_Problem path ''rel_time is only valid for lt, lte, gt, and gte'')
                          else if value_type a \<notin> {''date'', ''timestamp''}
                          then Inl (Rule_Problem path ''rel_time compares only date or timestamp'')
                          else ok_bind (parse_duration v path (value_type a)) (\<lambda>_. Inr st1))
                       else if operand \<noteq> ''value'' then Inl (Rule_Problem path ''leaf operand is missing'')
                       else ok_bind (raised (fact_operators a)) (\<lambda>ops.
                         if op \<notin> set ops
                         then Inl (Rule_Problem path (''operator '' @ quoted op @ '' is not allowed for type '' @ af_type a))
                         else ok_bind (check_value iso8601 op v a path) (\<lambda>_. Inr st1))))
           | _ \<Rightarrow> Inl (Rule_Problem path ''attr must be an attribute id''))
      | _ \<Rightarrow> Inl (Rule_Problem path ''leaf must be an object''))"

fun walk :: "iso_parser \<Rightarrow> attr_facts \<Rightarrow> subject_facts \<Rightarrow> string \<Rightarrow> nat \<Rightarrow> json \<Rightarrow> walk_state \<Rightarrow> walk_state ruled"
  and walk_items :: "iso_parser \<Rightarrow> attr_facts \<Rightarrow> subject_facts \<Rightarrow> string \<Rightarrow> nat \<Rightarrow> nat \<Rightarrow> json list \<Rightarrow> walk_state \<Rightarrow> walk_state ruled"
where
  "walk iso8601 attrs subs path depth node st =
     (if depth > depth_max then Inl (Rule_Problem path ''rule depth exceeds 8'')
      else (case node of
          JObj [(key, body)] \<Rightarrow>
            if key = ''not'' then walk iso8601 attrs subs (path @ ''.not'') (Suc depth) body st
            else if key = ''and'' \<or> key = ''or'' then
              (case body of
                 JArr (x # xs) \<Rightarrow> walk_items iso8601 attrs subs (path @ CHR ''.'' # key) (Suc depth) 0 (x # xs) st
               | _ \<Rightarrow> Inl (Rule_Problem (path @ CHR ''.'' # key) (key @ '' must be a non-empty list'')))
            else if key \<notin> set rule_ops then Inl (Rule_Problem path (''unknown rule operator '' @ quoted key))
            else if Suc (ws_leaves st) > leaf_max then Inl (Rule_Problem path ''rule has more than 20 leaves'')
            else walk_leaf iso8601 attrs subs key body (path @ CHR ''.'' # key) (st\<lparr>ws_leaves := Suc (ws_leaves st)\<rparr>)
        | _ \<Rightarrow> Inl (Rule_Problem path ''rule node must be a single-key object'')))"
| "walk_items iso8601 attrs subs path depth i [] st = Inr st"
| "walk_items iso8601 attrs subs path depth i (x # xs) st =
     ok_bind (walk iso8601 attrs subs (item_path path i) depth x st) (\<lambda>st1.
       walk_items iso8601 attrs subs path depth (Suc i) xs st1)"

declare walk.simps [simp del]

record rule_info =
  ri_attribute_ids :: "string list"
  ri_subject_keys :: "string list"
  ri_uses_subject_id :: bool

definition dedupe :: "string list \<Rightarrow> string list" where
  "dedupe xs = rev (remdups (rev xs))"

definition start_walk :: walk_state where
  "start_walk = \<lparr>ws_leaves = 0, ws_ids = [], ws_keys = [], ws_uses_subject = False\<rparr>"

definition validate_rule :: "iso_parser \<Rightarrow> json \<Rightarrow> attr_facts \<Rightarrow> subject_facts \<Rightarrow> rule_info ruled" where
  "validate_rule iso8601 rule attrs subs =
     (if rule = JNull then Inr \<lparr>ri_attribute_ids = [], ri_subject_keys = [], ri_uses_subject_id = False\<rparr>
      else ok_bind (walk iso8601 attrs subs ''$'' 1 rule start_walk) (\<lambda>st.
        Inr \<lparr>ri_attribute_ids = ws_ids st, ri_subject_keys = dedupe (ws_keys st), ri_uses_subject_id = ws_uses_subject st\<rparr>))"

record rule_warning =
  rw_path :: string
  rw_attribute_id :: string
  rw_message :: string

fun warn :: "string set \<Rightarrow> string \<Rightarrow> json \<Rightarrow> rule_warning list"
  and warn_items :: "string set \<Rightarrow> string \<Rightarrow> nat \<Rightarrow> json list \<Rightarrow> rule_warning list"
where
  "warn visible path node =
     (case node of
        JObj [(key, body)] \<Rightarrow>
          if key = ''not'' then warn visible (path @ ''.not'') body
          else (case body of
              JArr xs \<Rightarrow> if key = ''and'' \<or> key = ''or'' then warn_items visible (path @ CHR ''.'' # key) 0 xs else []
            | JObj kvs \<Rightarrow>
                if key \<notin> set rule_ops then []
                else (case map_of kvs ''attr'' of
                    Some (JStr i) \<Rightarrow>
                      if i \<in> visible then []
                      else [\<lparr>rw_path = path @ CHR ''.'' # key, rw_attribute_id = i,
                             rw_message = ''row visibility discloses that this hidden attribute satisfies the rule''\<rparr>]
                  | _ \<Rightarrow> [])
            | _ \<Rightarrow> [])
      | _ \<Rightarrow> [])"
| "warn_items visible path i [] = []"
| "warn_items visible path i (x # xs) = warn visible (item_path path i) x @ warn_items visible path (Suc i) xs"

declare warn.simps [simp del]

definition rule_warnings :: "json \<Rightarrow> string set \<Rightarrow> rule_warning list" where
  "rule_warnings rule visible = warn visible ''$'' rule"

section \<open>Comparing values\<close>

definition parse_int :: "string \<Rightarrow> int option" where
  "parse_int text =
     (let s = py_strip text; neg = (take 1 s = ''-''); b = (if take 1 s \<in> {''-'', ''+''} then drop 1 s else s) in
      if b = [] \<or> \<not> list_all is_digit b then None
      else Some (if neg then - int (nat_of_digits b) else int (nat_of_digits b)))"

text \<open>\<open>_as_comparable\<close>, on the values a column of that type gives: the driver's value or its decoded text. Dates
  and times are left as they are.\<close>

definition instant_of :: "iso_parser \<Rightarrow> string \<Rightarrow> cell fallible" where
  "instant_of iso8601 s =
     (case parse_instant iso8601 s of Inr us \<Rightarrow> Inr (C_Stamp us) | Inl Out_Of_Range \<Rightarrow> Inl Overflow_Error | Inl _ \<Rightarrow> Inl Value_Error)"

definition as_comparable :: "iso_parser \<Rightarrow> string \<Rightarrow> cell \<Rightarrow> cell fallible" where
  "as_comparable iso8601 kind v =
     (if kind = ''integer'' then
        (case v of
           C_Int n \<Rightarrow> Inr v | C_Bool b \<Rightarrow> Inr v
         | C_Str s \<Rightarrow> (case parse_int s of None \<Rightarrow> Inl Value_Error | Some n \<Rightarrow> Inr (C_Int n))
         | _ \<Rightarrow> Inl Type_Error)
      else if kind = ''decimal'' then
        (case v of
           C_Dec d \<Rightarrow> Inr v | C_Int n \<Rightarrow> Inr (C_Dec (Dec n 0)) | C_Float r \<Rightarrow> Inr (C_Dec (dec_of_float r))
         | C_Str s \<Rightarrow> (case parse_decimal s of Finite_Number d \<Rightarrow> Inr (C_Dec d) | _ \<Rightarrow> Inl Decimal_Invalid)
         | _ \<Rightarrow> Inl Decimal_Invalid)
      else if kind = ''number'' then
        (case v of
           C_Float r \<Rightarrow> Inr v | C_Bool b \<Rightarrow> Inr v | C_Int n \<Rightarrow> ok_bind (float_of_int n) (\<lambda>r. Inr (C_Float r))
         | _ \<Rightarrow> Inl Type_Error)
      else if kind = ''timestamp'' then (case v of C_Str s \<Rightarrow> instant_of iso8601 s | _ \<Rightarrow> Inr v)
      else Inr v)"

text \<open>Python's \<open>==\<close> and order on these values. A \<open>Jsonb\<close> wrapper equals only itself, so a JSON value never equals
  an encoded one; an order between two kinds is a \<open>TypeError\<close>.\<close>

definition cell_rank :: "cell \<Rightarrow> (nat \<times> rat) option" where
  "cell_rank v =
     (case v of
        C_Int n \<Rightarrow> Some (0, of_int n) | C_Dec d \<Rightarrow> Some (0, dec_value d) | C_Float r \<Rightarrow> Some (0, r)
      | C_Bool b \<Rightarrow> Some (0, if b then 1 else 0) | C_Date n \<Rightarrow> Some (1, of_int n) | C_Stamp us \<Rightarrow> Some (2, of_int us)
      | C_Time us \<Rightarrow> Some (3, of_int us) | _ \<Rightarrow> None)"

definition cell_eq :: "cell \<Rightarrow> cell \<Rightarrow> bool" where
  "cell_eq v w =
     (case (cell_rank v, cell_rank w) of
        (Some x, Some y) \<Rightarrow> x = y
      | _ \<Rightarrow> (case (v, w) of (C_Str s, C_Str t) \<Rightarrow> s = t | _ \<Rightarrow> False))"

definition cmp_op :: "string \<Rightarrow> 'a::linorder \<Rightarrow> 'a \<Rightarrow> bool" where
  "cmp_op op x y = (if op = ''lt'' then x < y else if op = ''lte'' then x \<le> y else if op = ''gt'' then y < x else y \<le> x)"

definition cell_cmp :: "string \<Rightarrow> cell \<Rightarrow> cell \<Rightarrow> bool fallible" where
  "cell_cmp op v w =
     (case (cell_rank v, cell_rank w) of
        (Some (i, x), Some (j, y)) \<Rightarrow> if i = j then Inr (cmp_op op x y) else Inl Type_Error
      | _ \<Rightarrow> (case (v, w) of (C_Str s, C_Str t) \<Rightarrow> Inr (cmp_op op s t) | _ \<Rightarrow> Inl Type_Error))"

definition same :: "iso_parser \<Rightarrow> attr_fact \<Rightarrow> cell \<Rightarrow> cell \<Rightarrow> bool fallible" where
  "same iso8601 a v w =
     ok_bind (as_comparable iso8601 (value_type a) v) (\<lambda>x.
       ok_bind (as_comparable iso8601 (value_type a) w) (\<lambda>y. Inr (cell_eq x y)))"

text \<open>\<open>any(...)\<close> and \<open>all(...)\<close> over fallible tests stop at the first answer.\<close>

primrec any_ok :: "('a \<Rightarrow> 'e + bool) \<Rightarrow> 'a list \<Rightarrow> 'e + bool" where
  "any_ok f [] = Inr False"
| "any_ok f (x # xs) = ok_bind (f x) (\<lambda>b. if b then Inr True else any_ok f xs)"

section \<open>Evaluating a rule\<close>

text \<open>\<open>str(value)\<close> of a value \<open>contains\<close> can meet.\<close>

definition cell_text :: "cell \<Rightarrow> string fallible" where
  "cell_text v = (case v of C_Str s \<Rightarrow> Inr s | C_Int n \<Rightarrow> Inr (str_int n) | C_Date n \<Rightarrow> Inr (date_text n) | _ \<Rightarrow> Inl Type_Error)"

definition body_text :: "(string \<times> json) list \<Rightarrow> string \<Rightarrow> string ruled" where
  "body_text body key = ok_bind (body_at body key) (\<lambda>v. raised (text_of v))"

definition body_fact :: "attr_facts \<Rightarrow> (string \<times> json) list \<Rightarrow> attr_fact ruled" where
  "body_fact attrs body =
     ok_bind (body_text body ''attr'') (\<lambda>i. case attrs i of None \<Rightarrow> Inl (Rule_Raised Key_Error) | Some a \<Rightarrow> Inr a)"

definition rel_boundary :: "int \<Rightarrow> attr_fact \<Rightarrow> string \<Rightarrow> cell ruled" where
  "rel_boundary now a raw =
     (case match_duration raw of
        None \<Rightarrow> Inl (Rule_Raised Assertion_Error)
      | Some u \<Rightarrow> ok_bind (raised (shift now u)) (\<lambda>t.
          Inr (if value_type a = ''date'' then C_Date (t div day_us) else C_Stamp t)))"

definition eval_leaf ::
  "iso_parser \<Rightarrow> row \<Rightarrow> attr_facts \<Rightarrow> string \<Rightarrow> subject_values \<Rightarrow> int \<Rightarrow> string \<Rightarrow> (string \<times> json) list \<Rightarrow> bool ruled" where
  "eval_leaf iso8601 row attrs subject_id subject_values now op body =
     ok_bind (body_fact attrs body) (\<lambda>a.
       let current = row (af_name a) in
       if op = ''is_null'' then
         ok_bind (body_at body ''value'') (\<lambda>v. Inr (if truthy (Some v) then current = None else current \<noteq> None))
       else if map_of body ''subject_id'' \<noteq> None then
         (case current of
            None \<Rightarrow> Inr (op = ''ne'')
          | Some v \<Rightarrow> Inr (if op = ''ne'' then \<not> cell_eq v (C_Str subject_id) else cell_eq v (C_Str subject_id)))
       else if map_of body ''subject_attr'' \<noteq> None then
         (case current of
            None \<Rightarrow> Inr False
          | Some v \<Rightarrow> ok_bind (body_text body ''subject_attr'') (\<lambda>key.
              any_ok (\<lambda>w. raised (same iso8601 a v w)) (subject_values key)))
       else if map_of body ''rel_time'' \<noteq> None then
         (case current of
            None \<Rightarrow> Inr False
          | Some v \<Rightarrow> ok_bind (body_text body ''rel_time'') (\<lambda>raw.
              ok_bind (rel_boundary now a raw) (\<lambda>right.
                ok_bind (raised (as_comparable iso8601 (value_type a) v)) (\<lambda>left. raised (cell_cmp op left right)))))
       else if op = ''in'' then
         (case current of
            None \<Rightarrow> Inr False
          | Some v \<Rightarrow> ok_bind (body_at body ''value'') (\<lambda>xs.
              (case xs of
                 JArr items \<Rightarrow> any_ok (\<lambda>x. ok_bind (encode_fact iso8601 x a ''$'') (\<lambda>w. raised (same iso8601 a v w))) items
               | _ \<Rightarrow> Inl (Rule_Raised Type_Error))))
       else if op = ''contains'' then
         (case current of
            None \<Rightarrow> Inr False
          | Some v \<Rightarrow> ok_bind (body_text body ''value'') (\<lambda>needle.
              ok_bind (raised (cell_text v)) (\<lambda>s. Inr (sublist needle s))))
       else if op = ''ne'' then
         ok_bind (body_at body ''value'') (\<lambda>raw.
           case current of
             None \<Rightarrow> Inr (raw \<noteq> JNull)
           | Some v \<Rightarrow>
               if raw = JNull then Inr True
               else ok_bind (encode_fact iso8601 raw a ''$'') (\<lambda>w. ok_bind (raised (same iso8601 a v w)) (\<lambda>b. Inr (\<not> b))))
       else
         (case current of
            None \<Rightarrow> Inr False
          | Some v \<Rightarrow> ok_bind (body_at body ''value'') (\<lambda>raw. ok_bind (encode_fact iso8601 raw a ''$'') (\<lambda>w.
              if op = ''eq'' then raised (same iso8601 a v w)
              else ok_bind (raised (as_comparable iso8601 (value_type a) v)) (\<lambda>x.
                ok_bind (raised (as_comparable iso8601 (value_type a) w)) (\<lambda>y. raised (cell_cmp op x y)))))))"

text \<open>\<open>all\<close> and \<open>any\<close> over the items stop at the first that decides.\<close>

fun eval_node :: "iso_parser \<Rightarrow> row \<Rightarrow> attr_facts \<Rightarrow> string \<Rightarrow> subject_values \<Rightarrow> int \<Rightarrow> json \<Rightarrow> bool ruled"
  and eval_all :: "iso_parser \<Rightarrow> row \<Rightarrow> attr_facts \<Rightarrow> string \<Rightarrow> subject_values \<Rightarrow> int \<Rightarrow> json list \<Rightarrow> bool ruled"
  and eval_any :: "iso_parser \<Rightarrow> row \<Rightarrow> attr_facts \<Rightarrow> string \<Rightarrow> subject_values \<Rightarrow> int \<Rightarrow> json list \<Rightarrow> bool ruled"
where
  "eval_node iso8601 row attrs sid vals now node =
     (case node of
        JObj ((key, body) # rest) \<Rightarrow>
          if key = ''and'' then (case body of JArr xs \<Rightarrow> eval_all iso8601 row attrs sid vals now xs | _ \<Rightarrow> Inl (Rule_Raised Type_Error))
          else if key = ''or'' then (case body of JArr xs \<Rightarrow> eval_any iso8601 row attrs sid vals now xs | _ \<Rightarrow> Inl (Rule_Raised Type_Error))
          else if key = ''not'' then ok_bind (eval_node iso8601 row attrs sid vals now body) (\<lambda>b. Inr (\<not> b))
          else (case body of JObj kvs \<Rightarrow> eval_leaf iso8601 row attrs sid vals now key kvs | _ \<Rightarrow> Inl (Rule_Raised Type_Error))
      | _ \<Rightarrow> Inl (Rule_Raised Type_Error))"
| "eval_all iso8601 row attrs sid vals now [] = Inr True"
| "eval_all iso8601 row attrs sid vals now (x # xs) =
     ok_bind (eval_node iso8601 row attrs sid vals now x) (\<lambda>b.
       if b then eval_all iso8601 row attrs sid vals now xs else Inr False)"
| "eval_any iso8601 row attrs sid vals now [] = Inr False"
| "eval_any iso8601 row attrs sid vals now (x # xs) =
     ok_bind (eval_node iso8601 row attrs sid vals now x) (\<lambda>b.
       if b then Inr True else eval_any iso8601 row attrs sid vals now xs)"

declare eval_node.simps [simp del]

definition eval_rule ::
  "iso_parser \<Rightarrow> json \<Rightarrow> row \<Rightarrow> attr_facts \<Rightarrow> string \<Rightarrow> subject_values \<Rightarrow> int \<Rightarrow> bool ruled" where
  "eval_rule iso8601 rule row attrs sid vals now =
     (if rule = JNull then Inr True else eval_node iso8601 row attrs sid vals now rule)"

section \<open>The SQL of a rule\<close>

text \<open>The expressions \<open>_sql_node\<close> and \<open>_sql_leaf\<close> build. \<open>In_Values\<close> is a membership in an array of literals;
  \<open>In_Subject\<close> one in the array the server gives for the subject, cast to a type unless it is text.\<close>

datatype sql_token = Subject_Call | Subject_Text string

datatype sql_expr =
    Sql_True
  | Sql_False
  | Sql_And "sql_expr list"
  | Sql_Or "sql_expr list"
  | Sql_Not sql_expr
  | Is_Null string bool
  | Subject_Eq string sql_token
  | Subject_Ne string sql_token
  | In_Subject string string string
  | In_Values attr_fact "cell list"
  | Rel_Time attr_fact string duration
  | Like attr_fact string
  | Cmp_Value attr_fact string cell

definition sql_cmp_sign :: "string \<Rightarrow> string" where
  "sql_cmp_sign op = (if op = ''lt'' then ''<'' else if op = ''lte'' then ''<='' else if op = ''gt'' then ''>'' else ''>='')"

text \<open>\<open>repr\<close> of a float: positional notation for exponents from -4 to 15, scientific otherwise.\<close>

definition float_text :: "rat \<Rightarrow> string" where
  "float_text r =
     (case dec_of_float r of Dec c e \<Rightarrow>
        (let ds = str_nat (nat \<bar>c\<bar>); x = int (length ds) - 1 + e in
         if - 4 \<le> x \<and> x < 16 then dec_text (Dec c e)
         else (if c < 0 then ''-'' else []) @ take 1 ds @ (if drop 1 ds = [] then [] else ''.'' @ drop 1 ds) @
           ''e'' @ (if x < 0 then ''-'' else ''+'') @ pad 2 (nat \<bar>x\<bar>)))"

definition stamp_text :: "int \<Rightarrow> string" where
  "stamp_text us = date_text (us div day_us) @ ''T'' @ time_text (us mod day_us) @ ''+00:00''"

definition literal :: "(json \<Rightarrow> string) \<Rightarrow> attr_fact \<Rightarrow> cell \<Rightarrow> string" where
  "literal jsonb_repr a v =
     (let txt = (\<lambda>s. if value_type a = ''json'' then sql_quote s @ ''::jsonb'' else sql_quote s) in
      case v of
        C_Bool b \<Rightarrow> if b then ''TRUE'' else ''FALSE''
      | C_Int n \<Rightarrow> str_int n
      | C_Float r \<Rightarrow> float_text r
      | C_Dec d \<Rightarrow> dec_text d
      | C_Stamp us \<Rightarrow> sql_quote (stamp_text us)
      | C_Date n \<Rightarrow> sql_quote (date_text n)
      | C_Str s \<Rightarrow> txt s
      | C_Time us \<Rightarrow> txt (time_text us)
      | C_Json j \<Rightarrow> txt (jsonb_repr j))"

definition like_char :: "char \<Rightarrow> string" where
  "like_char c = (if c = CHR 0x5C \<or> c = CHR ''%'' \<or> c = CHR ''_'' then [CHR 0x5C, c] else [c])"

definition like_pattern :: "string \<Rightarrow> string" where
  "like_pattern v = ''%'' @ concat (map like_char v) @ ''%''"

definition interval_parts :: "duration \<Rightarrow> string list" where
  "interval_parts u =
     (let part = (\<lambda>v name. case v of None \<Rightarrow> [] | Some ds \<Rightarrow> [ds @ '' '' @ name]) in
      part (du_y u) ''years'' @ part (du_mo u) ''months'' @ part (du_d u) ''days'' @ part (du_h u) ''hours'' @
      part (du_mi u) ''minutes'' @
      part (case du_s u of None \<Rightarrow> None | Some (ds, None) \<Rightarrow> Some ds | Some (ds, Some fs) \<Rightarrow> Some (ds @ ''.'' @ fs)) ''seconds'')"

definition interval_text :: "duration \<Rightarrow> string" where
  "interval_text u =
     (let parts = interval_parts u; text = (if parts = [] then ''0 seconds'' else join '' '' parts) in
      ''INTERVAL '' @ quoted (if du_neg u then ''-'' @ text else text))"

definition column_ref :: "string \<Rightarrow> string \<Rightarrow> string" where
  "column_ref alias name = alias @ ''.'' @ CHR 0x22 # name @ [CHR 0x22]"

definition paren :: "string \<Rightarrow> string" where
  "paren s = ''('' @ s @ '')''"

fun sql_text :: "(json \<Rightarrow> string) \<Rightarrow> string \<Rightarrow> sql_expr \<Rightarrow> string" where
  "sql_text jr alias Sql_True = ''TRUE''"
| "sql_text jr alias Sql_False = ''FALSE''"
| "sql_text jr alias (Sql_And es) = paren (join '' AND '' (map (sql_text jr alias) es))"
| "sql_text jr alias (Sql_Or es) = paren (join '' OR '' (map (sql_text jr alias) es))"
| "sql_text jr alias (Sql_Not e) = ''(NOT COALESCE('' @ sql_text jr alias e @ '', false))''"
| "sql_text jr alias (Is_Null col b) = column_ref alias col @ (if b then '' IS NULL'' else '' IS NOT NULL'')"
| "sql_text jr alias (Subject_Eq col t) = paren (column_ref alias col @ '' = '' @
     (case t of Subject_Call \<Rightarrow> ''(SELECT acl.subject_text('' @ quoted ''__access_subject'' @ ''))'' | Subject_Text s \<Rightarrow> sql_quote s))"
| "sql_text jr alias (Subject_Ne col t) = column_ref alias col @ '' IS DISTINCT FROM '' @
     (case t of Subject_Call \<Rightarrow> ''(SELECT acl.subject_text('' @ quoted ''__access_subject'' @ ''))'' | Subject_Text s \<Rightarrow> sql_quote s)"
| "sql_text jr alias (In_Subject col ty key) =
     (let array = ''(SELECT acl.subject_text_array('' @ sql_quote key @ ''))'' in
      if ty = ''text'' then paren (column_ref alias col @ '' = ANY '' @ paren array)
      else paren (column_ref alias col @ '' = ANY (SELECT v::'' @ ty @ '' FROM unnest('' @ array @ '') AS u(v))''))"
| "sql_text jr alias (In_Values a vs) =
     paren (column_ref alias (af_name a) @ '' = ANY (ARRAY['' @ join '', '' (map (literal jr a) vs) @ '']::'' @ pg_type a @ ''[])'')"
| "sql_text jr alias (Rel_Time a op u) =
     paren (column_ref alias (af_name a) @ '' '' @ sql_cmp_sign op @ '' '' @
       paren ((if value_type a = ''date'' then ''CURRENT_DATE'' else ''CURRENT_TIMESTAMP'') @ '' + '' @ interval_text u))"
| "sql_text jr alias (Like a needle) =
     paren (column_ref alias (af_name a) @ '' LIKE '' @ literal jr a (C_Str (like_pattern needle)) @ '' ESCAPE '' @ quoted [CHR 0x5C])"
| "sql_text jr alias (Cmp_Value a op v) =
     paren (column_ref alias (af_name a) @
       (if op = ''ne'' then '' IS DISTINCT FROM '' else if op = ''eq'' then '' = '' else '' '' @ sql_cmp_sign op @ '' '') @
       literal jr a v)"

definition subject_token :: "bool \<Rightarrow> string option \<Rightarrow> sql_token" where
  "subject_token acl subject_id =
     (if acl then Subject_Call else Subject_Text (case subject_id of None \<Rightarrow> [] | Some s \<Rightarrow> s))"

definition in_subject :: "attr_fact \<Rightarrow> string \<Rightarrow> bool \<Rightarrow> subject_values \<Rightarrow> sql_expr" where
  "in_subject a key acl vals =
     (if acl then In_Subject (af_name a) (pg_type a) key
      else if vals key = [] then Sql_False else In_Values a (vals key))"

definition leaf_expr ::
  "iso_parser \<Rightarrow> attr_facts \<Rightarrow> bool \<Rightarrow> string option \<Rightarrow> subject_values \<Rightarrow> string \<Rightarrow> (string \<times> json) list \<Rightarrow> sql_expr ruled" where
  "leaf_expr iso8601 attrs acl subject_id vals op body =
     ok_bind (body_fact attrs body) (\<lambda>a.
       if op = ''is_null'' then ok_bind (body_at body ''value'') (\<lambda>v. Inr (Is_Null (af_name a) (truthy (Some v))))
       else if map_of body ''subject_id'' \<noteq> None then
         Inr (if op = ''ne'' then Subject_Ne (af_name a) (subject_token acl subject_id)
              else Subject_Eq (af_name a) (subject_token acl subject_id))
       else if map_of body ''subject_attr'' \<noteq> None then
         ok_bind (body_text body ''subject_attr'') (\<lambda>key. Inr (in_subject a key acl vals))
       else if map_of body ''rel_time'' \<noteq> None then
         ok_bind (body_text body ''rel_time'') (\<lambda>raw.
           case match_duration raw of
             None \<Rightarrow> Inl (Rule_Raised Assertion_Error)
           | Some u \<Rightarrow> if op \<in> set rule_cmp then Inr (Rel_Time a op u) else Inl (Rule_Raised Key_Error))
       else if op = ''in'' then
         ok_bind (body_at body ''value'') (\<lambda>xs.
           case xs of
             JArr items \<Rightarrow> ok_bind (map_ok (\<lambda>x. encode_fact iso8601 x a ''$'') items) (\<lambda>vs. Inr (In_Values a vs))
           | _ \<Rightarrow> Inl (Rule_Raised Type_Error))
       else if op = ''contains'' then ok_bind (body_text body ''value'') (\<lambda>needle. Inr (Like a needle))
       else ok_bind (body_at body ''value'') (\<lambda>raw.
         ok_bind (encode_fact iso8601 raw a ''$'') (\<lambda>v.
           if op \<in> {''ne'', ''eq''} \<union> set rule_cmp then Inr (Cmp_Value a op v) else Inl (Rule_Raised Key_Error))))"

fun rule_expr :: "iso_parser \<Rightarrow> attr_facts \<Rightarrow> bool \<Rightarrow> string option \<Rightarrow> subject_values \<Rightarrow> json \<Rightarrow> sql_expr ruled"
  and rule_exprs :: "iso_parser \<Rightarrow> attr_facts \<Rightarrow> bool \<Rightarrow> string option \<Rightarrow> subject_values \<Rightarrow> json list \<Rightarrow> sql_expr list ruled"
where
  "rule_expr iso8601 attrs acl sid vals node =
     (case node of
        JObj ((key, body) # rest) \<Rightarrow>
          if key = ''and'' then
            (case body of JArr xs \<Rightarrow> ok_bind (rule_exprs iso8601 attrs acl sid vals xs) (\<lambda>es. Inr (Sql_And es)) | _ \<Rightarrow> Inl (Rule_Raised Type_Error))
          else if key = ''or'' then
            (case body of JArr xs \<Rightarrow> ok_bind (rule_exprs iso8601 attrs acl sid vals xs) (\<lambda>es. Inr (Sql_Or es)) | _ \<Rightarrow> Inl (Rule_Raised Type_Error))
          else if key = ''not'' then ok_bind (rule_expr iso8601 attrs acl sid vals body) (\<lambda>e. Inr (Sql_Not e))
          else (case body of JObj kvs \<Rightarrow> leaf_expr iso8601 attrs acl sid vals key kvs | _ \<Rightarrow> Inl (Rule_Raised Type_Error))
      | _ \<Rightarrow> Inl (Rule_Raised Type_Error))"
| "rule_exprs iso8601 attrs acl sid vals [] = Inr []"
| "rule_exprs iso8601 attrs acl sid vals (x # xs) =
     ok_bind (rule_expr iso8601 attrs acl sid vals x) (\<lambda>e.
       ok_bind (rule_exprs iso8601 attrs acl sid vals xs) (\<lambda>es. Inr (e # es)))"

declare rule_expr.simps [simp del]

definition rule_sql ::
  "iso_parser \<Rightarrow> (json \<Rightarrow> string) \<Rightarrow> json \<Rightarrow> attr_facts \<Rightarrow> string \<Rightarrow> bool \<Rightarrow> string option \<Rightarrow> subject_values \<Rightarrow> string ruled" where
  "rule_sql iso8601 jsonb_repr rule attrs alias acl sid vals =
     (if rule = JNull then Inr ''TRUE''
      else ok_bind (rule_expr iso8601 attrs acl sid vals rule) (\<lambda>e. Inr (sql_text jsonb_repr alias e)))"

end
