(* ===== verification/Row_Rule_Spec.thy ===== *)
theory Row_Rule_Spec
  imports Row_Rule
begin

text \<open>
  The meaning of the SQL a row rule compiles to, in the three-valued logic of PostgreSQL, and the
  agreement of the compiled filter with the evaluation in memory; the bounds the check enforces;
  the filter text is a closed expression whatever the rule's values are.
\<close>

section \<open>Meaning of the SQL\<close>

text \<open>What the server evaluates on: the stored row, the transaction's time, and what the \<open>acl\<close> functions return
  for the signed context.\<close>

record sql_env =
  se_row :: row
  se_now :: int
  se_user :: string
  se_array :: subject_values

text \<open>A quoted literal is read as a value of the column's type.\<close>

definition pg_value :: "string \<Rightarrow> cell \<Rightarrow> cell" where
  "pg_value kind v =
     (if kind = ''date'' then (case v of C_Str s \<Rightarrow> (case parse_date s of Some n \<Rightarrow> C_Date n | None \<Rightarrow> v) | _ \<Rightarrow> v) else v)"

fun like_match :: "string \<Rightarrow> string \<Rightarrow> bool" where
  "like_match [] s = (s = [])"
| "like_match (p # ps) s =
     (if p = CHR 0x5C then
        (case ps of [] \<Rightarrow> False | q # qs \<Rightarrow> (case s of [] \<Rightarrow> False | c # cs \<Rightarrow> c = q \<and> like_match qs cs))
      else if p = CHR ''%'' then like_match ps s \<or> (case s of [] \<Rightarrow> False | c # cs \<Rightarrow> like_match (p # ps) cs)
      else (case s of [] \<Rightarrow> False | c # cs \<Rightarrow> (p = CHR ''_'' \<or> c = p) \<and> like_match ps cs))"

text \<open>In an interval constant a minus sign belongs to the number it precedes, the first one of the text.\<close>

definition first_part :: "duration \<Rightarrow> nat" where
  "first_part u =
     (if du_y u \<noteq> None then 0 else if du_mo u \<noteq> None then 1 else if du_d u \<noteq> None then 2
      else if du_h u \<noteq> None then 3 else if du_mi u \<noteq> None then 4 else 5)"

definition pg_sign :: "duration \<Rightarrow> nat \<Rightarrow> int" where
  "pg_sign u i = (if du_neg u \<and> first_part u = i then - 1 else 1)"

definition pg_months :: "duration \<Rightarrow> int" where
  "pg_months u = pg_sign u 0 * 12 * digits_int (du_y u) + pg_sign u 1 * digits_int (du_mo u)"

definition pg_days :: "duration \<Rightarrow> int" where
  "pg_days u = pg_sign u 2 * digits_int (du_d u)"

definition pg_time :: "duration \<Rightarrow> int" where
  "pg_time u =
     pg_sign u 3 * digits_int (du_h u) * 3600000000 + pg_sign u 4 * digits_int (du_mi u) * 60000000 +
     pg_sign u 5 * seconds_us (du_s u)"

definition pg_shift :: "int \<Rightarrow> duration \<Rightarrow> int" where
  "pg_shift now u = shift_us now (pg_months u) (pg_days u) (pg_time u)"

definition token_text :: "sql_env \<Rightarrow> sql_token \<Rightarrow> string" where
  "token_text env t = (case t of Subject_Call \<Rightarrow> se_user env | Subject_Text s \<Rightarrow> s)"

definition cmp_true :: "string \<Rightarrow> cell \<Rightarrow> cell \<Rightarrow> bool" where
  "cmp_true op v w = (cell_cmp op v w = Inr True)"

definition date_midnight :: "cell \<Rightarrow> cell" where
  "date_midnight v = (case v of C_Date n \<Rightarrow> C_Stamp (n * day_us) | _ \<Rightarrow> v)"

fun sem :: "sql_env \<Rightarrow> sql_expr \<Rightarrow> bool option" where
  "sem env Sql_True = Some True"
| "sem env Sql_False = Some False"
| "sem env (Sql_And es) =
     (if Some False \<in> set (map (sem env) es) then Some False else if None \<in> set (map (sem env) es) then None else Some True)"
| "sem env (Sql_Or es) =
     (if Some True \<in> set (map (sem env) es) then Some True else if None \<in> set (map (sem env) es) then None else Some False)"
| "sem env (Sql_Not e) = Some (sem env e \<noteq> Some True)"
| "sem env (Is_Null col b) = Some (if b then se_row env col = None else se_row env col \<noteq> None)"
| "sem env (Subject_Eq col t) = map_option (\<lambda>v. cell_eq v (C_Str (token_text env t))) (se_row env col)"
| "sem env (Subject_Ne col t) =
     Some (case se_row env col of None \<Rightarrow> True | Some v \<Rightarrow> \<not> cell_eq v (C_Str (token_text env t)))"
| "sem env (In_Subject col ty key) = map_option (\<lambda>v. list_ex (cell_eq v) (se_array env key)) (se_row env col)"
| "sem env (In_Values a vs) =
     map_option (\<lambda>v. list_ex (\<lambda>w. cell_eq v (pg_value (value_type a) w)) vs) (se_row env (af_name a))"
| "sem env (Rel_Time a op u) =
     map_option (\<lambda>v.
       if value_type a = ''date''
       then cmp_true op (date_midnight v) (C_Stamp (pg_shift (se_now env - se_now env mod day_us) u))
       else cmp_true op v (C_Stamp (pg_shift (se_now env) u))) (se_row env (af_name a))"
| "sem env (Like a needle) =
     map_option (\<lambda>v. case v of C_Str s \<Rightarrow> like_match (like_pattern needle) s | _ \<Rightarrow> False) (se_row env (af_name a))"
| "sem env (Cmp_Value a op w) =
     (if op = ''ne'' then Some (case se_row env (af_name a) of None \<Rightarrow> True | Some v \<Rightarrow> \<not> cell_eq v (pg_value (value_type a) w))
      else map_option (\<lambda>v. if op = ''eq'' then cell_eq v (pg_value (value_type a) w)
          else cmp_true op v (pg_value (value_type a) w)) (se_row env (af_name a)))"

lemma sem_and_true: "sem env (Sql_And es) = Some True \<longleftrightarrow> (\<forall>e \<in> set es. sem env e = Some True)"
proof
  assume h: "sem env (Sql_And es) = Some True"
  show "\<forall>e \<in> set es. sem env e = Some True"
  proof
    fix e assume "e \<in> set es"
    then have "sem env e \<noteq> Some False" "sem env e \<noteq> None" using h by (auto split: if_splits intro: rev_image_eqI)
    then show "sem env e = Some True" by (cases "sem env e") auto
  qed
next
  assume h: "\<forall>e \<in> set es. sem env e = Some True"
  then have "Some False \<notin> sem env ` set es" "None \<notin> sem env ` set es" by (metis imageE option.inject, metis imageE option.distinct(1))
  then show "sem env (Sql_And es) = Some True" by simp
qed

lemma sem_or_true: "sem env (Sql_Or es) = Some True \<longleftrightarrow> (\<exists>e \<in> set es. sem env e = Some True)"
  by (auto split: if_splits intro: rev_image_eqI)

section \<open>LIKE\<close>

lemma like_char_match: "like_match (like_char c @ qs) s \<longleftrightarrow> (\<exists>xs. s = c # xs \<and> like_match qs xs)"
  by (cases s) (auto simp: like_char_def)

lemma like_literal: "like_match (concat (map like_char v) @ ps) s \<longleftrightarrow> (\<exists>r. s = v @ r \<and> like_match ps r)"
proof (induction v arbitrary: s)
  case (Cons c v)
  show ?case using like_char_match [of c "concat (map like_char v) @ ps" s] by (auto simp: Cons.IH)
qed simp

lemma like_any: "like_match [CHR ''%''] s"
  by (induction s) auto

lemma like_percent: "like_match (CHR ''%'' # ps) s \<longleftrightarrow> (\<exists>l r. s = l @ r \<and> like_match ps r)"
proof (induction s)
  case Nil
  then show ?case by simp
next
  case (Cons c s)
  have "like_match (CHR ''%'' # ps) (c # s) \<longleftrightarrow> like_match ps (c # s) \<or> like_match (CHR ''%'' # ps) s" by simp
  also have "\<dots> \<longleftrightarrow> (\<exists>l r. c # s = l @ r \<and> like_match ps r)"
    unfolding Cons.IH by (metis append_Cons append_Nil append_eq_Cons_conv)
  finally show ?case .
qed

lemma like_sublist: "like_match (like_pattern v) s \<longleftrightarrow> sublist v s"
proof -
  have "like_match (like_pattern v) s \<longleftrightarrow> (\<exists>l r. s = l @ r \<and> (\<exists>q. r = v @ q \<and> like_match [CHR ''%''] q))"
    using like_percent [of "concat (map like_char v) @ ''%''" s] unfolding like_pattern_def like_literal by simp
  then show ?thesis using like_any by (auto simp: sublist_def)
qed

section \<open>Values of a type\<close>

definition cell_kind :: "string \<Rightarrow> cell \<Rightarrow> bool" where
  "cell_kind kind v =
     (case v of
        C_Str s \<Rightarrow> kind \<in> {''string'', ''text'', ''dictionary'', ''user''}
      | C_Int n \<Rightarrow> kind \<in> {''integer'', ''reference''}
      | C_Dec d \<Rightarrow> kind = ''decimal''
      | C_Float r \<Rightarrow> kind = ''number''
      | C_Bool b \<Rightarrow> kind = ''boolean''
      | C_Date n \<Rightarrow> kind = ''date''
      | C_Stamp us \<Rightarrow> kind = ''timestamp''
      | C_Time us \<Rightarrow> kind = ''time''
      | C_Json j \<Rightarrow> kind = ''json'')"

lemma codec_kinds:
  assumes "k \<in> set attr_kinds"
  shows "case ak_codec k of Co_String \<Rightarrow> ak_name k = ''string'' | Co_Text \<Rightarrow> ak_name k = ''text''
    | Co_Bigint \<Rightarrow> ak_name k = ''integer'' \<or> ak_name k = ''reference'' | Co_Decimal \<Rightarrow> ak_name k = ''decimal'' | Co_Number \<Rightarrow> ak_name k = ''number''
    | Co_Boolean \<Rightarrow> ak_name k = ''boolean'' | Co_Date \<Rightarrow> ak_name k = ''date'' | Co_Timestamp \<Rightarrow> ak_name k = ''timestamp''
    | Co_Time \<Rightarrow> ak_name k = ''time'' | Co_Json \<Rightarrow> ak_name k = ''json'' | Co_Dictionary \<Rightarrow> ak_name k = ''dictionary''
    | Co_User \<Rightarrow> ak_name k = ''user''"
proof -
  have "list_all (\<lambda>k. case ak_codec k of Co_String \<Rightarrow> ak_name k = ''string'' | Co_Text \<Rightarrow> ak_name k = ''text''
    | Co_Bigint \<Rightarrow> ak_name k = ''integer'' \<or> ak_name k = ''reference'' | Co_Decimal \<Rightarrow> ak_name k = ''decimal'' | Co_Number \<Rightarrow> ak_name k = ''number''
    | Co_Boolean \<Rightarrow> ak_name k = ''boolean'' | Co_Date \<Rightarrow> ak_name k = ''date'' | Co_Timestamp \<Rightarrow> ak_name k = ''timestamp''
    | Co_Time \<Rightarrow> ak_name k = ''time'' | Co_Json \<Rightarrow> ak_name k = ''json'' | Co_Dictionary \<Rightarrow> ak_name k = ''dictionary''
    | Co_User \<Rightarrow> ak_name k = ''user'') attr_kinds"
    by code_simp
  then show ?thesis using assms unfolding list_all_iff by blast
qed

lemma encode_kind:
  assumes "resolve (Some kind) = Inr k" and "encode_attr iso8601 k a raw codes f = Inr v"
  shows "cell_kind kind v"
proof -
  note n = resolve_kind(2) [OF assms(1)]
  note ck = codec_kinds [OF resolve_kind(1) [OF assms(1)]]
  have e: "run_encode iso8601 (ak_codec k) a raw codes f = Inr v" using assms(2) by (simp add: encode_attr_def)
  show ?thesis
  proof (cases "ak_codec k")
    case Co_Decimal
    then show ?thesis using e ck n encode_decimal_Inr [of a raw v] by (auto simp: run_encode_def cell_kind_def)
  next
    case Co_Number
    then show ?thesis using e ck n encode_stamp_number(2) [of a raw v] by (auto simp: run_encode_def cell_kind_def)
  next
    case Co_Timestamp
    then show ?thesis using e ck n encode_stamp_number(1) [of iso8601 a raw v] by (auto simp: run_encode_def cell_kind_def)
  qed (use e ck n in \<open>auto simp: run_encode_def cell_kind_def\<close>)
qed

lemma encode_fact_kind: "encode_fact iso8601 raw a p = Inr v \<Longrightarrow> cell_kind (value_type a) v"
  using encode_kind by (auto simp: encode_fact_def split: if_splits sum.splits entity_error.splits)

lemma encode_fact_path: "encode_fact iso8601 raw a p = Inr v \<Longrightarrow> encode_fact iso8601 raw a q = Inr v"
  by (auto simp: encode_fact_def split: if_splits sum.splits entity_error.splits)

lemma comparable_kind [simp]: "cell_kind kind v \<Longrightarrow> as_comparable iso8601 kind v = Inr v"
  by (auto simp: as_comparable_def cell_kind_def split: cell.splits)

lemma same_kind [simp]:
  "cell_kind (value_type a) v \<Longrightarrow> cell_kind (value_type a) w \<Longrightarrow> same iso8601 a v w = Inr (cell_eq v w)"
  by (simp add: same_def)

lemma pg_value_kind [simp]: "cell_kind kind v \<Longrightarrow> pg_value kind v = v"
  by (auto simp: pg_value_def cell_kind_def split: cell.splits)

lemma cmp_kind:
  "cell_kind kind v \<Longrightarrow> cell_kind kind w \<Longrightarrow> kind \<noteq> ''json'' \<Longrightarrow> \<exists>b. cell_cmp op v w = Inr b"
  by (cases v; cases w) (simp_all add: cell_kind_def cell_cmp_def cell_rank_def, auto)

lemma raised_simps [simp]: "raised (Inr x) = Inr x" "raised (Inl e) = Inl (Rule_Raised e)"
  by (simp_all add: raised_def)

lemma any_ok_map:
  "(\<And>x. x \<in> set xs \<Longrightarrow> f x = Inr (g x)) \<Longrightarrow> any_ok f xs = Inr (list_ex g xs)"
  by (induction xs) simp_all

section \<open>Intervals\<close>

definition parts_given :: "duration \<Rightarrow> nat" where
  "parts_given u = length (interval_parts u)"

text \<open>A minus sign covers the whole duration, as the code means it, only when there is one part; and the server
  keeps microseconds.\<close>

definition plain_duration :: "duration \<Rightarrow> bool" where
  "plain_duration u = ((\<not> du_neg u \<or> parts_given u \<le> 1) \<and> (case du_s u of Some (ds, Some fs) \<Rightarrow> length fs \<le> 6 | _ \<Rightarrow> True))"

lemma plain_sign:
  assumes "plain_duration u"
  shows "pg_months u = duration_sign u * (12 * digits_int (du_y u) + digits_int (du_mo u))"
    and "pg_days u = duration_sign u * digits_int (du_d u)"
    and "pg_time u = duration_sign u * time_us (du_h u) (du_mi u) (du_s u)"
proof -
  have "pg_months u = duration_sign u * (12 * digits_int (du_y u) + digits_int (du_mo u)) \<and>
    pg_days u = duration_sign u * digits_int (du_d u) \<and>
    pg_time u = duration_sign u * time_us (du_h u) (du_mi u) (du_s u)"
  proof (cases "du_neg u")
    case False
    then show ?thesis
      by (simp add: pg_months_def pg_days_def pg_time_def pg_sign_def duration_sign_def time_us_def algebra_simps)
  next
    case True
    then have "parts_given u \<le> 1" using assms by (simp add: plain_duration_def)
    then show ?thesis using True
      by (cases "du_y u"; cases "du_mo u"; cases "du_d u"; cases "du_h u"; cases "du_mi u"; cases "du_s u")
        (simp_all add: parts_given_def interval_parts_def pg_months_def pg_days_def pg_time_def pg_sign_def duration_sign_def
          time_us_def first_part_def digits_int_def seconds_us_def split: option.splits prod.splits)
  qed
  then show "pg_months u = duration_sign u * (12 * digits_int (du_y u) + digits_int (du_mo u))"
    "pg_days u = duration_sign u * digits_int (du_d u)"
    "pg_time u = duration_sign u * time_us (du_h u) (du_mi u) (du_s u)" by blast+
qed

lemma shift_pg:
  assumes "plain_duration u" and "shift now u = Inr t"
  shows "t = pg_shift now u"
  using assms(2) by (simp add: shift_def pg_shift_def plain_sign [OF assms(1)] Let_def split: if_splits prod.splits)

lemma day_us_pos: "0 < day_us"
  by (simp add: day_us_def)

lemma shift_midnight:
  "shift_us (now - now mod day_us) m d 0 = shift_us now m d 0 div day_us * day_us"
proof -
  have k: "now - now mod day_us = now div day_us * day_us" using div_mult_mod_eq [of now day_us] by linarith
  have d: "now div day_us * day_us div day_us = now div day_us" "now div day_us * day_us mod day_us = 0"
    using day_us_pos by simp_all
  have q: "(z * day_us + now mod day_us) div day_us = z" for z
    using day_us_pos by (simp add: div_add1_eq)
  show ?thesis
    unfolding k by (cases "shift_year_month now m")
      (simp add: shift_us_def shift_year_month_def d q split: prod.splits)
qed

lemma cmp_days: "cmp_op op (of_int (m * day_us) :: rat) (of_int (n * day_us)) = cmp_op op (of_int m :: rat) (of_int n)"
proof -
  have "cmp_op op (m * day_us) (n * day_us) = cmp_op op m n"
    using day_us_pos by (simp add: cmp_op_def)
  then show ?thesis unfolding cmp_op_def of_int_less_iff of_int_le_iff .
qed

text \<open>A boundary date of the evaluation and the server's boundary compare alike.\<close>

lemma rel_date:
  assumes "plain_duration u" and "\<not> has_time u" and "shift now u = Inr t"
  shows "cmp_true op (C_Stamp (m * day_us)) (C_Stamp (pg_shift (now - now mod day_us) u)) =
    (cell_cmp op (C_Date m) (C_Date (t div day_us)) = Inr True)"
proof -
  have z: "pg_time u = 0"
    using assms(2) by (cases "du_s u") (simp_all add: pg_time_def has_time_def digits_int_def seconds_us_def)
  have t: "t = shift_us now (pg_months u) (pg_days u) 0" using shift_pg [OF assms(1,3)] z by (simp add: pg_shift_def)
  have "pg_shift (now - now mod day_us) u = t div day_us * day_us" using shift_midnight t z by (simp add: pg_shift_def)
  then show ?thesis by (simp add: cmp_true_def cell_cmp_def cell_rank_def cmp_days del: of_int_mult)
qed

section \<open>Leaves\<close>

fun rule_leaves :: "json \<Rightarrow> (string \<times> (string \<times> json) list) list"
  and leaves_list :: "json list \<Rightarrow> (string \<times> (string \<times> json) list) list"
where
  "rule_leaves node =
     (case node of
        JObj [(key, body)] \<Rightarrow>
          if key = ''not'' then rule_leaves body
          else if key = ''and'' \<or> key = ''or'' then (case body of JArr xs \<Rightarrow> leaves_list xs | _ \<Rightarrow> [])
          else (case body of JObj kvs \<Rightarrow> [(key, kvs)] | _ \<Rightarrow> [])
      | _ \<Rightarrow> [])"
| "leaves_list [] = []"
| "leaves_list (x # xs) = rule_leaves x @ leaves_list xs"

declare rule_leaves.simps [simp del]

fun rule_depth :: "json \<Rightarrow> nat"
  and depth_list :: "json list \<Rightarrow> nat"
where
  "rule_depth node =
     (case node of
        JObj [(key, body)] \<Rightarrow>
          if key = ''not'' then Suc (rule_depth body)
          else if key = ''and'' \<or> key = ''or'' then (case body of JArr xs \<Rightarrow> Suc (depth_list xs) | _ \<Rightarrow> 1)
          else 1
      | _ \<Rightarrow> 1)"
| "depth_list [] = 0"
| "depth_list (x # xs) = max (rule_depth x) (depth_list xs)"

declare rule_depth.simps [simp del]

text \<open>A tree the evaluator can walk: single-key objects, lists below \<open>and\<close> and \<open>or\<close>, objects below an operator.\<close>

fun rule_tree :: "json \<Rightarrow> bool"
  and tree_list :: "json list \<Rightarrow> bool"
where
  "rule_tree node =
     (case node of
        JObj [(key, body)] \<Rightarrow>
          if key = ''not'' then rule_tree body
          else if key = ''and'' \<or> key = ''or'' then (case body of JArr xs \<Rightarrow> tree_list xs | _ \<Rightarrow> False)
          else key \<in> set rule_ops \<and> is_obj body
      | _ \<Rightarrow> False)"
| "tree_list [] = True"
| "tree_list (x # xs) = (rule_tree x \<and> tree_list xs)"

declare rule_tree.simps [simp del]

definition attr_of_leaf :: "(string \<times> json) list \<Rightarrow> string" where
  "attr_of_leaf body = (case map_of body ''attr'' of Some (JStr i) \<Rightarrow> i | _ \<Rightarrow> [])"

text \<open>What the check establishes: the tree, its bounds, and that each leaf passed.\<close>

definition leaf_checked :: "iso_parser \<Rightarrow> attr_facts \<Rightarrow> subject_facts \<Rightarrow> string \<times> (string \<times> json) list \<Rightarrow> bool" where
  "leaf_checked iso8601 attrs subs l =
     (\<exists>p st st'. walk_leaf iso8601 attrs subs (fst l) (JObj (snd l)) p st = Inr st')"

lemma walk_leaf_state:
  assumes "walk_leaf iso8601 attrs subs op body p st = Inr st'"
  shows "\<exists>kvs. body = JObj kvs \<and> ws_leaves st' = ws_leaves st \<and> ws_ids st' = ws_ids st @ [attr_of_leaf kvs]"
proof -
  obtain kvs i where b: "body = JObj kvs" "map_of kvs ''attr'' = Some (JStr i)"
    using assms by (auto simp: walk_leaf_def split: json.splits option.splits)
  have "ws_leaves st' = ws_leaves st \<and> ws_ids st' = ws_ids st @ [i]"
    using assms b
    by (auto simp: walk_leaf_def attr_of_leaf_def Let_def opt_simps split: if_splits option.splits json.splits)
  then show ?thesis using b by (simp add: attr_of_leaf_def)
qed

text \<open>Rules by structure: negations, groups, everything else; lists of rules.\<close>

lemma rule_induct [case_names neg group leaf Nil Cons]:
  assumes neg: "\<And>b. P b \<Longrightarrow> P (JObj [(''not'', b)])"
    and group: "\<And>key xs. key = ''and'' \<or> key = ''or'' \<Longrightarrow> Q xs \<Longrightarrow> P (JObj [(key, JArr xs)])"
    and leaf: "\<And>node. (\<And>b. node \<noteq> JObj [(''not'', b)]) \<Longrightarrow>
      (\<And>key xs. key = ''and'' \<or> key = ''or'' \<Longrightarrow> node \<noteq> JObj [(key, JArr xs)]) \<Longrightarrow> P node"
    and Nil: "Q []" and Cons: "\<And>x xs. P x \<Longrightarrow> Q xs \<Longrightarrow> Q (x # xs)"
  shows "P node" and "Q xs"
proof (induction node and xs rule: rule_leaves_leaves_list.induct)
  case (1 node)
  consider (n) b where "node = JObj [(''not'', b)]" | (g) key xs where "key = ''and'' \<or> key = ''or''" "node = JObj [(key, JArr xs)]"
    | (l) "\<And>b. node \<noteq> JObj [(''not'', b)]" "\<And>key xs. key = ''and'' \<or> key = ''or'' \<Longrightarrow> node \<noteq> JObj [(key, JArr xs)]"
    by blast
  then show ?case
  proof cases
    case n
    then show ?thesis using neg 1(1) by blast
  next
    case g
    then have "key \<noteq> ''not''" by auto
    then show ?thesis using g group 1(2) by blast
  next
    case l
    then show ?thesis using leaf by blast
  qed
qed (use Nil Cons in blast)+

lemma rule_tree_obj: "rule_tree node \<Longrightarrow> \<exists>key body. node = JObj [(key, body)]"
proof -
  assume t: "rule_tree node"
  obtain kvs where n: "node = JObj kvs" using t by (cases node) (simp_all add: rule_tree.simps [of JNull]
    rule_tree.simps [of "JBool b" for b] rule_tree.simps [of "JInt b" for b] rule_tree.simps [of "JFloat b" for b]
    rule_tree.simps [of "JStr b" for b] rule_tree.simps [of "JArr b" for b])
  have "kvs \<noteq> []" using t n by (auto simp: rule_tree.simps [of "JObj []"])
  moreover have "\<not> rule_tree (JObj (x # y # zs))" for x y zs
    by (cases x) (simp add: rule_tree.simps [of "JObj (u # v # w)" for u v w])
  ultimately show ?thesis using t n by (metis neq_Nil_conv surj_pair)
qed

lemmas node_simps =
  walk.simps [of _ _ _ _ _ "JObj [(k, b)]" for k b] rule_tree.simps [of "JObj [(k, b)]" for k b]
  rule_leaves.simps [of "JObj [(k, b)]" for k b] rule_depth.simps [of "JObj [(k, b)]" for k b]

definition walk_ok ::
  "iso_parser \<Rightarrow> attr_facts \<Rightarrow> subject_facts \<Rightarrow> nat \<Rightarrow> bool \<Rightarrow> (string \<times> (string \<times> json) list) list \<Rightarrow> nat \<Rightarrow>
   walk_state \<Rightarrow> walk_state \<Rightarrow> bool" where
  "walk_ok iso8601 attrs subs depth tree leaves deep st st' \<longleftrightarrow>
     tree \<and> (\<forall>l \<in> set leaves. leaf_checked iso8601 attrs subs l) \<and> depth + deep \<le> Suc depth_max \<and>
     ws_leaves st' = ws_leaves st + length leaves \<and> (leaves \<noteq> [] \<longrightarrow> ws_leaves st' \<le> leaf_max) \<and>
     ws_ids st' = ws_ids st @ map (attr_of_leaf \<circ> snd) leaves"

lemma walk_checked:
  "\<forall>path depth st st'. walk iso8601 attrs subs path depth node st = Inr st' \<longrightarrow>
     walk_ok iso8601 attrs subs depth (rule_tree node) (rule_leaves node) (rule_depth node) st st'"
  "\<forall>path depth i st st'. depth \<le> Suc depth_max \<longrightarrow> walk_items iso8601 attrs subs path depth i xs st = Inr st' \<longrightarrow>
     walk_ok iso8601 attrs subs depth (tree_list xs) (leaves_list xs) (depth_list xs) st st'"
proof (induction node and xs rule: rule_induct)
  case (neg b)
  show ?case
  proof (intro allI impI)
    fix path depth st st'
    assume w: "walk iso8601 attrs subs path depth (JObj [(''not'', b)]) st = Inr st'"
    then have "walk iso8601 attrs subs (path @ ''.not'') (Suc depth) b st = Inr st'"
      by (simp add: node_simps split: if_splits)
    with neg show "walk_ok iso8601 attrs subs depth (rule_tree (JObj [(''not'', b)])) (rule_leaves (JObj [(''not'', b)]))
        (rule_depth (JObj [(''not'', b)])) st st'"
      by (fastforce simp: node_simps walk_ok_def)
  qed
next
  case (group key xs)
  then have k: "key \<noteq> ''not''" by auto
  show ?case
  proof (intro allI impI)
    fix path depth st st'
    assume w: "walk iso8601 attrs subs path depth (JObj [(key, JArr xs)]) st = Inr st'"
    then have "depth \<le> depth_max" "walk_items iso8601 attrs subs (path @ CHR ''.'' # key) (Suc depth) 0 xs st = Inr st'"
      using group(1) k by (auto simp: node_simps split: if_splits list.splits)
    then have "walk_ok iso8601 attrs subs (Suc depth) (tree_list xs) (leaves_list xs) (depth_list xs) st st'"
      using group(2) by simp
    then show "walk_ok iso8601 attrs subs depth (rule_tree (JObj [(key, JArr xs)])) (rule_leaves (JObj [(key, JArr xs)]))
        (rule_depth (JObj [(key, JArr xs)])) st st'"
      using group(1) k by (auto simp: node_simps walk_ok_def)
  qed
next
  case (leaf node)
  show ?case
  proof (intro allI impI)
    fix path depth st st'
    assume w: "walk iso8601 attrs subs path depth node st = Inr st'"
    then obtain key body where node: "node = JObj [(key, body)]" and d: "depth \<le> depth_max"
      by (auto simp: walk.simps [of _ _ _ _ _ node] split: if_splits json.splits list.splits)
    have k: "key \<noteq> ''not''" "key \<noteq> ''and'' \<and> key \<noteq> ''or''"
      using leaf w d unfolding node by (auto simp: node_simps split: json.splits)
    have wl: "walk_leaf iso8601 attrs subs key body (path @ CHR ''.'' # key) (st\<lparr>ws_leaves := Suc (ws_leaves st)\<rparr>) = Inr st'"
      and m: "key \<in> set rule_ops" "Suc (ws_leaves st) \<le> leaf_max"
      using w d k unfolding node by (simp_all add: node_simps split: if_splits)
    obtain kvs where b: "body = JObj kvs" "ws_leaves st' = Suc (ws_leaves st)" "ws_ids st' = ws_ids st @ [attr_of_leaf kvs]"
      using walk_leaf_state [OF wl] by auto
    have "leaf_checked iso8601 attrs subs (key, kvs)" using wl b(1) by (auto simp: leaf_checked_def)
    then show "walk_ok iso8601 attrs subs depth (rule_tree node) (rule_leaves node) (rule_depth node) st st'"
      using b k m d unfolding node by (simp add: node_simps walk_ok_def)
  qed
next
  case Nil
  then show ?case by (simp add: walk_ok_def)
next
  case (Cons x xs)
  show ?case
  proof (intro allI impI)
    fix path depth i st st'
    assume "depth \<le> Suc depth_max" and "walk_items iso8601 attrs subs path depth i (x # xs) st = Inr st'"
    then obtain st1 where w: "walk iso8601 attrs subs (item_path path i) depth x st = Inr st1"
      "walk_items iso8601 attrs subs path depth (Suc i) xs st1 = Inr st'"
      by (auto simp: opt_simps)
    have a: "walk_ok iso8601 attrs subs depth (rule_tree x) (rule_leaves x) (rule_depth x) st st1"
      and b: "walk_ok iso8601 attrs subs depth (tree_list xs) (leaves_list xs) (depth_list xs) st1 st'"
      using Cons w \<open>depth \<le> Suc depth_max\<close> by blast+
    show "walk_ok iso8601 attrs subs depth (tree_list (x # xs)) (leaves_list (x # xs)) (depth_list (x # xs)) st st'"
      using a b by (cases "leaves_list xs") (auto simp: walk_ok_def)
  qed
qed

text \<open>A rule the check accepts is a tree of at most eight levels with at most twenty leaves, and the attributes
  reported are those of its leaves, in order.\<close>
theorem validate_rule_bounds:
  assumes "validate_rule iso8601 rule attrs subs = Inr info" and "rule \<noteq> JNull"
  shows "rule_tree rule \<and> rule_depth rule \<le> 8 \<and> length (rule_leaves rule) \<le> 20 \<and>
    ri_attribute_ids info = map (attr_of_leaf \<circ> snd) (rule_leaves rule)"
proof -
  obtain st where w: "walk iso8601 attrs subs ''$'' 1 rule start_walk = Inr st" and i: "ri_attribute_ids info = ws_ids st"
    using assms by (auto simp: validate_rule_def opt_simps)
  have "walk_ok iso8601 attrs subs 1 (rule_tree rule) (rule_leaves rule) (rule_depth rule) start_walk st"
    using walk_checked(1) w by blast
  then show ?thesis using i
    by (cases "rule_leaves rule") (auto simp: walk_ok_def start_walk_def depth_max_def leaf_max_def)
qed

lemma validate_rule_tree: "validate_rule iso8601 rule attrs subs = Inr info \<Longrightarrow> rule \<noteq> JNull \<Longrightarrow> rule_tree rule"
proof -
  assume "validate_rule iso8601 rule attrs subs = Inr info" "rule \<noteq> JNull"
  then obtain st where "walk iso8601 attrs subs ''$'' 1 rule start_walk = Inr st"
    by (auto simp: validate_rule_def opt_simps)
  then show ?thesis using walk_checked(1) unfolding walk_ok_def by blast
qed

section \<open>Agreement of a leaf\<close>

definition typed_row :: "attr_facts \<Rightarrow> row \<Rightarrow> bool" where
  "typed_row attrs row \<longleftrightarrow> (\<forall>i a v. attrs i = Some a \<longrightarrow> row (af_name a) = Some v \<longrightarrow> cell_kind (value_type a) v)"

definition typed_subjects :: "subject_facts \<Rightarrow> subject_values \<Rightarrow> bool" where
  "typed_subjects subs vals \<longleftrightarrow> (\<forall>key sub v. subs key = Some sub \<longrightarrow> v \<in> set (vals key) \<longrightarrow> cell_kind (sf_value_type sub) v)"

text \<open>The leaves on which the two sides can agree: no comparison with a JSON value, no negated duration of several
  parts.\<close>

definition plain_leaf :: "attr_facts \<Rightarrow> string \<times> (string \<times> json) list \<Rightarrow> bool" where
  "plain_leaf attrs l =
     ((fst l = ''is_null'' \<or> (case attrs (attr_of_leaf (snd l)) of Some a \<Rightarrow> value_type a \<noteq> ''json'' | None \<Rightarrow> True)) \<and>
      (case map_of (snd l) ''rel_time'' of
         Some (JStr s) \<Rightarrow> (case match_duration s of Some u \<Rightarrow> plain_duration u | None \<Rightarrow> True)
       | _ \<Rightarrow> True))"

text \<open>The server and the evaluation see the same row, time and subject.\<close>

definition env_matches ::
  "sql_env \<Rightarrow> row \<Rightarrow> string \<Rightarrow> subject_values \<Rightarrow> int \<Rightarrow> bool \<Rightarrow> string option \<Rightarrow> bool" where
  "env_matches env row sid vals now acl acl_id \<longleftrightarrow>
     se_row env = row \<and> se_now env = now \<and>
     (if acl then se_user env = sid \<and> se_array env = vals else acl_id = Some sid)"

lemma leaf_checked_cases:
  assumes "leaf_checked iso8601 attrs subs (op, kvs)"
  obtains (null) a i b where "map_of kvs ''attr'' = Some (JStr i)" "attrs i = Some a" "op = ''is_null''" "map_of kvs ''value'' = Some (JBool b)"
    | (subject) a i where "map_of kvs ''attr'' = Some (JStr i)" "attrs i = Some a" "op \<in> {''eq'', ''ne''}"
        "map_of kvs ''subject_id'' = Some (JBool True)" "af_type a = ''user''"
    | (member) a i key sub where "map_of kvs ''attr'' = Some (JStr i)" "attrs i = Some a" "op = ''in''"
        "map_of kvs ''subject_attr'' = Some (JStr key)" "subs key = Some sub" "map_of kvs ''subject_id'' = None"
        "value_type a \<in> set (subject_compat (sf_value_type sub))"
    | (rel) a i s u where "map_of kvs ''attr'' = Some (JStr i)" "attrs i = Some a" "op \<in> set rule_cmp"
        "map_of kvs ''rel_time'' = Some (JStr s)" "match_duration s = Some u" "value_type a \<in> {''date'', ''timestamp''}"
        "value_type a = ''date'' \<longrightarrow> \<not> has_time u" "map_of kvs ''subject_id'' = None" "map_of kvs ''subject_attr'' = None"
    | (val) a i v ops where "map_of kvs ''attr'' = Some (JStr i)" "attrs i = Some a" "op \<noteq> ''is_null''"
        "map_of kvs ''value'' = Some v" "fact_operators a = Inr ops" "op \<in> set ops"
        "\<exists>p. check_value iso8601 op v a p = Inr ()"
        "map_of kvs ''subject_id'' = None" "map_of kvs ''subject_attr'' = None" "map_of kvs ''rel_time'' = None"
proof -
  obtain p st st' where w: "walk_leaf iso8601 attrs subs op (JObj kvs) p st = Inr st'"
    using assms by (auto simp: leaf_checked_def)
  obtain i a n where ia: "map_of kvs ''attr'' = Some (JStr i)" "i \<noteq> []" "attrs i = Some a" and n: "operand_name kvs p = Inr n"
    using w by (auto simp: walk_leaf_def opt_simps split: option.splits json.splits if_splits)
  have f: "filter (\<lambda>k. k \<noteq> ''attr'') (map fst kvs) = [n]"
    using n by (auto simp: operand_name_def split: list.splits)
  have only: "map_of kvs x = None" if "x \<noteq> n" "x \<noteq> ''attr''" for x
  proof -
    have "x \<notin> set (filter (\<lambda>k. k \<noteq> ''attr'') (map fst kvs))" using f that(1) by simp
    then show ?thesis using that(2) by (auto simp: map_of_eq_None_iff)
  qed
  have "n \<in> fst ` set kvs" "n \<noteq> ''attr''" using arg_cong [OF f, of set] by auto
  then obtain v where v: "map_of kvs n = Some v" by (metis map_of_eq_None_iff not_None_eq)
  note w1 = w [unfolded walk_leaf_def json.case ia option.case ok_bind_simps n Let_def]
  show thesis
  proof (cases "op = ''is_null''")
    case True
    then obtain b where "n = ''value''" "v = JBool b"
      using w1 ia(2) v by (auto simp: json_opt_def split: json.splits if_splits)
    then show thesis using null ia True v by blast
  next
    case op: False
    consider (a) "n = ''subject_id''" | (b) "n = ''subject_attr''" | (c) "n = ''rel_time''" | (d) "n = ''value''"
      | (e) "n \<notin> {''subject_id'', ''subject_attr'', ''rel_time'', ''value''}" by blast
    then show thesis
    proof cases
      case a
      then have "v = JBool True" "op \<in> {''eq'', ''ne''}" "af_type a = ''user''"
        using w1 op ia(2) v by (simp_all add: json_opt_def split: if_splits)
      then show thesis using subject ia a v by blast
    next
      case b
      then obtain key sub where "v = JStr key" "op = ''in''" "subs key = Some sub" "subject_compatible p a sub = Inr ()"
        using w1 op ia(2) v by (auto simp: json_opt_def opt_simps split: if_splits json.splits option.splits)
      then show thesis using member ia b v only [of "''subject_id''"]
        by (auto simp: subject_compatible_def split: if_splits)
    next
      case c
      then obtain u where "op \<in> set rule_cmp" "value_type a \<in> {''date'', ''timestamp''}" "parse_duration v p (value_type a) = Inr u"
        using w1 op ia(2) v by (auto simp: json_opt_def opt_simps split: if_splits)
      moreover from this obtain s where "v = JStr s" "match_duration s = Some u" "value_type a = ''date'' \<longrightarrow> \<not> has_time u"
        by (auto simp: parse_duration_def split: json.splits option.splits if_splits)
      ultimately show thesis using rel ia c v only [of "''subject_id''"] only [of "''subject_attr''"] by simp
    next
      case d
      then obtain ops where "fact_operators a = Inr ops" "op \<in> set ops" "check_value iso8601 op v a p = Inr ()"
        using w1 op ia(2) v by (auto simp: json_opt_def raised_def opt_simps split: if_splits sum.splits)
      moreover have "map_of kvs ''value'' = Some v" "map_of kvs ''subject_id'' = None" "map_of kvs ''subject_attr'' = None"
        "map_of kvs ''rel_time'' = None"
        using d v only by simp_all
      ultimately show thesis using val [OF ia(1,3) op] by blast
    next
      case e
      then show thesis using w1 op ia(2) by simp
    qed
  qed
qed

lemma body_fact_known: "map_of kvs ''attr'' = Some (JStr i) \<Longrightarrow> attrs i = Some a \<Longrightarrow> body_fact attrs kvs = Inr a"
  by (simp add: body_fact_def body_text_def body_at_def text_of_def)

lemma compat_kind:
  "value_type a \<in> set (subject_compat t) \<Longrightarrow> cell_kind t v \<Longrightarrow> cell_kind (value_type a) v"
  by (auto simp: subject_compat_def cell_kind_def split: if_splits cell.splits)

lemma encode_items_each:
  "encode_items iso8601 a p i xs = Inr vs \<Longrightarrow> \<forall>x \<in> set xs. \<exists>v. encode_fact iso8601 x a ''$'' = Inr v"
  by (induction xs arbitrary: i vs) (auto simp: opt_simps dest: encode_fact_path)

lemma map_ok_each: "\<forall>x \<in> set xs. \<exists>v. f x = Inr v \<Longrightarrow> map_ok f xs = Inr (map (projr \<circ> f) xs)"
  by (induction xs) auto

lemma encode_fact_null: "encode_fact iso8601 JNull a p = Inr v \<Longrightarrow> value_type a = ''json''"
proof -
  assume "encode_fact iso8601 JNull a p = Inr v"
  then obtain k where k: "resolve (Some (value_type a)) = Inr k"
    and e: "run_encode iso8601 (ak_codec k) (fact_attribute a) JNull (af_codes a) True = Inr v"
    by (auto simp: encode_fact_def encode_attr_def split: if_splits sum.splits entity_error.splits)
  have "ak_codec k = Co_Json"
    using e encode_decimal_Inr [of "fact_attribute a" JNull v]
    by (cases "ak_codec k") (auto simp: run_encode_def encode_timestamp_def encode_number_def row_error_def)
  then show ?thesis using codec_kinds [OF resolve_kind(1) [OF k]] resolve_kind(2) [OF k] by simp
qed

text \<open>What a rule compiles to is true exactly when the evaluation says yes; the only errors of the evaluation are
  those of a boundary outside the calendar.\<close>

definition answers :: "sql_env \<Rightarrow> sql_expr \<Rightarrow> bool ruled \<Rightarrow> bool" where
  "answers env e r =
     (case r of
        Inr b \<Rightarrow> (sem env e = Some True) = b
      | Inl x \<Rightarrow> x = Rule_Raised Value_Error \<or> x = Rule_Raised Overflow_Error)"

definition agrees :: "sql_env \<Rightarrow> sql_expr ruled \<Rightarrow> bool ruled \<Rightarrow> bool" where
  "agrees env c r \<longleftrightarrow> (\<exists>e. c = Inr e \<and> answers env e r)"

lemmas agree_defs = agrees_def answers_def

lemma shift_error: "shift now u = Inl e \<Longrightarrow> e = Value_Error \<or> e = Overflow_Error"
  by (auto simp: shift_def Let_def split: if_splits prod.splits)

lemma operator_kinds:
  assumes "fact_operators a = Inr ops" and "op \<in> set ops"
  shows "op = ''contains'' \<longrightarrow> value_type a \<in> {''string'', ''text''}"
    and "op \<in> {''is_null'', ''in'', ''contains'', ''eq'', ''ne''} \<union> set rule_cmp"
proof -
  obtain k where k: "resolve (Some (value_type a)) = Inr k" "ops = ak_operators k"
    using assms by (auto simp: fact_operators_def opt_simps split: if_splits)
  have "list_all (\<lambda>k. list_all (\<lambda>op. (op = ''contains'' \<longrightarrow> ak_name k \<in> {''string'', ''text''}) \<and>
      op \<in> {''is_null'', ''in'', ''contains'', ''eq'', ''ne''} \<union> set rule_cmp) (ak_operators k)) attr_kinds"
    by code_simp
  then have "(op = ''contains'' \<longrightarrow> ak_name k \<in> {''string'', ''text''}) \<and>
      op \<in> {''is_null'', ''in'', ''contains'', ''eq'', ''ne''} \<union> set rule_cmp"
    using resolve_kind(1) [OF k(1)] assms(2) unfolding k(2) list_all_iff by blast
  then show "op = ''contains'' \<longrightarrow> value_type a \<in> {''string'', ''text''}"
    "op \<in> {''is_null'', ''in'', ''contains'', ''eq'', ''ne''} \<union> set rule_cmp"
    using resolve_kind(2) [OF k(1)] by simp_all
qed

lemma leaf_agrees:
  assumes ck: "leaf_checked iso8601 attrs subs (op, kvs)" and pl: "plain_leaf attrs (op, kvs)"
    and ty: "typed_row attrs row" and su: "typed_subjects subs vals" and em: "env_matches env row sid vals now acl acl_id"
  shows "agrees env (leaf_expr iso8601 attrs acl acl_id vals op kvs) (eval_leaf iso8601 row attrs sid vals now op kvs)"
  using ck
proof (cases rule: leaf_checked_cases)
  case (null a i b)
  have f: "body_fact attrs kvs = Inr a" using body_fact_known null by blast
  show ?thesis using em null(3,4)
    by (simp add: agree_defs leaf_expr_def eval_leaf_def f body_at_def truthy_def env_matches_def Let_def)
next
  case (subject a i)
  have f: "body_fact attrs kvs = Inr a" using body_fact_known subject by blast
  have t: "token_text env (subject_token acl acl_id) = sid" "se_row env = row"
    using em by (auto simp: env_matches_def token_text_def subject_token_def split: if_splits)
  have op: "op \<noteq> ''is_null''" using subject(3) by auto
  show ?thesis using subject(3,4) op
    by (cases "row (af_name a)") (auto simp: agree_defs leaf_expr_def eval_leaf_def f t Let_def)
next
  case (member a i key sub)
  have f: "body_fact attrs kvs = Inr a" using body_fact_known member by blast
  have r: "se_row env = row" using em by (simp add: env_matches_def)
  have k: "body_text kvs ''subject_attr'' = Inr key" using member(4) by (simp add: body_text_def body_at_def text_of_def)
  have w: "cell_kind (value_type a) x" if "x \<in> set (vals key)" for x
    using compat_kind [OF member(7)] su member(5) that unfolding typed_subjects_def by blast
  have sem: "sem env (in_subject a key acl vals) = Some True \<longleftrightarrow>
      (\<exists>v. row (af_name a) = Some v \<and> list_ex (cell_eq v) (vals key))"
  proof (cases acl)
    case True
    then show ?thesis using em by (cases "row (af_name a)") (simp_all add: in_subject_def env_matches_def)
  next
    case False
    then show ?thesis using w r
      by (cases "row (af_name a)") (auto simp: in_subject_def list_ex_iff)
  qed
  have l: "leaf_expr iso8601 attrs acl acl_id vals op kvs = Inr (in_subject a key acl vals)"
    using member by (simp add: leaf_expr_def f k)
  note l = l [unfolded member(3)]
  show ?thesis
  proof (cases "row (af_name a)")
    case None
    then show ?thesis using member sem by (simp add: agree_defs l eval_leaf_def f Let_def)
  next
    case (Some v)
    then have v: "cell_kind (value_type a) v" using ty member(2) by (auto simp: typed_row_def)
    have "any_ok (\<lambda>w. raised (same iso8601 a v w)) (vals key) = Inr (list_ex (cell_eq v) (vals key))"
      using v w by (intro any_ok_map) simp
    then show ?thesis using member sem Some by (simp add: agree_defs l eval_leaf_def f k Let_def)
  qed
next
  case (rel a i s u)
  have f: "body_fact attrs kvs = Inr a" using body_fact_known rel by blast
  have r: "se_row env = row" "se_now env = now" using em by (simp_all add: env_matches_def)
  have k: "body_text kvs ''rel_time'' = Inr s" using rel(4) by (simp add: body_text_def body_at_def text_of_def)
  have p: "plain_duration u" using pl rel(4,5) by (simp add: plain_leaf_def)
  have op: "op \<noteq> ''is_null''" using rel(3) by (auto simp: rule_cmp_def)
  have l: "leaf_expr iso8601 attrs acl acl_id vals op kvs = Inr (Rel_Time a op u)"
    using rel op by (simp add: leaf_expr_def f k)
  show ?thesis
  proof (cases "row (af_name a)")
    case None
    then show ?thesis using rel op r by (simp add: agree_defs l eval_leaf_def f Let_def)
  next
    case (Some v)
    then have v: "cell_kind (value_type a) v" using ty rel(2) by (auto simp: typed_row_def)
    show ?thesis
    proof (cases "shift now u")
      case (Inl e)
      then show ?thesis using rel op Some shift_error [OF Inl]
        by (auto simp: agree_defs l eval_leaf_def f k rel_boundary_def Let_def)
    next
      case (Inr t)
      show ?thesis
      proof (cases "value_type a = ''date''")
        case True
        then obtain m where m: "v = C_Date m" using v by (auto simp: cell_kind_def split: cell.splits)
        have "\<not> has_time u" using rel(7) True by blast
        note d = rel_date [OF p this Inr, of op m]
        have "\<exists>b. cell_cmp op (C_Date m) (C_Date (t div day_us)) = Inr b" by (simp add: cell_cmp_def cell_rank_def)
        then show ?thesis using rel op Some True m v d r Inr
          by (auto simp: agree_defs l eval_leaf_def f k rel_boundary_def date_midnight_def Let_def)
      next
        case False
        then have ts: "value_type a = ''timestamp''" using rel(6) by blast
        then obtain m where m: "v = C_Stamp m" using v by (auto simp: cell_kind_def split: cell.splits)
        have "\<exists>b. cell_cmp op (C_Stamp m) (C_Stamp t) = Inr b" by (simp add: cell_cmp_def cell_rank_def)
        then show ?thesis using rel op Some ts m v r Inr shift_pg [OF p Inr]
          by (auto simp: agree_defs l eval_leaf_def f k rel_boundary_def cmp_true_def Let_def)
      qed
    qed
  qed
next
  case (val a i raw ops)
  have f: "body_fact attrs kvs = Inr a" using body_fact_known val by blast
  have r: "se_row env = row" using em by (simp add: env_matches_def)
  have b: "body_at kvs ''value'' = Inr raw" using val(4) by (simp add: body_at_def)
  have nj: "value_type a \<noteq> ''json''" using pl val(1,2,3) by (simp add: plain_leaf_def attr_of_leaf_def)
  have v: "cell_kind (value_type a) v" if "row (af_name a) = Some v" for v
    using ty val(2) that by (auto simp: typed_row_def)
  obtain p where cv: "check_value iso8601 op raw a p = Inr ()" using val(7) by blast
  note ok = operator_kinds [OF val(5,6)]
  note none = val(8,9,10)
  consider (mem) "op = ''in''" | (like) "op = ''contains''" | (cmp) "op \<in> {''ne'', ''eq''} \<union> set rule_cmp" "op \<noteq> ''in''" "op \<noteq> ''contains''"
    using ok(2) val(3) by blast
  then show ?thesis
  proof cases
    case mem
    then obtain xs vs where xs: "raw = JArr xs" "encode_items iso8601 a (p @ ''.value'') 0 xs = Inr vs"
      using cv by (auto simp: check_value_def opt_simps split: json.splits list.splits)
    let ?g = "projr \<circ> (\<lambda>x. encode_fact iso8601 x a ''$'')"
    have e: "encode_fact iso8601 x a ''$'' = Inr (?g x)" if "x \<in> set xs" for x
      using encode_items_each [OF xs(2)] that by fastforce
    have g: "cell_kind (value_type a) (?g x)" if "x \<in> set xs" for x using encode_fact_kind e that by blast
    have "map_ok (\<lambda>x. encode_fact iso8601 x a ''$'') xs = Inr (map ?g xs)"
      by (rule map_ok_each [OF encode_items_each [OF xs(2)]])
    then have l: "leaf_expr iso8601 attrs acl acl_id vals ''in'' kvs = Inr (In_Values a (map ?g xs))"
      using none by (simp add: leaf_expr_def f b xs(1))
    show ?thesis
    proof (cases "row (af_name a)")
      case None
      then show ?thesis using mem none r by (simp add: agree_defs l eval_leaf_def f Let_def)
    next
      case (Some w)
      have "any_ok (\<lambda>x. ok_bind (encode_fact iso8601 x a ''$'') (\<lambda>u. raised (same iso8601 a w u))) xs =
          Inr (list_ex (\<lambda>x. cell_eq w (?g x)) xs)"
      proof (rule any_ok_map)
        fix x assume x: "x \<in> set xs"
        obtain y where "encode_fact iso8601 x a ''$'' = Inr y" using e [OF x] by blast
        then show "ok_bind (encode_fact iso8601 x a ''$'') (\<lambda>u. raised (same iso8601 a w u)) = Inr (cell_eq w (?g x))"
          using g [OF x] v [OF Some] by simp
      qed
      moreover have "list_ex (\<lambda>u. cell_eq w (pg_value (value_type a) u)) (map ?g xs) = list_ex (\<lambda>x. cell_eq w (?g x)) xs"
        using g by (auto simp: list_ex_iff)
      ultimately show ?thesis using mem none Some r by (simp add: agree_defs l eval_leaf_def f b xs(1) Let_def)
    qed
  next
    case like
    then obtain s where s: "raw = JStr s" using cv by (auto simp: check_value_def split: json.splits)
    have t: "body_text kvs ''value'' = Inr s" using b by (simp add: body_text_def s text_of_def)
    have l: "leaf_expr iso8601 attrs acl acl_id vals ''contains'' kvs = Inr (Like a s)"
      using none by (simp add: leaf_expr_def f t)
    show ?thesis
    proof (cases "row (af_name a)")
      case None
      then show ?thesis using like none r by (simp add: agree_defs l eval_leaf_def f Let_def)
    next
      case (Some w)
      then obtain x where "w = C_Str x" using v [OF Some] ok(1) like by (auto simp: cell_kind_def split: cell.splits)
      then show ?thesis using like none Some r
        by (simp add: agree_defs l eval_leaf_def f t cell_text_def like_sublist Let_def)
    qed
  next
    case cmp
    then obtain q where "encode_fact iso8601 raw a (p @ ''.value'') = Inr q"
      using cv by (auto simp: check_value_def opt_simps)
    then have q: "encode_fact iso8601 raw a ''$'' = Inr q" and qk: "cell_kind (value_type a) q"
      using encode_fact_path encode_fact_kind by blast+
    have l: "leaf_expr iso8601 attrs acl acl_id vals op kvs = Inr (Cmp_Value a op q)"
      using cmp none val(3) by (simp add: leaf_expr_def f b q)
    have rn: "raw \<noteq> JNull" using encode_fact_null q nj by blast
    have ev: "eval_leaf iso8601 row attrs sid vals now op kvs =
        (case row (af_name a) of
           None \<Rightarrow> Inr (op = ''ne'')
         | Some w \<Rightarrow> if op = ''ne'' then Inr (\<not> cell_eq w q) else if op = ''eq'' then Inr (cell_eq w q) else raised (cell_cmp op w q))"
    proof (cases "row (af_name a)")
      case None
      then show ?thesis using cmp none val(3) rn by (simp add: eval_leaf_def f b Let_def)
    next
      case (Some w)
      then show ?thesis using cmp none val(3) rn v [OF Some] qk by (simp add: eval_leaf_def f b q Let_def)
    qed
    show ?thesis
    proof (cases "row (af_name a)")
      case None
      then show ?thesis using r by (simp add: agree_defs l ev)
    next
      case (Some w)
      obtain c where "cell_cmp op w q = Inr c" using cmp_kind [OF v [OF Some] qk nj] by blast
      then show ?thesis using r Some qk by (simp add: agree_defs l ev cmp_true_def)
    qed
  qed
qed

section \<open>Agreement of a rule\<close>

definition compiled_rule ::
  "iso_parser \<Rightarrow> json \<Rightarrow> attr_facts \<Rightarrow> bool \<Rightarrow> string option \<Rightarrow> subject_values \<Rightarrow> sql_expr ruled" where
  "compiled_rule iso8601 rule attrs acl acl_id vals =
     (if rule = JNull then Inr Sql_True else rule_expr iso8601 attrs acl acl_id vals rule)"

lemmas eval_simps =
  eval_node.simps [of _ _ _ _ _ _ "JObj [(k, b)]" for k b] rule_expr.simps [of _ _ _ _ _ "JObj [(k, b)]" for k b]

lemma answers_not: "answers env e r \<Longrightarrow> answers env (Sql_Not e) (ok_bind r (\<lambda>b. Inr (\<not> b)))"
  by (cases r) (auto simp: answers_def)

lemma answers_cons:
  assumes "answers env e r"
  shows "answers env (Sql_And es) q \<Longrightarrow> answers env (Sql_And (e # es)) (ok_bind r (\<lambda>b. if b then q else Inr False))"
    and "answers env (Sql_Or es) q \<Longrightarrow> answers env (Sql_Or (e # es)) (ok_bind r (\<lambda>b. if b then Inr True else q))"
  using assms by (cases r; cases q; simp add: answers_def sem_and_true sem_or_true del: sem.simps; auto)+

lemma node_agrees:
  assumes "\<And>l. l \<in> leaves_all \<Longrightarrow> agrees env (leaf_expr iso8601 attrs acl acl_id vals (fst l) (snd l))
      (eval_leaf iso8601 row attrs sid vals now (fst l) (snd l))"
  shows "rule_tree node \<longrightarrow> set (rule_leaves node) \<subseteq> leaves_all \<longrightarrow>
      agrees env (rule_expr iso8601 attrs acl acl_id vals node) (eval_node iso8601 row attrs sid vals now node)"
    and "tree_list xs \<longrightarrow> set (leaves_list xs) \<subseteq> leaves_all \<longrightarrow>
      (\<exists>es. rule_exprs iso8601 attrs acl acl_id vals xs = Inr es \<and>
         answers env (Sql_And es) (eval_all iso8601 row attrs sid vals now xs) \<and>
         answers env (Sql_Or es) (eval_any iso8601 row attrs sid vals now xs))"
proof (induction node and xs rule: rule_induct)
  case (neg b)
  show ?case
  proof (intro impI)
    assume "rule_tree (JObj [(''not'', b)])" and "set (rule_leaves (JObj [(''not'', b)])) \<subseteq> leaves_all"
    then have "agrees env (rule_expr iso8601 attrs acl acl_id vals b) (eval_node iso8601 row attrs sid vals now b)"
      using neg by (simp add: node_simps)
    then show "agrees env (rule_expr iso8601 attrs acl acl_id vals (JObj [(''not'', b)]))
        (eval_node iso8601 row attrs sid vals now (JObj [(''not'', b)]))"
      using answers_not by (auto simp: agrees_def eval_simps simp del: sem.simps)
  qed
next
  case (group key xs)
  then have k: "key \<noteq> ''not''" by auto
  show ?case
  proof (intro impI)
    assume "rule_tree (JObj [(key, JArr xs)])" and "set (rule_leaves (JObj [(key, JArr xs)])) \<subseteq> leaves_all"
    then obtain es where "rule_exprs iso8601 attrs acl acl_id vals xs = Inr es"
      "answers env (Sql_And es) (eval_all iso8601 row attrs sid vals now xs)"
      "answers env (Sql_Or es) (eval_any iso8601 row attrs sid vals now xs)"
      using group k by (auto simp: node_simps simp del: sem.simps)
    then show "agrees env (rule_expr iso8601 attrs acl acl_id vals (JObj [(key, JArr xs)]))
        (eval_node iso8601 row attrs sid vals now (JObj [(key, JArr xs)]))"
      using group(1) by (auto simp: agrees_def eval_simps simp del: sem.simps)
  qed
next
  case (leaf node)
  show ?case
  proof (intro impI)
    assume t: "rule_tree node" and s: "set (rule_leaves node) \<subseteq> leaves_all"
    from t obtain key body where node: "node = JObj [(key, body)]" using rule_tree_obj by blast
    have k: "key \<noteq> ''not''" "key \<noteq> ''and'' \<and> key \<noteq> ''or''"
      using leaf t unfolding node by (auto simp: node_simps split: json.splits)
    obtain kvs where b: "body = JObj kvs" using t k unfolding node by (cases body) (simp_all add: node_simps)
    have "(key, kvs) \<in> leaves_all" using s k unfolding node b by (simp add: node_simps)
    from assms [OF this] show "agrees env (rule_expr iso8601 attrs acl acl_id vals node) (eval_node iso8601 row attrs sid vals now node)"
      using k unfolding node b by (simp add: eval_simps)
  qed
next
  case Nil
  then show ?case by (simp add: answers_def)
next
  case (Cons x xs)
  show ?case
  proof (intro impI)
    assume "tree_list (x # xs)" and "set (leaves_list (x # xs)) \<subseteq> leaves_all"
    then obtain e es where "rule_expr iso8601 attrs acl acl_id vals x = Inr e" "rule_exprs iso8601 attrs acl acl_id vals xs = Inr es"
      and a: "answers env e (eval_node iso8601 row attrs sid vals now x)"
        "answers env (Sql_And es) (eval_all iso8601 row attrs sid vals now xs)"
        "answers env (Sql_Or es) (eval_any iso8601 row attrs sid vals now xs)"
      using Cons by (auto simp: agrees_def simp del: sem.simps)
    then show "\<exists>es. rule_exprs iso8601 attrs acl acl_id vals (x # xs) = Inr es \<and>
         answers env (Sql_And es) (eval_all iso8601 row attrs sid vals now (x # xs)) \<and>
         answers env (Sql_Or es) (eval_any iso8601 row attrs sid vals now (x # xs))"
      using answers_cons [OF a(1)] a(2,3) by (simp del: sem.simps)
  qed
qed

lemma rule_agreement:
  assumes "validate_rule iso8601 rule attrs subs = Inr info" and "\<forall>l \<in> set (rule_leaves rule). plain_leaf attrs l"
    and "typed_row attrs row" and "typed_subjects subs vals" and "env_matches env row sid vals now acl acl_id"
  shows "\<exists>e. compiled_rule iso8601 rule attrs acl acl_id vals = Inr e \<and>
    rule_sql iso8601 jsonb_repr rule attrs alias acl acl_id vals = Inr (sql_text jsonb_repr alias e) \<and>
    (case eval_rule iso8601 rule row attrs sid vals now of
       Inr b \<Rightarrow> (sem env e = Some True) = b
     | Inl x \<Rightarrow> x = Rule_Raised Value_Error \<or> x = Rule_Raised Overflow_Error)"
proof (cases "rule = JNull")
  case True
  then show ?thesis by (simp add: compiled_rule_def rule_sql_def eval_rule_def)
next
  case False
  then obtain st where "walk iso8601 attrs subs ''$'' 1 rule start_walk = Inr st"
    using assms(1) by (auto simp: validate_rule_def opt_simps)
  then have w: "walk_ok iso8601 attrs subs 1 (rule_tree rule) (rule_leaves rule) (rule_depth rule) start_walk st"
    using walk_checked(1) by blast
  have "agrees env (leaf_expr iso8601 attrs acl acl_id vals (fst l) (snd l)) (eval_leaf iso8601 row attrs sid vals now (fst l) (snd l))"
    if l: "l \<in> set (rule_leaves rule)" for l
  proof (rule leaf_agrees)
    show "leaf_checked iso8601 attrs subs (fst l, snd l)" "plain_leaf attrs (fst l, snd l)"
      using w assms(2) l by (auto simp: walk_ok_def)
  qed (rule assms)+
  from node_agrees(1) [of "set (rule_leaves rule)", OF this]
  have "agrees env (rule_expr iso8601 attrs acl acl_id vals rule) (eval_node iso8601 row attrs sid vals now rule)"
    using w by (simp add: walk_ok_def)
  then show ?thesis using False by (auto simp: agrees_def answers_def compiled_rule_def rule_sql_def eval_rule_def)
qed

definition region_fact :: attr_fact where
  "region_fact =
     \<lparr>af_id = ''a1'', af_name = ''region'', af_type = ''string'', af_dictionary_id = None, af_max_length = Some 20,
      af_precision = None, af_scale = None, af_codes = None, af_reference_key_type = None, af_reference_max_length = None\<rparr>"

definition opened_fact :: attr_fact where
  "opened_fact = region_fact\<lparr>af_id := ''a2'', af_name := ''opened'', af_type := ''date''\<rparr>"

definition sample_facts :: attr_facts where
  "sample_facts i = (if i = ''a1'' then Some region_fact else if i = ''a2'' then Some opened_fact else None)"

definition leaf_rule :: "string \<Rightarrow> string \<Rightarrow> string \<Rightarrow> json \<Rightarrow> json" where
  "leaf_rule op i operand v = JObj [(op, JObj [(''attr'', JStr i), (operand, v)])]"

definition region_rule :: json where
  "region_rule =
     JObj [(''and'', JArr [leaf_rule ''eq'' ''a1'' ''value'' (JStr ''EU''),
                           JObj [(''not'', leaf_rule ''is_null'' ''a2'' ''value'' (JBool True))]])]"

definition stored_row :: row where
  "stored_row name = (if name = ''region'' then Some (C_Str ''EU'') else if name = ''opened'' then Some (C_Date 738500) else None)"

definition sample_env :: "row \<Rightarrow> int \<Rightarrow> sql_env" where
  "sample_env row now = \<lparr>se_row = row, se_now = now, se_user = ''u1'', se_array = (\<lambda>_. [])\<rparr>"

lemma sample_typed: "typed_row sample_facts stored_row"
  by (auto simp: typed_row_def sample_facts_def stored_row_def cell_kind_def value_type_def region_fact_def opened_fact_def
      split: if_splits)

theorem validate_rule_bounds_witness: "rule_depth region_rule \<le> 8 \<and> length (rule_leaves region_rule) \<le> 20"
proof -
  have v: "case validate_rule (\<lambda>_. None) region_rule sample_facts (\<lambda>_. None) of Inl e \<Rightarrow> False | Inr info \<Rightarrow> True"
    by code_simp
  then obtain info where i: "validate_rule (\<lambda>_. None) region_rule sample_facts (\<lambda>_. None) = Inr info"
    by (auto split: sum.splits)
  show ?thesis using validate_rule_bounds [OF i] by (simp add: region_rule_def)
qed

section \<open>Where the two sides part\<close>

text \<open>The write path evaluates rules on decoded rows, in which a date is its text.\<close>

definition decoded_date :: "int \<Rightarrow> cell" where
  "decoded_date n = (case decode_attr date_kind (C_Date n) of Some (JStr t) \<Rightarrow> C_Str t | _ \<Rightarrow> C_Date n)"

text \<open>On a decoded row the evaluation of a rule over a date is wrong: a row whose date is the excluded one passes
  a rule that excludes it, although the stored row does not, and an order comparison raises a type error.\<close>
theorem decoded_date_diverges:
  assumes "attrs i = Some a" and "af_type a = ''date''" and "parse_date s = Some n"
  shows "eval_rule iso8601 (leaf_rule ''ne'' i ''value'' (JStr s)) (\<lambda>_. Some (C_Date n)) attrs sid vals now = Inr False \<and>
    eval_rule iso8601 (leaf_rule ''ne'' i ''value'' (JStr s)) (\<lambda>_. Some (decoded_date n)) attrs sid vals now = Inr True \<and>
    eval_rule iso8601 (leaf_rule ''lte'' i ''value'' (JStr s)) (\<lambda>_. Some (decoded_date n)) attrs sid vals now =
      Inl (Rule_Raised Type_Error)"
proof -
  have k: "value_type a = ''date''" "resolve (Some ''date'') = Inr date_kind"
    using assms(2) by (simp add: value_type_def) code_simp
  have e: "encode_fact iso8601 (JStr s) a ''$'' = Inr (C_Date n)"
    using assms(3) by (simp add: encode_fact_def k encode_attr_def run_encode_def date_kind_def simple_kind_def encode_date_def)
  have d: "decoded_date n = C_Str (date_text n)"
    by (simp add: decoded_date_def decode_attr_def run_decode_def date_kind_def simple_kind_def)
  have f: "body_fact attrs [(''attr'', JStr i), (''value'', JStr s)] = Inr a" using assms(1) by (simp add: body_fact_known)
  show ?thesis
    by (simp add: eval_rule_def leaf_rule_def eval_simps eval_leaf_def f body_at_def e k d same_def as_comparable_def
        cell_eq_def cell_rank_def cell_cmp_def Let_def)
qed

theorem decoded_date_diverges_witness:
  "eval_rule (\<lambda>_. None) (leaf_rule ''ne'' ''a2'' ''value'' (JStr ''0001-01-02'')) (\<lambda>_. Some (decoded_date 2)) sample_facts
     ''u1'' (\<lambda>_. []) 0 = Inr True"
proof -
  have "sample_facts ''a2'' = Some opened_fact" "af_type opened_fact = ''date''" "parse_date ''0001-01-02'' = Some 2"
    by code_simp+
  from decoded_date_diverges [of sample_facts "''a2''" opened_fact, OF this] show ?thesis by blast
qed

definition eighteen_months :: duration where
  "eighteen_months =
     \<lparr>du_neg = True, du_y = Some ''1'', du_mo = Some ''6'', du_d = None, du_h = None, du_mi = None, du_s = None\<rparr>"

text \<open>A minus sign reaches only the first number of the interval the server reads, so a rule relative to minus
  one year and six months admits in memory a row that the compiled filter hides.\<close>
theorem negated_interval_diverges:
  "eval_rule iso8601 (leaf_rule ''gte'' ''a2'' ''rel_time'' (JStr ''-P1Y6M'')) stored_row sample_facts sid vals (739000 * day_us)
     = Inr True \<and>
   (\<exists>e. compiled_rule iso8601 (leaf_rule ''gte'' ''a2'' ''rel_time'' (JStr ''-P1Y6M'')) sample_facts True None vals = Inr e \<and>
      sem (sample_env stored_row (739000 * day_us)) e = Some False)"
proof -
  let ?kvs = "[(''attr'', JStr ''a2''), (''rel_time'', JStr ''-P1Y6M'')]"
  have f: "body_fact sample_facts ?kvs = Inr opened_fact" by (simp add: body_fact_known sample_facts_def)
  have t: "value_type opened_fact = ''date''" "af_name opened_fact = ''opened''" by (simp_all add: value_type_def opened_fact_def region_fact_def)
  have k: "body_text ?kvs ''rel_time'' = Inr ''-P1Y6M''" by (simp add: body_text_def body_at_def text_of_def)
  have m: "match_duration ''-P1Y6M'' = Some eighteen_months" by code_simp
  have s: "shift (739000 * day_us) eighteen_months = Inr (738452 * day_us)" by code_simp
  have d: "738452 * day_us div day_us = 738452" "739000 * day_us mod day_us = 0" using day_us_pos by simp_all
  have p: "cell_cmp ''gte'' (C_Stamp (738500 * day_us)) (C_Stamp (pg_shift (739000 * day_us) eighteen_months)) = Inr False" by code_simp
  have r: "stored_row ''opened'' = Some (C_Date 738500)" by (simp add: stored_row_def)
  have "rel_boundary (739000 * day_us) opened_fact ''-P1Y6M'' = Inr (C_Date 738452)"
    by (simp add: rel_boundary_def m s t d)
  then have "eval_leaf iso8601 stored_row sample_facts sid vals (739000 * day_us) ''gte'' ?kvs = Inr True"
    by (simp add: eval_leaf_def f t k r as_comparable_def cell_cmp_def cell_rank_def cmp_op_def Let_def)
  moreover have "leaf_expr iso8601 sample_facts True None vals ''gte'' ?kvs = Inr (Rel_Time opened_fact ''gte'' eighteen_months)"
    by (simp add: leaf_expr_def f k m rule_cmp_def)
  moreover have "sem (sample_env stored_row (739000 * day_us)) (Rel_Time opened_fact ''gte'' eighteen_months) = Some False"
    using p d by (simp add: sample_env_def t r date_midnight_def cmp_true_def)
  ultimately show ?thesis by (simp add: eval_rule_def compiled_rule_def leaf_rule_def eval_simps del: sem.simps)
qed

end
