(* ===== verification/Row_Rule_Text.thy ===== *)
theory Row_Rule_Text
  imports Row_Rule_Spec
begin

text \<open>
  The text of a row rule is closed: read from outside quotes, it ends outside quotes with all
  parentheses matched, whatever strings the rule, the subject and the codes contain. So a value can
  never leave its literal, and the filters a view joins with \<open>AND\<close> stay separate operands.
\<close>

section \<open>Scanning\<close>

datatype scan_mode = Code | In_String | In_Name

definition scan_char :: "(scan_mode \<times> nat) option \<Rightarrow> char \<Rightarrow> (scan_mode \<times> nat) option" where
  "scan_char st c =
     (case st of
        None \<Rightarrow> None
      | Some (Code, d) \<Rightarrow>
          if c = CHR 0x27 then Some (In_String, d)
          else if c = CHR 0x22 then Some (In_Name, d)
          else if c = CHR ''('' then Some (Code, Suc d)
          else if c = CHR '')'' then (case d of 0 \<Rightarrow> None | Suc k \<Rightarrow> Some (Code, k))
          else Some (Code, d)
      | Some (In_String, d) \<Rightarrow> Some (if c = CHR 0x27 then Code else In_String, d)
      | Some (In_Name, d) \<Rightarrow> Some (if c = CHR 0x22 then Code else In_Name, d))"

definition scan :: "(scan_mode \<times> nat) option \<Rightarrow> string \<Rightarrow> (scan_mode \<times> nat) option" where
  "scan = foldl scan_char"

definition closed_text :: "string \<Rightarrow> bool" where
  "closed_text s \<longleftrightarrow> (\<forall>d. scan (Some (Code, d)) s = Some (Code, d))"

named_theorems closed

lemma scan_append: "scan st (s @ t) = scan (scan st s) t"
  by (simp add: scan_def)

lemma scan_simps [simp]: "scan st [] = st" "scan st (c # s) = scan (scan_char st c) s"
  by (simp_all add: scan_def)

lemma closed_Nil [closed]: "closed_text []"
  by (simp add: closed_text_def)

lemma closed_append [closed]: "closed_text s \<Longrightarrow> closed_text t \<Longrightarrow> closed_text (s @ t)"
  by (simp add: closed_text_def scan_append)

definition plain_char :: "char \<Rightarrow> bool" where
  "plain_char c = (c \<notin> {CHR 0x27, CHR 0x22, CHR ''('', CHR '')''})"

lemma scan_plain: "plain_char c \<Longrightarrow> scan_char (Some (Code, d)) c = Some (Code, d)"
  by (simp add: scan_char_def plain_char_def)

lemma closed_plain: "list_all plain_char s \<Longrightarrow> closed_text s"
  by (induction s) (auto simp: closed_text_def scan_plain)

lemma closed_paren [closed]: "closed_text s \<Longrightarrow> closed_text (paren s)"
  by (simp add: closed_text_def paren_def scan_append scan_char_def)

lemma scan_string: "CHR 0x27 \<notin> set s \<Longrightarrow> scan (Some (In_String, d)) s = Some (In_String, d)"
  by (induction s) (auto simp: scan_char_def)

lemma scan_name: "CHR 0x22 \<notin> set s \<Longrightarrow> scan (Some (In_Name, d)) s = Some (In_Name, d)"
  by (induction s) (auto simp: scan_char_def)

lemma closed_quoted: "CHR 0x27 \<notin> set s \<Longrightarrow> closed_text (quoted s)"
  by (simp add: closed_text_def quoted_def scan_append scan_char_def scan_string)

lemma scan_escape: "scan (Some (In_String, d)) (sql_escape s) = Some (In_String, d)"
  by (induction s) (auto simp: sql_escape_def scan_char_def scan_append)

lemma closed_quote [closed]: "closed_text (sql_quote s)"
  by (simp add: closed_text_def sql_quote_def quoted_def scan_append scan_char_def scan_escape)

lemma closed_join: "closed_text sep \<Longrightarrow> \<forall>x \<in> set xs. closed_text x \<Longrightarrow> closed_text (join sep xs)"
proof -
  assume s: "closed_text sep" and x: "\<forall>x \<in> set xs. closed_text x"
  have "\<forall>x \<in> set ys. closed_text x \<Longrightarrow> closed_text (concat (map (\<lambda>z. sep @ z) ys))" for ys
    by (induction ys) (auto intro: closed_append closed_Nil s)
  then show ?thesis using x by (cases xs) (auto simp: join_def intro: closed_append closed_Nil)
qed

section \<open>Literals\<close>

lemma digit_plain: "is_digit c \<Longrightarrow> plain_char c"
  by (auto simp: is_digit_def plain_char_def)

lemma digits_plain: "list_all is_digit s \<Longrightarrow> list_all plain_char s"
  using digit_plain by (auto simp: list_all_iff)

lemma str_nat_plain: "list_all plain_char (str_nat n)"
  using str_nat_digits digits_plain by blast

lemma plain_literals [simp]:
  "plain_char (CHR ''-'')" "plain_char (CHR ''+'')" "plain_char (CHR ''.'')" "plain_char (CHR ''e'')" "plain_char (CHR ''0'')"
  "plain_char (CHR '' '')"
  by code_simp+

lemma str_int_plain: "list_all plain_char (str_int n)"
  using str_nat_plain by (simp add: str_int_def)

lemma list_all_take: "list_all P s \<Longrightarrow> list_all P (take n s)" "list_all P s \<Longrightarrow> list_all P (drop n s)"
  by (auto simp: list_all_iff dest: in_set_takeD in_set_dropD)

lemma dec_text_plain: "list_all plain_char (dec_text d)"
  using str_nat_plain
  by (cases d) (simp add: dec_text_def Let_def list_all_take list_all_iff [of _ "replicate _ _"])

lemma float_text_plain: "list_all plain_char (float_text r)"
  using str_nat_plain dec_text_plain pad_digits [THEN digits_plain]
  by (simp add: float_text_def Let_def list_all_take split: dec.split)

lemma literal_closed [closed]: "closed_text (literal jr a v)"
proof -
  have "closed_text ''TRUE''" "closed_text ''FALSE''" "closed_text ''::jsonb''"
    by (rule closed_plain, code_simp)+
  then show ?thesis
    by (cases v) (auto simp: literal_def Let_def intro: closed closed_plain str_int_plain dec_text_plain float_text_plain)
qed

section \<open>Durations\<close>

definition digits_opt :: "string option \<Rightarrow> bool" where
  "digits_opt v = (case v of None \<Rightarrow> True | Some ds \<Rightarrow> list_all is_digit ds)"

definition digits_seconds :: "(string \<times> string option) option \<Rightarrow> bool" where
  "digits_seconds v = (case v of None \<Rightarrow> True | Some (ds, f) \<Rightarrow> list_all is_digit ds \<and> digits_opt f)"

definition digits_duration :: "duration \<Rightarrow> bool" where
  "digits_duration u \<longleftrightarrow>
     digits_opt (du_y u) \<and> digits_opt (du_mo u) \<and> digits_opt (du_d u) \<and> digits_opt (du_h u) \<and> digits_opt (du_mi u) \<and>
     digits_seconds (du_s u)"

lemma take_digits: "list_all is_digit (takeWhile is_digit s)"
  by (auto simp: list_all_iff dest: set_takeWhileD)

lemma take_unit_digits: "take_unit u s = (v, r) \<Longrightarrow> digits_opt v"
  by (auto simp: take_unit_def Let_def digits_opt_def take_digits split: if_splits)

lemma take_seconds_digits:
  "take_seconds s = (v, r) \<Longrightarrow> digits_seconds v"
  by (auto simp: take_seconds_def digits_seconds_def Let_def digits_opt_def take_digits split: if_splits)

lemma match_duration_digits: "match_duration s = Some u \<Longrightarrow> digits_duration u"
  by (auto simp: match_duration_def Let_def digits_duration_def digits_opt_def [of None] digits_seconds_def [of None] dest: take_unit_digits take_seconds_digits
      split: if_splits prod.splits)

lemma digits_no_quote: "list_all is_digit s \<Longrightarrow> CHR 0x27 \<notin> set s"
  by (auto simp: list_all_iff is_digit_def)

lemma interval_no_quote:
  assumes "digits_duration u"
  shows "\<forall>x \<in> set (interval_parts u). CHR 0x27 \<notin> set x"
  using assms
  by (auto simp: interval_parts_def digits_duration_def digits_seconds_def digits_opt_def Let_def dest!: digits_no_quote split: option.splits)

lemma join_no_quote: "c \<notin> set sep \<Longrightarrow> \<forall>x \<in> set xs. c \<notin> set x \<Longrightarrow> c \<notin> set (join sep xs)"
  by (cases xs) (auto simp: join_def)

lemma interval_closed:
  assumes "digits_duration u"
  shows "closed_text (interval_text u)"
proof -
  let ?t = "if interval_parts u = [] then ''0 seconds'' else join '' '' (interval_parts u)"
  have "CHR 0x27 \<notin> set ?t" using join_no_quote [of "CHR 0x27" "'' ''"] interval_no_quote [OF assms] by auto
  then have "closed_text (quoted (if du_neg u then ''-'' @ ?t else ?t))" by (intro closed_quoted) auto
  moreover have "closed_text ''INTERVAL ''" by (rule closed_plain) code_simp
  ultimately show ?thesis unfolding interval_text_def Let_def by (intro closed_append)
qed

section \<open>Expressions\<close>

definition name_safe :: "string \<Rightarrow> bool" where
  "name_safe n = (CHR 0x22 \<notin> set n)"

fun expr_safe :: "sql_expr \<Rightarrow> bool" where
  "expr_safe Sql_True = True"
| "expr_safe Sql_False = True"
| "expr_safe (Sql_And es) = list_all expr_safe es"
| "expr_safe (Sql_Or es) = list_all expr_safe es"
| "expr_safe (Sql_Not e) = expr_safe e"
| "expr_safe (Is_Null col b) = name_safe col"
| "expr_safe (Subject_Eq col t) = name_safe col"
| "expr_safe (Subject_Ne col t) = name_safe col"
| "expr_safe (In_Subject col ty key) = (name_safe col \<and> list_all plain_char ty)"
| "expr_safe (In_Values a vs) = name_safe (af_name a)"
| "expr_safe (Rel_Time a op u) = (name_safe (af_name a) \<and> digits_duration u)"
| "expr_safe (Like a needle) = name_safe (af_name a)"
| "expr_safe (Cmp_Value a op v) = name_safe (af_name a)"

lemma column_closed:
  "list_all plain_char alias \<Longrightarrow> name_safe name \<Longrightarrow> closed_text (column_ref alias name)"
  using closed_plain [of "alias @ ''.''"]
  by (auto simp: column_ref_def closed_text_def scan_append scan_char_def scan_name name_safe_def)

lemma pg_type_plain: "list_all plain_char (pg_type a)"
proof -
  have "list_all (list_all plain_char \<circ> snd) pg_types" "list_all plain_char ''text''" by code_simp+
  then show ?thesis by (auto simp: pg_type_def list_all_iff dest!: map_of_SomeD split: option.split)
qed

lemma cmp_sign_closed: "closed_text (sql_cmp_sign op)"
  unfolding sql_cmp_sign_def by (auto intro!: closed_plain) (code_simp+)

lemma closed_call: "closed_text s \<Longrightarrow> closed_text (CHR ''('' # s @ '')'')"
  using closed_paren [of s] by (simp add: paren_def)

lemma scan_closed: "closed_text s \<Longrightarrow> scan (Some (Code, d)) s = Some (Code, d)"
  by (simp add: closed_text_def)

lemmas scan_text = scan_append scan_char_def paren_def scan_closed

lemma sql_text_closed:
  assumes "list_all plain_char alias"
  shows "expr_safe e \<Longrightarrow> closed_text (sql_text jr alias e)"
proof (induction e)
  case (Sql_And es)
  have "closed_text '' AND ''" by (rule closed_plain) code_simp
  then show ?case using Sql_And by (auto simp: list_all_iff intro!: closed_paren closed_join)
next
  case (Sql_Or es)
  have "closed_text '' OR ''" by (rule closed_plain) code_simp
  then show ?case using Sql_Or by (auto simp: list_all_iff intro!: closed_paren closed_join)
next
  case (Sql_Not e)
  then show ?case unfolding closed_text_def by (simp add: scan_text)
next
  case (Is_Null col b)
  then show ?case using column_closed [OF assms] unfolding closed_text_def by (simp add: scan_text)
next
  case (Subject_Eq col t)
  then show ?case using column_closed [OF assms] closed_quote
    unfolding closed_text_def by (cases t) (simp_all add: scan_text quoted_def)
next
  case (Subject_Ne col t)
  then show ?case using column_closed [OF assms] closed_quote
    unfolding closed_text_def by (cases t) (simp_all add: scan_text quoted_def)
next
  case (In_Subject col ty key)
  then show ?case using column_closed [OF assms] closed_quote closed_plain [of ty]
    unfolding closed_text_def by (simp add: scan_text Let_def)
next
  case (In_Values a vs)
  have "closed_text '', ''" by (rule closed_plain) code_simp
  then have "closed_text (join '', '' (map (literal jr a) vs))" using literal_closed by (intro closed_join) auto
  then show ?case using In_Values column_closed [OF assms] closed_plain [OF pg_type_plain]
    unfolding closed_text_def by (simp add: scan_text)
next
  case (Rel_Time a op u)
  then have "closed_text (interval_text u)" by (simp add: interval_closed)
  then show ?case using Rel_Time column_closed [OF assms] cmp_sign_closed
    unfolding closed_text_def by (simp add: scan_text)
next
  case (Like a needle)
  then show ?case using column_closed [OF assms] literal_closed
    unfolding closed_text_def by (simp add: scan_text quoted_def)
next
  case (Cmp_Value a op v)
  then show ?case using column_closed [OF assms] literal_closed cmp_sign_closed
    unfolding closed_text_def by (simp add: scan_text)
qed (simp_all add: closed_text_def scan_char_def)

lemma leaf_expr_safe:
  assumes "\<And>i a. attrs i = Some a \<Longrightarrow> name_safe (af_name a)" and "leaf_expr iso8601 attrs acl acl_id vals op body = Inr e"
  shows "expr_safe e"
proof -
  obtain a where a: "body_fact attrs body = Inr a" using assms(2) by (auto simp: leaf_expr_def opt_simps)
  then have n: "name_safe (af_name a)" using assms(1) by (auto simp: body_fact_def opt_simps split: option.splits)
  note l = assms(2) [unfolded leaf_expr_def a ok_bind_simps]
  consider (null) "op = ''is_null''" | (subject) "op \<noteq> ''is_null''" "map_of body ''subject_id'' \<noteq> None"
    | (member) "op \<noteq> ''is_null''" "map_of body ''subject_id'' = None" "map_of body ''subject_attr'' \<noteq> None"
    | (rel) "op \<noteq> ''is_null''" "map_of body ''subject_id'' = None" "map_of body ''subject_attr'' = None" "map_of body ''rel_time'' \<noteq> None"
    | (val) "op \<noteq> ''is_null''" "map_of body ''subject_id'' = None" "map_of body ''subject_attr'' = None" "map_of body ''rel_time'' = None"
    by blast
  then show ?thesis
  proof cases
    case null
    then obtain b where "e = Is_Null (af_name a) b" using l by (auto simp: opt_simps)
    then show ?thesis using n by simp
  next
    case subject
    then show ?thesis using l n by (cases "op = ''ne''") auto
  next
    case member
    then obtain key where "e = in_subject a key acl vals" using l by (auto simp: opt_simps)
    then show ?thesis using n pg_type_plain by (simp add: in_subject_def)
  next
    case rel
    then obtain raw u where "match_duration raw = Some u" "e = Rel_Time a op u"
      using l by (auto simp: opt_simps split: option.splits if_splits)
    then show ?thesis using n match_duration_digits by simp
  next
    case val
    have "(\<exists>vs. e = In_Values a vs) \<or> (\<exists>s. e = Like a s) \<or> (\<exists>v. e = Cmp_Value a op v)"
    proof (cases "op = ''in''")
      case True
      then obtain x where x: "(case x of JArr items \<Rightarrow> ok_bind (map_ok (\<lambda>x. encode_fact iso8601 x a ''$'') items) (\<lambda>vs. Inr (In_Values a vs))
           | _ \<Rightarrow> Inl (Rule_Raised Type_Error)) = Inr e"
        using l val by (simp only: if_True if_False simp_thms ok_bind_Inr) blast
      then obtain items where "x = JArr items" by (cases x) simp_all
      then show ?thesis using x by (auto simp: opt_simps)
    next
      case False
      note op = this
      show ?thesis
      proof (cases "op = ''contains''")
        case True
        then show ?thesis using l val by (auto simp: opt_simps)
      next
        case False
        then obtain v where "(if op \<in> {''ne'', ''eq''} \<union> set rule_cmp then Inr (Cmp_Value a op v) else Inl (Rule_Raised Key_Error)) = Inr e"
          using l val op by (simp only: if_False simp_thms option.simps ok_bind_Inr) blast
        then show ?thesis by (simp only: split: if_split_asm) blast+
      qed
    qed
    then show ?thesis using n by auto
  qed
qed

lemma rule_expr_safe:
  assumes "\<And>i a. attrs i = Some a \<Longrightarrow> name_safe (af_name a)"
  shows "rule_tree node \<longrightarrow> (\<forall>e. rule_expr iso8601 attrs acl acl_id vals node = Inr e \<longrightarrow> expr_safe e)"
    and "tree_list xs \<longrightarrow> (\<forall>es. rule_exprs iso8601 attrs acl acl_id vals xs = Inr es \<longrightarrow> list_all expr_safe es)"
proof (induction node and xs rule: rule_induct)
  case (neg b)
  then show ?case by (auto simp: node_simps eval_simps opt_simps)
next
  case (group key xs)
  then have "key \<noteq> ''not''" by auto
  then show ?case using group by (auto simp: node_simps eval_simps opt_simps split: if_splits)
next
  case (leaf node)
  show ?case
  proof (intro impI allI)
    fix e assume t: "rule_tree node" and e: "rule_expr iso8601 attrs acl acl_id vals node = Inr e"
    from t obtain key body where node: "node = JObj [(key, body)]" using rule_tree_obj by blast
    have k: "key \<noteq> ''not''" "key \<noteq> ''and'' \<and> key \<noteq> ''or''"
      using leaf t unfolding node by (auto simp: node_simps split: json.splits)
    then obtain kvs where "leaf_expr iso8601 attrs acl acl_id vals key kvs = Inr e"
      using e unfolding node by (auto simp: eval_simps split: json.splits)
    then show "expr_safe e" using leaf_expr_safe [of attrs] assms by blast
  qed
qed (auto simp: opt_simps)

text \<open>C16: the SQL of an accepted rule is a closed text: no string in the rule, the caller's id, the caller's
  attribute values or a JSON value's print can end a literal or unbalance the parentheses.\<close>
theorem rule_sql_closed:
  assumes "validate_rule iso8601 rule attrs subs = Inr info" and "list_all plain_char alias"
    and "\<And>i a. attrs i = Some a \<Longrightarrow> CHR 0x22 \<notin> set (af_name a)"
    and "rule_sql iso8601 jsonb_repr rule attrs alias acl acl_id vals = Inr t"
  shows "closed_text t"
proof (cases "rule = JNull")
  case True
  then have "t = sql_text jsonb_repr alias Sql_True" using assms(4) by (simp add: rule_sql_def)
  then show ?thesis using sql_text_closed [OF assms(2), of Sql_True] by simp
next
  case False
  then obtain e where e: "rule_expr iso8601 attrs acl acl_id vals rule = Inr e" "t = sql_text jsonb_repr alias e"
    using assms(4) by (auto simp: rule_sql_def opt_simps)
  have "expr_safe e"
    using rule_expr_safe(1) [of attrs rule] validate_rule_tree [OF assms(1) False] e(1) assms(3) by (auto simp: name_safe_def)
  then show ?thesis using sql_text_closed [OF assms(2)] e(2) by simp
qed

theorem rule_sql_closed_witness:
  "\<exists>t. rule_sql (\<lambda>_. None) (\<lambda>_. []) region_rule sample_facts ''t'' False (Some ''o'') (\<lambda>_. []) = Inr t \<and> closed_text t"
proof -
  have v: "case validate_rule (\<lambda>_. None) region_rule sample_facts (\<lambda>_. None) of Inl e \<Rightarrow> False | Inr info \<Rightarrow> True"
    by code_simp
  then obtain info where i: "validate_rule (\<lambda>_. None) region_rule sample_facts (\<lambda>_. None) = Inr info"
    by (auto split: sum.splits)
  have "case rule_sql (\<lambda>_. None) (\<lambda>_. []) region_rule sample_facts ''t'' False (Some ''o'') (\<lambda>_. []) of Inl e \<Rightarrow> False | Inr t \<Rightarrow> True"
    by code_simp
  then obtain t where t: "rule_sql (\<lambda>_. None) (\<lambda>_. []) region_rule sample_facts ''t'' False (Some ''o'') (\<lambda>_. []) = Inr t"
    by (auto split: sum.splits)
  have p: "list_all plain_char ''t''" by code_simp
  have "\<And>i a. sample_facts i = Some a \<Longrightarrow> CHR 0x22 \<notin> set (af_name a)"
    by (auto simp: sample_facts_def region_fact_def opened_fact_def split: if_splits)
  then show ?thesis using rule_sql_closed [OF i p _ t] t by blast
qed

end
