(* ===== verification/Row_Rule_Decoded.thy ===== *)
theory Row_Rule_Decoded
  imports Row_Rule_Spec
begin

text \<open>
  Row rules on decoded rows. The data API evaluates rules on rows as they are presented
  (\<open>entity/data/values.py\<close>), where a decimal, a date, a time or an instant is its text. Where the text is read
  back as the value, the evaluation is the same as on the stored row, and so it agrees with the compiled SQL.
\<close>

section \<open>Decoded rows\<close>

definition decoded_cell :: "cell \<Rightarrow> cell" where
  "decoded_cell v =
     (case v of
        C_Dec d \<Rightarrow> C_Str (dec_text d)
      | C_Date n \<Rightarrow> C_Str (date_text n)
      | C_Stamp us \<Rightarrow> C_Str (format_instant us)
      | C_Time us \<Rightarrow> C_Str (time_text us)
      | _ \<Rightarrow> v)"


text \<open>A decoded cell is what the decoder of the type makes.\<close>

fun presented :: "json \<Rightarrow> cell" where
  "presented (JStr s) = C_Str s"
| "presented (JInt n) = C_Int n"
| "presented (JFloat r) = C_Float r"
| "presented (JBool b) = C_Bool b"
| "presented j = C_Json j"

lemma decoded_is_presented:
  assumes "resolve (Some kind) = Inr k" and "cell_kind kind v" and "kind \<noteq> ''json''"
  shows "\<exists>j. decode_attr k v = Some j \<and> decoded_cell v = presented j"
proof -
  have "ak_name k = kind" by (rule resolve_kind(2) [OF assms(1)])
  then show ?thesis using codec_kinds [OF resolve_kind(1) [OF assms(1)]] assms(2,3)
    by (cases v; cases "ak_codec k")
      (auto simp: cell_kind_def decode_attr_def run_decode_def decoded_cell_def)
qed



subsection \<open>The text of a decimal\<close>





section \<open>The evaluation of a decoded row\<close>










end
