(* ===== verification/Cron.thy ===== *)
theory Cron
  imports Text Calendar
begin

text \<open>
  Schedules in wall-clock time (\<open>backend/worker/cron.py\<close>, with \<open>resolve_wall_time\<close> of \<open>core/time.py\<close>).

  An instant and a naive local time are microseconds, day \<open>n\<close> of the calendar starting at \<open>n * day_us\<close>. A time
  zone is what \<open>zoneinfo\<close> loads: the offset before the first transition and the transitions (instant, new
  offset) in order, up to the end of year 9999. The functions over it follow \<open>zoneinfo\<close>'s lookups: with \<open>fold=0\<close> a
  transition counts from the later of its two local readings on, with \<open>fold=1\<close> from the earlier. The catalog
  of zone names is the parameter \<open>zone_of\<close>. Python's overflow at the very end of year 9999 is only
  modelled where the code adds years.
\<close>

section \<open>Time zones\<close>

definition minute_us :: int where "minute_us = 60 * 1000000"
definition hour_us :: int where "hour_us = 3600 * 1000000"

type_synonym zone = "int \<times> (int \<times> int) list"

fun offset_from :: "int \<Rightarrow> (int \<times> int) list \<Rightarrow> bool \<Rightarrow> int \<Rightarrow> int" where
  "offset_from a [] later w = a"
| "offset_from a ((t, b) # ts) later w = (if w < t + (if later then min a b else max a b) then a else offset_from b ts later w)"

text \<open>\<open>utcoffset()\<close> of a local time.\<close>

definition utc_offset :: "zone \<Rightarrow> bool \<Rightarrow> int \<Rightarrow> int" where
  "utc_offset z = offset_from (fst z) (snd z)"

fun local_from :: "int \<Rightarrow> (int \<times> int) list \<Rightarrow> int \<Rightarrow> int" where
  "local_from a [] u = u + a"
| "local_from a ((t, b) # ts) u = (if u < t then u + a else local_from b ts u)"

text \<open>\<open>astimezone\<close>: the local time of an instant and its fold.\<close>

definition local_time :: "zone \<Rightarrow> int \<Rightarrow> int" where
  "local_time z = local_from (fst z) (snd z)"

fun fold_from :: "int \<Rightarrow> (int \<times> int) list \<Rightarrow> int \<Rightarrow> bool" where
  "fold_from a [] u = False"
| "fold_from a ((t, b) # ts) u =
     (if u < t then False
      else case ts of
          [] \<Rightarrow> u - t < a - b
        | (t2, _) # _ \<Rightarrow> if u < t2 then u - t < a - b else fold_from b ts u)"

definition local_fold :: "zone \<Rightarrow> int \<Rightarrow> bool" where
  "local_fold z = fold_from (fst z) (snd z)"

datatype cron_error = Bad_Cron | Unknown_Zone | Unresolvable | Year_Overflow | No_Fire | No_Cadence

primrec next_legal :: "zone \<Rightarrow> nat \<Rightarrow> int \<Rightarrow> int option" where
  "next_legal z 0 w = None"
| "next_legal z (Suc n) w =
     (let c = w + minute_us
      in if utc_offset z False c = utc_offset z True c then Some (c - utc_offset z False c) else next_legal z n c)"

definition resolve_wall_time :: "zone \<Rightarrow> int \<Rightarrow> cron_error + int" where
  "resolve_wall_time z w =
     (let a = utc_offset z False w; b = utc_offset z True w
      in if a \<noteq> b
         then if w - a < w - b then Inr (w - b)
              else (case next_legal z (24 * 60) w of None \<Rightarrow> Inl Unresolvable | Some u \<Rightarrow> Inr u)
         else Inr (w - a))"

section \<open>Cron expressions\<close>

function split_words :: "string \<Rightarrow> string list" where
  "split_words s =
     (case dropWhile is_space s of
        [] \<Rightarrow> []
      | x # xs \<Rightarrow> (x # takeWhile (\<lambda>c. \<not> is_space c) xs) # split_words (dropWhile (\<lambda>c. \<not> is_space c) xs))"
  by pat_completeness auto

termination split_words
proof (relation "measure length")
  fix s x xs assume "dropWhile is_space s = x # xs"
  then have "length (x # xs) \<le> length s" using length_dropWhile_le [of is_space s] by simp
  then show "(dropWhile (\<lambda>c. \<not> is_space c) xs, s) \<in> measure length"
    using length_dropWhile_le [of "\<lambda>c. \<not> is_space c" xs] by simp
qed simp

declare split_words.simps [simp del]

text \<open>The errors are all \<open>ValueError\<close>: \<open>None\<close>. Python refuses to convert more than 4300 digits.\<close>

definition parse_number :: "string \<Rightarrow> int option" where
  "parse_number token =
     (let text = py_strip token;
          minus = (text \<noteq> [] \<and> hd text = CHR ''-'');
          digits = (if minus then tl text else text)
      in if digits \<noteq> [] \<and> list_all is_digit digits \<and> length digits \<le> 4300
         then Some (if minus then - int (nat_of_digits digits) else int (nat_of_digits digits)) else None)"

definition part_bounds :: "string \<Rightarrow> bool \<Rightarrow> int \<Rightarrow> int \<Rightarrow> (int \<times> int) option" where
  "part_bounds base stepped minimum maximum =
     (if base = ''*'' then Some (minimum, maximum)
      else case split_once (CHR ''-'') base of
          Some (start_text, end_text) \<Rightarrow>
            if hd base = CHR ''-'' \<or> py_strip start_text = [] \<or> py_strip end_text = [] then None
            else (case (parse_number start_text, parse_number end_text) of
                    (Some start, Some end_value) \<Rightarrow> if start > end_value then None else Some (start, end_value)
                  | _ \<Rightarrow> None)
        | None \<Rightarrow>
            (case parse_number base of None \<Rightarrow> None | Some start \<Rightarrow> Some (start, if stepped then maximum else start)))"

definition in_range :: "int \<Rightarrow> int \<Rightarrow> int \<Rightarrow> bool" where
  "in_range v minimum maximum = (minimum \<le> v \<and> v \<le> maximum)"

definition parse_range :: "string \<Rightarrow> bool \<Rightarrow> int \<Rightarrow> int \<Rightarrow> int \<Rightarrow> int list option" where
  "parse_range base stepped step minimum maximum =
     (case part_bounds (py_strip base) stepped minimum maximum of
        None \<Rightarrow> None
      | Some (start, end_value) \<Rightarrow>
          if in_range start minimum maximum \<and> in_range end_value minimum maximum
          then Some (filter (\<lambda>v. (v - start) mod step = 0) [start..end_value]) else None)"

definition parse_part :: "string \<Rightarrow> int \<Rightarrow> int \<Rightarrow> int list option" where
  "parse_part part minimum maximum =
     (case split_once (CHR ''/'') part of
        None \<Rightarrow> parse_range part False 1 minimum maximum
      | Some (base, step_text) \<Rightarrow>
          if py_strip base = [] \<or> py_strip step_text = [] \<or> CHR ''/'' \<in> set step_text then None
          else (case parse_number step_text of
                  None \<Rightarrow> None
                | Some step \<Rightarrow> if step < 1 then None else parse_range base True step minimum maximum))"

primrec parse_parts :: "string list \<Rightarrow> int \<Rightarrow> int \<Rightarrow> int list option" where
  "parse_parts [] minimum maximum = Some []"
| "parse_parts (p # ps) minimum maximum =
     (if py_strip p = [] then None
      else case parse_part (py_strip p) minimum maximum of
          None \<Rightarrow> None
        | Some vs \<Rightarrow> (case parse_parts ps minimum maximum of None \<Rightarrow> None | Some ws \<Rightarrow> Some (vs @ ws)))"

definition parse_field :: "string \<Rightarrow> int \<Rightarrow> int \<Rightarrow> int list option" where
  "parse_field field minimum maximum =
     (if py_strip field = [] then None else parse_parts (split_on (CHR '','') field) minimum maximum)"

text \<open>A set of the code is the list of its elements.\<close>

record cron_fields =
  cf_minutes :: "int list"
  cf_hours :: "int list"
  cf_doms :: "int list"
  cf_months :: "int list"
  cf_dows :: "int list"

definition parse_cron_fields :: "string \<Rightarrow> cron_error + cron_fields" where
  "parse_cron_fields expr =
     (case split_words expr of
        [minute, hour, day_of_month, month, day_of_week] \<Rightarrow>
          if day_of_month \<noteq> ''*'' \<and> day_of_week \<noteq> ''*'' then Inl Bad_Cron
          else (case (parse_field day_of_week 0 7, parse_field minute 0 59, parse_field hour 0 23,
                      parse_field day_of_month 1 31, parse_field month 1 12) of
                  (Some dow, Some mi, Some h, Some doms, Some mo) \<Rightarrow>
                    Inr \<lparr>cf_minutes = mi, cf_hours = h, cf_doms = doms, cf_months = mo,
                         cf_dows = map (\<lambda>v. if v = 7 then 0 else v) dow\<rparr>
                | _ \<Rightarrow> Inl Bad_Cron)
      | _ \<Rightarrow> Inl Bad_Cron)"

section \<open>The next fire\<close>

definition cron_weekday :: "int \<Rightarrow> int" where
  "cron_weekday day = (weekday day + 1) mod 7"

definition day_matches :: "cron_fields \<Rightarrow> int \<Rightarrow> bool" where
  "day_matches f day =
     (case ymd day of (y, m, d) \<Rightarrow> m \<in> set (cf_months f) \<and> d \<in> set (cf_doms f) \<and> cron_weekday day \<in> set (cf_dows f))"

definition wall_hour :: "int \<Rightarrow> int" where "wall_hour w = (w mod day_us) div hour_us"
definition wall_minute :: "int \<Rightarrow> int" where "wall_minute w = (w mod hour_us) div minute_us"

definition local_matches :: "int \<Rightarrow> cron_fields \<Rightarrow> bool" where
  "local_matches w f =
     (wall_minute w \<in> set (cf_minutes f) \<and> wall_hour w \<in> set (cf_hours f) \<and> day_matches f (w div day_us))"

definition fire_horizon_years :: int where "fire_horizon_years = 8"

definition plus_years :: "int \<Rightarrow> int \<Rightarrow> int option" where
  "plus_years w years =
     (case ymd (w div day_us) of (y, m, d) \<Rightarrow>
        if valid_date (y + years) m d then Some (ordinal (y + years) m d * day_us + w mod day_us)
        else if valid_date (y + years) m 28 then Some (ordinal (y + years) m 28 * day_us + w mod day_us)
        else None)"

text \<open>The instant the search ends at: the local time eight years later, read with the fold of \<open>after\<close>.\<close>

definition fire_limit :: "zone \<Rightarrow> int \<Rightarrow> int option" where
  "fire_limit z after =
     (case plus_years (local_time z after) fire_horizon_years of
        None \<Rightarrow> None | Some w \<Rightarrow> Some (w - utc_offset z (local_fold z after) w))"

definition sorted_values :: "int list \<Rightarrow> int list" where
  "sorted_values xs = sort (remdups xs)"

definition day_walls :: "cron_fields \<Rightarrow> int \<Rightarrow> int list" where
  "day_walls f day =
     concat (map (\<lambda>h. map (\<lambda>m. day * day_us + h * hour_us + m * minute_us) (sorted_values (cf_minutes f)))
       (sorted_values (cf_hours f)))"

text \<open>The two inner loops: \<open>None\<close> when no candidate of the day is late enough, else the value the search
  returns.\<close>

primrec scan_day :: "zone \<Rightarrow> int \<Rightarrow> int \<Rightarrow> int list \<Rightarrow> cron_error + int option option" where
  "scan_day z after limit [] = Inr None"
| "scan_day z after limit (w # ws) =
     ok_bind (resolve_wall_time z w)
       (\<lambda>r. if r > after then Inr (Some (if r \<le> limit then Some r else None)) else scan_day z after limit ws)"

function scan_days :: "cron_fields \<Rightarrow> zone \<Rightarrow> int \<Rightarrow> int \<Rightarrow> int \<Rightarrow> int \<Rightarrow> cron_error + int option" where
  "scan_days f z after limit last_day day =
     (if day \<le> last_day
      then case (if day_matches f day then scan_day z after limit (day_walls f day) else Inr None) of
          Inl e \<Rightarrow> Inl e
        | Inr None \<Rightarrow> scan_days f z after limit last_day (day + 1)
        | Inr (Some r) \<Rightarrow> Inr r
      else Inr None)"
  by pat_completeness auto

termination scan_days
  by (relation "measure (\<lambda>(f, z, after, limit, last_day, day). nat (last_day + 1 - day))") auto

declare scan_days.simps [simp del]

definition first_cron_fire_after :: "cron_fields \<Rightarrow> zone \<Rightarrow> int \<Rightarrow> cron_error + int option" where
  "first_cron_fire_after f z after =
     (case fire_limit z after of
        None \<Rightarrow> Inl Year_Overflow
      | Some limit \<Rightarrow>
          scan_days f z after limit (local_time z limit div day_us) (local_time z after div day_us))"

definition validate_schedule_timezone :: "(string \<Rightarrow> zone option) \<Rightarrow> string \<Rightarrow> cron_error + zone" where
  "validate_schedule_timezone zone_of name = (case zone_of name of None \<Rightarrow> Inl Unknown_Zone | Some z \<Rightarrow> Inr z)"

definition zone_cron_schedule :: "(string \<Rightarrow> zone option) \<Rightarrow> string \<Rightarrow> string \<Rightarrow> cron_error + cron_fields \<times> zone" where
  "zone_cron_schedule zone_of expr zone_name =
     ok_bind (parse_cron_fields expr)
       (\<lambda>f. ok_bind (validate_schedule_timezone zone_of (if zone_name = [] then ''UTC'' else zone_name)) (\<lambda>z. Inr (f, z)))"

definition next_fire_after :: "cron_fields \<times> zone \<Rightarrow> int \<Rightarrow> cron_error + int" where
  "next_fire_after s start =
     ok_bind (first_cron_fire_after (fst s) (snd s) start)
       (\<lambda>found. case found of None \<Rightarrow> Inl No_Fire | Some r \<Rightarrow> Inr r)"

definition cron_start_floor :: "int \<Rightarrow> int" where
  "cron_start_floor start =
     (let floor = start - start mod minute_us in if floor = start then floor else floor + minute_us)"

definition cron_search_after :: "int \<Rightarrow> int option \<Rightarrow> int" where
  "cron_search_after after start_at =
     (case start_at of
        None \<Rightarrow> after
      | Some s \<Rightarrow> let bound = cron_start_floor s - 1 in if bound > after then bound else after)"

definition next_interval_grid_point :: "int \<Rightarrow> int \<Rightarrow> int \<Rightarrow> int" where
  "next_interval_grid_point start seconds after =
     (if start > after then start
      else let step = seconds * 1000000 in start + step * ((after - start) div step + 1))"

definition given :: "int option \<Rightarrow> bool" where
  "given v = (case v of None \<Rightarrow> False | Some n \<Rightarrow> n > 0)"

definition text_set :: "string option \<Rightarrow> bool" where
  "text_set v = (case v of None \<Rightarrow> False | Some s \<Rightarrow> s \<noteq> [])"

definition compute_next_run_at ::
  "(string \<Rightarrow> zone option) \<Rightarrow> string option \<Rightarrow> string \<Rightarrow> int option \<Rightarrow> int \<Rightarrow> int option \<Rightarrow> int \<Rightarrow> cron_error + int" where
  "compute_next_run_at zone_of cron zone_name interval after start_at now =
     (if given interval
      then (case start_at of
              Some s \<Rightarrow> Inr (next_interval_grid_point s (the interval) (max after now))
            | None \<Rightarrow> let nxt = after + the interval * 1000000 in Inr (if nxt \<ge> now then nxt else now))
      else if text_set cron
      then ok_bind (zone_cron_schedule zone_of (the cron) zone_name) (\<lambda>s. next_fire_after s (cron_search_after after start_at))
      else Inl No_Cadence)"

definition current_cron_slot_instant :: "(string \<Rightarrow> zone option) \<Rightarrow> string \<Rightarrow> string \<Rightarrow> int \<Rightarrow> cron_error + int option" where
  "current_cron_slot_instant zone_of cron zone_name now =
     ok_bind (zone_cron_schedule zone_of cron zone_name)
       (\<lambda>(f, z). let w = local_time z now; naive = w - w mod minute_us
          in if \<not> local_matches naive f then Inr None
             else ok_bind (resolve_wall_time z naive) (\<lambda>u. Inr (Some u)))"

text \<open>What Beat asks a commitment: whether to send now, and when to ask again (in microseconds here, as floating
  seconds in the code). \<open>last_run\<close> is Beat's own delivery cursor.\<close>

definition beat_sync_us :: int where "beat_sync_us = 30 * 1000000"

definition commitment_is_due :: "int option \<Rightarrow> int option \<Rightarrow> int \<Rightarrow> bool \<times> int" where
  "commitment_is_due next_run last_run now =
     (case next_run of
        None \<Rightarrow> (False, beat_sync_us)
      | Some nxt \<Rightarrow>
          if nxt > now then (False, max (nxt - now) 1000000)
          else (case last_run of
              Some dispatched \<Rightarrow>
                if dispatched \<ge> nxt \<and> beat_sync_us - (now - dispatched) > 0
                then (False, max (beat_sync_us - (now - dispatched)) 1000000) else (True, beat_sync_us)
            | None \<Rightarrow> (True, beat_sync_us)))"

definition remaining_estimate :: "int option \<Rightarrow> int option \<Rightarrow> int \<Rightarrow> int" where
  "remaining_estimate next_run last_run now =
     (case commitment_is_due next_run last_run now of (due, wait) \<Rightarrow> if due then 0 else wait)"

section \<open>Parsed fields\<close>

definition fields_ok :: "cron_fields \<Rightarrow> bool" where
  "fields_ok f \<longleftrightarrow> cf_minutes f \<noteq> [] \<and> set (cf_minutes f) \<subseteq> {0..59} \<and> cf_hours f \<noteq> [] \<and> set (cf_hours f) \<subseteq> {0..23} \<and>
     cf_doms f \<noteq> [] \<and> set (cf_doms f) \<subseteq> {1..31} \<and> cf_months f \<noteq> [] \<and> set (cf_months f) \<subseteq> {1..12} \<and>
     cf_dows f \<noteq> [] \<and> set (cf_dows f) \<subseteq> {0..6}"

lemma part_bounds_le:
  assumes "part_bounds base stepped lo hi = Some (a, b)" and "lo \<le> hi" and "in_range a lo hi"
  shows "a \<le> b"
  using assms by (auto simp: part_bounds_def in_range_def split: if_splits option.splits)

lemma parse_range_ok:
  assumes "parse_range base stepped step lo hi = Some vs" and "lo \<le> hi"
  shows "vs \<noteq> [] \<and> set vs \<subseteq> {lo..hi}"
proof -
  obtain a b where ab: "part_bounds (py_strip base) stepped lo hi = Some (a, b)" "in_range a lo hi" "in_range b lo hi"
    and v: "vs = filter (\<lambda>v. (v - a) mod step = 0) [a..b]"
    using assms(1) by (auto simp: parse_range_def split: option.splits if_splits)
  have "a \<in> set vs" using part_bounds_le [OF ab(1) assms(2) ab(2)] by (simp add: v)
  then have "vs \<noteq> []" by auto
  then show ?thesis using ab(2,3) by (auto simp: v in_range_def)
qed

lemma parse_part_ok: "parse_part part lo hi = Some vs \<Longrightarrow> lo \<le> hi \<Longrightarrow> vs \<noteq> [] \<and> set vs \<subseteq> {lo..hi}"
  by (auto simp: parse_part_def dest: parse_range_ok split: option.splits if_splits prod.splits)

lemma parse_parts_ok: "parse_parts ps lo hi = Some vs \<Longrightarrow> lo \<le> hi \<Longrightarrow> (ps \<noteq> [] \<longrightarrow> vs \<noteq> []) \<and> set vs \<subseteq> {lo..hi}"
proof (induction ps arbitrary: vs)
  case (Cons p ps)
  then obtain us ws where "parse_part (py_strip p) lo hi = Some us" "parse_parts ps lo hi = Some ws" "vs = us @ ws"
    by (auto split: if_splits option.splits)
  then show ?case using Cons.IH [of ws] parse_part_ok [of "py_strip p" lo hi us] Cons.prems(2) by auto
qed simp

lemma parse_field_ok: "parse_field field lo hi = Some vs \<Longrightarrow> lo \<le> hi \<Longrightarrow> vs \<noteq> [] \<and> set vs \<subseteq> {lo..hi}"
  using parse_parts_ok split_on_some by (auto simp: parse_field_def split: if_splits)

lemma cron_fields_parsed:
  assumes "parse_cron_fields expr = Inr f"
  shows "fields_ok f \<and> length (split_words expr) = 5 \<and> (split_words expr ! 2 = ''*'' \<or> split_words expr ! 4 = ''*'')"
proof -
  obtain mi h dm mo dow where w: "split_words expr = [mi, h, dm, mo, dow]"
    using assms by (auto simp: parse_cron_fields_def split: list.splits)
  have d: "dm = ''*'' \<or> dow = ''*''" using assms w by (auto simp: parse_cron_fields_def split: if_splits)
  obtain v1 v2 v3 v4 v5 where v: "parse_field dow 0 7 = Some v1" "parse_field mi 0 59 = Some v2" "parse_field h 0 23 = Some v3"
    "parse_field dm 1 31 = Some v4" "parse_field mo 1 12 = Some v5"
    and f: "f = \<lparr>cf_minutes = v2, cf_hours = v3, cf_doms = v4, cf_months = v5, cf_dows = map (\<lambda>v. if v = 7 then 0 else v) v1\<rparr>"
    using assms w by (auto simp: parse_cron_fields_def split: if_splits option.splits)
  have r: "v1 \<noteq> []" "set v1 \<subseteq> {0..7}" "v2 \<noteq> []" "set v2 \<subseteq> {0..59}" "v3 \<noteq> []" "set v3 \<subseteq> {0..23}"
    "v4 \<noteq> []" "set v4 \<subseteq> {1..31}" "v5 \<noteq> []" "set v5 \<subseteq> {1..12}"
    using v parse_field_ok by force+
  have "(if v = 7 then 0 else v) \<in> {0..6}" if "v \<in> set v1" for v using that r(2) by force
  then have "set (map (\<lambda>v. if v = 7 then 0 else v) v1) \<subseteq> {0..6}" by (simp only: set_map image_subset_iff) blast
  then show ?thesis using r d by (simp add: fields_ok_def f w)
qed

text \<open>An accepted expression has five fields, each a non-empty set of values of its range; day 7 has
  become day 0, and not both day fields are restricted.\<close>
theorem cron_fields_ok:
  assumes "parse_cron_fields expr = Inr f"
  shows "fields_ok f \<and> length (split_words expr) = 5 \<and> (split_words expr ! 2 = ''*'' \<or> split_words expr ! 4 = ''*'')"
  by (rule cron_fields_parsed [OF assms])

theorem cron_fields_ok_witness:
  "\<exists>f. parse_cron_fields ''*/20 9-17/4 * 1,7 0,7'' = Inr f \<and> cf_minutes f = [0, 20, 40] \<and> cf_hours f = [9, 13, 17] \<and>
     cf_months f = [1, 7] \<and> cf_dows f = [0, 0] \<and> fields_ok f"
proof -
  have "split_words ''*/20 9-17/4 * 1,7 0,7'' = [''*/20'', ''9-17/4'', ''*'', ''1,7'', ''0,7'']" by code_simp
  moreover have "parse_field ''*/20'' 0 59 = Some [0, 20, 40]" by code_simp
  moreover have "parse_field ''9-17/4'' 0 23 = Some [9, 13, 17]" by code_simp
  moreover have "parse_field ''*'' 1 31 = Some [1..31]" by code_simp
  moreover have "parse_field ''1,7'' 1 12 = Some [1, 7]" by code_simp
  moreover have "parse_field ''0,7'' 0 7 = Some [0, 7]" by code_simp
  ultimately have p: "parse_cron_fields ''*/20 9-17/4 * 1,7 0,7'' =
      Inr \<lparr>cf_minutes = [0, 20, 40], cf_hours = [9, 13, 17], cf_doms = [1..31], cf_months = [1, 7], cf_dows = [0, 0]\<rparr>"
    by (simp add: parse_cron_fields_def)
  then show ?thesis using cron_fields_ok [OF p] by simp
qed

end
