(* ===== verification/Cron_Spec.thy ===== *)
theory Cron_Spec
  imports Cron
begin

text \<open>
  What wall-clock schedules promise. A zone is in order when its changes of offset do not overlap, a
  gap ends on a full minute and no repeated hour spans midnight; then resolving whole minutes is
  monotone and agrees with the calendar day, the search returns the least fire after the cursor, and the next run
  is the first legal one; for the next run the zone need only be in order from three days before the cursor on.
\<close>

section \<open>Zones in order\<close>

definition starts_at :: "int \<Rightarrow> int \<Rightarrow> (int \<times> int) list \<Rightarrow> bool" where
  "starts_at w a ts = (case ts of [] \<Rightarrow> True | (t, b) # _ \<Rightarrow> w \<le> t + min a b)"

fun zone_from :: "int \<Rightarrow> (int \<times> int) list \<Rightarrow> bool" where
  "zone_from a [] = True"
| "zone_from a ((t, b) # ts) =
     (b - a \<le> day_us \<and> (a < b \<longrightarrow> (t + b) mod minute_us = 0) \<and> (b < a \<longrightarrow> (t + a - 1) div day_us = (t + b) div day_us) \<and>
      starts_at (t + max a b + minute_us) b ts \<and> zone_from b ts)"

definition zone_ok :: "zone \<Rightarrow> bool" where
  "zone_ok z = zone_from (fst z) (snd z)"

text \<open>The instant of a wall time, change by change: a skipped time is the instant of the change, a repeated one
  is read with the later offset.\<close>

fun resolved :: "int \<Rightarrow> (int \<times> int) list \<Rightarrow> int \<Rightarrow> int" where
  "resolved a [] w = w - a"
| "resolved a ((t, b) # ts) w =
     (if w < t + min a b then w - a else if w < t + max a b then (if a < b then t else w - b) else resolved b ts w)"

lemma minute_pos: "0 < minute_us" and day_minutes: "day_us = 1440 * minute_us" and hour_minutes: "hour_us = 60 * minute_us"
  by (simp_all add: minute_us_def day_us_def hour_us_def)

lemma starts_le: "starts_at w a ts \<Longrightarrow> v \<le> w \<Longrightarrow> starts_at v a ts"
  by (auto simp: starts_at_def split: list.splits)

lemma offset_early: "starts_at v a ts \<Longrightarrow> w < v \<Longrightarrow> offset_from a ts later w = a"
  by (cases ts) (auto simp: starts_at_def)

lemma next_legal_cong:
  assumes "\<And>c later. w \<le> c \<Longrightarrow> utc_offset z later c = utc_offset z' later c"
  shows "next_legal z n w = next_legal z' n w"
  using assms
proof (induction n arbitrary: w)
  case (Suc n)
  have "w \<le> w + minute_us" using minute_pos by simp
  moreover have "next_legal z n (w + minute_us) = next_legal z' n (w + minute_us)"
    using Suc.prems minute_pos by (intro Suc.IH) simp
  ultimately show ?case using Suc.prems by (simp add: Let_def)
qed simp

lemma next_legal_gap:
  assumes "a < b" and "starts_at (t + b + minute_us) b ts" and "w = t + b - int k * minute_us" and "t + a \<le> w"
    and "0 < k" and "k \<le> n"
  shows "next_legal (a, (t, b) # ts) n w = Some t"
  using assms(3-)
proof (induction n arbitrary: w k)
  case (Suc n)
  let ?c = "w + minute_us"
  show ?case
  proof (cases "k = 1")
    case True
    then have "?c = t + b" using Suc.prems(1) by simp
    moreover have "offset_from b ts later (t + b) = b" for later by (rule offset_early [OF assms(2)]) (simp add: minute_pos)
    ultimately show ?thesis using assms(1) by (simp add: utc_offset_def Let_def)
  next
    case False
    then have k: "0 < k - 1" "k - 1 \<le> n" and c: "?c = t + b - int (k - 1) * minute_us"
      using Suc.prems by (auto simp: algebra_simps of_nat_diff)
    have r: "?c < t + b" "t + a \<le> ?c"
      using c k(1) minute_pos Suc.prems(2) by (simp_all add: zero_less_mult_iff)
    have "starts_at ?c b ts" by (rule starts_le [OF assms(2)]) (use r(1) minute_pos in simp)
    have "offset_from b ts True ?c = b" by (rule offset_early [OF assms(2)]) (use r(1) minute_pos in simp)
    then have "utc_offset (a, (t, b) # ts) False ?c \<noteq> utc_offset (a, (t, b) # ts) True ?c"
      using r assms(1) by (simp add: utc_offset_def)
    then show ?thesis using Suc.IH [OF c r(2) k] by (simp add: Let_def)
  qed
qed simp

lemma resolve_exact: "zone_from a ts \<Longrightarrow> w mod minute_us = 0 \<Longrightarrow> resolve_wall_time (a, ts) w = Inr (resolved a ts w)"
proof (induction a ts rule: zone_from.induct)
  case (1 a)
  then show ?case by (simp add: resolve_wall_time_def utc_offset_def)
next
  case (2 a t b ts)
  have s: "starts_at (t + max a b + minute_us) b ts" using "2.prems" by simp
  consider "w < t + min a b" | "t + min a b \<le> w" "w < t + max a b" | "t + max a b \<le> w" by linarith
  then show ?case
  proof cases
    case 1
    then have "w < t + max a b" by linarith
    with 1 show ?thesis by (simp add: resolve_wall_time_def utc_offset_def)
  next
    case 2
    have late: "offset_from b ts True w = b" by (rule offset_early [OF s]) (use 2 minute_pos in simp)
    have off: "utc_offset (a, (t, b) # ts) False w = a" "utc_offset (a, (t, b) # ts) True w = b"
      using 2 late by (simp_all add: utc_offset_def)
    show ?thesis
    proof (cases "a < b")
      case True
      have "(t + b) mod minute_us = 0" using "2.prems"(1) True by simp
      then have "(t + b - w) mod minute_us = 0" using "2.prems"(2) by (simp add: mod_diff_eq [symmetric])
      then obtain q where q: "t + b - w = minute_us * q" by (auto elim: dvdE simp: mod_eq_0_iff_dvd)
      have "0 < minute_us * q" using q 2 True by simp
      then have q0: "0 < q" using minute_pos by (simp add: zero_less_mult_iff)
      have "t + b - w \<le> day_us" using 2 True "2.prems"(1) by simp
      then have "minute_us * q \<le> minute_us * 1440" by (simp only: q day_minutes mult.commute)
      then have q1: "q \<le> 1440" using minute_pos by simp
      have "next_legal (a, (t, b) # ts) (24 * 60) w = Some t"
        by (rule next_legal_gap [where k = "nat q"]) (use True s q q0 q1 2 in \<open>simp_all add: algebra_simps max_def\<close>)
      then show ?thesis using True 2 off by (simp add: resolve_wall_time_def)
    next
      case False
      then show ?thesis using 2 off by (simp add: resolve_wall_time_def Let_def)
    qed
  next
    case 3
    have off: "utc_offset (a, (t, b) # ts) later c = utc_offset (b, ts) later c" if "w \<le> c" for later c
      using that 3 by (auto simp: utc_offset_def)
    have n: "next_legal (a, (t, b) # ts) n w = next_legal (b, ts) n w" for n by (rule next_legal_cong) (rule off)
    then have "resolve_wall_time (a, (t, b) # ts) w = resolve_wall_time (b, ts) w"
      by (simp only: resolve_wall_time_def off [OF order_refl] n)
    moreover have "\<not> w < t + min a b" using 3 by linarith
    ultimately show ?thesis using 3 "2.IH" "2.prems" by simp
  qed
qed

lemma resolved_low: "zone_from a ts \<Longrightarrow> starts_at v a ts \<Longrightarrow> v \<le> w \<Longrightarrow> v - a \<le> resolved a ts w"
proof (induction a ts arbitrary: v rule: zone_from.induct)
  case (2 a t b ts)
  have v: "v \<le> t + min a b" using "2.prems"(2) by (simp add: starts_at_def)
  have s: "starts_at (t + max a b) b ts" using "2.prems"(1) minute_pos by (auto intro: starts_le)
  have "t + max a b - b \<le> resolved b ts w" if "t + max a b \<le> w"
    using "2.IH" [OF _ s that] "2.prems"(1) by simp
  then show ?case using v "2.prems"(3) by auto
qed simp

text \<open>A later whole minute on the wall is not an earlier instant.\<close>

lemma resolved_mono:
  "zone_from a ts \<Longrightarrow> v \<le> w \<Longrightarrow> resolved a ts v \<le> resolved a ts w"
proof (induction a ts rule: zone_from.induct)
  case (2 a t b ts)
  have s: "starts_at (t + max a b) b ts" using "2.prems"(1) minute_pos by (auto intro: starts_le)
  have low: "t + max a b - b \<le> resolved b ts w" if "t + max a b \<le> w"
    using resolved_low [OF _ s that] "2.prems"(1) by simp
  have ih: "resolved b ts v \<le> resolved b ts w" using "2.IH" "2.prems" by simp
  show ?case using low ih "2.prems"(2) by auto
qed simp

lemma local_low: "zone_from a ts \<Longrightarrow> starts_at v a ts \<Longrightarrow> v \<le> local_from a ts u \<Longrightarrow> v - a \<le> u"
proof (induction a ts arbitrary: v rule: zone_from.induct)
  case (2 a t b ts)
  then show ?case by (cases "u < t") (auto simp: starts_at_def)
qed simp

lemma local_high: "zone_from a ts \<Longrightarrow> starts_at v a ts \<Longrightarrow> v - a \<le> u \<Longrightarrow> v \<le> local_from a ts u"
proof (induction a ts arbitrary: v rule: zone_from.induct)
  case (2 a t b ts)
  have s: "starts_at (t + min a b) b ts" using "2.prems"(1) minute_pos by (auto intro: starts_le)
  have "t + min a b \<le> local_from b ts u" if "t \<le> u" using "2.IH" [OF _ s] "2.prems"(1) that by simp
  then show ?case using "2.prems"(2,3) by (auto simp: starts_at_def)
qed simp

text \<open>A time past the local time of an instant is after the instant.\<close>

lemma resolved_after: "zone_from a ts \<Longrightarrow> local_from a ts u < w \<Longrightarrow> u < resolved a ts w"
proof (induction a ts rule: zone_from.induct)
  case (2 a t b ts)
  have z: "zone_from b ts" and s0: "starts_at (t + max a b + minute_us) b ts" using "2.prems"(1) by simp_all
  have s: "v \<le> t + max a b \<Longrightarrow> starts_at v b ts" for v using s0 minute_pos by (auto intro: starts_le)
  have low: "t + max a b - b \<le> resolved b ts w" if "t + max a b \<le> w" using resolved_low [OF z s that] by simp
  show ?case
  proof (cases "u < t")
    case True
    then show ?thesis using low "2.prems"(2) by auto
  next
    case False
    have "t + min a b \<le> local_from b ts u" "t + b \<le> local_from b ts u"
      using local_high [OF z s] False by auto
    moreover have "u < w - b" if "w < t + max a b"
    proof (rule ccontr)
      assume "\<not> u < w - b"
      then have "w \<le> local_from b ts u" using local_high [OF z s] that by simp
      then show False using "2.prems"(2) False by simp
    qed
    ultimately show ?thesis using "2.IH" [OF z] "2.prems"(2) False by auto
  qed
qed simp

lemma midnight_between:
  assumes "m mod day_us = 0" and "lo < m" and "m \<le> hi"
  shows "hi div day_us \<noteq> lo div day_us"
proof
  assume e: "hi div day_us = lo div day_us"
  have d: "0 < day_us" by (simp add: day_us_def)
  have "m = day_us * (m div day_us)" using assms(1) by (metis add.right_neutral mult_div_mod_eq)
  also have "\<dots> \<le> day_us * (lo div day_us)"
    using zdiv_mono1 [OF assms(3) d] d e by (intro mult_left_mono) simp_all
  also have "\<dots> \<le> lo" using d by (metis minus_mod_eq_mult_div pos_mod_sign diff_le_self le_add_same_cancel1 mult_div_mod_eq)
  finally show False using assms(2) by simp
qed

text \<open>A time on an earlier day than the local day of an instant is not after the instant.\<close>

lemma resolved_before:
  assumes "zone_from a ts" and "w < m" and "m mod day_us = 0" and "m \<le> local_from a ts u"
  shows "resolved a ts w \<le> u"
  using assms
proof (induction a ts rule: zone_from.induct)
  case (2 a t b ts)
  have z: "zone_from b ts" and s0: "starts_at (t + max a b + minute_us) b ts" using "2.prems"(1) by simp_all
  have s: "v \<le> t + max a b \<Longrightarrow> starts_at v b ts" for v using s0 minute_pos by (auto intro: starts_le)
  show ?case
  proof (cases "u < t")
    case True
    then have m: "m \<le> u + a" using "2.prems"(4) by simp
    have "\<not> t + b \<le> w" if "b < a"
    proof
      assume "t + b \<le> w"
      then have "t + b < m" "m \<le> t + a - 1" using "2.prems"(2) m True by linarith+
      moreover have "(t + a - 1) div day_us = (t + b) div day_us" using "2.prems"(1) that by simp
      ultimately show False using midnight_between "2.prems"(3) by metis
    qed
    then show ?thesis using m "2.prems"(2) True by (cases a b rule: linorder_cases) auto
  next
    case False
    have "w - b \<le> u" if "w < t + max a b"
    proof -
      have "w \<le> local_from b ts u" using "2.prems"(2,4) False by simp
      then show ?thesis using local_low [OF z s] that by simp
    qed
    then show ?thesis using "2.IH" [OF z "2.prems"(2,3)] "2.prems"(4) False by auto
  qed
qed simp

section \<open>The least fire\<close>

definition fires :: "cron_fields \<Rightarrow> zone \<Rightarrow> int set" where
  "fires f z = {u. \<exists>day h m. day_matches f day \<and> h \<in> set (cf_hours f) \<and> m \<in> set (cf_minutes f) \<and>
     resolve_wall_time z (day * day_us + h * hour_us + m * minute_us) = Inr u}"

abbreviation zone_instant :: "zone \<Rightarrow> int \<Rightarrow> int" where
  "zone_instant z \<equiv> resolved (fst z) (snd z)"

lemma resolve_ok: "zone_ok z \<Longrightarrow> w mod minute_us = 0 \<Longrightarrow> resolve_wall_time z w = Inr (zone_instant z w)"
  using resolve_exact [of "fst z" "snd z"] by (simp add: zone_ok_def)

lemma zone_instant_mono: "zone_ok z \<Longrightarrow> v \<le> w \<Longrightarrow> zone_instant z v \<le> zone_instant z w"
  by (simp add: zone_ok_def resolved_mono)

lemma set_sorted_values [simp]: "set (sorted_values xs) = set xs" and sorted_sorted_values [simp]: "sorted (sorted_values xs)"
  and distinct_sorted_values [simp]: "distinct (sorted_values xs)"
  by (simp_all add: sorted_values_def)

lemma set_day_walls: "w \<in> set (day_walls f day) \<longleftrightarrow>
    (\<exists>h \<in> set (cf_hours f). \<exists>m \<in> set (cf_minutes f). w = day * day_us + h * hour_us + m * minute_us)"
  by (auto simp: day_walls_def)

lemma fires_walls: "u \<in> fires f z \<longleftrightarrow> (\<exists>day w. day_matches f day \<and> w \<in> set (day_walls f day) \<and> resolve_wall_time z w = Inr u)"
  by (auto simp: fires_def set_day_walls)

lemma wall_aligned: "w \<in> set (day_walls f day) \<Longrightarrow> w mod minute_us = 0"
proof -
  assume "w \<in> set (day_walls f day)"
  then obtain h m where "w = day * day_us + h * hour_us + m * minute_us" by (auto simp: set_day_walls)
  then have "w = (day * 1440 + h * 60 + m) * minute_us" by (simp add: day_minutes hour_minutes algebra_simps)
  then show ?thesis by simp
qed

lemma wall_day:
  assumes "fields_ok f" and "w \<in> set (day_walls f day)"
  shows "day * day_us \<le> w \<and> w < (day + 1) * day_us"
proof -
  obtain h m where hm: "h \<in> set (cf_hours f)" "m \<in> set (cf_minutes f)" "w = day * day_us + h * hour_us + m * minute_us"
    using assms(2) by (auto simp: set_day_walls)
  then have r: "0 \<le> h" "h \<le> 23" "0 \<le> m" "m \<le> 59" using assms(1) by (auto simp: fields_ok_def)
  then have "0 \<le> h * 60 + m" "h * 60 + m < 1440" by simp_all
  then have "0 \<le> (h * 60 + m) * minute_us" "(h * 60 + m) * minute_us < 1440 * minute_us" using minute_pos by simp_all
  then show ?thesis using hm(3) by (simp add: day_minutes hour_minutes algebra_simps)
qed

lemma walls_sorted:
  assumes "sorted hs" and "distinct hs" and "sorted ms" and "set ms \<subseteq> {0..59}"
  shows "sorted (concat (map (\<lambda>h. map (\<lambda>m. d + h * hour_us + m * minute_us) ms) hs))"
  using assms(1,2)
proof (induction hs)
  case (Cons h hs)
  have "sorted (map (\<lambda>m. d + h * hour_us + m * minute_us) ms)"
    using assms(3) minute_pos by (auto simp: sorted_map intro: sorted_wrt_mono_rel)
  moreover have "d + h * hour_us + m * minute_us \<le> d + k * hour_us + n * minute_us"
    if "m \<in> set ms" "k \<in> set hs" "n \<in> set ms" for m k n
  proof -
    have "h + 1 \<le> k" using Cons.prems that(2) by (metis distinct.simps(2) le_neq_trans list.set_intros(1) sorted_simps(2) zless_imp_add1_zle)
    moreover have "0 \<le> m" "m \<le> 59" "0 \<le> n" using that assms(4) by auto
    ultimately have "h * 60 + m \<le> k * 60 + n" by simp
    then have "(h * 60 + m) * minute_us \<le> (k * 60 + n) * minute_us" using minute_pos by (intro mult_right_mono) simp_all
    then show ?thesis by (simp add: hour_minutes algebra_simps)
  qed
  ultimately show ?case using Cons by (auto simp: sorted_append)
qed simp

lemma day_walls_sorted: "fields_ok f \<Longrightarrow> sorted (day_walls f day)"
  unfolding day_walls_def by (rule walls_sorted) (simp_all add: fields_ok_def)

lemma scan_day_exact:
  assumes "zone_ok z" and "sorted ws" and "\<forall>w \<in> set ws. w mod minute_us = 0"
  shows "(scan_day z after limit ws = Inr None \<and> (\<forall>w \<in> set ws. zone_instant z w \<le> after)) \<or>
    (\<exists>w \<in> set ws. after < zone_instant z w \<and> (\<forall>v \<in> set ws. after < zone_instant z v \<longrightarrow> zone_instant z w \<le> zone_instant z v) \<and>
      scan_day z after limit ws = Inr (Some (if zone_instant z w \<le> limit then Some (zone_instant z w) else None)))"
  using assms(2,3)
proof (induction ws)
  case (Cons w ws)
  have r: "resolve_wall_time z w = Inr (zone_instant z w)" using assms(1) Cons.prems(2) by (simp add: resolve_ok)
  have m: "\<forall>v \<in> set ws. zone_instant z w \<le> zone_instant z v" using Cons.prems(1) zone_instant_mono [OF assms(1)] by simp
  show ?case
  proof (cases "after < zone_instant z w")
    case True
    then show ?thesis using m by (intro disjI2 bexI [of _ w]) (simp_all add: r)
  next
    case False
    then show ?thesis using Cons by (auto simp: r)
  qed
qed simp

definition walls_from :: "cron_fields \<Rightarrow> int \<Rightarrow> int set" where
  "walls_from f day = {w. \<exists>n \<ge> day. day_matches f n \<and> w \<in> set (day_walls f n)}"

lemma walls_from_step: "walls_from f day = (if day_matches f day then set (day_walls f day) else {}) \<union> walls_from f (day + 1)"
proof -
  have "day \<le> n \<longleftrightarrow> n = day \<or> day + 1 \<le> n" for n by auto
  then show ?thesis unfolding walls_from_def by auto
qed

lemma walls_from_low: "fields_ok f \<Longrightarrow> w \<in> walls_from f day \<Longrightarrow> day * day_us \<le> w"
proof -
  assume f: "fields_ok f" and w: "w \<in> walls_from f day"
  then obtain n where n: "day \<le> n" "w \<in> set (day_walls f n)" by (auto simp: walls_from_def)
  have "day * day_us \<le> n * day_us" using n(1) by (intro mult_right_mono) (simp_all add: day_us_def)
  then show ?thesis using wall_day [OF f n(2)] by simp
qed

definition least_fire :: "zone \<Rightarrow> int \<Rightarrow> int set \<Rightarrow> int \<Rightarrow> bool" where
  "least_fire z after ws r \<longleftrightarrow> r \<in> zone_instant z ` ws \<and> after < r \<and> (\<forall>w \<in> ws. after < zone_instant z w \<longrightarrow> r \<le> zone_instant z w)"

lemma scan_days_exact:
  assumes "zone_ok z" and "fields_ok f"
  shows "(\<exists>r. scan_days f z after limit last_day day = Inr (Some r) \<and> r \<le> limit \<and> least_fire z after (walls_from f day) r) \<or>
    (scan_days f z after limit last_day day = Inr None \<and>
      (\<forall>w \<in> walls_from f day. after < zone_instant z w \<longrightarrow> w < (last_day + 1) * day_us \<longrightarrow> limit < zone_instant z w))"
  using assms
proof (induction f z after limit last_day day rule: scan_days.induct)
  case (1 f z after limit last_day day)
  let ?ws = "if day_matches f day then day_walls f day else []"
  have later: "zone_instant z v \<le> zone_instant z w" if "v \<in> set ?ws" "w \<in> walls_from f (day + 1)" for v w
    using wall_day [OF "1.prems"(2)] walls_from_low [OF "1.prems"(2)] that
    by (intro zone_instant_mono [OF "1.prems"(1)]) (fastforce split: if_splits)
  have step: "walls_from f day = set ?ws \<union> walls_from f (day + 1)" by (simp add: walls_from_step [of f day])
  show ?case
  proof (cases "day \<le> last_day")
    case False
    have "\<not> w < (last_day + 1) * day_us" if "w \<in> walls_from f day" for w
    proof -
      have "(last_day + 1) * day_us \<le> day * day_us" using False by (intro mult_right_mono) (simp_all add: day_us_def)
      then show ?thesis using walls_from_low [OF "1.prems"(2) that] by simp
    qed
    then show ?thesis using False by (auto simp: scan_days.simps [of f z after limit last_day day])
  next
    case True
    have "sorted ?ws" "\<forall>w \<in> set ?ws. w mod minute_us = 0"
      using day_walls_sorted [OF "1.prems"(2)] wall_aligned by auto
    from scan_day_exact [OF "1.prems"(1) this, of after limit] consider
        (early) "scan_day z after limit ?ws = Inr None" "\<forall>w \<in> set ?ws. zone_instant z w \<le> after"
      | (hit) w where "w \<in> set ?ws" "after < zone_instant z w"
          "\<forall>v \<in> set ?ws. after < zone_instant z v \<longrightarrow> zone_instant z w \<le> zone_instant z v"
          "scan_day z after limit ?ws = Inr (Some (if zone_instant z w \<le> limit then Some (zone_instant z w) else None))"
      by blast
    then show ?thesis
    proof cases
      case early
      have s: "scan_days f z after limit last_day day = scan_days f z after limit last_day (day + 1)"
        using early(1) True by (simp add: scan_days.simps [of f z after limit last_day day] split: if_splits)
      have n: "(if day_matches f day then scan_day z after limit (day_walls f day) else Inr None) = Inr None"
        using early(1) by (cases "day_matches f day") simp_all
      have "\<not> after < zone_instant z w" if "w \<in> set ?ws" for w using early(2) that by (simp only: not_less)
      then have l: "least_fire z after (walls_from f day) r \<longleftrightarrow> least_fire z after (walls_from f (day + 1)) r" for r
        unfolding least_fire_def step by blast
      have a: "(\<forall>w \<in> walls_from f day. after < zone_instant z w \<longrightarrow> Q w) \<longleftrightarrow>
          (\<forall>w \<in> walls_from f (day + 1). after < zone_instant z w \<longrightarrow> Q w)" for Q
        unfolding step using \<open>\<And>w. w \<in> set ?ws \<Longrightarrow> \<not> after < zone_instant z w\<close> by blast
      show ?thesis unfolding s l a using "1.IH" [OF True n] "1.prems" by blast
    next
      case hit
      have s: "scan_days f z after limit last_day day = Inr (if zone_instant z w \<le> limit then Some (zone_instant z w) else None)"
        using hit(1,4) True by (simp add: scan_days.simps [of f z after limit last_day day] split: if_splits)
      have le: "\<forall>v \<in> walls_from f day. after < zone_instant z v \<longrightarrow> zone_instant z w \<le> zone_instant z v"
        unfolding step using hit(1,3) later by blast
      have w: "w \<in> walls_from f day" unfolding step using hit(1) by blast
      show ?thesis
      proof (cases "zone_instant z w \<le> limit")
        case True
        then show ?thesis using s le w hit(2) by (auto simp: least_fire_def)
      next
        case False
        then show ?thesis using s le by fastforce
      qed
    qed
  qed
qed

lemma fires_instants:
  assumes "zone_ok z"
  shows "fires f z = zone_instant z ` {w. \<exists>n. day_matches f n \<and> w \<in> set (day_walls f n)}"
  using resolve_ok [OF assms] wall_aligned by (force simp: fires_walls image_iff)

lemma first_fire_exact:
  assumes "zone_ok z" and "fields_ok f" and "fire_limit z after = Some limit"
  shows "\<exists>found. first_cron_fire_after f z after = Inr found \<and>
    (case found of
       Some r \<Rightarrow> r \<in> fires f z \<and> after < r \<and> r \<le> limit \<and> (\<forall>u \<in> fires f z. after < u \<longrightarrow> r \<le> u)
     | None \<Rightarrow> \<forall>u \<in> fires f z. after < u \<longrightarrow> limit < u)"
proof -
  let ?d = "local_time z after div day_us" and ?l = "local_time z limit div day_us"
  have d0: "0 < day_us" by (simp add: day_us_def)
  have z: "zone_from (fst z) (snd z)" using assms(1) by (simp add: zone_ok_def)
  have early: "w \<in> walls_from f ?d" if "day_matches f n" "w \<in> set (day_walls f n)" "after < zone_instant z w" for n w
  proof (rule ccontr)
    assume "w \<notin> walls_from f ?d"
    then have "n + 1 \<le> ?d" using that(1,2) by (auto simp: walls_from_def)
    then have "(n + 1) * day_us \<le> ?d * day_us" using d0 by (intro mult_right_mono) simp_all
    then have "w < ?d * day_us" using wall_day [OF assms(2) that(2)] by simp
    moreover have "?d * day_us \<le> local_time z after"
      using div_mult_mod_eq [of "local_time z after" day_us] pos_mod_sign [OF d0, of "local_time z after"] by linarith
    ultimately have "zone_instant z w \<le> after"
      by (intro resolved_before [OF z, where m = "?d * day_us"]) (simp_all add: local_time_def)
    then show False using that(3) by simp
  qed
  have late: "limit < zone_instant z w" if "\<not> w < (?l + 1) * day_us" for w
  proof -
    have "local_time z limit < (?l + 1) * day_us"
      using div_mult_mod_eq [of "local_time z limit" day_us] pos_mod_bound [OF d0, of "local_time z limit"]
      unfolding distrib_right by linarith
    then show ?thesis using that by (intro resolved_after [OF z]) (simp add: local_time_def)
  qed
  have u: "\<exists>w \<in> walls_from f ?d. u = zone_instant z w" if "u \<in> fires f z" "after < u" for u
    using that early unfolding fires_instants [OF assms(1)] by blast
  have sub: "zone_instant z ` walls_from f ?d \<subseteq> fires f z" unfolding fires_instants [OF assms(1)] walls_from_def by blast
  have c: "first_cron_fire_after f z after = scan_days f z after limit ?l ?d"
    by (simp add: first_cron_fire_after_def assms(3))
  from scan_days_exact [OF assms(1,2), of after limit ?l ?d] show ?thesis
  proof (elim disjE exE conjE)
    fix r assume r: "scan_days f z after limit ?l ?d = Inr (Some r)" "r \<le> limit" "least_fire z after (walls_from f ?d) r"
    then have "r \<in> fires f z" "after < r" "\<forall>u \<in> fires f z. after < u \<longrightarrow> r \<le> u"
      using sub u by (auto simp: least_fire_def)
    then show ?thesis using r by (simp add: c)
  next
    assume "scan_days f z after limit ?l ?d = Inr None"
      and "\<forall>w \<in> walls_from f ?d. after < zone_instant z w \<longrightarrow> w < (?l + 1) * day_us \<longrightarrow> limit < zone_instant z w"
    moreover from this(2) have "\<forall>u \<in> fires f z. after < u \<longrightarrow> limit < u" using u late by blast
    ultimately show ?thesis by (simp add: c)
  qed
qed

text \<open>C20: in a zone in order, the search never raises (once eight years later is still a year of the calendar); it
  returns the least fire strictly after the cursor when that is within eight years, and nothing
  exactly when there is none.\<close>
theorem first_fire_least:
  assumes "zone_ok z" and "fields_ok f" and "fire_limit z after = Some limit"
  shows "\<exists>found. first_cron_fire_after f z after = Inr found \<and>
    (case found of
       Some r \<Rightarrow> r \<in> fires f z \<and> after < r \<and> r \<le> limit \<and> (\<forall>u \<in> fires f z. after < u \<longrightarrow> r \<le> u)
     | None \<Rightarrow> \<forall>u \<in> fires f z. after < u \<longrightarrow> limit < u)"
  by (rule first_fire_exact [OF assms])

text \<open>A zone with one change: clocks go forward from 02:00 to 03:00 on 2025-03-09, as in Los Angeles.\<close>

definition spring_zone :: zone where
  "spring_zone = (- 8 * hour_us, [(739319 * day_us + 10 * hour_us, - 7 * hour_us)])"

lemma spring_ok: "zone_ok spring_zone"
  by (simp add: zone_ok_def spring_zone_def starts_at_def hour_us_def day_us_def minute_us_def)

definition at_half_past_two :: cron_fields where
  "at_half_past_two = \<lparr>cf_minutes = [30], cf_hours = [2], cf_doms = [1..31], cf_months = [1..12], cf_dows = [0..6] @ [0]\<rparr>"

lemma half_past_two_parsed: "parse_cron_fields ''30 2 * * *'' = Inr at_half_past_two"
  by code_simp

theorem first_fire_least_witness:
  "\<exists>limit. fire_limit spring_zone (739319 * day_us) = Some limit \<and>
     739319 * day_us + 10 * hour_us \<in> fires at_half_past_two spring_zone \<and>
     (\<forall>u \<in> fires at_half_past_two spring_zone. 739319 * day_us < u \<longrightarrow> 739319 * day_us + 10 * hour_us \<le> u)"
proof -
  have f: "fields_ok at_half_past_two" by code_simp
  have r: "first_cron_fire_after at_half_past_two spring_zone (739319 * day_us) = Inr (Some (739319 * day_us + 10 * hour_us))"
    by code_simp
  have "fire_limit spring_zone (739319 * day_us) \<noteq> None" by code_simp
  then obtain limit where l: "fire_limit spring_zone (739319 * day_us) = Some limit" by auto
  show ?thesis using first_fire_least [OF spring_ok f l] r l by auto
qed

section \<open>Zones in order from the cursor on\<close>

text \<open>A real zone has historical changes that are not in order: local mean time ends off the full minute, and some
  repeated hours span midnight. They do not matter to a search that starts long after them. \<open>zone_since\<close> drops
  the leading changes that are three days or more before the cursor, \<open>zone_ok_since\<close> asks for order of the rest
  and for offsets of less than a day, which is what \<open>datetime\<close> allows.\<close>

fun zone_since :: "int \<Rightarrow> int \<Rightarrow> (int \<times> int) list \<Rightarrow> zone" where
  "zone_since c a [] = (a, [])"
| "zone_since c a ((t, b) # ts) = (if t + 3 * day_us \<le> c then zone_since c b ts else (a, (t, b) # ts))"

definition offsets_ok :: "zone \<Rightarrow> bool" where
  "offsets_ok z \<longleftrightarrow> (\<forall>a \<in> insert (fst z) (snd ` set (snd z)). - day_us < a \<and> a < day_us)"

definition zone_ok_since :: "int \<Rightarrow> zone \<Rightarrow> bool" where
  "zone_ok_since c z \<longleftrightarrow> offsets_ok z \<and> zone_ok (zone_since c (fst z) (snd z))"

lemma offsets_tail: "offsets_ok (a, (t, b) # ts) \<Longrightarrow> offsets_ok (b, ts)"
  by (simp add: offsets_ok_def)

lemma offset_range: "offsets_ok (a, ts) \<Longrightarrow> - day_us < offset_from a ts later w \<and> offset_from a ts later w < day_us"
proof (induction a ts later w rule: offset_from.induct)
  case (2 a t b ts later w)
  then show ?case using "2.IH" [OF _ offsets_tail [OF "2.prems"]] by (auto simp: offsets_ok_def)
qed (simp add: offsets_ok_def)

lemma local_range: "offsets_ok (a, ts) \<Longrightarrow> u - day_us < local_from a ts u \<and> local_from a ts u < u + day_us"
proof (induction a ts u rule: local_from.induct)
  case (2 a t b ts u)
  then show ?case using "2.IH" [OF _ offsets_tail [OF "2.prems"]] by (auto simp: offsets_ok_def)
qed (simp add: offsets_ok_def)

lemma offset_since:
  "offsets_ok (a, ts) \<Longrightarrow> c - 2 * day_us \<le> w \<Longrightarrow>
    offset_from a ts later w = offset_from (fst (zone_since c a ts)) (snd (zone_since c a ts)) later w"
proof (induction c a ts rule: zone_since.induct)
  case (2 c a t b ts)
  have "a < day_us" "b < day_us" using "2.prems"(1) by (simp_all add: offsets_ok_def)
  then show ?case using "2.IH" [OF _ offsets_tail [OF "2.prems"(1)] "2.prems"(2)] "2.prems"(2) by (auto simp: not_less)
qed simp

lemma local_since: "c \<le> u \<Longrightarrow> local_from a ts u = local_from (fst (zone_since c a ts)) (snd (zone_since c a ts)) u"
proof (induction c a ts rule: zone_since.induct)
  case (2 c a t b ts)
  have "0 < day_us" by (simp add: day_us_def)
  then show ?case using "2.IH" "2.prems" by auto
qed simp

lemma next_legal_below: "offsets_ok z \<Longrightarrow> next_legal z n w = Some u \<Longrightarrow> u < w + int n * minute_us + day_us"
proof (induction n arbitrary: w)
  case (Suc n)
  have o: "- day_us < utc_offset z later v" for later v using offset_range [of "fst z" "snd z"] Suc.prems(1) by (simp add: utc_offset_def)
  have k: "int (Suc n) * minute_us = int n * minute_us + minute_us" "0 \<le> int n * minute_us"
    using minute_pos by (simp_all add: distrib_right)
  show ?case
    using Suc.IH [OF Suc.prems(1), of "w + minute_us"] Suc.prems(2) o [of False "w + minute_us"] k
    by (auto simp: Let_def split: if_splits)
qed simp

text \<open>No wall time is read as an instant two days after its reading in UTC.\<close>

lemma resolve_below: "offsets_ok z \<Longrightarrow> resolve_wall_time z w = Inr u \<Longrightarrow> u < w + 2 * day_us"
proof -
  assume z: "offsets_ok z" and r: "resolve_wall_time z w = Inr u"
  have o: "- day_us < utc_offset z later w" for later using offset_range [of "fst z" "snd z"] z by (simp add: utc_offset_def)
  have d: "0 < day_us" by (simp add: day_us_def)
  have "next_legal z 1440 w = Some u \<Longrightarrow> u < w + 2 * day_us" using next_legal_below [OF z, of 1440 w u] by (simp add: day_minutes)
  then show ?thesis using r o [of False] o [of True] d by (auto simp: resolve_wall_time_def Let_def split: if_splits option.splits)
qed

lemma resolve_since:
  assumes "offsets_ok z" and "c - 2 * day_us \<le> w"
  shows "resolve_wall_time z w = resolve_wall_time (zone_since c (fst z) (snd z)) w"
proof -
  have o: "utc_offset z later v = utc_offset (zone_since c (fst z) (snd z)) later v" if "w \<le> v" for later v
    using offset_since [of "fst z" "snd z" c v later] assms that by (simp add: utc_offset_def)
  show ?thesis unfolding resolve_wall_time_def by (simp only: o [OF order_refl] next_legal_cong [of w z, OF o])
qed

lemma scan_day_cong: "\<forall>w \<in> set ws. resolve_wall_time z w = resolve_wall_time z' w \<Longrightarrow> scan_day z after limit ws = scan_day z' after limit ws"
  by (induction ws) (simp_all cong: if_cong)

lemma scan_days_cong:
  assumes "fields_ok f" and "\<And>w. day * day_us \<le> w \<Longrightarrow> resolve_wall_time z w = resolve_wall_time z' w"
  shows "scan_days f z after limit last_day day = scan_days f z' after limit last_day day"
  using assms
proof (induction f z after limit last_day day rule: scan_days.induct)
  case (1 f z after limit last_day day)
  have s: "scan_day z after limit (day_walls f day) = scan_day z' after limit (day_walls f day)"
    using wall_day [OF "1.prems"(1)] "1.prems"(2) by (intro scan_day_cong) blast
  have up: "day * day_us \<le> (day + 1) * day_us" by (simp add: day_us_def)
  have t: "scan_days f z after limit last_day (day + 1) = scan_days f z' after limit last_day (day + 1)"
    if "day \<le> last_day" "(if day_matches f day then scan_day z after limit (day_walls f day) else Inr None) = Inr None"
    using "1.prems" up by (intro "1.IH" [OF that]) (auto intro: order_trans)
  let ?x = "if day_matches f day then scan_day z after limit (day_walls f day) else Inr None"
  show ?case
  proof (cases "day \<le> last_day \<and> ?x = Inr None")
    case True
    then show ?thesis
      using t by (auto simp: scan_days.simps [of f z after limit last_day day] scan_days.simps [of f z' after limit last_day day] s split: if_splits)
  next
    case False
    then show ?thesis
      by (auto simp: scan_days.simps [of f z after limit last_day day] scan_days.simps [of f z' after limit last_day day] s
          split: sum.splits option.splits if_splits)
  qed
qed

lemma found_least:
  assumes "zone_ok_since after z" and "fields_ok f" and "first_cron_fire_after f z after = Inr (Some r)"
  shows "r \<in> fires f z \<and> after < r \<and> (\<forall>u \<in> fires f z. after < u \<longrightarrow> r \<le> u)"
proof -
  let ?z = "zone_since after (fst z) (snd z)" and ?d = "local_time z after div day_us"
  have b: "offsets_ok z" "zone_ok ?z" using assms(1) by (simp_all add: zone_ok_since_def)
  have d0: "0 < day_us" by (simp add: day_us_def)
  have local: "local_time z after = local_time ?z after" unfolding local_time_def by (rule local_since [OF order_refl])
  have "after - day_us < local_time z after" using local_range [of "fst z" "snd z"] b(1) by (simp add: local_time_def)
  moreover have "local_time z after < ?d * day_us + day_us"
    using div_mult_mod_eq [of "local_time z after" day_us] pos_mod_bound [OF d0, of "local_time z after"] by linarith
  moreover have "?d * day_us \<le> local_time z after"
    using div_mult_mod_eq [of "local_time z after" day_us] pos_mod_sign [OF d0, of "local_time z after"] by linarith
  ultimately have low: "after - 2 * day_us \<le> ?d * day_us" and m: "?d * day_us \<le> local_time ?z after" unfolding local by linarith+
  have same: "resolve_wall_time z w = resolve_wall_time ?z w" if "after - 2 * day_us \<le> w" for w by (rule resolve_since [OF b(1) that])
  have there: "resolve_wall_time z w = Inr (zone_instant ?z w)" if "w \<in> walls_from f ?d" for w
  proof -
    have "w mod minute_us = 0" using that wall_aligned by (auto simp: walls_from_def)
    then show ?thesis using same [of w] low walls_from_low [OF assms(2) that] resolve_ok [OF b(2)] by simp
  qed
  obtain limit where s: "scan_days f z after limit (local_time z limit div day_us) ?d = Inr (Some r)"
    using assms(3) by (auto simp: first_cron_fire_after_def split: option.splits)
  have "scan_days f z after limit (local_time z limit div day_us) ?d = scan_days f ?z after limit (local_time z limit div day_us) ?d"
    using same low by (intro scan_days_cong [OF assms(2)]) simp
  then have least: "least_fire ?z after (walls_from f ?d) r"
    using s scan_days_exact [OF b(2) assms(2), of after limit "local_time z limit div day_us" ?d] by auto
  then have "r \<in> fires f z" using there unfolding fires_walls least_fire_def walls_from_def by blast
  moreover have "r \<le> u" if u: "u \<in> fires f z" "after < u" for u
  proof -
    obtain n w where w: "day_matches f n" "w \<in> set (day_walls f n)" "resolve_wall_time z w = Inr u"
      using u(1) by (auto simp: fires_walls)
    have late: "after - 2 * day_us \<le> w" using resolve_below [OF b(1) w(3)] u(2) by simp
    have "\<not> w < ?d * day_us"
    proof
      assume w0: "w < ?d * day_us"
      have "zone_instant ?z w = u" using w(3) same [OF late] resolve_ok [OF b(2) wall_aligned [OF w(2)]] by simp
      then have "u \<le> after" using resolved_before [OF _ w0, of "fst ?z" "snd ?z" after] b(2) m by (simp add: zone_ok_def local_time_def)
      then show False using u(2) by simp
    qed
    then have "?d * day_us < (n + 1) * day_us" using wall_day [OF assms(2) w(2)] by simp
    then have "?d < n + 1" using d0 by (simp only: mult_less_cancel_right_pos)
    then have "w \<in> walls_from f ?d" using w(1,2) by (auto simp: walls_from_def)
    then show "r \<le> u" using there w(3) u(2) least unfolding least_fire_def by fastforce
  qed
  ultimately show ?thesis using least by (simp add: least_fire_def)
qed

section \<open>The next run\<close>

lemma cron_start_floor_le: "start \<le> cron_start_floor start"
  using pos_mod_bound [OF minute_pos, of start] by (simp add: cron_start_floor_def Let_def)

lemma cron_search_cut: "cron_search_after after start_at < u \<longleftrightarrow> after < u \<and> (\<forall>s. start_at = Some s \<longrightarrow> cron_start_floor s \<le> u)"
  by (cases start_at) (auto simp: cron_search_after_def Let_def)

definition on_grid :: "int \<Rightarrow> int \<Rightarrow> int \<Rightarrow> bool" where
  "on_grid start seconds u \<longleftrightarrow> start \<le> u \<and> (u - start) mod (seconds * 1000000) = 0"

lemma grid_point_exact:
  assumes "0 < seconds"
  shows "on_grid start seconds (next_interval_grid_point start seconds after) \<and> after < next_interval_grid_point start seconds after \<and>
    (\<forall>u. on_grid start seconds u \<longrightarrow> after < u \<longrightarrow> next_interval_grid_point start seconds after \<le> u)"
proof (cases "start > after")
  case True
  then show ?thesis by (simp add: next_interval_grid_point_def on_grid_def)
next
  case False
  let ?step = "seconds * 1000000" and ?k = "(after - start) div (seconds * 1000000)"
  have pos: "0 < ?step" using assms by simp
  have r: "next_interval_grid_point start seconds after = start + ?step * (?k + 1)"
    using False by (simp only: next_interval_grid_point_def Let_def if_False)
  have k0: "0 \<le> ?k" using False pos by (simp add: pos_imp_zdiv_nonneg_iff)
  have "after - start = ?step * ?k + (after - start) mod ?step" by simp
  then have a: "after < start + ?step * (?k + 1)" using pos_mod_bound [OF pos, of "after - start"] by (simp only: distrib_left mult_1_right)
  have "start + ?step * (?k + 1) \<le> u" if "on_grid start seconds u" "after < u" for u
  proof -
    have "?step dvd u - start" using that(1) by (simp only: on_grid_def mod_eq_0_iff_dvd)
    then obtain q where q: "u - start = ?step * q" by (rule dvdE)
    have "?step * ?k \<le> after - start" using pos_mod_sign [OF pos, of "after - start"] by (simp add: minus_mod_eq_mult_div [symmetric])
    also have "\<dots> < u - start" using that(2) by simp
    finally have "?step * ?k < ?step * q" by (simp only: q)
    then have "?k + 1 \<le> q" using pos by (simp only: mult_less_cancel_left_pos zless_imp_add1_zle)
    then have "?step * (?k + 1) \<le> ?step * q" using pos by (intro mult_left_mono) simp_all
    then have "?step * (?k + 1) \<le> u - start" by (simp only: q)
    then show ?thesis by (simp only: le_diff_eq add.commute)
  qed
  moreover have "on_grid start seconds (start + ?step * (?k + 1))" using k0 assms by (simp add: on_grid_def)
  ultimately show ?thesis using a r by simp
qed

text \<open>C21: the next run of a schedule is the first legal one, in the schedule's own time zone (UTC when it has
  none): on the grid of its start for an interval with a start, strictly after the cursor and the clock; one
  interval after the cursor for an interval without a start, but not before the clock; for a cron schedule
  the least fire after the cursor that is not before the first full minute of its start, and so never before the
  start. Of the zone it is assumed that its changes are in order from three days before the cursor
  on (\<open>zone_ok_since\<close>); what it did earlier is free.\<close>
theorem next_run_legal:
  assumes "compute_next_run_at zone_of cron zone_name interval after start_at now = Inr r"
    and "\<forall>z. zone_of (if zone_name = [] then ''UTC'' else zone_name) = Some z \<longrightarrow>
      zone_ok_since (cron_search_after after start_at) z"
  shows "(case interval of
      Some sec \<Rightarrow> sec \<le> 0 \<or>
        (case start_at of
           Some s \<Rightarrow> on_grid s sec r \<and> after < r \<and> now < r \<and> (\<forall>u. on_grid s sec u \<longrightarrow> after < u \<longrightarrow> now < u \<longrightarrow> r \<le> u)
         | None \<Rightarrow> r = max (after + sec * 1000000) now)
    | None \<Rightarrow> True) \<and>
    (\<not> given interval \<longrightarrow>
      (\<exists>f z. parse_cron_fields (the cron) = Inr f \<and> zone_of (if zone_name = [] then ''UTC'' else zone_name) = Some z \<and>
        r \<in> fires f z \<and> after < r \<and> (\<forall>s. start_at = Some s \<longrightarrow> s \<le> r) \<and>
        (\<forall>u \<in> fires f z. after < u \<longrightarrow> (\<forall>s. start_at = Some s \<longrightarrow> cron_start_floor s \<le> u) \<longrightarrow> r \<le> u)))"
proof (cases "given interval")
  case True
  then obtain sec where i: "interval = Some sec" "0 < sec" by (auto simp: given_def split: option.splits)
  show ?thesis
  proof (cases start_at)
    case None
    then show ?thesis using assms(1) i by (auto simp: compute_next_run_at_def given_def Let_def max_def split: if_splits)
  next
    case (Some s)
    then have "r = next_interval_grid_point s sec (max after now)" using assms(1) i by (simp add: compute_next_run_at_def given_def)
    then show ?thesis using grid_point_exact [OF i(2), of s "max after now"] i Some by (simp add: given_def)
  qed
next
  case False
  let ?name = "if zone_name = [] then ''UTC'' else zone_name" and ?a = "cron_search_after after start_at"
  have c: "text_set cron" "ok_bind (zone_cron_schedule zone_of (the cron) zone_name) (\<lambda>s. next_fire_after s ?a) = Inr r"
    using assms(1) False by (auto simp: compute_next_run_at_def split: if_splits)
  then obtain f z where p: "parse_cron_fields (the cron) = Inr f" "zone_of ?name = Some z" and n: "next_fire_after (f, z) ?a = Inr r"
    unfolding zone_cron_schedule_def validate_schedule_timezone_def by (auto simp: opt_simps split: option.splits)
  have fr: "first_cron_fire_after f z ?a = Inr (Some r)"
    using n by (auto simp: next_fire_after_def opt_simps split: option.splits)
  have f: "fields_ok f" using cron_fields_parsed [OF p(1)] by simp
  have "r \<in> fires f z" "?a < r" "\<forall>u \<in> fires f z. ?a < u \<longrightarrow> r \<le> u"
    using found_least [OF assms(2) [rule_format, OF p(2)] f fr] by auto
  then have t: "r \<in> fires f z" "after < r" "\<forall>s. start_at = Some s \<longrightarrow> s \<le> r"
      "\<forall>u \<in> fires f z. after < u \<longrightarrow> (\<forall>s. start_at = Some s \<longrightarrow> cron_start_floor s \<le> u) \<longrightarrow> r \<le> u"
    unfolding cron_search_cut using cron_start_floor_le order_trans by blast+
  have "case interval of Some sec \<Rightarrow> sec \<le> 0 \<or> Q sec | None \<Rightarrow> True" for Q
    using False by (simp add: given_def split: option.splits)
  then show ?thesis by (intro conjI impI exI [of _ f] exI [of _ z] p t)
qed

text \<open>Berlin with its local mean time: the change of 1893 ends off the full minute.\<close>

definition mean_zone :: zone where
  "mean_zone = (3208 * 1000000, [(691129 * day_us + 83192 * 1000000, hour_us), (739340 * day_us + hour_us, 2 * hour_us)])"

lemma mean_zone_not_ok: "\<not> zone_ok mean_zone"
  by (simp add: zone_ok_def mean_zone_def starts_at_def hour_us_def day_us_def minute_us_def)

lemma mean_zone_since: "zone_ok_since (739340 * day_us) mean_zone"
  by (simp add: zone_ok_since_def offsets_ok_def zone_ok_def mean_zone_def starts_at_def hour_us_def day_us_def minute_us_def)

theorem next_run_legal_witness:
  "compute_next_run_at (\<lambda>name. if name = ''Here'' then Some mean_zone else None) (Some ''30 2 * * *'') ''Here'' None
     (739340 * day_us) (Some (739340 * day_us)) 0 = Inr (739340 * day_us + hour_us) \<and>
   739340 * day_us + hour_us \<in> fires at_half_past_two mean_zone"
proof -
  let ?zones = "\<lambda>name. if name = ''Here'' then Some mean_zone else None"
  have "cron_search_after (739340 * day_us) (Some (739340 * day_us)) = 739340 * day_us" by code_simp
  then have z: "\<forall>z. ?zones (if ''Here'' = [] then ''UTC'' else ''Here'') = Some z \<longrightarrow>
      zone_ok_since (cron_search_after (739340 * day_us) (Some (739340 * day_us))) z" using mean_zone_since by simp
  have c: "compute_next_run_at ?zones (Some ''30 2 * * *'') ''Here'' None (739340 * day_us) (Some (739340 * day_us)) 0 =
      Inr (739340 * day_us + hour_us)" by code_simp
  have "\<not> given None" by (simp add: given_def)
  with next_run_legal [OF c z] obtain f z where p: "parse_cron_fields ''30 2 * * *'' = Inr f" "?zones ''Here'' = Some z"
    "739340 * day_us + hour_us \<in> fires f z" by (simp only: option.sel if_True list.distinct if_False) blast
  from p(1) half_past_two_parsed have "f = at_half_past_two" by simp
  moreover from p(2) have "z = mean_zone" by simp
  ultimately show ?thesis using c p(3) by blast
qed

end
