(* ===== verification/Job_Store.thy ===== *)
theory Job_Store
  imports Attribute_Type "HOL-Library.Product_Lexorder"
begin

text \<open>
  Jobs (\<open>backend/jobs/store.py\<close>): the record, the in-memory store, the SQL store as the effect of its
  statements on the table, and the operations of the job API over the SQL store. The clock is the
  argument \<open>now\<close> (microseconds); a table is an association list with one row per id, whose order is
  only seen through the sorted listing.

  A call of the API is one transaction, except \<open>append_job_log\<close> and the sweeps over a listing, which
  read in one transaction and write in others: their halves are separate definitions.
\<close>

section \<open>Records\<close>

datatype job_status = Queued | Running | Succeeded | Failed | Cancelled

record job =
  jb_id :: string
  jb_kind :: string
  jb_status :: job_status
  jb_input :: "(string \<times> json) list"
  jb_result :: "(string \<times> json) list option"
  jb_created_by :: "string option"
  jb_celery_task_id :: "string option"
  jb_error_code :: "string option"
  jb_error_summary :: "string option"
  jb_summary :: string
  jb_trigger_kind :: "string option"
  jb_trigger_ref :: "string option"
  jb_log_body :: string
  jb_log_updated_at :: "int option"
  jb_scheduled_for :: "int option"
  jb_claimed_by :: "string option"
  jb_locked_at :: "int option"
  jb_created_at :: int
  jb_started_at :: "int option"
  jb_finished_at :: "int option"
  jb_running_timeout_sec :: "int option"
  jb_access_stamp :: "string option"

type_synonym jobs = "(string \<times> job) list"

definition terminal :: "job_status set" where
  "terminal = {Succeeded, Failed, Cancelled}"

definition unfinished :: "job_status list" where
  "unfinished = [Queued, Running]"

definition running_only :: "job_status list" where
  "running_only = [Running]"

definition error_worker_lost :: string where "error_worker_lost = ''JOB_WORKER_LOST''"
definition error_running_timeout :: string where "error_running_timeout = ''JOB_RUNNING_TIMEOUT''"
definition unknown_worker_id :: string where "unknown_worker_id = ''celery@unknown''"

definition stamp_visible :: "string option \<Rightarrow> string set option \<Rightarrow> bool" where
  "stamp_visible stamp stamps = (case (stamps, stamp) of (Some ss, Some s) \<Rightarrow> s \<in> ss | _ \<Rightarrow> True)"

text \<open>What the compare-and-set writes to the row.\<close>

definition close_job ::
  "job_status \<Rightarrow> string option \<Rightarrow> string option \<Rightarrow> (string \<times> json) list option \<Rightarrow> int \<Rightarrow> job \<Rightarrow> job" where
  "close_job to code summary res now j =
     (let j1 = j\<lparr>jb_status := to, jb_finished_at := Some now\<rparr>;
          j2 = (if to = Failed then j1\<lparr>jb_error_code := code, jb_error_summary := summary\<rparr> else j1)
      in if to = Succeeded then j2\<lparr>jb_result := res\<rparr> else j2)"

definition text_given :: "string option \<Rightarrow> bool" where
  "text_given v = (case v of None \<Rightarrow> False | Some s \<Rightarrow> s \<noteq> [])"

definition start_job :: "string option \<Rightarrow> string option \<Rightarrow> int \<Rightarrow> job \<Rightarrow> job" where
  "start_job task worker now j =
     j\<lparr>jb_status := Running, jb_started_at := Some now, jb_locked_at := Some now,
       jb_celery_task_id := (if text_given task then task else jb_celery_task_id j),
       jb_claimed_by := (if text_given worker then worker else jb_claimed_by j)\<rparr>"

section \<open>The store in memory\<close>

definition same_slot :: "job \<Rightarrow> job \<Rightarrow> bool" where
  "same_slot r x =
     (jb_trigger_kind x = Some ''schedule'' \<and> jb_trigger_ref x = jb_trigger_ref r \<and> jb_scheduled_for x = jb_scheduled_for r)"

text \<open>\<open>Inl\<close> is \<open>UniqueScheduledForError\<close> with the id of the existing job.\<close>

definition mem_create :: "jobs \<Rightarrow> job \<Rightarrow> string + jobs" where
  "mem_create t r =
     (case (if jb_scheduled_for r \<noteq> None \<and> jb_trigger_kind r = Some ''schedule''
            then List.find (same_slot r) (map snd t) else None) of
        Some x \<Rightarrow> Inl (jb_id x)
      | None \<Rightarrow> Inr (AList.update (jb_id r) r t))"

definition mem_get :: "jobs \<Rightarrow> string \<Rightarrow> string set option \<Rightarrow> job option" where
  "mem_get t i stamps =
     (case map_of t i of None \<Rightarrow> None | Some j \<Rightarrow> if stamp_visible (jb_access_stamp j) stamps then Some j else None)"

definition mem_delete :: "jobs \<Rightarrow> string \<Rightarrow> jobs" where
  "mem_delete t i = AList.delete i t"

definition mem_save :: "jobs \<Rightarrow> job \<Rightarrow> jobs" where
  "mem_save t r = AList.update (jb_id r) r t"

record job_filter =
  jf_kind :: "string option"
  jf_status :: "job_status option"
  jf_trigger_kind :: "string option"
  jf_trigger_ref :: "string option"
  jf_stamps :: "string set option"

definition wanted :: "'a option \<Rightarrow> 'a \<Rightarrow> bool" where
  "wanted w v = (w = None \<or> w = Some v)"

definition wanted_opt :: "'a option \<Rightarrow> 'a option \<Rightarrow> bool" where
  "wanted_opt w v = (w = None \<or> w = v)"

definition passes :: "job_filter \<Rightarrow> job \<Rightarrow> bool" where
  "passes f j =
     (wanted (jf_kind f) (jb_kind j) \<and> wanted (jf_status f) (jb_status j) \<and>
      wanted_opt (jf_trigger_kind f) (jb_trigger_kind j) \<and> wanted_opt (jf_trigger_ref f) (jb_trigger_ref j) \<and>
      stamp_visible (jb_access_stamp j) (jf_stamps f))"

definition newest_first :: "job list \<Rightarrow> job list" where
  "newest_first js = rev (sort_key (\<lambda>j. (jb_created_at j, jb_id j)) (rev js))"

definition page :: "int option \<Rightarrow> int \<Rightarrow> 'a list \<Rightarrow> 'a list" where
  "page limit offset xs =
     (let rest = drop (nat offset) xs in case limit of None \<Rightarrow> rest | Some n \<Rightarrow> take (nat n) rest)"

definition mem_list :: "jobs \<Rightarrow> job_filter \<Rightarrow> int option \<Rightarrow> int \<Rightarrow> job list \<times> nat" where
  "mem_list t f limit offset =
     (let items = newest_first (filter (passes f) (map snd t)) in (page limit offset items, length items))"

definition mem_recent :: "jobs \<Rightarrow> string \<Rightarrow> string set \<Rightarrow> nat \<Rightarrow> string \<Rightarrow> job list" where
  "mem_recent t trigger_kind refs per_ref ref =
     (if ref \<in> refs
      then take per_ref (filter (\<lambda>j. jb_trigger_ref j = Some ref)
             (newest_first (filter (\<lambda>j. jb_trigger_kind j = Some trigger_kind \<and> (\<exists>r. jb_trigger_ref j = Some r \<and> r \<in> refs)) (map snd t))))
      else [])"

definition mem_claim :: "jobs \<Rightarrow> string \<Rightarrow> string option \<Rightarrow> string option \<Rightarrow> int \<Rightarrow> job option \<times> jobs" where
  "mem_claim t i task worker now =
     (case map_of t i of
        None \<Rightarrow> (None, t)
      | Some j \<Rightarrow>
          if jb_status j \<noteq> Queued then (None, t)
          else (Some (start_job task worker now j), AList.update i (start_job task worker now j) t))"

definition holds :: "string \<Rightarrow> job \<Rightarrow> bool" where
  "holds worker j = (jb_status j = Running \<and> jb_claimed_by j = Some worker)"

definition touch_job :: "string \<Rightarrow> int \<Rightarrow> job \<Rightarrow> job" where
  "touch_job worker now j = (if holds worker j then j\<lparr>jb_locked_at := Some now\<rparr> else j)"

definition map_jobs :: "(job \<Rightarrow> job) \<Rightarrow> jobs \<Rightarrow> jobs" where
  "map_jobs f t = map (\<lambda>(i, j). (i, f j)) t"

definition mem_touch :: "jobs \<Rightarrow> string \<Rightarrow> int \<Rightarrow> nat \<times> jobs" where
  "mem_touch t worker now = (length (filter (holds worker) (map snd t)), map_jobs (touch_job worker now) t)"

definition mem_set_task :: "jobs \<Rightarrow> string \<Rightarrow> string \<Rightarrow> job option \<times> jobs" where
  "mem_set_task t i task =
     (case map_of t i of
        None \<Rightarrow> (None, t)
      | Some j \<Rightarrow> (Some (j\<lparr>jb_celery_task_id := Some task\<rparr>), AList.update i (j\<lparr>jb_celery_task_id := Some task\<rparr>) t))"

definition mem_cas ::
  "jobs \<Rightarrow> string \<Rightarrow> job_status \<Rightarrow> job_status list \<Rightarrow> string option \<Rightarrow> string option \<Rightarrow> (string \<times> json) list option \<Rightarrow> int \<Rightarrow>
   job option \<times> jobs" where
  "mem_cas t i to from code summary res now =
     (case map_of t i of
        None \<Rightarrow> (None, t)
      | Some j \<Rightarrow>
          if jb_status j \<notin> set from then (Some j, t)
          else (Some (close_job to code summary res now j), AList.update i (close_job to code summary res now j) t))"

section \<open>The SQL store\<close>

text \<open>An \<open>UPDATE\<close> with a condition: the rows it changes, and their number.\<close>

definition sql_update :: "(string \<Rightarrow> job \<Rightarrow> bool) \<Rightarrow> (job \<Rightarrow> job) \<Rightarrow> jobs \<Rightarrow> nat \<times> jobs" where
  "sql_update cond f t =
     (length (filter (\<lambda>(i, j). cond i j) t), map (\<lambda>(i, j). (i, if cond i j then f j else j)) t)"

text \<open>The primary key and the partial unique index \<open>uq_jobs_trigger_scheduled_for\<close>, in which a null reference is
  never a duplicate.\<close>

definition slot_taken :: "jobs \<Rightarrow> job \<Rightarrow> bool" where
  "slot_taken t r =
     (jb_scheduled_for r \<noteq> None \<and> jb_trigger_kind r = Some ''schedule'' \<and> jb_trigger_ref r \<noteq> None \<and>
      list_ex (same_slot r) (map snd t))"

definition sql_create :: "jobs \<Rightarrow> job \<Rightarrow> string + jobs" where
  "sql_create t r =
     (if map_of t (jb_id r) \<noteq> None \<or> slot_taken t r
      then Inl (if jb_trigger_kind r = Some ''schedule'' \<and> text_given (jb_trigger_ref r) \<and> jb_scheduled_for r \<noteq> None
                then (case List.find (same_slot r) (map snd t) of None \<Rightarrow> [] | Some x \<Rightarrow> jb_id x) else [])
      else Inr (t @ [(jb_id r, r)]))"

definition sql_get :: "jobs \<Rightarrow> string \<Rightarrow> string set option \<Rightarrow> job option" where
  "sql_get t i stamps =
     (case map_of t i of None \<Rightarrow> None | Some j \<Rightarrow> if stamp_visible (jb_access_stamp j) stamps then Some j else None)"

definition sql_delete :: "jobs \<Rightarrow> string \<Rightarrow> jobs" where
  "sql_delete t i = AList.delete i t"

text \<open>\<open>save\<close> writes every column but the key, the kind, the creator and the creation time; \<open>None\<close> is the
  \<open>KeyError\<close> of a missing row.\<close>

definition sql_save :: "jobs \<Rightarrow> job \<Rightarrow> jobs option" where
  "sql_save t r =
     (case map_of t (jb_id r) of
        None \<Rightarrow> None
      | Some row \<Rightarrow> Some (AList.update (jb_id r)
          (r\<lparr>jb_kind := jb_kind row, jb_created_by := jb_created_by row, jb_created_at := jb_created_at row\<rparr>) t))"

text \<open>The listing: the condition on the stamp is a clause of the statement; a limit or an offset that is negative is an
  error of the database and not modelled.\<close>

definition opaque_stamp_clause :: "string option \<Rightarrow> string set option \<Rightarrow> bool" where
  "opaque_stamp_clause stamp stamps =
     (case stamps of
        None \<Rightarrow> True
      | Some ss \<Rightarrow>
          if Set.is_empty ss then stamp = None
          else stamp = None \<or> (case stamp of None \<Rightarrow> False | Some x \<Rightarrow> x \<in> ss))"

definition selected :: "job_filter \<Rightarrow> job \<Rightarrow> bool" where
  "selected f j =
     ((case jf_kind f of None \<Rightarrow> True | Some k \<Rightarrow> jb_kind j = k) \<and> (case jf_status f of None \<Rightarrow> True | Some st \<Rightarrow> jb_status j = st) \<and>
      (case jf_trigger_kind f of None \<Rightarrow> True | Some k \<Rightarrow> jb_trigger_kind j = Some k) \<and>
      (case jf_trigger_ref f of None \<Rightarrow> True | Some r \<Rightarrow> jb_trigger_ref j = Some r) \<and>
      opaque_stamp_clause (jb_access_stamp j) (jf_stamps f))"

definition sql_list :: "jobs \<Rightarrow> job_filter \<Rightarrow> int option \<Rightarrow> int \<Rightarrow> job list \<times> nat" where
  "sql_list t f limit offset =
     (let rows = filter (selected f) (map snd t);
          ordered = newest_first rows;
          shifted = (if offset \<noteq> 0 then drop (nat offset) ordered else ordered)
      in (case limit of None \<Rightarrow> shifted | Some n \<Rightarrow> take (nat n) shifted, length rows))"

text \<open>The window function numbers the rows of each reference, newest first.\<close>

definition sql_recent :: "jobs \<Rightarrow> string \<Rightarrow> string set \<Rightarrow> nat \<Rightarrow> string \<Rightarrow> job list" where
  "sql_recent t trigger_kind refs per_ref ref =
     (if ref \<in> refs
      then take per_ref (newest_first (filter (\<lambda>j. jb_trigger_kind j = Some trigger_kind \<and> jb_trigger_ref j = Some ref) (map snd t)))
      else [])"

definition sql_claim :: "jobs \<Rightarrow> string \<Rightarrow> string option \<Rightarrow> string option \<Rightarrow> int \<Rightarrow> job option \<times> jobs" where
  "sql_claim t i task worker now =
     (case sql_update (\<lambda>k j. k = i \<and> jb_status j = Queued) (start_job task worker now) t of
        (n, t1) \<Rightarrow> (if n = 0 then None else map_of t1 i, t1))"

definition sql_touch :: "jobs \<Rightarrow> string \<Rightarrow> int \<Rightarrow> nat \<times> jobs" where
  "sql_touch t worker now = sql_update (\<lambda>_. holds worker) (\<lambda>j. j\<lparr>jb_locked_at := Some now\<rparr>) t"

definition sql_set_task :: "jobs \<Rightarrow> string \<Rightarrow> string \<Rightarrow> job option \<times> jobs" where
  "sql_set_task t i task =
     (case sql_update (\<lambda>k _. k = i) (\<lambda>j. j\<lparr>jb_celery_task_id := Some task\<rparr>) t of
        (n, t1) \<Rightarrow> (if n = 0 then None else map_of t1 i, t1))"

definition sql_cas ::
  "jobs \<Rightarrow> string \<Rightarrow> job_status \<Rightarrow> job_status list \<Rightarrow> string option \<Rightarrow> string option \<Rightarrow> (string \<times> json) list option \<Rightarrow> int \<Rightarrow>
   job option \<times> jobs" where
  "sql_cas t i to from code summary res now =
     (let t1 = snd (sql_update (\<lambda>k j. k = i \<and> jb_status j \<in> set from) (close_job to code summary res now) t)
      in (map_of t1 i, t1))"

section \<open>Jobs over the store\<close>

definition create_queued_job ::
  "string \<Rightarrow> string \<Rightarrow> (string \<times> json) list \<Rightarrow> string option \<Rightarrow> string \<Rightarrow> string option \<Rightarrow> string option \<Rightarrow> string \<Rightarrow>
   int option \<Rightarrow> int option \<Rightarrow> string option \<Rightarrow> int \<Rightarrow> job" where
  "create_queued_job new_id kind input created_by summary trigger_kind trigger_ref log_body scheduled_for timeout stamp now =
     \<lparr>jb_id = new_id, jb_kind = kind, jb_status = Queued, jb_input = input, jb_result = None, jb_created_by = created_by,
      jb_celery_task_id = None, jb_error_code = None, jb_error_summary = None, jb_summary = summary,
      jb_trigger_kind = trigger_kind, jb_trigger_ref = trigger_ref, jb_log_body = log_body,
      jb_log_updated_at = (if log_body = [] then None else Some now), jb_scheduled_for = scheduled_for,
      jb_claimed_by = None, jb_locked_at = None, jb_created_at = now, jb_started_at = None, jb_finished_at = None,
      jb_running_timeout_sec = timeout, jb_access_stamp = stamp\<rparr>"

definition occupancy_worker_id :: "string option \<Rightarrow> string" where
  "occupancy_worker_id hostname =
     (let text = (case hostname of None \<Rightarrow> [] | Some h \<Rightarrow> py_strip h) in if text = [] then unknown_worker_id else text)"

definition claim_for_execution ::
  "bool \<Rightarrow> jobs \<Rightarrow> string \<Rightarrow> string option \<Rightarrow> string option \<Rightarrow> int \<Rightarrow> job option \<times> jobs" where
  "claim_for_execution already_claimed t i task worker now =
     (if already_claimed
      then (case sql_get t i None of None \<Rightarrow> None | Some j \<Rightarrow> if jb_status j = Running then Some j else None, t)
      else sql_claim t i task worker now)"

definition mark_failed :: "jobs \<Rightarrow> string \<Rightarrow> string \<Rightarrow> string \<Rightarrow> job_status list \<Rightarrow> int \<Rightarrow> job option \<times> jobs" where
  "mark_failed t i code summary from now = sql_cas t i Failed from (Some code) (Some summary) None now"

definition mark_succeeded :: "jobs \<Rightarrow> string \<Rightarrow> (string \<times> json) list option \<Rightarrow> int \<Rightarrow> job option \<times> jobs" where
  "mark_succeeded t i res now = sql_cas t i Succeeded running_only None None res now"

definition mark_cancelled :: "jobs \<Rightarrow> string \<Rightarrow> int \<Rightarrow> job option \<times> jobs" where
  "mark_cancelled t i now = sql_cas t i Cancelled unfinished None None None now"

definition no_filter :: job_filter where
  "no_filter = \<lparr>jf_kind = None, jf_status = None, jf_trigger_kind = None, jf_trigger_ref = None, jf_stamps = None\<rparr>"

primrec cancel_each :: "job list \<Rightarrow> int \<Rightarrow> jobs \<Rightarrow> job list \<times> jobs" where
  "cancel_each [] now t = ([], t)"
| "cancel_each (r # rs) now t =
     (if jb_status r \<in> terminal then cancel_each rs now t
      else (case mark_cancelled t (jb_id r) now of (updated, t1) \<Rightarrow>
        case cancel_each rs now t1 of (done, t2) \<Rightarrow>
          (case updated of
             Some j \<Rightarrow> if jb_status j = Cancelled then j # done else done
           | None \<Rightarrow> done, t2)))"

definition cancel_unfinished_for_schedule :: "string \<Rightarrow> int \<Rightarrow> jobs \<Rightarrow> job list \<times> jobs" where
  "cancel_unfinished_for_schedule schedule_id now t =
     cancel_each (fst (sql_list t (no_filter\<lparr>jf_trigger_kind := Some ''schedule'', jf_trigger_ref := Some schedule_id\<rparr>) None 0)) now t"

text \<open>The sweeps fail the listed jobs one by one and count those that end with their code.\<close>

primrec fail_each :: "string \<Rightarrow> string \<Rightarrow> job list \<Rightarrow> int \<Rightarrow> jobs \<Rightarrow> nat \<times> jobs" where
  "fail_each code summary [] now t = (0, t)"
| "fail_each code summary (r # rs) now t =
     (case mark_failed t (jb_id r) code summary running_only now of (updated, t1) \<Rightarrow>
        case fail_each code summary rs now t1 of (n, t2) \<Rightarrow>
          (case updated of
             Some j \<Rightarrow> if jb_status j = Failed \<and> jb_error_code j = Some code then Suc n else n
           | None \<Rightarrow> n, t2))"

definition running_jobs :: "jobs \<Rightarrow> job list" where
  "running_jobs t = fst (sql_list t (no_filter\<lparr>jf_status := Some Running\<rparr>) None 0)"

definition fail_leftover_occupancy :: "string \<Rightarrow> int \<Rightarrow> jobs \<Rightarrow> nat \<times> jobs" where
  "fail_leftover_occupancy worker now t =
     fail_each error_worker_lost ''Worker lost: previous generation left running occupancy''
       (filter (\<lambda>j. jb_claimed_by j = Some worker) (running_jobs t)) now t"

definition occupancy_at :: "job \<Rightarrow> int" where
  "occupancy_at j =
     (case jb_locked_at j of Some l \<Rightarrow> l | None \<Rightarrow> (case jb_started_at j of Some s \<Rightarrow> s | None \<Rightarrow> jb_created_at j))"

definition stale :: "int \<Rightarrow> int \<Rightarrow> job \<Rightarrow> bool" where
  "stale lost_sec now j = (occupancy_at j \<le> now - lost_sec * 1000000)"

definition reap_stale_occupancy :: "int \<Rightarrow> int \<Rightarrow> jobs \<Rightarrow> nat \<times> jobs" where
  "reap_stale_occupancy lost_sec now t =
     fail_each error_worker_lost ''Worker lost: occupancy declaration stale'' (filter (stale lost_sec now) (running_jobs t)) now t"

definition started_or_created :: "job \<Rightarrow> int" where
  "started_or_created j = (case jb_started_at j of Some s \<Rightarrow> s | None \<Rightarrow> jb_created_at j)"

definition overdue :: "int \<Rightarrow> job \<Rightarrow> bool" where
  "overdue now j =
     (case jb_running_timeout_sec j of None \<Rightarrow> False | Some sec \<Rightarrow> started_or_created j \<le> now - sec * 1000000)"

definition reap_running_timeouts :: "int \<Rightarrow> jobs \<Rightarrow> nat \<times> jobs" where
  "reap_running_timeouts now t =
     fail_each error_running_timeout ''Job exceeded running time limit'' (filter (overdue now) (running_jobs t)) now t"

definition reap_stuck_running_jobs :: "int \<Rightarrow> int \<Rightarrow> jobs \<Rightarrow> nat \<times> jobs" where
  "reap_stuck_running_jobs lost_sec now t =
     (case reap_stale_occupancy lost_sec now t of (a, t1) \<Rightarrow> case reap_running_timeouts now t1 of (b, t2) \<Rightarrow> (a + b, t2))"

text \<open>\<open>append_job_log\<close>: the line put on a record read before, and the write of the whole record.\<close>

definition upper :: "string \<Rightarrow> string" where
  "upper s = map (\<lambda>c. if is_lower c then char_of (of_char c - 32 :: nat) else c) s"

definition format_job_log_line :: "string \<Rightarrow> string \<Rightarrow> int \<Rightarrow> string" where
  "format_job_log_line level message now = format_instant now @ '' '' @ upper level @ '' '' @ message"

definition with_log :: "string \<Rightarrow> int \<Rightarrow> job \<Rightarrow> job" where
  "with_log line now j =
     j\<lparr>jb_log_body := (if jb_log_body j \<noteq> [] then jb_log_body j @ CHR 0x0A # line else line), jb_log_updated_at := Some now\<rparr>"

text \<open>The job is read from one state of the table and the whole row written over another (\<open>None\<close>: the row is gone
  by then); with no other call between them the two states are the same.\<close>

definition save_log :: "job \<Rightarrow> string \<Rightarrow> string \<Rightarrow> int \<Rightarrow> jobs \<Rightarrow> jobs option" where
  "save_log j level message now t = sql_save t (with_log (format_job_log_line level message now) now j)"

definition append_job_log_over :: "jobs \<Rightarrow> jobs \<Rightarrow> string \<Rightarrow> string \<Rightarrow> string \<Rightarrow> int \<Rightarrow> jobs option" where
  "append_job_log_over read_from write_to i level message now =
     (case sql_get read_from i None of
        None \<Rightarrow> Some write_to
      | Some j \<Rightarrow> save_log j level message now write_to)"

definition append_job_log :: "string \<Rightarrow> string \<Rightarrow> string \<Rightarrow> int \<Rightarrow> jobs \<Rightarrow> jobs option" where
  "append_job_log i level message now t = append_job_log_over t t i level message now"

end
