(* ===== verification/Job_Machine.thy ===== *)
theory Job_Machine
  imports Job_Store "HOL-Library.Multiset"
begin

text \<open>
  The job status machine: the contract of a compare-and-set store, met by the store in memory and by
  the SQL store; the steps of the job API and what every run of them keeps; the exact effect of the
  sweeps; and the interleaving of a log append that breaks the machine.
\<close>

section \<open>The store contract\<close>

definition keyed :: "jobs \<Rightarrow> bool" where
  "keyed t \<longleftrightarrow> distinct (map fst t) \<and> (\<forall>(i, j) \<in> set t. jb_id j = i)"

locale job_cas =
  fixes good :: "'s \<Rightarrow> bool"
    and lookup :: "'s \<Rightarrow> string \<Rightarrow> job option"
    and cas :: "'s \<Rightarrow> string \<Rightarrow> job_status \<Rightarrow> job_status list \<Rightarrow> string option \<Rightarrow> string option \<Rightarrow>
      (string \<times> json) list option \<Rightarrow> int \<Rightarrow> job option \<times> 's"
    and claim :: "'s \<Rightarrow> string \<Rightarrow> string option \<Rightarrow> string option \<Rightarrow> int \<Rightarrow> job option \<times> 's"
  assumes good_cas: "good s \<Longrightarrow> good (snd (cas s i to from code summary res now))"
    and good_claim: "good s \<Longrightarrow> good (snd (claim s i task worker now))"
    and cas_lookup: "good s \<Longrightarrow> lookup (snd (cas s i to from code summary res now)) k =
      (if k = i then map_option (\<lambda>j. if jb_status j \<in> set from then close_job to code summary res now j else j) (lookup s k)
       else lookup s k)"
    and cas_answer: "good s \<Longrightarrow> fst (cas s i to from code summary res now) = lookup (snd (cas s i to from code summary res now)) i"
    and claim_lookup: "good s \<Longrightarrow> lookup (snd (claim s i task worker now)) k =
      (if k = i then map_option (\<lambda>j. if jb_status j = Queued then start_job task worker now j else j) (lookup s k)
       else lookup s k)"
    and claim_answer: "good s \<Longrightarrow> fst (claim s i task worker now) =
      (case lookup s i of None \<Rightarrow> None | Some j \<Rightarrow> if jb_status j = Queued then Some (start_job task worker now j) else None)"
begin

text \<open>A finished job is out of reach of a compare-and-set on unfinished statuses.\<close>

lemma cas_keeps_terminal:
  assumes "good s" and "lookup s k = Some j" and "jb_status j \<in> terminal" and "set from \<subseteq> set unfinished"
  shows "lookup (snd (cas s i to from code summary res now)) k = Some j"
  using assms by (auto simp: cas_lookup terminal_def unfinished_def)

lemma claim_keeps_started:
  assumes "good s" and "lookup s k = Some j" and "jb_status j \<noteq> Queued"
  shows "lookup (snd (claim s i task worker now)) k = Some j"
  using assms by (cases "k = i") (simp_all add: claim_lookup)

text \<open>Of two claims of a job only the first can win.\<close>

lemma claim_once:
  assumes "good s" and "fst (claim s i task worker now) = Some j"
  shows "fst (claim (snd (claim s i task worker now)) i task2 worker2 now2) = None"
proof -
  obtain j0 where "lookup s i = Some j0" "jb_status j0 = Queued"
    using assms by (auto simp: claim_answer split: option.splits if_splits)
  then have "lookup (snd (claim s i task worker now)) i = Some (start_job task worker now j0)"
    using assms(1) by (simp add: claim_lookup)
  then show ?thesis using claim_answer [OF good_claim [OF assms(1)]] by (simp add: start_job_def)
qed

end

lemma close_id [simp]: "jb_id (close_job to code summary res now j) = jb_id j"
  "jb_status (close_job to code summary res now j) = to" "jb_finished_at (close_job to code summary res now j) = Some now"
  "jb_started_at (close_job to code summary res now j) = jb_started_at j"
  "jb_locked_at (close_job to code summary res now j) = jb_locked_at j"
  "jb_claimed_by (close_job to code summary res now j) = jb_claimed_by j"
  "jb_trigger_kind (close_job to code summary res now j) = jb_trigger_kind j"
  "jb_trigger_ref (close_job to code summary res now j) = jb_trigger_ref j"
  "jb_scheduled_for (close_job to code summary res now j) = jb_scheduled_for j"
  by (simp_all add: close_job_def Let_def)

lemma start_id [simp]: "jb_id (start_job task worker now j) = jb_id j" "jb_status (start_job task worker now j) = Running"
  by (simp_all add: start_job_def)

lemma update_known: "map_of t i = Some j \<Longrightarrow> keyed t \<Longrightarrow> AList.update i x t = map (\<lambda>(k, v). (k, if k = i then x else v)) t"
  unfolding keyed_def
proof (induction t)
  case (Cons p t)
  then show ?case
  proof (cases "fst p = i")
    case True
    then have "\<forall>(k, v) \<in> set t. k \<noteq> i" using Cons.prems by (auto simp: image_iff)
    then have "map (\<lambda>(k, v). (k, if k = i then x else v)) t = t" by (intro map_idI) auto
    then show ?thesis using True by (cases p) simp
  qed (cases p; auto)
qed simp

lemma map_at: "map_of t i = Some j \<Longrightarrow> keyed t \<Longrightarrow>
    map (\<lambda>(k, v). (k, if k = i \<and> P v then f v else v)) t = (if P j then AList.update i (f j) t else t)"
proof -
  assume m: "map_of t i = Some j" and k: "keyed t"
  have only: "v = j" if "(i, v) \<in> set t" for v using that m k by (auto simp: keyed_def)
  show ?thesis
  proof (cases "P j")
    case True
    then show ?thesis unfolding update_known [OF m k] by (auto intro!: map_cong dest: only)
  next
    case False
    then show ?thesis by (auto intro!: map_idI dest: only)
  qed
qed

lemma map_none: "map_of t i = None \<Longrightarrow> map (\<lambda>(k, v). (k, if k = i \<and> P v then f v else v)) t = t"
  by (auto intro!: map_idI simp: map_of_eq_None_iff image_iff)

text \<open>On a table with one row per id the two stores do the same.\<close>

lemma sql_cas_mem: "keyed t \<Longrightarrow> sql_cas t i to from code summary res now = mem_cas t i to from code summary res now"
  by (cases "map_of t i")
    (simp_all add: sql_cas_def mem_cas_def sql_update_def Let_def map_at map_none update_conv')

lemma count_at: "keyed t \<Longrightarrow> map_of t i = Some j \<Longrightarrow> length (filter (\<lambda>(k, v). k = i \<and> P v) t) = (if P j then 1 else 0)"
proof (induction t)
  case (Cons p t)
  have kt: "keyed t" using Cons.prems(1) by (simp add: keyed_def)
  show ?case
  proof (cases "fst p = i")
    case True
    then have "\<forall>(k, v) \<in> set t. k \<noteq> i" using Cons.prems(1) by (auto simp: keyed_def image_iff)
    then have "filter (\<lambda>(k, v). k = i \<and> P v) t = []" by (auto simp: filter_empty_conv)
    then show ?thesis using True Cons.prems(2) by (cases p) simp
  next
    case False
    then show ?thesis using Cons.IH [OF kt] Cons.prems(2) by (cases p) simp
  qed
qed simp

lemma count_none: "map_of t i = None \<Longrightarrow> length (filter (\<lambda>(k, v). k = i \<and> P v) t) = 0"
  by (auto simp: filter_empty_conv map_of_eq_None_iff image_iff)

lemma sql_claim_mem: "keyed t \<Longrightarrow> sql_claim t i task worker now = mem_claim t i task worker now"
  by (cases "map_of t i")
    (simp_all add: sql_claim_def mem_claim_def sql_update_def map_at map_none count_at count_none update_conv')

lemma sql_set_task_mem: "keyed t \<Longrightarrow> sql_set_task t i task = mem_set_task t i task"
  using map_at [of t i _ "\<lambda>_. True"] map_none [of t i "\<lambda>_. True"] count_at [of t i _ "\<lambda>_. True"] count_none [of t i "\<lambda>_. True"]
  by (cases "map_of t i") (simp_all add: sql_set_task_def mem_set_task_def sql_update_def update_conv')

lemma sql_touch_mem: "sql_touch t worker now = mem_touch t worker now"
  by (simp add: sql_touch_def mem_touch_def sql_update_def map_jobs_def touch_job_def filter_map comp_def case_prod_unfold
      cong: map_cong)

lemma set_update_cases: "p \<in> set (AList.update i x t) \<Longrightarrow> p \<in> set t \<or> p = (i, x)"
  by (induction t) (auto split: if_splits)

lemma keyed_update: "keyed t \<Longrightarrow> jb_id x = i \<Longrightarrow> keyed (AList.update i x t)"
  by (auto simp: keyed_def distinct_update dest!: set_update_cases)

lemma keyed_id: "keyed t \<Longrightarrow> map_of t i = Some j \<Longrightarrow> jb_id j = i"
  by (auto simp: keyed_def dest: map_of_SomeD)

lemma keyed_cas: "keyed t \<Longrightarrow> keyed (snd (mem_cas t i to from code summary res now))"
  by (auto simp: mem_cas_def keyed_id intro!: keyed_update split: option.split)

lemma keyed_claim: "keyed t \<Longrightarrow> keyed (snd (mem_claim t i task worker now))"
  by (auto simp: mem_claim_def keyed_id intro!: keyed_update split: option.split)

interpretation mem: job_cas keyed map_of mem_cas mem_claim
  by unfold_locales
    (auto simp: mem_cas_def mem_claim_def update_conv' keyed_id intro!: keyed_update split: option.split)

interpretation sql: job_cas keyed map_of sql_cas sql_claim
  by unfold_locales
    (simp_all add: sql_cas_mem sql_claim_mem mem.good_cas mem.good_claim mem.cas_lookup mem.cas_answer mem.claim_lookup
      mem.claim_answer)



lemma selected_passes: "selected f j = passes f j"
  by (auto simp: selected_def passes_def wanted_def wanted_opt_def opaque_stamp_clause_def stamp_visible_def
      split: option.splits)

lemma sql_list_mem: "sql_list t f limit offset = mem_list t f limit offset"
proof -
  have f: "selected f = passes f" by (rule ext) (rule selected_passes)
  have "length (newest_first js) = length js" for js by (simp add: newest_first_def)
  then show ?thesis by (cases "offset = 0") (simp_all add: sql_list_def mem_list_def page_def f Let_def)
qed




section \<open>The steps of the job API\<close>

text \<open>The table, the ids given out so far, and the jobs that log appends have read and not yet written back.\<close>

record job_system =
  js_jobs :: jobs
  js_used :: "string set"
  js_open :: "job list"

text \<open>Each call is one transaction, but for the log append, which is two: it reads the job, and any calls may come before
  it writes the whole row back (\<open>save\<close> has no other caller); when the row has gone by then it raises. Ids are never used again. The
  flag says that the written row has a status other than the one that was read: the append has been overtaken.\<close>

inductive api_step :: "bool \<Rightarrow> job_system \<Rightarrow> job_system \<Rightarrow> bool" where
  Create: "i \<notin> js_used s \<Longrightarrow>
    sql_create (js_jobs s) (create_queued_job i kind input by_user summary tk tr log_body slot limit_sec stamp now) = Inr t \<Longrightarrow>
    api_step False s (s\<lparr>js_jobs := t, js_used := insert i (js_used s)\<rparr>)"
| Claim: "api_step False s (s\<lparr>js_jobs := snd (sql_claim (js_jobs s) i task worker now)\<rparr>)"
| Touch: "api_step False s (s\<lparr>js_jobs := snd (sql_touch (js_jobs s) worker now)\<rparr>)"
| Set_Task: "api_step False s (s\<lparr>js_jobs := snd (sql_set_task (js_jobs s) i task)\<rparr>)"
| Succeed: "api_step False s (s\<lparr>js_jobs := snd (mark_succeeded (js_jobs s) i res now)\<rparr>)"
| Fail: "from = unfinished \<or> from = running_only \<Longrightarrow>
    api_step False s (s\<lparr>js_jobs := snd (mark_failed (js_jobs s) i code summary from now)\<rparr>)"
| Cancel: "api_step False s (s\<lparr>js_jobs := snd (mark_cancelled (js_jobs s) i now)\<rparr>)"
| Delete: "api_step False s (s\<lparr>js_jobs := sql_delete (js_jobs s) i\<rparr>)"
| Log_Read: "sql_get (js_jobs s) i None = Some j \<Longrightarrow> api_step False s (s\<lparr>js_open := j # js_open s\<rparr>)"
| Log_Save: "j \<in> set (js_open s) \<Longrightarrow> map_of (js_jobs s) (jb_id j) = Some row \<Longrightarrow>
    save_log j level message now (js_jobs s) = Some t \<Longrightarrow>
    api_step (jb_status row \<noteq> jb_status j) s (s\<lparr>js_jobs := t, js_open := remove1 j (js_open s)\<rparr>)"
| Log_Lost: "j \<in> set (js_open s) \<Longrightarrow> save_log j level message now (js_jobs s) = None \<Longrightarrow>
    api_step False s (s\<lparr>js_open := remove1 j (js_open s)\<rparr>)"

inductive_cases api_stepE: "api_step overtaken s s'"

definition any_step :: "job_system \<Rightarrow> job_system \<Rightarrow> bool" where
  "any_step s s' \<longleftrightarrow> (\<exists>overtaken. api_step overtaken s s')"

definition rank :: "job_status \<Rightarrow> nat" where
  "rank st = (case st of Queued \<Rightarrow> 0 | Running \<Rightarrow> 1 | _ \<Rightarrow> 2)"

text \<open>The columns that go with each status.\<close>

definition job_ok :: "job \<Rightarrow> bool" where
  "job_ok j \<longleftrightarrow>
     (jb_status j = Queued \<longrightarrow> jb_started_at j = None \<and> jb_locked_at j = None \<and> jb_finished_at j = None) \<and>
     (jb_status j = Running \<longrightarrow> jb_started_at j \<noteq> None \<and> jb_locked_at j \<noteq> None \<and> jb_finished_at j = None) \<and>
     (jb_status j \<in> terminal \<longrightarrow> jb_finished_at j \<noteq> None) \<and>
     (jb_status j = Succeeded \<longrightarrow> jb_started_at j \<noteq> None) \<and>
     (jb_error_code j \<noteq> None \<longrightarrow> jb_status j = Failed) \<and> (jb_result j \<noteq> None \<longrightarrow> jb_status j = Succeeded)"

text \<open>How one job may change in a step: its trigger stays, its status only moves on, a started job keeps its start
  and its owner, and a finished job keeps what it finished with.\<close>

definition moves :: "job \<Rightarrow> job \<Rightarrow> bool" where
  "moves j j' \<longleftrightarrow> jb_id j' = jb_id j \<and> rank (jb_status j) \<le> rank (jb_status j') \<and>
     (jb_status j \<in> terminal \<longrightarrow> jb_status j' = jb_status j \<and> jb_finished_at j' = jb_finished_at j \<and>
        jb_result j' = jb_result j \<and> jb_error_code j' = jb_error_code j) \<and>
     (jb_status j \<noteq> Queued \<longrightarrow> jb_started_at j' = jb_started_at j \<and> jb_claimed_by j' = jb_claimed_by j) \<and>
     jb_trigger_kind j' = jb_trigger_kind j \<and> jb_trigger_ref j' = jb_trigger_ref j \<and> jb_scheduled_for j' = jb_scheduled_for j"

text \<open>What no call changes, overtaken appends included.\<close>

definition same_trigger :: "job \<Rightarrow> job \<Rightarrow> bool" where
  "same_trigger j j' \<longleftrightarrow> jb_id j' = jb_id j \<and>
     jb_trigger_kind j' = jb_trigger_kind j \<and> jb_trigger_ref j' = jb_trigger_ref j \<and> jb_scheduled_for j' = jb_scheduled_for j"

lemma moves_refl: "moves j j"
  by (simp add: moves_def)

lemma rank_queued: "rank st = 0 \<longleftrightarrow> st = Queued"
  by (cases st) (simp_all add: rank_def)

lemma moves_trans:
  assumes "moves a b" and "moves b c"
  shows "moves a c"
proof -
  have "jb_status b \<noteq> Queued" if "jb_status a \<noteq> Queued"
    using assms(1) that by (auto simp: moves_def rank_queued [symmetric])
  then show ?thesis using assms by (simp add: moves_def)
qed

text \<open>The state of the system under an order on jobs that every call of its own respects: a job read for a log
  append is below its row.\<close>

definition system_ok :: "(job \<Rightarrow> job \<Rightarrow> bool) \<Rightarrow> job_system \<Rightarrow> bool" where
  "system_ok R s \<longleftrightarrow> keyed (js_jobs s) \<and> fst ` set (js_jobs s) \<subseteq> js_used s \<and> (\<forall>i j. map_of (js_jobs s) i = Some j \<longrightarrow> job_ok j) \<and>
     (\<forall>j \<in> set (js_open s). job_ok j \<and> jb_id j \<in> js_used s \<and> (\<forall>r. map_of (js_jobs s) (jb_id j) = Some r \<longrightarrow> R j r))"

definition keeps_rows :: "(job \<Rightarrow> job \<Rightarrow> bool) \<Rightarrow> job_system \<Rightarrow> job_system \<Rightarrow> bool" where
  "keeps_rows R s s' \<longleftrightarrow> system_ok R s' \<and> js_used s \<subseteq> js_used s' \<and>
     (\<forall>k \<in> js_used s. map_of (js_jobs s) k = None \<longrightarrow> map_of (js_jobs s') k = None) \<and>
     (\<forall>k j j'. map_of (js_jobs s) k = Some j \<longrightarrow> map_of (js_jobs s') k = Some j' \<longrightarrow> R j j')"

lemma system_keyed: "system_ok R s \<Longrightarrow> keyed (js_jobs s)"
  by (simp add: system_ok_def)

lemma system_row: "system_ok R s \<Longrightarrow> map_of (js_jobs s) k = Some j \<Longrightarrow> job_ok j \<and> jb_id j = k \<and> k \<in> js_used s"
  by (metis (mono_tags, lifting) fst_conv image_subset_iff keyed_id map_of_SomeD system_ok_def)

lemma system_open: "system_ok R s \<Longrightarrow> j \<in> set (js_open s) \<Longrightarrow>
    job_ok j \<and> jb_id j \<in> js_used s \<and> (\<forall>r. map_of (js_jobs s) (jb_id j) = Some r \<longrightarrow> R j r)"
  by (simp add: system_ok_def)

lemma close_fields [simp]: "jb_error_code (close_job to code summary res now j) = (if to = Failed then code else jb_error_code j)"
  "jb_result (close_job to code summary res now j) = (if to = Succeeded then res else jb_result j)"
  by (simp_all add: close_job_def Let_def)

lemma close_ok:
  assumes "job_ok j" and "jb_status j = Queued \<or> jb_status j = Running" and "to = Failed \<or> to = Cancelled \<or> to = Succeeded \<and> jb_status j = Running"
    and "code \<noteq> None \<longrightarrow> to = Failed" and "res \<noteq> None \<longrightarrow> to = Succeeded"
  shows "job_ok (close_job to code summary res now j) \<and> moves j (close_job to code summary res now j)"
proof -
  have e: "jb_error_code j = None" "jb_result j = None"
    using assms(1,2) by (auto simp: job_ok_def)
  have m: "moves j (close_job to code summary res now j)"
    using assms(2,3) by (elim disjE conjE) (simp_all add: moves_def rank_def terminal_def)
  have o: "job_ok (close_job to code summary res now j)"
    using assms(3) e assms(1,4,5) by (elim disjE conjE) (simp_all add: job_ok_def terminal_def)
  show ?thesis using m o by simp
qed

definition closes :: "job_status \<Rightarrow> job_status list \<Rightarrow> string option \<Rightarrow> (string \<times> json) list option \<Rightarrow> bool" where
  "closes to from code res \<longleftrightarrow>
     (to = Failed \<or> to = Cancelled \<or> to = Succeeded \<and> set from \<subseteq> {Running}) \<and> set from \<subseteq> {Queued, Running} \<and>
     (code \<noteq> None \<longrightarrow> to = Failed) \<and> (res \<noteq> None \<longrightarrow> to = Succeeded)"

lemma cas_ok:
  assumes "job_ok j" and "closes to from code res"
  shows "job_ok (if jb_status j \<in> set from then close_job to code summary res now j else j) \<and>
    moves j (if jb_status j \<in> set from then close_job to code summary res now j else j)"
proof (cases "jb_status j \<in> set from")
  case True
  have "jb_status j = Queued \<or> jb_status j = Running" "to = Failed \<or> to = Cancelled \<or> to = Succeeded \<and> jb_status j = Running"
    using assms(2) True unfolding closes_def by blast+
  then show ?thesis using True close_ok [OF assms(1)] assms(2) by (simp add: closes_def)
qed (simp add: assms(1) moves_refl)

lemma start_ok: "job_ok j \<Longrightarrow> jb_status j = Queued \<Longrightarrow> job_ok (start_job task worker now j) \<and> moves j (start_job task worker now j)"
  by (simp add: job_ok_def moves_def start_job_def terminal_def rank_def)

lemma touch_ok:
  assumes "job_ok j"
  shows "job_ok (touch_job worker now j) \<and> moves j (touch_job worker now j)"
proof (cases "holds worker j")
  case True
  then have "jb_status j = Running" by (simp add: holds_def)
  then show ?thesis using assms True by (simp add: touch_job_def job_ok_def moves_def terminal_def)
qed (simp add: touch_job_def assms moves_refl)

lemma map_jobs_lookup: "map_of (map_jobs f t) k = map_option f (map_of t k)"
  unfolding map_jobs_def by (induction t) (auto split: prod.splits)

lemma delete_rows: "AList.delete i t = filter (\<lambda>p. fst p \<noteq> i) t"
  by (auto simp: AList.delete_eq case_prod_unfold intro: filter_cong)

lemma log_row: "job_ok (with_log line now x\<lparr>jb_kind := k, jb_created_by := b, jb_created_at := c\<rparr>) = job_ok x"
  "moves r (with_log line now x\<lparr>jb_kind := k, jb_created_by := b, jb_created_at := c\<rparr>) = moves r x"
  "same_trigger r (with_log line now x\<lparr>jb_kind := k, jb_created_by := b, jb_created_at := c\<rparr>) = same_trigger r x"
  "jb_id (with_log line now x) = jb_id x"
  by (simp_all add: job_ok_def moves_def same_trigger_def with_log_def)

lemma save_log_row: "map_of t (jb_id j) = Some row \<Longrightarrow> save_log j level message now t =
    Some (AList.update (jb_id j) (with_log (format_job_log_line level message now) now j
      \<lparr>jb_kind := jb_kind row, jb_created_by := jb_created_by row, jb_created_at := jb_created_at row\<rparr>) t)"
  by (simp add: save_log_def sql_save_def log_row(4))

text \<open>An order on jobs that the calls other than the log append respect.\<close>

locale job_order =
  fixes R :: "job \<Rightarrow> job \<Rightarrow> bool"
  assumes below_refl: "R j j"
    and below_trans: "R a b \<Longrightarrow> R b c \<Longrightarrow> R a c"
    and below_moves: "moves j j' \<Longrightarrow> R j j'"
begin

text \<open>A call that changes rows in place, each to a well-formed row above it.\<close>

lemma in_place:
  assumes "system_ok R s" and "keyed t" and "\<And>k. map_of t k = map_option (f k) (map_of (js_jobs s) k)"
    and "\<And>k j. map_of (js_jobs s) k = Some j \<Longrightarrow> job_ok j \<Longrightarrow> job_ok (f k j) \<and> R j (f k j)"
    and "set opened \<subseteq> set (js_open s)"
  shows "keeps_rows R s (s\<lparr>js_jobs := t, js_open := opened\<rparr>)"
proof -
  have "fst ` set t \<subseteq> js_used s"
  proof
    fix k assume "k \<in> fst ` set t"
    then have "map_of t k \<noteq> None" by (simp add: map_of_eq_None_iff)
    then have "map_of (js_jobs s) k \<noteq> None" using assms(3) [of k] by auto
    then show "k \<in> js_used s" using assms(1) by (auto simp: system_ok_def map_of_eq_None_iff)
  qed
  moreover have "job_ok j" if "map_of t k = Some j" for k j
    using that assms(1,3,4) by (auto simp: system_ok_def)
  moreover have "R j r'" if j: "j \<in> set opened" and r': "map_of t (jb_id j) = Some r'" for j r'
  proof -
    obtain r where r: "map_of (js_jobs s) (jb_id j) = Some r" "r' = f (jb_id j) r" using assms(3) r' by auto
    then have "R j r" using system_open [OF assms(1)] assms(5) j by blast
    moreover have "R r r'" using assms(4) r system_row [OF assms(1)] by blast
    ultimately show ?thesis by (rule below_trans)
  qed
  moreover have "job_ok j \<and> jb_id j \<in> js_used s" if "j \<in> set opened" for j
    using system_open [OF assms(1)] assms(5) that by blast
  ultimately have "system_ok R (s\<lparr>js_jobs := t, js_open := opened\<rparr>)" using assms(2) by (simp add: system_ok_def)
  moreover have "R j j'" if "map_of (js_jobs s) k = Some j" "map_of t k = Some j'" for k j j'
    using that assms(3) [of k] assms(4) [of k j] system_row [OF assms(1)] by auto
  ultimately show ?thesis by (simp add: keeps_rows_def assms(3))
qed

lemma in_place_moves:
  assumes "system_ok R s" and "keyed t" and "\<And>k. map_of t k = map_option (f k) (map_of (js_jobs s) k)"
    and "\<And>k j. map_of (js_jobs s) k = Some j \<Longrightarrow> job_ok j \<Longrightarrow> job_ok (f k j) \<and> moves j (f k j)"
  shows "keeps_rows R s (s\<lparr>js_jobs := t\<rparr>)"
  using in_place [OF assms(1-3) _ subset_refl] assms(4) below_moves by simp

lemma cas_step:
  assumes "system_ok R s" and "closes to from code res"
  shows "keeps_rows R s (s\<lparr>js_jobs := snd (sql_cas (js_jobs s) i to from code summary res now)\<rparr>)"
proof (rule in_place_moves [where f = "\<lambda>k j. if k = i then (if jb_status j \<in> set from then close_job to code summary res now j else j) else j"])
  note k = system_keyed [OF assms(1)]
  show "keyed (snd (sql_cas (js_jobs s) i to from code summary res now))" by (rule sql.good_cas [OF k])
  show "map_of (snd (sql_cas (js_jobs s) i to from code summary res now)) k =
      map_option (\<lambda>j. if k = i then (if jb_status j \<in> set from then close_job to code summary res now j else j) else j)
        (map_of (js_jobs s) k)" for k
    by (cases "k = i"; cases "map_of (js_jobs s) k") (simp_all add: sql.cas_lookup [OF k])
  show "job_ok (if k = i then (if jb_status j \<in> set from then close_job to code summary res now j else j) else j) \<and>
      moves j (if k = i then (if jb_status j \<in> set from then close_job to code summary res now j else j) else j)"
    if "job_ok j" for k j
    using cas_ok [OF that assms(2), of summary now] that moves_refl by (cases "k = i") (simp_all only: if_True if_False simp_thms)
qed (rule assms(1))

lemma claim_step:
  assumes "system_ok R s"
  shows "keeps_rows R s (s\<lparr>js_jobs := snd (sql_claim (js_jobs s) i task worker now)\<rparr>)"
proof (rule in_place_moves [where f = "\<lambda>k j. if k = i then (if jb_status j = Queued then start_job task worker now j else j) else j"])
  note k = system_keyed [OF assms(1)]
  show "keyed (snd (sql_claim (js_jobs s) i task worker now))" by (rule sql.good_claim [OF k])
  show "map_of (snd (sql_claim (js_jobs s) i task worker now)) k =
      map_option (\<lambda>j. if k = i then (if jb_status j = Queued then start_job task worker now j else j) else j)
        (map_of (js_jobs s) k)" for k
    by (cases "k = i"; cases "map_of (js_jobs s) k") (simp_all add: sql.claim_lookup [OF k])
  show "job_ok (if k = i then (if jb_status j = Queued then start_job task worker now j else j) else j) \<and>
      moves j (if k = i then (if jb_status j = Queued then start_job task worker now j else j) else j)"
    if "job_ok j" for k j
    using start_ok [OF that] that moves_refl by (cases "k = i"; cases "jb_status j = Queued") (simp_all only: if_True if_False simp_thms)
qed (rule assms)

lemma touch_step:
  assumes "system_ok R s"
  shows "keeps_rows R s (s\<lparr>js_jobs := snd (sql_touch (js_jobs s) worker now)\<rparr>)"
proof (rule in_place_moves [where f = "\<lambda>_. touch_job worker now"])
  have "jb_id (touch_job worker now j) = jb_id j" for j by (simp add: touch_job_def)
  then show "keyed (snd (sql_touch (js_jobs s) worker now))"
    using system_keyed [OF assms]
    by (auto simp: sql_touch_mem mem_touch_def map_jobs_def keyed_def comp_def case_prod_unfold)
  show "map_of (snd (sql_touch (js_jobs s) worker now)) k = map_option (touch_job worker now) (map_of (js_jobs s) k)" for k
    by (simp add: sql_touch_mem mem_touch_def map_jobs_lookup)
qed (rule assms touch_ok; assumption)+

lemma update_in_place:
  assumes "system_ok R s" and "map_of (js_jobs s) i = Some j" and "job_ok x" and "R j x" and "jb_id x = i"
    and "set opened \<subseteq> set (js_open s)"
  shows "keeps_rows R s (s\<lparr>js_jobs := AList.update i x (js_jobs s), js_open := opened\<rparr>)"
proof (rule in_place [where f = "\<lambda>k j. if k = i then x else j"])
  show "keyed (AList.update i x (js_jobs s))" by (rule keyed_update [OF system_keyed [OF assms(1)] assms(5)])
  show "map_of (AList.update i x (js_jobs s)) k = map_option (\<lambda>j. if k = i then x else j) (map_of (js_jobs s) k)" for k
    using assms(2) by (cases "k = i"; cases "map_of (js_jobs s) k") (simp_all add: update_conv')
  show "job_ok (if k = i then x else l) \<and> R l (if k = i then x else l)" if "map_of (js_jobs s) k = Some l" "job_ok l" for k l
    using that assms(2-4) below_refl by (cases "k = i") auto
qed (rule assms)+

lemma same_jobs:
  assumes "system_ok R s" and "set opened \<subseteq> set (js_open s)"
  shows "keeps_rows R s (s\<lparr>js_open := opened\<rparr>)"
  using in_place [of s "js_jobs s" "\<lambda>_ j. j" opened] assms system_keyed [OF assms(1)] below_refl by (simp add: option.map_ident)

lemma task_step:
  assumes "system_ok R s"
  shows "keeps_rows R s (s\<lparr>js_jobs := snd (sql_set_task (js_jobs s) i task)\<rparr>)"
proof (cases "map_of (js_jobs s) i")
  case None
  then show ?thesis using same_jobs [OF assms subset_refl] by (simp add: sql_set_task_mem system_keyed [OF assms] mem_set_task_def)
next
  case (Some j)
  have "job_ok (x\<lparr>jb_celery_task_id := t\<rparr>) = job_ok x" "moves x (x\<lparr>jb_celery_task_id := t\<rparr>)" for x t
    by (simp_all add: job_ok_def moves_def)
  then have "keeps_rows R s (s\<lparr>js_jobs := AList.update i (j\<lparr>jb_celery_task_id := Some task\<rparr>) (js_jobs s), js_open := js_open s\<rparr>)"
    using Some system_row [OF assms Some] by (intro update_in_place [OF assms] below_moves) auto
  then show ?thesis using Some by (simp add: sql_set_task_mem system_keyed [OF assms] mem_set_task_def)
qed

lemma delete_step:
  assumes "system_ok R s"
  shows "keeps_rows R s (s\<lparr>js_jobs := sql_delete (js_jobs s) i\<rparr>)"
proof -
  have look: "map_of (AList.delete i (js_jobs s)) k = (if k = i then None else map_of (js_jobs s) k)" for k
    by (simp add: delete_conv')
  have "keyed (AList.delete i (js_jobs s))"
    using system_keyed [OF assms] by (auto simp: keyed_def delete_rows distinct_map_filter)
  moreover have "fst ` set (AList.delete i (js_jobs s)) \<subseteq> js_used s"
    using assms by (auto simp: system_ok_def delete_rows)
  ultimately show ?thesis using assms by (simp add: keeps_rows_def system_ok_def sql_delete_def look below_refl)
qed

lemma create_step:
  assumes "system_ok R s" and "i \<notin> js_used s"
    and "sql_create (js_jobs s) (create_queued_job i kind input by_user summary tk tr log_body slot limit_sec stamp now) = Inr t"
  shows "keeps_rows R s (s\<lparr>js_jobs := t, js_used := insert i (js_used s)\<rparr>)"
proof -
  define r where "r = create_queued_job i kind input by_user summary tk tr log_body slot limit_sec stamp now"
  have r: "jb_id r = i" "job_ok r" by (simp_all add: r_def create_queued_job_def job_ok_def terminal_def)
  have t: "t = js_jobs s @ [(i, r)]" using assms(3) r(1) by (simp add: sql_create_def r_def [symmetric] split: if_splits)
  have n: "i \<notin> fst ` set (js_jobs s)" using assms(1,2) by (auto simp: system_ok_def)
  then have m: "map_of (js_jobs s) i = None" by (simp add: map_of_eq_None_iff)
  have look: "map_of t k = (if k = i then Some r else map_of (js_jobs s) k)" for k
    using m by (simp add: t map_add_def split: option.split)
  have "keyed t" using system_keyed [OF assms(1)] n r(1) by (auto simp: t keyed_def)
  moreover have "fst ` set t \<subseteq> insert i (js_used s)" using assms(1) by (auto simp: t system_ok_def)
  moreover have "job_ok j" if "map_of t k = Some j" for k j
    using that assms(1) r(2) by (auto simp: look system_ok_def split: if_splits)
  moreover have "job_ok j \<and> jb_id j \<in> insert i (js_used s) \<and> (\<forall>l. map_of t (jb_id j) = Some l \<longrightarrow> R j l)"
    if "j \<in> set (js_open s)" for j
    using system_open [OF assms(1) that] assms(2) by (auto simp: look)
  ultimately have "system_ok R (s\<lparr>js_jobs := t, js_used := insert i (js_used s)\<rparr>)" by (simp add: system_ok_def)
  then show ?thesis using assms(2) m below_refl by (auto simp: keeps_rows_def look)
qed

lemma read_step:
  assumes "system_ok R s" and "sql_get (js_jobs s) i None = Some j"
  shows "keeps_rows R s (s\<lparr>js_open := j # js_open s\<rparr>)"
proof -
  have "map_of (js_jobs s) i = Some j" using assms(2) by (simp add: sql_get_def stamp_visible_def split: option.splits)
  then show ?thesis using assms(1) system_row [OF assms(1)] below_refl by (auto simp: keeps_rows_def system_ok_def)
qed

lemma save_step:
  assumes "system_ok R s" and "j \<in> set (js_open s)" and "map_of (js_jobs s) (jb_id j) = Some row"
    and "save_log j level message now (js_jobs s) = Some t"
    and above: "\<And>line k b c. R row (with_log line now j\<lparr>jb_kind := k, jb_created_by := b, jb_created_at := c\<rparr>)"
  shows "keeps_rows R s (s\<lparr>js_jobs := t, js_open := remove1 j (js_open s)\<rparr>)"
  using update_in_place [OF assms(1,3) _ above, of _ _ _ _ "remove1 j (js_open s)"] assms(4) system_open [OF assms(1,2)]
    set_remove1_subset [of j "js_open s"]
  by (auto simp: save_log_row [OF assms(3)] log_row)

lemma step_keeps:
  assumes "api_step overtaken s s'" and "system_ok R s"
    and "\<And>row j line now k b c. map_of (js_jobs s) (jb_id j) = Some row \<Longrightarrow> R j row \<Longrightarrow> overtaken = (jb_status row \<noteq> jb_status j) \<Longrightarrow>
      R row (with_log line now j\<lparr>jb_kind := k, jb_created_by := b, jb_created_at := c\<rparr>)"
  shows "keeps_rows R s s'"
  using assms(1)
proof cases
  case (Fail states i code summary now)
  then have "closes Failed states (Some code) None" by (auto simp: closes_def unfinished_def running_only_def)
  then show ?thesis unfolding Fail mark_failed_def by (rule cas_step [OF assms(2)])
next
  case (Succeed i res now)
  have "closes Succeeded running_only None res" by (simp add: closes_def running_only_def)
  then show ?thesis unfolding Succeed mark_succeeded_def by (rule cas_step [OF assms(2)])
next
  case (Cancel i now)
  have "closes Cancelled unfinished None None" by (simp add: closes_def unfinished_def)
  then show ?thesis unfolding Cancel mark_cancelled_def by (rule cas_step [OF assms(2)])
next
  case (Log_Save j row level message now t)
  have "R j row" using system_open [OF assms(2) Log_Save(3)] Log_Save(4) by blast
  then show ?thesis unfolding Log_Save(2) using assms(3) Log_Save(1,4)
    by (intro save_step [OF assms(2) Log_Save(3-5)]) blast
next
  case (Log_Lost j level message now)
  then show ?thesis using same_jobs [OF assms(2)] by (simp add: set_remove1_subset)
qed (use assms(2) in \<open>blast intro: create_step claim_step touch_step task_step delete_step read_step\<close>)+

lemma keeps_rows_trans:
  assumes "keeps_rows R a b" and "keeps_rows R b c" and "system_ok R a"
  shows "keeps_rows R a c"
proof -
  have "R j l" if j: "map_of (js_jobs a) k = Some j" and l: "map_of (js_jobs c) k = Some l" for k j l
  proof (cases "map_of (js_jobs b) k")
    case None
    have "k \<in> js_used b" using system_row [OF assms(3) j] assms(1) by (auto simp: keeps_rows_def)
    then show ?thesis using assms(2) None l by (auto simp: keeps_rows_def)
  next
    case (Some j1)
    have "R j j1" "R j1 l" using assms(1,2) j l Some by (simp_all add: keeps_rows_def)
    then show ?thesis by (rule below_trans)
  qed
  moreover have "map_of (js_jobs c) k = None" if "k \<in> js_used a" "map_of (js_jobs a) k = None" for k
    using that assms(1,2) by (auto simp: keeps_rows_def)
  ultimately show ?thesis using assms(1,2) by (auto simp: keeps_rows_def)
qed

lemma run_keeps:
  assumes "step\<^sup>*\<^sup>* s s'" and "system_ok R s" and "\<And>a b. step a b \<Longrightarrow> system_ok R a \<Longrightarrow> keeps_rows R a b"
  shows "keeps_rows R s s'"
  using assms(1)
proof (induction rule: rtranclp_induct)
  case base
  then show ?case using same_jobs [OF assms(2) subset_refl] by simp
next
  case (step b c)
  then have "keeps_rows R b c" using assms(3) by (simp add: keeps_rows_def)
  with step.IH show ?case using assms(2) by (rule keeps_rows_trans)
qed

end

interpretation moving: job_order moves
  by unfold_locales (blast intro: moves_refl moves_trans)+

interpretation fixed: job_order same_trigger
  by unfold_locales (auto simp: same_trigger_def moves_def)

text \<open>Every call keeps the triggers; every call but an append that has been overtaken moves the jobs on.\<close>

lemma same_trigger_sym: "same_trigger j row \<Longrightarrow> same_trigger row j"
  by (simp add: same_trigger_def)

lemma any_step_keeps: "any_step s s' \<Longrightarrow> system_ok same_trigger s \<Longrightarrow> keeps_rows same_trigger s s'"
  unfolding any_step_def by (elim exE, erule fixed.step_keeps) (simp_all add: log_row same_trigger_sym)

lemma save_moves: "moves j row \<Longrightarrow> jb_status row = jb_status j \<Longrightarrow> moves row j"
  by (simp add: moves_def)

lemma on_time_keeps: "api_step False s s' \<Longrightarrow> system_ok moves s \<Longrightarrow> keeps_rows moves s s'"
  by (erule moving.step_keeps) (simp_all add: log_row save_moves)

text \<open>No two jobs of a schedule have the same slot.\<close>

definition slots_ok :: "jobs \<Rightarrow> bool" where
  "slots_ok t \<longleftrightarrow> (\<forall>i j k l. map_of t i = Some j \<longrightarrow> map_of t k = Some l \<longrightarrow> jb_trigger_kind j = Some ''schedule'' \<longrightarrow>
     jb_trigger_ref j \<noteq> None \<longrightarrow> jb_scheduled_for j \<noteq> None \<longrightarrow> jb_trigger_kind l = Some ''schedule'' \<longrightarrow>
     jb_trigger_ref l = jb_trigger_ref j \<longrightarrow> jb_scheduled_for l = jb_scheduled_for j \<longrightarrow> i = k)"

lemma slots_in_place:
  assumes "keeps_rows same_trigger s s'" and "js_used s' = js_used s" and "slots_ok (js_jobs s)"
  shows "slots_ok (js_jobs s')"
proof -
  have old: "\<exists>j. map_of (js_jobs s) k = Some j \<and> same_trigger j j'" if j': "map_of (js_jobs s') k = Some j'" for k j'
  proof -
    have "k \<in> fst ` set (js_jobs s')" using map_of_SomeD [OF j'] by force
    then have "k \<in> js_used s" using assms(1,2) by (auto simp: keeps_rows_def system_ok_def)
    then obtain j where "map_of (js_jobs s) k = Some j" using assms(1) j' by (auto simp: keeps_rows_def)
    then show ?thesis using assms(1) j' by (auto simp: keeps_rows_def)
  qed
  show ?thesis
    unfolding slots_ok_def
  proof (intro allI impI)
    fix i j' k l'
    assume h: "map_of (js_jobs s') i = Some j'" "map_of (js_jobs s') k = Some l'" "jb_trigger_kind j' = Some ''schedule''"
      "jb_trigger_ref j' \<noteq> None" "jb_scheduled_for j' \<noteq> None" "jb_trigger_kind l' = Some ''schedule''"
      "jb_trigger_ref l' = jb_trigger_ref j'" "jb_scheduled_for l' = jb_scheduled_for j'"
    obtain j where j: "map_of (js_jobs s) i = Some j" "same_trigger j j'" using old [OF h(1)] by blast
    obtain l where l: "map_of (js_jobs s) k = Some l" "same_trigger l l'" using old [OF h(2)] by blast
    show "i = k"
      by (rule assms(3) [unfolded slots_ok_def, rule_format, OF j(1) l(1)])
        (use h j(2) l(2) in \<open>simp_all add: same_trigger_def\<close>)
  qed
qed

lemma slots_create:
  assumes "slots_ok t" and "keyed t" and "sql_create t r = Inr t'"
  shows "slots_ok t'"
proof -
  have t': "t' = t @ [(jb_id r, r)]" "map_of t (jb_id r) = None" "\<not> slot_taken t r"
    using assms(3) by (auto simp: sql_create_def split: if_splits)
  have look: "map_of t' k = (if k = jb_id r then Some r else map_of t k)" for k
    using t'(1,2) by (simp add: map_add_def split: option.split)
  have "\<not> same_slot r j" if "map_of t k = Some j" "jb_scheduled_for r \<noteq> None" "jb_trigger_kind r = Some ''schedule''" "jb_trigger_ref r \<noteq> None" for k j
    using t'(3) that(2-) map_of_SomeD [OF that(1)] by (auto simp: slot_taken_def list_ex_iff)
  then have no: "map_of t k = Some j \<Longrightarrow> jb_scheduled_for r \<noteq> None \<Longrightarrow> jb_trigger_kind r = Some ''schedule'' \<Longrightarrow> jb_trigger_ref r \<noteq> None \<Longrightarrow>
      jb_trigger_kind j = Some ''schedule'' \<Longrightarrow> jb_trigger_ref j = jb_trigger_ref r \<Longrightarrow> jb_scheduled_for j \<noteq> jb_scheduled_for r" for k j
    by (auto simp: same_slot_def)
  show ?thesis
    unfolding slots_ok_def look
  proof (intro allI impI)
    fix i j k l
    assume h: "(if i = jb_id r then Some r else map_of t i) = Some j" "(if k = jb_id r then Some r else map_of t k) = Some l"
      "jb_trigger_kind j = Some ''schedule''" "jb_trigger_ref j \<noteq> None" "jb_scheduled_for j \<noteq> None" "jb_trigger_kind l = Some ''schedule''"
      "jb_trigger_ref l = jb_trigger_ref j" "jb_scheduled_for l = jb_scheduled_for j"
    consider "i = jb_id r" "k = jb_id r" | "i = jb_id r" "k \<noteq> jb_id r" | "i \<noteq> jb_id r" "k = jb_id r" | "i \<noteq> jb_id r" "k \<noteq> jb_id r"
      by blast
    then show "i = k"
    proof cases
      case 2
      then have kl: "map_of t k = Some l" and jr: "j = r" using h(1,2) by simp_all
      show ?thesis using no [OF kl] h(3-) unfolding jr by blast
    next
      case 3
      then have ij: "map_of t i = Some j" and lr: "l = r" using h(1,2) by simp_all
      show ?thesis using no [OF ij] h(3-) unfolding lr by metis
    next
      case 4
      then have "map_of t i = Some j" "map_of t k = Some l" using h(1,2) by simp_all
      from assms(1) [unfolded slots_ok_def, rule_format, OF this h(3-)] show ?thesis .
    qed simp
  qed
qed

definition no_jobs :: job_system where
  "no_jobs = \<lparr>js_jobs = [], js_used = {}, js_open = []\<rparr>"

lemma no_jobs_ok: "system_ok R no_jobs"
  by (simp add: no_jobs_def system_ok_def keyed_def)

lemma any_run_keeps: "any_step\<^sup>*\<^sup>* s s' \<Longrightarrow> system_ok same_trigger s \<Longrightarrow> keeps_rows same_trigger s s'"
  using fixed.run_keeps [OF _ _ any_step_keeps] by blast

lemma on_time_run_keeps: "(api_step False)\<^sup>*\<^sup>* s s' \<Longrightarrow> system_ok moves s \<Longrightarrow> keeps_rows moves s s'"
  using moving.run_keeps [OF _ _ on_time_keeps] by blast

text \<open>C17: from the empty table on, whatever calls are made in whatever order, log appends with other calls between their
  read and their write included, every job has the columns of its status (a queued job has not started, a running
  one has a start and an occupancy, a finished one an end; an error code only on a failure and a result only on a
  success) and keeps its id and its trigger. And if no append writes over a row whose status has changed since the append
  read it, then from any moment to any later one the status only moves on: a job is claimed at most once (start
  and owner stay), and what a finished job ended with stays as it is. (The condition is needed: see log_race.)\<close>
theorem jobs_monotone:
  assumes "any_step\<^sup>*\<^sup>* no_jobs s" and "any_step\<^sup>*\<^sup>* s s'"
    and "map_of (js_jobs s) i = Some j" and "map_of (js_jobs s') i = Some j'"
  shows "job_ok j' \<and> same_trigger j j' \<and>
    ((api_step False)\<^sup>*\<^sup>* no_jobs s \<and> (api_step False)\<^sup>*\<^sup>* s s' \<longrightarrow> moves j j')"
proof (intro conjI impI)
  have "system_ok same_trigger s" using any_run_keeps [OF assms(1) no_jobs_ok] by (simp add: keeps_rows_def)
  then have k: "keeps_rows same_trigger s s'" by (rule any_run_keeps [OF assms(2)])
  show "job_ok j'" using k assms(4) by (auto simp: keeps_rows_def system_ok_def)
  show "same_trigger j j'" using k assms(3,4) by (auto simp: keeps_rows_def)
  show "moves j j'" if r: "(api_step False)\<^sup>*\<^sup>* no_jobs s \<and> (api_step False)\<^sup>*\<^sup>* s s'"
  proof -
    have "system_ok moves s" using on_time_run_keeps [OF conjunct1 [OF r] no_jobs_ok] by (simp add: keeps_rows_def)
    then show ?thesis using on_time_run_keeps [OF conjunct2 [OF r]] assms(3,4) by (auto simp: keeps_rows_def)
  qed
qed

lemma on_time_any: "(api_step False)\<^sup>*\<^sup>* s s' \<Longrightarrow> any_step\<^sup>*\<^sup>* s s'"
  by (erule rtranclp_mono [THEN predicate2D, rotated]) (auto simp: any_step_def)

text \<open>A run with a claim and a log append, and a beat of the worker between the two halves of the append; then a
  cancellation.\<close>

theorem jobs_monotone_witness:
  "\<exists>(s :: job_system) (s' :: job_system) j j'. map_of (js_jobs s) ''j'' = Some j \<and> map_of (js_jobs s') ''j'' = Some j' \<and>
     jb_status j = Running \<and> jb_status j' = Cancelled \<and> jb_log_body j' \<noteq> [] \<and> job_ok j' \<and> same_trigger j j' \<and> moves j j'"
proof -
  let ?r = "create_queued_job ''j'' ''k'' [] None [] None None [] None None None 1"
  let ?j1 = "start_job None (Some ''w'') 2 ?r"
  let ?j3 = "with_log (format_job_log_line ''info'' ''m'' 4) 4 ?j1"
  let ?a = "\<lparr>js_jobs = [(''j'', ?r)], js_used = {''j''}, js_open = []\<rparr>"
  let ?b = "?a\<lparr>js_jobs := [(''j'', ?j1)]\<rparr>"
  let ?c = "?b\<lparr>js_open := [?j1]\<rparr>"
  let ?d = "?c\<lparr>js_jobs := [(''j'', ?j1\<lparr>jb_locked_at := Some 3\<rparr>)]\<rparr>"
  let ?e = "?b\<lparr>js_jobs := [(''j'', ?j3)]\<rparr>"
  let ?f = "?b\<lparr>js_jobs := [(''j'', close_job Cancelled None None None 5 ?j3)]\<rparr>"
  have "sql_create (js_jobs no_jobs) ?r = Inr [(''j'', ?r)]"
    by (simp add: sql_create_def no_jobs_def create_queued_job_def slot_taken_def)
  from api_step.Create [OF _ this] have a: "api_step False no_jobs ?a" by (simp add: no_jobs_def)
  have b: "api_step False ?a ?b"
    using api_step.Claim [of ?a "''j''" None "Some ''w''" 2] by (simp add: sql_claim_def sql_update_def create_queued_job_def)
  have c: "api_step False ?b ?c"
    using api_step.Log_Read [of ?b "''j''" ?j1] by (simp add: sql_get_def stamp_visible_def)
  have d: "api_step False ?c ?d"
    using api_step.Touch [of ?c "''w''" 3]
    by (simp add: sql_touch_def sql_update_def holds_def start_job_def create_queued_job_def text_given_def)
  have e: "api_step False ?d ?e"
    using api_step.Log_Save [of ?j1 ?d "?j1\<lparr>jb_locked_at := Some 3\<rparr>" "''info''" "''m''" 4 "[(''j'', ?j3)]"]
    by (simp add: save_log_def sql_save_def with_log_def start_job_def create_queued_job_def)
  have f: "api_step False ?e ?f"
    using api_step.Cancel [of ?e "''j''" 5]
    by (simp add: mark_cancelled_def sql_cas_def sql_update_def unfinished_def with_log_def start_job_def create_queued_job_def Let_def)
  have r1: "(api_step False)\<^sup>*\<^sup>* no_jobs ?b" using a b by (meson converse_rtranclp_into_rtranclp r_into_rtranclp)
  have r2: "(api_step False)\<^sup>*\<^sup>* ?b ?f" using c d e f by (meson converse_rtranclp_into_rtranclp r_into_rtranclp)
  have jb: "map_of (js_jobs ?b) ''j'' = Some ?j1" and jf: "map_of (js_jobs ?f) ''j'' = Some (close_job Cancelled None None None 5 ?j3)"
    by simp_all
  note m = jobs_monotone [OF on_time_any [OF r1] on_time_any [OF r2] jb jf]
  have m3: "moves ?j1 (close_job Cancelled None None None 5 ?j3)"
    by (rule m [THEN conjunct2, THEN conjunct2, THEN mp, OF conjI [OF r1 r2]])
  have st: "jb_status ?j1 = Running" "jb_status (close_job Cancelled None None None 5 ?j3) = Cancelled"
    "jb_log_body (close_job Cancelled None None None 5 ?j3) \<noteq> []"
    by (simp_all add: close_job_def with_log_def Let_def format_job_log_line_def)
  show ?thesis
    by (intro exI conjI, rule jb, rule jf, rule st, rule st, rule st, rule m [THEN conjunct1],
        rule m [THEN conjunct2, THEN conjunct1], rule m3)
qed

section \<open>The sweeps\<close>

lemma newest_first_mset: "mset (newest_first js) = mset js"
  by (simp add: newest_first_def)

lemma running_jobs_rows: "running_jobs t = newest_first (filter (\<lambda>j. jb_status j = Running) (map snd t))"
proof -
  have "passes (no_filter\<lparr>jf_status := Some Running\<rparr>) = (\<lambda>j. jb_status j = Running)"
    by (rule ext) (auto simp: passes_def no_filter_def wanted_def wanted_opt_def stamp_visible_def)
  then show ?thesis by (simp add: running_jobs_def sql_list_mem mem_list_def page_def Let_def)
qed

lemma running_jobs_set: "set (running_jobs t) = {j \<in> snd ` set t. jb_status j = Running}"
  by (auto simp: running_jobs_rows newest_first_def)

lemma keyed_ids: "keyed t \<Longrightarrow> map jb_id (map snd t) = map fst t"
  by (auto simp: keyed_def)

lemma running_jobs_distinct:
  assumes "keyed t"
  shows "distinct (map jb_id (filter P (running_jobs t)))"
proof -
  have "distinct (map jb_id (map snd t))" using assms by (simp only: keyed_ids) (simp add: keyed_def)
  then have "distinct (map jb_id (filter (\<lambda>j. jb_status j = Running) (map snd t)))" by (rule distinct_map_filter)
  moreover have "mset (map jb_id (running_jobs t)) = mset (map jb_id (filter (\<lambda>j. jb_status j = Running) (map snd t)))"
    by (simp only: mset_map running_jobs_rows newest_first_mset)
  ultimately have "distinct (map jb_id (running_jobs t))" using mset_eq_imp_distinct_iff by metis
  then show ?thesis by (rule distinct_map_filter)
qed

lemma running_jobs_in:
  assumes "keyed t"
  shows "r \<in> set (running_jobs t) \<longleftrightarrow> map_of t (jb_id r) = Some r \<and> jb_status r = Running"
proof -
  have "r \<in> snd ` set t \<longleftrightarrow> map_of t (jb_id r) = Some r"
    using assms by (force simp: keyed_def map_of_eq_Some_iff)
  then show ?thesis by (auto simp: running_jobs_set)
qed

definition fail_those :: "string \<Rightarrow> string \<Rightarrow> int \<Rightarrow> (job \<Rightarrow> bool) \<Rightarrow> jobs \<Rightarrow> jobs" where
  "fail_those code summary now P t =
     map_jobs (\<lambda>j. if jb_status j = Running \<and> P j then close_job Failed (Some code) (Some summary) None now j else j) t"

lemma fail_each_exact:
  assumes "keyed t" and "distinct (map jb_id rs)" and "\<forall>r \<in> set rs. map_of t (jb_id r) = Some r \<and> jb_status r = Running"
  shows "fail_each code summary rs now t =
    (length rs, map (\<lambda>(i, j). (i, if i \<in> jb_id ` set rs then close_job Failed (Some code) (Some summary) None now j else j)) t)"
  using assms
proof (induction rs arbitrary: t)
  case (Cons r rs)
  let ?f = "close_job Failed (Some code) (Some summary) None now"
  have r: "map_of t (jb_id r) = Some r" "jb_status r = Running" using Cons.prems(3) by auto
  define t1 where "t1 = AList.update (jb_id r) (?f r) t"
  have m: "mark_failed t (jb_id r) code summary running_only now = (Some (?f r), t1)"
    using r by (simp add: mark_failed_def sql_cas_mem Cons.prems(1) mem_cas_def running_only_def t1_def)
  have k1: "keyed t1" unfolding t1_def by (rule keyed_update [OF Cons.prems(1)]) simp
  have t1: "t1 = map (\<lambda>(i, j). (i, if i = jb_id r then ?f r else j)) t"
    unfolding t1_def by (rule update_known [OF r(1) Cons.prems(1)])
  have "\<forall>x \<in> set rs. map_of t1 (jb_id x) = Some x \<and> jb_status x = Running"
  proof
    fix x assume x: "x \<in> set rs"
    then have "jb_id x \<in> jb_id ` set rs" by (rule imageI)
    then have "jb_id x \<noteq> jb_id r" using Cons.prems(2) by (metis distinct.simps(2) list.simps(9) list.set_map)
    then show "map_of t1 (jb_id x) = Some x \<and> jb_status x = Running" using Cons.prems(3) x by (simp add: t1_def update_conv')
  qed
  then have IH: "fail_each code summary rs now t1 =
      (length rs, map (\<lambda>(i, j). (i, if i \<in> jb_id ` set rs then ?f j else j)) t1)"
    using Cons.IH [OF k1] Cons.prems(2) by simp
  have only: "j = r" if "(jb_id r, j) \<in> set t" for j
    using that r(1) Cons.prems(1) by (auto simp: keyed_def)
  have "jb_id r \<notin> jb_id ` set rs" using Cons.prems(2) by auto
  then have "map (\<lambda>(i, j). (i, if i \<in> jb_id ` set rs then ?f j else j)) t1 =
      map (\<lambda>(i, j). (i, if i \<in> jb_id ` set (r # rs) then ?f j else j)) t"
    unfolding t1 map_map by (intro map_cong refl) (use only in \<open>auto split: prod.splits\<close>)
  then show ?case by (simp add: m IH)
qed simp

lemma sweep_exact:
  assumes "keyed t"
  shows "fail_each code summary (filter P (running_jobs t)) now t =
    (length (filter (\<lambda>j. jb_status j = Running \<and> P j) (map snd t)), fail_those code summary now P t)"
proof -
  let ?rs = "filter P (running_jobs t)"
  have "mset ?rs = mset (filter (\<lambda>j. jb_status j = Running \<and> P j) (map snd t))"
    by (simp add: running_jobs_rows newest_first_mset filter_filter_mset conj_commute)
  then have len: "length ?rs = length (filter (\<lambda>j. jb_status j = Running \<and> P j) (map snd t))" by (rule mset_eq_length)
  have "i \<in> jb_id ` set ?rs \<longleftrightarrow> jb_status j = Running \<and> P j" if "(i, j) \<in> set t" for i j
  proof -
    have i: "map_of t i = Some j" "jb_id j = i" using that assms by (auto simp: keyed_def)
    have r: "x \<in> set ?rs \<longleftrightarrow> P x \<and> map_of t (jb_id x) = Some x \<and> jb_status x = Running" for x
      by (simp only: set_filter mem_Collect_eq running_jobs_in [OF assms] conj_commute)
    show ?thesis
    proof
      assume "i \<in> jb_id ` set ?rs"
      then obtain x where x: "x \<in> set ?rs" "jb_id x = i" by blast
      then have "x = j" using i(1) by (simp only: r) simp
      then show "jb_status j = Running \<and> P j" using x(1) by (simp only: r)
    next
      assume "jb_status j = Running \<and> P j"
      then have "j \<in> set ?rs" using i by (simp only: r)
      then show "i \<in> jb_id ` set ?rs" using i(2) by blast
    qed
  qed
  then have rows: "map (\<lambda>(i, j). (i, if i \<in> jb_id ` set ?rs then close_job Failed (Some code) (Some summary) None now j else j)) t =
      fail_those code summary now P t"
    unfolding fail_those_def map_jobs_def by (intro map_cong refl) (auto split: prod.splits)
  have "fail_each code summary ?rs now t = (length ?rs,
      map (\<lambda>(i, j). (i, if i \<in> jb_id ` set ?rs then close_job Failed (Some code) (Some summary) None now j else j)) t)"
    by (rule fail_each_exact [OF assms running_jobs_distinct [OF assms]]) (simp add: running_jobs_in [OF assms])
  then show ?thesis by (simp only: len rows)
qed

lemma keyed_fail_those: "keyed t \<Longrightarrow> keyed (fail_those code summary now P t)"
  by (auto simp: fail_those_def map_jobs_def keyed_def comp_def case_prod_unfold)

text \<open>C18: the reaper fails exactly the running jobs whose occupancy is stale, as lost, and of the other
  running jobs exactly those past their time limit, as timed out; every other row stays as it is; and it returns how many
  it failed.\<close>
theorem reap_exact:
  assumes "keyed t"
  shows "reap_stuck_running_jobs lost_sec now t =
    (length (filter (\<lambda>j. jb_status j = Running \<and> (stale lost_sec now j \<or> overdue now j)) (map snd t)),
     map_jobs (\<lambda>j. if jb_status j \<noteq> Running then j
       else if stale lost_sec now j
       then close_job Failed (Some error_worker_lost) (Some ''Worker lost: occupancy declaration stale'') None now j
       else if overdue now j
       then close_job Failed (Some error_running_timeout) (Some ''Job exceeded running time limit'') None now j
       else j) t)"
proof -
  let ?t1 = "fail_those error_worker_lost ''Worker lost: occupancy declaration stale'' now (stale lost_sec now) t"
  have a: "reap_stale_occupancy lost_sec now t =
      (length (filter (\<lambda>j. jb_status j = Running \<and> stale lost_sec now j) (map snd t)), ?t1)"
    unfolding reap_stale_occupancy_def by (rule sweep_exact [OF assms])
  have b: "reap_running_timeouts now ?t1 =
      (length (filter (\<lambda>j. jb_status j = Running \<and> overdue now j) (map snd ?t1)),
       fail_those error_running_timeout ''Job exceeded running time limit'' now (overdue now) ?t1)"
    unfolding reap_running_timeouts_def by (rule sweep_exact [OF keyed_fail_those [OF assms]])
  have "length (filter (\<lambda>j. jb_status j = Running \<and> stale lost_sec now j) (map snd u)) +
      length (filter (\<lambda>j. jb_status j = Running \<and> overdue now j)
        (map snd (fail_those error_worker_lost summary now (stale lost_sec now) u))) =
      length (filter (\<lambda>j. jb_status j = Running \<and> (stale lost_sec now j \<or> overdue now j)) (map snd u))" for summary u
    by (induction u) (auto simp: fail_those_def map_jobs_def)
  moreover have "fail_those error_running_timeout ''Job exceeded running time limit'' now (overdue now) ?t1 =
      map_jobs (\<lambda>j. if jb_status j \<noteq> Running then j
       else if stale lost_sec now j
       then close_job Failed (Some error_worker_lost) (Some ''Worker lost: occupancy declaration stale'') None now j
       else if overdue now j
       then close_job Failed (Some error_running_timeout) (Some ''Job exceeded running time limit'') None now j
       else j) t"
    unfolding fail_those_def map_jobs_def map_map by (intro map_cong refl) (simp add: case_prod_unfold)
  ultimately show ?thesis by (simp add: reap_stuck_running_jobs_def a b)
qed

theorem reap_exact_witness:
  "fst (reap_stuck_running_jobs 60 100000000
    [(''j'', (create_queued_job ''j'' ''k'' [] None [] None None [] None (Some 5) None 0)\<lparr>jb_status := Running, jb_started_at := Some 94000000, jb_locked_at := Some 94000000\<rparr>)]) = 1"
proof -
  have "keyed [(''j'', (create_queued_job ''j'' ''k'' [] None [] None None [] None (Some 5) None 0)\<lparr>jb_status := Running, jb_started_at := Some 94000000, jb_locked_at := Some 94000000\<rparr>)]"
    by (simp add: keyed_def create_queued_job_def)
  from reap_exact [OF this] show ?thesis
    by (simp add: create_queued_job_def stale_def occupancy_at_def overdue_def started_or_created_def)
qed

section \<open>The log append between two transactions\<close>

text \<open>The append reads the job in one transaction and writes the whole row back in
  another. A cancellation in between (which succeeds and answers with the cancelled job) is undone: the
  job is running again, without an end, and a later success is accepted.\<close>
theorem log_race:
  assumes "keyed t" and "map_of t i = Some j" and "jb_status j = Running" and "jb_finished_at j = None"
  shows "\<exists>u v. mark_cancelled t i now = (Some (close_job Cancelled None None None now j), u) \<and>
    append_job_log_over t u i level message later = Some v \<and>
    map_option jb_status (map_of v i) = Some Running \<and> map_option jb_finished_at (map_of v i) = Some None \<and>
    map_option jb_status (fst (mark_succeeded v i res later2)) = Some Succeeded"
proof -
  let ?u = "AList.update i (close_job Cancelled None None None now j) t"
  have id: "jb_id j = i" by (rule keyed_id [OF assms(1,2)])
  have c: "mark_cancelled t i now = (Some (close_job Cancelled None None None now j), ?u)"
    using assms by (simp add: mark_cancelled_def sql_cas_mem mem_cas_def unfinished_def)
  have ku: "keyed ?u" using assms(1) id by (intro keyed_update) simp_all
  define r where "r = with_log (format_job_log_line level message later) later j
      \<lparr>jb_kind := jb_kind (close_job Cancelled None None None now j), jb_created_by := jb_created_by (close_job Cancelled None None None now j),
       jb_created_at := jb_created_at (close_job Cancelled None None None now j)\<rparr>"
  have w: "jb_id (with_log line later j) = i" for line using id by (simp add: with_log_def)
  have r: "jb_id r = i" "jb_status r = Running" "jb_finished_at r = None"
    using id assms(3,4) by (simp_all add: r_def with_log_def)
  have a: "append_job_log_over t ?u i level message later = Some (AList.update i r ?u)"
    using assms(2) by (simp add: append_job_log_over_def save_log_def sql_get_def stamp_visible_def sql_save_def w update_conv' r_def)
  have "keyed (AList.update i r ?u)" using ku r(1) by (rule keyed_update)
  then have "map_option jb_status (fst (mark_succeeded (AList.update i r ?u) i res later2)) = Some Succeeded"
    using r by (simp add: mark_succeeded_def sql_cas_mem mem_cas_def update_conv' running_only_def)
  then show ?thesis using c a r by (simp add: update_conv')
qed

theorem log_race_witness:
  "\<exists>u v. append_job_log_over [(''j'', start_job None None 1 (create_queued_job ''j'' ''k'' [] None [] None None [] None None None 0))] u ''j'' ''info'' ''m'' 3 = Some v \<and>
     map_option jb_status (map_of u ''j'') = Some Cancelled \<and> map_option jb_status (map_of v ''j'') = Some Running"
proof -
  let ?j = "start_job None None 1 (create_queued_job ''j'' ''k'' [] None [] None None [] None None None 0)"
  have k: "keyed [(''j'', ?j)]" by (simp add: keyed_def create_queued_job_def)
  have m0: "map_of [(''j'', ?j)] ''j'' = Some ?j" and m1: "jb_status ?j = Running" by simp_all
  have f: "jb_finished_at ?j = None" by (simp add: start_job_def create_queued_job_def)
  obtain u v where m: "mark_cancelled [(''j'', ?j)] ''j'' 2 = (Some (close_job Cancelled None None None 2 ?j), u)"
    and a: "append_job_log_over [(''j'', ?j)] u ''j'' ''info'' ''m'' 3 = Some v" and s: "map_option jb_status (map_of v ''j'') = Some Running"
    using log_race [OF k m0 m1 f, of 2 "''info''" "''m''" 3 None 4] by blast
  have "map_option jb_status (map_of u ''j'') = Some Cancelled"
    using m by (simp add: mark_cancelled_def sql_cas_def sql_update_def Let_def create_queued_job_def unfinished_def) auto
  then show ?thesis using a s by blast
qed

end
