(* ===== verification/Due.thy ===== *)
theory Due
  imports Cron_Spec Job_Machine
begin

text \<open>
  Due ticks of scheduled tasks (\<open>backend/worker/due.py\<close>): a delivered commitment becomes a job or is skipped, over the
  schedule table (\<open>worker/schedules.py\<close>), and the minting of the job of a source
  schedule (\<open>backend/metadata/source_jobs.py\<close>) over the job table. Both tables change in one transaction; an
  exception leaves them as they were (\<open>Inl\<close>).

  The clock is the list of its readings: \<open>consume_due_tick\<close> calls itself with a fresh reading, so \<open>None\<close> is a list
  that is too short. The site's schedule timezone is \<open>site_zone\<close>, the sources are a function from ids to keys.
\<close>

section \<open>Schedules\<close>

record schedule =
  sc_id :: string
  sc_key :: string
  sc_name :: string
  sc_enabled :: bool
  sc_interval :: "int option"
  sc_cron :: "string option"
  sc_task_name :: string
  sc_args :: "json list"
  sc_kwargs :: "(string \<times> json) list"
  sc_hidden :: bool
  sc_locked :: bool
  sc_undeletable :: bool
  sc_store_only :: bool
  sc_zone :: string
  sc_owner_ref :: "string option"
  sc_last :: "int option"
  sc_next :: "int option"
  sc_timeout :: "int option"
  sc_start :: "int option"
  sc_created :: int
  sc_updated :: int
  sc_stamp :: "string option"

type_synonym schedules = "(string \<times> schedule) list"

definition keep_stamp :: "schedule \<Rightarrow> schedule option \<Rightarrow> schedule" where
  "keep_stamp r existing =
     (case existing of
        None \<Rightarrow> r
      | Some e \<Rightarrow> if sc_stamp r \<noteq> None \<or> sc_stamp e = None then r else r\<lparr>sc_stamp := sc_stamp e\<rparr>)"

definition upsert :: "schedules \<Rightarrow> schedule \<Rightarrow> schedules" where
  "upsert t r =
     (let found = (case map_of t (sc_id r) of
            Some e \<Rightarrow> Some e
          | None \<Rightarrow> List.find (\<lambda>e. sc_key e = sc_key r) (map snd t));
          i = (case found of None \<Rightarrow> sc_id r | Some e \<Rightarrow> sc_id e);
          row = r\<lparr>sc_id := i, sc_zone := (if sc_zone r = [] then ''UTC'' else sc_zone r)\<rparr>
      in AList.update i (keep_stamp row found) t)"

definition consume_due_cursor ::
  "schedules \<Rightarrow> string \<Rightarrow> int \<Rightarrow> int option \<Rightarrow> string option \<Rightarrow> int \<Rightarrow> schedule option \<times> schedules" where
  "consume_due_cursor t i last_run next_if_enabled zone now =
     (case map_of t i of
        None \<Rightarrow> (None, t)
      | Some row \<Rightarrow>
          let new = row\<lparr>sc_last := Some last_run, sc_next := (if sc_enabled row then next_if_enabled else None), sc_updated := now,
                sc_zone := (case zone of None \<Rightarrow> sc_zone row | Some z \<Rightarrow> z)\<rparr>
          in (Some new, AList.update i new t))"

section \<open>Due ticks\<close>

datatype due_outcome =
    Missing | Missing_Due_At | Disabled | No_Commitment | Not_Due | System_Ran int
  | Mint int "schedule option" int bool
  | Invalid_Due_At | Commitment_Replaced | Skip_Cross_Slot "int option" | Invalid_Cadence

text \<open>The tick of a system schedule, which carries no instant.\<close>

definition consume_system_tick ::
  "(string \<Rightarrow> zone option) \<Rightarrow> schedules \<Rightarrow> string \<Rightarrow> int \<Rightarrow> int \<Rightarrow> cron_error + due_outcome \<times> schedules" where
  "consume_system_tick zone_of t i now now2 =
     (case map_of t i of
        None \<Rightarrow> Inr (Missing, t)
      | Some r \<Rightarrow>
          if \<not> sc_store_only r then Inr (Missing_Due_At, t)
          else if \<not> sc_enabled r then Inr (Disabled, t)
          else (case sc_next r of
              None \<Rightarrow> Inr (No_Commitment, t)
            | Some next_at \<Rightarrow>
                if next_at > now then Inr (Not_Due, t)
                else ok_bind (compute_next_run_at zone_of (sc_cron r) (sc_zone r) (sc_interval r) now (sc_start r) now2)
                  (\<lambda>advanced. Inr (System_Ran now, upsert t (r\<lparr>sc_last := Some now, sc_next := Some advanced, sc_updated := now\<rparr>)))))"

definition cut_slot :: "int option \<Rightarrow> int option \<Rightarrow> int option" where
  "cut_slot slot start_at =
     (case (slot, start_at) of (Some s, Some b) \<Rightarrow> if s < cron_start_floor b then None else slot | _ \<Rightarrow> slot)"

definition later_slot :: "int option \<Rightarrow> int \<Rightarrow> bool" where
  "later_slot last_run s = (case last_run of None \<Rightarrow> True | Some l \<Rightarrow> s > l)"

type_synonym tick_result = "(cron_error + due_outcome \<times> schedules) option"

text \<open>\<open>_advance_cross_slot\<close>; \<open>again\<close> is the second \<open>consume_due_tick\<close>.\<close>

definition advance_cross_slot ::
  "(string \<Rightarrow> zone option) \<Rightarrow> string \<Rightarrow> schedules \<Rightarrow> schedule \<Rightarrow> int \<Rightarrow> int option \<Rightarrow> int option \<Rightarrow>
   (schedules \<Rightarrow> int \<Rightarrow> tick_result) \<Rightarrow> tick_result" where
  "advance_cross_slot zone_of site_zone t r now slot last_run again =
     (if \<not> sc_enabled r then Some (Inr (Skip_Cross_Slot None, t))
      else if slot \<noteq> None \<and> later_slot last_run (the slot)
      then again (upsert t (r\<lparr>sc_next := slot, sc_zone := site_zone, sc_updated := now\<rparr>)) (the slot)
      else Some (ok_bind (compute_next_run_at zone_of (sc_cron r) site_zone None now (sc_start r) now)
        (\<lambda>advanced. Inr (Skip_Cross_Slot (Some advanced),
           upsert t (r\<lparr>sc_next := Some advanced, sc_zone := site_zone, sc_updated := now\<rparr>)))))"

text \<open>\<open>consume_due_tick\<close> with an instant.\<close>

fun consume_due_tick ::
  "(string \<Rightarrow> zone option) \<Rightarrow> string \<Rightarrow> schedules \<Rightarrow> string \<Rightarrow> int \<Rightarrow> int list \<Rightarrow> tick_result" where
  "consume_due_tick zone_of site_zone t i due [] = None"
| "consume_due_tick zone_of site_zone t i due (now # later) =
     (case map_of t i of
        None \<Rightarrow> Some (Inr (Mint due None now True, t))
      | Some r \<Rightarrow>
          if sc_store_only r then Some (Inr (Invalid_Due_At, t))
          else if due > now then Some (Inr (Not_Due, t))
          else if given (sc_interval r)
          then if \<not> sc_enabled r then Some (Inr (Mint due (Some r) now True, t))
               else if sc_next r = None then Some (Inr (No_Commitment, t))
               else if Some due \<noteq> sc_next r then Some (Inr (Commitment_Replaced, t))
               else Some (Inr (Mint due (Some r) now False, t))
          else if text_set (sc_cron r)
          then (case current_cron_slot_instant zone_of (the (sc_cron r)) site_zone now of
              Inl e \<Rightarrow> Some (Inl e)
            | Inr found \<Rightarrow>
                let slot = cut_slot found (sc_start r)
                in if slot = Some due \<and> later_slot (sc_last r) due
                   then Some (Inr (Mint due (Some r) now (\<not> sc_enabled r), t))
                   else advance_cross_slot zone_of site_zone t r now slot (sc_last r)
                     (\<lambda>t1 s. consume_due_tick zone_of site_zone t1 i s later))
          else Some (Inr (Invalid_Cadence, t)))"

definition commit_due_mint ::
  "(string \<Rightarrow> zone option) \<Rightarrow> string \<Rightarrow> schedules \<Rightarrow> schedule \<Rightarrow> int \<Rightarrow> int option \<Rightarrow> int \<Rightarrow>
   cron_error + schedule option \<times> schedules" where
  "commit_due_mint zone_of site_zone t r now mint_at now2 =
     (let consumed_at = (case mint_at of None \<Rightarrow> now | Some m \<Rightarrow> m);
          interval = given (sc_interval r);
          zone = (if interval then None else Some site_zone)
      in ok_bind
        (if interval
         then (case sc_start r of
                 Some s \<Rightarrow> Inr (next_interval_grid_point s (the (sc_interval r)) now)
               | None \<Rightarrow> Inr (consumed_at + the (sc_interval r) * 1000000))
         else compute_next_run_at zone_of (sc_cron r) site_zone None consumed_at (sc_start r) now)
        (\<lambda>nxt. Inr (consume_due_cursor t (sc_id r) consumed_at (Some (if nxt < now then now else nxt)) zone now2)))"

section \<open>Minting the job of a source\<close>

datatype mint_status = Queued_Job string | Cancelled_Job string | Already_Minted string

definition minted_job ::
  "(string \<Rightarrow> string option) \<Rightarrow> string \<Rightarrow> string \<Rightarrow> string \<Rightarrow> string option \<Rightarrow> int \<Rightarrow> int \<Rightarrow> schedule option \<Rightarrow> job" where
  "minted_job sources new_id kind schedule_id source_id scheduled_for now cadence =
     (let target = text_set source_id;
          source_key = (if target then (case sources (the source_id) of Some k \<Rightarrow> k | None \<Rightarrow> the source_id) else ''(missing target)'')
      in create_queued_job new_id kind (if target then [(''source_id'', JStr (the source_id))] else []) None
           (kind @ '' '' @ [CHR 0xB7] @ '' '' @ source_key) (Some ''schedule'') (Some schedule_id)
           (format_job_log_line ''info'' (''queued for source '' @ source_key) now)
           (Some scheduled_for) (case cadence of None \<Rightarrow> None | Some r \<Rightarrow> sc_timeout r)
           (if target then source_id else None) now)"

definition mint_on_session ::
  "(string \<Rightarrow> zone option) \<Rightarrow> string \<Rightarrow> (string \<Rightarrow> string option) \<Rightarrow> string \<Rightarrow> string \<Rightarrow> string \<Rightarrow> string option \<Rightarrow> int \<Rightarrow> int \<Rightarrow> bool \<Rightarrow>
   schedule option \<Rightarrow> int \<Rightarrow> schedules \<Rightarrow> jobs \<Rightarrow> cron_error + mint_status \<times> schedules \<times> jobs" where
  "mint_on_session zone_of site_zone sources new_id kind schedule_id source_id scheduled_for now cancel cadence now2 t js =
     (let created = sql_create js (minted_job sources new_id kind schedule_id source_id scheduled_for now cadence);
          js1 = (case created of Inl _ \<Rightarrow> js | Inr js1 \<Rightarrow> js1);
          already = (case created of Inl _ \<Rightarrow> True | Inr _ \<Rightarrow> False);
          job_id = (case created of Inl i \<Rightarrow> i | Inr _ \<Rightarrow> new_id)
      in case sql_get js1 job_id None of
          None \<Rightarrow> Inr (Already_Minted job_id, t, js)
        | Some j \<Rightarrow>
            ok_bind (case cadence of
                None \<Rightarrow> Inr t
              | Some r \<Rightarrow> ok_bind (commit_due_mint zone_of site_zone t r now (Some (if already then jb_created_at j else now)) now2)
                  (\<lambda>x. Inr (snd x)))
              (\<lambda>t1.
                if (cancel \<or> cadence = None \<or> \<not> text_set source_id) \<and> jb_status j \<notin> terminal
                then Inr (Cancelled_Job job_id, t1, snd (mark_cancelled js1 job_id now2))
                else Inr (if already then Already_Minted job_id else Queued_Job job_id, t1, js1)))"

definition target_source_id :: "string option \<Rightarrow> schedule option \<Rightarrow> string option" where
  "target_source_id task_source_id r =
     (if text_set task_source_id then task_source_id
      else case r of
          None \<Rightarrow> None
        | Some rec \<Rightarrow> (case map_of (sc_kwargs rec) ''source_id'' of
              Some (JStr s) \<Rightarrow> if s \<noteq> [] then Some s else None
            | _ \<Rightarrow> None))"

text \<open>The transaction of a delivery: \<open>Inl\<close> is a skipped tick.\<close>

definition decide_and_mint ::
  "(string \<Rightarrow> zone option) \<Rightarrow> string \<Rightarrow> (string \<Rightarrow> string option) \<Rightarrow> string \<Rightarrow> string \<Rightarrow> string \<Rightarrow> string option \<Rightarrow> int \<Rightarrow> int list \<Rightarrow> int \<Rightarrow>
   schedules \<Rightarrow> jobs \<Rightarrow> (cron_error + (due_outcome + mint_status) \<times> schedules \<times> jobs) option" where
  "decide_and_mint zone_of site_zone sources new_id kind schedule_id source_id due readings now2 t js =
     (case consume_due_tick zone_of site_zone t schedule_id due readings of
        None \<Rightarrow> None
      | Some (Inl e) \<Rightarrow> Some (Inl e)
      | Some (Inr (Mint scheduled_for r now cancel, t1)) \<Rightarrow>
          (let target = target_source_id source_id r
           in Some (ok_bind
                (mint_on_session zone_of site_zone sources new_id kind schedule_id target scheduled_for now
                   (cancel \<or> target = None) r now2 t1 js)
                (\<lambda>(st, t2, js2). Inr (Inr st, t2, js2))))
      | Some (Inr (other, t1)) \<Rightarrow> Some (Inr (Inl other, t1, js)))"

section \<open>What a consumed tick promises\<close>

lemma upsert_known:
  assumes "map_of t i = Some e" and "sc_id e = i" and "sc_id r = i"
  shows "\<exists>row. map_of (upsert t r) i = Some row \<and> sc_id row = i \<and> sc_interval row = sc_interval r \<and> sc_enabled row = sc_enabled r \<and>
    sc_last row = sc_last r \<and> sc_next row = sc_next r"
  using assms by (auto simp: upsert_def keep_stamp_def Let_def update_conv')

text \<open>Where a tick mints, the row was enabled or the job is cancelled at once, and the instant is past.\<close>

lemma tick_mint:
  assumes "consume_due_tick zo sz t i due readings = Some (Inr (Mint d (Some r) now c, t1))"
    and "\<And>e. map_of t i = Some e \<Longrightarrow> sc_id e = i"
  shows "map_of t1 i = Some r \<and> sc_id r = i \<and> d \<le> now \<and> (\<not> c \<longrightarrow> sc_enabled r) \<and> (\<not> given (sc_interval r) \<longrightarrow> text_set (sc_cron r))"
  using assms
proof (induction readings arbitrary: t due)
  case (Cons n ns)
  obtain e where e: "map_of t i = Some e" using Cons.prems(1) by (cases "map_of t i") auto
  have id: "sc_id e = i" using Cons.prems(2) e by simp
  show ?case
  proof (cases "given (sc_interval e)")
    case True
    then show ?thesis using Cons.prems(1) e id by (auto split: if_splits)
  next
    case False
    note f = Cons.prems(1) [simplified, unfolded e option.case]
    show ?thesis
    proof (cases "current_cron_slot_instant zo (the (sc_cron e)) sz n")
      case (Inr found)
      let ?slot = "cut_slot found (sc_start e)"
      show ?thesis
      proof (cases "?slot = Some due \<and> later_slot (sc_last e) due")
        case True
        then show ?thesis using f e id False Inr by (auto simp: Let_def split: if_splits)
      next
        case no: False
        then have "consume_due_tick zo sz (upsert t (e\<lparr>sc_next := ?slot, sc_zone := sz, sc_updated := n\<rparr>)) i (the ?slot) ns =
            Some (Inr (Mint d (Some r) now c, t1))"
          using f False Inr by (auto simp: Let_def advance_cross_slot_def opt_simps split: if_splits)
        moreover have "sc_id x = i" if "map_of (upsert t (e\<lparr>sc_next := ?slot, sc_zone := sz, sc_updated := n\<rparr>)) i = Some x" for x
          using upsert_known [OF e id, of "e\<lparr>sc_next := ?slot, sc_zone := sz, sc_updated := n\<rparr>"] id that by auto
        ultimately show ?thesis by (rule Cons.IH)
      qed
    qed (use f False in \<open>auto split: if_splits\<close>)
  qed
qed simp

text \<open>A row that has consumed everything up to an instant only mints later ones.\<close>

definition consumed :: "schedule \<Rightarrow> int \<Rightarrow> bool" where
  "consumed r d \<longleftrightarrow> sc_enabled r \<and> (if given (sc_interval r) then \<exists>n. sc_next r = Some n \<and> d < n else \<exists>l. sc_last r = Some l \<and> d \<le> l)"

lemma tick_later:
  assumes "map_of t i = Some r" and "sc_id r = i" and "consumed r d"
    and "consume_due_tick zo sz t i due readings = Some (Inr (Mint d' x now c, t1))"
  shows "d < d'"
  using assms
proof (induction readings arbitrary: t r due)
  case (Cons n ns)
  show ?case
  proof (cases "given (sc_interval r)")
    case True
    then show ?thesis using Cons.prems by (auto simp: consumed_def split: if_splits)
  next
    case False
    then obtain l where l: "sc_last r = Some l" "d \<le> l" "sc_enabled r" using Cons.prems(3) by (auto simp: consumed_def)
    note f = Cons.prems(4) [simplified, unfolded Cons.prems(1) option.case]
    show ?thesis
    proof (cases "current_cron_slot_instant zo (the (sc_cron r)) sz n")
      case (Inr found)
      let ?slot = "cut_slot found (sc_start r)"
      show ?thesis
      proof (cases "?slot = Some due \<and> later_slot (sc_last r) due")
        case True
        then show ?thesis using f l False Inr by (auto simp: Let_def later_slot_def split: if_splits)
      next
        case no: False
        let ?t = "upsert t (r\<lparr>sc_next := ?slot, sc_zone := sz, sc_updated := n\<rparr>)"
        have "consume_due_tick zo sz ?t i (the ?slot) ns = Some (Inr (Mint d' x now c, t1))"
          using f no False Inr l by (auto simp: Let_def advance_cross_slot_def opt_simps split: if_splits)
        moreover obtain row where "map_of ?t i = Some row" "sc_id row = i" "consumed row d"
          using upsert_known [OF Cons.prems(1,2), of "r\<lparr>sc_next := ?slot, sc_zone := sz, sc_updated := n\<rparr>"] Cons.prems(2) l False
          by (auto simp: consumed_def)
        ultimately show ?thesis using Cons.IH by blast
      qed
    qed (use f False in \<open>auto split: if_splits\<close>)
  qed
qed simp

lemma commit_consumes:
  assumes "commit_due_mint zo sz t r now mint_at now2 = Inr (Some r', t2)" and "map_of t i = Some r" and "sc_id r = i"
    and "sc_enabled r" and "d \<le> now" and "\<forall>m. mint_at = Some m \<longrightarrow> d \<le> m"
  shows "map_of t2 i = Some r' \<and> sc_id r' = i \<and> consumed r' d"
proof -
  define used_at where "used_at = (case mint_at of None \<Rightarrow> now | Some m \<Rightarrow> m)"
  have le: "d \<le> used_at" using assms(5,6) by (auto simp: used_at_def split: option.split)
  obtain nxt z where n: "consume_due_cursor t i used_at (Some (if nxt < now then now else nxt)) z now2 = (Some r', t2)"
    and later: "given (sc_interval r) \<Longrightarrow> d < nxt"
  proof (cases "given (sc_interval r)")
    case True
    then obtain sec where sec: "sc_interval r = Some sec" "0 < sec" by (auto simp: given_def split: option.splits)
    show ?thesis
    proof (cases "sc_start r")
      case None
      show ?thesis
        by (rule that [of "used_at + sec * 1000000" None])
          (use assms(1,3) True None sec le in \<open>simp_all add: commit_due_mint_def Let_def used_at_def [symmetric]\<close>)
    next
      case (Some s)
      have "d < next_interval_grid_point s sec now" using grid_point_exact [OF sec(2), of s now] assms(5) by simp
      then show ?thesis
        by (intro that [of "next_interval_grid_point s sec now" None])
          (use assms(1,3) True Some sec in \<open>simp_all add: commit_due_mint_def Let_def used_at_def [symmetric]\<close>)
    qed
  next
    case False
    then obtain nxt where "consume_due_cursor t i used_at (Some (if nxt < now then now else nxt)) (Some sz) now2 = (Some r', t2)"
      using assms(1,3) by (auto simp: commit_due_mint_def Let_def used_at_def [symmetric] opt_simps)
    then show ?thesis using that False by blast
  qed
  have "r' = r\<lparr>sc_last := Some used_at, sc_next := Some (if nxt < now then now else nxt), sc_updated := now2,
        sc_zone := (case z of None \<Rightarrow> sc_zone r | Some z \<Rightarrow> z)\<rparr>" "map_of t2 i = Some r'"
    using n assms(2,4) by (auto simp: consume_due_cursor_def Let_def update_conv')
  moreover have "d < (if nxt < now then now else nxt)" if "given (sc_interval r)" using later [OF that] by simp
  ultimately show ?thesis using assms(3,4) le by (simp add: consumed_def)
qed

text \<open>C22: once a tick of an enabled schedule has minted an instant and the mint is committed, no delivery, of whatever
  instant and at whatever time, mints that instant or an earlier one again.\<close>
theorem consumed_once:
  assumes "consume_due_tick zo sz t i due readings = Some (Inr (Mint d (Some r) now False, t1))"
    and "\<forall>e. map_of t i = Some e \<longrightarrow> sc_id e = i"
    and "commit_due_mint zo sz t1 r now mint_at now2 = Inr (Some r', t2)"
    and "\<forall>m. mint_at = Some m \<longrightarrow> d \<le> m"
    and "consume_due_tick zo sz t2 i due2 readings2 = Some (Inr (Mint d2 r2 now3 c2, t3))"
  shows "d < d2"
proof -
  have m: "map_of t1 i = Some r" "sc_id r = i" "d \<le> now" "sc_enabled r" using tick_mint [OF assms(1)] assms(2) by auto
  have "map_of t2 i = Some r' \<and> sc_id r' = i \<and> consumed r' d"
    by (rule commit_consumes [OF assms(3) m(1,2,4,3) assms(4)])
  then show ?thesis using tick_later assms(5) by blast
qed

definition example_schedule :: schedule where
  "example_schedule = \<lparr>sc_id = ''s'', sc_key = ''k'', sc_name = ''n'', sc_enabled = True, sc_interval = Some 60, sc_cron = None,
     sc_task_name = ''t'', sc_args = [], sc_kwargs = [], sc_hidden = False, sc_locked = False, sc_undeletable = False,
     sc_store_only = False, sc_zone = ''UTC'', sc_owner_ref = None, sc_last = None, sc_next = Some 100, sc_timeout = None,
     sc_start = None, sc_created = 0, sc_updated = 0, sc_stamp = None\<rparr>"

theorem consumed_once_witness:
  "\<exists>r1 r2 t2. commit_due_mint (\<lambda>_. None) ''UTC'' [(''s'', example_schedule)] example_schedule 100 None 101 = Inr (Some r1, t2) \<and>
     consume_due_tick (\<lambda>_. None) ''UTC'' t2 ''s'' 60000100 [60000200] = Some (Inr (Mint 60000100 (Some r2) 60000200 False, t2)) \<and>
     (100 :: int) < 60000100"
proof -
  let ?t = "[(''s'', example_schedule)]"
  let ?r = "example_schedule\<lparr>sc_last := Some 100, sc_next := Some 60000100, sc_updated := 101\<rparr>"
  have a: "consume_due_tick (\<lambda>_. None) ''UTC'' ?t ''s'' 100 [100] = Some (Inr (Mint 100 (Some example_schedule) 100 False, ?t))"
    by (simp add: example_schedule_def given_def)
  have c: "commit_due_mint (\<lambda>_. None) ''UTC'' ?t example_schedule 100 None 101 = Inr (Some ?r, [(''s'', ?r)])"
    by (simp add: commit_due_mint_def example_schedule_def given_def consume_due_cursor_def Let_def)
  have b: "consume_due_tick (\<lambda>_. None) ''UTC'' [(''s'', ?r)] ''s'' 60000100 [60000200] =
      Some (Inr (Mint 60000100 (Some ?r) 60000200 False, [(''s'', ?r)]))"
    by (simp add: example_schedule_def given_def)
  have k: "\<forall>e. map_of ?t ''s'' = Some e \<longrightarrow> sc_id e = ''s''" by (simp add: example_schedule_def)
  have m: "\<forall>m. None = Some m \<longrightarrow> 100 \<le> (m :: int)" by simp
  show ?thesis using consumed_once [OF a k c m b] b c by blast
qed

section \<open>One job per slot\<close>

text \<open>Deliveries, calls of the job API and edits of schedules, in any order.\<close>

inductive due_step :: "schedules \<times> job_system \<Rightarrow> schedules \<times> job_system \<Rightarrow> bool" where
  Api: "any_step s s' \<Longrightarrow> due_step (t, s) (t, s')"
| Edit: "due_step (t, s) (t', s)"
| Deliver: "new_id \<notin> js_used s \<Longrightarrow>
    decide_and_mint zo sz sources new_id kind schedule_id source_id due readings now2 t (js_jobs s) = Some (Inr (res, t2, js2)) \<Longrightarrow>
    due_step (t, s) (t2, s\<lparr>js_jobs := js2, js_used := insert new_id (js_used s)\<rparr>)"

definition slot_inv :: "job_system \<Rightarrow> bool" where
  "slot_inv s \<longleftrightarrow> system_ok same_trigger s \<and> slots_ok (js_jobs s)"

lemma api_slot_inv: "any_step s s' \<Longrightarrow> slot_inv s \<Longrightarrow> slot_inv s'"
proof -
  assume st: "any_step s s'" and inv: "slot_inv s"
  have k: "keeps_rows same_trigger s s'" using any_step_keeps [OF st] inv by (simp add: slot_inv_def)
  obtain overtaken where "api_step overtaken s s'" using st by (auto simp: any_step_def)
  then have "slots_ok (js_jobs s')"
  proof cases
    case (Create i kind input by_user summary tk tr log_body slot limit_sec stamp now t)
    then show ?thesis using slots_create inv by (auto simp: slot_inv_def system_ok_def)
  qed (use slots_in_place [OF k] inv in \<open>simp_all add: slot_inv_def\<close>)
  then show ?thesis using k by (simp add: slot_inv_def keeps_rows_def)
qed

lemma used_more: "slot_inv s \<Longrightarrow> slot_inv (s\<lparr>js_used := insert i (js_used s)\<rparr>)"
  by (auto simp: slot_inv_def system_ok_def)

lemma mint_on_session_inv:
  assumes "slot_inv s" and "new_id \<notin> js_used s"
    and "mint_on_session zo sz sources new_id kind schedule_id source_id d now cancel cadence now2 t (js_jobs s) = Inr (st, t2, js2)"
  shows "slot_inv (s\<lparr>js_jobs := js2, js_used := insert new_id (js_used s)\<rparr>)"
proof -
  define r where "r = minted_job sources new_id kind schedule_id source_id d now cadence"
  define js1 where "js1 = (case sql_create (js_jobs s) r of Inl _ \<Rightarrow> js_jobs s | Inr js1 \<Rightarrow> js1)"
  define s1 where "s1 = s\<lparr>js_jobs := js1, js_used := insert new_id (js_used s)\<rparr>"
  have inv1: "slot_inv s1"
  proof (cases "sql_create (js_jobs s) r")
    case (Inl e)
    then show ?thesis using used_more [OF assms(1), of new_id] by (simp add: s1_def js1_def)
  next
    case (Inr js)
    then have "api_step False s (s\<lparr>js_jobs := js, js_used := insert new_id (js_used s)\<rparr>)"
      unfolding r_def minted_job_def Let_def by (rule api_step.Create [OF assms(2)])
    then have "any_step s s1" using Inr by (auto simp: any_step_def s1_def js1_def)
    then show ?thesis using assms(1) by (rule api_slot_inv)
  qed
  have "js2 = js1 \<or> js2 = js_jobs s \<or> (\<exists>i. js2 = snd (mark_cancelled js1 i now2))"
    using assms(3) unfolding mint_on_session_def Let_def r_def [symmetric] js1_def [symmetric]
    by (auto simp: opt_simps split: option.splits if_splits)
  then show ?thesis
  proof (elim disjE exE)
    assume "js2 = js1" then show ?thesis using inv1 by (simp add: s1_def)
  next
    assume "js2 = js_jobs s" then show ?thesis using used_more [OF assms(1), of new_id] by simp
  next
    fix i assume j: "js2 = snd (mark_cancelled js1 i now2)"
    have "any_step s1 (s1\<lparr>js_jobs := snd (mark_cancelled (js_jobs s1) i now2)\<rparr>)"
      unfolding any_step_def by (blast intro: api_step.Cancel)
    from api_slot_inv [OF this inv1] show ?thesis by (cases s) (simp add: j s1_def)
  qed
qed

lemma due_slot_inv: "due_step x y \<Longrightarrow> slot_inv (snd x) \<Longrightarrow> slot_inv (snd y)"
proof (induction rule: due_step.induct)
  case (Deliver new_id s zo sz sources kind schedule_id source_id due readings now2 t res t2 js2)
  have same: "slot_inv (s\<lparr>js_used := insert new_id (js_used s)\<rparr>)"
    using used_more [of s new_id] Deliver.prems by simp
  obtain o1 t1 where c: "consume_due_tick zo sz t schedule_id due readings = Some (Inr (o1, t1))"
    using Deliver.hyps(2) by (auto simp: decide_and_mint_def split: option.splits sum.splits)
  show ?case
  proof (cases "\<exists>d r now c. o1 = Mint d r now c")
    case True
    then obtain d r now cc where o1: "o1 = Mint d r now cc" by blast
    obtain st where "mint_on_session zo sz sources new_id kind schedule_id (target_source_id source_id r) d now
        (cc \<or> target_source_id source_id r = None) r now2 t1 (js_jobs s) = Inr (st, t2, js2)"
      using Deliver.hyps(2) by (auto simp: decide_and_mint_def c o1 Let_def opt_simps)
    from mint_on_session_inv [OF _ Deliver.hyps(1) this] Deliver.prems show ?thesis by simp
  next
    case False
    then have "js2 = js_jobs s" using Deliver.hyps(2) by (auto simp: decide_and_mint_def c split: due_outcome.splits)
    then show ?thesis using same by simp
  qed
qed (auto intro: api_slot_inv)

text \<open>C23: whatever deliveries arrive, however often, mixed with any calls of the job API (log appends between
  whose read and write other calls fall included) and edits of schedules, there is at most one job for an instant of a schedule.\<close>
theorem one_job_per_slot:
  assumes "due_step\<^sup>*\<^sup>* (t0, no_jobs) (t, s)"
    and "map_of (js_jobs s) i = Some j" and "map_of (js_jobs s) k = Some l"
    and "jb_trigger_kind j = Some ''schedule'' \<and> jb_trigger_ref j \<noteq> None \<and> jb_scheduled_for j \<noteq> None"
    and "jb_trigger_kind l = Some ''schedule'' \<and> jb_trigger_ref l = jb_trigger_ref j \<and> jb_scheduled_for l = jb_scheduled_for j"
  shows "i = k \<and> j = l"
proof -
  have "slot_inv (snd y)" if "due_step\<^sup>*\<^sup>* x y" "slot_inv (snd x)" for x y
    using that by (induction rule: rtranclp_induct) (auto intro: due_slot_inv)
  moreover have "slot_inv no_jobs" using no_jobs_ok by (simp add: slot_inv_def slots_ok_def no_jobs_def)
  ultimately have "slots_ok (js_jobs s)" using assms(1) by (fastforce simp: slot_inv_def)
  then have "i = k" using assms(2-) unfolding slots_ok_def by metis
  then show ?thesis using assms(2,3) by simp
qed

theorem one_job_per_slot_witness:
  "\<exists>t s j. due_step\<^sup>*\<^sup>* ([(''s'', example_schedule)], no_jobs) (t, s) \<and> map_of (js_jobs s) ''j1'' = Some j \<and>
     jb_scheduled_for j = Some 100 \<and>
     (\<forall>k l. map_of (js_jobs s) k = Some l \<longrightarrow> jb_trigger_kind l = Some ''schedule'' \<and> jb_trigger_ref l = Some ''s'' \<and> jb_scheduled_for l = Some 100 \<longrightarrow>
       k = ''j1'')"
proof -
  let ?t = "[(''s'', example_schedule)]"
  let ?r = "example_schedule\<lparr>sc_last := Some 100, sc_next := Some 60000100, sc_updated := 101\<rparr>"
  let ?j = "minted_job (\<lambda>_. None) ''j1'' ''k'' ''s'' (Some ''src'') 100 100 (Some example_schedule)"
  let ?s1 = "no_jobs\<lparr>js_jobs := [(''j1'', ?j)], js_used := insert ''j1'' (js_used no_jobs)\<rparr>"
  have j: "jb_id ?j = ''j1''" "jb_trigger_kind ?j = Some ''schedule''" "jb_trigger_ref ?j = Some ''s''" "jb_scheduled_for ?j = Some 100"
    "jb_status ?j = Queued"
    by (simp_all add: minted_job_def create_queued_job_def Let_def)
  have d: "decide_and_mint (\<lambda>_. None) ''UTC'' (\<lambda>_. None) ''j1'' ''k'' ''s'' (Some ''src'') 100 [100] 101 ?t (js_jobs no_jobs) =
      Some (Inr (Inr (Queued_Job ''j1''), [(''s'', ?r)], [(''j1'', ?j)]))"
    using j by (simp add: decide_and_mint_def target_source_id_def text_set_def mint_on_session_def no_jobs_def
        sql_create_def slot_taken_def sql_get_def stamp_visible_def commit_due_mint_def consume_due_cursor_def Let_def
        example_schedule_def given_def)
  have "due_step (?t, no_jobs) ([(''s'', ?r)], ?s1)"
    by (rule due_step.Deliver [OF _ d]) (simp add: no_jobs_def)
  then have run: "due_step\<^sup>*\<^sup>* (?t, no_jobs) ([(''s'', ?r)], ?s1)" by blast
  have a: "map_of (js_jobs ?s1) ''j1'' = Some ?j" by simp
  have p: "jb_trigger_kind ?j = Some ''schedule'' \<and> jb_trigger_ref ?j \<noteq> None \<and> jb_scheduled_for ?j \<noteq> None" using j by simp
  have only: "k = ''j1''" if l: "map_of (js_jobs ?s1) k = Some l"
    "jb_trigger_kind l = Some ''schedule'' \<and> jb_trigger_ref l = Some ''s'' \<and> jb_scheduled_for l = Some 100" for k l
  proof -
    have "jb_trigger_kind l = Some ''schedule'' \<and> jb_trigger_ref l = jb_trigger_ref ?j \<and> jb_scheduled_for l = jb_scheduled_for ?j"
      using l(2) j by simp
    from one_job_per_slot [OF run a l(1) p this] show ?thesis by (rule conjunct1 [THEN sym])
  qed
  show ?thesis
    by (intro exI conjI allI impI, rule run, rule a, rule j(4), rule only)
qed

section \<open>A fire that a gap has moved\<close>

text \<open>The search moves a wall time that the clocks skip to the end of the gap. When such a fire is delivered
  within its minute, and the minute it was moved to is not itself in the expression, the tick never mints
  it: the due gate compares the wall clock with the expression, so that day's run is lost.\<close>
theorem gap_fire_lost:
  assumes "map_of t i = Some r" and "\<not> sc_store_only r" and "\<not> given (sc_interval r)" and "sc_cron r = Some expr" and "expr \<noteq> []"
    and "zone_cron_schedule zone_of expr site_zone = Inr (f, z)"
    and "due \<le> now" and "\<not> local_matches (local_time z now - local_time z now mod minute_us) f"
  shows "\<exists>res. consume_due_tick zone_of site_zone t i due (now # later) = Some res \<and>
    (\<forall>d x n c t1. res \<noteq> Inr (Mint d x n c, t1))"
  using assms
  by (auto simp: current_cron_slot_instant_def Let_def text_set_def cut_slot_def advance_cross_slot_def opt_simps
      split: option.splits)

definition gap_schedule :: schedule where
  "gap_schedule = example_schedule\<lparr>sc_interval := None, sc_cron := Some ''30 2 * * *'', sc_next := Some (739319 * day_us + 10 * hour_us)\<rparr>"

text \<open>The concrete day: the run committed for 02:30 on 2025-03-09 is due at 03:00 local time and is
  skipped to the next day when it is delivered on time.\<close>

theorem gap_fire_lost_witness:
  "compute_next_run_at (\<lambda>_. Some spring_zone) (Some ''30 2 * * *'') ''Here'' None (739319 * day_us) None 0 =
     Inr (739319 * day_us + 10 * hour_us) \<and>
   (\<exists>res. consume_due_tick (\<lambda>_. Some spring_zone) ''Here'' [(''s'', gap_schedule)] ''s'' (739319 * day_us + 10 * hour_us)
      [739319 * day_us + 10 * hour_us] = Some res \<and> (\<forall>d x n c t1. res \<noteq> Inr (Mint d x n c, t1)))"
proof -
  let ?due = "739319 * day_us + 10 * hour_us"
  have c: "compute_next_run_at (\<lambda>_. Some spring_zone) (Some ''30 2 * * *'') ''Here'' None (739319 * day_us) None 0 = Inr ?due"
    by code_simp
  have z: "zone_cron_schedule (\<lambda>_. Some spring_zone) ''30 2 * * *'' ''Here'' = Inr (at_half_past_two, spring_zone)"
    by (simp add: zone_cron_schedule_def half_past_two_parsed validate_schedule_timezone_def)
  have m: "\<not> local_matches (local_time spring_zone ?due - local_time spring_zone ?due mod minute_us) at_half_past_two"
    by code_simp
  have r: "map_of [(''s'', gap_schedule)] ''s'' = Some gap_schedule" "\<not> sc_store_only gap_schedule"
    "\<not> given (sc_interval gap_schedule)" "sc_cron gap_schedule = Some ''30 2 * * *''" "''30 2 * * *'' \<noteq> []"
    by (simp_all add: gap_schedule_def example_schedule_def given_def)
  show ?thesis using gap_fire_lost [OF r z order_refl m] c by blast
qed

end
