(* ===== verification/Access_Policy.thy ===== *)
theory Access_Policy
  imports Row_Rule Entity_Ddl
begin

text \<open>
  Access policies: the facts (\<open>entity/access/facts.py\<close>), which grants reach a person and which combinations of
  profiles get a view (\<open>combos.py\<close>), and the presentation modes of a column with their SQL (\<open>masks.py\<close>).
  A set of profile ids is the sorted list of its elements. The detail texts of \<open>ModeError\<close> are not modelled.
\<close>

section \<open>Facts\<close>

datatype mask_mode =
    Clear
  | Null_Mask
  | Partial nat nat
  | Email
  | Hash
  | Redact
  | Truncate_Date string
  | Bucket json

record level =
  lv_key :: string
  lv_mode :: mask_mode

record profile =
  pf_id :: string
  pf_key :: string
  pf_columns :: "(string \<times> string) list"

text \<open>An absent row rule is \<open>JNull\<close>.\<close>

record grant =
  gr_id :: string
  gr_subject_type :: string
  gr_subject_id :: string
  gr_profile_id :: string
  gr_rule :: json
  gr_actions :: "string list"
  gr_status :: string
  gr_valid_until :: "int option"

record restriction =
  rs_id :: string
  rs_mode :: string
  rs_subjects :: "(string \<times> string) list"
  rs_rule :: json
  rs_deny :: "string list"
  rs_ceilings :: "(string \<times> string) list"
  rs_actions :: "string list"

record person =
  pe_user :: string
  pe_role :: "string option"
  pe_groups :: "string list"

record narrow =
  na_kind :: string
  na_id :: "string option"

definition access_actions :: "string list" where
  "access_actions = [''read'', ''write'', ''export'', ''mcp_query'']"

section \<open>Grants and combinations\<close>

definition sorted_ids :: "string list \<Rightarrow> string list" where
  "sorted_ids xs = sort (remdups xs)"

definition combo_key :: "string list \<Rightarrow> string" where
  "combo_key ids = join '','' (sort ids)"

definition select_combinations :: "string list list \<Rightarrow> string list list \<Rightarrow> int \<Rightarrow> string list list \<times> string list list" where
  "select_combinations needed existing cap =
     (let multi = remdups (filter (\<lambda>s. length s \<ge> 2) needed);
          kept = sort_key combo_key (filter (\<lambda>s. s \<in> set existing) multi);
          fresh = sort_key combo_key (filter (\<lambda>s. s \<notin> set existing) multi);
          emitted = take (nat cap) (kept @ fresh)
      in (emitted, filter (\<lambda>s. s \<notin> set emitted) multi))"

definition subject_hit :: "grant \<Rightarrow> person \<Rightarrow> bool" where
  "subject_hit g p =
     (if gr_subject_type g = ''user'' then gr_subject_id g = pe_user p
      else if gr_subject_type g = ''role'' then Some (gr_subject_id g) = pe_role p
      else gr_subject_id g \<in> set (pe_groups p))"

definition grant_reaches :: "grant \<Rightarrow> person \<Rightarrow> string \<Rightarrow> narrow option \<Rightarrow> int \<Rightarrow> string set \<Rightarrow> bool" where
  "grant_reaches g p action who now broken =
     (if gr_id g \<in> broken \<or> gr_status g \<noteq> ''active'' then False
      else if action \<notin> set (gr_actions g) then False
      else if (case gr_valid_until g of None \<Rightarrow> False | Some v \<Rightarrow> now \<ge> v) then False
      else case who of
          None \<Rightarrow> subject_hit g p
        | Some n \<Rightarrow>
            if na_kind n = ''user'' then gr_subject_type g = ''user'' \<and> gr_subject_id g = pe_user p
            else if na_kind n = ''role''
            then gr_subject_type g = ''role'' \<and> Some (gr_subject_id g) = na_id n \<and> pe_role p = na_id n
            else gr_subject_type g = ''group'' \<and> Some (gr_subject_id g) = na_id n \<and>
              (case na_id n of None \<Rightarrow> False | Some i \<Rightarrow> i \<in> set (pe_groups p)))"

definition held_profiles :: "person \<Rightarrow> grant list \<Rightarrow> string \<Rightarrow> narrow option \<Rightarrow> int \<Rightarrow> string set \<Rightarrow> string list" where
  "held_profiles p grants action who now broken =
     sorted_ids (map gr_profile_id (filter (\<lambda>g. grant_reaches g p action who now broken) grants))"

definition identity_narrows :: "person \<Rightarrow> narrow option list" where
  "identity_narrows p =
     [None, Some \<lparr>na_kind = ''user'', na_id = None\<rparr>] @
     (case pe_role p of None \<Rightarrow> [] | Some r \<Rightarrow> if r = [] then [] else [Some \<lparr>na_kind = ''role'', na_id = Some r\<rparr>]) @
     map (\<lambda>g. Some \<lparr>na_kind = ''group'', na_id = Some g\<rparr>) (pe_groups p)"

section \<open>Presentation modes\<close>

definition level_key_ok :: "string \<Rightarrow> bool" where
  "level_key_ok key =
     (key \<noteq> [] \<and> length key \<le> 63 \<and> is_lower (hd key) \<and> list_all (\<lambda>c. is_lower c \<or> is_digit c \<or> c = CHR ''_'') key)"

definition mode_accepts :: "string \<Rightarrow> attr_fact \<Rightarrow> bool" where
  "mode_accepts kind a =
     (if kind = ''partial'' \<or> kind = ''email'' then value_type a \<in> {''string'', ''text''}
      else if kind \<in> {''hash'', ''redact''}
      then value_type a \<in> {''string'', ''text'', ''dictionary'', ''user''} \<or>
        (af_type a = ''reference'' \<and> af_reference_key_type a = Some ''string'')
      else if kind = ''truncate_date'' then value_type a \<in> {''date'', ''timestamp''}
      else if kind = ''bucket'' then value_type a \<in> {''integer'', ''decimal'', ''number''}
      else True)"

definition bounded_int :: "json option \<Rightarrow> nat option" where
  "bounded_int v = (case v of Some (JInt n) \<Rightarrow> if n < 0 \<or> n > 64 then None else Some (nat n) | _ \<Rightarrow> None)"

definition width_param :: "json option \<Rightarrow> json option" where
  "width_param v =
     (case v of
        Some (JInt n) \<Rightarrow> if n \<le> 0 then None else Some (JInt n)
      | Some (JFloat r) \<Rightarrow> if r \<le> 0 then None else if r \<in> \<int> then Some (JInt \<lfloor>r\<rfloor>) else Some (JFloat r)
      | _ \<Rightarrow> None)"

text \<open>\<open>None\<close> is the \<open>ModeError\<close>; a \<open>unit\<close> that is a list or an object is a \<open>TypeError\<close> in the code (it is
  looked up in a set), which is \<open>None\<close> here too.\<close>

definition validate_mode :: "json option \<Rightarrow> attr_fact \<Rightarrow> bool \<Rightarrow> mask_mode option" where
  "validate_mode mode a first =
     (if first then if mode = Some (JStr ''clear'') then Some Clear else None
      else case mode of
          Some (JObj kvs) \<Rightarrow>
            (case map_of kvs ''type'' of
               Some (JStr kind) \<Rightarrow>
                 let params = map fst (filter (\<lambda>(k, v). k \<noteq> ''type'') kvs) in
                 if kind \<notin> {''partial'', ''email'', ''hash'', ''truncate_date'', ''bucket'', ''redact'', ''null''} \<or> \<not> mode_accepts kind a
                 then None
                 else if kind = ''partial''
                 then (if set params \<noteq> {''keep_first'', ''keep_last''} then None
                       else case (bounded_int (map_of kvs ''keep_first''), bounded_int (map_of kvs ''keep_last'')) of
                           (Some f, Some l) \<Rightarrow> Some (Partial f l) | _ \<Rightarrow> None)
                 else if kind = ''truncate_date''
                 then (if set params \<noteq> {''unit''} then None
                       else case map_of kvs ''unit'' of
                           Some (JStr u) \<Rightarrow> if u \<in> {''year'', ''month'', ''day''} then Some (Truncate_Date u) else None | _ \<Rightarrow> None)
                 else if kind = ''bucket''
                 then (if set params \<noteq> {''width''} then None else map_option Bucket (width_param (map_of kvs ''width'')))
                 else if params \<noteq> [] then None
                 else Some (if kind = ''email'' then Email else if kind = ''hash'' then Hash
                   else if kind = ''redact'' then Redact else Null_Mask)
             | _ \<Rightarrow> None)
        | _ \<Rightarrow> None)"

primrec validate_level_list :: "json list \<Rightarrow> attr_fact \<Rightarrow> bool \<Rightarrow> string list \<Rightarrow> level list option" where
  "validate_level_list [] a first seen = Some []"
| "validate_level_list (item # items) a first seen =
     (case item of
        JObj kvs \<Rightarrow>
          if \<not> set (map fst kvs) \<subseteq> {''key'', ''mode''} then None
          else (case map_of kvs ''key'' of
              Some (JStr key) \<Rightarrow>
                if \<not> level_key_ok key \<or> key \<in> set seen then None
                else (case validate_mode (map_of kvs ''mode'') a first of
                    None \<Rightarrow> None
                  | Some mode \<Rightarrow>
                      if first \<and> (key \<noteq> ''clear'' \<or> mode \<noteq> Clear) \<or> \<not> first \<and> mode = Clear then None
                      else map_option ((#) \<lparr>lv_key = key, lv_mode = mode\<rparr>) (validate_level_list items a False (key # seen)))
            | _ \<Rightarrow> None)
      | _ \<Rightarrow> None)"

definition validate_levels :: "json \<Rightarrow> attr_fact \<Rightarrow> level list option" where
  "validate_levels levels a =
     (case levels of JArr items \<Rightarrow> if items = [] then None else validate_level_list items a True [] | _ \<Rightarrow> None)"

definition width_literal :: "json \<Rightarrow> string" where
  "width_literal width = (case width of JInt n \<Rightarrow> str_int n | JFloat r \<Rightarrow> dec_text (dec_of_float r) | _ \<Rightarrow> [])"

definition bucket_inline :: "string \<Rightarrow> attr_fact \<Rightarrow> string \<Rightarrow> string" where
  "bucket_inline expr a width =
     (if value_type a = ''integer''
      then ''CASE WHEN '' @ expr @ '' IS NULL OR ('' @ width @ '') <= 0 THEN NULL ELSE (floor(('' @ expr @ '')::numeric / ('' @
        width @ '')) * ('' @ width @ ''))::bigint END''
      else if value_type a = ''number''
      then ''CASE WHEN '' @ expr @ '' IS NULL OR ('' @ width @ '') <= 0 OR '' @ expr @ '' IN ('' @ quoted ''NaN'' @ ''::float8, '' @
        quoted ''Infinity'' @ ''::float8, '' @ quoted ''-Infinity'' @ ''::float8) THEN NULL ELSE (floor(('' @ expr @
        '')::numeric / ('' @ width @ '')) * ('' @ width @ ''))::float8 END''
      else ''CASE WHEN '' @ expr @ '' IS NULL OR ('' @ width @ '') <= 0 OR '' @ expr @ '' = '' @ quoted ''NaN'' @
        ''::numeric THEN NULL ELSE floor('' @ expr @ '' / ('' @ width @ '')) * ('' @ width @ '') END'')"

definition mask_sql :: "string \<Rightarrow> mask_mode \<Rightarrow> attr_fact \<Rightarrow> bool \<Rightarrow> string" where
  "mask_sql expr mode a acl =
     (let cast = ''('' @ expr @ '')::text''; null_first = ''CASE WHEN '' @ expr @ '' IS NULL THEN NULL ''
      in case mode of
        Clear \<Rightarrow> expr
      | Null_Mask \<Rightarrow> ''CAST(NULL AS '' @ pg_type a @ '')''
      | Partial f l \<Rightarrow>
          (let kf = str_nat f; kl = str_nat l
           in if acl then ''acl.mask_partial('' @ cast @ '', '' @ kf @ '', '' @ kl @ '')''
              else null_first @ ''WHEN length('' @ cast @ '') <= '' @ kf @ '' + '' @ kl @ '' THEN repeat('' @ quoted ''*'' @
                '', length('' @ cast @ '')) ELSE left('' @ cast @ '', '' @ kf @ '') || repeat('' @ quoted ''*'' @ '', length('' @
                cast @ '') - '' @ kf @ '' - '' @ kl @ '') || right('' @ cast @ '', '' @ kl @ '') END'')
      | Email \<Rightarrow>
          if acl then ''acl.mask_email('' @ cast @ '')''
          else null_first @ ''WHEN strpos('' @ cast @ '', '' @ quoted ''@'' @ '') = 0 THEN left('' @ cast @ '', 1) || '' @
            quoted ''***'' @ '' ELSE left(split_part('' @ cast @ '', '' @ quoted ''@'' @ '', 1), 1) || '' @ quoted ''***@'' @
            '' || substr('' @ cast @ '', strpos('' @ cast @ '', '' @ quoted ''@'' @ '') + 1) END''
      | Hash \<Rightarrow> ''acl.mask_hash('' @ cast @ '')''
      | Redact \<Rightarrow> if acl then ''acl.mask_redact('' @ cast @ '')'' else null_first @ ''ELSE '' @ quoted ''[redacted]'' @ '' END''
      | Truncate_Date u \<Rightarrow>
          if acl then ''acl.mask_truncate_date('' @ expr @ '', '' @ quoted u @ '')''
          else null_first @ ''ELSE date_trunc('' @ quoted u @ '', '' @ expr @ '')::'' @ pg_type a @ '' END''
      | Bucket width \<Rightarrow>
          if acl then ''acl.mask_bucket('' @ expr @ '', '' @ width_literal width @ '')''
          else bucket_inline expr a (width_literal width))"

end
