(* ===== verification/Access_Compiler.thy ===== *)
theory Access_Compiler
  imports Access_Policy
begin

text \<open>
  The policy compiler (\<open>entity/access/compiler.py\<close>): what is broken, the shapes (one per action, set of profiles
  and set of included restrictions), the plan of each column, the query of a profile view and its
  text, and the outcome for a subject. The query is built as a structure (\<open>view_query\<close>) and printed.
  \<open>sha\<close> is the hexadecimal SHA-256; ids are unique, as primary keys are.
\<close>

record access_policy =
  po_entity :: string
  po_table :: string
  po_revision :: int
  po_source :: string
  po_attributes :: "attr_fact list"
  po_ladders :: "(string \<times> level list) list"
  po_profiles :: "profile list"
  po_grants :: "grant list"
  po_restrictions :: "restriction list"
  po_people :: "person list"
  po_subject_attrs :: subject_facts
  po_subject_values :: "string \<Rightarrow> subject_values"
  po_cap :: int
  po_existing :: "string list"
  po_now :: int

record column_plan =
  cp_attr :: attr_fact
  cp_varying :: bool
  cp_withheld :: bool
  cp_modes :: "(string \<times> mask_mode) list"
  cp_levels :: "level list"

record shape =
  sh_action :: string
  sh_profiles :: "string list"
  sh_combo :: string
  sh_key :: string
  sh_grants :: "grant list"
  sh_columns :: "column_plan list"
  sh_rules :: "json list"
  sh_included :: "string list"
  sh_excluded :: "string list"
  sh_hide :: "string list"
  sh_empty :: bool
  sh_withheld :: bool
  sh_view :: string

definition attrs_by_id :: "access_policy \<Rightarrow> attr_facts" where
  "attrs_by_id po i = map_of (rev (map (\<lambda>a. (af_id a, a)) (po_attributes po))) i"

definition profile_by_id :: "access_policy \<Rightarrow> string \<Rightarrow> profile option" where
  "profile_by_id po i = map_of (rev (map (\<lambda>p. (pf_id p, p)) (po_profiles po))) i"

definition restriction_by_id :: "access_policy \<Rightarrow> string \<Rightarrow> restriction option" where
  "restriction_by_id po i = map_of (rev (map (\<lambda>r. (rs_id r, r)) (po_restrictions po))) i"

section \<open>Ladders\<close>

definition clear_level :: level where
  "clear_level = \<lparr>lv_key = ''clear'', lv_mode = Clear\<rparr>"

definition ladder :: "access_policy \<Rightarrow> string \<Rightarrow> level list" where
  "ladder po i = (case map_of (po_ladders po) i of Some (l # ls) \<Rightarrow> l # ls | _ \<Rightarrow> [clear_level])"

primrec level_index_from :: "level list \<Rightarrow> string \<Rightarrow> nat \<Rightarrow> nat option" where
  "level_index_from [] key n = None"
| "level_index_from (l # ls) key n = (if lv_key l = key then Some n else level_index_from ls key (Suc n))"

definition level_index :: "level list \<Rightarrow> string \<Rightarrow> nat" where
  "level_index ls key = (case level_index_from ls key 0 of Some n \<Rightarrow> n | None \<Rightarrow> length ls - 1)"

definition lowered_rank :: "string \<Rightarrow> level list \<Rightarrow> string list \<Rightarrow> nat" where
  "lowered_rank key ls ceilings = foldl (\<lambda>r k. if level_index ls k > r then level_index ls k else r) (level_index ls key) ceilings"

section \<open>Broken policy parts\<close>

datatype reason =
    Listed_Twice string
  | Not_In_Head string
  | Level_Missing string string
  | Profile_Missing string
  | Profile_Broken string
  | Rule_Broken string string

definition level_known :: "access_policy \<Rightarrow> string \<Rightarrow> string \<Rightarrow> bool" where
  "level_known po i key = list_ex (\<lambda>l. lv_key l = key) (ladder po i)"

definition column_reasons :: "access_policy \<Rightarrow> string \<Rightarrow> string \<Rightarrow> reason list" where
  "column_reasons po i key =
     (if attrs_by_id po i = None then [Not_In_Head i] else if \<not> level_known po i key then [Level_Missing key i] else [])"

primrec profile_column_reasons :: "access_policy \<Rightarrow> (string \<times> string) list \<Rightarrow> string list \<Rightarrow> reason list" where
  "profile_column_reasons po [] seen = []"
| "profile_column_reasons po (c # cs) seen =
     (if fst c \<in> set seen then [Listed_Twice (fst c)] else []) @ column_reasons po (fst c) (snd c) @
     profile_column_reasons po cs (fst c # seen)"

definition profile_reasons :: "access_policy \<Rightarrow> profile \<Rightarrow> reason list" where
  "profile_reasons po p = profile_column_reasons po (pf_columns p) []"

text \<open>Only the rule language's own problem is a reason; any other exception leaves the compiler.\<close>

definition rule_reasons :: "iso_parser \<Rightarrow> access_policy \<Rightarrow> json \<Rightarrow> reason list ruled" where
  "rule_reasons isop po rule =
     (if rule = JNull then Inr []
      else case validate_rule isop rule (attrs_by_id po) (po_subject_attrs po) of
          Inr _ \<Rightarrow> Inr []
        | Inl (Rule_Problem path detail) \<Rightarrow> Inr [Rule_Broken path detail]
        | Inl e \<Rightarrow> Inl e)"

definition grant_reasons :: "iso_parser \<Rightarrow> access_policy \<Rightarrow> string set \<Rightarrow> grant \<Rightarrow> reason list ruled" where
  "grant_reasons isop po broken_profiles g =
     ok_bind (rule_reasons isop po (gr_rule g)) (\<lambda>rs. Inr
       ((if profile_by_id po (gr_profile_id g) = None then [Profile_Missing (gr_profile_id g)]
         else if gr_profile_id g \<in> broken_profiles then [Profile_Broken (gr_profile_id g)] else []) @ rs))"

definition restriction_reasons :: "iso_parser \<Rightarrow> access_policy \<Rightarrow> restriction \<Rightarrow> reason list ruled" where
  "restriction_reasons isop po r =
     ok_bind (rule_reasons isop po (rs_rule r)) (\<lambda>rs. Inr
       (concat (map (\<lambda>i. if attrs_by_id po i = None then [Not_In_Head i] else []) (rs_deny r)) @
        concat (map (\<lambda>c. column_reasons po (fst c) (snd c)) (rs_ceilings r)) @ rs))"

definition broken_of :: "(string \<times> reason list) list \<Rightarrow> (string \<times> reason list) list" where
  "broken_of xs = filter (\<lambda>x. snd x \<noteq> []) xs"

definition broken_ids :: "(string \<times> reason list) list \<Rightarrow> string set" where
  "broken_ids xs = set (map fst xs)"

definition grant_warnings :: "access_policy \<Rightarrow> grant \<Rightarrow> rule_warning list" where
  "grant_warnings po g =
     (case profile_by_id po (gr_profile_id g) of
        None \<Rightarrow> []
      | Some p \<Rightarrow> if gr_rule g = JNull then [] else rule_warnings (gr_rule g) (set (map fst (pf_columns p))))"

section \<open>Restrictions\<close>

definition person_hit :: "person \<Rightarrow> string \<Rightarrow> string \<Rightarrow> bool" where
  "person_hit p kind i =
     (if kind = ''user'' then pe_user p = i else if kind = ''role'' then pe_role p = Some i else i \<in> set (pe_groups p))"

definition applies_to :: "restriction \<Rightarrow> person \<Rightarrow> bool" where
  "applies_to r p =
     (let hit = list_ex (\<lambda>(kind, i). person_hit p kind i) (rs_subjects r) in if rs_mode r = ''only'' then hit else \<not> hit)"

definition person_hidden :: "access_policy \<Rightarrow> person \<Rightarrow> string \<Rightarrow> string set \<Rightarrow> bool" where
  "person_hidden po p action broken =
     list_ex (\<lambda>r. rs_id r \<in> broken \<and> action \<in> set (rs_actions r) \<and> (rs_mode r = ''all'' \<or> applies_to r p)) (po_restrictions po)"

definition has_effect :: "restriction \<Rightarrow> bool" where
  "has_effect r = (rs_deny r \<noteq> [] \<or> rs_ceilings r \<noteq> [] \<or> rs_rule r \<noteq> JNull)"

definition included_ids :: "access_policy \<Rightarrow> person \<Rightarrow> string \<Rightarrow> string set \<Rightarrow> string list" where
  "included_ids po p action broken =
     sort (map rs_id (filter (\<lambda>r. \<not> (rs_mode r = ''all'' \<or> action \<notin> set (rs_actions r) \<or> rs_id r \<in> broken) \<and>
       applies_to r p \<and> has_effect r) (po_restrictions po)))"

text \<open>The restrictions whose columns and rules a shape takes in.\<close>

definition in_shape :: "string \<Rightarrow> string set \<Rightarrow> string list \<Rightarrow> restriction \<Rightarrow> bool" where
  "in_shape action broken included r =
     (action \<in> set (rs_actions r) \<and> rs_id r \<notin> broken \<and> (rs_mode r = ''all'' \<or> rs_id r \<in> set included))"

definition shape_denies :: "access_policy \<Rightarrow> string \<Rightarrow> string set \<Rightarrow> string list \<Rightarrow> string list" where
  "shape_denies po action broken included =
     concat (map rs_deny (filter (in_shape action broken included) (po_restrictions po)))"

definition shape_ceilings :: "access_policy \<Rightarrow> string \<Rightarrow> string set \<Rightarrow> string list \<Rightarrow> string \<Rightarrow> string list" where
  "shape_ceilings po action broken included i =
     map snd (filter (\<lambda>c. fst c = i) (concat (map rs_ceilings (filter (in_shape action broken included) (po_restrictions po)))))"

section \<open>Shapes\<close>

definition profile_level :: "access_policy \<Rightarrow> string \<Rightarrow> string \<Rightarrow> string option" where
  "profile_level po pid i =
     (case profile_by_id po pid of None \<Rightarrow> None | Some p \<Rightarrow> map_of (rev (pf_columns p)) i)"

definition levels_by_profile :: "access_policy \<Rightarrow> string list \<Rightarrow> string \<Rightarrow> (string \<times> string) list" where
  "levels_by_profile po ids i =
     concat (map (\<lambda>pid. case profile_level po pid i of None \<Rightarrow> [] | Some k \<Rightarrow> [(pid, k)]) ids)"

definition ranked_modes :: "access_policy \<Rightarrow> (string \<times> string) list \<Rightarrow> grant list \<Rightarrow> string list \<Rightarrow> string \<Rightarrow> (nat \<times> string \<times> mask_mode) list" where
  "ranked_modes po levels grants ceilings i =
     concat (map (\<lambda>g. case map_of levels (gr_profile_id g) of
         None \<Rightarrow> []
       | Some k \<Rightarrow>
           (let ls = ladder po i; l = ls ! lowered_rank k ls ceilings in [(level_index ls (lv_key l), gr_id g, lv_mode l)])) grants)"

definition column_of :: "access_policy \<Rightarrow> string list \<Rightarrow> grant list \<Rightarrow> string list \<Rightarrow> attr_fact \<Rightarrow> column_plan option" where
  "column_of po ids grants ceilings a =
     (let levels = levels_by_profile po ids (af_id a); ls = ladder po (af_id a);
          ranked = ranked_modes po levels grants ceilings (af_id a);
          missing = length levels < length ids
      in if levels = [] then None
         else Some \<lparr>cp_attr = a, cp_varying = (missing \<or> length (remdups (map snd levels)) > 1), cp_withheld = missing,
           cp_modes = map snd (sort_key (\<lambda>x. (fst x, fst (snd x))) ranked),
           cp_levels = sort_key (\<lambda>l. level_index ls (lv_key l))
             (map (\<lambda>r. ls ! r) (remdups (map fst ranked)))\<rparr>)"

definition shape_columns :: "access_policy \<Rightarrow> string list \<Rightarrow> grant list \<Rightarrow> string list \<Rightarrow> (string \<Rightarrow> string list) \<Rightarrow> column_plan list" where
  "shape_columns po ids grants denies ceilings =
     concat (map (\<lambda>a. if af_id a \<in> set denies then []
       else case column_of po ids grants (ceilings (af_id a)) a of None \<Rightarrow> [] | Some c \<Rightarrow> [c]) (po_attributes po))"

definition view_name :: "(string \<Rightarrow> string) \<Rightarrow> string \<Rightarrow> string \<Rightarrow> string \<Rightarrow> string" where
  "view_name sha stem entity key =
     (let tail = ''__p_'' @ take 8 (sha (entity @ CHR 0x0A # key))
      in if length stem + length tail \<le> 63 then stem @ tail else take (63 - length tail) stem @ tail)"

definition make_shape ::
  "(string \<Rightarrow> string) \<Rightarrow> access_policy \<Rightarrow> string set \<Rightarrow> string set \<Rightarrow> string set \<Rightarrow> string \<Rightarrow> string list \<Rightarrow> string list \<Rightarrow> shape" where
  "make_shape sha po broken_p broken_g broken_r action ids included =
     (let key = combo_key ids;
          specific = filter (\<lambda>r. rs_mode r \<noteq> ''all'' \<and> action \<in> set (rs_actions r)) (po_restrictions po);
          excluded = filter (\<lambda>i. i \<notin> set included) (map rs_id (filter (\<lambda>r. rs_id r \<notin> broken_r) specific));
          hide = map rs_id (filter (\<lambda>r. rs_id r \<in> broken_r) specific);
          force = (list_ex (\<lambda>r. rs_mode r = ''all'' \<and> action \<in> set (rs_actions r) \<and> rs_id r \<in> broken_r) (po_restrictions po) \<or>
            list_ex (\<lambda>i. i \<in> broken_p) (sort ids));
          grants = sort_key gr_id (filter (\<lambda>g. gr_profile_id g \<in> set ids \<and> gr_status g = ''active'' \<and>
            action \<in> set (gr_actions g) \<and> gr_id g \<notin> broken_g) (po_grants po));
          columns = (if force then []
            else shape_columns po (sort ids) grants (shape_denies po action broken_r included)
              (shape_ceilings po action broken_r included));
          rules = map rs_rule (filter (\<lambda>r. in_shape action broken_r included r \<and> rs_rule r \<noteq> JNull) (po_restrictions po));
          shape_key = sha (action @ ''|'' @ key @ ''|'' @ join '','' included @ ''|'' @ join '','' excluded)
      in \<lparr>sh_action = action, sh_profiles = sort ids, sh_combo = key, sh_key = shape_key, sh_grants = grants,
          sh_columns = columns, sh_rules = rules, sh_included = included, sh_excluded = excluded, sh_hide = hide,
          sh_empty = force, sh_withheld = (list_ex cp_varying columns \<and> length ids > 1),
          sh_view = view_name sha (po_table po) (po_entity po) shape_key\<rparr>)"

type_synonym shape_map = "((string \<times> string \<times> string list) \<times> shape) list"

definition set_default :: "(string \<times> string \<times> string list) \<Rightarrow> shape \<Rightarrow> shape_map \<Rightarrow> shape_map" where
  "set_default k s built = (if map_of built k \<noteq> None then built else built @ [(k, s)])"

section \<open>Compilation\<close>

record holder =
  ho_person :: person
  ho_action :: string
  ho_held :: "string list"

definition policy_holders :: "access_policy \<Rightarrow> string set \<Rightarrow> string set \<Rightarrow> holder list" where
  "policy_holders po broken_g broken_r =
     concat (map (\<lambda>p. concat (map (\<lambda>action.
       concat (map (\<lambda>who. if person_hidden po p action broken_r then []
           else [\<lparr>ho_person = p, ho_action = action, ho_held = held_profiles p (po_grants po) action who (po_now po) broken_g\<rparr>])
         (identity_narrows p))) access_actions)) (po_people po))"

definition base_shapes :: "access_policy \<Rightarrow> string list list \<Rightarrow> (string \<times> string list) list" where
  "base_shapes po emitted =
     concat (map (\<lambda>action. map (\<lambda>ids. (action, ids)) (map (\<lambda>p. [pf_id p]) (po_profiles po) @ emitted)) access_actions)"

definition all_shapes ::
  "(string \<Rightarrow> string) \<Rightarrow> access_policy \<Rightarrow> string set \<Rightarrow> string set \<Rightarrow> string set \<Rightarrow> string list list \<Rightarrow> holder list \<Rightarrow> shape list" where
  "all_shapes sha po broken_p broken_g broken_r emitted holders =
     (let make = make_shape sha po broken_p broken_g broken_r;
          built = foldl (\<lambda>b (action, ids). set_default (action, combo_key ids, []) (make action ids []) b) [] (base_shapes po emitted)
      in map snd (foldl (\<lambda>b h.
           let included = included_ids po (ho_person h) (ho_action h) broken_r
           in if ho_held h = [] \<or> (length (ho_held h) \<ge> 2 \<and> combo_key (ho_held h) \<notin> set (map combo_key emitted)) \<or> included = []
              then b
              else set_default (ho_action h, combo_key (ho_held h), included) (make (ho_action h) (ho_held h) included) b)
         built holders))"

record compiled =
  co_shapes :: "shape list"
  co_emitted :: "string list"
  co_singles :: nat
  co_combinations :: nat
  co_over :: nat
  co_broken_profiles :: "(string \<times> reason list) list"
  co_broken_grants :: "(string \<times> reason list) list"
  co_broken_restrictions :: "(string \<times> reason list) list"
  co_warnings :: "(string \<times> rule_warning list) list"

definition compile_policy :: "iso_parser \<Rightarrow> (string \<Rightarrow> string) \<Rightarrow> access_policy \<Rightarrow> compiled ruled" where
  "compile_policy isop sha po =
     (let bp = broken_of (map (\<lambda>p. (pf_id p, profile_reasons po p)) (po_profiles po)) in
      ok_bind (map_ok (\<lambda>g. ok_bind (grant_reasons isop po (broken_ids bp) g) (\<lambda>rs. Inr (gr_id g, rs))) (po_grants po)) (\<lambda>gs.
      ok_bind (map_ok (\<lambda>r. ok_bind (restriction_reasons isop po r) (\<lambda>rs. Inr (rs_id r, rs))) (po_restrictions po)) (\<lambda>rs.
      (let bg = broken_of gs; br = broken_of rs;
           holders = policy_holders po (broken_ids bg) (broken_ids br);
           needed = filter (\<lambda>s. length s \<ge> 2) (map ho_held holders);
           existing = map (\<lambda>k. sorted_ids (split_on (CHR '','') k)) (filter (\<lambda>k. k \<noteq> []) (po_existing po));
           (emitted, over) = select_combinations needed existing (po_cap po);
           shapes = all_shapes sha po (broken_ids bp) (broken_ids bg) (broken_ids br) emitted holders
       in Inr \<lparr>co_shapes = shapes, co_emitted = map combo_key emitted,
            co_singles = length (remdups (map sh_combo (filter (\<lambda>s. length (sh_profiles s) = 1) shapes))),
            co_combinations = length emitted,
            co_over = length (remdups (map (\<lambda>h. pe_user (ho_person h)) (filter (\<lambda>h. ho_held h \<in> set over) holders))),
            co_broken_profiles = bp, co_broken_grants = bg, co_broken_restrictions = br,
            co_warnings = map (\<lambda>g. (gr_id g, grant_warnings po g)) (filter (\<lambda>g. gr_id g \<notin> broken_ids bg) (po_grants po))\<rparr>))))"

record outcome =
  ou_hidden :: bool
  ou_over_limit :: bool
  ou_grants :: "string list"
  ou_columns :: "column_plan list"
  ou_withheld_field :: "string option"
  ou_shape :: "shape option"

definition shape_for :: "compiled \<Rightarrow> access_policy \<Rightarrow> person \<Rightarrow> string \<Rightarrow> string list \<Rightarrow> shape option" where
  "shape_for c po p action held =
     (if held = [] then None
      else List.find (\<lambda>s. sh_action s = action \<and> sh_combo s = combo_key held \<and>
        sh_included s = included_ids po p action (broken_ids (co_broken_restrictions c))) (co_shapes c))"

definition subject_outcome :: "compiled \<Rightarrow> access_policy \<Rightarrow> person \<Rightarrow> string \<Rightarrow> narrow option \<Rightarrow> outcome" where
  "subject_outcome c po p action who =
     (let none = \<lparr>ou_hidden = False, ou_over_limit = False, ou_grants = [], ou_columns = [], ou_withheld_field = None, ou_shape = None\<rparr>;
          broken = broken_ids (co_broken_grants c);
          ids = map gr_id (filter (\<lambda>g. grant_reaches g p action who (po_now po) broken) (po_grants po));
          held = held_profiles p (po_grants po) action who (po_now po) broken
      in if person_hidden po p action (broken_ids (co_broken_restrictions c)) then none\<lparr>ou_hidden := True\<rparr>
         else if length held \<ge> 2 \<and> combo_key held \<notin> set (co_emitted c) then none\<lparr>ou_over_limit := True, ou_grants := ids\<rparr>
         else case shape_for c po p action held of
             None \<Rightarrow> none\<lparr>ou_grants := ids\<rparr>
           | Some s \<Rightarrow> none\<lparr>ou_grants := ids, ou_columns := sh_columns s,
               ou_withheld_field := (if sh_withheld s then Some ''__withheld'' else None), ou_shape := Some s\<rparr>)"

end
