(* ===== verification/Access_View.thy ===== *)
theory Access_View
  imports Access_Compiler Row_Rule_Spec
begin

text \<open>
  The query of a profile view (\<open>_select_sql\<close> of \<open>compiler.py\<close>), as a structure, with its text
  (\<open>_single_sql\<close>, \<open>_combo_sql\<close>, \<open>view_statements\<close>, \<open>script_statements\<close>) and its meaning on a row: whether the row is
  shown, and at which mode each column is. \<open>vals\<close> are the subject values of a rendering without the
  \<open>acl\<close> functions. The functions of the \<open>acl\<close> schema answer from the signed context, which is a record here.
\<close>

section \<open>The query\<close>

datatype gate = Gate_Acl string | Gate_Const bool

datatype view_pred =
    Pred_Rev string int
  | Pred_Const bool
  | Pred_Rule sql_expr
  | Pred_Match "(string \<times> string) list"
  | Pred_Not view_pred

datatype col_expr = Col_Mask mask_mode | Col_Case "(string \<times> mask_mode) list"

record profile_query =
  vq_single :: bool
  vq_columns :: "(attr_fact \<times> col_expr) list"
  vq_absent :: "(string \<times> string list) list option"
  vq_flags :: "(string \<times> gate \<times> sql_expr) list"
  vq_preds :: "view_pred list"

definition grant_gate :: "bool \<Rightarrow> string set option \<Rightarrow> grant \<Rightarrow> gate" where
  "grant_gate acl active g =
     (if acl then Gate_Acl (gr_id g) else Gate_Const (case active of None \<Rightarrow> True | Some ids \<Rightarrow> gr_id g \<in> ids))"

definition grant_flag ::
  "iso_parser \<Rightarrow> access_policy \<Rightarrow> bool \<Rightarrow> string set option \<Rightarrow> subject_values \<Rightarrow> grant \<Rightarrow> (string \<times> gate \<times> sql_expr) ruled" where
  "grant_flag isop po acl active vals g =
     ok_bind (compiled_rule isop (gr_rule g) (attrs_by_id po) acl None vals) (\<lambda>e. Inr (gr_id g, grant_gate acl active g, e))"

definition applies_pred :: "bool \<Rightarrow> person option \<Rightarrow> restriction \<Rightarrow> view_pred" where
  "applies_pred acl who r =
     (if rs_mode r = ''all'' then Pred_Const True
      else case (acl, who) of
          (False, Some p) \<Rightarrow> Pred_Const (applies_to r p)
        | _ \<Rightarrow> if rs_mode r = ''only'' then Pred_Match (rs_subjects r) else Pred_Not (Pred_Match (rs_subjects r)))"

definition applies_by_id :: "access_policy \<Rightarrow> bool \<Rightarrow> person option \<Rightarrow> string \<Rightarrow> view_pred ruled" where
  "applies_by_id po acl who i =
     (case restriction_by_id po i of None \<Rightarrow> Inl (Rule_Raised Key_Error) | Some r \<Rightarrow> Inr (applies_pred acl who r))"

definition view_preds :: "iso_parser \<Rightarrow> access_policy \<Rightarrow> shape \<Rightarrow> bool \<Rightarrow> person option \<Rightarrow> view_pred list ruled" where
  "view_preds isop po s acl who =
     ok_bind (map_ok (\<lambda>rule. ok_bind (compiled_rule isop rule (attrs_by_id po) acl None (\<lambda>_. [])) (\<lambda>e. Inr (Pred_Rule e))) (sh_rules s)) (\<lambda>rules.
     ok_bind (map_ok (applies_by_id po acl who) (sh_included s)) (\<lambda>ins.
     ok_bind (map_ok (\<lambda>i. ok_bind (applies_by_id po acl who i) (\<lambda>p. Inr (Pred_Not p))) (sh_excluded s @ sh_hide s)) (\<lambda>outs.
       Inr ((if acl then Pred_Rev (po_entity po) (po_revision po) else Pred_Const True) # rules @ ins @ outs @
         (if sh_empty s then [Pred_Const False] else [])))))"

definition first_mode :: "column_plan \<Rightarrow> mask_mode" where
  "first_mode c = (case cp_modes c of [] \<Rightarrow> Clear | m # _ \<Rightarrow> snd m)"

definition combo_expr :: "column_plan \<Rightarrow> col_expr" where
  "combo_expr c =
     (if \<not> cp_varying c then Col_Mask (first_mode c) else if cp_modes c = [] then Col_Mask Clear else Col_Case (cp_modes c))"

definition view_query ::
  "iso_parser \<Rightarrow> access_policy \<Rightarrow> shape \<Rightarrow> bool \<Rightarrow> string set option \<Rightarrow> person option \<Rightarrow> subject_values \<Rightarrow> profile_query ruled" where
  "view_query isop po s acl active who vals =
     ok_bind (map_ok (grant_flag isop po acl active vals) (sh_grants s)) (\<lambda>flags.
     ok_bind (view_preds isop po s acl who) (\<lambda>preds.
       let single = (length (sh_profiles s) \<le> 1 \<or> (\<not> sh_withheld s \<and> \<not> list_ex cp_varying (sh_columns s)))
       in Inr \<lparr>vq_single = single,
            vq_columns = map (\<lambda>c. (cp_attr c, if single then Col_Mask (first_mode c) else combo_expr c)) (sh_columns s),
            vq_absent = (if \<not> single \<and> sh_withheld s
              then Some (map (\<lambda>c. (af_name (cp_attr c), map fst (cp_modes c))) (filter cp_withheld (sh_columns s))) else None),
            vq_flags = flags, vq_preds = preds\<rparr>))"

section \<open>Its text\<close>

definition match_part :: "string \<times> string \<Rightarrow> string" where
  "match_part = (\<lambda>(kind, i).
     if kind = ''user'' then ''(SELECT acl.subject_text('' @ quoted ''__access_subject'' @ '')) = '' @ sql_quote i
     else if kind = ''role'' then ''(SELECT acl.subject_text('' @ quoted ''__access_role'' @ '')) = '' @ sql_quote i
     else ''(SELECT acl.subject_text_array('' @ quoted ''__access_groups'' @ '')) && ARRAY['' @ sql_quote i @ '']::text[]'')"

definition match_text :: "(string \<times> string) list \<Rightarrow> string" where
  "match_text subjects = (if subjects = [] then ''FALSE'' else paren (join '' OR '' (map match_part subjects)))"

primrec pred_text :: "(json \<Rightarrow> string) \<Rightarrow> view_pred \<Rightarrow> string" where
  "pred_text jr (Pred_Rev entity n) = ''(SELECT acl.rev_ok('' @ sql_quote entity @ '', '' @ str_int n @ ''))''"
| "pred_text jr (Pred_Const b) = (if b then ''TRUE'' else ''FALSE'')"
| "pred_text jr (Pred_Rule e) = sql_text jr ''t'' e"
| "pred_text jr (Pred_Match subjects) = match_text subjects"
| "pred_text jr (Pred_Not p) = ''(NOT '' @ pred_text jr p @ '')''"

definition flag_text :: "(json \<Rightarrow> string) \<Rightarrow> gate \<Rightarrow> sql_expr \<Rightarrow> string" where
  "flag_text jr g e =
     (let gt = (case g of Gate_Acl i \<Rightarrow> ''(SELECT acl.grant_active('' @ sql_quote i @ ''))'' | Gate_Const b \<Rightarrow> if b then ''TRUE'' else ''FALSE'');
          rule = sql_text jr ''t'' e
      in ''COALESCE('' @ (if rule = ''TRUE'' then gt else paren (gt @ '' AND '' @ rule)) @ '', false)'')"

definition or_text :: "string list \<Rightarrow> string" where
  "or_text flags = (if flags = [] then ''FALSE'' else paren (join '' OR '' flags))"

definition named :: "string \<Rightarrow> string \<Rightarrow> string fallible" where
  "named expr name = ok_bind (ident name) (\<lambda>n. Inr (expr @ '' AS '' @ n))"

definition of_m :: "string \<Rightarrow> string fallible" where
  "of_m name = ok_bind (ident name) (\<lambda>n. Inr (''m.'' @ n))"

definition single_text :: "(json \<Rightarrow> string) \<Rightarrow> string \<Rightarrow> bool \<Rightarrow> bool \<Rightarrow> profile_query \<Rightarrow> string fallible" where
  "single_text jr source acl with_flags q =
     ok_bind (map_ok (\<lambda>(a, x). ok_bind (ident (af_name a)) (\<lambda>n.
        named (mask_sql (''t.'' @ n) (case x of Col_Mask m \<Rightarrow> m | Col_Case _ \<Rightarrow> Clear) a acl) (af_name a))) (vq_columns q)) (\<lambda>cols.
     ok_bind (if with_flags then map_ok (\<lambda>(i, g, e). named (flag_text jr g e) (''__g_'' @ i)) (vq_flags q) else Inr []) (\<lambda>flags.
       Inr (''SELECT '' @ join '', '' (''t.row_id'' # cols @ flags) @ CHR 0x0A # ''FROM '' @ source @ '' AS t'' @ CHR 0x0A # ''WHERE '' @
         join '' AND '' (map (pred_text jr) (vq_preds q) @ [or_text (map (\<lambda>(i, g, e). flag_text jr g e) (vq_flags q))]))))"

definition combo_expr_text :: "bool \<Rightarrow> attr_fact \<Rightarrow> col_expr \<Rightarrow> string fallible" where
  "combo_expr_text acl a x =
     ok_bind (of_m (af_name a)) (\<lambda>raw.
       case x of
         Col_Mask m \<Rightarrow> Inr (mask_sql raw m a acl)
       | Col_Case ws \<Rightarrow>
           ok_bind (map_ok (\<lambda>(i, m). ok_bind (of_m i) (\<lambda>f. Inr (''WHEN '' @ f @ '' THEN '' @ mask_sql raw m a acl))) ws) (\<lambda>ts.
             Inr (''CASE '' @ join '' '' ts @ '' END'')))"

definition withheld_part :: "string \<times> string list \<Rightarrow> string fallible" where
  "withheld_part = (\<lambda>(name, ids).
     if ids = [] then Inr (quoted name)
     else ok_bind (map_ok of_m ids) (\<lambda>fs. Inr (''CASE WHEN NOT '' @ paren (join '' OR '' fs) @ '' THEN '' @ quoted name @ '' END'')))"

definition withheld_text :: "(string \<times> string list) list \<Rightarrow> string fallible" where
  "withheld_text parts =
     ok_bind (map_ok withheld_part parts) (\<lambda>ts.
       Inr (if ts = [] then ''ARRAY[]::text[]'' else ''array_remove(ARRAY['' @ join '', '' ts @ ''], NULL)''))"

definition combo_text :: "(json \<Rightarrow> string) \<Rightarrow> string \<Rightarrow> bool \<Rightarrow> bool \<Rightarrow> profile_query \<Rightarrow> string fallible" where
  "combo_text jr source acl with_flags q =
     ok_bind (map_ok (\<lambda>(a, x). ok_bind (ident (af_name a)) (\<lambda>n. named (''t.'' @ n) (af_name a))) (vq_columns q)) (\<lambda>inner.
     ok_bind (map_ok (\<lambda>(i, g, e). named (flag_text jr g e) i) (vq_flags q)) (\<lambda>inner_flags.
     ok_bind (map_ok (\<lambda>(a, x). ok_bind (combo_expr_text acl a x) (\<lambda>t. named t (af_name a))) (vq_columns q)) (\<lambda>outer.
     ok_bind (case vq_absent q of None \<Rightarrow> Inr []
       | Some parts \<Rightarrow> ok_bind (withheld_text parts) (\<lambda>t. ok_bind (named t ''__withheld'') (\<lambda>w. Inr [w]))) (\<lambda>absent.
     ok_bind (if with_flags then map_ok (\<lambda>(i, _). ok_bind (of_m i) (\<lambda>f. named f (''__g_'' @ i))) (vq_flags q) else Inr []) (\<lambda>outer_flags.
     ok_bind (map_ok (\<lambda>(i, _). of_m i) (vq_flags q)) (\<lambda>ors.
       Inr (''SELECT '' @ join '', '' (''m.row_id'' # outer @ absent @ outer_flags) @ CHR 0x0A # ''FROM ('' @ CHR 0x0A #
         ''SELECT '' @ join '', '' (''t.row_id'' # inner @ inner_flags) @ CHR 0x0A # ''FROM '' @ source @ '' AS t'' @ CHR 0x0A #
         ''WHERE '' @ (if vq_preds q = [] then ''TRUE'' else join '' AND '' (map (pred_text jr) (vq_preds q))) @ CHR 0x0A #
         '') AS m'' @ CHR 0x0A # ''WHERE '' @ or_text ors)))))))"

definition select_text :: "(json \<Rightarrow> string) \<Rightarrow> string \<Rightarrow> bool \<Rightarrow> bool \<Rightarrow> profile_query \<Rightarrow> string fallible" where
  "select_text jr source acl with_flags q =
     (if vq_single q then single_text jr source acl with_flags q else combo_text jr source acl with_flags q)"

definition view_statements :: "string \<Rightarrow> string \<Rightarrow> string list fallible" where
  "view_statements name select =
     ok_bind (ident name) (\<lambda>n.
       let view = dquoted ''entity_access'' @ ''.'' @ n
       in Inr [''CREATE VIEW '' @ view @ '' WITH (security_barrier = true) AS'' @ CHR 0x0A # select,
            ''GRANT SELECT ON '' @ view @ '' TO '' @ dquoted reader_role,
            ''ALTER VIEW '' @ view @ '' OWNER TO '' @ dquoted exposure_owner_role])"

definition view_script :: "string \<Rightarrow> string \<Rightarrow> string fallible" where
  "view_script name select =
     ok_bind (view_statements name select) (\<lambda>ss. Inr (join ('';'' @ [CHR 0x0A]) ss @ '';''))"

definition render_shape ::
  "iso_parser \<Rightarrow> (json \<Rightarrow> string) \<Rightarrow> access_policy \<Rightarrow> shape \<Rightarrow> bool \<Rightarrow> string set option \<Rightarrow> person option \<Rightarrow> subject_values \<Rightarrow> bool \<Rightarrow> string ruled" where
  "render_shape isop jr po s acl active who vals with_flags =
     ok_bind (view_query isop po s acl active who vals) (\<lambda>q.
     ok_bind (raised (select_text jr (po_source po) acl with_flags q)) (\<lambda>select.
       if acl then raised (view_script (sh_view s) select) else Inr select))"

text \<open>A suffix of the script is cut off by its length.\<close>

definition script_statements :: "string \<Rightarrow> string \<Rightarrow> string list fallible" where
  "script_statements name script =
     ok_bind (view_statements name []) (\<lambda>ss.
       case ss of
         [create, g, own] \<Rightarrow>
           (let suffix = '';'' @ CHR 0x0A # g @ '';'' @ CHR 0x0A # own @ '';''
            in if take (length create) script \<noteq> create \<or> drop (length script - length suffix) script \<noteq> suffix
               then Inl Value_Error
               else Inr [take (length script - length suffix) script, g, own])
       | _ \<Rightarrow> Inl Value_Error)"

section \<open>Bindings\<close>

record bound_column =
  bc_attribute_id :: string
  bc_name :: string
  bc_type :: string
  bc_varying :: bool
  bc_withheld :: bool
  bc_levels :: "level list"

record binding =
  bi_combo :: string
  bi_key :: string
  bi_action :: string
  bi_profiles :: "string list"
  bi_view :: string
  bi_sql :: string
  bi_columns :: "bound_column list"
  bi_sha :: string
  bi_withheld :: bool

definition bound_column_of :: "column_plan \<Rightarrow> bound_column" where
  "bound_column_of c =
     \<lparr>bc_attribute_id = af_id (cp_attr c), bc_name = af_name (cp_attr c), bc_type = af_type (cp_attr c),
      bc_varying = cp_varying c, bc_withheld = cp_withheld c, bc_levels = cp_levels c\<rparr>"

definition make_binding :: "iso_parser \<Rightarrow> (json \<Rightarrow> string) \<Rightarrow> (string \<Rightarrow> string) \<Rightarrow> access_policy \<Rightarrow> shape \<Rightarrow> binding ruled" where
  "make_binding isop jr sha po s =
     ok_bind (render_shape isop jr po s True None None (\<lambda>_. []) False) (\<lambda>sql. Inr
       \<lparr>bi_combo = sh_combo s, bi_key = sh_key s, bi_action = sh_action s, bi_profiles = sh_profiles s, bi_view = sh_view s,
        bi_sql = sql, bi_columns = map bound_column_of (sh_columns s), bi_sha = sha sql, bi_withheld = sh_withheld s\<rparr>)"

text \<open>The whole \<open>compile_policy\<close>: the shapes and, for each, the binding of its view.\<close>

definition compile_bindings ::
  "iso_parser \<Rightarrow> (json \<Rightarrow> string) \<Rightarrow> (string \<Rightarrow> string) \<Rightarrow> access_policy \<Rightarrow> (compiled \<times> binding list) ruled" where
  "compile_bindings isop jr sha po =
     ok_bind (compile_policy isop sha po) (\<lambda>c.
       ok_bind (map_ok (make_binding isop jr sha po) (co_shapes c)) (\<lambda>bs. Inr (c, bs)))"

section \<open>The signed context\<close>

text \<open>\<open>context.py\<close>: the attributes of a context are the values the rules read and the identity keys the restrictions
  need. The expiry, the request id and the signature are not modelled.\<close>

datatype ctx_value = Ctx_Text "string option" | Ctx_Texts "string list" | Ctx_Cells "cell list"

record acl_context =
  cx_grants :: "string list"
  cx_attrs :: "string \<Rightarrow> ctx_value option"
  cx_rev :: "string \<Rightarrow> int option"

definition rule_keys :: "iso_parser \<Rightarrow> access_policy \<Rightarrow> json \<Rightarrow> string list ruled" where
  "rule_keys isop po rule =
     (if rule = JNull then Inr []
      else case validate_rule isop rule (attrs_by_id po) (po_subject_attrs po) of
          Inr info \<Rightarrow> Inr (ri_subject_keys info @ (if ri_uses_subject_id info then [''__access_subject''] else []))
        | Inl (Rule_Problem _ _) \<Rightarrow> Inr []
        | Inl e \<Rightarrow> Inl e)"

definition restriction_keys :: "restriction \<Rightarrow> string list" where
  "restriction_keys r =
     (if rs_mode r = ''all'' then []
      else ''__access_subject'' # (if ''role'' \<in> set (map fst (rs_subjects r)) then [''__access_role''] else []) @
        (if ''group'' \<in> set (map fst (rs_subjects r)) then [''__access_groups''] else []))"

definition context_attribute_keys :: "iso_parser \<Rightarrow> access_policy \<Rightarrow> string list ruled" where
  "context_attribute_keys isop po =
     ok_bind (map_ok (\<lambda>g. rule_keys isop po (gr_rule g)) (po_grants po)) (\<lambda>gs.
     ok_bind (map_ok (\<lambda>r. ok_bind (rule_keys isop po (rs_rule r)) (\<lambda>ks. Inr (ks @ restriction_keys r))) (po_restrictions po)) (\<lambda>rs.
       Inr (concat (gs @ rs))))"

definition context_attrs :: "access_policy \<Rightarrow> person \<Rightarrow> string list \<Rightarrow> string \<Rightarrow> ctx_value option" where
  "context_attrs po p keys key =
     (if key \<notin> set keys then None
      else if key = ''__access_subject'' then Some (Ctx_Text (Some (pe_user p)))
      else if key = ''__access_role'' then Some (Ctx_Text (pe_role p))
      else if key = ''__access_groups'' then Some (Ctx_Texts (pe_groups p))
      else let values = po_subject_values po (pe_user p) key in if values = [] then None else Some (Ctx_Cells values))"

definition effective_grants :: "access_policy \<Rightarrow> string set \<Rightarrow> person \<Rightarrow> string \<Rightarrow> narrow option \<Rightarrow> grant list" where
  "effective_grants po broken p action who = filter (\<lambda>g. grant_reaches g p action who (po_now po) broken) (po_grants po)"

definition issue_context :: "iso_parser \<Rightarrow> access_policy \<Rightarrow> compiled \<Rightarrow> person \<Rightarrow> string \<Rightarrow> narrow option \<Rightarrow> acl_context ruled" where
  "issue_context isop po c p action who =
     ok_bind (context_attribute_keys isop po) (\<lambda>keys. Inr
       \<lparr>cx_grants = map gr_id (effective_grants po (broken_ids (co_broken_grants c)) p action who),
        cx_attrs = context_attrs po p keys, cx_rev = [po_entity po \<mapsto> po_revision po]\<rparr>)"

section \<open>The meaning of a query\<close>

text \<open>\<open>subject_text\<close> answers NULL for what is not a string, \<open>subject_text_array\<close> for what is neither a string nor an
  array; the strings of an array of values are not needed here.\<close>

definition subject_text :: "acl_context \<Rightarrow> string \<Rightarrow> string option" where
  "subject_text cx key = (case cx_attrs cx key of Some (Ctx_Text t) \<Rightarrow> t | _ \<Rightarrow> None)"

definition subject_text_array :: "acl_context \<Rightarrow> string \<Rightarrow> string list option" where
  "subject_text_array cx key =
     (case cx_attrs cx key of
        Some (Ctx_Text t) \<Rightarrow> map_option (\<lambda>s. [s]) t
      | Some (Ctx_Texts ts) \<Rightarrow> Some ts
      | _ \<Rightarrow> None)"

definition match_sem :: "acl_context \<Rightarrow> string \<times> string \<Rightarrow> bool option" where
  "match_sem cx = (\<lambda>(kind, i).
     if kind = ''user'' then map_option (\<lambda>s. s = i) (subject_text cx ''__access_subject'')
     else if kind = ''role'' then map_option (\<lambda>s. s = i) (subject_text cx ''__access_role'')
     else map_option (\<lambda>ss. i \<in> set ss) (subject_text_array cx ''__access_groups''))"

primrec pred_sem :: "acl_context \<Rightarrow> sql_env \<Rightarrow> view_pred \<Rightarrow> bool option" where
  "pred_sem cx env (Pred_Rev entity n) = Some (cx_rev cx entity = Some n)"
| "pred_sem cx env (Pred_Const b) = Some b"
| "pred_sem cx env (Pred_Rule e) = sem env e"
| "pred_sem cx env (Pred_Match subjects) =
     (if list_ex (\<lambda>s. match_sem cx s = Some True) subjects then Some True
      else if list_ex (\<lambda>s. match_sem cx s = None) subjects then None else Some False)"
| "pred_sem cx env (Pred_Not p) = map_option Not (pred_sem cx env p)"

definition flag_sem :: "acl_context \<Rightarrow> sql_env \<Rightarrow> string \<times> gate \<times> sql_expr \<Rightarrow> bool" where
  "flag_sem cx env = (\<lambda>(i, g, e).
     (case g of Gate_Acl gid \<Rightarrow> gid \<in> set (cx_grants cx) | Gate_Const b \<Rightarrow> b) \<and> sem env e = Some True)"

definition view_shows :: "acl_context \<Rightarrow> sql_env \<Rightarrow> profile_query \<Rightarrow> bool" where
  "view_shows cx env q =
     (list_all (\<lambda>p. pred_sem cx env p = Some True) (vq_preds q) \<and> list_ex (flag_sem cx env) (vq_flags q))"

definition flag_named :: "acl_context \<Rightarrow> sql_env \<Rightarrow> profile_query \<Rightarrow> string \<Rightarrow> bool" where
  "flag_named cx env q i = list_ex (\<lambda>f. fst f = i \<and> flag_sem cx env f) (vq_flags q)"

text \<open>The mode at which a column is presented; \<open>None\<close> is the NULL of a CASE no branch of which is taken.\<close>

definition col_mode :: "acl_context \<Rightarrow> sql_env \<Rightarrow> profile_query \<Rightarrow> col_expr \<Rightarrow> mask_mode option" where
  "col_mode cx env q x =
     (case x of Col_Mask m \<Rightarrow> Some m | Col_Case ws \<Rightarrow> map_option snd (List.find (\<lambda>w. flag_named cx env q (fst w)) ws))"

definition view_cells :: "acl_context \<Rightarrow> sql_env \<Rightarrow> profile_query \<Rightarrow> (string \<times> mask_mode option) list" where
  "view_cells cx env q = map (\<lambda>(a, x). (af_id a, col_mode cx env q x)) (vq_columns q)"

definition view_absent :: "acl_context \<Rightarrow> sql_env \<Rightarrow> profile_query \<Rightarrow> string list option" where
  "view_absent cx env q =
     map_option (\<lambda>parts. map fst (filter (\<lambda>(name, ids). \<not> list_ex (flag_named cx env q) ids) parts)) (vq_absent q)"

end
