(* ===== verification/Access_Enforce.thy ===== *)
theory Access_Enforce
  imports Access_View
begin

text \<open>
  The decisions of the data plane (\<open>entity/access/enforce.py\<close>): whether a row is visible to the reader, which
  columns a writer may name, and the grant that covers a write. An opened access is the policy, its
  compilation, the person, the narrow and the opened outcome; \<open>isop\<close> is the ISO 8601 parser. Loading, view
  generation and the access log are not modelled.
\<close>

record access =
  ac_policy :: access_policy
  ac_compiled :: compiled
  ac_person :: person
  ac_narrow :: "narrow option"
  ac_outcome :: outcome

definition all_ok :: "('a \<Rightarrow> 'e + bool) \<Rightarrow> 'a list \<Rightarrow> 'e + bool" where
  "all_ok f xs = ok_bind (any_ok (\<lambda>x. ok_bind (f x) (\<lambda>b. Inr (\<not> b))) xs) (\<lambda>b. Inr (\<not> b))"

definition restriction_applies :: "restriction \<Rightarrow> person \<Rightarrow> bool" where
  "restriction_applies r p =
     (let hit = foldl (\<lambda>h (kind, i).
           if kind = ''user'' \<and> pe_user p = i then True
           else if kind = ''role'' \<and> pe_role p = Some i then True
           else if kind = ''group'' \<and> i \<in> set (pe_groups p) then True else h) False (rs_subjects r)
      in if rs_mode r = ''only'' then hit else \<not> hit)"

definition grant_by_id :: "access \<Rightarrow> string \<Rightarrow> grant option" where
  "grant_by_id ac i = List.find (\<lambda>g. gr_id g = i) (po_grants (ac_policy ac))"

definition row_rule :: "iso_parser \<Rightarrow> access \<Rightarrow> row \<Rightarrow> json \<Rightarrow> bool ruled" where
  "row_rule isop ac row rule =
     eval_rule isop rule row (attrs_by_id (ac_policy ac)) (pe_user (ac_person ac))
       (po_subject_values (ac_policy ac) (pe_user (ac_person ac))) (po_now (ac_policy ac))"

text \<open>The restrictions of an action that are intact and apply to the person.\<close>

definition acting :: "access \<Rightarrow> string \<Rightarrow> restriction list" where
  "acting ac action =
     filter (\<lambda>r. action \<in> set (rs_actions r) \<and> rs_id r \<notin> broken_ids (co_broken_restrictions (ac_compiled ac)) \<and>
       (rs_mode r = ''all'' \<or> restriction_applies r (ac_person ac))) (po_restrictions (ac_policy ac))"

definition row_visible :: "iso_parser \<Rightarrow> access \<Rightarrow> row \<Rightarrow> bool ruled" where
  "row_visible isop ac row =
     (let o1 = subject_outcome (ac_compiled ac) (ac_policy ac) (ac_person ac) ''read'' (ac_narrow ac) in
      ok_bind (any_ok (\<lambda>i. case grant_by_id ac i of None \<Rightarrow> Inr False | Some g \<Rightarrow> row_rule isop ac row (gr_rule g)) (ou_grants o1)) (\<lambda>covered.
        if \<not> covered then Inr False else all_ok (\<lambda>r. row_rule isop ac row (rs_rule r)) (acting ac ''read'')))"

definition denied_ids :: "access \<Rightarrow> string set" where
  "denied_ids ac =
     set (concat (map (\<lambda>r. rs_deny r @ map fst (filter (\<lambda>c. snd c \<noteq> ''clear'') (rs_ceilings r))) (acting ac ''write'')))"

definition clear_names :: "access \<Rightarrow> grant \<Rightarrow> string set" where
  "clear_names ac g =
     (case profile_by_id (ac_policy ac) (gr_profile_id g) of
        None \<Rightarrow> {}
      | Some p \<Rightarrow> set (concat (map (\<lambda>(i, k).
          if i \<in> denied_ids ac \<or> k \<noteq> ''clear'' then []
          else case attrs_by_id (ac_policy ac) i of None \<Rightarrow> [] | Some a \<Rightarrow> [af_name a]) (pf_columns p))))"

definition write_outcome :: "access \<Rightarrow> outcome" where
  "write_outcome ac = subject_outcome (ac_compiled ac) (ac_policy ac) (ac_person ac) ''write'' None"

definition writable_names :: "access \<Rightarrow> string set" where
  "writable_names ac =
     \<Union> (set (map (\<lambda>i. case grant_by_id ac i of
         None \<Rightarrow> {} | Some g \<Rightarrow> if ''write'' \<in> set (gr_actions g) then clear_names ac g else {}) (ou_grants (write_outcome ac))))"

definition row_ok :: "iso_parser \<Rightarrow> access \<Rightarrow> grant \<Rightarrow> row \<Rightarrow> bool ruled" where
  "row_ok isop ac g row =
     ok_bind (row_rule isop ac row (gr_rule g)) (\<lambda>b.
       if \<not> b then Inr False else all_ok (\<lambda>r. row_rule isop ac row (rs_rule r)) (acting ac ''write''))"

text \<open>\<open>Inr None\<close> is \<open>EntityAccessWriteDenied\<close>. The grants opened with the access come first in the lookup of a grant.\<close>

definition opened_grant :: "access \<Rightarrow> string \<Rightarrow> grant option" where
  "opened_grant ac i =
     (case map_of (rev (map (\<lambda>g. (gr_id g, g)) (filter (\<lambda>g. gr_id g \<in> set (ou_grants (ac_outcome ac)) \<and>
         ''write'' \<in> set (gr_actions g)) (po_grants (ac_policy ac))))) i of
        Some g \<Rightarrow> Some g
      | None \<Rightarrow> grant_by_id ac i)"

primrec write_matches :: "iso_parser \<Rightarrow> access \<Rightarrow> string set \<Rightarrow> row list \<Rightarrow> string list \<Rightarrow> grant list ruled" where
  "write_matches isop ac written rows [] = Inr []"
| "write_matches isop ac written rows (i # is) =
     (case opened_grant ac i of
        None \<Rightarrow> write_matches isop ac written rows is
      | Some g \<Rightarrow>
          if ''write'' \<notin> set (gr_actions g) \<or> \<not> written \<subseteq> clear_names ac g then write_matches isop ac written rows is
          else ok_bind (all_ok (row_ok isop ac g) rows) (\<lambda>b.
            ok_bind (write_matches isop ac written rows is) (\<lambda>gs. Inr (if b then g # gs else gs))))"

definition require_write_grant :: "iso_parser \<Rightarrow> access \<Rightarrow> string set \<Rightarrow> row list \<Rightarrow> row list \<Rightarrow> grant option ruled" where
  "require_write_grant isop ac written before after =
     ok_bind (write_matches isop ac written (before @ after) (ou_grants (write_outcome ac))) (\<lambda>gs.
       Inr (case gs of [] \<Rightarrow> None | g # _ \<Rightarrow> Some g))"

definition shape_names :: "outcome \<Rightarrow> string list" where
  "shape_names ou = map (\<lambda>c. af_name (cp_attr c)) (ou_columns ou)"

definition write_locator_attrs :: "access \<Rightarrow> string list \<Rightarrow> string list" where
  "write_locator_attrs ac attrs = filter (\<lambda>n. n \<in> writable_names ac) attrs"

end
