(* ===== verification/Access_Spec.thy ===== *)
theory Access_Spec
  imports Access_Enforce
begin

text \<open>
  What a profile view shows: exactly the rows some effective grant and every restriction in force admit,
  and each column at the most revealing level of the grants that admit the row, lowered to the ceilings; whoever
  holds a profile gets a view; the view and the evaluation of \<open>enforce.py\<close> admit the same rows.
\<close>

section \<open>The specification\<close>

text \<open>What the service and the stores keep: ids are keys, no profile id holds a comma, every restriction has an
  effect and subjects of a known kind, and the levels of a ladder have distinct keys.\<close>

definition policy_ok :: "access_policy \<Rightarrow> bool" where
  "policy_ok po \<longleftrightarrow>
     distinct (map pf_id (po_profiles po)) \<and> distinct (map gr_id (po_grants po)) \<and> distinct (map rs_id (po_restrictions po)) \<and>
     distinct (map af_id (po_attributes po)) \<and>
     (\<forall>p \<in> set (po_profiles po). CHR '','' \<notin> set (pf_id p)) \<and>
     (\<forall>r \<in> set (po_restrictions po). has_effect r \<and> fst ` set (rs_subjects r) \<subseteq> {''user'', ''role'', ''group''}) \<and>
     (\<forall>l \<in> set (map snd (po_ladders po)). distinct (map lv_key l))"

text \<open>The person has a role, or no restriction asks for one.\<close>

definition role_known :: "access_policy \<Rightarrow> person \<Rightarrow> bool" where
  "role_known po p \<longleftrightarrow>
     pe_role p \<noteq> None \<or> (\<forall>r \<in> set (po_restrictions po). rs_mode r \<noteq> ''all'' \<longrightarrow> ''role'' \<notin> set (map fst (rs_subjects r)))"

text \<open>A restriction for some subjects that asks for a role, of a person who has none and whom it does not name otherwise:
  in SQL the person's role is NULL, and so is the comparison with it.\<close>

definition unmatched_role :: "restriction \<Rightarrow> person \<Rightarrow> bool" where
  "unmatched_role r p \<longleftrightarrow>
     rs_mode r \<noteq> ''all'' \<and> pe_role p = None \<and> ''role'' \<in> set (map fst (rs_subjects r)) \<and>
     \<not> list_ex (\<lambda>(kind, i). person_hit p kind i) (rs_subjects r)"

lemma role_known_matched: "role_known po p \<Longrightarrow> r \<in> set (po_restrictions po) \<Longrightarrow> \<not> unmatched_role r p"
  by (auto simp: role_known_def unmatched_role_def)

definition rule_holds :: "iso_parser \<Rightarrow> access_policy \<Rightarrow> sql_env \<Rightarrow> json \<Rightarrow> bool" where
  "rule_holds isop po env rule =
     (case compiled_rule isop rule (attrs_by_id po) True None (\<lambda>_. []) of Inl _ \<Rightarrow> False | Inr e \<Rightarrow> sem env e = Some True)"

definition in_force :: "access_policy \<Rightarrow> person \<Rightarrow> string \<Rightarrow> restriction list" where
  "in_force po p action =
     filter (\<lambda>r. action \<in> set (rs_actions r) \<and> (rs_mode r = ''all'' \<or> applies_to r p)) (po_restrictions po)"

definition admitted :: "iso_parser \<Rightarrow> access_policy \<Rightarrow> person \<Rightarrow> string \<Rightarrow> grant list \<Rightarrow> sql_env \<Rightarrow> bool" where
  "admitted isop po p action grants env \<longleftrightarrow>
     list_ex (\<lambda>g. rule_holds isop po env (gr_rule g)) grants \<and>
     list_all (\<lambda>r. rule_holds isop po env (rs_rule r)) (in_force po p action)"

text \<open>The rank of a column under a grant: that of the level its profile lists, or of a ceiling less revealing.\<close>

definition granted_rank :: "access_policy \<Rightarrow> person \<Rightarrow> string \<Rightarrow> string \<Rightarrow> grant \<Rightarrow> nat option" where
  "granted_rank po p action i g =
     map_option (\<lambda>k. Max (set (map (level_index (ladder po i))
       (k # map snd (filter (\<lambda>c. fst c = i) (concat (map rs_ceilings (in_force po p action))))))))
       (profile_level po (gr_profile_id g) i)"

definition listed :: "access_policy \<Rightarrow> person \<Rightarrow> string \<Rightarrow> grant list \<Rightarrow> string \<Rightarrow> bool" where
  "listed po p action grants i \<longleftrightarrow>
     i \<notin> set (concat (map rs_deny (in_force po p action))) \<and> list_ex (\<lambda>g. profile_level po (gr_profile_id g) i \<noteq> None) grants"

definition best_mode :: "iso_parser \<Rightarrow> access_policy \<Rightarrow> person \<Rightarrow> string \<Rightarrow> grant list \<Rightarrow> sql_env \<Rightarrow> string \<Rightarrow> mask_mode option" where
  "best_mode isop po p action grants env i =
     (let ranks = List.map_filter (granted_rank po p action i) (filter (\<lambda>g. rule_holds isop po env (gr_rule g)) grants)
      in if ranks = [] then None else Some (lv_mode (ladder po i ! Min (set ranks))))"

definition exact_cells :: "iso_parser \<Rightarrow> access_policy \<Rightarrow> person \<Rightarrow> string \<Rightarrow> grant list \<Rightarrow> sql_env \<Rightarrow> (string \<times> mask_mode option) list" where
  "exact_cells isop po p action grants env =
     map (\<lambda>a. (af_id a, best_mode isop po p action grants env (af_id a)))
       (filter (\<lambda>a. listed po p action grants (af_id a)) (po_attributes po))"

section \<open>Shapes of a compilation\<close>

lemma set_default_cases: "x \<in> set (set_default k s built) \<Longrightarrow> x \<in> set built \<or> x = (k, s)"
  by (auto simp: set_default_def split: if_splits)

lemma set_default_keys: "fst ` set (set_default k s built) = insert k (fst ` set built)"
  unfolding set_default_def map_of_eq_None_iff not_None_eq by (cases "map_of built k") (auto simp: map_of_eq_None_iff intro: map_of_SomeD rev_image_eqI)

definition made :: "(string \<Rightarrow> string list \<Rightarrow> string list \<Rightarrow> shape) \<Rightarrow> string list set \<Rightarrow> shape_map \<Rightarrow> bool" where
  "made mk known built \<longleftrightarrow>
     (\<forall>k s. (k, s) \<in> set built \<longrightarrow> (\<exists>action ids inc. ids \<in> known \<and> k = (action, combo_key ids, inc) \<and> s = mk action ids inc))"

lemma made_default: "made mk known b \<Longrightarrow> ids \<in> known \<Longrightarrow> made mk known (set_default (action, combo_key ids, inc) (mk action ids inc) b)"
  unfolding made_def using set_default_cases by blast

lemma made_base:
  "made mk known b \<Longrightarrow> snd ` set keys \<subseteq> known \<Longrightarrow>
   made mk known (foldl (\<lambda>b (action, ids). set_default (action, combo_key ids, []) (mk action ids []) b) b keys)"
  by (induction keys arbitrary: b) (auto simp: made_default)

lemma made_holders:
  "made mk known b \<Longrightarrow> \<forall>h \<in> set hs. skip h \<or> ho_held h \<in> known \<Longrightarrow>
   made mk known (foldl (\<lambda>b h. if skip h then b else set_default (ho_action h, combo_key (ho_held h), inc h)
     (mk (ho_action h) (ho_held h) (inc h)) b) b hs)"
  by (induction hs arbitrary: b) (auto simp: made_default)

lemma base_keys:
  "fst ` set (foldl (\<lambda>b (action, ids). set_default (action, combo_key ids, []) (mk action ids []) b) b keys) =
   fst ` set b \<union> (\<lambda>(action, ids). (action, combo_key ids, [])) ` set keys"
proof (induction keys arbitrary: b)
  case (Cons k keys)
  obtain action ids where k: "k = (action, ids)" by (cases k)
  show ?case unfolding k foldl_Cons list.set image_insert prod.case Cons.IH set_default_keys by blast
qed simp

lemma holder_keys:
  "fst ` set (foldl (\<lambda>b h. if skip h then b else set_default (f h) (g h) b) b hs) = fst ` set b \<union> f ` {h \<in> set hs. \<not> skip h}"
proof (induction hs arbitrary: b)
  case (Cons h hs)
  show ?case
  proof (cases "skip h")
    case True
    then have "{x \<in> set (h # hs). \<not> skip x} = {x \<in> set hs. \<not> skip x}" by auto
    then show ?thesis by (simp only: foldl_Cons True if_True Cons.IH)
  next
    case False
    then have "{x \<in> set (h # hs). \<not> skip x} = insert h {x \<in> set hs. \<not> skip x}" by auto
    then show ?thesis by (simp add: False Cons.IH set_default_keys)
  qed
qed simp

lemma split_key:
  assumes "ids \<noteq> []" and "\<forall>x \<in> set ids. CHR '','' \<notin> set x"
  shows "split_on (CHR '','') (combo_key ids) = sort ids"
  unfolding combo_key_def
proof (rule split_join)
  show "\<forall>x \<in> set (sort ids). CHR '','' \<notin> set x" using assms(2) by (simp only: set_sort)
  show "sort ids \<noteq> []" using assms(1) by (metis set_sort set_empty)
qed

lemma combo_key_inject:
  assumes "combo_key ids = combo_key held" and "ids \<noteq> []" and "held \<noteq> []"
    and "\<forall>x \<in> set ids \<union> set held. CHR '','' \<notin> set x"
  shows "sort ids = sort held"
proof -
  have "split_on (CHR '','') (combo_key ids) = sort ids" by (rule split_key [OF assms(2)]) (use assms(4) in blast)
  moreover have "split_on (CHR '','') (combo_key held) = sort held" by (rule split_key [OF assms(3)]) (use assms(4) in blast)
  ultimately show ?thesis using assms(1) by (simp only:)
qed

lemma same_sort: "sort ids = sort held \<Longrightarrow> set ids = set held \<and> length ids = length held"
  by (metis set_sort length_sort)

lemma make_shape_sort:
  assumes "sort ids = sort held"
  shows "make_shape sha po bp bg br action ids inc = make_shape sha po bp bg br action held inc"
  unfolding make_shape_def combo_key_def assms conjunct1 [OF same_sort [OF assms]] conjunct2 [OF same_sort [OF assms]] ..

definition broken_p :: "compiled \<Rightarrow> string set" where "broken_p c = broken_ids (co_broken_profiles c)"
definition broken_g :: "compiled \<Rightarrow> string set" where "broken_g c = broken_ids (co_broken_grants c)"
definition broken_r :: "compiled \<Rightarrow> string set" where "broken_r c = broken_ids (co_broken_restrictions c)"

lemma reasons_empty:
  assumes "map_ok (\<lambda>x. ok_bind (f x) (\<lambda>rs. Inr (key x, rs))) xs = Inr ys" and "x \<in> set xs" and "key x \<notin> broken_ids (broken_of ys)"
  shows "f x = Inr []"
proof -
  obtain i where i: "i < length xs" "x = xs ! i" using assms(2) by (auto simp: in_set_conv_nth)
  have all: "list_all2 (\<lambda>x y. ok_bind (f x) (\<lambda>rs. Inr (key x, rs)) = Inr y) xs ys" using assms(1) by (simp only: map_ok_Inr)
  then have "ok_bind (f x) (\<lambda>rs. Inr (key x, rs)) = Inr (ys ! i)" "i < length ys"
    using i list_all2_nthD [OF all i(1)] list_all2_lengthD [OF all] by simp_all
  then obtain rs where rs: "f x = Inr rs" "(key x, rs) \<in> set ys" by (auto simp: ok_bind_Inr)
  have "rs = []"
  proof (rule ccontr)
    assume "rs \<noteq> []"
    then have "key x \<in> broken_ids (broken_of ys)" using rs(2) by (force simp: broken_ids_def broken_of_def)
    then show False using assms(3) by simp
  qed
  then show ?thesis using rs(1) by simp
qed

text \<open>What a finished compilation consists of.\<close>

lemma compile_parts:
  assumes "compile_policy isop sha po = Inr c"
  obtains emitted holders where
    "holders = policy_holders po (broken_g c) (broken_r c)"
    "co_shapes c = all_shapes sha po (broken_p c) (broken_g c) (broken_r c) emitted holders"
    "co_emitted c = map combo_key emitted"
    "set emitted \<subseteq> {s \<in> ho_held ` set holders. length s \<ge> 2}"
    "\<forall>g \<in> set (po_grants po). gr_id g \<notin> broken_g c \<longrightarrow> grant_reasons isop po (broken_p c) g = Inr []"
    "\<forall>r \<in> set (po_restrictions po). rs_id r \<notin> broken_r c \<longrightarrow> restriction_reasons isop po r = Inr []"
proof -
  define bp where "bp = broken_of (map (\<lambda>p. (pf_id p, profile_reasons po p)) (po_profiles po))"
  from assms obtain gs rs where
    g: "map_ok (\<lambda>g. ok_bind (grant_reasons isop po (broken_ids bp) g) (\<lambda>rs. Inr (gr_id g, rs))) (po_grants po) = Inr gs" and
    r: "map_ok (\<lambda>r. ok_bind (restriction_reasons isop po r) (\<lambda>rs. Inr (rs_id r, rs))) (po_restrictions po) = Inr rs"
    unfolding compile_policy_def Let_def bp_def ok_bind_Inr by blast
  define hs where "hs = policy_holders po (broken_ids (broken_of gs)) (broken_ids (broken_of rs))"
  define needed where "needed = filter (\<lambda>s. length s \<ge> 2) (map ho_held hs)"
  define existing where "existing = map (\<lambda>k. sorted_ids (split_on (CHR '','') k)) (filter (\<lambda>k. k \<noteq> []) (po_existing po))"
  obtain em over where e: "select_combinations needed existing (po_cap po) = (em, over)" by (cases "select_combinations needed existing (po_cap po)")
  from assms have c: "co_broken_profiles c = bp" "co_broken_grants c = broken_of gs" "co_broken_restrictions c = broken_of rs"
      "co_shapes c = all_shapes sha po (broken_ids bp) (broken_ids (broken_of gs)) (broken_ids (broken_of rs)) em hs"
      "co_emitted c = map combo_key em"
    unfolding compile_policy_def Let_def bp_def [symmetric] g r ok_bind_simps hs_def [symmetric] needed_def [symmetric]
      existing_def [symmetric] e prod.case sum.inject by auto
  have "set em \<subseteq> set needed"
    using e by (auto simp: select_combinations_def Let_def dest!: in_set_takeD)
  then have em: "set em \<subseteq> {s \<in> ho_held ` set hs. length s \<ge> 2}" by (auto simp: needed_def)
  show thesis
  proof (rule that [OF _ _ c(5) em])
    show "hs = policy_holders po (broken_g c) (broken_r c)" by (simp only: hs_def broken_g_def broken_r_def c)
    show "co_shapes c = all_shapes sha po (broken_p c) (broken_g c) (broken_r c) em hs"
      by (simp only: broken_p_def broken_g_def broken_r_def c(1-4))
    show "\<forall>g \<in> set (po_grants po). gr_id g \<notin> broken_g c \<longrightarrow> grant_reasons isop po (broken_p c) g = Inr []"
      using reasons_empty [OF g] by (simp add: broken_g_def broken_p_def c)
    show "\<forall>r \<in> set (po_restrictions po). rs_id r \<notin> broken_r c \<longrightarrow> restriction_reasons isop po r = Inr []"
      using reasons_empty [OF r] by (simp add: broken_r_def c)
  qed
qed

lemma grant_known:
  assumes "grant_reasons isop po bp g = Inr []"
  shows "profile_by_id po (gr_profile_id g) \<noteq> None \<and> gr_profile_id g \<notin> bp"
  using assms by (auto simp: grant_reasons_def ok_bind_Inr split: if_splits)

lemma profile_by_id_in: "profile_by_id po i = Some p \<Longrightarrow> p \<in> set (po_profiles po) \<and> pf_id p = i"
  unfolding profile_by_id_def by (drule map_of_SomeD) auto

lemma held_profiles_set:
  "set (held_profiles p gs action who now broken) = gr_profile_id ` {g \<in> set gs. grant_reaches g p action who now broken}"
  by (auto simp: held_profiles_def sorted_ids_def)

lemma held_profiles_distinct: "distinct (held_profiles p gs action who now broken)" "sort (held_profiles p gs action who now broken) = held_profiles p gs action who now broken"
  by (simp_all add: held_profiles_def sorted_ids_def sort_key_id_if_sorted)

lemma reaches_sound:
  "grant_reaches g p action who now broken \<Longrightarrow> gr_id g \<notin> broken \<and> gr_status g = ''active'' \<and> action \<in> set (gr_actions g)"
  by (auto simp: grant_reaches_def split: if_splits)

lemma make_shape_keys:
  "sh_action (make_shape sha po bp bg br action ids inc) = action"
  "sh_combo (make_shape sha po bp bg br action ids inc) = combo_key ids"
  "sh_included (make_shape sha po bp bg br action ids inc) = inc"
  by (simp_all add: make_shape_def Let_def)

definition comma_free :: "string list set" where
  "comma_free = {ids. ids \<noteq> [] \<and> (\<forall>x \<in> set ids. CHR '','' \<notin> set x)}"

lemma all_shapes_made:
  assumes "s \<in> set (all_shapes sha po bp bg br emitted holders)" and "\<forall>p \<in> set (po_profiles po). CHR '','' \<notin> set (pf_id p)"
    and "\<forall>h \<in> set holders. ho_held h = [] \<or> ho_held h \<in> comma_free" and "set emitted \<subseteq> comma_free"
  shows "\<exists>action ids inc. ids \<in> comma_free \<and> s = make_shape sha po bp bg br action ids inc"
proof -
  define mk where "mk = make_shape sha po bp bg br"
  define inc :: "holder \<Rightarrow> string list" where "inc h = included_ids po (ho_person h) (ho_action h) br" for h
  define skip :: "holder \<Rightarrow> bool" where "skip h = (ho_held h = [] \<or> (length (ho_held h) \<ge> 2 \<and> combo_key (ho_held h) \<notin> combo_key ` set emitted) \<or> inc h = [])" for h
  define base where "base = foldl (\<lambda>b (action, ids). set_default (action, combo_key ids, []) (mk action ids []) b) [] (base_shapes po emitted)"
  have "snd ` set (base_shapes po emitted) \<subseteq> comma_free"
    using assms(2,4) by (auto simp: base_shapes_def comma_free_def)
  then have b: "made mk comma_free base" unfolding base_def by (rule made_base [rotated]) (simp add: made_def)
  have h: "\<forall>h \<in> set holders. skip h \<or> ho_held h \<in> comma_free" using assms(3) by (auto simp: skip_def)
  from assms(1) have "s \<in> snd ` set (foldl (\<lambda>b h. if skip h then b else set_default (ho_action h, combo_key (ho_held h), inc h)
      (mk (ho_action h) (ho_held h) (inc h)) b) base holders)"
    unfolding all_shapes_def Let_def mk_def [symmetric] base_def [symmetric] inc_def [symmetric] skip_def [symmetric] set_map .
  then show ?thesis using made_holders [OF b h, of inc] unfolding made_def mk_def by force
qed

lemma holder_comma_free:
  assumes ok: "policy_ok po" and "h \<in> set (policy_holders po bg br)"
    and g: "\<forall>g \<in> set (po_grants po). gr_id g \<notin> bg \<longrightarrow> profile_by_id po (gr_profile_id g) \<noteq> None"
  shows "ho_held h = [] \<or> ho_held h \<in> comma_free"
proof -
  from assms(2) obtain who where h: "ho_held h = held_profiles (ho_person h) (po_grants po) (ho_action h) who (po_now po) bg"
    by (auto simp: policy_holders_def split: if_splits)
  have "CHR '','' \<notin> set x" if "x \<in> set (ho_held h)" for x
  proof -
    from that obtain g' where "g' \<in> set (po_grants po)" "gr_id g' \<notin> bg" "x = gr_profile_id g'"
      unfolding h held_profiles_set using reaches_sound by blast
    then obtain pr where "profile_by_id po x = Some pr" using g by blast
    then show ?thesis using ok profile_by_id_in [of po x pr] by (auto simp: policy_ok_def)
  qed
  then show ?thesis by (auto simp: comma_free_def)
qed

lemma held_comma_free:
  assumes ok: "policy_ok po" and g: "\<forall>g \<in> set (po_grants po). gr_id g \<notin> bg \<longrightarrow> profile_by_id po (gr_profile_id g) \<noteq> None"
    and "held_profiles p (po_grants po) action who now bg \<noteq> []"
  shows "held_profiles p (po_grants po) action who now bg \<in> comma_free"
proof -
  have "CHR '','' \<notin> set x" if x: "x \<in> set (held_profiles p (po_grants po) action who now bg)" for x
  proof -
    from x obtain g' where "g' \<in> set (po_grants po)" "gr_id g' \<notin> bg" "x = gr_profile_id g'"
      unfolding held_profiles_set using reaches_sound by blast
    then obtain pr where "profile_by_id po x = Some pr" using g by blast
    then show ?thesis using ok profile_by_id_in [of po x pr] by (auto simp: policy_ok_def)
  qed
  then show ?thesis using assms(3) by (simp add: comma_free_def)
qed

lemma outcome_shape:
  assumes "ou_shape (subject_outcome c po p action who) = Some s"
  shows "\<not> person_hidden po p action (broken_r c)"
    and "shape_for c po p action (held_profiles p (po_grants po) action who (po_now po) (broken_g c)) = Some s"
proof -
  define held where "held = held_profiles p (po_grants po) action who (po_now po) (broken_g c)"
  define over where "over = (length held \<ge> 2 \<and> combo_key held \<notin> set (co_emitted c))"
  note u = subject_outcome_def [of c po p action who] Let_def broken_r_def [symmetric] broken_g_def [symmetric] held_def [symmetric] over_def [symmetric]
  have h: "\<not> person_hidden po p action (broken_r c)" "\<not> over"
    using assms unfolding u by (simp_all split: if_splits)
  then show "\<not> person_hidden po p action (broken_r c)" by simp
  from assms h have "shape_for c po p action held = Some s"
    unfolding u by (simp split: option.splits)
  then show "shape_for c po p action (held_profiles p (po_grants po) action who (po_now po) (broken_g c)) = Some s"
    by (simp only: held_def)
qed

text \<open>The shape found for a subject is the one made for what the subject holds.\<close>

lemma found_shape:
  assumes c: "compile_policy isop sha po = Inr c" and ok: "policy_ok po"
    and s: "ou_shape (subject_outcome c po p action who) = Some s"
  defines "held \<equiv> held_profiles p (po_grants po) action who (po_now po) (broken_g c)"
  shows "s = make_shape sha po (broken_p c) (broken_g c) (broken_r c) action held (included_ids po p action (broken_r c)) \<and>
    held \<noteq> [] \<and> \<not> person_hidden po p action (broken_r c)"
proof -
  obtain emitted holders where cp: "holders = policy_holders po (broken_g c) (broken_r c)"
      "co_shapes c = all_shapes sha po (broken_p c) (broken_g c) (broken_r c) emitted holders"
      "co_emitted c = map combo_key emitted"
      "set emitted \<subseteq> {s \<in> ho_held ` set holders. length s \<ge> 2}"
      "\<forall>g \<in> set (po_grants po). gr_id g \<notin> broken_g c \<longrightarrow> grant_reasons isop po (broken_p c) g = Inr []"
      "\<forall>r \<in> set (po_restrictions po). rs_id r \<notin> broken_r c \<longrightarrow> restriction_reasons isop po r = Inr []"
    by (rule compile_parts [OF c])
  have known: "\<forall>g \<in> set (po_grants po). gr_id g \<notin> broken_g c \<longrightarrow> profile_by_id po (gr_profile_id g) \<noteq> None"
    using cp(5) grant_known by blast
  have hid: "\<not> person_hidden po p action (broken_r c)" by (rule outcome_shape(1) [OF s])
  have f: "shape_for c po p action held = Some s" unfolding held_def by (rule outcome_shape(2) [OF s])
  from f have held: "held \<noteq> []" and mem: "s \<in> set (co_shapes c)" and keys: "sh_action s = action" "sh_combo s = combo_key held"
      "sh_included s = included_ids po p action (broken_r c)"
    unfolding shape_for_def broken_r_def [symmetric] find_Some_iff by (metis (mono_tags, lifting) find_Some_iff nth_mem option.distinct(1))+
  have hs: "\<forall>h \<in> set holders. ho_held h = [] \<or> ho_held h \<in> comma_free"
    unfolding cp(1) using holder_comma_free [OF ok _ known] by blast
  have em: "set emitted \<subseteq> comma_free"
  proof
    fix ids assume "ids \<in> set emitted"
    then obtain h where "h \<in> set holders" "ids = ho_held h" "length ids \<ge> 2" using cp(4) by blast
    then show "ids \<in> comma_free" using hs by force
  qed
  obtain a ids inc where ids: "ids \<in> comma_free" "s = make_shape sha po (broken_p c) (broken_g c) (broken_r c) a ids inc"
    using all_shapes_made [OF mem [unfolded cp(2)] _ hs em] ok by (auto simp: policy_ok_def)
  have "held \<in> comma_free" using held_comma_free [OF ok known, of p action who "po_now po"] held by (simp add: held_def)
  then have "sort ids = sort held"
    using combo_key_inject [of ids held] ids keys(2) held by (auto simp: comma_free_def make_shape_keys)
  from make_shape_sort [OF this] have "s = make_shape sha po (broken_p c) (broken_g c) (broken_r c) action held (included_ids po p action (broken_r c))"
    using ids(2) keys(1,3) by (simp add: make_shape_keys)
  then show ?thesis using held hid by simp
qed

lemma held_unbroken:
  assumes "compile_policy isop sha po = Inr c"
    and "i \<in> set (held_profiles p (po_grants po) action who (po_now po) (broken_g c))"
  shows "i \<notin> broken_p c \<and> profile_by_id po i \<noteq> None"
proof -
  obtain emitted holders where cp: "holders = policy_holders po (broken_g c) (broken_r c)"
      "co_shapes c = all_shapes sha po (broken_p c) (broken_g c) (broken_r c) emitted holders"
      "co_emitted c = map combo_key emitted"
      "set emitted \<subseteq> {s \<in> ho_held ` set holders. length s \<ge> 2}"
      "\<forall>g \<in> set (po_grants po). gr_id g \<notin> broken_g c \<longrightarrow> grant_reasons isop po (broken_p c) g = Inr []"
      "\<forall>r \<in> set (po_restrictions po). rs_id r \<notin> broken_r c \<longrightarrow> restriction_reasons isop po r = Inr []"
    by (rule compile_parts [OF assms(1)])
  from assms(2) obtain g where "g \<in> set (po_grants po)" "gr_id g \<notin> broken_g c" "i = gr_profile_id g"
    unfolding held_profiles_set using reaches_sound by blast
  then show ?thesis using cp(5) grant_known by blast
qed

end
