(* ===== verification/Access_Exact.thy ===== *)
theory Access_Exact
  imports Access_Spec
begin

text \<open>The rows and the cells of a profile view, against the specification of \<open>Access_Spec\<close>.\<close>

section \<open>What a query shows\<close>

definition id_sem :: "access_policy \<Rightarrow> acl_context \<Rightarrow> sql_env \<Rightarrow> string \<Rightarrow> bool option" where
  "id_sem po cx env i = (case restriction_by_id po i of None \<Rightarrow> None | Some r \<Rightarrow> pred_sem cx env (applies_pred True None r))"

lemma rule_preds:
  assumes "map_ok (\<lambda>rule. ok_bind (compiled_rule isop rule (attrs_by_id po) True None (\<lambda>_. [])) (\<lambda>e. Inr (Pred_Rule e))) rules = Inr ps"
  shows "list_all (\<lambda>p. pred_sem cx env p = Some True) ps \<longleftrightarrow> (\<forall>rule \<in> set rules. rule_holds isop po env rule)"
  using assms by (induction rules arbitrary: ps) (auto simp: ok_bind_Inr rule_holds_def)

lemma included_preds:
  "map_ok (applies_by_id po True None) ids = Inr ps \<Longrightarrow>
   list_all (\<lambda>p. pred_sem cx env p = Some True) ps \<longleftrightarrow> (\<forall>i \<in> set ids. id_sem po cx env i = Some True)"
  by (induction ids arbitrary: ps) (auto simp: ok_bind_Inr applies_by_id_def id_sem_def split: option.splits)

lemma excluded_preds:
  "map_ok (\<lambda>i. ok_bind (applies_by_id po True None i) (\<lambda>p. Inr (Pred_Not p))) ids = Inr ps \<Longrightarrow>
   list_all (\<lambda>p. pred_sem cx env p = Some True) ps \<longleftrightarrow> (\<forall>i \<in> set ids. id_sem po cx env i = Some False)"
  by (induction ids arbitrary: ps) (auto simp: ok_bind_Inr applies_by_id_def id_sem_def split: option.splits)

lemma preds_sem:
  assumes "view_preds isop po s True None = Inr ps"
  shows "list_all (\<lambda>p. pred_sem cx env p = Some True) ps \<longleftrightarrow>
    cx_rev cx (po_entity po) = Some (po_revision po) \<and> (\<forall>rule \<in> set (sh_rules s). rule_holds isop po env rule) \<and>
    (\<forall>i \<in> set (sh_included s). id_sem po cx env i = Some True) \<and>
    (\<forall>i \<in> set (sh_excluded s @ sh_hide s). id_sem po cx env i = Some False) \<and> \<not> sh_empty s"
proof -
  from assms obtain rules ins outs where
    r: "map_ok (\<lambda>rule. ok_bind (compiled_rule isop rule (attrs_by_id po) True None (\<lambda>_. [])) (\<lambda>e. Inr (Pred_Rule e))) (sh_rules s) = Inr rules" and
    i: "map_ok (applies_by_id po True None) (sh_included s) = Inr ins" and
    o: "map_ok (\<lambda>i. ok_bind (applies_by_id po True None i) (\<lambda>p. Inr (Pred_Not p))) (sh_excluded s @ sh_hide s) = Inr outs" and
    ps: "ps = Pred_Rev (po_entity po) (po_revision po) # rules @ ins @ outs @ (if sh_empty s then [Pred_Const False] else [])"
    unfolding view_preds_def ok_bind_Inr by auto
  show ?thesis
    unfolding ps by (simp add: rule_preds [OF r] included_preds [OF i] excluded_preds [OF o] del: set_append)
qed

lemma flags_sem:
  assumes "map_ok (grant_flag isop po True None (\<lambda>_. [])) gs = Inr fs"
  shows "list_ex (\<lambda>f. P (fst f) \<and> flag_sem cx env f) fs \<longleftrightarrow>
    (\<exists>g \<in> set gs. P (gr_id g) \<and> gr_id g \<in> set (cx_grants cx) \<and> rule_holds isop po env (gr_rule g))"
  using assms
  by (induction gs arbitrary: fs) (auto simp: ok_bind_Inr grant_flag_def flag_sem_def grant_gate_def rule_holds_def)

lemma query_parts:
  assumes "view_query isop po s True None None (\<lambda>_. []) = Inr q"
  defines "single \<equiv> length (sh_profiles s) \<le> 1 \<or> (\<not> sh_withheld s \<and> \<not> list_ex cp_varying (sh_columns s))"
  shows "map_ok (grant_flag isop po True None (\<lambda>_. [])) (sh_grants s) = Inr (vq_flags q)"
    and "view_preds isop po s True None = Inr (vq_preds q)"
    and "vq_columns q = map (\<lambda>c. (cp_attr c, if single then Col_Mask (first_mode c) else combo_expr c)) (sh_columns s)"
  using assms unfolding view_query_def Let_def ok_bind_Inr by auto

lemma flag_named_iff:
  assumes "view_query isop po s True None None (\<lambda>_. []) = Inr q"
  shows "flag_named cx env q i \<longleftrightarrow>
    (\<exists>g \<in> set (sh_grants s). gr_id g = i \<and> i \<in> set (cx_grants cx) \<and> rule_holds isop po env (gr_rule g))"
  unfolding flag_named_def using flags_sem [OF query_parts(1) [OF assms], of "\<lambda>j. j = i" cx env] by auto

lemma shows_iff:
  assumes "view_query isop po s True None None (\<lambda>_. []) = Inr q"
  shows "view_shows cx env q \<longleftrightarrow>
    cx_rev cx (po_entity po) = Some (po_revision po) \<and> (\<forall>rule \<in> set (sh_rules s). rule_holds isop po env rule) \<and>
    (\<forall>i \<in> set (sh_included s). id_sem po cx env i = Some True) \<and>
    (\<forall>i \<in> set (sh_excluded s @ sh_hide s). id_sem po cx env i = Some False) \<and> \<not> sh_empty s \<and>
    (\<exists>g \<in> set (sh_grants s). gr_id g \<in> set (cx_grants cx) \<and> rule_holds isop po env (gr_rule g))"
  unfolding view_shows_def preds_sem [OF query_parts(2) [OF assms]]
  using flags_sem [OF query_parts(1) [OF assms], of "\<lambda>_. True" cx env] by simp

section \<open>Subjects in the signed context\<close>

lemma context_keys_cover:
  assumes "context_attribute_keys isop po = Inr keys" and "r \<in> set (po_restrictions po)"
  shows "set (restriction_keys r) \<subseteq> set keys"
proof -
  from assms(1) obtain gs rs where
    rs: "list_all2 (\<lambda>r ks. ok_bind (rule_keys isop po (rs_rule r)) (\<lambda>ks. Inr (ks @ restriction_keys r)) = Inr ks) (po_restrictions po) rs"
    and keys: "keys = concat (gs @ rs)"
    unfolding context_attribute_keys_def ok_bind_Inr map_ok_Inr by auto
  obtain n where n: "n < length (po_restrictions po)" "r = po_restrictions po ! n" using assms(2) by (auto simp: in_set_conv_nth)
  obtain ks where "ks @ restriction_keys r = rs ! n"
    using list_all2_nthD [OF rs n(1)] n(2) by (auto simp: ok_bind_Inr)
  then have "set (restriction_keys r) \<subseteq> set (rs ! n)" by (metis set_append Un_upper2)
  moreover have "rs ! n \<in> set rs" using n(1) list_all2_lengthD [OF rs] by simp
  ultimately show ?thesis unfolding keys by auto
qed

lemma match_person:
  assumes "set (restriction_keys r) \<subseteq> set keys" and "rs_mode r \<noteq> ''all''" and "(kind, i) \<in> set (rs_subjects r)"
    and "kind \<in> {''user'', ''role'', ''group''}" and "cx_attrs cx = context_attrs po p keys"
  shows "match_sem cx (kind, i) =
    (if kind = ''role'' then map_option (\<lambda>r. r = i) (pe_role p) else Some (person_hit p kind i))"
proof -
  have k: "kind \<in> set (map fst (rs_subjects r))" using assms(3) by force
  have keys: "''__access_subject'' \<in> set keys" "kind = ''role'' \<Longrightarrow> ''__access_role'' \<in> set keys"
      "kind = ''group'' \<Longrightarrow> ''__access_groups'' \<in> set keys"
    using assms(1,2) k by (simp_all add: restriction_keys_def)
  from assms(4) consider "kind = ''user''" | "kind = ''role''" | "kind = ''group''" by auto
  then show ?thesis
    by cases (use keys in \<open>simp_all add: match_sem_def subject_text_def subject_text_array_def assms(5) context_attrs_def person_hit_def\<close>)
qed

lemma match_subjects:
  assumes "\<forall>(kind, i) \<in> set ss. match_sem cx (kind, i) = Some (person_hit p kind i)"
  shows "pred_sem cx env (Pred_Match ss) = Some (list_ex (\<lambda>(kind, i). person_hit p kind i) ss)"
proof -
  have "list_ex (\<lambda>s. match_sem cx s = Some True) ss = list_ex (\<lambda>(kind, i). person_hit p kind i) ss"
    using assms by (induction ss) auto
  moreover have "\<not> list_ex (\<lambda>s. match_sem cx s = None) ss" using assms by (induction ss) auto
  ultimately show ?thesis by simp
qed

lemma applies_sem:
  assumes ok: "policy_ok po" "\<not> unmatched_role r p" and r: "r \<in> set (po_restrictions po)"
    and keys: "context_attribute_keys isop po = Inr keys" and cx: "cx_attrs cx = context_attrs po p keys"
  shows "pred_sem cx env (applies_pred True None r) = Some (rs_mode r = ''all'' \<or> applies_to r p)"
proof (cases "rs_mode r = ''all''")
  case False
  have part: "match_sem cx (kind, i) = (if kind = ''role'' then map_option (\<lambda>x. x = i) (pe_role p) else Some (person_hit p kind i))"
    if s: "(kind, i) \<in> set (rs_subjects r)" for kind i
  proof -
    have k: "kind \<in> {''user'', ''role'', ''group''}" using ok(1) r s by (force simp: policy_ok_def)
    show ?thesis by (rule match_person [OF context_keys_cover [OF keys r] False s k cx])
  qed
  have "pred_sem cx env (Pred_Match (rs_subjects r)) = Some (list_ex (\<lambda>(kind, i). person_hit p kind i) (rs_subjects r))"
  proof (cases "pe_role p = None \<and> ''role'' \<in> set (map fst (rs_subjects r))")
    case True
    then obtain kind i where s: "(kind, i) \<in> set (rs_subjects r)" "person_hit p kind i"
      using ok(2) False by (auto simp: unmatched_role_def list_ex_iff)
    then have "kind \<noteq> ''role''" using True by (auto simp: person_hit_def)
    then have "match_sem cx (kind, i) = Some True" using part [OF s(1)] s(2) by simp
    then have "list_ex (\<lambda>s. match_sem cx s = Some True) (rs_subjects r)" using s(1) unfolding list_ex_iff by blast
    moreover have "list_ex (\<lambda>(kind, i). person_hit p kind i) (rs_subjects r)" using s by (auto simp: list_ex_iff)
    ultimately show ?thesis by simp
  next
    case all: False
    have "match_sem cx (kind, i) = Some (person_hit p kind i)" if s: "(kind, i) \<in> set (rs_subjects r)" for kind i
    proof -
      have "kind = ''role'' \<Longrightarrow> \<exists>x. pe_role p = Some x" using all s by force
      then show ?thesis using part [OF s] by (auto simp: person_hit_def)
    qed
    then show ?thesis by (intro match_subjects) auto
  qed
  then show ?thesis using False by (simp add: applies_pred_def applies_to_def Let_def del: pred_sem.simps(4))
qed (simp add: applies_pred_def)

lemma restriction_found:
  assumes "policy_ok po" and "r \<in> set (po_restrictions po)"
  shows "restriction_by_id po (rs_id r) = Some r"
proof -
  have "distinct (map fst (rev (map (\<lambda>r. (rs_id r, r)) (po_restrictions po))))"
    using assms(1) by (simp add: policy_ok_def comp_def rev_map [symmetric])
  then show ?thesis unfolding restriction_by_id_def by (rule map_of_is_SomeI) (use assms(2) in simp)
qed

section \<open>Rows\<close>

lemma made_fields:
  fixes sha po bp bg br action held inc
  defines "s \<equiv> make_shape sha po bp bg br action held inc"
  shows "set (sh_grants s) = {g \<in> set (po_grants po). gr_profile_id g \<in> set held \<and> gr_status g = ''active'' \<and>
      action \<in> set (gr_actions g) \<and> gr_id g \<notin> bg}"
    and "sh_rules s = map rs_rule (filter (\<lambda>r. in_shape action br inc r \<and> rs_rule r \<noteq> JNull) (po_restrictions po))"
    and "sh_included s = inc"
    and "sh_excluded s = filter (\<lambda>i. i \<notin> set inc) (map rs_id (filter (\<lambda>r. rs_id r \<notin> br)
      (filter (\<lambda>r. rs_mode r \<noteq> ''all'' \<and> action \<in> set (rs_actions r)) (po_restrictions po))))"
    and "sh_hide s = map rs_id (filter (\<lambda>r. rs_id r \<in> br)
      (filter (\<lambda>r. rs_mode r \<noteq> ''all'' \<and> action \<in> set (rs_actions r)) (po_restrictions po)))"
    and "sh_empty s = (list_ex (\<lambda>r. rs_mode r = ''all'' \<and> action \<in> set (rs_actions r) \<and> rs_id r \<in> br) (po_restrictions po) \<or>
      list_ex (\<lambda>i. i \<in> bp) (sort held))"
    and "sh_profiles s = sort held"
    and "\<not> sh_empty s \<Longrightarrow> sh_columns s = shape_columns po (sort held) (sh_grants s) (shape_denies po action br inc) (shape_ceilings po action br inc)"
    and "sh_withheld s = (list_ex cp_varying (sh_columns s) \<and> length held > 1)"
proof -
  show "set (sh_grants s) = {g \<in> set (po_grants po). gr_profile_id g \<in> set held \<and> gr_status g = ''active'' \<and>
      action \<in> set (gr_actions g) \<and> gr_id g \<notin> bg}"
    unfolding s_def make_shape_def Let_def shape.select_convs set_sort set_filter ..
  show "sh_withheld s = (list_ex cp_varying (sh_columns s) \<and> length held > 1)"
    unfolding s_def make_shape_def Let_def shape.select_convs by (rule refl)
  show "sh_columns s = shape_columns po (sort held) (sh_grants s) (shape_denies po action br inc) (shape_ceilings po action br inc)"
    if "\<not> sh_empty s"
  proof -
    have "sh_columns s = (if sh_empty s then [] else
        shape_columns po (sort held) (sh_grants s) (shape_denies po action br inc) (shape_ceilings po action br inc))"
      unfolding s_def make_shape_def Let_def shape.select_convs by (rule refl)
    then show ?thesis unfolding if_not_P [OF that] .
  qed
qed (unfold s_def make_shape_def Let_def shape.select_convs, (rule refl)+)

lemma hidden_cases:
  assumes "\<not> person_hidden po p action br" and "r \<in> set (po_restrictions po)" and "action \<in> set (rs_actions r)" and "rs_id r \<in> br"
  shows "rs_mode r \<noteq> ''all'' \<and> \<not> applies_to r p"
  using assms unfolding person_hidden_def list_ex_iff by blast

lemma same_id:
  assumes "policy_ok po" and "r \<in> set (po_restrictions po)" and "r' \<in> set (po_restrictions po)" and "rs_id r = rs_id r'"
  shows "r = r'"
  by (rule option.inject [THEN iffD1])
    (simp only: restriction_found [OF assms(1,2), symmetric] restriction_found [OF assms(1,3), symmetric] assms(4))

lemma same_grant:
  assumes "policy_ok po" and "g \<in> set (po_grants po)" and "g' \<in> set (po_grants po)" and "gr_id g = gr_id g'"
  shows "g = g'"
  using assms unfolding policy_ok_def distinct_map by (blast dest: inj_onD)

lemma included_iff:
  assumes "policy_ok po" and "r \<in> set (po_restrictions po)"
  shows "rs_id r \<in> set (included_ids po p action br) \<longleftrightarrow>
    rs_mode r \<noteq> ''all'' \<and> action \<in> set (rs_actions r) \<and> rs_id r \<notin> br \<and> applies_to r p"
proof -
  have "has_effect r" using assms by (auto simp: policy_ok_def)
  then show ?thesis using assms(2) same_id [OF assms(1,2)] unfolding included_ids_def by (auto simp: image_iff)
qed

lemma in_shape_iff:
  assumes "policy_ok po" and "\<not> person_hidden po p action br"
  shows "filter (in_shape action br (included_ids po p action br)) (po_restrictions po) = in_force po p action"
  unfolding in_force_def
proof (rule filter_cong [OF refl])
  fix r assume r: "r \<in> set (po_restrictions po)"
  show "in_shape action br (included_ids po p action br) r = (action \<in> set (rs_actions r) \<and> (rs_mode r = ''all'' \<or> applies_to r p))"
    using included_iff [OF assms(1) r, of p action br] hidden_cases [OF assms(2) r] unfolding in_shape_def by blast
qed

lemma rule_holds_null [simp]: "rule_holds isop po env JNull"
  by (simp add: rule_holds_def compiled_rule_def)

lemma effective_in_shape:
  fixes po bg p action who
  assumes "policy_ok po" and "g \<in> set (po_grants po)"
  defines "eff \<equiv> effective_grants po bg p action who"
    and "held \<equiv> held_profiles p (po_grants po) action who (po_now po) bg"
  shows "(gr_profile_id g \<in> set held \<and> gr_status g = ''active'' \<and> action \<in> set (gr_actions g) \<and> gr_id g \<notin> bg) \<and>
    gr_id g \<in> gr_id ` set eff \<longleftrightarrow> g \<in> set eff"
proof -
  have eff: "set eff = {g \<in> set (po_grants po). grant_reaches g p action who (po_now po) bg}"
    by (auto simp: eff_def effective_grants_def)
  have "gr_id g \<in> gr_id ` set eff \<longleftrightarrow> g \<in> set eff"
    using same_grant [OF assms(1,2)] assms(2) unfolding eff by (auto simp: image_iff)
  moreover have "gr_profile_id g \<in> set held" "gr_status g = ''active''" "action \<in> set (gr_actions g)" "gr_id g \<notin> bg" if "g \<in> set eff"
    using that reaches_sound unfolding eff held_def held_profiles_set by blast+
  ultimately show ?thesis by blast
qed

lemma context_fields:
  assumes "issue_context isop po c p action who = Inr cx"
  obtains keys where "context_attribute_keys isop po = Inr keys" and "cx_attrs cx = context_attrs po p keys"
    and "set (cx_grants cx) = gr_id ` set (effective_grants po (broken_g c) p action who)"
    and "cx_rev cx (po_entity po) = Some (po_revision po)"
  using assms unfolding issue_context_def ok_bind_Inr broken_g_def by auto

lemma rows_exact:
  assumes c: "compile_policy isop sha po = Inr c" and ok: "policy_ok po"
      "\<forall>r \<in> set (po_restrictions po). action \<in> set (rs_actions r) \<longrightarrow> \<not> unmatched_role r p"
    and s: "ou_shape (subject_outcome c po p action who) = Some s"
    and cx: "issue_context isop po c p action who = Inr cx"
    and q: "view_query isop po s True None None (\<lambda>_. []) = Inr q"
  shows "view_shows cx env q \<longleftrightarrow> admitted isop po p action (effective_grants po (broken_g c) p action who) env"
proof -
  define eff where "eff = effective_grants po (broken_g c) p action who"
  define held where "held = held_profiles p (po_grants po) action who (po_now po) (broken_g c)"
  define inc where "inc = included_ids po p action (broken_r c)"
  have f: "s = make_shape sha po (broken_p c) (broken_g c) (broken_r c) action held inc" "held \<noteq> []"
      "\<not> person_hidden po p action (broken_r c)"
    using found_shape [OF c ok(1) s] by (simp_all add: held_def inc_def)
  obtain keys where k: "context_attribute_keys isop po = Inr keys" "cx_attrs cx = context_attrs po p keys"
      "set (cx_grants cx) = gr_id ` set eff" "cx_rev cx (po_entity po) = Some (po_revision po)"
    using context_fields [OF cx] unfolding eff_def .
  note fields = made_fields [of sha po "broken_p c" "broken_g c" "broken_r c" action held inc, folded f(1)]
  have ids: "id_sem po cx env (rs_id r) = Some (rs_mode r = ''all'' \<or> applies_to r p)"
    if "r \<in> set (po_restrictions po)" "action \<in> set (rs_actions r)" for r
    using restriction_found [OF ok(1) that(1)] applies_sem [OF ok(1) _ that(1) k(1,2)] ok(2) that by (simp add: id_sem_def)
  have "id_sem po cx env i = Some True" if i: "i \<in> set inc" for i
  proof -
    from i obtain r where "r \<in> set (po_restrictions po)" "action \<in> set (rs_actions r)" "i = rs_id r" "applies_to r p"
      by (auto simp: inc_def included_ids_def)
    then show ?thesis using ids by simp
  qed
  moreover have "id_sem po cx env i = Some False" if i: "i \<in> set (sh_excluded s @ sh_hide s)" for i
  proof -
    from i obtain r where r: "r \<in> set (po_restrictions po)" "i = rs_id r" "rs_mode r \<noteq> ''all''" "action \<in> set (rs_actions r)"
      "rs_id r \<in> broken_r c \<or> rs_id r \<notin> set inc" unfolding fields(4,5) by auto
    then have "\<not> applies_to r p"
      using hidden_cases [OF f(3) r(1,4)] included_iff [OF ok(1) r(1), of p action "broken_r c"] by (auto simp: inc_def)
    then show ?thesis using ids [OF r(1,4)] r by simp
  qed
  moreover have "(\<forall>rule \<in> set (sh_rules s). rule_holds isop po env rule) \<longleftrightarrow>
      (\<forall>r \<in> set (in_force po p action). rule_holds isop po env (rs_rule r))"
  proof -
    have "set (sh_rules s) = rs_rule ` {r \<in> set (in_force po p action). rs_rule r \<noteq> JNull}"
      unfolding fields(2) in_shape_iff [OF ok(1) f(3), folded inc_def, symmetric] by auto
    then show ?thesis by auto
  qed
  moreover have "\<not> sh_empty s"
  proof -
    have "i \<notin> broken_p c" if "i \<in> set held" for i
      using held_unbroken [OF c, of i p action who] that by (simp add: held_def)
    then show ?thesis using hidden_cases [OF f(3)] unfolding fields(6) list_ex_iff set_sort by blast
  qed
  moreover have "(\<exists>g \<in> set (sh_grants s). gr_id g \<in> set (cx_grants cx) \<and> rule_holds isop po env (gr_rule g)) \<longleftrightarrow>
      (\<exists>g \<in> set eff. rule_holds isop po env (gr_rule g))"
  proof -
    have "set eff \<subseteq> set (po_grants po)" by (auto simp: eff_def effective_grants_def)
    then show ?thesis
      using effective_in_shape [OF ok(1), where bg = "broken_g c" and p = p and action = action and who = who, folded eff_def held_def]
      unfolding fields(1) k(3) by blast
  qed
  ultimately show ?thesis
    unfolding shows_iff [OF q] fields(3) k(4) admitted_def list_all_iff list_ex_iff eff_def by blast
qed

end
