(* ===== verification/Access_Cells.thy ===== *)
theory Access_Cells
  imports Access_Exact
begin

text \<open>The cells of a profile view: the plan of a column presents the most revealing of the modes its grants allow.\<close>

section \<open>Ladders\<close>

lemma ladder_some: "ladder po i \<noteq> []"
  by (simp add: ladder_def split: option.split list.split)

lemma ladder_distinct: "policy_ok po \<Longrightarrow> distinct (map lv_key (ladder po i))"
  by (auto simp: ladder_def policy_ok_def dest!: map_of_SomeD split: option.split list.split)

lemma level_index_from_bound: "level_index_from ls key n = Some m \<Longrightarrow> n \<le> m \<and> m < n + length ls"
  by (induction ls arbitrary: n) (force split: if_splits)+

lemma level_index_bound: "ls \<noteq> [] \<Longrightarrow> level_index ls key < length ls"
  using level_index_from_bound [of ls key 0] by (auto simp: level_index_def split: option.split)

lemma level_index_from_nth:
  "distinct (map lv_key ls) \<Longrightarrow> r < length ls \<Longrightarrow> level_index_from ls (lv_key (ls ! r)) n = Some (n + r)"
proof (induction ls arbitrary: r n)
  case (Cons l ls)
  show ?case
  proof (cases r)
    case (Suc k)
    then have "ls ! k \<in> set ls" using Cons.prems by simp
    then have "lv_key (ls ! k) \<noteq> lv_key l" using Cons.prems by (auto simp: image_iff)
    then show ?thesis using Suc Cons.IH [of k "Suc n"] Cons.prems by auto
  qed simp
qed simp

lemma level_index_nth: "distinct (map lv_key ls) \<Longrightarrow> r < length ls \<Longrightarrow> level_index ls (lv_key (ls ! r)) = r"
  using level_index_from_nth [of ls r 0] by (simp add: level_index_def)

lemma lowered_bound:
  assumes "ls \<noteq> []"
  shows "lowered_rank key ls ceilings < length ls"
proof -
  have "r < length ls \<Longrightarrow> foldl (\<lambda>r k. if level_index ls k > r then level_index ls k else r) r ceilings < length ls" for r
    using level_index_bound [OF assms] by (induction ceilings arbitrary: r) auto
  then show ?thesis unfolding lowered_rank_def using level_index_bound [OF assms] by blast
qed

lemma lowered_max: "lowered_rank key ls ceilings = Max (set (map (level_index ls) (key # ceilings)))"
proof -
  have "foldl (\<lambda>r k. if level_index ls k > r then level_index ls k else r) r ceilings = Max (insert r (set (map (level_index ls) ceilings)))" for r
  proof (induction ceilings arbitrary: r)
    case (Cons k ceilings)
    have "(if level_index ls k > r then level_index ls k else r) = max r (level_index ls k)" by simp
    moreover have "Max (insert (max r (level_index ls k)) (set (map (level_index ls) ceilings))) =
        Max (insert r (set (map (level_index ls) (k # ceilings))))"
      by (cases "ceilings = []") (simp_all add: max.assoc)
    ultimately show ?case using Cons.IH by (simp only: foldl_Cons)
  qed simp
  then show ?thesis unfolding lowered_rank_def by simp
qed

section \<open>The plan of a column\<close>

lemma levels_filter:
  "levels_by_profile po ids i = map (\<lambda>pid. (pid, the (profile_level po pid i))) (filter (\<lambda>pid. profile_level po pid i \<noteq> None) ids)"
  unfolding levels_by_profile_def by (induction ids) (auto split: option.split)

lemma levels_lookup: "pid \<in> set ids \<Longrightarrow> map_of (levels_by_profile po ids i) pid = profile_level po pid i"
  by (cases "profile_level po pid i") (simp_all add: levels_filter map_of_map_restrict restrict_map_def)

definition plan_rank :: "access_policy \<Rightarrow> string list \<Rightarrow> string \<Rightarrow> grant \<Rightarrow> nat option" where
  "plan_rank po ceilings i g = map_option (\<lambda>k. lowered_rank k (ladder po i) ceilings) (profile_level po (gr_profile_id g) i)"

definition plan_entry :: "access_policy \<Rightarrow> string list \<Rightarrow> string \<Rightarrow> grant \<Rightarrow> (nat \<times> string \<times> mask_mode) option" where
  "plan_entry po ceilings i g = map_option (\<lambda>r. (r, gr_id g, lv_mode (ladder po i ! r))) (plan_rank po ceilings i g)"

lemma ranked_entries:
  assumes "policy_ok po" and "\<forall>g \<in> set grants. gr_profile_id g \<in> set ids"
  shows "set (ranked_modes po (levels_by_profile po ids i) grants ceilings i) = {x. \<exists>g \<in> set grants. plan_entry po ceilings i g = Some x}"
proof -
  define ls where "ls = ladder po i"
  have "level_index ls (lv_key (ls ! lowered_rank k ls ceilings)) = lowered_rank k ls ceilings" for k
    unfolding ls_def by (rule level_index_nth [OF ladder_distinct [OF assms(1)] lowered_bound [OF ladder_some]])
  then have "set (case map_of (levels_by_profile po ids i) (gr_profile_id g) of None \<Rightarrow> []
      | Some k \<Rightarrow> (let ls = ladder po i; l = ls ! lowered_rank k ls ceilings in [(level_index ls (lv_key l), gr_id g, lv_mode l)])) =
      {x. plan_entry po ceilings i g = Some x}" if "g \<in> set grants" for g
    using assms(2) that levels_lookup [of "gr_profile_id g" ids po i]
    by (cases "profile_level po (gr_profile_id g) i") (auto simp: plan_entry_def plan_rank_def ls_def Let_def)
  then show ?thesis unfolding ranked_modes_def by auto
qed

lemma find_sorted:
  assumes "sorted (map k xs)" and "List.find P xs = Some x"
  shows "x \<in> set xs \<and> P x \<and> (\<forall>y \<in> set xs. P y \<longrightarrow> k x \<le> k y)"
  using assms by (induction xs) (auto split: if_splits simp: find_None_iff)

lemma find_mapped: "List.find P (map f xs) = map_option f (List.find (P \<circ> f) xs)"
  by (induction xs) auto

lemma first_of_case:
  fixes ranked :: "(nat \<times> string \<times> 'a) list"
  assumes "x \<in> set ranked" and "P (fst (snd x))"
  obtains y where "y \<in> set ranked" and "P (fst (snd y))" and "\<forall>z \<in> set ranked. P (fst (snd z)) \<longrightarrow> fst y \<le> fst z"
    and "List.find (\<lambda>w. P (fst w)) (map snd (sort_key (\<lambda>x. (fst x, fst (snd x))) ranked)) = Some (snd y)"
proof -
  define xs where "xs = sort_key (\<lambda>x :: nat \<times> string \<times> 'a. (fst x, fst (snd x))) ranked"
  have set_xs: "set xs = set ranked" by (simp add: xs_def)
  have sorted: "sorted (map (\<lambda>x. (fst x, fst (snd x))) xs)" by (simp add: xs_def)
  have "List.find ((\<lambda>w. P (fst w)) \<circ> snd) xs \<noteq> None" unfolding find_None_iff set_xs comp_def using assms by blast
  then obtain y where y: "List.find ((\<lambda>w. P (fst w)) \<circ> snd) xs = Some y" by blast
  have "y \<in> set ranked" "P (fst (snd y))" "\<forall>z \<in> set ranked. P (fst (snd z)) \<longrightarrow> fst y \<le> fst z"
    using find_sorted [OF sorted y] by (auto simp: set_xs less_eq_prod_def)
  then show thesis by (rule that) (simp add: find_mapped y flip: xs_def)
qed

lemma column_parts:
  assumes "column_of po ids grants ceilings a = Some c"
  shows "cp_attr c = a"
    and "cp_modes c = map snd (sort_key (\<lambda>x. (fst x, fst (snd x)))
      (ranked_modes po (levels_by_profile po ids (af_id a)) grants ceilings (af_id a)))"
    and "cp_varying c = (length (levels_by_profile po ids (af_id a)) < length ids \<or>
      length (remdups (map snd (levels_by_profile po ids (af_id a)))) > 1)"
    and "levels_by_profile po ids (af_id a) \<noteq> []"
  using assms unfolding column_of_def Let_def by (auto split: if_splits)

lemma column_found: "column_of po ids grants ceilings a \<noteq> None \<longleftrightarrow> (\<exists>pid \<in> set ids. profile_level po pid (af_id a) \<noteq> None)"
  unfolding column_of_def Let_def by (auto simp: levels_filter filter_empty_conv)

text \<open>A column that does not vary is listed at one level by every profile.\<close>

lemma steady_level:
  assumes c: "column_of po ids grants ceilings a = Some c" and "\<not> cp_varying c \<or> length ids \<le> 1"
  shows "\<exists>k. \<forall>pid \<in> set ids. profile_level po pid (af_id a) = Some k"
proof -
  define levels where "levels = levels_by_profile po ids (af_id a)"
  have set_levels: "snd ` set levels = {k. \<exists>pid \<in> set ids. profile_level po pid (af_id a) = Some k}"
    by (force simp: levels_def levels_filter image_iff)
  have some: "levels \<noteq> []" using column_parts(4) [OF c] by (simp add: levels_def)
  have "length levels = length ids \<and> length (remdups (map snd levels)) \<le> 1"
  proof (cases "cp_varying c")
    case True
    then have "length ids \<le> 1" using assms(2) by blast
    moreover have "length levels \<le> length ids" by (simp add: levels_def levels_filter)
    moreover have "length (remdups (map snd levels)) \<le> length levels" by (metis length_map length_remdups_leq)
    ultimately show ?thesis using some by (cases levels) auto
  next
    case False
    moreover have "length levels \<le> length ids" by (simp add: levels_def levels_filter)
    ultimately show ?thesis using column_parts(3) [OF c] by (auto simp: levels_def)
  qed
  then have len: "length levels = length ids" and one: "card (snd ` set levels) \<le> 1"
    by (simp_all add: length_remdups_card_conv)
  have every: "\<forall>pid \<in> set ids. profile_level po pid (af_id a) \<noteq> None"
    using len length_filter_less [of _ ids "\<lambda>pid. profile_level po pid (af_id a) \<noteq> None"]
    unfolding levels_def levels_filter length_map by (metis (no_types, lifting) less_irrefl)
  have "snd ` set levels \<noteq> {}" using some by simp
  then have "0 < card (snd ` set levels)" by (simp only: card_gt_0_iff) simp
  then have "card (snd ` set levels) = 1" using one by linarith
  then obtain k where "snd ` set levels = {k}" by (rule card_1_singletonE)
  then have single: "\<And>pid k'. pid \<in> set ids \<Longrightarrow> profile_level po pid (af_id a) = Some k' \<Longrightarrow> k' = k"
    unfolding set_levels by (metis (mono_tags, lifting) mem_Collect_eq singletonD)
  show ?thesis
  proof (intro exI ballI)
    fix pid assume pid: "pid \<in> set ids"
    then obtain k' where "profile_level po pid (af_id a) = Some k'" using every by blast
    then show "profile_level po pid (af_id a) = Some k" using single [OF pid] by blast
  qed
qed

section \<open>Cells\<close>

text \<open>\<open>grants\<close> are those of the shape, \<open>live\<close> says which of them are active and admit the row.\<close>

lemma column_best:
  assumes ok: "policy_ok po" and ids: "\<forall>g \<in> set grants. gr_profile_id g \<in> set ids" and cover: "\<forall>pid \<in> set ids. \<exists>g \<in> set grants. gr_profile_id g = pid"
    and c: "column_of po ids grants ceilings a = Some c"
    and flags: "\<And>i. flag_named cx env q i \<longleftrightarrow> (\<exists>g \<in> set grants. gr_id g = i \<and> live g)"
    and unique: "\<And>g g'. g \<in> set grants \<Longrightarrow> g' \<in> set grants \<Longrightarrow> gr_id g = gr_id g' \<Longrightarrow> g = g'"
    and shown: "\<exists>g \<in> set grants. live g" and steady: "steady \<Longrightarrow> \<not> cp_varying c"
  defines "ranks \<equiv> {r. \<exists>g \<in> set grants. live g \<and> plan_rank po ceilings (af_id a) g = Some r}"
    and "x \<equiv> (if length ids \<le> 1 \<or> steady then Col_Mask (first_mode c) else combo_expr c)"
  shows "col_mode cx env q x = (if ranks = {} then None else Some (lv_mode (ladder po (af_id a) ! Min ranks)))"
proof -
  define ranked where "ranked = ranked_modes po (levels_by_profile po ids (af_id a)) grants ceilings (af_id a)"
  have entries: "set ranked = {x. \<exists>g \<in> set grants. plan_entry po ceilings (af_id a) g = Some x}"
    unfolding ranked_def by (rule ranked_entries [OF ok ids])
  have modes: "cp_modes c = map snd (sort_key (\<lambda>x. (fst x, fst (snd x))) ranked)"
    using column_parts(2) [OF c] by (simp add: ranked_def)
  have fin: "finite ranks"
    by (rule finite_subset [of _ "(\<lambda>g. the (plan_rank po ceilings (af_id a) g)) ` set grants"]) (force simp: ranks_def)+
  have "ranked \<noteq> []"
  proof -
    obtain pid where "pid \<in> set ids" "profile_level po pid (af_id a) \<noteq> None" using column_found [of po ids grants ceilings a] c by auto
    then obtain g k where g: "g \<in> set grants" "profile_level po (gr_profile_id g) (af_id a) = Some k" using cover by (metis not_None_eq)
    then obtain z where "plan_entry po ceilings (af_id a) g = Some z" by (simp add: plan_entry_def plan_rank_def)
    then have "z \<in> set ranked" unfolding entries using g(1) by blast
    then show ?thesis by auto
  qed
  then have "length (cp_modes c) \<noteq> 0" unfolding modes length_map length_sort by (simp only: length_0_conv not_False_eq_True)
  then have some: "cp_modes c \<noteq> []" by (simp only: length_0_conv not_False_eq_True)
  show ?thesis
  proof (cases "length ids \<le> 1 \<or> steady \<or> \<not> cp_varying c")
    case True
    then have "\<not> cp_varying c \<or> length ids \<le> 1" using steady by blast
    from steady_level [OF c this] obtain k where k: "\<forall>pid \<in> set ids. profile_level po pid (af_id a) = Some k" ..
    define r where "r = lowered_rank k (ladder po (af_id a)) ceilings"
    have rank: "plan_rank po ceilings (af_id a) g = Some r" if "g \<in> set grants" for g
      using that ids k by (simp add: plan_rank_def r_def)
    then have "ranks = {r}" using shown by (auto simp: ranks_def)
    moreover have "first_mode c = lv_mode (ladder po (af_id a) ! r)"
    proof -
      have "hd (cp_modes c) \<in> set (cp_modes c)" using some by simp
      then obtain y where "y \<in> set ranked" "hd (cp_modes c) = snd y" unfolding modes by auto
      then show ?thesis using some rank unfolding entries first_mode_def by (cases "cp_modes c") (auto simp: plan_entry_def)
    qed
    moreover have "x = Col_Mask (first_mode c)" using True by (auto simp: x_def combo_expr_def)
    ultimately show ?thesis by (simp add: col_mode_def)
  next
    case False
    then have x: "x = Col_Case (cp_modes c)" using some by (simp add: x_def combo_expr_def)
    have entry: "plan_entry po ceilings (af_id a) g = Some z \<Longrightarrow> gr_id g = fst (snd z)" for g z by (auto simp: plan_entry_def)
    have live: "flag_named cx env q (fst (snd z)) \<and> z \<in> set ranked \<longleftrightarrow>
        (\<exists>g \<in> set grants. live g \<and> plan_entry po ceilings (af_id a) g = Some z)" for z
      unfolding flags entries mem_Collect_eq using unique entry by metis
    show ?thesis
    proof (cases "\<exists>z \<in> set ranked. flag_named cx env q (fst (snd z))")
      case True
      then obtain z where "z \<in> set ranked" "flag_named cx env q (fst (snd z))" by blast
      from first_of_case [where P = "flag_named cx env q", OF this] obtain y where y: "y \<in> set ranked" "flag_named cx env q (fst (snd y))"
        "\<forall>z \<in> set ranked. flag_named cx env q (fst (snd z)) \<longrightarrow> fst y \<le> fst z"
        "List.find (\<lambda>w. flag_named cx env q (fst w)) (cp_modes c) = Some (snd y)"
        unfolding modes by blast
      obtain g where g: "g \<in> set grants" "live g" "plan_entry po ceilings (af_id a) g = Some y" using live y(1,2) by blast
      then have yr: "plan_rank po ceilings (af_id a) g = Some (fst y)" "snd (snd y) = lv_mode (ladder po (af_id a) ! fst y)"
        by (auto simp: plan_entry_def)
      have "fst y \<le> r" if "r \<in> ranks" for r
      proof -
        from that obtain h where h: "h \<in> set grants" "live h" "plan_rank po ceilings (af_id a) h = Some r" by (auto simp: ranks_def)
        then obtain z where "plan_entry po ceilings (af_id a) h = Some z" "fst z = r" by (auto simp: plan_entry_def)
        then show ?thesis using live [of z] h y(3) by blast
      qed
      moreover have "fst y \<in> ranks" using g yr by (auto simp: ranks_def)
      ultimately have "Min ranks = fst y" using fin by (intro Min_eqI) auto
      then show ?thesis using y(4) yr(2) \<open>fst y \<in> ranks\<close> by (auto simp: x col_mode_def)
    next
      case False
      then have "ranks = {}" using live by (fastforce simp: ranks_def plan_entry_def)
      moreover have "List.find (\<lambda>w. flag_named cx env q (fst w)) (cp_modes c) = None"
        using False by (auto simp: modes find_None_iff)
      ultimately show ?thesis by (simp add: x col_mode_def)
    qed
  qed
qed

lemma map_columns:
  assumes "\<And>a. a \<in> set as \<Longrightarrow> L a \<longleftrightarrow> \<not> D a \<and> C a \<noteq> None"
    and "\<And>a c. a \<in> set as \<Longrightarrow> \<not> D a \<Longrightarrow> C a = Some c \<Longrightarrow> f c = h a"
  shows "map f (concat (map (\<lambda>a. if D a then [] else case C a of None \<Rightarrow> [] | Some c \<Rightarrow> [c]) as)) = map h (filter L as)"
  using assms by (induction as) (auto split: option.split)

lemma live_grants:
  assumes ok: "policy_ok po" and s: "s = make_shape sha po bp bg br action (held_profiles p (po_grants po) action who (po_now po) bg) inc"
  shows "g \<in> set (sh_grants s) \<and> gr_id g \<in> gr_id ` set (effective_grants po bg p action who) \<longleftrightarrow> g \<in> set (effective_grants po bg p action who)"
proof -
  have "set (effective_grants po bg p action who) \<subseteq> set (po_grants po)" by (auto simp: effective_grants_def)
  then show ?thesis
    using effective_in_shape [OF ok, where bg = bg and p = p and action = action and who = who] unfolding s made_fields(1) by blast
qed

lemma held_effective: "set (held_profiles p (po_grants po) action who (po_now po) bg) = gr_profile_id ` set (effective_grants po bg p action who)"
  unfolding held_profiles_set effective_grants_def by auto

lemma best_mode_ranks:
  "best_mode isop po p action grants env i =
    (let ranks = {r. \<exists>g \<in> set grants. rule_holds isop po env (gr_rule g) \<and> granted_rank po p action i g = Some r}
     in if ranks = {} then None else Some (lv_mode (ladder po i ! Min ranks)))"
proof -
  have "set (List.map_filter (granted_rank po p action i) (filter (\<lambda>g. rule_holds isop po env (gr_rule g)) grants)) =
      {r. \<exists>g \<in> set grants. rule_holds isop po env (gr_rule g) \<and> granted_rank po p action i g = Some r}"
    by (force simp: List.map_filter_def)
  then show ?thesis unfolding best_mode_def Let_def by (metis set_empty)
qed

lemma cells_exact:
  assumes c: "compile_policy isop sha po = Inr c" and ok: "policy_ok po"
    and s: "ou_shape (subject_outcome c po p action who) = Some s"
    and cx: "issue_context isop po c p action who = Inr cx"
    and q: "view_query isop po s True None None (\<lambda>_. []) = Inr q" and shown: "view_shows cx env q"
  shows "view_cells cx env q = exact_cells isop po p action (effective_grants po (broken_g c) p action who) env"
proof -
  define eff where "eff = effective_grants po (broken_g c) p action who"
  define held where "held = held_profiles p (po_grants po) action who (po_now po) (broken_g c)"
  define inc where "inc = included_ids po p action (broken_r c)"
  have f: "s = make_shape sha po (broken_p c) (broken_g c) (broken_r c) action held inc" "\<not> person_hidden po p action (broken_r c)"
    using found_shape [OF c ok s] by (simp_all add: held_def inc_def)
  have grants: "set (cx_grants cx) = gr_id ` set eff" by (rule context_fields [OF cx]) (simp only: eff_def)
  note fields = made_fields [of sha po "broken_p c" "broken_g c" "broken_r c" action held inc, folded f(1)]
  note live = live_grants [OF ok f(1) [unfolded held_def], folded eff_def held_def]
  note shape = in_shape_iff [OF ok f(2), folded inc_def]
  define denies where "denies = shape_denies po action (broken_r c) inc"
  define ceil where "ceil = shape_ceilings po action (broken_r c) inc"
  define col where "col a = column_of po (sort held) (sh_grants s) (ceil (af_id a)) a" for a
  have cols: "sh_columns s = concat (map (\<lambda>a. if af_id a \<in> set denies then [] else case col a of None \<Rightarrow> [] | Some c \<Rightarrow> [c]) (po_attributes po))"
    using shown fields(8) unfolding shows_iff [OF q] shape_columns_def denies_def ceil_def col_def by blast
  define steady where "steady \<longleftrightarrow> \<not> sh_withheld s \<and> \<not> list_ex cp_varying (sh_columns s)"
  define x where "x c = (if length (sort held) \<le> 1 \<or> steady then Col_Mask (first_mode c) else combo_expr c)" for c
  have held: "set held = gr_profile_id ` set eff" unfolding held_def eff_def by (rule held_effective)
  have listed: "listed po p action eff (af_id a) \<longleftrightarrow> af_id a \<notin> set denies \<and> col a \<noteq> None" for a
    unfolding listed_def denies_def shape_denies_def shape col_def column_found set_sort held list_ex_iff by blast
  have rank: "plan_rank po (ceil i) i = granted_rank po p action i" for i
    unfolding plan_rank_def granted_rank_def ceil_def shape_ceilings_def shape lowered_max ..
  have cell: "(af_id (cp_attr c), col_mode cx env q (x c)) = (af_id a, best_mode isop po p action eff env (af_id a))"
    if a: "a \<in> set (po_attributes po)" "af_id a \<notin> set denies" "col a = Some c" for a c
  proof -
    have "c \<in> set (sh_columns s)" unfolding cols using a by (auto intro!: bexI [of _ a])
    then have st: "steady \<Longrightarrow> \<not> cp_varying c" by (auto simp: steady_def list_ex_iff)
    define alive :: "grant \<Rightarrow> bool" where "alive g \<longleftrightarrow> gr_id g \<in> set (cx_grants cx) \<and> rule_holds isop po env (gr_rule g)" for g
    have "col_mode cx env q (x c) =
       (let ranks = {r. \<exists>g \<in> set (sh_grants s). alive g \<and> plan_rank po (ceil (af_id a)) (af_id a) g = Some r}
        in if ranks = {} then None else Some (lv_mode (ladder po (af_id a) ! Min ranks)))"
      unfolding x_def Let_def
    proof (rule column_best [OF ok _ _ a(3) [unfolded col_def]])
      show "\<forall>g \<in> set (sh_grants s). gr_profile_id g \<in> set (sort held)" unfolding fields(1) set_sort by blast
      show "\<forall>pid \<in> set (sort held). \<exists>g \<in> set (sh_grants s). gr_profile_id g = pid" using live unfolding set_sort held by blast
      show "flag_named cx env q i \<longleftrightarrow> (\<exists>g \<in> set (sh_grants s). gr_id g = i \<and> alive g)" for i
        unfolding flag_named_iff [OF q] alive_def by blast
      show "g = g'" if "g \<in> set (sh_grants s)" "g' \<in> set (sh_grants s)" "gr_id g = gr_id g'" for g g'
        using that same_grant [OF ok] unfolding fields(1) by blast
      show "\<exists>g \<in> set (sh_grants s). alive g" using shown unfolding shows_iff [OF q] alive_def by blast
      show "\<not> cp_varying c" if steady using st that .
    qed
    moreover have "{r. \<exists>g \<in> set (sh_grants s). alive g \<and> plan_rank po (ceil (af_id a)) (af_id a) g = Some r} =
        {r. \<exists>g \<in> set eff. rule_holds isop po env (gr_rule g) \<and> granted_rank po p action (af_id a) g = Some r}"
      unfolding rank alive_def grants using live by blast
    moreover have "cp_attr c = a" using column_parts(1) a(3) by (simp add: col_def)
    ultimately show ?thesis unfolding best_mode_ranks by simp
  qed
  have "view_cells cx env q = map (\<lambda>c. (af_id (cp_attr c), col_mode cx env q (x c))) (sh_columns s)"
    unfolding view_cells_def query_parts(3) [OF q] map_map comp_def fields(7) x_def steady_def by simp
  also have "\<dots> = exact_cells isop po p action eff env"
    unfolding cols exact_cells_def by (rule map_columns [OF listed cell])
  finally show ?thesis unfolding eff_def .
qed

end
