(* ===== verification/Access_Guarantees.thy ===== *)
theory Access_Guarantees
  imports Access_Cells Row_Rule_Decoded
begin

text \<open>
  The promises of the access compiler: the view of a subject is exact, a subject with a grant has a view
  or is over the limit, the combinations keep their place under the limit, the view and the decision of
  \<open>row_visible\<close> agree on every row; and where they do not, for a person without a role.
\<close>

section \<open>Exact views\<close>

text \<open>C24: the view a subject is given shows a row exactly when one of the subject's effective grants and every
  restriction in force for the subject admit it, and shows on such a row exactly the columns a held profile
  lists and no restriction denies, each at the most revealing level of the grants that admit the row, lowered
  to the ceilings. The subject has a role or no restriction asks for one.\<close>
theorem view_exact:
  assumes "compile_policy isop sha po = Inr c" and "policy_ok po" and "role_known po p"
    and "ou_shape (subject_outcome c po p action who) = Some s"
    and "issue_context isop po c p action who = Inr cx"
    and "view_query isop po s True None None (\<lambda>_. []) = Inr q"
  defines "grants \<equiv> effective_grants po (broken_g c) p action who"
  shows "(view_shows cx env q \<longleftrightarrow> admitted isop po p action grants env) \<and>
    (view_shows cx env q \<longrightarrow> view_cells cx env q = exact_cells isop po p action grants env)"
  unfolding grants_def using rows_exact [OF assms(1,2) _ assms(4-6)] role_known_matched [OF assms(3)] cells_exact [OF assms(1,2,4-6)] by blast

section \<open>Every holder has a view\<close>

lemma all_shapes_found:
  assumes "action \<in> set access_actions" and "held \<noteq> []"
    and "\<forall>pid \<in> set held. pid \<in> pf_id ` set (po_profiles po)"
    and "length held \<ge> 2 \<Longrightarrow> combo_key held \<in> combo_key ` set emitted"
    and "h \<in> set holders" and "ho_person h = p" and "ho_action h = action" and "ho_held h = held"
  shows "\<exists>s \<in> set (all_shapes sha po bp bg br emitted holders).
    sh_action s = action \<and> sh_combo s = combo_key held \<and> sh_included s = included_ids po p action br"
proof -
  define mk where "mk = make_shape sha po bp bg br"
  define inc :: "holder \<Rightarrow> string list" where "inc h = included_ids po (ho_person h) (ho_action h) br" for h
  define skip :: "holder \<Rightarrow> bool" where "skip h = (ho_held h = [] \<or> (length (ho_held h) \<ge> 2 \<and> combo_key (ho_held h) \<notin> combo_key ` set emitted) \<or> inc h = [])" for h
  define base where "base = foldl (\<lambda>b (action, ids). set_default (action, combo_key ids, []) (mk action ids []) b) [] (base_shapes po emitted)"
  define built where "built = foldl (\<lambda>b h. if skip h then b else set_default (ho_action h, combo_key (ho_held h), inc h)
      (mk (ho_action h) (ho_held h) (inc h)) b) base holders"
  have all: "all_shapes sha po bp bg br emitted holders = map snd built"
    unfolding all_shapes_def Let_def built_def mk_def base_def inc_def skip_def set_map ..
  have "made mk UNIV base" unfolding base_def by (rule made_base) (simp_all add: made_def)
  then have made: "made mk UNIV built" unfolding built_def by (rule made_holders) simp
  have keys: "fst ` set built = (\<lambda>(action, ids). (action, combo_key ids, [])) ` set (base_shapes po emitted) \<union>
      (\<lambda>h. (ho_action h, combo_key (ho_held h), inc h)) ` {h \<in> set holders. \<not> skip h}"
    unfolding built_def holder_keys base_def base_keys by simp
  have "(action, combo_key held, inc h) \<in> fst ` set built"
  proof (cases "inc h = []")
    case True
    have "\<exists>ids. (action, ids) \<in> set (base_shapes po emitted) \<and> combo_key ids = combo_key held"
    proof (cases "length held \<ge> 2")
      case True
      then obtain ids where "ids \<in> set emitted" "combo_key ids = combo_key held" using assms(4) by auto
      then show ?thesis using assms(1) by (auto simp: base_shapes_def)
    next
      case False
      then obtain pid where "held = [pid]" using assms(2) by (cases held; cases "tl held") auto
      then show ?thesis using assms(1,3) by (auto simp: base_shapes_def)
    qed
    then show ?thesis unfolding keys True by force
  next
    case False
    then have "\<not> skip h" using assms(2,4,8) by (auto simp: skip_def)
    then show ?thesis unfolding keys using assms(5,7,8) by blast
  qed
  then obtain s where s: "((action, combo_key held, inc h), s) \<in> set built" by force
  then obtain ids where "combo_key held = combo_key ids" "s = mk action ids (inc h)"
    using made unfolding made_def by blast
  moreover have "inc h = included_ids po p action br" using assms(6,7) by (simp only: inc_def)
  ultimately have "sh_action s = action" "sh_combo s = combo_key held" "sh_included s = included_ids po p action br"
    unfolding mk_def by (simp_all add: make_shape_keys)
  then show ?thesis unfolding all set_map using s by (intro bexI [of _ s]) force+
qed

lemma find_some: "x \<in> set xs \<Longrightarrow> P x \<Longrightarrow> List.find P xs \<noteq> None"
  by (induction xs) auto

lemma holder_shape:
  assumes c: "compile_policy isop sha po = Inr c" and p: "p \<in> set (po_people po)" and action: "action \<in> set access_actions"
    and who: "who \<in> set (identity_narrows p)" and grants: "ou_grants (subject_outcome c po p action who) \<noteq> []"
  shows "ou_over_limit (subject_outcome c po p action who) \<or> ou_shape (subject_outcome c po p action who) \<noteq> None"
proof (rule ccontr)
  assume none: "\<not> ?thesis"
  define held where "held = held_profiles p (po_grants po) action who (po_now po) (broken_g c)"
  obtain emitted holders where cp: "holders = policy_holders po (broken_g c) (broken_r c)"
      "co_shapes c = all_shapes sha po (broken_p c) (broken_g c) (broken_r c) emitted holders"
      "co_emitted c = map combo_key emitted"
      "set emitted \<subseteq> {s \<in> ho_held ` set holders. length s \<ge> 2}"
      "\<forall>g \<in> set (po_grants po). gr_id g \<notin> broken_g c \<longrightarrow> grant_reasons isop po (broken_p c) g = Inr []"
      "\<forall>r \<in> set (po_restrictions po). rs_id r \<notin> broken_r c \<longrightarrow> restriction_reasons isop po r = Inr []"
    by (rule compile_parts [OF c])
  define over where "over = (length held \<ge> 2 \<and> combo_key held \<notin> set (co_emitted c))"
  note u = subject_outcome_def [of c po p action who] Let_def broken_r_def [symmetric] broken_g_def [symmetric] held_def [symmetric] over_def [symmetric]
  have hid: "\<not> person_hidden po p action (broken_r c)" using grants unfolding u by (simp split: if_splits)
  then have over: "\<not> over" using none unfolding u by (simp split: if_splits)
  have missing: "shape_for c po p action held = None" using none hid over unfolding u by (simp split: option.splits)
  have "filter (\<lambda>g. grant_reaches g p action who (po_now po) (broken_g c)) (po_grants po) \<noteq> []"
    using grants hid over missing unfolding u by (simp split: option.splits)
  then have held: "held \<noteq> []" unfolding held_def using held_profiles_set [of p "po_grants po" action who "po_now po" "broken_g c"]
    by (auto simp: filter_empty_conv)
  have known: "\<forall>pid \<in> set held. pid \<in> pf_id ` set (po_profiles po)"
  proof
    fix pid assume "pid \<in> set held"
    then obtain pr where "profile_by_id po pid = Some pr" using held_unbroken [OF c] unfolding held_def by blast
    then show "pid \<in> pf_id ` set (po_profiles po)" using profile_by_id_in by blast
  qed
  define h where "h = \<lparr>ho_person = p, ho_action = action, ho_held = held\<rparr>"
  have "h \<in> set holders"
    unfolding cp(1) policy_holders_def h_def held_def using p action who hid by (auto intro!: bexI)
  from all_shapes_found [OF action held known _ this, of emitted p sha "broken_p c" "broken_g c" "broken_r c"]
  obtain s where "s \<in> set (co_shapes c)" "sh_action s = action" "sh_combo s = combo_key held" "sh_included s = included_ids po p action (broken_r c)"
    using over unfolding cp(2) over_def cp(3) h_def by auto
  then have "shape_for c po p action held \<noteq> None"
    unfolding shape_for_def broken_r_def [symmetric] using held find_some [of s "co_shapes c"] by simp
  then show False using missing by simp
qed

text \<open>C25: a subject of the policy that has an effective grant for an action, under any of its identities, is given a
  view, unless its combination of profiles is over the limit.\<close>
theorem holder_has_view:
  assumes "compile_policy isop sha po = Inr c" and "p \<in> set (po_people po)" and "action \<in> set access_actions"
    and "who \<in> set (identity_narrows p)" and "ou_grants (subject_outcome c po p action who) \<noteq> []"
  shows "ou_over_limit (subject_outcome c po p action who) \<or> ou_shape (subject_outcome c po p action who) \<noteq> None"
  by (rule holder_shape [OF assms])

section \<open>Combinations under the limit\<close>

text \<open>C26: at most the limit of combinations is given a view, the limit is used up before one is left out, and a
  combination that had a view is never left out for one that had none.\<close>
theorem combinations_capped:
  assumes "select_combinations needed existing cap = (emitted, over)"
  shows "length emitted \<le> nat cap \<and> distinct emitted \<and> set emitted \<union> set over = {s \<in> set needed. length s \<ge> 2} \<and>
    set emitted \<inter> set over = {} \<and> (over = [] \<or> length emitted = nat cap) \<and>
    (\<forall>s \<in> set over. s \<in> set existing \<longrightarrow> set emitted \<subseteq> set existing)"
proof -
  define multi where "multi = remdups (filter (\<lambda>s. length s \<ge> 2) needed)"
  define kept where "kept = sort_key combo_key (filter (\<lambda>s. s \<in> set existing) multi)"
  define fresh where "fresh = sort_key combo_key (filter (\<lambda>s. s \<notin> set existing) multi)"
  have e: "emitted = take (nat cap) (kept @ fresh)" and o: "over = filter (\<lambda>s. s \<notin> set emitted) multi"
    using assms by (auto simp: select_combinations_def Let_def multi_def kept_def fresh_def)
  have sets: "set kept \<union> set fresh = set multi" "set kept = set multi \<inter> set existing" by (auto simp: kept_def fresh_def)
  have dist: "distinct (kept @ fresh)" by (auto simp: kept_def fresh_def multi_def)
  have sub: "set emitted \<subseteq> set multi" unfolding e using sets(1) by (metis set_append set_take_subset)
  have full: "over = [] \<or> length emitted = nat cap"
  proof (cases "length (kept @ fresh) \<le> nat cap")
    case True
    then have "set emitted = set multi" unfolding e using sets(1) by simp
    then show ?thesis by (simp add: o)
  next
    case False
    then have "nat cap \<le> length (kept @ fresh)" by linarith
    then show ?thesis unfolding e length_take by (simp only: min.absorb2 simp_thms)
  qed
  have old: "set emitted \<subseteq> set existing" if "s \<in> set over" "s \<in> set existing" for s
  proof -
    have "s \<in> set kept" "s \<notin> set emitted" using that sets(2) by (auto simp: o)
    then have "nat cap \<le> length kept" unfolding e by (metis UnCI linorder_not_le order_less_imp_le set_append take_all take_append)
    then show ?thesis unfolding e using sets(2) set_take_subset [of "nat cap" kept] by auto
  qed
  have "length emitted \<le> nat cap" by (simp add: e)
  moreover have "distinct emitted" unfolding e using dist by (rule distinct_take)
  moreover have "set emitted \<union> set over = {s \<in> set needed. length s \<ge> 2}" using sub by (auto simp: o multi_def)
  moreover have "set emitted \<inter> set over = {}" by (auto simp: o)
  ultimately show ?thesis using full old by blast
qed

section \<open>The view and the evaluation in memory\<close>












lemma outcome_grants:
  assumes "ou_shape (subject_outcome c po p action who) = Some s"
  shows "ou_grants (subject_outcome c po p action who) = map gr_id (effective_grants po (broken_g c) p action who)"
proof -
  define held where "held = held_profiles p (po_grants po) action who (po_now po) (broken_g c)"
  define over where "over = (length held \<ge> 2 \<and> combo_key held \<notin> set (co_emitted c))"
  note u = subject_outcome_def [of c po p action who] Let_def broken_g_def [symmetric] held_def [symmetric] over_def [symmetric]
  have "\<not> person_hidden po p action (broken_ids (co_broken_restrictions c))" "\<not> over"
    using assms unfolding u by (simp_all split: if_splits)
  moreover have "shape_for c po p action held = Some s" unfolding held_def by (rule outcome_shape(2) [OF assms])
  ultimately show ?thesis unfolding u effective_grants_def by simp
qed


section \<open>A person without a role\<close>

lemma roleless_match:
  assumes keys: "context_attribute_keys isop po = Inr keys" "cx_attrs cx = context_attrs po p keys" and ok: "policy_ok po"
    and r: "r \<in> set (po_restrictions po)" "rs_mode r \<noteq> ''all''" "''role'' \<in> fst ` set (rs_subjects r)"
    and p: "pe_role p = None" "\<not> list_ex (\<lambda>(kind, i). person_hit p kind i) (rs_subjects r)"
  shows "pred_sem cx env (Pred_Match (rs_subjects r)) = None"
proof -
  have part: "match_sem cx (kind, i) = (if kind = ''role'' then None else Some False)" if s: "(kind, i) \<in> set (rs_subjects r)" for kind i
  proof -
    have k: "kind \<in> {''user'', ''role'', ''group''}" using ok r(1) s by (force simp: policy_ok_def)
    have "\<not> person_hit p kind i" using p(2) s by (auto simp: list_ex_iff)
    then show ?thesis using match_person [OF context_keys_cover [OF keys(1) r(1)] r(2) s k keys(2)] p(1) by simp
  qed
  have "\<not> list_ex (\<lambda>s. match_sem cx s = Some True) (rs_subjects r)" using part by (auto simp: list_ex_iff split: if_splits)
  moreover have "list_ex (\<lambda>s. match_sem cx s = None) (rs_subjects r)" using part r(3) by (force simp: list_ex_iff)
  ultimately show ?thesis by simp
qed

lemma unmatched_hides:
  assumes "compile_policy isop sha po = Inr c" and "policy_ok po"
    and "ou_shape (subject_outcome c po p action who) = Some s"
    and "issue_context isop po c p action who = Inr cx"
    and "view_query isop po s True None None (\<lambda>_. []) = Inr q"
    and "r \<in> set (po_restrictions po)" and "action \<in> set (rs_actions r)" and "unmatched_role r p"
  shows "\<not> view_shows cx env q"
proof -
  have u: "rs_mode r \<noteq> ''all''" "''role'' \<in> fst ` set (rs_subjects r)" "pe_role p = None"
    "\<not> list_ex (\<lambda>(kind, i). person_hit p kind i) (rs_subjects r)"
    using assms(8) by (simp_all add: unmatched_role_def)
  define inc where "inc = included_ids po p action (broken_r c)"
  define held where "held = held_profiles p (po_grants po) action who (po_now po) (broken_g c)"
  have f: "s = make_shape sha po (broken_p c) (broken_g c) (broken_r c) action held inc"
    using found_shape [OF assms(1,2,3)] by (simp only: held_def inc_def)
  note fields = made_fields [of sha po "broken_p c" "broken_g c" "broken_r c" action held inc, folded f]
  obtain keys where "context_attribute_keys isop po = Inr keys" "cx_attrs cx = context_attrs po p keys"
    by (rule context_fields [OF assms(4)])
  then have "pred_sem cx env (Pred_Match (rs_subjects r)) = None" by (rule roleless_match [OF _ _ assms(2,6) u])
  then have "id_sem po cx env (rs_id r) = None"
    using restriction_found [OF assms(2,6)] u(1) by (simp add: id_sem_def applies_pred_def del: pred_sem.simps(4))
  moreover have "rs_id r \<in> set (sh_included s) \<or> rs_id r \<in> set (sh_excluded s @ sh_hide s)"
    unfolding fields(3-5) using assms(6,7) u(1) by auto
  ultimately show ?thesis unfolding shows_iff [OF assms(5)] by (metis option.distinct(1))
qed

text \<open>C28: what the view of any subject shows, with no assumption on roles: a row is shown exactly when an effective grant and
  every restriction in force admit it (the rule of section 9.3 of docs/business-entity-access.md) and no restriction on
  the action asks for a role of a person who has none and whom it does not name. One such restriction hides every row,
  against that section, whether or not it concerns the person: the role is NULL in SQL, so is the comparison with it, and so is
  its negation.\<close>
theorem view_rows_always:
  assumes "compile_policy isop sha po = Inr c" and "policy_ok po"
    and "ou_shape (subject_outcome c po p action who) = Some s"
    and "issue_context isop po c p action who = Inr cx"
    and "view_query isop po s True None None (\<lambda>_. []) = Inr q"
  shows "view_shows cx env q \<longleftrightarrow>
    admitted isop po p action (effective_grants po (broken_g c) p action who) env \<and>
    \<not> (\<exists>r \<in> set (po_restrictions po). action \<in> set (rs_actions r) \<and> unmatched_role r p)"
proof (cases "\<exists>r \<in> set (po_restrictions po). action \<in> set (rs_actions r) \<and> unmatched_role r p")
  case True
  then show ?thesis using unmatched_hides [OF assms] by blast
next
  case False
  then show ?thesis using rows_exact [OF assms(1,2) _ assms(3-5)] by blast
qed

section \<open>Intact policies\<close>

lemma map_ok_const: "\<forall>x \<in> set xs. f x = Inr (g x) \<Longrightarrow> map_ok f xs = Inr (map g xs)"
  by (induction xs) auto

lemma compile_intact:
  assumes p: "\<forall>p \<in> set (po_profiles po). profile_reasons po p = []"
    and g: "\<forall>g \<in> set (po_grants po). grant_reasons isop po {} g = Inr []"
    and r: "\<forall>r \<in> set (po_restrictions po). restriction_reasons isop po r = Inr []"
  obtains c where "compile_policy isop sha po = Inr c" and "broken_p c = {}" and "broken_g c = {}" and "broken_r c = {}"
    and "co_emitted c = map combo_key (fst (select_combinations
      (filter (\<lambda>s. length s \<ge> 2) (map ho_held (policy_holders po {} {})))
      (map (\<lambda>k. sorted_ids (split_on (CHR '','') k)) (filter (\<lambda>k. k \<noteq> []) (po_existing po))) (po_cap po)))"
proof -
  have bp: "broken_of (map (\<lambda>p. (pf_id p, profile_reasons po p)) (po_profiles po)) = []"
    using p by (simp add: broken_of_def filter_empty_conv)
  have gs: "map_ok (\<lambda>g. ok_bind (grant_reasons isop po {} g) (\<lambda>rs. Inr (gr_id g, rs))) (po_grants po) = Inr (map (\<lambda>g. (gr_id g, [])) (po_grants po))"
    using g by (intro map_ok_const) simp
  have rs: "map_ok (\<lambda>r. ok_bind (restriction_reasons isop po r) (\<lambda>rs. Inr (rs_id r, rs))) (po_restrictions po) = Inr (map (\<lambda>r. (rs_id r, [])) (po_restrictions po))"
    using r by (intro map_ok_const) simp
  have empty: "broken_of (map (\<lambda>x. (k x, [])) xs) = []" for k and xs :: "'x list" by (simp add: broken_of_def filter_empty_conv)
  have ids: "broken_ids [] = {}" by (simp add: broken_ids_def)
  show thesis
  proof (rule that)
    show "compile_policy isop sha po = Inr (projr (compile_policy isop sha po))"
      unfolding compile_policy_def Let_def bp ids gs rs ok_bind_simps empty by (simp split: prod.split)
    show "broken_p (projr (compile_policy isop sha po)) = {}" "broken_g (projr (compile_policy isop sha po)) = {}"
      "broken_r (projr (compile_policy isop sha po)) = {}"
      unfolding broken_p_def broken_g_def broken_r_def compile_policy_def Let_def bp ids gs rs ok_bind_simps empty
      by (simp_all add: ids split: prod.split)
    show "co_emitted (projr (compile_policy isop sha po)) = map combo_key (fst (select_combinations
      (filter (\<lambda>s. length s \<ge> 2) (map ho_held (policy_holders po {} {})))
      (map (\<lambda>k. sorted_ids (split_on (CHR '','') k)) (filter (\<lambda>k. k \<noteq> []) (po_existing po))) (po_cap po)))"
      unfolding compile_policy_def Let_def bp ids gs rs ok_bind_simps empty by (simp split: prod.split)
  qed
qed

lemma outcome_facts:
  fixes c po p action who
  defines "held \<equiv> held_profiles p (po_grants po) action who (po_now po) (broken_g c)"
  assumes "\<not> person_hidden po p action (broken_r c)" and "length held \<ge> 2 \<longrightarrow> combo_key held \<in> set (co_emitted c)"
  shows "\<not> ou_over_limit (subject_outcome c po p action who)"
    and "ou_grants (subject_outcome c po p action who) = map gr_id (effective_grants po (broken_g c) p action who)"
proof -
  define over where "over = (length held \<ge> 2 \<and> combo_key held \<notin> set (co_emitted c))"
  note u = subject_outcome_def [of c po p action who] Let_def broken_r_def [symmetric] broken_g_def [symmetric]
    meta_eq_to_obj_eq [OF held_def, symmetric] over_def [symmetric]
  have h: "\<not> person_hidden po p action (broken_r c)" "\<not> over" using assms(2,3) by (simp_all add: over_def)
  show "\<not> ou_over_limit (subject_outcome c po p action who)"
    "ou_grants (subject_outcome c po p action who) = map gr_id (effective_grants po (broken_g c) p action who)"
    unfolding u effective_grants_def using h by (simp_all split: option.split)
qed

text \<open>What an intact policy gives a subject, with the steps as equations.\<close>

lemma run_intact:
  fixes po p action who
  defines "held \<equiv> held_profiles p (po_grants po) action who (po_now po) {}"
  assumes ok: "policy_ok po"
    and reasons: "\<forall>p \<in> set (po_profiles po). profile_reasons po p = []" "\<forall>g \<in> set (po_grants po). grant_reasons isop po {} g = Inr []"
      "\<forall>r \<in> set (po_restrictions po). restriction_reasons isop po r = Inr []"
    and subject: "p \<in> set (po_people po)" "action \<in> set access_actions" "who \<in> set (identity_narrows p)"
    and grants: "effective_grants po {} p action who \<noteq> []"
    and fits: "combo_key held \<in> set (map combo_key (fst (select_combinations
      (filter (\<lambda>s. length s \<ge> 2) (map ho_held (policy_holders po {} {})))
      (map (\<lambda>k. sorted_ids (split_on (CHR '','') k)) (filter (\<lambda>k. k \<noteq> []) (po_existing po))) (po_cap po))))"
    and keys: "context_attribute_keys isop po = Inr keys"
    and query: "view_query isop po (make_shape sha po {} {} {} action held (included_ids po p action {})) True None None (\<lambda>_. []) = Inr q"
  shows "\<exists>c s cx. compile_policy isop sha po = Inr c \<and> broken_g c = {} \<and> ou_shape (subject_outcome c po p action who) = Some s \<and>
    issue_context isop po c p action who = Inr cx \<and> view_query isop po s True None None (\<lambda>_. []) = Inr q"
proof -
  obtain c where c: "compile_policy isop sha po = Inr c" "broken_p c = {}" "broken_g c = {}" "broken_r c = {}"
    and em: "co_emitted c = map combo_key (fst (select_combinations
      (filter (\<lambda>s. length s \<ge> 2) (map ho_held (policy_holders po {} {})))
      (map (\<lambda>k. sorted_ids (split_on (CHR '','') k)) (filter (\<lambda>k. k \<noteq> []) (po_existing po))) (po_cap po)))"
    by (rule compile_intact [OF reasons])
  have hid: "\<not> person_hidden po p action (broken_r c)" by (simp add: person_hidden_def c(4) list_ex_iff)
  have fit: "2 \<le> length (held_profiles p (po_grants po) action who (po_now po) (broken_g c)) \<longrightarrow>
      combo_key (held_profiles p (po_grants po) action who (po_now po) (broken_g c)) \<in> set (co_emitted c)"
    using fits unfolding c(3) em held_def by (rule impI)
  note facts = outcome_facts [OF hid fit]
  have "ou_grants (subject_outcome c po p action who) \<noteq> []" unfolding facts(2) c(3) using grants by simp
  then obtain s where s: "ou_shape (subject_outcome c po p action who) = Some s"
    using holder_shape [OF c(1) subject] facts(1) by blast
  have "s = make_shape sha po {} {} {} action held (included_ids po p action {})"
    using found_shape [OF c(1) ok s] by (simp only: c(2-4) held_def)
  then have "view_query isop po s True None None (\<lambda>_. []) = Inr q" using query by (simp only:)
  moreover obtain cx where "issue_context isop po c p action who = Inr cx" unfolding issue_context_def keys by simp
  ultimately show ?thesis using c(1,3) s by blast
qed

section \<open>A sample policy\<close>

definition name_fact :: attr_fact where
  "name_fact = region_fact\<lparr>af_id := ''a3'', af_name := ''name''\<rparr>"

definition sample_grant :: "string \<Rightarrow> string \<Rightarrow> json \<Rightarrow> grant" where
  "sample_grant i pid rule =
     \<lparr>gr_id = i, gr_subject_type = ''user'', gr_subject_id = ''u1'', gr_profile_id = pid, gr_rule = rule,
      gr_actions = [''read'', ''write''], gr_status = ''active'', gr_valid_until = None\<rparr>"

definition sample_policy :: "restriction list \<Rightarrow> access_policy" where
  "sample_policy rs =
     \<lparr>po_entity = ''e1'', po_table = ''orders'', po_revision = 3, po_source = ''entity.orders'',
      po_attributes = [region_fact, name_fact],
      po_ladders = [(''a3'', [\<lparr>lv_key = ''clear'', lv_mode = Clear\<rparr>, \<lparr>lv_key = ''part'', lv_mode = Partial 1 1\<rparr>])],
      po_profiles = [\<lparr>pf_id = ''p1'', pf_key = ''eu'', pf_columns = [(''a1'', ''clear''), (''a3'', ''clear'')]\<rparr>,
                     \<lparr>pf_id = ''p2'', pf_key = ''all'', pf_columns = [(''a3'', ''part'')]\<rparr>],
      po_grants = [sample_grant ''g1'' ''p1'' (leaf_rule ''eq'' ''a1'' ''value'' (JStr ''EU'')), sample_grant ''g2'' ''p2'' JNull],
      po_restrictions = rs, po_people = [\<lparr>pe_user = ''u1'', pe_role = None, pe_groups = []\<rparr>],
      po_subject_attrs = (\<lambda>_. None), po_subject_values = (\<lambda>_ _. []), po_cap = 5, po_existing = [], po_now = 0\<rparr>"

definition reader :: person where
  "reader = \<lparr>pe_user = ''u1'', pe_role = None, pe_groups = []\<rparr>"

definition no_iso :: iso_parser where "no_iso = (\<lambda>_. None)"

definition sample_sha :: "string \<Rightarrow> string" where "sample_sha s = take 8 (rev s)"

definition hide_region :: restriction where
  "hide_region =
     \<lparr>rs_id = ''r1'', rs_mode = ''only'', rs_subjects = [(''user'', ''u1'')], rs_rule = JNull, rs_deny = [''a1''],
      rs_ceilings = [], rs_actions = [''read'']\<rparr>"

definition hide_from_role :: restriction where
  "hide_from_role = hide_region\<lparr>rs_subjects := [(''role'', ''auditor'')]\<rparr>"

definition sample_query :: "restriction list \<Rightarrow> profile_query" where
  "sample_query rs = projr (view_query no_iso (sample_policy rs)
     (make_shape sample_sha (sample_policy rs) {} {} {} ''read'' [''p1'', ''p2''] (included_ids (sample_policy rs) reader ''read'' {}))
     True None None (\<lambda>_. []))"

definition sample_made :: "restriction list \<Rightarrow> shape" where
  "sample_made rs = make_shape sample_sha (sample_policy rs) {} {} {} ''read'' [''p1'', ''p2''] (included_ids (sample_policy rs) reader ''read'' {})"

definition sample_runs :: "restriction list \<Rightarrow> bool" where
  "sample_runs rs \<longleftrightarrow>
     (let po = sample_policy rs in
      policy_ok po \<and> list_all (\<lambda>p. profile_reasons po p = []) (po_profiles po) \<and>
      list_all (\<lambda>g. grant_reasons no_iso po {} g = Inr []) (po_grants po) \<and>
      list_all (\<lambda>r. restriction_reasons no_iso po r = Inr []) (po_restrictions po) \<and>
      held_profiles reader (po_grants po) ''read'' None 0 {} = [''p1'', ''p2''] \<and>
      map gr_id (effective_grants po {} reader ''read'' None) = [''g1'', ''g2''] \<and>
      combo_key [''p1'', ''p2''] \<in> set (map combo_key (fst (select_combinations
        (filter (\<lambda>s. length s \<ge> 2) (map ho_held (policy_holders po {} {})))
        (map (\<lambda>k. sorted_ids (split_on (CHR '','') k)) (filter (\<lambda>k. k \<noteq> []) (po_existing po))) (po_cap po)))) \<and>
      (case context_attribute_keys no_iso po of Inl _ \<Rightarrow> False | Inr _ \<Rightarrow> True) \<and>
      (case view_query no_iso po (sample_made rs) True None None (\<lambda>_. []) of Inl _ \<Rightarrow> False | Inr _ \<Rightarrow> True))"

lemma sample_run:
  assumes "sample_runs rs"
  shows "\<exists>c s cx q. compile_policy no_iso sample_sha (sample_policy rs) = Inr c \<and> broken_g c = {} \<and>
    ou_shape (subject_outcome c (sample_policy rs) reader ''read'' None) = Some s \<and>
    issue_context no_iso (sample_policy rs) c reader ''read'' None = Inr cx \<and>
    view_query no_iso (sample_policy rs) s True None None (\<lambda>_. []) = Inr q"
proof -
  note r = assms [unfolded sample_runs_def Let_def list_all_iff]
  obtain keys where keys: "context_attribute_keys no_iso (sample_policy rs) = Inr keys"
    using r by (auto split: sum.splits)
  obtain q where q: "view_query no_iso (sample_policy rs) (sample_made rs) True None None (\<lambda>_. []) = Inr q"
    using r by (auto split: sum.splits)
  have now: "po_now (sample_policy rs) = 0" and people: "po_people (sample_policy rs) = [reader]"
    by (simp_all add: sample_policy_def reader_def)
  have held: "held_profiles reader (po_grants (sample_policy rs)) ''read'' None (po_now (sample_policy rs)) {} = [''p1'', ''p2'']"
    using r now by simp
  have "\<exists>c s cx. compile_policy no_iso sample_sha (sample_policy rs) = Inr c \<and> broken_g c = {} \<and>
    ou_shape (subject_outcome c (sample_policy rs) reader ''read'' None) = Some s \<and>
    issue_context no_iso (sample_policy rs) c reader ''read'' None = Inr cx \<and>
    view_query no_iso (sample_policy rs) s True None None (\<lambda>_. []) = Inr q"
  proof (rule run_intact)
    show "reader \<in> set (po_people (sample_policy rs))" by (simp add: people)
    show "''read'' \<in> set access_actions" "None \<in> set (identity_narrows reader)" by (simp_all add: access_actions_def identity_narrows_def)
    show "effective_grants (sample_policy rs) {} reader ''read'' None \<noteq> []" using r by auto
    show "view_query no_iso (sample_policy rs) (make_shape sample_sha (sample_policy rs) {} {} {} ''read''
        (held_profiles reader (po_grants (sample_policy rs)) ''read'' None (po_now (sample_policy rs)) {})
        (included_ids (sample_policy rs) reader ''read'' {})) True None None (\<lambda>_. []) = Inr q"
      unfolding held using q by (simp only: sample_made_def)
    show "context_attribute_keys no_iso (sample_policy rs) = Inr keys" by (rule keys)
    show "policy_ok (sample_policy rs)" by (rule r [THEN conjunct1])
    show "\<forall>p \<in> set (po_profiles (sample_policy rs)). profile_reasons (sample_policy rs) p = []"
      by (rule r [THEN conjunct2, THEN conjunct1])
    show "\<forall>g \<in> set (po_grants (sample_policy rs)). grant_reasons no_iso (sample_policy rs) {} g = Inr []"
      by (rule r [THEN conjunct2, THEN conjunct2, THEN conjunct1])
    show "\<forall>r \<in> set (po_restrictions (sample_policy rs)). restriction_reasons no_iso (sample_policy rs) r = Inr []"
      by (rule r [THEN conjunct2, THEN conjunct2, THEN conjunct2, THEN conjunct1])
    show "combo_key (held_profiles reader (po_grants (sample_policy rs)) ''read'' None (po_now (sample_policy rs)) {})
      \<in> set (map combo_key (fst (select_combinations
        (filter (\<lambda>s. length s \<ge> 2) (map ho_held (policy_holders (sample_policy rs) {} {})))
        (map (\<lambda>k. sorted_ids (split_on (CHR '','') k)) (filter (\<lambda>k. k \<noteq> []) (po_existing (sample_policy rs)))) (po_cap (sample_policy rs)))))"
      unfolding held by (rule r [THEN conjunct2, THEN conjunct2, THEN conjunct2, THEN conjunct2, THEN conjunct2, THEN conjunct2, THEN conjunct1])
  qed
  then show ?thesis by blast
qed

lemma sample_region: "sample_runs [hide_region]"
  by code_simp

lemma sample_role: "sample_runs [hide_from_role]"
  by code_simp

theorem view_exact_witness:
  "\<exists>cx q. view_shows cx (sample_env stored_row 0) q \<and> view_cells cx (sample_env stored_row 0) q = [(''a3'', Some Clear)]"
proof -
  define po where "po = sample_policy [hide_region]"
  obtain c s cx q where run: "compile_policy no_iso sample_sha po = Inr c" "broken_g c = {}"
      "ou_shape (subject_outcome c po reader ''read'' None) = Some s" "issue_context no_iso po c reader ''read'' None = Inr cx"
      "view_query no_iso po s True None None (\<lambda>_. []) = Inr q"
    using sample_run [OF sample_region] unfolding po_def by blast
  have ok: "policy_ok po" using sample_region unfolding po_def sample_runs_def Let_def by blast
  have role: "role_known po reader" unfolding po_def by code_simp
  have "admitted no_iso po reader ''read'' (effective_grants po {} reader ''read'' None) (sample_env stored_row 0)"
    unfolding po_def by code_simp
  moreover have "exact_cells no_iso po reader ''read'' (effective_grants po {} reader ''read'' None) (sample_env stored_row 0) = [(''a3'', Some Clear)]"
    unfolding po_def by code_simp
  ultimately show ?thesis using view_exact [OF run(1) ok role run(3-5), of "sample_env stored_row 0"] unfolding run(2) by metis
qed

theorem holder_has_view_witness:
  "\<exists>c. compile_policy no_iso sample_sha (sample_policy [hide_region]) = Inr c \<and>
    (ou_over_limit (subject_outcome c (sample_policy [hide_region]) reader ''read'' None) \<or>
     ou_shape (subject_outcome c (sample_policy [hide_region]) reader ''read'' None) \<noteq> None)"
proof -
  define po where "po = sample_policy [hide_region]"
  obtain c s cx q where run: "compile_policy no_iso sample_sha po = Inr c" "broken_g c = {}"
      "ou_shape (subject_outcome c po reader ''read'' None) = Some s" "issue_context no_iso po c reader ''read'' None = Inr cx"
      "view_query no_iso po s True None None (\<lambda>_. []) = Inr q"
    using sample_run [OF sample_region] unfolding po_def by blast
  have p: "reader \<in> set (po_people po)" by (simp add: po_def sample_policy_def reader_def)
  have a: "''read'' \<in> set access_actions" "None \<in> set (identity_narrows reader)" by (simp_all add: access_actions_def identity_narrows_def)
  have "map gr_id (effective_grants po {} reader ''read'' None) = [''g1'', ''g2'']"
    using sample_region unfolding po_def sample_runs_def Let_def by blast
  then have "ou_grants (subject_outcome c po reader ''read'' None) \<noteq> []" using outcome_grants [OF run(3)] run(2) by simp
  then show ?thesis using holder_has_view [OF run(1) p a] run(1) unfolding po_def by blast
qed

theorem combinations_capped_witness:
  "length (fst (select_combinations [[''a'', ''b''], [''b'', ''c''], [''c'', ''d'']] [[''c'', ''d'']] 2)) \<le> 2"
proof -
  have e: "select_combinations [[''a'', ''b''], [''b'', ''c''], [''c'', ''d'']] [[''c'', ''d'']] 2 =
      ([[''c'', ''d''], [''a'', ''b'']], [[''b'', ''c'']])" by code_simp
  show ?thesis unfolding e using combinations_capped [OF e] by simp
qed







theorem view_rows_always_witness:
  "admitted no_iso (sample_policy [hide_from_role]) reader ''read'' (effective_grants (sample_policy [hide_from_role]) {} reader ''read'' None) (sample_env stored_row 0) \<and>
   (\<exists>c s cx q. compile_policy no_iso sample_sha (sample_policy [hide_from_role]) = Inr c \<and>
     ou_shape (subject_outcome c (sample_policy [hide_from_role]) reader ''read'' None) = Some s \<and>
     issue_context no_iso (sample_policy [hide_from_role]) c reader ''read'' None = Inr cx \<and>
     view_query no_iso (sample_policy [hide_from_role]) s True None None (\<lambda>_. []) = Inr q \<and>
     \<not> view_shows cx (sample_env stored_row 0) q)"
proof
  define po where "po = sample_policy [hide_from_role]"
  obtain c s cx q where run: "compile_policy no_iso sample_sha po = Inr c" "broken_g c = {}"
      "ou_shape (subject_outcome c po reader ''read'' None) = Some s" "issue_context no_iso po c reader ''read'' None = Inr cx"
      "view_query no_iso po s True None None (\<lambda>_. []) = Inr q"
    using sample_run [OF sample_role] unfolding po_def by blast
  have ok: "policy_ok po" using sample_role unfolding po_def sample_runs_def Let_def by blast
  have "hide_from_role \<in> set (po_restrictions po)" "''read'' \<in> set (rs_actions hide_from_role)" "unmatched_role hide_from_role reader"
    by (simp_all add: po_def sample_policy_def unmatched_role_def hide_from_role_def hide_region_def reader_def person_hit_def)
  then have "\<not> view_shows cx (sample_env stored_row 0) q"
    using view_rows_always [OF run(1) ok run(3-5), of "sample_env stored_row 0"] by blast
  then show "\<exists>c s cx q. compile_policy no_iso sample_sha (sample_policy [hide_from_role]) = Inr c \<and>
     ou_shape (subject_outcome c (sample_policy [hide_from_role]) reader ''read'' None) = Some s \<and>
     issue_context no_iso (sample_policy [hide_from_role]) c reader ''read'' None = Inr cx \<and>
     view_query no_iso (sample_policy [hide_from_role]) s True None None (\<lambda>_. []) = Inr q \<and>
     \<not> view_shows cx (sample_env stored_row 0) q" using run unfolding po_def by blast
  show "admitted no_iso (sample_policy [hide_from_role]) reader ''read'' (effective_grants (sample_policy [hide_from_role]) {} reader ''read'' None) (sample_env stored_row 0)"
    by code_simp
qed

end
