(* ===== verification/Join_Paths.thy ===== *)
theory Join_Paths
  imports Json "HOL-Library.Multiset" "HOL-Library.Product_Lexorder" "HOL-Library.List_Lexorder" "HOL-Library.Char_ord"
begin

text \<open>
  The join-path finder (\<open>metadata/joins/graph.py\<close>): the graph of a source, the queue of partial paths, and
  the two searches. The catalog store is a record of its four look-ups. A dictionary is an association list
  (\<open>Prelude\<close>); a partial path is a record of its column, its hops and the objects it has visited.
\<close>

section \<open>The catalog\<close>

record catalog_column =
  cc_id :: string
  cc_object :: string
  cc_locator :: string
  cc_present :: bool

record catalog_object =
  cb_id :: string
  cb_source :: string
  cb_columns :: "catalog_column list"

record catalog_join =
  cj_id :: string
  cj_from :: string
  cj_to :: string
  cj_expression :: "string option"
  cj_rejected :: bool

record catalog_store =
  cs_object :: "string \<Rightarrow> catalog_object option"
  cs_column :: "string \<Rightarrow> catalog_column option"
  cs_present :: "string \<Rightarrow> catalog_object list"
  cs_joins :: "string \<Rightarrow> catalog_join list"

record source_graph =
  sg_object :: "(string \<times> string) list"
  sg_locator :: "(string \<times> string) list"
  sg_columns :: "(string \<times> string list) list"
  sg_adjacent :: "(string \<times> (string \<times> catalog_join) list) list"

record hop =
  hp_join :: catalog_join
  hp_from :: string
  hp_to :: string
  hp_from_locator :: "string option"
  hp_to_locator :: "string option"

record trail =
  tr_column :: string
  tr_hops :: "hop list"
  tr_visited :: "string list"

record join_path =
  jp_hops :: "hop list"
  jp_object :: "string option"
  jp_column :: "string option"

record join_result =
  jr_paths :: "join_path list"
  jr_direct :: "catalog_join list"
  jr_reason :: "string option"

datatype join_error = Join_Cross_Source | Join_Value_Error

section \<open>The graph of a source\<close>

definition present_columns :: "catalog_object \<Rightarrow> catalog_column list" where
  "present_columns ob = filter cc_present (cb_columns ob)"

definition load_source_graph :: "catalog_store \<Rightarrow> string \<Rightarrow> source_graph" where
  "load_source_graph st source =
     (let obs = cs_present st source;
          joins = filter (\<lambda>j. \<not> cj_rejected j) (cs_joins st source)
      in \<lparr>sg_object = py_dict (concat (map (\<lambda>ob. map (\<lambda>c. (cc_id c, cb_id ob)) (present_columns ob)) obs)),
          sg_locator = py_dict (concat (map (\<lambda>ob. map (\<lambda>c. (cc_id c, cc_locator c)) (present_columns ob)) obs)),
          sg_columns = py_dict (map (\<lambda>ob. (cb_id ob, map cc_id (present_columns ob))) obs),
          sg_adjacent = dict_group (concat (map (\<lambda>j. [(cj_from j, (cj_to j, j)), (cj_to j, (cj_from j, j))]) joins)) []\<rparr>)"

definition direct_joins :: "source_graph \<Rightarrow> string option \<Rightarrow> nat \<Rightarrow> catalog_join list" where
  "direct_joins g start max_hops =
     (case start of
        None \<Rightarrow> []
      | Some col \<Rightarrow>
          if col = [] \<or> max_hops \<noteq> 1 then []
          else foldl (\<lambda>direct (_, j). if cj_id j \<in> set (map cj_id direct) then direct else direct @ [j]) []
            (dict_get_list (sg_adjacent g) col))"

definition start_queue :: "source_graph \<Rightarrow> catalog_column list \<Rightarrow> trail list" where
  "start_queue g cols =
     concat (map (\<lambda>c. case map_of (sg_object g) (cc_id c) of
         None \<Rightarrow> [] | Some ob \<Rightarrow> [\<lparr>tr_column = cc_id c, tr_hops = [], tr_visited = [ob]\<rparr>]) cols)"

definition given :: "string option \<Rightarrow> string option" where
  "given x = (case x of Some (c # cs) \<Rightarrow> Some (c # cs) | _ \<Rightarrow> None)"

definition resolve_start_columns :: "catalog_store \<Rightarrow> string option \<Rightarrow> string option \<Rightarrow> catalog_column list" where
  "resolve_start_columns st start_object start_column =
     (case given start_column of
        Some c \<Rightarrow> (case cs_column st c of None \<Rightarrow> [] | Some col \<Rightarrow> [col])
      | None \<Rightarrow>
          (case given start_object of
             Some i \<Rightarrow> (case cs_object st i of None \<Rightarrow> [] | Some ob \<Rightarrow> present_columns ob)
           | None \<Rightarrow> []))"

definition source_for_column :: "catalog_store \<Rightarrow> string \<Rightarrow> string option" where
  "source_for_column st i =
     (case cs_column st i of None \<Rightarrow> None | Some col \<Rightarrow> map_option cb_source (cs_object st (cc_object col)))"

section \<open>The searches\<close>

definition local_columns :: "source_graph \<Rightarrow> string \<Rightarrow> string list" where
  "local_columns g col =
     (case map_of (sg_object g) col of
        None \<Rightarrow> []
      | Some ob \<Rightarrow> (case map_of (sg_columns g) ob of None \<Rightarrow> [col] | Some cs \<Rightarrow> cs))"

text \<open>The trails one hop longer, in the order of the two loops; the objects already visited are skipped.\<close>

definition next_trails :: "source_graph \<Rightarrow> nat \<Rightarrow> trail \<Rightarrow> trail list" where
  "next_trails g max_hops t =
     concat (map (\<lambda>lc. concat (map (\<lambda>(n, j).
         case map_of (sg_object g) n of
           None \<Rightarrow> []
         | Some ob \<Rightarrow>
             if ob \<in> set (tr_visited t) \<or> Suc (length (tr_hops t)) > max_hops then []
             else [\<lparr>tr_column = n,
                    tr_hops = tr_hops t @ [\<lparr>hp_join = j, hp_from = lc, hp_to = n,
                      hp_from_locator = map_of (sg_locator g) lc, hp_to_locator = map_of (sg_locator g) n\<rparr>],
                    tr_visited = ob # tr_visited t\<rparr>])
       (dict_get_list (sg_adjacent g) lc))) (local_columns g (tr_column t)))"

definition note_new :: "('t \<Rightarrow> 'k) \<Rightarrow> 't list \<Rightarrow> 't \<Rightarrow> 't list" where
  "note_new key found t = (if key t \<in> key ` set found then found else found @ [t])"

definition trail_object :: "source_graph \<Rightarrow> trail \<Rightarrow> string option" where
  "trail_object g t = map_of (sg_object g) (tr_column t)"

lemma next_trails_length: "y \<in> set (next_trails g m t) \<Longrightarrow> length (tr_hops y) = Suc (length (tr_hops t)) \<and> Suc (length (tr_hops t)) \<le> m"
  by (auto simp: next_trails_def split: option.splits if_splits)

text \<open>Every round replaces a trail of the queue by longer ones, below the bound.\<close>

lemma queue_smaller:
  assumes "set ys \<subseteq> {y \<in> set (next_trails g m t). length (tr_hops y) < m}"
  shows "(mset (map (\<lambda>t. m - length (tr_hops t)) (rest @ ys)), add_mset (m - length (tr_hops t)) (mset (map (\<lambda>t. m - length (tr_hops t)) rest))) \<in> mult {(x, y). x < y}"
proof -
  have "(mset (map (\<lambda>t. m - length (tr_hops t)) rest) + mset (map (\<lambda>t. m - length (tr_hops t)) ys),
      mset (map (\<lambda>t. m - length (tr_hops t)) rest) + {#m - length (tr_hops t)#}) \<in> mult {(x, y). x < y}"
  proof (rule one_step_implies_mult)
    show "\<forall>k \<in> set_mset (mset (map (\<lambda>t. m - length (tr_hops t)) ys)). \<exists>j \<in> set_mset {#m - length (tr_hops t)#}. (k, j) \<in> {(x, y). x < y}"
      using assms next_trails_length by fastforce
  qed simp
  then show ?thesis by (simp add: add.commute)
qed

function target_loop :: "source_graph \<Rightarrow> string list \<Rightarrow> nat \<Rightarrow> nat \<Rightarrow> trail list \<Rightarrow> trail list \<Rightarrow> trail list" where
  "target_loop g targets m cap [] found = found"
| "target_loop g targets m cap (t # rest) found =
     (if length found \<ge> cap then found
      else target_loop g targets m cap
        (rest @ filter (\<lambda>y. tr_column y \<notin> set targets \<and> length (tr_hops y) < m) (next_trails g m t))
        (foldl (note_new tr_column) found (filter (\<lambda>y. tr_column y \<in> set targets) (next_trails g m t))))"
  by pat_completeness auto

termination target_loop
proof (relation "inv_image (mult {(x, y). x < y}) (\<lambda>(g, targets, m, cap, queue, found). mset (map (\<lambda>t. m - length (tr_hops t)) queue))")
  show "wf (inv_image (mult {(x :: nat, y). x < y}) (\<lambda>(g :: source_graph, targets :: string list, m, cap :: nat, queue, found :: trail list). mset (map (\<lambda>t. m - length (tr_hops t)) queue)))"
    by (intro wf_inv_image wf_mult wf_less)
qed (auto intro!: queue_smaller simp del: mset_map map_append mset_append)

function reach_loop :: "source_graph \<Rightarrow> nat \<Rightarrow> trail list \<Rightarrow> trail list \<Rightarrow> trail list" where
  "reach_loop g m [] found = found"
| "reach_loop g m (t # rest) found =
     reach_loop g m (rest @ filter (\<lambda>y. length (tr_hops y) < m) (next_trails g m t))
       (foldl (note_new (trail_object g)) found (next_trails g m t))"
  by pat_completeness auto

termination reach_loop
proof (relation "inv_image (mult {(x, y). x < y}) (\<lambda>(g, m, queue, found). mset (map (\<lambda>t. m - length (tr_hops t)) queue))")
  show "wf (inv_image (mult {(x :: nat, y). x < y}) (\<lambda>(g :: source_graph, m, queue, found :: trail list). mset (map (\<lambda>t. m - length (tr_hops t)) queue)))"
    by (intro wf_inv_image wf_mult wf_less)
qed (auto intro!: queue_smaller simp del: mset_map map_append mset_append)

definition path_of :: "source_graph \<Rightarrow> trail \<Rightarrow> join_path" where
  "path_of g t = \<lparr>jp_hops = tr_hops t, jp_object = trail_object g t, jp_column = Some (tr_column t)\<rparr>"

definition hop_summary :: "hop \<Rightarrow> string" where
  "hop_summary h =
     (case given (cj_expression (hp_join h)) of Some e \<Rightarrow> e | None \<Rightarrow> hp_from h @ ''='' @ hp_to h)"

definition path_summary :: "join_path \<Rightarrow> string" where
  "path_summary p = (case map hop_summary (jp_hops p) of [] \<Rightarrow> [] | s # ss \<Rightarrow> s @ concat (map (\<lambda>x. '' -> '' @ x) ss))"

definition ranked_paths :: "join_path list \<Rightarrow> join_path list" where
  "ranked_paths ps = sort_key (\<lambda>p. (length (jp_hops p), path_summary p)) ps"

definition clamp_hops :: "int \<Rightarrow> nat" where
  "clamp_hops n = nat (max 1 (min 5 n))"

definition no_start :: "catalog_join list \<Rightarrow> join_result" where
  "no_start direct = \<lparr>jr_paths = [], jr_direct = direct, jr_reason = Some ''NO_START_COLUMNS''\<rparr>"

text \<open>The target is in another source than the start.\<close>

definition crosses_source :: "catalog_store \<Rightarrow> string \<Rightarrow> string option \<Rightarrow> string option \<Rightarrow> bool" where
  "crosses_source st source target_object target_column =
     (case given target_column of
        Some c \<Rightarrow> (case source_for_column st c of None \<Rightarrow> False | Some s \<Rightarrow> s \<noteq> source)
      | None \<Rightarrow>
          (case given target_object of
             Some i \<Rightarrow> (case cs_object st i of None \<Rightarrow> False | Some ob \<Rightarrow> cb_source ob \<noteq> source)
           | None \<Rightarrow> False))"

definition target_columns :: "source_graph \<Rightarrow> string option \<Rightarrow> string option \<Rightarrow> string list" where
  "target_columns g target_object target_column =
     (case given target_column of
        Some c \<Rightarrow> [c]
      | None \<Rightarrow> (case given target_object of None \<Rightarrow> [] | Some i \<Rightarrow> dict_get_list (sg_columns g) i))"

definition find_join_paths ::
  "catalog_store \<Rightarrow> string option \<Rightarrow> string option \<Rightarrow> string option \<Rightarrow> string option \<Rightarrow> int \<Rightarrow> int \<Rightarrow> join_error + join_result" where
  "find_join_paths st start_object start_column target_object target_column max_hops top_targets =
     (let m = clamp_hops max_hops; cap = nat (max 1 top_targets); start_cols = resolve_start_columns st start_object start_column
      in case start_cols of
          [] \<Rightarrow> Inr (no_start [])
        | c # _ \<Rightarrow>
            (case source_for_column st (cc_id c) of
               None \<Rightarrow> Inr (no_start [])
             | Some source \<Rightarrow>
                 if crosses_source st source target_object target_column then Inl Join_Cross_Source
                 else if given target_column = None \<and> given target_object = None then Inl Join_Value_Error
                 else (let g = load_source_graph st source;
                           targets = target_columns g target_object target_column;
                           direct = direct_joins g start_column m;
                           queue = start_queue g start_cols
                       in if targets = [] then Inr \<lparr>jr_paths = [], jr_direct = [], jr_reason = Some ''TARGET_UNREACHABLE''\<rparr>
                          else if queue = [] then Inr (no_start direct)
                          else (let paths = take cap (ranked_paths (map (path_of g) (target_loop g targets m cap queue [])))
                                in Inr \<lparr>jr_paths = paths, jr_direct = direct,
                                     jr_reason = (if paths = [] then Some ''TARGET_UNREACHABLE'' else None)\<rparr>))))"

definition find_reachable_object_paths :: "catalog_store \<Rightarrow> string option \<Rightarrow> string option \<Rightarrow> int \<Rightarrow> join_result" where
  "find_reachable_object_paths st start_object start_column max_hops =
     (let m = clamp_hops max_hops; start_cols = resolve_start_columns st start_object start_column
      in case start_cols of
          [] \<Rightarrow> no_start []
        | c # _ \<Rightarrow>
            (case source_for_column st (cc_id c) of
               None \<Rightarrow> no_start []
             | Some source \<Rightarrow>
                 (let g = load_source_graph st source; direct = direct_joins g start_column m; queue = start_queue g start_cols
                  in if queue = [] then no_start direct
                     else \<lparr>jr_paths = ranked_paths (map (path_of g) (reach_loop g m queue [])), jr_direct = direct, jr_reason = None\<rparr>)))"

end
