(* ===== verification/Join_Routes.thy ===== *)
theory Join_Routes
  imports Join_Paths
begin

text \<open>
  The search by levels over a queue, an interface with the invariant of the queue (depths grow by at most one)
  and its consequence: whatever a trail of the queue leads to is found at the least depth. Both loops of
  \<open>graph.py\<close> are instances. Then routes over the joins of a catalog, and how trails stand for them.
\<close>

section \<open>Searching by levels\<close>

text \<open>\<open>z\<close> is reached from \<open>x\<close> by one or more steps, every state before \<open>z\<close> being one the search keeps.\<close>

inductive extends :: "('a \<Rightarrow> 'a list) \<Rightarrow> ('a \<Rightarrow> bool) \<Rightarrow> 'a \<Rightarrow> 'a \<Rightarrow> bool" for succs keep where
  ext_one: "y \<in> set (succs x) \<Longrightarrow> extends succs keep x y"
| ext_more: "y \<in> set (succs x) \<Longrightarrow> keep y \<Longrightarrow> extends succs keep y z \<Longrightarrow> extends succs keep x z"

lemma note_both: "set found \<subseteq> set (foldl (note_new key) found ys) \<and> set (foldl (note_new key) found ys) \<subseteq> set found \<union> set ys"
proof (induction ys arbitrary: found)
  case (Cons y ys)
  have "set found \<subseteq> set (note_new key found y)" "set (note_new key found y) \<subseteq> insert y (set found)" by (auto simp: note_new_def)
  then show ?case using Cons.IH [of "note_new key found y"] by auto
qed simp

lemmas note_set = conjunct1 [OF note_both] conjunct2 [OF note_both]

lemma note_keys: "key ` set (foldl (note_new key) found ys) = key ` set found \<union> key ` set ys"
  by (induction ys arbitrary: found) (auto simp: note_new_def)

lemma note_distinct: "distinct (map key found) \<Longrightarrow> distinct (map key (foldl (note_new key) found ys))"
  by (induction ys arbitrary: found) (auto simp: note_new_def)

locale level_search =
  fixes succs :: "'a \<Rightarrow> 'a list" and depth :: "'a \<Rightarrow> nat" and keep wanted :: "'a \<Rightarrow> bool" and key :: "'a \<Rightarrow> 'k"
    and full :: "'a list \<Rightarrow> bool" and bound :: nat and loop :: "'a list \<Rightarrow> 'a list \<Rightarrow> 'a list"
  assumes depth_succ: "y \<in> set (succs x) \<Longrightarrow> depth y = Suc (depth x)"
    and keep_bound: "keep y \<Longrightarrow> depth y < bound"
    and loop_empty: "loop [] found = found"
    and loop_more: "loop (x # rest) found =
      (if full found then found
       else loop (rest @ filter keep (succs x)) (foldl (note_new key) found (filter wanted (succs x))))"
begin

definition levels :: "'a list \<Rightarrow> bool" where
  "levels queue \<longleftrightarrow> sorted (map depth queue) \<and> (\<forall>q \<in> set queue. depth q \<le> Suc (depth (hd queue)))"

definition shallow :: "'a list \<Rightarrow> 'a list \<Rightarrow> bool" where
  "shallow found queue \<longleftrightarrow> (\<forall>f \<in> set found. \<forall>q \<in> set queue. depth f \<le> Suc (depth q))"

lemma extends_deeper: "extends succs keep x z \<Longrightarrow> depth x < depth z"
  by (induction rule: extends.induct) (auto dest: depth_succ)

lemma loop_induct [case_names empty more]:
  assumes empty: "\<And>found. P [] found"
    and more: "\<And>x rest found. P (rest @ filter keep (succs x)) (foldl (note_new key) found (filter wanted (succs x))) \<Longrightarrow> P (x # rest) found"
  shows "P queue found"
proof -
  define R where "R = inv_image (mult {(m :: nat, n). m < n}) (\<lambda>queue. mset (map (\<lambda>x. bound - depth x) queue))"
  have "wf R" unfolding R_def by (intro wf_inv_image wf_mult wf_less)
  then show ?thesis
  proof (induction queue arbitrary: found rule: wf_induct_rule)
    case (less queue)
    show ?case
    proof (cases queue)
      case (Cons x rest)
      have "(mset (map (\<lambda>x. bound - depth x) rest) + mset (map (\<lambda>x. bound - depth x) (filter keep (succs x))),
          mset (map (\<lambda>x. bound - depth x) rest) + {#bound - depth x#}) \<in> mult {(m, n). m < n}"
      proof (rule one_step_implies_mult)
        have "bound - depth y < bound - depth x" if "y \<in> set (succs x)" "keep y" for y
          using depth_succ [OF that(1)] keep_bound [OF that(2)] by linarith
        then show "\<forall>k \<in> set_mset (mset (map (\<lambda>x. bound - depth x) (filter keep (succs x)))).
            \<exists>j \<in> set_mset {#bound - depth x#}. (k, j) \<in> {(m, n). m < n}" by auto
      qed simp
      then have "(rest @ filter keep (succs x), queue) \<in> R" by (simp add: R_def Cons add.commute)
      then show ?thesis unfolding Cons by (intro more less.IH) (simp add: Cons)
    qed (simp add: empty)
  qed
qed

lemma levels_step:
  assumes "levels (x # rest)"
  shows "levels (rest @ filter keep (succs x))"
proof -
  have rest: "sorted (map depth rest)" "\<forall>q \<in> set rest. depth x \<le> depth q \<and> depth q \<le> Suc (depth x)"
    using assms by (auto simp: levels_def)
  have new: "\<forall>y \<in> set (filter keep (succs x)). depth y = Suc (depth x)" using depth_succ by auto
  have "sorted (map depth ys)" if "\<forall>y \<in> set ys. depth y = d" for ys and d :: nat
    using that by (induction ys) auto
  then have "sorted (map depth (filter keep (succs x)))" using new by blast
  then have "sorted (map depth (rest @ filter keep (succs x)))"
    using rest new by (auto simp: sorted_append)
  moreover have "depth q \<le> Suc (depth (hd (rest @ filter keep (succs x))))" if "q \<in> set (rest @ filter keep (succs x))" for q
  proof -
    have "depth q \<le> Suc (depth x)" using that rest(2) new by auto
    moreover have "hd (rest @ filter keep (succs x)) \<in> set (rest @ filter keep (succs x))" using that by (intro hd_in_set) (metis empty_iff empty_set)
    then have "depth x \<le> depth (hd (rest @ filter keep (succs x)))" using rest(2) new by (metis (no_types, lifting) Un_iff le_SucI order_refl set_append)
    ultimately show ?thesis by linarith
  qed
  ultimately show ?thesis unfolding levels_def by blast
qed

lemma shallow_step:
  assumes "levels (x # rest)" and "shallow found (x # rest)"
  shows "shallow (foldl (note_new key) found (filter wanted (succs x))) (rest @ filter keep (succs x))"
  unfolding shallow_def
proof (intro ballI)
  fix f q assume f: "f \<in> set (foldl (note_new key) found (filter wanted (succs x)))" and q: "q \<in> set (rest @ filter keep (succs x))"
  have "depth f \<le> Suc (depth x)"
    using f note_set(2) [of key found "filter wanted (succs x)"] assms(2) depth_succ by (fastforce simp: shallow_def)
  moreover have "depth x \<le> depth q" using q assms(1) depth_succ by (fastforce simp: levels_def)
  ultimately show "depth f \<le> Suc (depth q)" by linarith
qed

text \<open>What is found was there, or is wanted and comes from the queue; keys stay distinct.\<close>

lemma loop_sound:
  "set found \<subseteq> set (loop queue found) \<and> (\<forall>f \<in> set (loop queue found). f \<in> set found \<or> (wanted f \<and> (\<exists>q \<in> set queue. extends succs keep q f))) \<and>
   (distinct (map key found) \<longrightarrow> distinct (map key (loop queue found)))"
proof (induction queue found rule: loop_induct)
  case (more x rest found)
  show ?case
  proof (cases "full found")
    case False
    define found' where "found' = foldl (note_new key) found (filter wanted (succs x))"
    define queue' where "queue' = rest @ filter keep (succs x)"
    note IH = more [folded found'_def queue'_def]
    have eq: "loop (x # rest) found = loop queue' found'" using False by (simp add: loop_more found'_def queue'_def)
    have f': "set found \<subseteq> set found'" "set found' \<subseteq> set found \<union> set (filter wanted (succs x))"
      unfolding found'_def by (rule note_set)+
    have from_queue: "\<exists>q \<in> set (x # rest). extends succs keep q f" if "\<exists>q \<in> set queue'. extends succs keep q f" for f
      using that by (auto simp: queue'_def intro: ext_more)
    have from_found: "f \<in> set found \<or> (wanted f \<and> (\<exists>q \<in> set (x # rest). extends succs keep q f))" if "f \<in> set found'" for f
      using that f'(2) by (auto intro: ext_one)
    have "distinct (map key found')" if "distinct (map key found)" unfolding found'_def by (rule note_distinct [OF that])
    then show ?thesis unfolding eq using IH f'(1) from_queue from_found by blast
  qed (simp add: loop_more)
qed (simp add: loop_empty)

text \<open>Whatever the queue leads to is found at most that deep, unless the search stopped, with nothing deeper found.\<close>

lemma loop_complete:
  assumes "levels queue" and "shallow found queue" and "q \<in> set queue" and "extends succs keep q z" and "wanted z"
  shows "(\<exists>f \<in> set (loop queue found). key f = key z \<and> depth f \<le> depth z) \<or>
    (full (loop queue found) \<and> (\<forall>f \<in> set (loop queue found). depth f \<le> depth z))"
  using assms
proof (induction queue found arbitrary: q rule: loop_induct)
  case (more x rest found)
  show ?case
  proof (cases "full found")
    case True
    have "depth f \<le> depth z" if "f \<in> set found" for f
      using more.prems(2,3) that extends_deeper [OF more.prems(4)] unfolding shallow_def by (meson Suc_leI order_trans)
    then show ?thesis using True by (simp add: loop_more)
  next
    case False
    define found' where "found' = foldl (note_new key) found (filter wanted (succs x))"
    define queue' where "queue' = rest @ filter keep (succs x)"
    have eq: "loop (x # rest) found = loop queue' found'" using False by (simp add: loop_more found'_def queue'_def)
    note IH = more.IH [folded found'_def queue'_def, OF levels_step [OF more.prems(1), folded queue'_def]
      shallow_step [OF more.prems(1,2), folded found'_def queue'_def]]
    show ?thesis
    proof (cases "q \<in> set rest")
      case True
      then show ?thesis unfolding eq using IH [of q] more.prems(4,5) by (simp add: queue'_def)
    next
      case False
      then have q: "q = x" using more.prems(3) by simp
      from more.prems(4) show ?thesis
      proof (cases rule: extends.cases)
        case ext_one
        then have z: "z \<in> set (filter wanted (succs x))" using more.prems(5) q by simp
        then obtain f where f: "f \<in> set found'" "key f = key z"
          unfolding found'_def using note_keys [of key found "filter wanted (succs x)"] by (metis (no_types, lifting) UnCI imageE imageI)
        have "depth f \<le> Suc (depth x)"
          using f(1) note_set(2) [of key found "filter wanted (succs x)"] more.prems(2) depth_succ by (fastforce simp: shallow_def found'_def)
        moreover have "depth z = Suc (depth x)" using z depth_succ by auto
        moreover have "f \<in> set (loop queue' found')" using loop_sound f(1) by blast
        ultimately show ?thesis unfolding eq using f(2) by auto
      next
        case (ext_more y)
        then have "y \<in> set queue'" using q by (simp add: queue'_def)
        then show ?thesis unfolding eq using IH [of y] ext_more(3) more.prems(5) by blast
      qed
    qed
  qed
qed simp

end

interpretation nearest: level_search "next_trails g m" "\<lambda>t. length (tr_hops t)"
    "\<lambda>y. tr_column y \<notin> set targets \<and> length (tr_hops y) < m" "\<lambda>y. tr_column y \<in> set targets" tr_column
    "\<lambda>found. cap \<le> length found" m "target_loop g targets m cap" for g m targets cap
  by unfold_locales (auto dest: next_trails_length)

interpretation reach: level_search "next_trails g m" "\<lambda>t. length (tr_hops t)" "\<lambda>y. length (tr_hops y) < m" "\<lambda>y. True" "trail_object g"
    "\<lambda>found. False" m "reach_loop g m" for g m
  by unfold_locales (auto dest: next_trails_length)

section \<open>Routes\<close>

text \<open>What the catalog holds: the columns present in the objects of a source, and the joins not rejected.\<close>

definition column_in :: "catalog_store \<Rightarrow> string \<Rightarrow> string \<Rightarrow> string \<Rightarrow> string \<Rightarrow> bool" where
  "column_in st source c ob l \<longleftrightarrow> (\<exists>o1 \<in> set (cs_present st source). cb_id o1 = ob \<and>
     (\<exists>col \<in> set (cb_columns o1). cc_present col \<and> cc_id col = c \<and> cc_locator col = l))"

definition joined :: "catalog_store \<Rightarrow> string \<Rightarrow> catalog_join \<Rightarrow> string \<Rightarrow> string \<Rightarrow> bool" where
  "joined st source j c d \<longleftrightarrow> j \<in> set (cs_joins st source) \<and> \<not> cj_rejected j \<and>
     ((cj_from j = c \<and> cj_to j = d) \<or> (cj_from j = d \<and> cj_to j = c))"

text \<open>A route from a column: hops over joins, each from some column of the object reached so far into an object not
  visited before (the last object visited is the head of the list).\<close>

inductive join_route :: "catalog_store \<Rightarrow> string \<Rightarrow> string \<Rightarrow> hop list \<Rightarrow> string \<Rightarrow> string list \<Rightarrow> bool" for st source where
  route_start: "column_in st source c ob l \<Longrightarrow> join_route st source c [] c [ob]"
| route_hop: "join_route st source c hs n (ob # obs) \<Longrightarrow> column_in st source d ob ld \<Longrightarrow> joined st source j d e \<Longrightarrow>
    column_in st source e oe le \<Longrightarrow> oe \<notin> set (ob # obs) \<Longrightarrow>
    join_route st source c (hs @ [\<lparr>hp_join = j, hp_from = d, hp_to = e, hp_from_locator = Some ld, hp_to_locator = Some le\<rparr>])
      e (oe # ob # obs)"

text \<open>Ids are keys of the catalog.\<close>

definition store_ok :: "catalog_store \<Rightarrow> string \<Rightarrow> bool" where
  "store_ok st source \<longleftrightarrow> distinct (map cb_id (cs_present st source)) \<and>
     distinct (concat (map (\<lambda>ob. map cc_id (present_columns ob)) (cs_present st source)))"

section \<open>The loaded graph\<close>

lemma graph_keys:
  assumes "store_ok st source"
  defines "g \<equiv> load_source_graph st source"
  shows "map_of (sg_object g) c = Some ob \<longleftrightarrow> (\<exists>l. column_in st source c ob l)"
    and "map_of (sg_locator g) c = Some l \<longleftrightarrow> (\<exists>ob. column_in st source c ob l)"
    and "map_of (sg_columns g) ob = Some cs \<longleftrightarrow> (\<exists>o1 \<in> set (cs_present st source). cb_id o1 = ob \<and> cs = map cc_id (present_columns o1))"
proof -
  define obs where "obs = cs_present st source"
  have d: "distinct (map fst (concat (map (\<lambda>ob. map (\<lambda>c. (cc_id c, f ob c)) (present_columns ob)) obs)))" for f :: "catalog_object \<Rightarrow> catalog_column \<Rightarrow> string"
    using assms(1) by (simp add: store_ok_def obs_def map_concat comp_def)
  have d2: "distinct (map fst (map (\<lambda>ob. (cb_id ob, map cc_id (present_columns ob))) obs))"
    using assms(1) by (simp add: store_ok_def obs_def comp_def)
  have g: "sg_object g = concat (map (\<lambda>ob. map (\<lambda>c. (cc_id c, cb_id ob)) (present_columns ob)) obs)"
    "sg_locator g = concat (map (\<lambda>ob. map (\<lambda>c. (cc_id c, cc_locator c)) (present_columns ob)) obs)"
    "sg_columns g = map (\<lambda>ob. (cb_id ob, map cc_id (present_columns ob))) obs"
    using d [of "\<lambda>ob c. cb_id ob"] d [of "\<lambda>ob c. cc_locator c"] d2
    by (simp_all add: g_def load_source_graph_def Let_def obs_def py_dict_distinct)
  show "map_of (sg_object g) c = Some ob \<longleftrightarrow> (\<exists>l. column_in st source c ob l)"
    unfolding g map_of_eq_Some_iff [OF d [of "\<lambda>ob c. cb_id ob"]]
    by (simp add: column_in_def obs_def present_columns_def image_iff Bex_def) blast
  show "map_of (sg_locator g) c = Some l \<longleftrightarrow> (\<exists>ob. column_in st source c ob l)"
    unfolding g map_of_eq_Some_iff [OF d [of "\<lambda>ob c. cc_locator c"]]
    by (simp add: column_in_def obs_def present_columns_def image_iff Bex_def) blast
  show "map_of (sg_columns g) ob = Some cs \<longleftrightarrow> (\<exists>o1 \<in> set (cs_present st source). cb_id o1 = ob \<and> cs = map cc_id (present_columns o1))"
    unfolding g map_of_eq_Some_iff [OF d2] by (simp add: obs_def image_iff Bex_def) blast
qed

lemma graph_adjacent: "(d, j) \<in> set (dict_get_list (sg_adjacent (load_source_graph st source)) c) \<longleftrightarrow> joined st source j c d"
  by (simp add: load_source_graph_def Let_def dict_simps joined_def image_iff Bex_def) blast

lemma graph_locals:
  assumes "store_ok st source" and "map_of (sg_object (load_source_graph st source)) n = Some ob"
  shows "d \<in> set (local_columns (load_source_graph st source) n) \<longleftrightarrow> (\<exists>l. column_in st source d ob l)"
proof -
  obtain o1 where o1: "o1 \<in> set (cs_present st source)" "cb_id o1 = ob"
    using assms(2) graph_keys(1) [OF assms(1)] by (auto simp: column_in_def)
  then have "map_of (sg_columns (load_source_graph st source)) ob = Some (map cc_id (present_columns o1))"
    using graph_keys(3) [OF assms(1)] by blast
  moreover have "o2 = o1" if "o2 \<in> set (cs_present st source)" "cb_id o2 = ob" for o2
    using that o1 assms(1) unfolding store_ok_def distinct_map by (metis inj_onD)
  then have "(\<exists>l. column_in st source d ob l) \<longleftrightarrow> (\<exists>col \<in> set (cb_columns o1). cc_present col \<and> cc_id col = d)"
    unfolding column_in_def using o1 by blast
  then have "(\<exists>l. column_in st source d ob l) \<longleftrightarrow> d \<in> cc_id ` set (present_columns o1)"
    by (simp only: present_columns_def set_filter image_iff mem_Collect_eq) blast
  ultimately show ?thesis using assms(2) by (simp add: local_columns_def)
qed

lemma column_unique: "store_ok st source \<Longrightarrow> column_in st source c ob l \<Longrightarrow> column_in st source c ob' l' \<Longrightarrow> ob' = ob \<and> l' = l"
  using graph_keys(1,2) [of st source c] by (metis option.inject)

section \<open>Trails are routes\<close>

definition trail_route :: "catalog_store \<Rightarrow> string \<Rightarrow> string \<Rightarrow> trail \<Rightarrow> bool" where
  "trail_route st source c t \<longleftrightarrow> join_route st source c (tr_hops t) (tr_column t) (tr_visited t)"

lemma route_head: "join_route st source c hs n obs \<Longrightarrow> \<exists>ob rest l. obs = ob # rest \<and> column_in st source n ob l"
  by (induction rule: join_route.induct) blast+

lemma next_trails_iff:
  assumes ok: "store_ok st source" and t: "trail_route st source c t"
  shows "y \<in> set (next_trails (load_source_graph st source) m t) \<longleftrightarrow>
    length (tr_hops t) < m \<and> (\<exists>ob obs d ld j e oe le. tr_visited t = ob # obs \<and> column_in st source d ob ld \<and> joined st source j d e \<and>
      column_in st source e oe le \<and> oe \<notin> set (tr_visited t) \<and>
      y = \<lparr>tr_column = e, tr_hops = tr_hops t @ [\<lparr>hp_join = j, hp_from = d, hp_to = e, hp_from_locator = Some ld, hp_to_locator = Some le\<rparr>],
           tr_visited = oe # tr_visited t\<rparr>)"
proof -
  define g where "g = load_source_graph st source"
  note keys = graph_keys [OF ok, folded g_def]
  obtain ob obs l where ob: "tr_visited t = ob # obs" "column_in st source (tr_column t) ob l"
    using route_head t unfolding trail_route_def by blast
  then have locals: "d \<in> set (local_columns g (tr_column t)) \<longleftrightarrow> (\<exists>l. column_in st source d ob l)" for d
    using graph_locals [OF ok, folded g_def] keys(1) by blast
  have "y \<in> set (next_trails g m t) \<longleftrightarrow> (\<exists>d e j oe. d \<in> set (local_columns g (tr_column t)) \<and> (e, j) \<in> set (dict_get_list (sg_adjacent g) d) \<and>
      map_of (sg_object g) e = Some oe \<and> oe \<notin> set (tr_visited t) \<and> length (tr_hops t) < m \<and>
      y = \<lparr>tr_column = e, tr_hops = tr_hops t @ [\<lparr>hp_join = j, hp_from = d, hp_to = e, hp_from_locator = map_of (sg_locator g) d,
            hp_to_locator = map_of (sg_locator g) e\<rparr>], tr_visited = oe # tr_visited t\<rparr>)"
    by (fastforce simp: next_trails_def not_less_eq_eq Suc_le_eq split: option.splits if_splits)
  also have "\<dots> \<longleftrightarrow> (\<exists>d ld e j oe le. column_in st source d ob ld \<and> joined st source j d e \<and>
      column_in st source e oe le \<and> oe \<notin> set (tr_visited t) \<and> length (tr_hops t) < m \<and>
      y = \<lparr>tr_column = e, tr_hops = tr_hops t @ [\<lparr>hp_join = j, hp_from = d, hp_to = e, hp_from_locator = Some ld, hp_to_locator = Some le\<rparr>],
           tr_visited = oe # tr_visited t\<rparr>)" (is "?L \<longleftrightarrow> ?R")
  proof
    assume ?L
    then obtain d e j oe where h: "d \<in> set (local_columns g (tr_column t))" "(e, j) \<in> set (dict_get_list (sg_adjacent g) d)"
      "map_of (sg_object g) e = Some oe" "oe \<notin> set (tr_visited t)" "length (tr_hops t) < m"
      and y: "y = \<lparr>tr_column = e, tr_hops = tr_hops t @ [\<lparr>hp_join = j, hp_from = d, hp_to = e, hp_from_locator = map_of (sg_locator g) d,
            hp_to_locator = map_of (sg_locator g) e\<rparr>], tr_visited = oe # tr_visited t\<rparr>" by blast
    obtain ld where ld: "column_in st source d ob ld" using h(1) locals by blast
    obtain le where le: "column_in st source e oe le" using h(3) keys(1) by blast
    have "map_of (sg_locator g) d = Some ld" "map_of (sg_locator g) e = Some le" using ld le keys(2) by blast+
    then have "y = \<lparr>tr_column = e, tr_hops = tr_hops t @ [\<lparr>hp_join = j, hp_from = d, hp_to = e, hp_from_locator = Some ld, hp_to_locator = Some le\<rparr>],
           tr_visited = oe # tr_visited t\<rparr>" using y by simp
    moreover have "joined st source j d e" using h(2) graph_adjacent unfolding g_def by blast
    ultimately show ?R using ld le h(4,5) by blast
  next
    assume ?R
    then obtain d ld e j oe le where h: "column_in st source d ob ld" "joined st source j d e"
      "column_in st source e oe le" "oe \<notin> set (tr_visited t)" "length (tr_hops t) < m"
      and y: "y = \<lparr>tr_column = e, tr_hops = tr_hops t @ [\<lparr>hp_join = j, hp_from = d, hp_to = e, hp_from_locator = Some ld, hp_to_locator = Some le\<rparr>],
           tr_visited = oe # tr_visited t\<rparr>" by blast
    have "map_of (sg_locator g) d = Some ld" "map_of (sg_locator g) e = Some le" "map_of (sg_object g) e = Some oe"
      using h(1,3) keys by blast+
    moreover have "d \<in> set (local_columns g (tr_column t))" "(e, j) \<in> set (dict_get_list (sg_adjacent g) d)"
      using h(1,2) locals graph_adjacent unfolding g_def by blast+
    ultimately show ?L using h(4,5) y by (intro exI [of _ d] exI [of _ e] exI [of _ j] exI [of _ oe]) simp
  qed
  finally show ?thesis unfolding g_def ob(1) by blast
qed

lemma next_route:
  assumes "store_ok st source" and "trail_route st source c t" and "y \<in> set (next_trails (load_source_graph st source) m t)"
  shows "trail_route st source c y"
proof -
  from assms(3) obtain ob obs d ld j e oe le where h: "tr_visited t = ob # obs" "column_in st source d ob ld" "joined st source j d e"
      "column_in st source e oe le" "oe \<notin> set (tr_visited t)"
      "y = \<lparr>tr_column = e, tr_hops = tr_hops t @ [\<lparr>hp_join = j, hp_from = d, hp_to = e, hp_from_locator = Some ld, hp_to_locator = Some le\<rparr>],
           tr_visited = oe # tr_visited t\<rparr>"
    unfolding next_trails_iff [OF assms(1,2)] by blast
  have "join_route st source c (tr_hops t) (tr_column t) (ob # obs)" using assms(2) h(1) by (simp add: trail_route_def)
  from route_hop [OF this h(2,3,4)] show ?thesis using h(1,5,6) by (simp add: trail_route_def)
qed

lemma extends_route:
  assumes "store_ok st source"
  shows "extends (next_trails (load_source_graph st source) m) keep q t \<Longrightarrow> trail_route st source c q \<Longrightarrow> trail_route st source c t \<and> length (tr_hops t) \<le> m"
proof (induction rule: extends.induct)
  case (ext_one y x)
  then show ?case using next_route [OF assms] next_trails_length by fastforce
next
  case (ext_more y x z)
  then show ?case using next_route [OF assms] by blast
qed

lemma extends_snoc: "extends succs keep x y \<Longrightarrow> keep y \<Longrightarrow> z \<in> set (succs y) \<Longrightarrow> extends succs keep x z"
  by (induction rule: extends.induct) (auto intro: extends.intros)

text \<open>Conversely a route whose objects before the last are not avoided is found by extending its start.\<close>

lemma route_extends:
  assumes ok: "store_ok st source"
    and keep: "\<And>y ob l. column_in st source (tr_column y) ob l \<Longrightarrow> ob \<notin> avoid \<Longrightarrow> length (tr_hops y) < m \<Longrightarrow> keep y"
  shows "join_route st source c hs n obs \<Longrightarrow> length hs \<le> m \<Longrightarrow> set (tl obs) \<inter> avoid = {} \<Longrightarrow>
    (hs = [] \<and> n = c \<and> (\<exists>l. column_in st source c (hd obs) l) \<and> tl obs = []) \<or>
    (\<exists>ob l. column_in st source c ob l \<and> extends (next_trails (load_source_graph st source) m) keep
      \<lparr>tr_column = c, tr_hops = [], tr_visited = [ob]\<rparr> \<lparr>tr_column = n, tr_hops = hs, tr_visited = obs\<rparr>)"
proof (induction rule: join_route.induct)
  case (route_start c ob l)
  then show ?case by auto
next
  case (route_hop c hs n ob obs d ld j e oe le)
  define t where "t = \<lparr>tr_column = n, tr_hops = hs, tr_visited = ob # obs\<rparr>"
  define y where "y = \<lparr>tr_column = e, tr_hops = hs @ [\<lparr>hp_join = j, hp_from = d, hp_to = e, hp_from_locator = Some ld, hp_to_locator = Some le\<rparr>],
    tr_visited = oe # ob # obs\<rparr>"
  have "trail_route st source c t" using route_hop.hyps(1) by (simp add: trail_route_def t_def)
  then have y: "y \<in> set (next_trails (load_source_graph st source) m t)"
  proof (intro next_trails_iff [OF ok, THEN iffD2] conjI exI)
    show "length (tr_hops t) < m" using route_hop.prems(1) by (simp add: t_def)
    show "column_in st source d ob ld" "joined st source j d e" "column_in st source e oe le" by (rule route_hop.hyps)+
  qed (use route_hop.hyps(5) in \<open>simp_all add: t_def y_def\<close>)
  have len: "length hs < m" using route_hop.prems(1) by simp
  have "ob \<notin> avoid" "set obs \<inter> avoid = {}" using route_hop.prems(2) by auto
  then consider (start) "hs = []" "n = c" "obs = []" | (more) ob0 l where "column_in st source c ob0 l"
      "extends (next_trails (load_source_graph st source) m) keep \<lparr>tr_column = c, tr_hops = [], tr_visited = [ob0]\<rparr> t"
    using route_hop.IH len unfolding t_def by fastforce
  then show ?case
  proof cases
    case start
    obtain l where "column_in st source c ob l" using route_head [OF route_hop.hyps(1)] start(2) by blast
    moreover have "t = \<lparr>tr_column = c, tr_hops = [], tr_visited = [ob]\<rparr>" by (simp add: t_def start)
    ultimately show ?thesis using ext_one [of y "next_trails (load_source_graph st source) m" t keep] y unfolding y_def by metis
  next
    case more
    obtain l' where "column_in st source (tr_column t) ob l'" using route_head [OF route_hop.hyps(1)] by (auto simp: t_def)
    then have "keep t" using keep [of t ob l'] \<open>ob \<notin> avoid\<close> len by (simp add: t_def)
    then show ?thesis using extends_snoc [OF more(2) _ y] more(1) unfolding y_def by blast
  qed
qed

section \<open>What the functions return\<close>

lemma start_queue_iff:
  assumes "store_ok st source"
  shows "q \<in> set (start_queue (load_source_graph st source) cols) \<longleftrightarrow>
    (\<exists>col \<in> set cols. \<exists>ob l. column_in st source (cc_id col) ob l \<and> q = \<lparr>tr_column = cc_id col, tr_hops = [], tr_visited = [ob]\<rparr>)"
proof -
  have "q \<in> set (start_queue (load_source_graph st source) cols) \<longleftrightarrow>
    (\<exists>col \<in> set cols. \<exists>ob. map_of (sg_object (load_source_graph st source)) (cc_id col) = Some ob \<and>
      q = \<lparr>tr_column = cc_id col, tr_hops = [], tr_visited = [ob]\<rparr>)"
    by (auto simp: start_queue_def split: option.splits) metis
  then show ?thesis unfolding graph_keys(1) [OF assms] by blast
qed

lemma start_levels: "level_search.levels (\<lambda>t. length (tr_hops t)) (start_queue g cols)"
  "level_search.shallow (\<lambda>t. length (tr_hops t)) [] (start_queue g cols)"
proof -
  have zero: "\<forall>q \<in> set (start_queue g cols). length (tr_hops q) = 0" by (auto simp: start_queue_def split: option.splits)
  have "sorted (map (\<lambda>t. length (tr_hops t)) qs)" if "\<forall>q \<in> set qs. length (tr_hops q) = 0" for qs
    using that by (induction qs) auto
  then show "level_search.levels (\<lambda>t. length (tr_hops t)) (start_queue g cols)" using zero unfolding nearest.levels_def by auto
qed (simp add: nearest.shallow_def)

lemma take_ranked:
  assumes "y \<in> set ys" and "y \<notin> set (take n (sort_key k ys))"
  shows "length (take n (sort_key k ys)) = n \<and> (\<forall>x \<in> set (take n (sort_key k ys)). k x \<le> k y)"
proof -
  define xs where "xs = sort_key k ys"
  have "y \<in> set (drop n xs)" using assms by (metis UnE append_take_drop_id set_append set_sort xs_def)
  moreover have "sorted (map k (take n xs @ drop n xs))" by (simp add: xs_def)
  ultimately have "\<forall>x \<in> set (take n xs). k x \<le> k y" unfolding map_append sorted_append by auto
  moreover have "n < length xs" using \<open>y \<in> set (drop n xs)\<close> by (metis drop_eq_Nil empty_iff empty_set linorder_not_less)
  ultimately show ?thesis by (simp add: xs_def)
qed

lemma ranked_set [simp]: "set (ranked_paths ps) = set ps"
  by (simp add: ranked_paths_def)

definition is_target :: "catalog_store \<Rightarrow> string \<Rightarrow> string option \<Rightarrow> string option \<Rightarrow> string \<Rightarrow> bool" where
  "is_target st source target_object target_column c \<longleftrightarrow>
     (case given target_column of
        Some x \<Rightarrow> c = x
      | None \<Rightarrow> (case given target_object of None \<Rightarrow> False | Some i \<Rightarrow> \<exists>l. column_in st source c i l))"

lemma target_columns_iff:
  assumes ok: "store_ok st source"
  shows "c \<in> set (target_columns (load_source_graph st source) to tc) \<longleftrightarrow> is_target st source to tc c"
proof (cases "given tc = None \<and> given to \<noteq> None")
  case True
  then obtain i where i: "given to = Some i" by blast
  have "c \<in> set (dict_get_list (sg_columns (load_source_graph st source)) i) \<longleftrightarrow> (\<exists>l. column_in st source c i l)"
  proof (cases "map_of (sg_columns (load_source_graph st source)) i")
    case None
    then have "\<not> (\<exists>o1 \<in> set (cs_present st source). cb_id o1 = i)" using graph_keys(3) [OF ok] by (metis option.distinct(1))
    then show ?thesis using None by (auto simp: dict_get_list_def column_in_def)
  next
    case (Some cs)
    then obtain o1 where o1: "o1 \<in> set (cs_present st source)" "cb_id o1 = i" "cs = map cc_id (present_columns o1)"
      using graph_keys(3) [OF ok] by blast
    have "o2 = o1" if "o2 \<in> set (cs_present st source)" "cb_id o2 = i" for o2
      using that o1(1,2) ok unfolding store_ok_def distinct_map by (metis inj_onD)
    then have "(\<exists>l. column_in st source c i l) \<longleftrightarrow> (\<exists>col \<in> set (cb_columns o1). cc_present col \<and> cc_id col = c)"
      unfolding column_in_def using o1(1,2) by blast
    also have "\<dots> \<longleftrightarrow> c \<in> set cs" unfolding o1(3) present_columns_def set_map set_filter by blast
    finally show ?thesis by (simp add: dict_get_list_def Some)
  qed
  then show ?thesis using True i by (simp add: target_columns_def is_target_def)
qed (auto simp: target_columns_def is_target_def split: option.splits)

text \<open>All targets are in one object.\<close>

lemma target_object:
  assumes "store_ok st source"
  shows "\<exists>T. \<forall>c ob l. is_target st source to tc c \<longrightarrow> column_in st source c ob l \<longrightarrow> ob = T"
proof (cases "given tc")
  case (Some x)
  then show ?thesis using column_unique [OF assms] by (simp add: is_target_def) (metis)
next
  case None
  show ?thesis
  proof (cases "given to")
    case (Some i)
    then show ?thesis using None column_unique [OF assms] by (intro exI [of _ i]) (simp add: is_target_def, blast)
  qed (simp add: is_target_def None)
qed

end
