(* ===== verification/Join_Spec.thy ===== *)
theory Join_Spec
  imports Join_Routes
begin

text \<open>
  What the two functions of \<open>metadata/joins/graph.py\<close> return, in terms of the routes over the joins of the catalog.
\<close>

lemma target_found:
  fixes st source to tc m cap cols
  assumes ok: "store_ok st source"
  defines "g \<equiv> load_source_graph st source"
  defines "targets \<equiv> target_columns g to tc"
  defines "found \<equiv> target_loop g targets m cap (start_queue g cols) []"
  shows "f \<in> set found \<Longrightarrow> is_target st source to tc (tr_column f) \<and> length (tr_hops f) \<le> m \<and> (\<exists>col \<in> set cols. trail_route st source (cc_id col) f)"
    and "distinct (map tr_column found)"
    and "col \<in> set cols \<Longrightarrow> join_route st source (cc_id col) hs n obs \<Longrightarrow> hs \<noteq> [] \<Longrightarrow> length hs \<le> m \<Longrightarrow> is_target st source to tc n \<Longrightarrow>
      (\<exists>f \<in> set found. tr_column f = n \<and> length (tr_hops f) \<le> length hs) \<or>
      (cap \<le> length found \<and> (\<forall>f \<in> set found. length (tr_hops f) \<le> length hs))"
proof -
  have targets: "c \<in> set targets \<longleftrightarrow> is_target st source to tc c" for c
    unfolding targets_def g_def by (rule target_columns_iff [OF ok])
  note sound = nearest.loop_sound [of "[]" g targets m cap "start_queue g cols", folded found_def]
  show "distinct (map tr_column found)" using sound by simp
  show "is_target st source to tc (tr_column f) \<and> length (tr_hops f) \<le> m \<and> (\<exists>col \<in> set cols. trail_route st source (cc_id col) f)"
    if f: "f \<in> set found"
  proof -
    obtain q where q: "q \<in> set (start_queue g cols)" "tr_column f \<in> set targets"
      "extends (next_trails g m) (\<lambda>y. tr_column y \<notin> set targets \<and> length (tr_hops y) < m) q f" using sound f by auto
    then obtain col ob l where s: "col \<in> set cols" "column_in st source (cc_id col) ob l" "q = \<lparr>tr_column = cc_id col, tr_hops = [], tr_visited = [ob]\<rparr>"
      unfolding g_def start_queue_iff [OF ok] by blast
    have "trail_route st source (cc_id col) q" unfolding trail_route_def using s(2,3) by (auto intro: route_start)
    then show ?thesis using extends_route [OF ok q(3) [unfolded g_def]] s(1) q(2) targets by blast
  qed
  show "(\<exists>f \<in> set found. tr_column f = n \<and> length (tr_hops f) \<le> length hs) \<or> (cap \<le> length found \<and> (\<forall>f \<in> set found. length (tr_hops f) \<le> length hs))"
    if r: "col \<in> set cols" "join_route st source (cc_id col) hs n obs" "hs \<noteq> []" "length hs \<le> m" "is_target st source to tc n"
  proof -
    obtain T where T: "\<And>c ob l. is_target st source to tc c \<Longrightarrow> column_in st source c ob l \<Longrightarrow> ob = T" using target_object [OF ok] by blast
    have "T \<notin> set (tl obs)"
    proof -
      obtain ob rest l where "obs = ob # rest" "column_in st source n ob l" using route_head [OF r(2)] by blast
      moreover have "distinct obs" using r(2) by (induction rule: join_route.induct) auto
      ultimately show ?thesis using T [OF r(5)] by auto
    qed
    then have avoid: "set (tl obs) \<inter> {T} = {}" by blast
    have keep: "tr_column y \<notin> set targets \<and> length (tr_hops y) < m"
      if "column_in st source (tr_column y) ob l" "ob \<notin> {T}" "length (tr_hops y) < m" for y ob l
      using T that targets by blast
    have "(hs = [] \<and> n = cc_id col \<and> (\<exists>l. column_in st source (cc_id col) (hd obs) l) \<and> tl obs = []) \<or>
      (\<exists>ob l. column_in st source (cc_id col) ob l \<and> extends (next_trails (load_source_graph st source) m)
        (\<lambda>y. tr_column y \<notin> set targets \<and> length (tr_hops y) < m)
        \<lparr>tr_column = cc_id col, tr_hops = [], tr_visited = [ob]\<rparr> \<lparr>tr_column = n, tr_hops = hs, tr_visited = obs\<rparr>)"
      by (rule route_extends [OF ok _ r(2,4) avoid]) (rule keep)
    with r(3) obtain ob l where q: "column_in st source (cc_id col) ob l"
      "extends (next_trails g m) (\<lambda>y. tr_column y \<notin> set targets \<and> length (tr_hops y) < m) \<lparr>tr_column = cc_id col, tr_hops = [], tr_visited = [ob]\<rparr>
        \<lparr>tr_column = n, tr_hops = hs, tr_visited = obs\<rparr>" unfolding g_def by blast
    have "\<lparr>tr_column = cc_id col, tr_hops = [], tr_visited = [ob]\<rparr> \<in> set (start_queue g cols)"
      unfolding g_def start_queue_iff [OF ok] using r(1) q(1) by blast
    from nearest.loop_complete [OF start_levels this q(2)] show ?thesis
      using r(5) targets by (simp add: found_def)
  qed
qed

lemma no_queue_no_route:
  assumes "store_ok st source" and "start_queue (load_source_graph st source) cols = []" and "col \<in> set cols"
  shows "\<not> join_route st source (cc_id col) hs n obs"
proof
  assume "join_route st source (cc_id col) hs n obs"
  then obtain ob l where "column_in st source (cc_id col) ob l"
    by (induction rule: join_route.induct) blast+
  then have "\<lparr>tr_column = cc_id col, tr_hops = [], tr_visited = [ob]\<rparr> \<in> set (start_queue (load_source_graph st source) cols)"
    unfolding start_queue_iff [OF assms(1)] using assms(3) by blast
  then show False using assms(2) by simp
qed

text \<open>C30: the finder returns routes over joins that are not rejected, within the hop limit, from a start column to distinct
  targets, at most as many as asked for; a target that a route reaches is among them at least as near, unless the
  list is full of paths that are at least as near.\<close>
theorem nearest_targets:
  assumes "store_ok st source" and "resolve_start_columns st so sc = col # cols" and "source_for_column st (cc_id col) = Some source"
    and "find_join_paths st so sc to tc max_hops top_targets = Inr res"
  defines "m \<equiv> clamp_hops max_hops" and "cap \<equiv> nat (max 1 top_targets)" and "starts \<equiv> cc_id ` set (col # cols)"
  shows "(\<forall>p \<in> set (jr_paths res). \<exists>c \<in> starts. \<exists>n ob obs. jp_column p = Some n \<and> jp_object p = Some ob \<and> is_target st source to tc n \<and>
      join_route st source c (jp_hops p) n (ob # obs) \<and> length (jp_hops p) \<le> m) \<and>
    distinct (map jp_column (jr_paths res)) \<and> length (jr_paths res) \<le> cap \<and>
    (\<forall>c \<in> starts. \<forall>hs n obs. join_route st source c hs n obs \<longrightarrow> hs \<noteq> [] \<longrightarrow> length hs \<le> m \<longrightarrow> is_target st source to tc n \<longrightarrow>
      (\<exists>p \<in> set (jr_paths res). jp_column p = Some n \<and> length (jp_hops p) \<le> length hs) \<or>
      (length (jr_paths res) = cap \<and> (\<forall>p \<in> set (jr_paths res). length (jp_hops p) \<le> length hs)))"
proof -
  define g where "g = load_source_graph st source"
  define targets where "targets = target_columns g to tc"
  define found where "found = target_loop g targets m cap (start_queue g (col # cols)) []"
  have res: "if targets = [] \<or> start_queue g (col # cols) = [] then jr_paths res = []
      else jr_paths res = take cap (ranked_paths (map (path_of g) found))"
    using assms(2-4) by (auto simp: find_join_paths_def Let_def no_start_def g_def targets_def found_def m_def cap_def split: if_splits)
  note tf = target_found [where to = to and tc = tc and m = m and cap = cap and cols = "col # cols", OF assms(1), folded g_def, folded targets_def, folded found_def]
  show ?thesis
  proof (cases "targets = [] \<or> start_queue g (col # cols) = []")
    case True
    have "\<not> (join_route st source c hs n obs \<and> is_target st source to tc n)" if "c \<in> starts" for c hs n obs
    proof (cases "targets = []")
      case True
      then show ?thesis using target_columns_iff [OF assms(1), of n to tc] by (simp add: targets_def g_def)
    next
      case False
      then show ?thesis using True no_queue_no_route [OF assms(1), of "col # cols"] that unfolding g_def starts_def by blast
    qed
    then show ?thesis using True res by auto
  next
    case False
    then have paths: "jr_paths res = take cap (ranked_paths (map (path_of g) found))" using res by simp
    have inj: "jp_column (path_of g f) = Some (tr_column f)" "jp_hops (path_of g f) = tr_hops f" for f by (simp_all add: path_of_def)
    have mem: "\<exists>f \<in> set found. p = path_of g f" if "p \<in> set (jr_paths res)" for p
      using that unfolding paths by (auto dest!: in_set_takeD)
    have sound: "\<exists>c \<in> starts. \<exists>n ob obs. jp_column p = Some n \<and> jp_object p = Some ob \<and> is_target st source to tc n \<and>
      join_route st source c (jp_hops p) n (ob # obs) \<and> length (jp_hops p) \<le> m" if p: "p \<in> set (jr_paths res)" for p
    proof -
      obtain f where f: "f \<in> set found" "p = path_of g f" using mem [OF p] by blast
      obtain c where c: "c \<in> starts" "trail_route st source c f" using tf(1) [OF f(1)] unfolding starts_def by blast
      obtain ob obs l where o1: "tr_visited f = ob # obs" "column_in st source (tr_column f) ob l"
        using route_head c(2) unfolding trail_route_def by blast
      have "trail_object g f = Some ob" using o1(2) graph_keys(1) [OF assms(1)] unfolding trail_object_def g_def by blast
      then show ?thesis using f c o1 tf(1) [OF f(1)] by (auto simp: path_of_def trail_route_def)
    qed
    have "distinct (map jp_column (map (path_of g) found))"
      using tf(2) by (simp add: comp_def inj distinct_map inj_on_def)
    then have "distinct (map jp_column (ranked_paths (map (path_of g) found)))"
      unfolding ranked_paths_def distinct_map set_sort by (simp add: distinct_map)
    then have dist: "distinct (map jp_column (jr_paths res))" unfolding paths by (simp flip: take_map)
    have near: "(\<exists>p \<in> set (jr_paths res). jp_column p = Some n \<and> length (jp_hops p) \<le> length hs) \<or>
      (length (jr_paths res) = cap \<and> (\<forall>p \<in> set (jr_paths res). length (jp_hops p) \<le> length hs))"
      if r: "c \<in> starts" "join_route st source c hs n obs" "hs \<noteq> []" "length hs \<le> m" "is_target st source to tc n" for c hs n obs
    proof -
      from r(1) obtain cl where "cl \<in> set (col # cols)" "c = cc_id cl" unfolding starts_def by blast
      from tf(3) [OF this(1) r(2) [unfolded this(2)] r(3-5)]
      consider (near) f where "f \<in> set found" "tr_column f = n" "length (tr_hops f) \<le> length hs"
        | (full) "cap \<le> length found" "\<forall>f \<in> set found. length (tr_hops f) \<le> length hs" by blast
      then show ?thesis
      proof cases
        case near
        show ?thesis
        proof (cases "path_of g f \<in> set (jr_paths res)")
          case True
          then show ?thesis using near inj by metis
        next
          case False
          then show ?thesis
            using take_ranked [of "path_of g f" "map (path_of g) found" cap "\<lambda>p. (length (jp_hops p), path_summary p)"] near
            unfolding paths ranked_paths_def by (fastforce simp: inj less_eq_prod_def)
        qed
      next
        case full
        have "length (jr_paths res) = cap" unfolding paths using full(1) by (simp add: ranked_paths_def)
        then show ?thesis using full(2) mem inj by metis
      qed
    qed
    have "length (jr_paths res) \<le> cap" unfolding paths by simp
    then show ?thesis using sound dist near by blast
  qed
qed

lemma reach_found:
  fixes st source m cols
  assumes ok: "store_ok st source"
  defines "g \<equiv> load_source_graph st source"
  defines "found \<equiv> reach_loop g m (start_queue g cols) []"
  shows "f \<in> set found \<Longrightarrow> tr_hops f \<noteq> [] \<and> length (tr_hops f) \<le> m \<and> (\<exists>col \<in> set cols. trail_route st source (cc_id col) f)"
    and "distinct (map (trail_object g) found)"
    and "col \<in> set cols \<Longrightarrow> join_route st source (cc_id col) hs n (ob # obs) \<Longrightarrow> hs \<noteq> [] \<Longrightarrow> length hs \<le> m \<Longrightarrow>
      \<exists>f \<in> set found. trail_object g f = Some ob \<and> length (tr_hops f) \<le> length hs"
proof -
  note sound = reach.loop_sound [of "[]" g m "start_queue g cols", folded found_def]
  show "distinct (map (trail_object g) found)" using sound by simp
  show "tr_hops f \<noteq> [] \<and> length (tr_hops f) \<le> m \<and> (\<exists>col \<in> set cols. trail_route st source (cc_id col) f)" if f: "f \<in> set found"
  proof -
    obtain q where q: "q \<in> set (start_queue g cols)" "extends (next_trails g m) (\<lambda>y. length (tr_hops y) < m) q f" using sound f by auto
    then obtain col ob l where s: "col \<in> set cols" "column_in st source (cc_id col) ob l" "q = \<lparr>tr_column = cc_id col, tr_hops = [], tr_visited = [ob]\<rparr>"
      unfolding g_def start_queue_iff [OF ok] by blast
    have "trail_route st source (cc_id col) q" unfolding trail_route_def using s(2,3) by (auto intro: route_start)
    moreover have "tr_hops f \<noteq> []" using reach.extends_deeper [OF q(2)] by auto
    ultimately show ?thesis using extends_route [OF ok q(2) [unfolded g_def]] s(1) by blast
  qed
  show "\<exists>f \<in> set found. trail_object g f = Some ob \<and> length (tr_hops f) \<le> length hs"
    if r: "col \<in> set cols" "join_route st source (cc_id col) hs n (ob # obs)" "hs \<noteq> []" "length hs \<le> m"
  proof -
    have "(hs = [] \<and> n = cc_id col \<and> (\<exists>l. column_in st source (cc_id col) (hd (ob # obs)) l) \<and> tl (ob # obs) = []) \<or>
      (\<exists>ob0 l. column_in st source (cc_id col) ob0 l \<and> extends (next_trails (load_source_graph st source) m) (\<lambda>y. length (tr_hops y) < m)
        \<lparr>tr_column = cc_id col, tr_hops = [], tr_visited = [ob0]\<rparr> \<lparr>tr_column = n, tr_hops = hs, tr_visited = ob # obs\<rparr>)"
      by (rule route_extends [where avoid = "{}", OF ok _ r(2,4)]) auto
    with r(3) obtain ob0 l where q: "column_in st source (cc_id col) ob0 l"
      "extends (next_trails g m) (\<lambda>y. length (tr_hops y) < m) \<lparr>tr_column = cc_id col, tr_hops = [], tr_visited = [ob0]\<rparr>
        \<lparr>tr_column = n, tr_hops = hs, tr_visited = ob # obs\<rparr>" unfolding g_def by blast
    have start: "\<lparr>tr_column = cc_id col, tr_hops = [], tr_visited = [ob0]\<rparr> \<in> set (start_queue g cols)"
      unfolding g_def start_queue_iff [OF ok] using r(1) q(1) by blast
    obtain l' where "column_in st source n ob l'" using route_head [OF r(2)] by blast
    then have "trail_object g \<lparr>tr_column = n, tr_hops = hs, tr_visited = ob # obs\<rparr> = Some ob"
      using graph_keys(1) [OF ok] unfolding trail_object_def g_def by auto
    then show ?thesis using reach.loop_complete [OF start_levels start q(2)] by (simp add: found_def)
  qed
qed

text \<open>C31: the reachable-object search returns exactly one path per object that a route of at least one hop within the limit
  reaches from a start column: a route itself, and no longer than any such route to that object.\<close>
theorem reachable_objects_exact:
  fixes st so sc col cols source max_hops
  assumes "store_ok st source" and "resolve_start_columns st so sc = col # cols" and "source_for_column st (cc_id col) = Some source"
  defines "m \<equiv> clamp_hops max_hops" and "starts \<equiv> cc_id ` set (col # cols)" and "res \<equiv> find_reachable_object_paths st so sc max_hops"
  shows "(\<forall>p \<in> set (jr_paths res). \<exists>c \<in> starts. \<exists>n ob obs. jp_column p = Some n \<and> jp_object p = Some ob \<and>
      join_route st source c (jp_hops p) n (ob # obs) \<and> jp_hops p \<noteq> [] \<and> length (jp_hops p) \<le> m) \<and>
    distinct (map jp_object (jr_paths res)) \<and>
    (\<forall>c \<in> starts. \<forall>hs n ob obs. join_route st source c hs n (ob # obs) \<longrightarrow> hs \<noteq> [] \<longrightarrow> length hs \<le> m \<longrightarrow>
      (\<exists>p \<in> set (jr_paths res). jp_object p = Some ob \<and> length (jp_hops p) \<le> length hs))"
proof -
  define g where "g = load_source_graph st source"
  define found where "found = reach_loop g m (start_queue g (col # cols)) []"
  note rf = reach_found [where m = m and cols = "col # cols", OF assms(1), folded g_def, folded found_def]
  have res: "jr_paths res = ranked_paths (map (path_of g) found)"
    using assms(2,3) by (simp add: res_def find_reachable_object_paths_def Let_def no_start_def g_def [symmetric] m_def [symmetric] found_def ranked_paths_def)
  have sound: "\<exists>c \<in> starts. \<exists>n ob obs. jp_column p = Some n \<and> jp_object p = Some ob \<and>
      join_route st source c (jp_hops p) n (ob # obs) \<and> jp_hops p \<noteq> [] \<and> length (jp_hops p) \<le> m" if p: "p \<in> set (jr_paths res)" for p
  proof -
    obtain f where f: "f \<in> set found" "p = path_of g f" using p unfolding res by auto
    obtain c where c: "c \<in> starts" "trail_route st source c f" using rf(1) [OF f(1)] unfolding starts_def by blast
    obtain ob obs l where o1: "tr_visited f = ob # obs" "column_in st source (tr_column f) ob l"
      using route_head c(2) unfolding trail_route_def by blast
    have "trail_object g f = Some ob" using o1(2) graph_keys(1) [OF assms(1)] unfolding trail_object_def g_def by blast
    then show ?thesis using f c o1 rf(1) [OF f(1)] by (auto simp: path_of_def trail_route_def)
  qed
  have "map jp_object (map (path_of g) found) = map (trail_object g) found" by (simp add: path_of_def)
  then have "distinct (map jp_object (map (path_of g) found))" using rf(2) by (simp only:)
  then have dist: "distinct (map jp_object (jr_paths res))"
    unfolding res ranked_paths_def distinct_map set_sort by (simp add: distinct_map)
  have near: "\<exists>p \<in> set (jr_paths res). jp_object p = Some ob \<and> length (jp_hops p) \<le> length hs"
    if r: "c \<in> starts" "join_route st source c hs n (ob # obs)" "hs \<noteq> []" "length hs \<le> m" for c hs n ob obs
  proof -
    from r(1) obtain cl where "cl \<in> set (col # cols)" "c = cc_id cl" unfolding starts_def by blast
    from rf(3) [OF this(1) r(2) [unfolded this(2)] r(3,4)] show ?thesis unfolding res by (auto simp: path_of_def)
  qed
  show ?thesis using sound dist near by blast
qed

section \<open>A catalog\<close>

text \<open>Three tables in a row, a rejected shortcut from the first to the last, and a fourth table nobody joins.\<close>

definition shop_column :: "string \<Rightarrow> string \<Rightarrow> catalog_column" where
  "shop_column t c = \<lparr>cc_id = t @ ''.'' @ c, cc_object = t, cc_locator = c, cc_present = True\<rparr>"

definition shop_tables :: "catalog_object list" where
  "shop_tables = map (\<lambda>(t, cs). \<lparr>cb_id = t, cb_source = ''shop'', cb_columns = map (shop_column t) cs\<rparr>)
     [(''item'', [''id'', ''line'']), (''line'', [''id'', ''sale'']), (''sale'', [''id'']), (''note'', [''id''])]"

definition shop_joins :: "catalog_join list" where
  "shop_joins = [\<lparr>cj_id = ''a'', cj_from = ''item.line'', cj_to = ''line.id'', cj_expression = None, cj_rejected = False\<rparr>,
     \<lparr>cj_id = ''b'', cj_from = ''line.sale'', cj_to = ''sale.id'', cj_expression = None, cj_rejected = False\<rparr>,
     \<lparr>cj_id = ''c'', cj_from = ''item.id'', cj_to = ''sale.id'', cj_expression = None, cj_rejected = True\<rparr>]"

definition shop :: catalog_store where
  "shop = \<lparr>cs_object = (\<lambda>i. List.find (\<lambda>ob. cb_id ob = i) shop_tables),
     cs_column = (\<lambda>i. List.find (\<lambda>c. cc_id c = i) (concat (map cb_columns shop_tables))),
     cs_present = (\<lambda>s. if s = ''shop'' then shop_tables else []), cs_joins = (\<lambda>s. if s = ''shop'' then shop_joins else [])\<rparr>"

lemma shop_ok: "store_ok shop ''shop''" by code_simp

lemma shop_start: "resolve_start_columns shop None (Some ''item.id'') = [shop_column ''item'' ''id'']"
  "source_for_column shop (cc_id (shop_column ''item'' ''id'')) = Some ''shop''"
  by code_simp+

definition shop_path :: "join_error + join_result" where
  "shop_path = find_join_paths shop None (Some ''item.id'') (Some ''sale'') None 9 3"

lemma shop_found: "\<not> isl shop_path" "map (\<lambda>p. length (jp_hops p)) (jr_paths (projr shop_path)) = [2]"
  by code_simp+

theorem nearest_targets_witness:
  "\<exists>p n. p \<in> set (jr_paths (projr shop_path)) \<and> jp_column p = Some n \<and> length (jp_hops p) = 2 \<and>
    is_target shop ''shop'' (Some ''sale'') None n \<and> (\<exists>ob obs. join_route shop ''shop'' ''item.id'' (jp_hops p) n (ob # obs))"
proof -
  obtain p where p: "p \<in> set (jr_paths (projr shop_path))" "length (jp_hops p) = 2"
    using shop_found(2) by (metis list.set_intros(1) map_eq_Cons_D)
  have res: "find_join_paths shop None (Some ''item.id'') (Some ''sale'') None 9 3 = Inr (projr shop_path)"
    using shop_found(1) unfolding shop_path_def by (metis sum.collapse(2))
  have "cc_id (shop_column ''item'' ''id'') = ''item.id''" by code_simp
  then have "\<forall>p \<in> set (jr_paths (projr shop_path)). \<exists>n ob obs. jp_column p = Some n \<and> is_target shop ''shop'' (Some ''sale'') None n \<and>
      join_route shop ''shop'' ''item.id'' (jp_hops p) n (ob # obs)"
    using nearest_targets [OF shop_ok shop_start res, THEN conjunct1] by simp blast
  then show ?thesis using p by blast
qed

lemma shop_reach: "map jp_object (jr_paths (find_reachable_object_paths shop None (Some ''item.id'') 1)) = [Some ''line'']"
  "map jp_object (jr_paths (find_reachable_object_paths shop None (Some ''item.id'') 2)) = [Some ''line'', Some ''sale'']"
  by code_simp+

theorem reachable_objects_exact_witness:
  "\<not> (\<exists>hs n obs. join_route shop ''shop'' ''item.id'' hs n (''note'' # obs) \<and> hs \<noteq> [] \<and> length hs \<le> 2)"
proof -
  have "Some ''note'' \<notin> jp_object ` set (jr_paths (find_reachable_object_paths shop None (Some ''item.id'') 2))"
    using arg_cong [OF shop_reach(2), of set] by simp
  moreover have "cc_id (shop_column ''item'' ''id'') = ''item.id''" "clamp_hops 2 = 2" by code_simp+
  ultimately show ?thesis
    using reachable_objects_exact [OF shop_ok shop_start, where max_hops = 2, THEN conjunct2, THEN conjunct2] unfolding image_iff by simp metis
qed

end
