(* ===== verification/Catalog_Locators.thy ===== *)
theory Catalog_Locators
  imports Text
begin

text \<open>
  Locator keys of sources, catalog objects and columns (\<open>metadata/locators.py\<close>), with \<open>quote\<close> and \<open>unquote\<close> of
  \<open>urllib.parse\<close> on code points up to U+00FF: a text that decodes to a code point above is \<open>Beyond_Latin\<close>.
\<close>

section \<open>Percent encoding\<close>

definition unreserved :: "nat \<Rightarrow> bool" where
  "unreserved b \<longleftrightarrow> 48 \<le> b \<and> b \<le> 57 \<or> 65 \<le> b \<and> b \<le> 90 \<or> 97 \<le> b \<and> b \<le> 122 \<or> b \<in> {45, 46, 95, 126}"

definition utf8_char :: "char \<Rightarrow> nat list" where
  "utf8_char c = (let n = of_char c in if n < 128 then [n] else [192 + n div 64, 128 + n mod 64])"

definition upper_hex :: "nat \<Rightarrow> char" where
  "upper_hex n = (if n < 10 then char_of (48 + n) else char_of (55 + n))"

definition quote_byte :: "nat \<Rightarrow> string" where
  "quote_byte b = (if unreserved b then [char_of b] else [CHR ''%'', upper_hex (b div 16), upper_hex (b mod 16)])"

definition url_quote :: "string \<Rightarrow> string" where
  "url_quote s = concat (map quote_byte (concat (map utf8_char s)))"

definition hex_value :: "char \<Rightarrow> nat option" where
  "hex_value c =
     (let n = of_char c in
      if 48 \<le> n \<and> n \<le> 57 then Some (n - 48)
      else if 65 \<le> n \<and> n \<le> 70 then Some (n - 55)
      else if 97 \<le> n \<and> n \<le> 102 then Some (n - 87) else None)"

fun unquote_bytes :: "string \<Rightarrow> nat list" where
  "unquote_bytes [] = []"
| "unquote_bytes (c # cs) =
     (if c = CHR ''%''
      then (case cs of
              a # b # rest \<Rightarrow>
                (case (hex_value a, hex_value b) of
                   (Some x, Some y) \<Rightarrow> (16 * x + y) # unquote_bytes rest
                 | _ \<Rightarrow> 37 # unquote_bytes cs)
            | _ \<Rightarrow> 37 # unquote_bytes cs)
      else of_char c # unquote_bytes cs)"

fun utf8_decode :: "nat list \<Rightarrow> string option" where
  "utf8_decode [] = Some []"
| "utf8_decode (b # bs) =
     (if b < 128 then map_option (\<lambda>s. char_of b # s) (utf8_decode bs)
      else if b = 194 \<or> b = 195
      then (case bs of
              d # rest \<Rightarrow>
                if 128 \<le> d \<and> d < 192 then map_option (\<lambda>s. char_of ((b - 192) * 64 + (d - 128)) # s) (utf8_decode rest) else None
            | [] \<Rightarrow> None)
      else None)"

text \<open>Runs of ASCII are decoded, other characters stay.\<close>

fun unquote_from :: "string \<Rightarrow> string \<Rightarrow> string option" where
  "unquote_from run [] = utf8_decode (unquote_bytes run)"
| "unquote_from run (c # cs) =
     (if (of_char c :: nat) < 128 then unquote_from (run @ [c]) cs
      else Option.bind (utf8_decode (unquote_bytes run)) (\<lambda>x. map_option (\<lambda>y. x @ c # y) (unquote_from [] cs)))"

definition url_unquote :: "string \<Rightarrow> string option" where
  "url_unquote s = unquote_from [] s"

section \<open>Locators\<close>

datatype locator_error = Locator_Invalid | Beyond_Latin

definition latin_lower :: "string \<Rightarrow> string" where
  "latin_lower s =
     map (\<lambda>c. let n = of_char c in if is_upper c \<or> (192 \<le> n \<and> n \<le> 222 \<and> n \<noteq> (215 :: nat)) then char_of (n + 32) else c) s"

definition source_locator_segment :: "string option \<Rightarrow> string \<Rightarrow> locator_error + string" where
  "source_locator_segment engine kind =
     (let cleaned_kind = latin_lower (py_strip kind);
          by_kind = (if cleaned_kind = [] then Inl Locator_Invalid else Inr cleaned_kind) in
      case engine of
        None \<Rightarrow> by_kind
      | Some e \<Rightarrow> if py_strip e \<noteq> [] then Inr (latin_lower (py_strip e)) else by_kind)"

definition locator_text :: "string list \<Rightarrow> string" where
  "locator_text parts = join ''/'' parts"

definition format_source_locator :: "string option \<Rightarrow> string \<Rightarrow> string \<Rightarrow> locator_error + string" where
  "format_source_locator engine kind key =
     ok_bind (source_locator_segment engine kind) (\<lambda>seg. Inr (locator_text (''src'' # map url_quote [seg, key])))"

definition format_object_locator ::
  "string option \<Rightarrow> string \<Rightarrow> string \<Rightarrow> string \<Rightarrow> string \<Rightarrow> string \<Rightarrow> locator_error + string" where
  "format_object_locator engine kind source_key schema_name object_type name =
     ok_bind (source_locator_segment engine kind)
       (\<lambda>seg. Inr (locator_text (''obj'' # map url_quote [seg, source_key, schema_name, object_type, name])))"

definition format_column_locator ::
  "string option \<Rightarrow> string \<Rightarrow> string \<Rightarrow> string \<Rightarrow> string \<Rightarrow> string \<Rightarrow> string \<Rightarrow> string \<Rightarrow> locator_error + string" where
  "format_column_locator engine kind source_key schema_name object_type name column_name field_kind =
     ok_bind (source_locator_segment engine kind)
       (\<lambda>seg. Inr (locator_text (''col'' # map url_quote [seg, source_key, schema_name, object_type, name, field_kind, column_name])))"

record source_locator =
  sl_segment :: string
  sl_key :: string

record object_locator =
  ol_segment :: string
  ol_key :: string
  ol_schema :: string
  ol_type :: string
  ol_name :: string

record column_locator =
  cl_segment :: string
  cl_source_key :: string
  cl_schema :: string
  cl_type :: string
  cl_object_name :: string
  cl_field_kind :: string
  cl_column :: string

definition decoded :: "string \<Rightarrow> locator_error + string" where
  "decoded part = (case url_unquote part of None \<Rightarrow> Inl Beyond_Latin | Some s \<Rightarrow> Inr s)"

definition parse_source_locator :: "string \<Rightarrow> locator_error + source_locator" where
  "parse_source_locator key =
     (case split_on CHR ''/'' key of
        [tag, a, b] \<Rightarrow>
          if tag \<noteq> ''src'' then Inl Locator_Invalid
          else ok_bind (decoded a) (\<lambda>seg. ok_bind (decoded b) (\<lambda>k. Inr \<lparr>sl_segment = seg, sl_key = k\<rparr>))
      | _ \<Rightarrow> Inl Locator_Invalid)"

definition parse_object_locator :: "string \<Rightarrow> locator_error + object_locator" where
  "parse_object_locator key =
     (case split_on CHR ''/'' key of
        [tag, a, b, c, d, e] \<Rightarrow>
          if tag \<noteq> ''obj'' then Inl Locator_Invalid
          else ok_bind (decoded a) (\<lambda>seg. ok_bind (decoded b) (\<lambda>k. ok_bind (decoded c) (\<lambda>sch. ok_bind (decoded d) (\<lambda>t. ok_bind (decoded e)
            (\<lambda>n. Inr \<lparr>ol_segment = seg, ol_key = k, ol_schema = sch, ol_type = t, ol_name = n\<rparr>)))))
      | _ \<Rightarrow> Inl Locator_Invalid)"

definition parse_column_locator :: "string \<Rightarrow> locator_error + column_locator" where
  "parse_column_locator key =
     (case split_on CHR ''/'' key of
        [tag, a, b, c, d, e, f, g] \<Rightarrow>
          if tag \<noteq> ''col'' then Inl Locator_Invalid
          else ok_bind (decoded a) (\<lambda>seg. ok_bind (decoded b) (\<lambda>k. ok_bind (decoded c) (\<lambda>sch. ok_bind (decoded d) (\<lambda>t. ok_bind (decoded e)
            (\<lambda>n. ok_bind (decoded f) (\<lambda>fk. ok_bind (decoded g) (\<lambda>col.
               Inr \<lparr>cl_segment = seg, cl_source_key = k, cl_schema = sch, cl_type = t, cl_object_name = n, cl_field_kind = fk, cl_column = col\<rparr>)))))))
      | _ \<Rightarrow> Inl Locator_Invalid)"

section \<open>Reading back\<close>

lemma hex_upper: "n < 16 \<Longrightarrow> hex_value (upper_hex n) = Some n"
  by (auto simp: upper_hex_def hex_value_def Let_def)

lemma unreserved_plain: "unreserved b \<Longrightarrow> b < 128 \<and> b \<noteq> 37 \<and> b \<noteq> 47"
  by (auto simp: unreserved_def)

lemma quote_byte_back: "b < 256 \<Longrightarrow> unquote_bytes (quote_byte b @ s) = b # unquote_bytes s"
proof -
  assume b: "b < 256"
  show ?thesis
  proof (cases "unreserved b")
    case True
    have "(of_char (char_of b :: char) :: nat) = b" using b by simp
    moreover have "char_of b \<noteq> CHR ''%''"
    proof
      assume "char_of b = CHR ''%''"
      then have "(of_char (char_of b :: char) :: nat) = of_char (CHR ''%'')" by simp
      then show False using b unreserved_plain [OF True] by simp
    qed
    ultimately show ?thesis using True by (simp add: quote_byte_def)
  next
    case False
    then show ?thesis using b by (simp add: quote_byte_def hex_upper)
  qed
qed

lemma utf8_bytes: "b \<in> set (utf8_char c) \<Longrightarrow> b < 256"
proof -
  have "(of_char c :: nat) < 256" by (rule nat_of_char_less_256)
  then have "(of_char c :: nat) div 64 < 4" by (simp add: div_less_iff_less_mult)
  then show "b \<in> set (utf8_char c) \<Longrightarrow> b < 256" by (auto simp: utf8_char_def Let_def split: if_splits)
qed

lemma unquote_quoted: "\<forall>b \<in> set bs. b < 256 \<Longrightarrow> unquote_bytes (concat (map quote_byte bs)) = bs"
  by (induction bs) (simp_all add: quote_byte_back)

lemma utf8_back: "utf8_decode (utf8_char c @ bs) = map_option (\<lambda>s. c # s) (utf8_decode bs)"
proof -
  have n: "(of_char c :: nat) < 256" by (rule nat_of_char_less_256)
  have again: "char_of (of_char c :: nat) = c" by simp
  show ?thesis
  proof (cases "(of_char c :: nat) < 128")
    case True
    then show ?thesis by (simp add: utf8_char_def)
  next
    case False
    have "(of_char c :: nat) div 64 = 2 \<or> (of_char c :: nat) div 64 = 3" using n False by arith
    then have "192 + (of_char c :: nat) div 64 = 194 \<or> 192 + (of_char c :: nat) div 64 = 195" by auto
    moreover have "(of_char c :: nat) div 64 * 64 + (of_char c :: nat) mod 64 = of_char c" by simp
    ultimately show ?thesis using False again by (auto simp: utf8_char_def Let_def)
  qed
qed

lemma utf8_all: "utf8_decode (concat (map utf8_char s)) = Some s"
  by (induction s) (simp_all add: utf8_back)

lemma upper_hex_plain: "n < 16 \<Longrightarrow> (of_char (upper_hex n) :: nat) < 128 \<and> upper_hex n \<noteq> CHR ''/''"
proof -
  assume n: "n < 16"
  have "(of_char (upper_hex n) :: nat) = (if n < 10 then 48 + n else 55 + n)" using n by (simp add: upper_hex_def)
  moreover have "(of_char (CHR ''/'') :: nat) = 47" by simp
  ultimately have "(of_char (upper_hex n) :: nat) < 128" "(of_char (upper_hex n) :: nat) \<noteq> of_char (CHR ''/'')" using n by auto
  then show ?thesis by auto
qed

lemma quote_byte_plain: "b < 256 \<Longrightarrow> c \<in> set (quote_byte b) \<Longrightarrow> (of_char c :: nat) < 128 \<and> c \<noteq> CHR ''/''"
proof -
  assume b: "b < 256" and c: "c \<in> set (quote_byte b)"
  show ?thesis
  proof (cases "unreserved b")
    case True
    then have "(of_char c :: nat) = b" using b c by (simp add: quote_byte_def)
    moreover have "(of_char (CHR ''/'') :: nat) = 47" by simp
    ultimately show ?thesis using unreserved_plain [OF True] by auto
  next
    case False
    have "b div 16 < 16" "b mod 16 < 16" using b by auto
    then show ?thesis using False c upper_hex_plain by (auto simp: quote_byte_def)
  qed
qed

lemma quote_bytes: "\<forall>b \<in> set (concat (map utf8_char s)). b < 256"
  using utf8_bytes by auto

lemma url_quote_plain: "c \<in> set (url_quote s) \<Longrightarrow> (of_char c :: nat) < 128 \<and> c \<noteq> CHR ''/''"
  using quote_byte_plain quote_bytes [of s] by (auto simp: url_quote_def)

lemma unquote_ascii: "\<forall>c \<in> set s. (of_char c :: nat) < 128 \<Longrightarrow> unquote_from run s = utf8_decode (unquote_bytes (run @ s))"
  by (induction s arbitrary: run) simp_all

lemma unquote_quote: "url_unquote (url_quote s) = Some s"
proof -
  have "url_unquote (url_quote s) = utf8_decode (unquote_bytes (url_quote s))"
    using unquote_ascii [of "url_quote s" "[]"] url_quote_plain by (simp add: url_unquote_def)
  then show ?thesis unfolding url_quote_def using unquote_quoted [OF quote_bytes] utf8_all by simp
qed

lemma decoded_quote [simp]: "decoded (url_quote s) = Inr s"
  by (simp add: decoded_def unquote_quote)

lemma locator_parts: "CHR ''/'' \<notin> set tag \<Longrightarrow> split_on CHR ''/'' (locator_text (tag # map url_quote parts)) = tag # map url_quote parts"
  unfolding locator_text_def using url_quote_plain by (intro split_join) auto

text \<open>C29: a locator that was formatted is parsed into exactly the parts it was formatted from, whatever characters they
  have; so two things that differ in a part never share a locator.\<close>
theorem locator_roundtrip:
  assumes "source_locator_segment engine kind = Inr seg"
  shows "(\<exists>l. format_source_locator engine kind key = Inr l \<and> parse_source_locator l = Inr \<lparr>sl_segment = seg, sl_key = key\<rparr>) \<and>
    (\<exists>l. format_object_locator engine kind key schema type name = Inr l \<and>
      parse_object_locator l = Inr \<lparr>ol_segment = seg, ol_key = key, ol_schema = schema, ol_type = type, ol_name = name\<rparr>) \<and>
    (\<exists>l. format_column_locator engine kind key schema type name col fk = Inr l \<and>
      parse_column_locator l = Inr \<lparr>cl_segment = seg, cl_source_key = key, cl_schema = schema, cl_type = type, cl_object_name = name,
        cl_field_kind = fk, cl_column = col\<rparr>)"
proof -
  have "CHR ''/'' \<notin> set ''src''" "CHR ''/'' \<notin> set ''obj''" "CHR ''/'' \<notin> set ''col''" by simp_all
  note parts = this [THEN locator_parts]
  show ?thesis using assms parts(1) [of "[seg, key]"] parts(2) [of "[seg, key, schema, type, name]"]
      parts(3) [of "[seg, key, schema, type, name, fk, col]"]
    by (simp add: format_source_locator_def format_object_locator_def format_column_locator_def
      parse_source_locator_def parse_object_locator_def parse_column_locator_def)
qed

lemma demo_segment: "source_locator_segment (Some '' Oracle '') [] = Inr ''oracle''" by code_simp

theorem locator_roundtrip_witness: "\<exists>l. format_source_locator (Some '' Oracle '') [] ''50%/a'' = Inr l \<and>
    parse_source_locator l = Inr \<lparr>sl_segment = ''oracle'', sl_key = ''50%/a''\<rparr>"
  using locator_roundtrip [OF demo_segment, of "''50%/a''"] by blast

end
