(* ===== verification/Channel_Template.thy ===== *)
theory Channel_Template
  imports Channel_Validate Text
begin

text \<open>
  Template fields (\<open>channel/template.py\<close>): the scanner, the names an expression reads, the schema at a path,
  the static check, rendering, and the match of a value with a schema. \<open>ast.parse\<close>, \<open>json.loads\<close> and \<open>repr\<close> of a
  float are parameters. The keys of a dictionary are strings; a date is its \<open>isoformat\<close>; \<open>enum\<close> and \<open>required\<close> are
  lists, as JSON Schema says. An exception is \<open>Inl\<close>.
\<close>

section \<open>Expressions and values\<close>

datatype py_const = K_Str string | K_Int int | K_Other

datatype py_expr =
    E_Name string
  | E_Attr py_expr string
  | E_Sub py_expr py_expr
  | E_Const py_const
  | E_USub py_expr
  | E_Node "py_expr list"

datatype py_value =
    P_None
  | P_Bool bool
  | P_Int int
  | P_Float rat
  | P_Str string
  | P_List "py_value list"
  | P_Dict "(string \<times> py_value) list"
  | P_Date string
  | P_Datetime string
  | P_Time string
  | P_Decimal rat
  | P_Other string

record template_env =
  te_ast :: "string \<Rightarrow> py_expr option"
  te_loads :: "string \<Rightarrow> json option"
  te_float :: "rat \<Rightarrow> string"

datatype template_error = Template_Syntax string | Template_Type string | Template_Other string

fun of_json :: "json \<Rightarrow> py_value" where
  "of_json JNull = P_None"
| "of_json (JBool b) = P_Bool b"
| "of_json (JInt i) = P_Int i"
| "of_json (JFloat r) = P_Float r"
| "of_json (JStr s) = P_Str s"
| "of_json (JArr xs) = P_List (map of_json xs)"
| "of_json (JObj kvs) = P_Dict (map (\<lambda>(k, v). (k, of_json v)) kvs)"

text \<open>Python's equality: a boolean is a number, and integers, floats and decimals compare by value.\<close>

fun py_number :: "py_value \<Rightarrow> rat option" where
  "py_number (P_Bool b) = Some (if b then 1 else 0)"
| "py_number (P_Int i) = Some (of_int i)"
| "py_number (P_Float r) = Some r"
| "py_number (P_Decimal r) = Some r"
| "py_number _ = None"

function py_eq :: "py_value \<Rightarrow> py_value \<Rightarrow> bool" where
  "py_eq v w =
     (case (v, w) of
        (P_List xs, P_List ys) \<Rightarrow> length xs = length ys \<and> (\<forall>(x, y) \<in> set (zip xs ys). py_eq x y)
      | (P_Dict xs, P_Dict ys) \<Rightarrow> length xs = length ys \<and>
          (\<forall>(k, x) \<in> set xs. case map_of ys k of None \<Rightarrow> False | Some y \<Rightarrow> py_eq x y)
      | (P_None, P_None) \<Rightarrow> True
      | (P_Str s, P_Str t) \<Rightarrow> s = t
      | _ \<Rightarrow> (case (py_number v, py_number w) of (Some x, Some y) \<Rightarrow> x = y | _ \<Rightarrow> False))"
  by pat_completeness auto

lemma zip_size: "(x, y) \<in> set (zip xs ys) \<Longrightarrow> size x \<le> size_list size xs"
  by (meson order_refl set_zip_leftD size_list_estimation')

lemma pair_size: "(k, x) \<in> set kvs \<Longrightarrow> size x \<le> size_list (size_prod (\<lambda>_. 0) size) kvs"
  using size_list_estimation' [of "(k, x)" kvs "size x" "size_prod (\<lambda>_. 0) size"] by simp

termination py_eq
proof (relation "measure (\<lambda>(v, w). size v)", goal_cases)
  case 2
  then show ?case by (auto simp: less_Suc_eq_le intro: zip_size)
next
  case 3
  then show ?case by (auto simp: less_Suc_eq_le intro: pair_size)
qed simp

declare py_eq.simps [simp del]

section \<open>The scanner\<close>

datatype segment = Seg_Text string | Seg_Expr string

datatype quote = Single char | Triple char

fun quote_text :: "quote \<Rightarrow> string" where
  "quote_text (Single c) = [c]"
| "quote_text (Triple c) = [c, c, c]"

text \<open>The body up to the closing braces, and the text behind them.\<close>

definition close_body :: "template_env \<Rightarrow> string \<Rightarrow> string \<Rightarrow> template_error + (string \<times> string)" where
  "close_body env acc rest =
     (let body = py_strip acc in
      if body = [] then Inl (Template_Syntax ''Expression is empty'')
      else case te_ast env body of
             None \<Rightarrow> Inl (Template_Syntax ''Expression does not parse'')
           | Some _ \<Rightarrow> Inr (body, rest))"

text \<open>One turn of the loop: the new depth and quote, and how far it moves; none at a brace that may close.\<close>

definition read_move :: "nat \<Rightarrow> quote option \<Rightarrow> string \<Rightarrow> (nat \<times> quote option \<times> nat) option" where
  "read_move depth q src =
     (case src of
        [] \<Rightarrow> None
      | c # cs \<Rightarrow>
          (case q of
             Some quot \<Rightarrow>
               if c = CHR 0x5C \<and> length (quote_text quot) = 1 then Some (depth, q, 2)
               else if starts_with src (quote_text quot) then Some (depth, None, length (quote_text quot))
               else Some (depth, q, 1)
           | None \<Rightarrow>
               if c = CHR 0x27 \<or> c = CHR 0x22
               then (let quot = (if starts_with src [c, c, c] then Triple c else Single c)
                     in Some (depth, Some quot, length (quote_text quot)))
               else if c = CHR ''{'' then Some (Suc depth, None, 1)
               else if c = CHR ''}'' then (if depth > 0 then Some (depth - 1, None, 1) else None)
               else Some (depth, None, 1)))"

lemma quote_length [simp]: "quote_text quot \<noteq> []" "0 < length (quote_text quot)"
  by (cases quot; simp)+

lemma read_move_progress: "read_move depth q src = Some (d, q', k) \<Longrightarrow> src \<noteq> [] \<and> 0 < k"
  by (auto simp: read_move_def Let_def split: list.splits option.splits if_splits)

function read_expression :: "template_env \<Rightarrow> nat \<Rightarrow> quote option \<Rightarrow> string \<Rightarrow> string \<Rightarrow> template_error + (string \<times> string)" where
  "read_expression env depth q acc src =
     (case read_move depth q src of
        Some (d, q', k) \<Rightarrow> read_expression env d q' (acc @ take k src) (drop k src)
      | None \<Rightarrow>
          if src = [] then Inl (Template_Syntax ''Expression is not closed'')
          else if starts_with src ''}}'' then close_body env acc (drop 2 src)
          else Inl (Template_Syntax ''Expression has an unmatched brace''))"
  by pat_completeness auto

termination read_expression
  by (relation "measure (\<lambda>(env, depth, q, acc, src). length src)") (auto dest: read_move_progress)

declare read_expression.simps [simp del]

lemma starts_split: "starts_with src p \<longleftrightarrow> (\<exists>r. src = p @ r)"
  by (induction src p rule: starts_with.induct) auto

text \<open>What is read is the body and the closing braces.\<close>

lemma read_parts:
  "read_expression env depth q acc src = Inr (body, rest) \<Longrightarrow>
   \<exists>raw. src = raw @ ''}}'' @ rest \<and> close_body env (acc @ raw) rest = Inr (body, rest)"
proof (induction env depth q acc src rule: read_expression.induct)
  case (1 env depth q acc src)
  show ?case
  proof (cases "read_move depth q src")
    case None
    then obtain r where "src = ''}}'' @ r" "close_body env acc r = Inr (body, rest)"
      using 1(2) by (auto simp: read_expression.simps [of _ _ _ _ src] starts_split split: if_splits)
    then show ?thesis by (intro exI [of _ "[]"]) (auto simp: close_body_def Let_def split: if_splits option.splits)
  next
    case (Some m)
    obtain d q' k where m: "m = (d, q', k)" by (cases m)
    then have "read_expression env d q' (acc @ take k src) (drop k src) = Inr (body, rest)"
      using 1(2) Some by (simp add: read_expression.simps [of _ _ _ _ src])
    then obtain raw where raw: "drop k src = raw @ ''}}'' @ rest" "close_body env ((acc @ take k src) @ raw) rest = Inr (body, rest)"
      using 1(1) [OF Some m [symmetric] refl] by blast
    have "src = take k src @ drop k src" by simp
    then have "src = (take k src @ raw) @ ''}}'' @ rest" using raw(1) by simp
    then show ?thesis using raw(2) by (intro exI [of _ "take k src @ raw"]) simp
  qed
qed

definition flush :: "string \<Rightarrow> segment list" where
  "flush buf = (if buf = [] then [] else [Seg_Text buf])"

definition slashes :: "string \<Rightarrow> nat" where
  "slashes src = length (takeWhile (\<lambda>c. c = CHR 0x5C) src)"

function scan_template :: "template_env \<Rightarrow> string \<Rightarrow> string \<Rightarrow> template_error + segment list" where
  "scan_template env buf src =
     (case src of
        [] \<Rightarrow> Inr (flush buf)
      | c # cs \<Rightarrow>
          if c = CHR 0x5C
          then (let count = slashes src; rest = drop (slashes src) src in
                if starts_with rest ''{{''
                then (if odd count then scan_template env (buf @ replicate (count div 2) (CHR 0x5C) @ ''{{'') (drop 2 rest)
                      else scan_template env (buf @ replicate (count div 2) (CHR 0x5C)) rest)
                else scan_template env (buf @ replicate count (CHR 0x5C)) rest)
          else if starts_with src ''{{''
          then (case read_expression env 0 None [] (drop 1 cs) of
                  Inl e \<Rightarrow> Inl e
                | Inr (body, rest) \<Rightarrow> ok_bind (scan_template env [] rest) (\<lambda>more. Inr (flush buf @ Seg_Expr body # more)))
          else scan_template env (buf @ [c]) cs)"
  by pat_completeness auto

termination scan_template
proof (relation "measure (\<lambda>(env, buf, src). length src)", goal_cases)
  case (5 env buf src c cs x body rest)
  then obtain raw where "drop 1 cs = raw @ ''}}'' @ rest" using read_parts by blast
  then have "length rest < length (drop 1 cs)" by simp
  then show ?case using 5(1) by simp
qed (auto simp: slashes_def)

declare scan_template.simps [simp del]

section \<open>Parsing\<close>

text \<open>The visitor: what \<open>self.<name>\<close> and \<open>self.nodes[<name>]\<close> read, in the order of the visit.\<close>

datatype reading = Read_Ref string | Read_Node string | Read_Context string

definition context_names :: "string list" where
  "context_names = [''channel'', ''run'', ''platform'']"

definition reserved_attrs :: "string list" where
  "reserved_attrs = context_names @ [''nodes'']"

definition attr_reads :: "py_expr \<Rightarrow> string \<Rightarrow> reading list" where
  "attr_reads v attr =
     (if v \<noteq> E_Name ''self'' then []
      else if attr \<in> set context_names then [Read_Context attr]
      else if attr \<notin> set reserved_attrs then [Read_Ref attr] else [])"

definition subscript_reads :: "py_expr \<Rightarrow> py_expr \<Rightarrow> reading list" where
  "subscript_reads v key =
     (case (v, key) of
        (E_Attr (E_Name x) attr, E_Const (K_Str name)) \<Rightarrow>
          if x = ''self'' \<and> attr = ''nodes'' then [Read_Node name] else []
      | _ \<Rightarrow> [])"

fun expr_reads :: "py_expr \<Rightarrow> reading list" where
  "expr_reads (E_Name x) = []"
| "expr_reads (E_Attr v attr) = attr_reads v attr @ expr_reads v"
| "expr_reads (E_Sub v key) = subscript_reads v key @ expr_reads v @ expr_reads key"
| "expr_reads (E_Const k) = []"
| "expr_reads (E_USub v) = expr_reads v"
| "expr_reads (E_Node vs) = concat (map expr_reads vs)"

record parsed_template = template +
  pt_raw :: string
  pt_segments :: "segment list"
  pt_whole :: "string option"
  pt_contexts :: "string list"

definition segment_reads :: "template_env \<Rightarrow> segment \<Rightarrow> reading list" where
  "segment_reads env seg =
     (case seg of
        Seg_Text _ \<Rightarrow> []
      | Seg_Expr body \<Rightarrow> (case te_ast env body of None \<Rightarrow> [] | Some e \<Rightarrow> expr_reads e))"

definition parse_template :: "template_env \<Rightarrow> string \<Rightarrow> template_error + parsed_template" where
  "parse_template env src =
     (let raw = py_strip src in
      ok_bind (scan_template env [] raw) (\<lambda>segments.
        let found = concat (map (segment_reads env) segments) in
        Inr \<lparr>tp_refs = remdups (concat (map (\<lambda>r. case r of Read_Ref x \<Rightarrow> [x] | _ \<Rightarrow> []) found)),
             tp_node_names = remdups (concat (map (\<lambda>r. case r of Read_Node x \<Rightarrow> [x] | _ \<Rightarrow> []) found)),
             pt_raw = raw, pt_segments = segments,
             pt_whole = (case segments of [Seg_Expr body] \<Rightarrow> Some body | _ \<Rightarrow> None),
             pt_contexts = remdups (concat (map (\<lambda>r. case r of Read_Context x \<Rightarrow> [x] | _ \<Rightarrow> []) found))\<rparr>))"

section \<open>The schema at a path\<close>

datatype path_step = Step_Attr string | Step_Key string | Step_Index int

definition subscript_key :: "py_expr \<Rightarrow> path_step option" where
  "subscript_key e =
     (case e of
        E_Const (K_Str s) \<Rightarrow> Some (Step_Key s)
      | E_Const (K_Int i) \<Rightarrow> Some (Step_Index i)
      | E_USub (E_Const (K_Int i)) \<Rightarrow> Some (Step_Index (- i))
      | _ \<Rightarrow> None)"

fun path_steps :: "py_expr \<Rightarrow> path_step list option" where
  "path_steps (E_Name x) = (if x = ''self'' then Some [] else None)"
| "path_steps (E_Attr v attr) = map_option (\<lambda>steps. steps @ [Step_Attr attr]) (path_steps v)"
| "path_steps (E_Sub v key) =
     (case subscript_key key of None \<Rightarrow> None | Some k \<Rightarrow> map_option (\<lambda>steps. steps @ [k]) (path_steps v))"
| "path_steps _ = None"

definition type_names :: "json \<Rightarrow> string list" where
  "type_names schema =
     (case json_get ''type'' schema of
        Some (JStr s) \<Rightarrow> [s]
      | Some (JArr xs) \<Rightarrow> concat (map (\<lambda>x. case x of JStr s \<Rightarrow> [s] | _ \<Rightarrow> []) xs)
      | _ \<Rightarrow> [])"

definition array_item_schema :: "json \<Rightarrow> json option" where
  "array_item_schema schema =
     (let kind = json_get ''type'' schema;
          is_array = (case kind of Some (JStr s) \<Rightarrow> s = ''array'' | Some (JArr xs) \<Rightarrow> JStr ''array'' \<in> set xs | _ \<Rightarrow> False) in
      if is_array then map_option JObj (get_obj ''items'' schema) else None)"

definition property_schema :: "json \<Rightarrow> string \<Rightarrow> json option" where
  "property_schema schema name =
     (case Option.bind (get_obj ''properties'' schema) (\<lambda>kvs. Option.bind (map_of kvs name) as_obj) of
        Some kvs \<Rightarrow> Some (JObj kvs)
      | None \<Rightarrow> map_option JObj (get_obj ''additionalProperties'' schema))"

definition walk_schema :: "json \<Rightarrow> path_step \<Rightarrow> json option" where
  "walk_schema schema step =
     (case step of
        Step_Attr name \<Rightarrow> property_schema schema name
      | Step_Key name \<Rightarrow> property_schema schema name
      | Step_Index _ \<Rightarrow> array_item_schema schema)"

fun walk_schemas :: "json \<Rightarrow> path_step list \<Rightarrow> json option" where
  "walk_schemas schema [] = Some schema"
| "walk_schemas schema (step # steps) =
     (case walk_schema schema step of None \<Rightarrow> None | Some sub \<Rightarrow> walk_schemas sub steps)"

definition port_order :: "bool \<Rightarrow> string list" where
  "port_order step =
     (if step then [''each'', ''main'', ''done'', ''true''] else [''main'', ''done'', ''each'', ''true''])"

definition port_schema :: "(string \<times> json) list \<Rightarrow> bool \<Rightarrow> json option" where
  "port_schema produced step =
     map_option JObj (case List.map_filter (\<lambda>port. Option.bind (map_of produced port) as_obj) (port_order step) of
       [] \<Rightarrow> None | kvs # _ \<Rightarrow> Some kvs)"

text \<open>The node a path starts at, and the rest of the path.\<close>

definition path_root :: "upstream \<Rightarrow> path_step list \<Rightarrow> (string \<times> path_step list) option" where
  "path_root up steps =
     (case steps of
        Step_Attr first # tail \<Rightarrow>
          if first = ''nodes''
          then (case tail of
                  Step_Key name # tail' \<Rightarrow> map_option (\<lambda>ref. (ref, tail')) (map_of (up_names up) name)
                | _ \<Rightarrow> None)
          else if first \<in> set reserved_attrs then None else Some (first, tail)
      | _ \<Rightarrow> None)"

definition schema_from_steps :: "upstream \<Rightarrow> path_step list \<Rightarrow> json option" where
  "schema_from_steps up steps =
     (case path_root up steps of
        Some (ref, Step_Attr out # tail) \<Rightarrow>
          if out \<noteq> ''output'' then None
          else (case Option.bind (map_of (up_schemas up) ref) (\<lambda>produced. port_schema produced (ref \<in> set (up_inside up))) of
                  None \<Rightarrow> None
                | Some schema \<Rightarrow> walk_schemas schema tail)
      | _ \<Rightarrow> None)"

definition schema_at_path :: "template_env \<Rightarrow> string \<Rightarrow> upstream \<Rightarrow> json option" where
  "schema_at_path env src up =
     (case parse_template env src of
        Inl _ \<Rightarrow> None
      | Inr t \<Rightarrow>
          (case Option.bind (pt_whole t) (\<lambda>body. Option.bind (te_ast env body) path_steps) of
             None \<Rightarrow> None
           | Some steps \<Rightarrow> if steps = [] then None else schema_from_steps up steps))"

section \<open>Values and their types\<close>

text \<open>\<open>_matches\<close> and \<open>_matches_type\<close>; with \<open>widen\<close> dates and decimals count as their JSON types.\<close>

function matches :: "bool \<Rightarrow> json \<Rightarrow> py_value \<Rightarrow> bool"
  and matches_type :: "bool \<Rightarrow> json \<Rightarrow> string \<Rightarrow> py_value \<Rightarrow> bool" where
  "matches widen schema v =
     ((case json_get ''enum'' schema of None \<Rightarrow> True | Some e \<Rightarrow>
         \<exists>w \<in> set (case as_arr e of None \<Rightarrow> [] | Some ws \<Rightarrow> ws). py_eq v (of_json w)) \<and>
      (if type_names schema = [] then json_get ''enum'' schema = None
       else \<exists>name \<in> set (type_names schema). matches_type widen schema name v))"
| "matches_type widen schema name v =
     (if name = ''null'' then v = P_None
      else if name = ''string'' then
        (case v of P_Str _ \<Rightarrow> True | P_Date _ \<Rightarrow> widen | P_Datetime _ \<Rightarrow> widen | P_Time _ \<Rightarrow> widen | _ \<Rightarrow> False)
      else if name = ''boolean'' then (case v of P_Bool _ \<Rightarrow> True | _ \<Rightarrow> False)
      else if name = ''integer'' then (case v of P_Int _ \<Rightarrow> True | _ \<Rightarrow> False)
      else if name = ''number'' then (case v of P_Int _ \<Rightarrow> True | P_Float _ \<Rightarrow> True | P_Decimal _ \<Rightarrow> widen | _ \<Rightarrow> False)
      else if name = ''array'' then
        (case v of
           P_List xs \<Rightarrow> (case get_obj ''items'' schema of
               None \<Rightarrow> True | Some items \<Rightarrow> \<forall>x \<in> set xs. matches widen (JObj items) x)
         | _ \<Rightarrow> False)
      else if name = ''object'' then
        (case v of
           P_Dict kvs \<Rightarrow>
             (case get_arr ''required'' schema of None \<Rightarrow> True | Some req \<Rightarrow> \<forall>key \<in> set req. key \<in> (JStr \<circ> fst) ` set kvs) \<and>
             (case get_obj ''properties'' schema of
                None \<Rightarrow> True
              | Some props \<Rightarrow>
                  (\<forall>(k, x) \<in> set kvs. case Option.bind (map_of props k) as_obj of
                     None \<Rightarrow> True | Some sub \<Rightarrow> matches widen (JObj sub) x) \<and>
                  (json_get ''additionalProperties'' schema = Some (JBool False) \<longrightarrow> fst ` set kvs \<subseteq> fst ` set props))
         | _ \<Rightarrow> False)
      else False)"
  by pat_completeness auto

termination matches
proof (relation "measures [\<lambda>x. case x of Inl (w, schema, v) \<Rightarrow> size v | Inr (w, schema, name, v) \<Rightarrow> size v,
    \<lambda>x. case x of Inl _ \<Rightarrow> 1 | Inr _ \<Rightarrow> 0]", goal_cases)
  case 3
  then show ?case by (auto simp: less_Suc_eq_le intro: size_list_estimation')
next
  case 4
  then show ?case by (auto simp: less_Suc_eq_le intro: pair_size)
qed auto

declare matches.simps [simp del] matches_type.simps [simp del]

definition value_matches :: "py_value \<Rightarrow> json \<Rightarrow> bool" where
  "value_matches v schema = matches False schema v"

definition output_matches :: "py_value \<Rightarrow> json \<Rightarrow> bool" where
  "output_matches v schema = matches True schema v"

section \<open>Rendering\<close>

definition is_string :: "json \<Rightarrow> bool" where
  "is_string schema \<longleftrightarrow> set (type_names schema) - {''null''} = {''string''}"

definition json_template :: "json \<Rightarrow> bool" where
  "json_template schema \<longleftrightarrow> json_get ''x-refraq-json-template'' schema = Some (JBool True)"

text \<open>\<open>json.dumps\<close> as it is called: with spaces, without spaces, and the canonical form with sorted keys, no spaces
  and ASCII only. A value that is no JSON raises \<open>TypeError\<close>.\<close>

datatype json_style = Spaced | Compact | Canonical

definition dumps_char :: "json_style \<Rightarrow> char \<Rightarrow> string" where
  "dumps_char style c =
     (let n = of_char c in
      if c = CHR 0x22 \<or> c = CHR 0x5C then [CHR 0x5C, c]
      else if n = 10 then [CHR 0x5C, CHR ''n'']
      else if n = 13 then [CHR 0x5C, CHR ''r'']
      else if n = 9 then [CHR 0x5C, CHR ''t'']
      else if n = 12 then [CHR 0x5C, CHR ''f'']
      else if n = 8 then [CHR 0x5C, CHR ''b'']
      else if n < 32 \<or> (style = Canonical \<and> n > 126) then CHR 0x5C # ''u00'' @ [hex_digit (n div 16), hex_digit (n mod 16)]
      else [c])"

definition dumps_str :: "json_style \<Rightarrow> string \<Rightarrow> string" where
  "dumps_str style s = CHR 0x22 # concat (map (dumps_char style) s) @ [CHR 0x22]"

fun with_separator :: "string \<Rightarrow> string list \<Rightarrow> string" where
  "with_separator sep [] = []"
| "with_separator sep [x] = x"
| "with_separator sep (x # xs) = x @ sep @ with_separator sep xs"

definition not_json :: "string \<Rightarrow> template_error" where
  "not_json kind = Template_Other (''Object of type '' @ kind @ '' is not JSON serializable'')"

lemma map_ok_cong [fundef_cong]: "xs = ys \<Longrightarrow> (\<And>x. x \<in> set ys \<Longrightarrow> f x = g x) \<Longrightarrow> map_ok f xs = map_ok g ys"
  by (induction ys arbitrary: xs) auto

function (sequential) json_text :: "json_style \<Rightarrow> (rat \<Rightarrow> string) \<Rightarrow> py_value \<Rightarrow> template_error + string" where
  "json_text style fl P_None = Inr ''null''"
| "json_text style fl (P_Bool b) = Inr (if b then ''true'' else ''false'')"
| "json_text style fl (P_Int i) = Inr (str_int i)"
| "json_text style fl (P_Float r) = Inr (fl r)"
| "json_text style fl (P_Str s) = Inr (dumps_str style s)"
| "json_text style fl (P_List xs) =
     ok_bind (map_ok (json_text style fl) xs) (\<lambda>ts. Inr (''['' @ with_separator (if style = Spaced then '', '' else '','') ts @ '']''))"
| "json_text style fl (P_Dict kvs) =
     ok_bind (map_ok (\<lambda>(k, v). ok_bind (json_text style fl v) (\<lambda>t. Inr (dumps_str style k @ (if style = Spaced then '': '' else '':'') @ t)))
         (if style = Canonical then sort_key fst kvs else kvs))
       (\<lambda>ts. Inr (''{'' @ with_separator (if style = Spaced then '', '' else '','') ts @ ''}''))"
| "json_text style fl (P_Date _) = Inl (not_json ''date'')"
| "json_text style fl (P_Datetime _) = Inl (not_json ''datetime'')"
| "json_text style fl (P_Time _) = Inl (not_json ''time'')"
| "json_text style fl (P_Decimal _) = Inl (not_json ''Decimal'')"
| "json_text style fl (P_Other kind) = Inl (not_json kind)"
  by pat_completeness auto

termination json_text
  by (relation "measure (\<lambda>(style, fl, v). size v)") (auto simp: less_Suc_eq_le intro: pair_size size_list_estimation' split: if_splits)

definition to_text :: "template_env \<Rightarrow> py_value \<Rightarrow> template_error + string" where
  "to_text env v =
     (case v of
        P_None \<Rightarrow> Inr []
      | P_Bool b \<Rightarrow> Inr (if b then ''true'' else ''false'')
      | P_Str s \<Rightarrow> Inr s
      | P_Int _ \<Rightarrow> json_text Spaced (te_float env) v
      | P_Float _ \<Rightarrow> json_text Spaced (te_float env) v
      | P_List _ \<Rightarrow> json_text Spaced (te_float env) v
      | P_Dict _ \<Rightarrow> json_text Spaced (te_float env) v
      | P_Datetime s \<Rightarrow> Inr s
      | P_Date s \<Rightarrow> Inr s
      | P_Time s \<Rightarrow> Inr s
      | _ \<Rightarrow> Inl (Template_Type ''Value cannot be concatenated''))"

definition coerce_native :: "template_env \<Rightarrow> py_value \<Rightarrow> json \<Rightarrow> template_error + py_value" where
  "coerce_native env v schema =
     (if is_string schema \<and> \<not> json_template schema then
        (if v = P_None then (if ''null'' \<in> set (type_names schema) then Inr P_None else Inl (Template_Type ''None is not a string''))
         else case v of P_Str _ \<Rightarrow> Inr v | _ \<Rightarrow> ok_bind (to_text env v) (\<lambda>t. Inr (P_Str t)))
      else if value_matches v schema then Inr v
      else Inl (Template_Type ''Value does not match the declared type''))"

definition coerce_text :: "template_env \<Rightarrow> string \<Rightarrow> json \<Rightarrow> template_error + py_value" where
  "coerce_text env src schema =
     (if is_string schema \<and> \<not> json_template schema then Inr (P_Str src)
      else case te_loads env src of
             None \<Rightarrow> Inl (Template_Type ''Value is not JSON of the declared type'')
           | Some j \<Rightarrow> if value_matches (of_json j) schema then Inr (of_json j)
                       else Inl (Template_Type ''Value does not match the declared type''))"

definition render_segment :: "template_env \<Rightarrow> (string \<Rightarrow> template_error + py_value) \<Rightarrow> segment \<Rightarrow> template_error + string" where
  "render_segment env evaluate seg =
     (case seg of Seg_Text s \<Rightarrow> Inr s | Seg_Expr body \<Rightarrow> ok_bind (evaluate body) (to_text env))"

definition render :: "template_env \<Rightarrow> string \<Rightarrow> (string \<Rightarrow> template_error + py_value) \<Rightarrow> json \<Rightarrow> template_error + py_value" where
  "render env src evaluate schema =
     ok_bind (parse_template env src) (\<lambda>t.
       case pt_whole t of
         Some body \<Rightarrow> ok_bind (evaluate body) (\<lambda>v. coerce_native env v schema)
       | None \<Rightarrow> ok_bind (map_ok (render_segment env evaluate) (pt_segments t)) (\<lambda>parts. coerce_text env (concat parts) schema))"

definition is_expr :: "segment \<Rightarrow> bool" where
  "is_expr seg = (case seg of Seg_Expr _ \<Rightarrow> True | _ \<Rightarrow> False)"

definition joined_text :: "segment list \<Rightarrow> string" where
  "joined_text segments = concat (map (\<lambda>seg. case seg of Seg_Text s \<Rightarrow> s | _ \<Rightarrow> []) segments)"

definition static_check :: "template_env \<Rightarrow> parsed_template \<Rightarrow> json option \<Rightarrow> template_error + static_status" where
  "static_check env t value_schema =
     (case value_schema of
        None \<Rightarrow> Inr Static_Unknown
      | Some schema \<Rightarrow>
          if pt_whole t \<noteq> None then Inr Static_Unknown
          else if \<exists>seg \<in> set (pt_segments t). is_expr seg
          then Inr (if is_string schema then Static_Ok else Static_Unknown)
          else ok_bind (coerce_text env (joined_text (pt_segments t)) schema) (\<lambda>_. Inr Static_Ok))"

text \<open>What the draft validation uses of it.\<close>

definition template_library :: "template_env \<Rightarrow> template_lib" where
  "template_library env =
     \<lparr>tl_parse = (\<lambda>src. case parse_template env src of Inl _ \<Rightarrow> None | Inr t \<Rightarrow> Some (template.truncate t)),
      tl_static = (\<lambda>src schema. case parse_template env src of
         Inl _ \<Rightarrow> Static_Mismatch
       | Inr t \<Rightarrow> (case static_check env t (Some schema) of Inl _ \<Rightarrow> Static_Mismatch | Inr status \<Rightarrow> status))\<rparr>"

end
