(* ===== verification/Channel_Sandbox.thy ===== *)
theory Channel_Sandbox
  imports Channel_Template "HOL-Library.AList"
begin

text \<open>
  The expression sandbox: what an expression that is a path reads in the child process
  (\<open>channel/sandbox/child.py\<close>), the messages that fill it, and the session that restarts it
  (\<open>channel/sandbox/client.py\<close>). The process and its pipes are the store_answers the environment gives; attributes of
  Python's own objects are a parameter.
\<close>

section \<open>The child\<close>

record node_view =
  nv_name :: string
  nv_output :: py_value

record self_proxy =
  sp_channel :: py_value
  sp_run :: py_value
  sp_platform :: py_value
  sp_refs :: "(string \<times> node_view) list"

definition fresh_proxy :: self_proxy where
  "fresh_proxy = \<lparr>sp_channel = P_Dict [], sp_run = P_Dict [], sp_platform = P_Dict [], sp_refs = []\<rparr>"

datatype message =
    Put_Context py_value py_value py_value
  | Put_Output string string py_value
  | Drop_Outputs "string list"

fun py_truthy :: "py_value \<Rightarrow> bool" where
  "py_truthy P_None = False"
| "py_truthy (P_Bool b) = b"
| "py_truthy (P_Int i) = (i \<noteq> 0)"
| "py_truthy (P_Float r) = (r \<noteq> 0)"
| "py_truthy (P_Decimal r) = (r \<noteq> 0)"
| "py_truthy (P_Str s) = (s \<noteq> [])"
| "py_truthy (P_List xs) = (xs \<noteq> [])"
| "py_truthy (P_Dict kvs) = (kvs \<noteq> [])"
| "py_truthy _ = True"

definition or_empty :: "py_value \<Rightarrow> py_value" where
  "or_empty v = (if py_truthy v then v else P_Dict [])"

definition handle_message :: "self_proxy \<Rightarrow> message \<Rightarrow> self_proxy" where
  "handle_message sp msg =
     (case msg of
        Put_Context c r p \<Rightarrow> sp\<lparr>sp_channel := or_empty c, sp_run := or_empty r, sp_platform := or_empty p\<rparr>
      | Put_Output ref name output \<Rightarrow> sp\<lparr>sp_refs := AList.update ref \<lparr>nv_name = name, nv_output = output\<rparr> (sp_refs sp)\<rparr>
      | Drop_Outputs refs \<Rightarrow> sp\<lparr>sp_refs := filter (\<lambda>(ref, _). ref \<notin> set refs) (sp_refs sp)\<rparr>)"

text \<open>Objects an expression meets: the proxy, its \<open>nodes\<close>, a view, a value, or another object of Python.\<close>

datatype obj = O_Self | O_Nodes | O_View node_view | O_Value py_value | O_Other

definition dunder :: "string \<Rightarrow> bool" where
  "dunder name \<longleftrightarrow> starts_with name ''__'' \<and> starts_with (rev name) ''__''"

text \<open>\<open>host\<close> is the attribute lookup of Python's own objects, \<open>None\<close> an exception.\<close>

type_synonym host = "obj \<Rightarrow> string \<Rightarrow> obj option"

definition proxy_attr :: "host \<Rightarrow> self_proxy \<Rightarrow> string \<Rightarrow> obj option" where
  "proxy_attr host sp name =
     (if name = ''channel'' then Some (O_Value (sp_channel sp))
      else if name = ''run'' then Some (O_Value (sp_run sp))
      else if name = ''platform'' then Some (O_Value (sp_platform sp))
      else if name = ''nodes'' then Some O_Nodes
      else case host O_Self name of
             Some x \<Rightarrow> Some x
           | None \<Rightarrow> map_option O_View (map_of (sp_refs sp) name))"

definition step_attr :: "host \<Rightarrow> self_proxy \<Rightarrow> obj \<Rightarrow> string \<Rightarrow> obj option" where
  "step_attr host sp x name =
     (case x of
        O_Self \<Rightarrow> proxy_attr host sp name
      | O_View nv \<Rightarrow>
          if name = ''output'' then Some (O_Value (nv_output nv))
          else if name = ''name'' then Some (O_Value (P_Str (nv_name nv)))
          else host x name
      | O_Value P_None \<Rightarrow> None
      | O_Value (P_Dict kvs) \<Rightarrow>
          if dunder name then host x name
          else (case map_of kvs name of Some v \<Rightarrow> Some (O_Value v) | None \<Rightarrow> host x name)
      | _ \<Rightarrow> host x name)"

definition list_index :: "'a list \<Rightarrow> int \<Rightarrow> 'a option" where
  "list_index xs i =
     (if 0 \<le> i \<and> i < int (length xs) then Some (xs ! nat i)
      else if - int (length xs) \<le> i \<and> i < 0 then Some (xs ! nat (int (length xs) + i)) else None)"

definition step_sub :: "self_proxy \<Rightarrow> obj \<Rightarrow> path_step \<Rightarrow> obj option" where
  "step_sub sp x key =
     (case (x, key) of
        (O_Nodes, Step_Key name) \<Rightarrow> map_option O_View (List.find (\<lambda>nv. nv_name nv = name) (map snd (sp_refs sp)))
      | (O_Value (P_Dict kvs), Step_Key name) \<Rightarrow> map_option O_Value (map_of kvs name)
      | (O_Value (P_List xs), Step_Index i) \<Rightarrow> map_option O_Value (list_index xs i)
      | (O_Value (P_Str s), Step_Index i) \<Rightarrow> map_option (\<lambda>c. O_Value (P_Str [c])) (list_index s i)
      | _ \<Rightarrow> None)"

text \<open>An expression made of attributes and constant subscripts.\<close>

fun eval_path :: "host \<Rightarrow> self_proxy \<Rightarrow> py_expr \<Rightarrow> obj option" where
  "eval_path host sp (E_Name x) = (if x = ''self'' then Some O_Self else None)"
| "eval_path host sp (E_Attr e name) = Option.bind (eval_path host sp e) (\<lambda>x. step_attr host sp x name)"
| "eval_path host sp (E_Sub e key) =
     (case subscript_key key of
        None \<Rightarrow> None
      | Some k \<Rightarrow> Option.bind (eval_path host sp e) (\<lambda>x. step_sub sp x k))"
| "eval_path host sp _ = None"

section \<open>The session\<close>

text \<open>Messages travel as JSON: a value that is no JSON cannot be sent.\<close>

fun sendable :: "py_value \<Rightarrow> bool" where
  "sendable (P_List xs) = list_all sendable xs"
| "sendable (P_Dict kvs) = list_all (\<lambda>(k, v). sendable v) kvs"
| "sendable (P_Date _) = False"
| "sendable (P_Datetime _) = False"
| "sendable (P_Time _) = False"
| "sendable (P_Decimal _) = False"
| "sendable (P_Other _) = False"
| "sendable _ = True"

fun message_sendable :: "message \<Rightarrow> bool" where
  "message_sendable (Put_Context c r p) = (sendable c \<and> sendable r \<and> sendable p)"
| "message_sendable (Put_Output ref name output) = sendable output"
| "message_sendable (Drop_Outputs refs) = True"

datatype session_error =
    Not_Sendable
  | Sandbox_Failed
  | Expression_Error string
  | Code_Error string string "(string \<times> py_value) list"

text \<open>The child is \<open>None\<close> when no process runs.\<close>

record session =
  ss_context :: "message option"
  ss_outputs :: "message list"
  ss_child :: "self_proxy option"

definition open_session :: session where
  "open_session = \<lparr>ss_context = None, ss_outputs = [], ss_child = Some fresh_proxy\<rparr>"

definition send :: "message \<Rightarrow> session \<Rightarrow> (session_error + unit) \<times> session" where
  "send msg s =
     (case ss_child s of
        None \<Rightarrow> (Inl Sandbox_Failed, s)
      | Some sp \<Rightarrow> if message_sendable msg then (Inr (), s\<lparr>ss_child := Some (handle_message sp msg)\<rparr>) else (Inl Not_Sendable, s))"

definition set_context :: "py_value \<Rightarrow> py_value \<Rightarrow> py_value \<Rightarrow> session \<Rightarrow> (session_error + unit) \<times> session" where
  "set_context c r p s = send (Put_Context c r p) (s\<lparr>ss_context := Some (Put_Context c r p)\<rparr>)"

definition put_output :: "string \<Rightarrow> string \<Rightarrow> py_value \<Rightarrow> session \<Rightarrow> (session_error + unit) \<times> session" where
  "put_output ref name output s =
     send (Put_Output ref name output) (s\<lparr>ss_outputs := ss_outputs s @ [Put_Output ref name output]\<rparr>)"

fun message_ref :: "message \<Rightarrow> string" where
  "message_ref (Put_Output ref name output) = ref"
| "message_ref _ = ''None''"

definition session_drop :: "string list \<Rightarrow> session \<Rightarrow> (session_error + unit) \<times> session" where
  "session_drop refs s =
     send (Drop_Outputs refs) (s\<lparr>ss_outputs := filter (\<lambda>m. message_ref m \<notin> set refs) (ss_outputs s)\<rparr>)"

fun send_all :: "message list \<Rightarrow> session \<Rightarrow> (session_error + unit) \<times> session" where
  "send_all [] s = (Inr (), s)"
| "send_all (m # ms) s = (case send m s of (Inl e, s') \<Rightarrow> (Inl e, s') | (Inr _, s') \<Rightarrow> send_all ms s')"

definition restart :: "session \<Rightarrow> (session_error + unit) \<times> session" where
  "restart s =
     send_all ((case ss_context s of None \<Rightarrow> [] | Some m \<Rightarrow> [m]) @ ss_outputs s) (s\<lparr>ss_child := Some fresh_proxy\<rparr>)"

text \<open>What comes of an evaluation: a reply, with the child as the expression leaves it, no reply in time, or the end of
  the child.\<close>

datatype 'r answer = Replied 'r self_proxy | Timed_Out | Child_Gone

definition restarted :: "session_error \<Rightarrow> session \<Rightarrow> (session_error + 'a) \<times> session" where
  "restarted e s = (case restart s of (Inl e', s') \<Rightarrow> (Inl e', s') | (Inr _, s') \<Rightarrow> (Inl e, s'))"

definition evaluate_in :: "(string + py_value) answer \<Rightarrow> session \<Rightarrow> (session_error + py_value) \<times> session" where
  "evaluate_in ans s =
     (if ss_child s = None then restarted Sandbox_Failed s
      else case ans of
        Timed_Out \<Rightarrow> restarted (Expression_Error ''expression timed out'') s
      | Child_Gone \<Rightarrow> restarted Sandbox_Failed s
      | Replied reply sp \<Rightarrow>
          (case reply of
             Inr v \<Rightarrow> Inr v
           | Inl message \<Rightarrow> Inl (Expression_Error (if message = [] then ''expression failed'' else message)),
           s\<lparr>ss_child := Some sp\<rparr>))"

record code_failure =
  cf_reason :: string
  cf_type :: string
  cf_message :: string
  cf_line :: "int option"

definition failure_reason :: "code_failure \<Rightarrow> string" where
  "failure_reason e = (if cf_reason e = [] then ''error'' else cf_reason e)"

definition code_message :: "code_failure \<Rightarrow> string" where
  "code_message e =
     (let reason = failure_reason e;
          kind = (if cf_type e = [] then ''Exception'' else cf_type e);
          message = (if cf_message e = [] then ''code failed'' else cf_message e) in
      if reason = ''network'' then ''Code tried to use the network''
      else if reason = ''import'' then ''Code imported a module that is not allowed''
      else if reason = ''timeout'' then ''Code exceeded the time limit''
      else if reason = ''memory'' then ''Code exceeded the memory limit''
      else (case cf_line e of
              Some line \<Rightarrow> ''Code failed at line '' @ str_int line @ '': '' @ kind @ '': '' @ message
            | None \<Rightarrow> ''Code failed: '' @ kind @ '': '' @ message))"

definition code_detail :: "code_failure \<Rightarrow> (string \<times> py_value) list" where
  "code_detail e =
     (let reason = failure_reason e in
      (''reason'', P_Str reason) #
      (if reason \<noteq> ''error'' then []
       else (if cf_type e = [] then [] else [(''type'', P_Str (cf_type e))]) @
            (if cf_message e = [] then [] else [(''message'', P_Str (cf_message e))]) @
            (case cf_line e of None \<Rightarrow> [] | Some line \<Rightarrow> [(''line'', P_Int line)])))"

definition run_code :: "(code_failure + py_value) answer \<Rightarrow> session \<Rightarrow> (session_error + py_value) \<times> session" where
  "run_code ans s =
     (if ss_child s = None then restarted Sandbox_Failed s
      else case ans of
        Timed_Out \<Rightarrow> restarted (Code_Error ''Code exceeded the time limit'' ''timeout'' [(''reason'', P_Str ''timeout'')]) s
      | Child_Gone \<Rightarrow> restarted Sandbox_Failed s
      | Replied (Inr v) sp \<Rightarrow> (Inr v, s\<lparr>ss_child := Some sp\<rparr>)
      | Replied (Inl e) sp \<Rightarrow>
          (let failed = Code_Error (code_message e) (failure_reason e) (code_detail e); s' = s\<lparr>ss_child := Some sp\<rparr> in
           if failure_reason e = ''memory'' then restarted failed s' else (Inl failed, s')))"

definition close_session :: "session \<Rightarrow> session" where
  "close_session s = s\<lparr>ss_child := None\<rparr>"

end
