(* ===== verification/Template_Scan.thy ===== *)
theory Template_Scan
  imports Channel_Template
begin

text \<open>
  The scanner of templates and its inverse: which lists of segments some text has, and a text that has them.
\<close>

section \<open>The end of an expression\<close>

text \<open>The raw body and what follows the closing braces, apart from the checks on the body.\<close>

function body_end :: "nat \<Rightarrow> quote option \<Rightarrow> string \<Rightarrow> (string \<times> string) option" where
  "body_end depth q src =
     (case read_move depth q src of
        Some (d, q', k) \<Rightarrow> map_option (\<lambda>(raw, rest). (take k src @ raw, rest)) (body_end d q' (drop k src))
      | None \<Rightarrow> if starts_with src ''}}'' then Some ([], drop 2 src) else None)"
  by pat_completeness auto

termination body_end
  by (relation "measure (\<lambda>(depth, q, src). length src)") (auto dest: read_move_progress)

declare body_end.simps [simp del]

lemma read_body_end:
  "read_expression env depth q acc src = Inr (body, rest) \<longleftrightarrow>
   (\<exists>raw. body_end depth q src = Some (raw, rest) \<and> close_body env (acc @ raw) rest = Inr (body, rest))"
proof (induction env depth q acc src rule: read_expression.induct)
  case (1 env depth q acc src)
  show ?case
  proof (cases "read_move depth q src")
    case None
    then show ?thesis
      by (auto simp: read_expression.simps [of _ _ _ _ src] body_end.simps [of _ _ src] close_body_def Let_def split: if_splits option.splits)
  next
    case (Some m)
    obtain d q' k where m: "m = (d, q', k)" by (cases m)
    have "read_expression env depth q acc src = read_expression env d q' (acc @ take k src) (drop k src)"
      using Some m by (simp add: read_expression.simps [of _ _ _ _ src])
    moreover have "body_end depth q src = map_option (\<lambda>(raw, rest). (take k src @ raw, rest)) (body_end d q' (drop k src))"
      using Some m by (simp add: body_end.simps [of _ _ src])
    ultimately show ?thesis using 1 [OF Some m [symmetric] refl] by (auto simp: map_option_case split: option.splits)
  qed
qed

lemma body_end_parts: "body_end depth q src = Some (raw, rest) \<Longrightarrow> src = raw @ ''}}'' @ rest"
proof (induction depth q src arbitrary: raw rule: body_end.induct)
  case (1 depth q src)
  show ?case
  proof (cases "read_move depth q src")
    case None
    then show ?thesis using 1(2) by (auto simp: body_end.simps [of _ _ src] starts_split split: if_splits)
  next
    case (Some m)
    obtain d q' k where m: "m = (d, q', k)" by (cases m)
    then obtain raw' where raw': "body_end d q' (drop k src) = Some (raw', rest)" "raw = take k src @ raw'"
      using 1(2) Some by (auto simp: body_end.simps [of _ _ src])
    then have "drop k src = raw' @ ''}}'' @ rest" using 1(1) [OF Some m [symmetric] refl] by blast
    then show ?thesis using raw'(2) by (metis append_assoc append_take_drop_id)
  qed
qed

text \<open>A move looks at three characters at most.\<close>

lemma starts_prefix: "length p \<le> length s \<Longrightarrow> starts_with (s @ x) p = starts_with s p"
  by (induction s p rule: starts_with.induct) auto

lemma quote_text_length: "length (quote_text quot) \<le> 3"
  by (cases quot) auto

lemma move_prefix:
  assumes "3 \<le> length src" shows "read_move depth q (src @ x) = read_move depth q src"
proof -
  obtain c cs where src: "src = c # cs" using assms by (cases src) auto
  have q: "starts_with (c # cs @ x) (quote_text quot) = starts_with (c # cs) (quote_text quot)" for quot
    using starts_prefix [of "quote_text quot" "c # cs" x] assms quote_text_length [of quot] by (simp add: src)
  have "starts_with (c # cs @ x) [c, c, c] = starts_with (c # cs) [c, c, c]"
    using starts_prefix [of "[c, c, c]" "c # cs" x] assms by (simp only: src append_Cons list.size)
  then show ?thesis unfolding src by (simp only: read_move_def append_Cons list.case q)
qed

lemma body_end_append: "body_end depth q src = Some (raw, rest) \<Longrightarrow> body_end depth q (src @ x) = Some (raw, rest @ x)"
proof (induction depth q src arbitrary: raw rule: body_end.induct)
  case (1 depth q src)
  show ?case
  proof (cases "read_move depth q src")
    case None
    then have src: "src = ''}}'' @ rest" "raw = []" using 1(2) by (auto simp: body_end.simps [of _ _ src] starts_split split: if_splits)
    then have "read_move depth q (src @ x) = None" using None by (auto simp: read_move_def split: option.splits if_splits)
    then show ?thesis using src by (simp add: body_end.simps [of _ _ "CHR ''}'' # CHR ''}'' # rest @ x"])
  next
    case (Some m)
    obtain d q' k where m: "m = (d, q', k)" by (cases m)
    then obtain raw' where raw': "body_end d q' (drop k src) = Some (raw', rest)" "raw = take k src @ raw'"
      using 1(2) Some by (auto simp: body_end.simps [of _ _ src])
    have len: "length (drop k src) \<ge> 2" "k > 0"
      using body_end_parts [OF raw'(1)] read_move_progress [of depth q src] Some m by auto
    then have "read_move depth q (src @ x) = Some (d, q', k)" using move_prefix [of src] Some m by simp
    moreover have "body_end d q' (drop k src @ x) = Some (raw', rest @ x)" by (rule 1(1) [OF Some m [symmetric] refl raw'(1)])
    ultimately show ?thesis using raw'(2) len by (simp add: body_end.simps [of _ _ "src @ x"])
  qed
qed

text \<open>Conversely what follows the closing braces does not matter.\<close>

lemma body_end_cut: "body_end depth q src = Some (raw, rest) \<Longrightarrow> body_end depth q (raw @ ''}}'') = Some (raw, [])"
proof (induction depth q src arbitrary: raw rule: body_end.induct)
  case (1 depth q src)
  show ?case
  proof (cases "read_move depth q src")
    case None
    then have src: "src = ''}}'' @ rest" "raw = []" using 1(2) by (auto simp: body_end.simps [of _ _ src] starts_split split: if_splits)
    then have "read_move depth q ''}}'' = None" using None by (auto simp: read_move_def split: option.splits if_splits)
    then show ?thesis using src by (simp add: body_end.simps [of _ _ "''}}''"])
  next
    case (Some m)
    obtain d q' k where m: "m = (d, q', k)" by (cases m)
    then obtain raw' where raw': "body_end d q' (drop k src) = Some (raw', rest)" "raw = take k src @ raw'"
      using 1(2) Some by (auto simp: body_end.simps [of _ _ src])
    note parts = body_end_parts [OF raw'(1)]
    have k: "k > 0" "k \<le> length src" using read_move_progress [of depth q src] Some m arg_cong [OF parts, of length] by auto
    have src: "src = (raw @ ''}}'') @ rest" using body_end_parts [OF 1(2)] by simp
    have "length (raw @ ''}}'') \<ge> 3" using raw'(2) k by simp
    then have "read_move depth q (raw @ ''}}'') = Some (d, q', k)" using move_prefix [of "raw @ ''}}''" depth q rest] Some m src by simp
    moreover have "drop k (raw @ ''}}'') = raw' @ ''}}''" "take k (raw @ ''}}'') = take k src" using raw'(2) k by simp_all
    moreover have "body_end d q' (raw' @ ''}}'') = Some (raw', [])" by (rule 1(1) [OF Some m [symmetric] refl raw'(1)])
    ultimately have "body_end depth q (raw @ ''}}'') = Some (take k src @ raw', [])" by (subst body_end.simps) simp
    then show ?thesis using raw'(2) by simp
  qed
qed

text \<open>White space around the body does not matter either.\<close>

definition quote_ok :: "quote option \<Rightarrow> bool" where
  "quote_ok q \<longleftrightarrow> (\<forall>quot. q = Some quot \<longrightarrow> set (quote_text quot) \<subseteq> {CHR 0x27, CHR 0x22})"

lemma quote_ok_None [simp]: "quote_ok None"
  by (simp add: quote_ok_def)

lemma space_plain: "is_space c \<Longrightarrow> c \<notin> {CHR 0x27, CHR 0x22, CHR 0x5C, CHR ''{'', CHR ''}''}"
  by (auto simp: is_space_def)

lemma starts_within: "y = [] \<or> hd y \<notin> set p \<Longrightarrow> starts_with (x @ y) p = starts_with x p"
proof (induction x p rule: starts_with.induct)
  case (2 c p)
  then show ?case by (cases y) auto
qed auto

lemma move_space:
  assumes "x \<noteq> []" and "quote_ok q" and "is_space s"
  shows "read_move d q (x @ s # ''}}'') = read_move d q (x @ ''}}'')"
proof -
  obtain c cs where x: "x = c # cs" using assms(1) by (cases x) auto
  have same: "starts_with (x @ s # ''}}'') p = starts_with (x @ ''}}'') p" if "set p \<subseteq> {CHR 0x27, CHR 0x22}" for p
    using that space_plain [OF assms(3)] starts_within [of "s # ''}}''" p x] starts_within [of "''}}''" p x] by auto
  show ?thesis
  proof (cases q)
    case None
    then show ?thesis using same [of "[c, c, c]"] by (auto simp: read_move_def x)
  next
    case (Some quot)
    then show ?thesis using same [of "quote_text quot"] assms(2) by (simp add: read_move_def x quote_ok_def)
  qed
qed

lemma move_kinds:
  assumes "read_move d q src = Some (d', q', k)" and "quote_ok q"
  shows "quote_ok q' \<and> (k = 1 \<or> (k = 2 \<and> q' = q \<and> q \<noteq> None) \<or> set (take k src) \<subseteq> {CHR 0x27, CHR 0x22})"
proof (cases q)
  case None
  then show ?thesis using assms by (auto simp: read_move_def quote_ok_def Let_def starts_split split: list.splits if_splits)
next
  case (Some quot)
  have "set (take (length (quote_text quot)) src) \<subseteq> {CHR 0x27, CHR 0x22}" if "starts_with src (quote_text quot)"
    using that assms(2) Some by (auto simp: quote_ok_def starts_split)
  then show ?thesis using assms Some by (auto simp: read_move_def split: list.splits if_splits)
qed

lemma quoted_open: "quote_ok (Some quot) \<Longrightarrow> body_end d (Some quot) ''}}'' = None"
proof -
  assume "quote_ok (Some quot)"
  then have "read_move d (Some quot) s = Some (d, Some quot, 1)" if "s = ''}}'' \<or> s = ''}''" for s
    using that by (cases quot) (auto simp: read_move_def quote_ok_def)
  moreover have "read_move d (Some quot) [] = None" by (simp add: read_move_def)
  ultimately show ?thesis by (simp add: body_end.simps [of d "Some quot"])
qed

lemma space_move: "is_space s \<Longrightarrow> quote_ok q \<Longrightarrow> read_move d q (s # t) = Some (d, q, 1)"
proof (cases q)
  case (Some quot)
  assume "is_space s" "quote_ok q"
  then show ?thesis using space_plain [of s] by (cases quot) (auto simp: read_move_def quote_ok_def Some)
qed (auto simp: read_move_def dest: space_plain)

lemma body_end_space: "is_space s \<Longrightarrow> body_end d None (s # t) = map_option (\<lambda>(raw, rest). (s # raw, rest)) (body_end d None t)"
  using space_move [of s None d t] by (simp add: body_end.simps [of d None "s # t"] quote_ok_def)

lemma body_end_trailing:
  "body_end d q (x @ s # ''}}'') = Some (x @ [s], []) \<Longrightarrow> is_space s \<Longrightarrow> quote_ok q \<Longrightarrow> body_end d q (x @ ''}}'') = Some (x, [])"
proof (induction d q "x @ s # ''}}''" arbitrary: x rule: body_end.induct)
  case (1 d q)
  note s = \<open>is_space s\<close> and ok = \<open>quote_ok q\<close>
  show ?case
  proof (cases "x = []")
    case True
    have e: "body_end d q ''}}'' = Some ([], [])"
      using 1(2) space_move [OF s ok, of d] by (auto simp: True body_end.simps [of d q "[s, CHR ''}'', CHR ''}'']"] split: option.splits)
    then show ?thesis using True by simp
  next
    case False
    then obtain d' q' k where m: "read_move d q (x @ s # ''}}'') = Some (d', q', k)"
      using 1(2) by (cases "read_move d q (x @ s # ''}}'')") (auto simp: body_end.simps [of d q "x @ s # ''}}''"] split: if_splits)
    obtain raw where raw: "body_end d' q' (drop k (x @ s # ''}}'')) = Some (raw, [])" "take k (x @ s # ''}}'') @ raw = x @ [s]"
      using 1(2) m by (auto simp: body_end.simps [of d q "x @ s # ''}}''"])
    have k: "k > 0" using read_move_progress [OF m] by simp
    note kinds = move_kinds [OF m ok]
    have "k \<le> length x"
    proof (rule ccontr)
      assume "\<not> k \<le> length x"
      moreover have "min k (length x + 3) + length raw = length x + 1" using arg_cong [OF raw(2), of length] by simp
      ultimately have "length raw = 0" and len: "k = Suc (length x)" by linarith+
      then have "raw = []" and take: "take k (x @ s # ''}}'') = x @ [s]" by simp_all
      moreover have "s \<notin> {CHR 0x27, CHR 0x22}" using space_plain [OF s] by blast
      ultimately have "q' = q" "q \<noteq> None" "body_end d' q' ''}}'' \<noteq> None" using kinds False take raw(1) len by auto
      then show False using quoted_open kinds by (cases q') auto
    qed
    then have drop: "drop k (x @ s # ''}}'') = drop k x @ s # ''}}''" "raw = drop k x @ [s]"
      using raw(2) by (simp, simp) (metis append_assoc append_take_drop_id same_append_eq)
    have "body_end d' q' (drop k x @ ''}}'') = Some (drop k x, [])"
      using 1(1) [OF m _ _ drop(1)] raw(1) drop s kinds by simp
    moreover have "read_move d q (x @ ''}}'') = Some (d', q', k)" using move_space [OF False ok s] m by simp
    ultimately show ?thesis using \<open>k \<le> length x\<close> by (simp add: body_end.simps [of d q "x @ ''}}''"])
  qed
qed

lemma body_end_strip:
  assumes "body_end 0 None src = Some (raw, rest)"
  shows "body_end 0 None (py_strip raw @ ''}}'') = Some (py_strip raw, [])"
proof -
  have trail: "body_end 0 None (x @ ''}}'') = Some (x, [])" if "body_end 0 None ((x @ ss) @ ''}}'') = Some (x @ ss, [])" "\<forall>c \<in> set ss. is_space c" for x ss
    using that
  proof (induction ss rule: rev_induct)
    case (snoc c ss)
    then have "body_end 0 None ((x @ ss) @ ''}}'') = Some (x @ ss, [])"
      by (intro body_end_trailing [of _ _ _ c]) (auto simp: quote_ok_def)
    then show ?case using snoc by simp
  qed simp
  have lead: "body_end 0 None (x @ ''}}'') = Some (x, [])" if "body_end 0 None ((ss @ x) @ ''}}'') = Some (ss @ x, [])" "\<forall>c \<in> set ss. is_space c" for x ss
    using that by (induction ss) (auto simp: body_end_space)
  define y where "y = dropWhile is_space raw"
  have raw: "raw = takeWhile is_space raw @ y" and y: "y = py_strip raw @ rev (takeWhile is_space (rev y))"
    by (simp_all add: y_def py_strip_def flip: rev_append)
  have "body_end 0 None ((takeWhile is_space raw @ y) @ ''}}'') = Some (takeWhile is_space raw @ y, [])"
    using body_end_cut [OF assms] raw by simp
  then have "body_end 0 None (y @ ''}}'') = Some (y, [])" by (rule lead) (auto dest: set_takeWhileD)
  then have "body_end 0 None ((py_strip raw @ rev (takeWhile is_space (rev y))) @ ''}}'') = Some (py_strip raw @ rev (takeWhile is_space (rev y)), [])"
    using y by simp
  then show ?thesis by (rule trail) (auto dest: set_takeWhileD)
qed

lemma dropWhile_keep: "x = [] \<or> \<not> P (hd x) \<Longrightarrow> dropWhile P x = x"
  by (cases x) auto

lemma py_strip_keep: "s = [] \<or> (\<not> is_space (hd s) \<and> \<not> is_space (last s)) \<Longrightarrow> py_strip s = s"
  by (auto simp: py_strip_def dropWhile_keep hd_rev)

lemma py_strip_ends: "py_strip s = [] \<or> (\<not> is_space (hd (py_strip s)) \<and> \<not> is_space (last (py_strip s)))"
proof -
  define t where "t = dropWhile is_space s"
  have strip: "py_strip s = rev (dropWhile is_space (rev t))" by (simp add: py_strip_def t_def)
  then have "t = py_strip s @ rev (takeWhile is_space (rev t))" by (simp flip: rev_append)
  moreover have "t = [] \<or> \<not> is_space (hd t)" unfolding t_def using hd_dropWhile by blast
  ultimately have "py_strip s = [] \<or> \<not> is_space (hd (py_strip s))" by (metis append_is_Nil_conv hd_append2)
  moreover have "py_strip s = [] \<or> \<not> is_space (last (py_strip s))"
    unfolding strip using hd_dropWhile [of is_space "rev t"] by (cases "dropWhile is_space (rev t) = []") (simp_all add: last_rev)
  ultimately show ?thesis by blast
qed

lemma py_strip_idem: "py_strip (py_strip s) = py_strip s"
  by (rule py_strip_keep) (rule py_strip_ends)

section \<open>Writing a template\<close>

text \<open>A text is written with a backslash before every pair of opening braces. One brace before an expression
  cannot be written: it would open the expression earlier.\<close>

definition braces :: "string \<Rightarrow> nat" where
  "braces src = length (takeWhile (\<lambda>c. c = CHR ''{'') src)"

function write_text :: "bool \<Rightarrow> string \<Rightarrow> string" where
  "write_text expr_next src =
     (if src = [] then []
      else let k = slashes src; rest = drop (slashes src) src in
        if rest = [] then replicate (if expr_next then 2 * k else k) (CHR 0x5C)
        else if hd rest = CHR ''{'' \<and> even (braces rest)
        then replicate (2 * k + 1) (CHR 0x5C) @ ''{{'' @ write_text expr_next (drop 2 rest)
        else replicate k (CHR 0x5C) @ hd rest # write_text expr_next (tl rest))"
  by pat_completeness auto

termination write_text
  by (relation "measure (\<lambda>(expr_next, src). length src)") auto

declare write_text.simps [simp del]

fun unparse :: "segment list \<Rightarrow> string" where
  "unparse [] = []"
| "unparse (Seg_Text s # segs) = write_text (segs \<noteq> []) s @ unparse segs"
| "unparse (Seg_Expr b # segs) = ''{{'' @ b @ ''}}'' @ unparse segs"

definition lone_brace :: "string \<Rightarrow> bool" where
  "lone_brace s \<longleftrightarrow> s \<noteq> [] \<and> last s = CHR ''{'' \<and> (butlast s = [] \<or> last (butlast s) \<noteq> CHR ''{'')"

definition wf_body :: "template_env \<Rightarrow> string \<Rightarrow> bool" where
  "wf_body env b \<longleftrightarrow> b \<noteq> [] \<and> py_strip b = b \<and> te_ast env b \<noteq> None \<and> body_end 0 None (b @ ''}}'') = Some (b, [])"

fun wf_segments :: "template_env \<Rightarrow> segment list \<Rightarrow> bool" where
  "wf_segments env [] = True"
| "wf_segments env (Seg_Text s # segs) \<longleftrightarrow>
     s \<noteq> [] \<and> (case segs of [] \<Rightarrow> True | Seg_Text _ # _ \<Rightarrow> False | Seg_Expr _ # _ \<Rightarrow> \<not> lone_brace s) \<and> wf_segments env segs"
| "wf_segments env (Seg_Expr b # segs) \<longleftrightarrow> wf_body env b \<and> wf_segments env segs"

lemma slashes_split: "src = replicate (slashes src) (CHR 0x5C) @ drop (slashes src) src"
  "drop (slashes src) src \<noteq> [] \<Longrightarrow> hd (drop (slashes src) src) \<noteq> CHR 0x5C"
proof -
  have d: "drop (slashes src) src = dropWhile (\<lambda>c. c = CHR 0x5C) src" by (simp add: slashes_def dropWhile_eq_drop)
  have "takeWhile (\<lambda>c. c = CHR 0x5C) src = replicate (slashes src) (CHR 0x5C)"
    unfolding slashes_def by (induction src) auto
  then show "src = replicate (slashes src) (CHR 0x5C) @ drop (slashes src) src" by (metis d takeWhile_dropWhile_id)
  show "drop (slashes src) src \<noteq> [] \<Longrightarrow> hd (drop (slashes src) src) \<noteq> CHR 0x5C" unfolding d by (rule hd_dropWhile)
qed

lemma slashes_replicate: "x = [] \<or> hd x \<noteq> CHR 0x5C \<Longrightarrow> slashes (replicate k (CHR 0x5C) @ x) = k"
proof -
  assume "x = [] \<or> hd x \<noteq> CHR 0x5C"
  then have "takeWhile (\<lambda>c. c = CHR 0x5C) x = []" by (cases x) auto
  then show ?thesis by (induction k) (simp_all add: slashes_def)
qed

text \<open>What the scanner does with backslashes.\<close>

lemma scan_slashes:
  "scan_template env buf (replicate (2 * k + 1) (CHR 0x5C) @ ''{{'' @ x) = scan_template env (buf @ replicate k (CHR 0x5C) @ ''{{'') x"
  "scan_template env buf (replicate (2 * k) (CHR 0x5C) @ ''{{'' @ x) = scan_template env (buf @ replicate k (CHR 0x5C)) (''{{'' @ x)"
  "x = [] \<or> hd x \<noteq> CHR 0x5C \<Longrightarrow> \<not> starts_with x ''{{'' \<Longrightarrow>
    scan_template env buf (replicate k (CHR 0x5C) @ x) = scan_template env (buf @ replicate k (CHR 0x5C)) x"
proof -
  have unfold: "scan_template env buf (replicate j (CHR 0x5C) @ x) =
     (if starts_with x ''{{''
      then (if odd j then scan_template env (buf @ replicate (j div 2) (CHR 0x5C) @ ''{{'') (drop 2 x)
            else scan_template env (buf @ replicate (j div 2) (CHR 0x5C)) x)
      else scan_template env (buf @ replicate j (CHR 0x5C)) x)" if j0: "j > 0" and x: "x = [] \<or> hd x \<noteq> CHR 0x5C" for j x
  proof -
    obtain i where j: "j = Suc i" using j0 gr0_implies_Suc by blast
    define src where "src = CHR 0x5C # replicate i (CHR 0x5C) @ x"
    have src: "replicate j (CHR 0x5C) @ x = src" by (simp add: j src_def)
    have "slashes src = j" using slashes_replicate [OF x, of j] by (simp add: src)
    moreover have "drop j src = x" unfolding src [symmetric] by simp
    moreover have "scan_template env buf src = (let count = slashes src; rest = drop (slashes src) src in
                if starts_with rest ''{{''
                then (if odd count then scan_template env (buf @ replicate (count div 2) (CHR 0x5C) @ ''{{'') (drop 2 rest)
                      else scan_template env (buf @ replicate (count div 2) (CHR 0x5C)) rest)
                else scan_template env (buf @ replicate count (CHR 0x5C)) rest)"
      by (subst scan_template.simps) (simp only: src_def list.case if_True simp_thms)
    ultimately show ?thesis unfolding src by (simp only: Let_def)
  qed
  show "scan_template env buf (replicate (2 * k + 1) (CHR 0x5C) @ ''{{'' @ x) = scan_template env (buf @ replicate k (CHR 0x5C) @ ''{{'') x"
    using unfold [of "2 * k + 1" "''{{'' @ x"] by simp
  show "scan_template env buf (replicate (2 * k) (CHR 0x5C) @ ''{{'' @ x) = scan_template env (buf @ replicate k (CHR 0x5C)) (''{{'' @ x)"
    using unfold [of "2 * k" "''{{'' @ x"] by (cases "k = 0") simp_all
  show "x = [] \<or> hd x \<noteq> CHR 0x5C \<Longrightarrow> \<not> starts_with x ''{{'' \<Longrightarrow>
      scan_template env buf (replicate k (CHR 0x5C) @ x) = scan_template env (buf @ replicate k (CHR 0x5C)) x"
    using unfold [of k x] by (cases "k = 0") simp_all
qed

lemma scan_plain_char: "c \<noteq> CHR 0x5C \<Longrightarrow> \<not> starts_with (c # x) ''{{'' \<Longrightarrow> scan_template env buf (c # x) = scan_template env (buf @ [c]) x"
  by (subst scan_template.simps) auto

lemma scan_expr:
  assumes "wf_body env b"
  shows "scan_template env buf (''{{'' @ b @ ''}}'' @ x) = ok_bind (scan_template env [] x) (\<lambda>rem. Inr (flush buf @ Seg_Expr b # rem))"
proof -
  have "body_end 0 None ((b @ ''}}'') @ x) = Some (b, [] @ x)" using assms body_end_append unfolding wf_body_def by blast
  then have "read_expression env 0 None [] (b @ ''}}'' @ x) = Inr (b, x)"
    using assms unfolding read_body_end by (auto simp: close_body_def wf_body_def)
  then show ?thesis by (simp add: scan_template.simps [of env buf "CHR ''{'' # CHR ''{'' # b @ CHR ''}'' # CHR ''}'' # x"])
qed

lemma write_head:
  assumes "src \<noteq> []"
  shows "write_text e src \<noteq> [] \<and> (hd (write_text e src) = CHR 0x5C \<or> (hd (write_text e src) = hd src \<and> \<not> (hd src = CHR ''{'' \<and> even (braces src))))"
proof -
  define k where "k = slashes src"
  have src: "src = replicate k (CHR 0x5C) @ drop k src" unfolding k_def by (rule slashes_split)
  show ?thesis
  proof (cases "k = 0")
    case True
    then show ?thesis using assms by (auto simp: write_text.simps [of e src] k_def [symmetric] Let_def)
  next
    case False
    then show ?thesis using assms by (cases k) (auto simp: write_text.simps [of e src] k_def [symmetric] Let_def)
  qed
qed

lemma braces_Cons: "braces (c # cs) = (if c = CHR ''{'' then Suc (braces cs) else 0)"
  by (simp add: braces_def)

lemma lone_append: "lone_brace (x @ y) \<longleftrightarrow> (if y = [] then lone_brace x else if y = ''{'' then x = [] \<or> last x \<noteq> CHR ''{'' else lone_brace y)"
  by (cases y rule: rev_cases) (auto simp: lone_brace_def butlast_append)

text \<open>The scanner reads a written text back.\<close>

lemma scan_write:
  "(if expr_next then starts_with x ''{{'' \<and> \<not> lone_brace src else x = []) \<Longrightarrow> scan_template env buf (write_text expr_next src @ x) = scan_template env (buf @ src) x"
proof (induction expr_next src arbitrary: buf rule: write_text.induct)
  case (1 e src)
  show ?case
  proof (cases "src = []")
    case True
    then show ?thesis by (simp add: write_text.simps)
  next
    case False
    define k where "k = slashes src"
    define rest where "rest = drop k src"
    have src: "src = replicate k (CHR 0x5C) @ rest" and hd: "rest \<noteq> [] \<Longrightarrow> hd rest \<noteq> CHR 0x5C"
      unfolding k_def rest_def by (rule slashes_split(1)) (rule slashes_split(2))
    note w = write_text.simps [of e src, folded k_def, unfolded Let_def, folded rest_def]
    note IH = 1(1,2) [OF False k_def rest_def [unfolded k_def], folded k_def]
    show ?thesis
    proof (cases "rest = []")
      case True
      show ?thesis
      proof (cases e)
        case True
        then obtain y where "x = ''{{'' @ y" using 1(3) by (auto simp: starts_split)
        then show ?thesis using scan_slashes(2) [of env buf k y] \<open>rest = []\<close> True w False src by simp
      next
        case False
        then show ?thesis using scan_slashes(3) [of "[]" env buf k] \<open>rest = []\<close> 1(3) w \<open>src \<noteq> []\<close> src by simp
      qed
    next
      case rest: False
      show ?thesis
      proof (cases "hd rest = CHR ''{'' \<and> even (braces rest)")
        case True
        then obtain r0 where r0: "rest = CHR ''{'' # r0" using rest by (cases rest) auto
        then have "odd (braces r0)" using True by (simp add: braces_Cons)
        then obtain r where "r0 = CHR ''{'' # r" by (cases r0) (auto simp: braces_Cons braces_def split: if_splits)
        then have r: "rest = ''{{'' @ r" using r0 by simp
        have "even (braces r)" using True by (simp add: r braces_Cons)
        then have "r \<noteq> ''{''" by (auto simp: braces_Cons braces_def)
        then have "\<not> lone_brace src \<Longrightarrow> \<not> lone_brace r"
          using lone_append [of "replicate k (CHR 0x5C) @ ''{{''" r] by (cases "r = []") (simp_all add: src r lone_brace_def [of "[]"])
        then have "scan_template env (buf @ replicate k (CHR 0x5C) @ ''{{'') (write_text e r @ x) = scan_template env ((buf @ replicate k (CHR 0x5C) @ ''{{'') @ r) x"
          using IH(1) [OF rest True] 1(3) by (simp add: r split: if_splits)
        moreover have "write_text e src = replicate (2 * k + 1) (CHR 0x5C) @ ''{{'' @ write_text e r"
          using w False rest True by (simp add: r)
        ultimately show ?thesis using scan_slashes(1) [of env buf k "write_text e r @ x"] by (simp add: src r)
      next
        case plain: False
        then obtain c r where r: "rest = c # r" using rest by (cases rest) auto
        have nb: "\<not> starts_with (write_text e r @ x) ''{''" if c: "c = CHR ''{''"
        proof (cases "r = []")
          case True
          then have "lone_brace src" by (auto simp: src r c lone_append lone_brace_def)
          then have "x = []" using 1(3) by (auto split: if_splits)
          then show ?thesis using True by (simp add: write_text.simps)
        next
          case False
          have "hd r = CHR ''{'' \<longrightarrow> even (braces r)" using plain by (auto simp: r c braces_Cons)
          then have "hd (write_text e r) \<noteq> CHR ''{''" "write_text e r \<noteq> []" using write_head [OF False, of e] by auto
          then show ?thesis by (cases "write_text e r") auto
        qed
        have lone: "\<not> lone_brace src \<Longrightarrow> \<not> lone_brace r"
        proof -
          assume "\<not> lone_brace src"
          moreover have "c = CHR ''{'' \<Longrightarrow> r \<noteq> ''{''" using plain by (auto simp: r braces_Cons braces_def)
          ultimately show ?thesis
            using lone_append [of "replicate k (CHR 0x5C) @ [c]" r] by (cases "r = []"; cases "r = ''{''") (simp_all add: src r lone_brace_def [of "[]"])
        qed
        have "write_text e src = replicate k (CHR 0x5C) @ hd rest # write_text e (tl rest)" using False rest plain by (simp only: w if_False)
        then have "write_text e src = replicate k (CHR 0x5C) @ c # write_text e r" by (simp add: r)
        moreover have "scan_template env buf (replicate k (CHR 0x5C) @ c # write_text e r @ x) = scan_template env (buf @ replicate k (CHR 0x5C)) (c # write_text e r @ x)"
          using scan_slashes(3) [of "c # write_text e r @ x" env buf k] hd nb by (auto simp: r)
        moreover have "scan_template env (buf @ replicate k (CHR 0x5C)) (c # write_text e r @ x) = scan_template env ((buf @ replicate k (CHR 0x5C)) @ [c]) (write_text e r @ x)"
          using hd nb by (intro scan_plain_char) (auto simp: r)
        moreover have "scan_template env ((buf @ replicate k (CHR 0x5C)) @ [c]) (write_text e r @ x) = scan_template env (((buf @ replicate k (CHR 0x5C)) @ [c]) @ r) x"
          using IH(2) [OF rest plain, of "(buf @ replicate k (CHR 0x5C)) @ [c]"] 1(3) lone by (simp add: r split: if_splits)
        ultimately show ?thesis by (simp add: src r)
      qed
    qed
  qed
qed

lemma scan_end: "scan_template env buf [] = Inr (flush buf)"
  by (simp add: scan_template.simps)

lemma scan_unparse_from:
  "wf_segments env segs \<Longrightarrow> scan_template env [] (unparse segs) = Inr segs \<and>
   (\<forall>b rem buf. segs = Seg_Expr b # rem \<longrightarrow> scan_template env buf (unparse segs) = Inr (flush buf @ segs))"
proof (induction segs)
  case (Cons seg segs)
  show ?case
  proof (cases seg)
    case (Seg_Text s)
    show ?thesis
    proof (cases segs)
      case Nil
      then show ?thesis using scan_write [of False "[]" s env "[]"] Cons.prems Seg_Text by (simp add: scan_end flush_def)
    next
      case (Cons seg' segs')
      then obtain b where b: "segs = Seg_Expr b # segs'" using Cons.prems Seg_Text by (cases seg') auto
      have "scan_template env [] (unparse (seg # segs)) = scan_template env s (unparse segs)"
        using scan_write [of True "unparse segs" s env "[]"] Cons.prems Seg_Text b by simp
      then show ?thesis using Cons.IH Cons.prems Seg_Text b by (simp add: flush_def)
    qed
  next
    case (Seg_Expr b)
    then show ?thesis using scan_expr [of env b _ "unparse segs"] Cons by (simp add: flush_def)
  qed
qed (simp add: scan_end flush_def)

lemma scan_unparse: "wf_segments env segs \<Longrightarrow> scan_template env [] (unparse segs) = Inr segs"
  using scan_unparse_from by blast

section \<open>What the scanner returns\<close>

text \<open>One turn of the scanner: the buffer grows, or an expression ends it.\<close>

lemma scan_cases [consumes 1, case_names empty grow expr]:
  assumes "scan_template env buf src = Inr segs"
  obtains "src = []" "segs = flush buf"
  | added rest k where "scan_template env (buf @ added) rest = Inr segs" "length rest < length src" "added \<noteq> []"
      "(added = replicate k (CHR 0x5C) \<and> k > 0 \<and> hd src = CHR 0x5C) \<or> (added = replicate k (CHR 0x5C) @ ''{{'' \<and> hd src = CHR 0x5C) \<or>
       (\<exists>c. added = [c] \<and> hd src = c \<and> (c = CHR ''{'' \<longrightarrow> \<not> starts_with rest ''{''))"
      "rest = [] \<Longrightarrow> last added = last src" "rest \<noteq> [] \<Longrightarrow> last rest = last src"
  | body rest rem where "wf_body env body" "scan_template env [] rest = Inr rem" "segs = flush buf @ Seg_Expr body # rem"
      "length rest < length src" "starts_with src ''{''" "rest \<noteq> [] \<Longrightarrow> last rest = last src"
proof (cases src)
  case Nil
  then show thesis using assms that(1) by (simp add: scan_end)
next
  case (Cons c cs)
  show thesis
  proof (cases "c = CHR 0x5C")
    case True
    define k where "k = slashes src"
    define rest where "rest = drop k src"
    have src: "src = replicate k (CHR 0x5C) @ rest" and hd: "rest \<noteq> [] \<Longrightarrow> hd rest \<noteq> CHR 0x5C"
      unfolding k_def rest_def by (rule slashes_split(1)) (rule slashes_split(2))
    have k: "k > 0" using True Cons by (simp add: k_def slashes_def)
    then have last: "rest = [] \<Longrightarrow> last (replicate k (CHR 0x5C)) = last src" "rest \<noteq> [] \<Longrightarrow> last rest = last src" using src by simp_all
    have len: "length rest < length src" using k src by simp
    have hs: "hd src = CHR 0x5C" using True Cons by simp
    show thesis
    proof (cases "starts_with rest ''{{''")
      case False
      then have "scan_template env (buf @ replicate k (CHR 0x5C)) rest = Inr segs"
        using assms scan_slashes(3) [of rest env buf k] hd src by (cases "rest = []") simp_all
      then show thesis using that(2) [of "replicate k (CHR 0x5C)" rest k] k last len hs by simp
    next
      case True
      then obtain y where y: "rest = ''{{'' @ y" by (auto simp: starts_split)
      show thesis
      proof (cases "even k")
        case True
        then obtain j where j: "k = 2 * j" by (elim evenE)
        then have "scan_template env (buf @ replicate j (CHR 0x5C)) rest = Inr segs" using assms scan_slashes(2) [of env buf j y] src y by simp
        then show thesis using that(2) [of "replicate j (CHR 0x5C)" rest j] j k last len hs y by simp
      next
        case False
        then obtain j where j: "k = 2 * j + 1" by (elim oddE)
        then have "scan_template env (buf @ replicate j (CHR 0x5C) @ ''{{'') y = Inr segs" using assms scan_slashes(1) [of env buf j y] src y by simp
        then show thesis using that(2) [of "replicate j (CHR 0x5C) @ ''{{''" y j] len hs y src by simp
      qed
    qed
  next
    case c: False
    show thesis
    proof (cases "starts_with src ''{{''")
      case False
      then have "scan_template env (buf @ [c]) cs = Inr segs" using assms scan_plain_char [of c cs env buf] c Cons by simp
      then show thesis using that(2) [of "[c]" cs 0] False Cons by auto
    next
      case True
      then have turn: "scan_template env buf src = (case read_expression env 0 None [] (drop 1 cs) of
                  Inl e \<Rightarrow> Inl e
                | Inr (body, rest) \<Rightarrow> ok_bind (scan_template env [] rest) (\<lambda>rem. Inr (flush buf @ Seg_Expr body # rem)))"
        using c by (subst scan_template.simps) (simp add: Cons)
      then obtain body rest rem where b: "read_expression env 0 None [] (drop 1 cs) = Inr (body, rest)" "scan_template env [] rest = Inr rem"
        "segs = flush buf @ Seg_Expr body # rem" 
        using trans [OF sym [OF turn] assms] by (auto simp: opt_simps split: sum.splits)
      obtain raw where raw: "body_end 0 None (drop 1 cs) = Some (raw, rest)" "close_body env raw rest = Inr (body, rest)"
        using b(1) unfolding read_body_end by auto
      note parts = body_end_parts [OF raw(1)]
      have "wf_body env body" using raw(2) body_end_strip [OF raw(1)]
        by (auto simp: wf_body_def close_body_def Let_def py_strip_idem split: if_splits option.splits)
      moreover have "length rest < length src" using parts by (cases cs) (simp_all add: Cons)
      moreover have "last rest = last src" if "rest \<noteq> []" using parts that by (cases cs) (auto simp: Cons)
      moreover have "starts_with src ''{''" using True by (cases src) auto
      ultimately show thesis using that(3) b by blast
    qed
  qed
qed

text \<open>The segments of any text can be written.\<close>

lemma wf_flush_expr: "wf_body env b \<Longrightarrow> wf_segments env rem \<Longrightarrow> \<not> lone_brace buf \<Longrightarrow> wf_segments env (flush buf @ Seg_Expr b # rem)"
  by (simp add: flush_def)

lemma scan_wf: "scan_template env buf src = Inr segs \<Longrightarrow> (lone_brace buf \<longrightarrow> \<not> starts_with src ''{'') \<Longrightarrow> wf_segments env segs"
proof (induction "length src" arbitrary: buf src segs rule: less_induct)
  case less
  from less.prems(1) show ?case
  proof (cases rule: scan_cases)
    case empty
    then show ?thesis by (simp add: flush_def)
  next
    case (grow added rest k)
    have "lone_brace (buf @ added) \<longrightarrow> \<not> starts_with rest ''{''"
    proof
      assume lone: "lone_brace (buf @ added)"
      then have last: "last added = CHR ''{''" using grow(3) by (simp add: lone_brace_def)
      have "\<not> lone_brace (x @ ''{{'')" for x by (simp add: lone_brace_def butlast_append)
      from this [of "buf @ replicate k (CHR 0x5C)"] show "\<not> starts_with rest ''{''" using grow(4) lone last by (cases "k = 0") auto
    qed
    then show ?thesis using less.hyps [OF grow(2) grow(1)] by blast
  next
    case (expr body rest rem)
    have "wf_segments env rem" using less.hyps [OF expr(4) expr(2)] by (simp add: lone_brace_def)
    then show ?thesis using expr(1,3,5) less.prems(2) wf_flush_expr by blast
  qed
qed

lemma scan_image: "(\<exists>src. scan_template env [] src = Inr segs) \<longleftrightarrow> wf_segments env segs"
  using scan_unparse scan_wf [of env "[]"] by (auto simp: lone_brace_def)

text \<open>A text without white space at its ends has such segments.\<close>

lemma scan_first:
  "scan_template env buf src = Inr (Seg_Text s # segs) \<Longrightarrow> (buf = [] \<longrightarrow> src = [] \<or> \<not> is_space (hd src)) \<Longrightarrow>
   (buf \<noteq> [] \<longrightarrow> \<not> is_space (hd buf)) \<Longrightarrow> \<not> is_space (hd s)"
proof (induction "length src" arbitrary: buf src rule: less_induct)
  case less
  from less.prems(1) show ?case
  proof (cases rule: scan_cases)
    case empty
    then show ?thesis using less.prems(3) by (auto simp: flush_def split: if_splits)
  next
    case (grow added rest k)
    have "\<not> is_space (hd added)" if "buf = []"
    proof -
      have "\<not> is_space (hd src)" using grow(2) less.prems(2) that by auto
      moreover have "\<not> is_space (CHR 0x5C)" "\<not> is_space (CHR ''{'')" by (simp_all add: is_space_def)
      ultimately show ?thesis using grow(3,4) by (cases k) auto
    qed
    then have "buf @ added \<noteq> [] \<longrightarrow> \<not> is_space (hd (buf @ added))" using less.prems(3) by (cases buf) auto
    then show ?thesis using less.hyps [OF grow(2) grow(1)] grow(3) by simp
  next
    case (expr body rest rem)
    then show ?thesis using less.prems(3) by (auto simp: flush_def split: if_splits)
  qed
qed

lemma scan_last:
  "scan_template env buf src = Inr segs \<Longrightarrow> segs \<noteq> [] \<Longrightarrow> last segs = Seg_Text s \<Longrightarrow> (src \<noteq> [] \<longrightarrow> \<not> is_space (last src)) \<Longrightarrow>
   (src = [] \<longrightarrow> buf = [] \<or> \<not> is_space (last buf)) \<Longrightarrow> \<not> is_space (last s)"
proof (induction "length src" arbitrary: buf src segs rule: less_induct)
  case less
  from less.prems(1) show ?case
  proof (cases rule: scan_cases)
    case empty
    then show ?thesis using less.prems by (auto simp: flush_def split: if_splits)
  next
    case (grow added rest k)
    have "src \<noteq> []" using grow(2) by auto
    then have l: "\<not> is_space (last src)" using less.prems(4) by simp
    show ?thesis
      using less.hyps [OF grow(2) grow(1) less.prems(2,3)] l grow(3,5,6) by (cases "rest = []") simp_all
  next
    case (expr body rest rem)
    have l: "\<not> is_space (last src)" using less.prems(4) expr(4) by auto
    show ?thesis
    proof (cases "rem = []")
      case False
      then show ?thesis using less.hyps [OF expr(4) expr(2)] less.prems(3) expr(3,6) l by auto
    qed (use less.prems(3) expr(3) in simp)
  qed
qed

lemma write_last: "s \<noteq> [] \<Longrightarrow> write_text False s \<noteq> [] \<and> last (write_text False s) = last s"
proof (induction "False" s rule: write_text.induct)
  case (1 src)
  define k where "k = slashes src"
  define rest where "rest = drop k src"
  have src: "src = replicate k (CHR 0x5C) @ rest" unfolding k_def rest_def by (rule slashes_split(1))
  note w = write_text.simps [of False src, folded k_def, unfolded Let_def, folded rest_def]
  note IH = 1(1,2) [OF 1(3) k_def rest_def [unfolded k_def], folded k_def]
  show ?case
  proof (cases "rest = []")
    case True
    then show ?thesis using w 1(3) src by auto
  next
    case rest: False
    show ?thesis
    proof (cases "hd rest = CHR ''{'' \<and> even (braces rest)")
      case True
      have e: "write_text False src = replicate (2 * k + 1) (CHR 0x5C) @ ''{{'' @ write_text False (drop 2 rest)"
        using 1(3) rest True by (simp only: w if_False if_True simp_thms)
      obtain r where r: "rest = ''{{'' @ r"
        using True rest by (cases rest; cases "tl rest") (auto simp: braces_Cons braces_def split: if_splits)
      show ?thesis using IH(1) [OF rest True] unfolding e by (cases "r = []") (simp_all add: r src write_text.simps [of False "[]"])
    next
      case plain: False
      have e: "write_text False src = replicate k (CHR 0x5C) @ hd rest # write_text False (tl rest)"
        using 1(3) rest plain by (simp only: w if_False)
      obtain c r where r: "rest = c # r" using rest by (cases rest) auto
      show ?thesis using IH(2) [OF rest plain] unfolding e by (cases "r = []") (simp_all add: r src write_text.simps [of False "[]"])
    qed
  qed
qed

end
