(* ===== verification/Template_Spec.thy ===== *)
theory Template_Spec
  imports Template_Scan
begin

text \<open>
  What a template promises: it can be written back, the static check says when rendering succeeds, a rendered
  value has the declared type, and the schema at a path types the value there.
\<close>

section \<open>Writing back\<close>

lemma unparse_ends:
  assumes "wf_segments env segs" and "segs \<noteq> []"
    and "\<And>s rem. segs = Seg_Text s # rem \<Longrightarrow> \<not> is_space (hd s)" and "\<And>s. last segs = Seg_Text s \<Longrightarrow> \<not> is_space (last s)"
  shows "unparse segs \<noteq> [] \<and> \<not> is_space (hd (unparse segs)) \<and> \<not> is_space (last (unparse segs))"
proof -
  have plain: "\<not> is_space (CHR 0x5C)" "\<not> is_space (CHR ''{'')" "\<not> is_space (CHR ''}'')" by (simp_all add: is_space_def)
  have "unparse segs \<noteq> [] \<and> \<not> is_space (last (unparse segs))" using assms(1,2,4)
  proof (induction segs)
    case (Cons seg segs)
    show ?case
    proof (cases "segs = []")
      case True
      then show ?thesis using Cons.prems write_last plain by (cases seg) auto
    next
      case False
      have "wf_segments env segs" using Cons.prems(1) by (cases seg) auto
      then have "unparse segs \<noteq> [] \<and> \<not> is_space (last (unparse segs))" using Cons.IH False Cons.prems(3) by simp
      then show ?thesis by (cases seg) auto
    qed
  qed simp
  moreover have "\<not> is_space (hd (unparse segs))"
  proof (cases segs)
    case (Cons seg rem)
    show ?thesis
    proof (cases seg)
      case (Seg_Text s)
      then have "s \<noteq> []" using assms(1) Cons by simp
      then show ?thesis using write_head [of s "rem \<noteq> []"] assms(3) [of s rem] Cons Seg_Text plain by auto
    qed (simp add: Cons plain)
  qed (use assms(2) in simp)
  ultimately show ?thesis by blast
qed

text \<open>C32: the segments a text is parsed into can be written as a text that is parsed into the same segments, with the same
  expressions, names and contexts.\<close>
theorem parse_unparse:
  assumes "parse_template env src = Inr t"
  shows "parse_template env (unparse (pt_segments t)) = Inr (t\<lparr>pt_raw := unparse (pt_segments t)\<rparr>)"
proof -
  obtain segs where segs: "scan_template env [] (py_strip src) = Inr segs" "pt_segments t = segs"
    using assms by (auto simp: parse_template_def Let_def opt_simps)
  have wf: "wf_segments env segs" using scan_image segs(1) by blast
  have "py_strip (unparse segs) = unparse segs"
  proof (cases "segs = []")
    case False
    have "\<not> is_space (hd s)" if "segs = Seg_Text s # rem" for s rem
      using scan_first [of env "[]" "py_strip src" s rem] segs(1) that py_strip_ends [of src] by auto
    moreover have "\<not> is_space (last s)" if "last segs = Seg_Text s" for s
      using scan_last [OF segs(1) False that] py_strip_ends [of src] by auto
    ultimately show ?thesis using unparse_ends [OF wf False] by (intro py_strip_keep) blast
  qed (simp add: py_strip_def)
  then show ?thesis using assms segs scan_unparse [OF wf] by (auto simp: parse_template_def Let_def opt_simps)
qed

section \<open>Rendering\<close>

lemma concat_text_segments: "\<not> (\<exists>seg \<in> set segs. is_expr seg) \<Longrightarrow>
    map_ok (render_segment env evaluate) segs = Inr (map (\<lambda>seg. case seg of Seg_Text s \<Rightarrow> s | _ \<Rightarrow> []) segs)"
  by (induction segs) (auto simp: render_segment_def is_expr_def split: segment.splits)

definition concatenable :: "template_env \<Rightarrow> (string \<Rightarrow> template_error + py_value) \<Rightarrow> string \<Rightarrow> bool" where
  "concatenable env evaluate body \<longleftrightarrow> (\<exists>v s. evaluate body = Inr v \<and> to_text env v = Inr s)"

lemma map_ok_segments:
  "\<forall>b. Seg_Expr b \<in> set segs \<longrightarrow> concatenable env evaluate b \<Longrightarrow> \<exists>parts. map_ok (render_segment env evaluate) segs = Inr parts"
proof (induction segs)
  case (Cons seg segs)
  then obtain parts where "map_ok (render_segment env evaluate) segs = Inr parts" by auto
  moreover have "\<exists>p. render_segment env evaluate seg = Inr p"
    using Cons.prems by (cases seg) (auto simp: render_segment_def concatenable_def)
  ultimately show ?case by auto
qed simp

text \<open>The type a schema declares, without its \<open>enum\<close>.\<close>

definition declared_type :: "json \<Rightarrow> py_value \<Rightarrow> bool" where
  "declared_type schema v \<longleftrightarrow> type_names schema = [] \<or> (\<exists>name \<in> set (type_names schema). matches_type False schema name v)"

lemma declared_name: "name \<in> set (type_names schema) \<Longrightarrow> matches_type False schema name v \<Longrightarrow> declared_type schema v"
  unfolding declared_type_def by blast

lemma value_matches_type: "value_matches v schema \<Longrightarrow> declared_type schema v"
  by (cases "type_names schema = []") (auto simp: value_matches_def matches.simps [of False schema v] declared_type_def intro: declared_name)

lemma string_type: "is_string schema \<Longrightarrow> declared_type schema (P_Str s)"
proof -
  assume "is_string schema"
  then have "''string'' \<in> set (type_names schema)" unfolding is_string_def by blast
  moreover have "matches_type False schema ''string'' (P_Str s)" by (simp add: matches_type.simps [of False schema "''string''" "P_Str s"])
  ultimately show ?thesis by (rule declared_name)
qed

lemma null_type: "''null'' \<in> set (type_names schema) \<Longrightarrow> declared_type schema P_None"
proof -
  have "matches_type False schema ''null'' P_None" by (simp add: matches_type.simps [of False schema "''null''" P_None])
  then show "''null'' \<in> set (type_names schema) \<Longrightarrow> declared_type schema P_None" by (rule declared_name [rotated])
qed

lemma coerce_text_type: "coerce_text env src schema = Inr v \<Longrightarrow> declared_type schema v"
  by (auto simp: coerce_text_def string_type value_matches_type split: if_splits option.splits)

lemma coerce_native_type: "coerce_native env v schema = Inr w \<Longrightarrow> declared_type schema w"
  by (auto simp: coerce_native_def string_type null_type value_matches_type opt_simps split: if_splits py_value.splits)

lemma parse_whole: "parse_template env src = Inr t \<Longrightarrow> pt_whole t = (case pt_segments t of [Seg_Expr body] \<Rightarrow> Some body | _ \<Rightarrow> None)"
  by (auto simp: parse_template_def Let_def opt_simps)

text \<open>Whatever a template renders to has a type its schema declares; the \<open>enum\<close> is only checked when the
  result is not plain text.\<close>

lemma render_typed:
  assumes "render env src evaluate schema = Inr v"
  shows "declared_type schema v \<and> ((is_string schema \<and> \<not> json_template schema) \<or> value_matches v schema)"
proof -
  have "declared_type schema v" using assms coerce_text_type coerce_native_type by (auto simp: render_def opt_simps split: option.splits)
  moreover have "(is_string schema \<and> \<not> json_template schema) \<or> value_matches v schema"
    using assms by (auto simp: render_def coerce_native_def coerce_text_def opt_simps split: option.splits if_splits)
  ultimately show ?thesis by blast
qed

text \<open>C33: the static check is right: of a template without expressions it says whether every rendering succeeds; when it
  accepts one with expressions for a schema that is no JSON template, rendering succeeds whenever every
  expression has a value that can be concatenated.\<close>
theorem static_check_right:
  assumes "parse_template env src = Inr t"
  shows "(\<not> (\<exists>seg \<in> set (pt_segments t). is_expr seg) \<longrightarrow>
      (\<forall>evaluate. case static_check env t (Some schema) of
         Inl e \<Rightarrow> render env src evaluate schema = Inl e
       | Inr status \<Rightarrow> status = Static_Ok \<and> (\<exists>v. render env src evaluate schema = Inr v))) \<and>
    (static_check env t (Some schema) = Inr Static_Ok \<longrightarrow> \<not> json_template schema \<longrightarrow>
      (\<forall>b. Seg_Expr b \<in> set (pt_segments t) \<longrightarrow> concatenable env evaluate b) \<longrightarrow> (\<exists>v. render env src evaluate schema = Inr v))"
proof -
  have whole: "pt_whole t = Some b \<longleftrightarrow> pt_segments t = [Seg_Expr b]" for b
    using parse_whole [OF assms] by (auto split: list.splits segment.splits)
  have plain: "case static_check env t (Some schema) of Inl e \<Rightarrow> render env src ev schema = Inl e
       | Inr status \<Rightarrow> status = Static_Ok \<and> (\<exists>v. render env src ev schema = Inr v)"
    if none: "\<not> (\<exists>seg \<in> set (pt_segments t). is_expr seg)" for ev
  proof -
    have "pt_whole t = None"
    proof (rule ccontr)
      assume "pt_whole t \<noteq> None"
      then obtain b where "pt_segments t = [Seg_Expr b]" using whole by blast
      then show False using none by (simp add: is_expr_def)
    qed
    then have "static_check env t (Some schema) = ok_bind (coerce_text env (joined_text (pt_segments t)) schema) (\<lambda>_. Inr Static_Ok)"
      "render env src ev schema = coerce_text env (joined_text (pt_segments t)) schema"
      using none assms concat_text_segments [OF none, of env ev] by (simp_all add: static_check_def render_def joined_text_def)
    then show ?thesis by (cases "coerce_text env (joined_text (pt_segments t)) schema") simp_all
  qed
  have "\<exists>v. render env src evaluate schema = Inr v"
    if ok: "static_check env t (Some schema) = Inr Static_Ok" "\<not> json_template schema"
      "\<forall>b. Seg_Expr b \<in> set (pt_segments t) \<longrightarrow> concatenable env evaluate b"
  proof (cases "\<exists>seg \<in> set (pt_segments t). is_expr seg")
    case False
    then show ?thesis using plain [OF False, of evaluate] ok(1) by simp
  next
    case True
    then have "pt_whole t = None" "is_string schema" using ok(1) by (auto simp: static_check_def split: if_splits)
    moreover obtain parts where "map_ok (render_segment env evaluate) (pt_segments t) = Inr parts"
      using map_ok_segments [OF ok(3)] by blast
    ultimately show ?thesis using assms ok(2) by (simp add: render_def coerce_text_def)
  qed
  then show ?thesis using plain by blast
qed

section \<open>An example\<close>

text \<open>Two paths parse, and \<open>3\<close> is JSON.\<close>

definition demo_path :: "string \<Rightarrow> py_expr" where
  "demo_path ref = E_Attr (E_Attr (E_Attr (E_Name ''self'') ref) ''output'') ''rows''"

definition path_env :: template_env where
  "path_env =
     \<lparr>te_ast = map_of [(''self.a.output.rows'', demo_path ''a''), (''self.b.output.rows'', demo_path ''b'')],
      te_loads = map_of [(''3'', JInt 3)], te_float = (\<lambda>_. ''0.5'')\<rparr>"

definition demo_source :: string where "demo_source = '' rows: {{ self.a.output.rows }}''"

definition demo_int :: json where "demo_int = JObj [(''type'', JStr ''integer'')]"

definition demo_str :: json where "demo_str = JObj [(''type'', JStr ''string'')]"

definition demo_template :: parsed_template where
  "demo_template = \<lparr>tp_refs = [''a''], tp_node_names = [], pt_raw = ''rows: {{ self.a.output.rows }}'',
     pt_segments = [Seg_Text ''rows: '', Seg_Expr ''self.a.output.rows''], pt_whole = None, pt_contexts = []\<rparr>"

lemma demo_parsed: "parse_template path_env demo_source = Inr demo_template" by code_simp

lemma parse_unparse_witness: "parse_template path_env (unparse (pt_segments demo_template)) =
    Inr (demo_template\<lparr>pt_raw := unparse (pt_segments demo_template)\<rparr>)"
  by (rule parse_unparse [OF demo_parsed])

definition demo_number :: parsed_template where
  "demo_number = \<lparr>tp_refs = [], tp_node_names = [], pt_raw = ''3'', pt_segments = [Seg_Text ''3''], pt_whole = None, pt_contexts = []\<rparr>"

lemma demo_number_parsed: "parse_template path_env ''3'' = Inr demo_number" by code_simp

lemma demo_checks: "static_check path_env demo_number (Some demo_int) = Inr Static_Ok"
  "static_check path_env demo_template (Some demo_str) = Inr Static_Ok" "json_template demo_str = False"
  by code_simp+

lemma static_check_right_witness:
  "(\<exists>v. render path_env ''3'' (\<lambda>_. Inl (Template_Other ''none'')) demo_int = Inr v) \<and>
   (\<exists>v. render path_env demo_source (\<lambda>_. Inr (P_Int 3)) demo_str = Inr v)"
proof
  have "\<not> (\<exists>seg \<in> set (pt_segments demo_number). is_expr seg)" by (simp add: demo_number_def is_expr_def)
  then show "\<exists>v. render path_env ''3'' (\<lambda>_. Inl (Template_Other ''none'')) demo_int = Inr v"
    using static_check_right [OF demo_number_parsed, of demo_int] demo_checks(1) by simp
  have "\<forall>b. Seg_Expr b \<in> set (pt_segments demo_template) \<longrightarrow> concatenable path_env (\<lambda>_. Inr (P_Int 3)) b"
    by (simp add: concatenable_def to_text_def)
  then show "\<exists>v. render path_env demo_source (\<lambda>_. Inr (P_Int 3)) demo_str = Inr v"
    using static_check_right [OF demo_parsed, of demo_str] demo_checks(2,3) by simp
qed

text \<open>The validator knows that the rows of node \<open>a\<close> have an integer \<open>x\<close>, and nothing about node \<open>b\<close>.\<close>

definition demo_row :: json where
  "demo_row = JObj [(''type'', JStr ''object''), (''properties'', JObj [(''x'', JObj [(''type'', JStr ''integer'')])])]"

definition demo_up :: upstream where
  "demo_up = \<lparr>up_schemas = [(''a'', [(''main'', JObj [(''type'', JStr ''object''),
       (''properties'', JObj [(''rows'', JObj [(''type'', JStr ''array''), (''items'', demo_row)])])])])],
     up_names = [], up_inside = []\<rparr>"

definition demo_rows :: "py_value list" where
  "demo_rows = [P_Dict [(''x'', P_Int 1)], P_Dict [(''x'', P_Int 2)], P_Dict [(''x'', P_Int 1)]]"

end
