(* ===== verification/Sandbox_Spec.thy ===== *)
theory Sandbox_Spec
  imports Channel_Sandbox Template_Spec
begin

text \<open>
  What a path reads has the type the validator says, and a restart of the sandbox rebuilds what the runner sent.
\<close>

section \<open>Paths are typed\<close>

definition step_obj :: "host \<Rightarrow> self_proxy \<Rightarrow> obj \<Rightarrow> path_step \<Rightarrow> obj option" where
  "step_obj host sp x k = (case k of Step_Attr name \<Rightarrow> step_attr host sp x name | _ \<Rightarrow> step_sub sp x k)"

definition walk_obj :: "host \<Rightarrow> self_proxy \<Rightarrow> obj option \<Rightarrow> path_step list \<Rightarrow> obj option" where
  "walk_obj host sp x steps = foldl (\<lambda>y k. Option.bind y (\<lambda>z. step_obj host sp z k)) x steps"

lemma walk_obj_simps [simp]: "walk_obj host sp x [] = x"
  "walk_obj host sp x (k # ks) = walk_obj host sp (Option.bind x (\<lambda>z. step_obj host sp z k)) ks"
  "walk_obj host sp x (ks @ [k]) = Option.bind (walk_obj host sp x ks) (\<lambda>z. step_obj host sp z k)"
  by (simp_all add: walk_obj_def)

lemma walk_obj_None [simp]: "walk_obj host sp None ks = None"
  by (induction ks) simp_all

lemma subscript_not_attr: "subscript_key e = Some k \<Longrightarrow> k \<noteq> Step_Attr name"
  by (auto simp: subscript_key_def split: py_expr.splits py_const.splits)

lemma eval_path_walk: "path_steps e = Some steps \<Longrightarrow> eval_path host sp e = walk_obj host sp (Some O_Self) steps"
proof (induction e arbitrary: steps)
  case (E_Sub e key)
  then obtain k steps' where k: "subscript_key key = Some k" "path_steps e = Some steps'" "steps = steps' @ [k]"
    by (auto split: option.splits)
  then have "step_obj host sp x k = step_sub sp x k" for x
    using subscript_not_attr [OF k(1)] by (cases k) (auto simp: step_obj_def)
  then show ?case using E_Sub.IH(1) [OF k(2)] k by simp
qed (auto simp: step_obj_def split: if_splits)

text \<open>Attributes of Python's own objects whose name starts with no underscore: the proxy has none, a dictionary
  and its methods have only methods.\<close>

definition plain_host :: "host \<Rightarrow> bool" where
  "plain_host host \<longleftrightarrow> (\<forall>name. \<not> starts_with name ''_'' \<longrightarrow> host O_Self name = None \<and>
     (\<forall>kvs. host (O_Value (P_Dict kvs)) name \<in> {None, Some O_Other}) \<and> host O_Other name \<in> {None, Some O_Other})"

text \<open>A path every step of which the schema declares: named properties of objects, items of arrays.\<close>

fun typed_steps :: "json \<Rightarrow> path_step list \<Rightarrow> bool" where
  "typed_steps schema [] = True"
| "typed_steps schema (k # ks) \<longleftrightarrow>
     type_names schema \<noteq> [] \<and>
     (case k of
        Step_Index _ \<Rightarrow> set (type_names schema) \<subseteq> {''array'', ''null''}
      | Step_Attr name \<Rightarrow> \<not> starts_with name ''_'' \<and> set (type_names schema) \<subseteq> {''object'', ''null''} \<and>
          Option.bind (get_obj ''properties'' schema) (\<lambda>props. Option.bind (map_of props name) as_obj) \<noteq> None
      | Step_Key name \<Rightarrow> set (type_names schema) \<subseteq> {''object'', ''null''} \<and>
          Option.bind (get_obj ''properties'' schema) (\<lambda>props. Option.bind (map_of props name) as_obj) \<noteq> None) \<and>
     (case walk_schema schema k of None \<Rightarrow> True | Some sub \<Rightarrow> typed_steps sub ks)"

lemma matches_names: "matches widen schema v \<Longrightarrow> type_names schema \<noteq> [] \<Longrightarrow> set (type_names schema) \<subseteq> {name, ''null''} \<Longrightarrow>
    v \<noteq> P_None \<Longrightarrow> matches_type widen schema name v"
proof -
  assume a: "matches widen schema v" "type_names schema \<noteq> []" "set (type_names schema) \<subseteq> {name, ''null''}" "v \<noteq> P_None"
  then obtain n where "n \<in> set (type_names schema)" "matches_type widen schema n v" by (auto simp: matches.simps [of widen schema v])
  moreover have "\<not> matches_type widen schema ''null'' v" using a(4) by (simp add: matches_type.simps [of _ _ "''null''"])
  ultimately show ?thesis using a(3) by blast
qed

lemma object_matches:
  assumes "matches_type widen schema ''object'' v"
  shows "\<exists>kvs. v = P_Dict kvs \<and> (\<forall>props k x sub. get_obj ''properties'' schema = Some props \<longrightarrow> (k, x) \<in> set kvs \<longrightarrow>
    Option.bind (map_of props k) as_obj = Some sub \<longrightarrow> matches widen (JObj sub) x)"
  using assms by (cases v) (fastforce simp: matches_type.simps [of _ _ "''object''"])+

lemma array_matches:
  assumes "matches_type widen schema ''array'' v"
  shows "\<exists>xs. v = P_List xs \<and> (\<forall>items x. get_obj ''items'' schema = Some items \<longrightarrow> x \<in> set xs \<longrightarrow> matches widen (JObj items) x)"
  using assms by (cases v) (auto simp: matches_type.simps [of _ _ "''array''"])

lemma list_index_mem: "list_index xs i = Some x \<Longrightarrow> x \<in> set xs"
  by (auto simp: list_index_def split: if_splits)

lemma property_declared:
  "Option.bind (get_obj ''properties'' schema) (\<lambda>props. Option.bind (map_of props name) as_obj) = Some sub \<Longrightarrow> property_schema schema name = Some (JObj sub)"
  by (simp add: property_schema_def)

lemma dict_step:
  assumes "matches True schema w" "type_names schema \<noteq> []" "set (type_names schema) \<subseteq> {''object'', ''null''}"
    and "Option.bind (get_obj ''properties'' schema) (\<lambda>props. Option.bind (map_of props name) as_obj) = Some sub"
  shows "w = P_None \<or> (\<exists>kvs. w = P_Dict kvs \<and> (\<forall>x. map_of kvs name = Some x \<longrightarrow> matches True (JObj sub) x))"
proof (cases "w = P_None")
  case False
  from object_matches [OF matches_names [OF assms(1-3) False]] obtain kvs where kvs: "w = P_Dict kvs"
    "\<And>props k x sub. get_obj ''properties'' schema = Some props \<Longrightarrow> (k, x) \<in> set kvs \<Longrightarrow> Option.bind (map_of props k) as_obj = Some sub \<Longrightarrow>
       matches True (JObj sub) x" by blast
  obtain props where "get_obj ''properties'' schema = Some props" "Option.bind (map_of props name) as_obj = Some sub"
    using assms(4) by (cases "get_obj ''properties'' schema") auto
  then show ?thesis using kvs map_of_SomeD by metis
qed simp

lemma typed_step:
  assumes "plain_host host" and "matches True schema w" and "typed_steps schema (k # ks)" and "step_obj host sp (O_Value w) k = Some y"
  shows "y = O_Other \<or> (\<exists>v. y = O_Value v \<and> (\<forall>sub. walk_schema schema k = Some sub \<longrightarrow> matches True sub v))"
proof (cases k)
  case (Step_Attr name)
  obtain sub where sub: "Option.bind (get_obj ''properties'' schema) (\<lambda>props. Option.bind (map_of props name) as_obj) = Some sub"
    using assms(3) Step_Attr by auto
  have name: "\<not> starts_with name ''_''" using assms(3) Step_Attr by simp
  then have nd: "\<not> dunder name" by (auto simp: dunder_def starts_split)
  from dict_step [OF assms(2) _ _ sub] assms(3) Step_Attr
  consider "w = P_None" | kvs where "w = P_Dict kvs" "\<And>x. map_of kvs name = Some x \<Longrightarrow> matches True (JObj sub) x" by auto
  then show ?thesis
  proof cases
    case 2
    have "host (O_Value (P_Dict kvs)) name \<in> {None, Some O_Other}" using assms(1) name unfolding plain_host_def by blast
    then show ?thesis using assms(4) 2 property_declared [OF sub] nd
      by (auto simp: Step_Attr step_obj_def step_attr_def walk_schema_def split: option.splits)
  qed (use assms(4) in \<open>simp add: Step_Attr step_obj_def step_attr_def\<close>)
next
  case (Step_Key name)
  obtain sub where sub: "Option.bind (get_obj ''properties'' schema) (\<lambda>props. Option.bind (map_of props name) as_obj) = Some sub"
    using assms(3) Step_Key by auto
  from dict_step [OF assms(2) _ _ sub] assms(3) Step_Key
  consider "w = P_None" | kvs where "w = P_Dict kvs" "\<And>x. map_of kvs name = Some x \<Longrightarrow> matches True (JObj sub) x" by auto
  then show ?thesis
    using assms(4) property_declared [OF sub] by cases (auto simp: Step_Key step_obj_def step_sub_def walk_schema_def)
next
  case (Step_Index i)
  show ?thesis
  proof (cases "w = P_None")
    case False
    have names: "type_names schema \<noteq> []" "set (type_names schema) \<subseteq> {''array'', ''null''}" using assms(3) Step_Index by auto
    then have arr: "matches_type True schema ''array'' w" using matches_names [OF assms(2)] False by blast
    obtain xs where xs: "w = P_List xs" "\<And>items x. get_obj ''items'' schema = Some items \<Longrightarrow> x \<in> set xs \<Longrightarrow> matches True (JObj items) x"
      using array_matches [OF arr] by blast
    obtain z where z: "list_index xs i = Some z" "y = O_Value z"
      using assms(4) xs(1) by (auto simp: Step_Index step_obj_def step_sub_def)
    have "matches True sub z" if sub: "walk_schema schema k = Some sub" for sub
    proof -
      obtain items where "get_obj ''items'' schema = Some items" "sub = JObj items"
        using sub by (auto simp: Step_Index walk_schema_def array_item_schema_def Let_def split: if_splits)
      then show ?thesis using xs(2) list_index_mem [OF z(1)] by blast
    qed
    then show ?thesis using z(2) by blast
  qed (use assms(4) in \<open>simp add: Step_Index step_obj_def step_sub_def\<close>)
qed

lemma other_steps:
  assumes "plain_host host"
  shows "typed_steps schema ks \<Longrightarrow> walk_schemas schema ks \<noteq> None \<Longrightarrow> walk_obj host sp (Some O_Other) ks \<in> {None, Some O_Other}"
proof (induction schema ks rule: typed_steps.induct)
  case (2 schema k ks)
  obtain sub where sub: "walk_schema schema k = Some sub" using 2(3) by (cases "walk_schema schema k") auto
  have "step_obj host sp O_Other k \<in> {None, Some O_Other}"
    using assms 2(2) by (cases k) (auto simp: step_obj_def step_attr_def step_sub_def plain_host_def)
  moreover have "walk_obj host sp (Some O_Other) ks \<in> {None, Some O_Other}" using 2 sub by auto
  ultimately show ?case by auto
qed simp

lemma typed_walk:
  assumes "plain_host host"
  shows "typed_steps schema ks \<Longrightarrow> walk_schemas schema ks = Some s \<Longrightarrow> matches True schema w \<Longrightarrow>
    walk_obj host sp (Some (O_Value w)) ks = Some (O_Value v) \<Longrightarrow> matches True s v"
proof (induction schema ks arbitrary: w rule: typed_steps.induct)
  case (2 schema k ks)
  obtain sub where sub: "walk_schema schema k = Some sub" using 2(3) by (cases "walk_schema schema k") auto
  then have ks: "typed_steps sub ks" "walk_schemas sub ks = Some s" using 2(2,3) by auto
  obtain y where y: "step_obj host sp (O_Value w) k = Some y" using 2(5) by (cases "step_obj host sp (O_Value w) k") auto
  from typed_step [OF assms 2(4,2) y] show ?case
  proof
    assume "y = O_Other"
    then have "walk_obj host sp (Some O_Other) ks = Some (O_Value v)" using 2(5) y by simp
    then show ?case using other_steps [OF assms ks(1), of sp] ks(2) by auto
  next
    assume "\<exists>v. y = O_Value v \<and> (\<forall>sub. walk_schema schema k = Some sub \<longrightarrow> matches True sub v)"
    then obtain u where u: "y = O_Value u" "matches True sub u" using sub by blast
    then show ?case using 2(1) [OF sub ks u(2)] 2(5) y by simp
  qed
qed simp

text \<open>The sandbox holds an output for every node the validator sees, of the type it promises, under the same name.\<close>

definition outputs_typed :: "upstream \<Rightarrow> self_proxy \<Rightarrow> bool" where
  "outputs_typed up sp \<longleftrightarrow>
     (\<forall>ref produced schema. map_of (up_schemas up) ref = Some produced \<longrightarrow> port_schema produced (ref \<in> set (up_inside up)) = Some schema \<longrightarrow>
       \<not> starts_with ref ''_'' \<and> (\<exists>nv. map_of (sp_refs sp) ref = Some nv \<and> output_matches (nv_output nv) schema)) \<and>
     (\<forall>name ref. map_of (up_names up) name = Some ref \<longrightarrow>
       List.find (\<lambda>nv. nv_name nv = name) (map snd (sp_refs sp)) = map_of (sp_refs sp) ref)"

text \<open>C34: the schema the validator finds at a path types what the path reads: when every output in the sandbox matches its
  declared schema and the schemas on the way declare each step, the value of the expression matches the schema.\<close>
theorem path_schema_sound:
  assumes "schema_at_path env src up = Some s" and "outputs_typed up sp" and "plain_host host"
    and "parse_template env src = Inr t" and "pt_whole t = Some body" and "te_ast env body = Some e"
    and "path_steps e = Some steps" and "path_root up steps = Some (ref, Step_Attr ''output'' # ks)"
    and "Option.bind (map_of (up_schemas up) ref) (\<lambda>produced. port_schema produced (ref \<in> set (up_inside up))) = Some schema"
    and "typed_steps schema ks" and "eval_path host sp e = Some (O_Value v)"
  shows "output_matches v s"
proof -
  obtain produced where produced: "map_of (up_schemas up) ref = Some produced" "port_schema produced (ref \<in> set (up_inside up)) = Some schema"
    using assms(9) by (cases "map_of (up_schemas up) ref") auto
  obtain nv where nv: "map_of (sp_refs sp) ref = Some nv" "output_matches (nv_output nv) schema" "\<not> starts_with ref ''_''"
    using assms(2) produced unfolding outputs_typed_def by blast
  have s: "walk_schemas schema ks = Some s"
    using assms(1,4-9) by (auto simp: schema_at_path_def schema_from_steps_def split: if_splits)
  have root: "walk_obj host sp (Some O_Self) steps = walk_obj host sp (Some (O_View nv)) (Step_Attr ''output'' # ks)"
  proof -
    obtain first rest where f: "steps = Step_Attr first # rest" using assms(8) by (auto simp: path_root_def split: list.splits path_step.splits)
    show ?thesis
    proof (cases "first = ''nodes''")
      case True
      then obtain name where n: "rest = Step_Key name # Step_Attr ''output'' # ks" "map_of (up_names up) name = Some ref"
        using assms(8) f by (auto simp: path_root_def split: list.splits path_step.splits)
      have "List.find (\<lambda>nv. nv_name nv = name) (map snd (sp_refs sp)) = Some nv" using assms(2) n(2) nv(1) by (simp add: outputs_typed_def)
      then show ?thesis using n(1) True by (simp add: f step_obj_def step_attr_def proxy_attr_def step_sub_def)
    next
      case False
      then have r: "first = ref" "rest = Step_Attr ''output'' # ks" "first \<notin> set reserved_attrs"
        using assms(8) f by (auto simp: path_root_def split: if_splits)
      have "host O_Self ref = None" using assms(3) nv(3) by (simp add: plain_host_def)
      then have "proxy_attr host sp ref = Some (O_View nv)"
        using r(1,3) nv(1) False by (simp add: proxy_attr_def reserved_attrs_def context_names_def)
      then show ?thesis using r(1,2) by (simp add: f step_obj_def step_attr_def)
    qed
  qed
  have "walk_obj host sp (Some (O_Value (nv_output nv))) ks = Some (O_Value v)"
    using assms(11) eval_path_walk [OF assms(7), of host sp] root by (simp add: step_obj_def step_attr_def)
  then show ?thesis using typed_walk [OF assms(3,10) s] nv(2) by (simp add: output_matches_def)
qed

section \<open>A restart loses nothing\<close>

text \<open>The runner's calls: they set the context, put and drop outputs, evaluate expressions and run code, with whatever
  answer comes and whatever that does to the child. The list is what was sent to the child on purpose.\<close>

inductive session_run :: "message list \<Rightarrow> session \<Rightarrow> bool" where
  run_open: "session_run [] open_session"
| run_context: "session_run ms s \<Longrightarrow> message_sendable (Put_Context c r p) \<Longrightarrow> session_run (ms @ [Put_Context c r p]) (snd (set_context c r p s))"
| run_put: "session_run ms s \<Longrightarrow> message_sendable (Put_Output ref name output) \<Longrightarrow>
    session_run (ms @ [Put_Output ref name output]) (snd (put_output ref name output s))"
| run_drop: "session_run ms s \<Longrightarrow> session_run (ms @ [Drop_Outputs refs]) (snd (session_drop refs s))"
| run_evaluate: "session_run ms s \<Longrightarrow> session_run ms (snd (evaluate_in ans s))"
| run_author_code: "session_run ms s \<Longrightarrow> session_run ms (snd (run_code code s))"

definition replayed :: "session \<Rightarrow> self_proxy" where
  "replayed s = foldl handle_message fresh_proxy ((case ss_context s of None \<Rightarrow> [] | Some m \<Rightarrow> [m]) @ ss_outputs s)"

fun is_put :: "message \<Rightarrow> bool" where
  "is_put (Put_Output _ _ _) = True"
| "is_put _ = False"

fun is_context :: "message \<Rightarrow> bool" where
  "is_context (Put_Context _ _ _) = True"
| "is_context _ = False"

definition session_ok :: "message list \<Rightarrow> session \<Rightarrow> bool" where
  "session_ok ms s \<longleftrightarrow> ss_child s \<noteq> None \<and> replayed s = foldl handle_message fresh_proxy ms \<and>
     (\<forall>m \<in> set (ss_outputs s). is_put m \<and> message_sendable m) \<and> (\<forall>m. ss_context s = Some m \<longrightarrow> is_context m \<and> message_sendable m)"

lemma send_all_ok: "ss_child s = Some sp \<Longrightarrow> \<forall>m \<in> set ms. message_sendable m \<Longrightarrow>
    send_all ms s = (Inr (), s\<lparr>ss_child := Some (foldl handle_message sp ms)\<rparr>)"
  by (induction ms arbitrary: s sp) (simp_all add: send_def)

lemma restart_ok:
  assumes "session_ok ms s"
  shows "restart s = (Inr (), s\<lparr>ss_child := Some (foldl handle_message fresh_proxy ms)\<rparr>)"
proof -
  have "\<forall>m \<in> set ((case ss_context s of None \<Rightarrow> [] | Some m \<Rightarrow> [m]) @ ss_outputs s). message_sendable m"
    using assms by (auto simp: session_ok_def split: option.splits)
  then have "restart s = (Inr (), s\<lparr>ss_child := Some (replayed s)\<rparr>)"
    unfolding restart_def replayed_def using send_all_ok [of "s\<lparr>ss_child := Some fresh_proxy\<rparr>" fresh_proxy] by simp
  then show ?thesis using assms by (simp add: session_ok_def)
qed

text \<open>Only the child differs after an evaluation.\<close>

lemma session_ok_child: "session_ok ms s \<Longrightarrow> session_ok ms (s\<lparr>ss_child := Some sp\<rparr>)"
  by (simp add: session_ok_def replayed_def)

lemma restarted_ok: "session_ok ms s \<Longrightarrow> session_ok ms (snd (restarted e s))"
  by (simp add: restarted_def restart_ok session_ok_child)

lemma evaluate_ok: "session_ok ms s \<Longrightarrow> session_ok ms (snd (evaluate_in ans s))"
  by (cases ans) (auto simp: evaluate_in_def restarted_ok session_ok_child)

lemma run_code_ok: "session_ok ms s \<Longrightarrow> session_ok ms (snd (run_code ans s))"
  by (cases ans) (auto simp: run_code_def restarted_ok session_ok_child Let_def split: sum.splits)

text \<open>A context replaces the one before, outputs leave it alone.\<close>

lemma put_context_commute: "is_context c \<Longrightarrow> \<forall>m \<in> set ms. is_put m \<Longrightarrow>
    handle_message (foldl handle_message sp ms) c = foldl handle_message (handle_message sp c) ms"
proof (induction ms arbitrary: sp)
  case (Cons m ms)
  have "handle_message (handle_message sp m) c = handle_message (handle_message sp c) m"
    using Cons.prems by (cases c; cases m) (simp_all add: handle_message_def)
  then show ?case using Cons.IH [of "handle_message sp m"] Cons.prems by simp
qed simp

lemma context_replaces: "is_context c \<Longrightarrow> is_context c' \<Longrightarrow> handle_message (handle_message sp c) c' = handle_message sp c'"
  by (cases c; cases c') (simp_all add: handle_message_def)

lemma filter_update: "filter (\<lambda>(r, _). r \<notin> R) (AList.update k v al) =
    (if k \<in> R then filter (\<lambda>(r, _). r \<notin> R) al else AList.update k v (filter (\<lambda>(r, _). r \<notin> R) al))"
  by (induction al) auto

lemma drop_commute: "\<forall>m \<in> set ms. is_put m \<Longrightarrow>
    handle_message (foldl handle_message sp ms) (Drop_Outputs refs) =
    foldl handle_message (handle_message sp (Drop_Outputs refs)) (filter (\<lambda>m. message_ref m \<notin> set refs) ms)"
proof (induction ms arbitrary: sp)
  case (Cons m ms)
  then obtain ref name out where m: "m = Put_Output ref name out" by (cases m) auto
  have "handle_message (handle_message sp m) (Drop_Outputs refs) =
      (if ref \<in> set refs then handle_message sp (Drop_Outputs refs) else handle_message (handle_message sp (Drop_Outputs refs)) m)"
    by (simp add: m handle_message_def filter_update)
  then show ?case using Cons.IH [of "handle_message sp m"] Cons.prems by (simp add: m)
qed simp

lemma context_ok:
  assumes "session_ok ms s" and "message_sendable (Put_Context c r p)"
  shows "session_ok (ms @ [Put_Context c r p]) (snd (set_context c r p s))"
proof -
  let ?c = "Put_Context c r p"
  have puts: "\<forall>m \<in> set (ss_outputs s). is_put m" using assms(1) by (auto simp: session_ok_def)
  have "handle_message (replayed s) ?c = foldl handle_message (handle_message fresh_proxy ?c) (ss_outputs s)"
  proof (cases "ss_context s")
    case None
    then show ?thesis using put_context_commute [OF _ puts, of ?c] by (simp add: replayed_def)
  next
    case (Some old)
    then have "is_context old" using assms(1) by (simp add: session_ok_def)
    then show ?thesis using Some put_context_commute [OF _ puts, of ?c] context_replaces [of old ?c] by (simp add: replayed_def)
  qed
  then show ?thesis using assms by (auto simp: set_context_def send_def session_ok_def replayed_def split: option.splits)
qed

lemma put_ok:
  assumes "session_ok ms s" and "message_sendable (Put_Output ref name out)"
  shows "session_ok (ms @ [Put_Output ref name out]) (snd (put_output ref name out s))"
  using assms by (auto simp: put_output_def send_def session_ok_def replayed_def split: option.splits)

lemma drop_ok:
  assumes "session_ok ms s"
  shows "session_ok (ms @ [Drop_Outputs refs]) (snd (session_drop refs s))"
proof -
  have puts: "\<forall>m \<in> set (ss_outputs s). is_put m" using assms by (auto simp: session_ok_def)
  have empty: "handle_message sp (Drop_Outputs refs) = sp" if "sp_refs sp = []" for sp :: self_proxy
    using that by (simp add: handle_message_def)
  have "sp_refs (foldl handle_message fresh_proxy (case ss_context s of None \<Rightarrow> [] | Some m \<Rightarrow> [m])) = []"
    using assms by (auto simp: session_ok_def fresh_proxy_def handle_message_def split: option.splits elim!: is_context.elims)
  then have "handle_message (replayed s) (Drop_Outputs refs) =
      foldl handle_message (foldl handle_message fresh_proxy (case ss_context s of None \<Rightarrow> [] | Some m \<Rightarrow> [m]))
        (filter (\<lambda>m. message_ref m \<notin> set refs) (ss_outputs s))"
    unfolding replayed_def foldl_append drop_commute [OF puts] using empty by simp
  then show ?thesis using assms by (auto simp: session_drop_def send_def session_ok_def replayed_def)
qed

lemma open_session_ok: "session_ok [] open_session"
  by (simp add: session_ok_def open_session_def replayed_def)

text \<open>C35: whatever the runner sends, however evaluations end and whatever they do to the child, a restart succeeds and rebuilds the
  child that has handled exactly what the runner sent, in order: only the last context and the outputs that were not
  dropped are replayed, and they are enough.\<close>
theorem restart_replays:
  assumes "session_run ms s"
  shows "restart s = (Inr (), s\<lparr>ss_child := Some (foldl handle_message fresh_proxy ms)\<rparr>)"
proof -
  from assms have "session_ok ms s"
    by induction (intro open_session_ok context_ok put_ok drop_ok evaluate_ok run_code_ok; assumption)+
  then show ?thesis by (rule restart_ok)
qed

section \<open>Examples\<close>

definition demo_view :: node_view where
  "demo_view = \<lparr>nv_name = ''A'', nv_output = P_Dict [(''rows'', P_List demo_rows)]\<rparr>"

definition demo_proxy :: self_proxy where
  "demo_proxy = fresh_proxy\<lparr>sp_refs := [(''a'', demo_view)]\<rparr>"

definition demo_sent :: session where
  "demo_sent = snd (put_output ''a'' ''A'' (P_Dict [(''rows'', P_List demo_rows)]) open_session)"

lemma demo_steps:
  "schema_at_path path_env ''{{ self.a.output.rows }}'' demo_up = Some (JObj [(''type'', JStr ''array''), (''items'', demo_row)])"
  "parse_template path_env ''{{ self.a.output.rows }}'' = Inr \<lparr>tp_refs = [''a''], tp_node_names = [], pt_raw = ''{{ self.a.output.rows }}'',
     pt_segments = [Seg_Expr ''self.a.output.rows''], pt_whole = Some ''self.a.output.rows'', pt_contexts = []\<rparr>"
  "te_ast path_env ''self.a.output.rows'' = Some (demo_path ''a'')"
  "path_steps (demo_path ''a'') = Some [Step_Attr ''a'', Step_Attr ''output'', Step_Attr ''rows'']"
  "path_root demo_up [Step_Attr ''a'', Step_Attr ''output'', Step_Attr ''rows''] = Some (''a'', [Step_Attr ''output'', Step_Attr ''rows''])"
  by code_simp+

definition demo_main :: json where
  "demo_main = JObj [(''type'', JStr ''object''), (''properties'', JObj [(''rows'', JObj [(''type'', JStr ''array''), (''items'', demo_row)])])]"

lemma sandbox_port: "Option.bind (map_of (up_schemas demo_up) ''a'') (\<lambda>produced. port_schema produced (''a'' \<in> set (up_inside demo_up))) = Some demo_main"
  "output_matches (nv_output demo_view) demo_main" "starts_with ''a'' ''_'' = False"
  by code_simp+

lemma demo_typed_steps: "typed_steps demo_main [Step_Attr ''rows'']"
  by (simp add: demo_main_def type_names_def get_obj_def walk_schema_def property_schema_def)

lemma demo_outputs: "outputs_typed demo_up demo_proxy"
  using sandbox_port by (simp add: outputs_typed_def demo_up_def demo_proxy_def fresh_proxy_def)

lemma demo_value: "eval_path (\<lambda>_ _. None) demo_proxy (demo_path ''a'') = Some (O_Value (P_List demo_rows))"
  by code_simp

lemma path_schema_sound_witness: "output_matches (P_List demo_rows) (JObj [(''type'', JStr ''array''), (''items'', demo_row)])"
  by (rule path_schema_sound [OF demo_steps(1) demo_outputs _ demo_steps(2) _ demo_steps(3,4,5) sandbox_port(1) demo_typed_steps demo_value])
    (simp_all add: plain_host_def)

lemma restart_replays_witness: "restart demo_sent =
    (Inr (), demo_sent\<lparr>ss_child := Some (handle_message fresh_proxy (Put_Output ''a'' ''A'' (P_Dict [(''rows'', P_List demo_rows)])))\<rparr>)"
proof -
  have "message_sendable (Put_Output ''a'' ''A'' (P_Dict [(''rows'', P_List demo_rows)]))" by code_simp
  then have "session_run ([] @ [Put_Output ''a'' ''A'' (P_Dict [(''rows'', P_List demo_rows)])]) demo_sent"
    unfolding demo_sent_def by (intro run_put run_open)
  from restart_replays [OF this] show ?thesis by simp
qed

end
