(* ===== verification/Node_Support.thy ===== *)
theory Node_Support
  imports Channel_Template "HOL-Library.AList"
begin

text \<open>
  What node executors share: the result of an execution, the rendering of a field (\<open>channel/node_support.py\<close>), and
  equality of JSON values. The capture of rendered fields for the run log is not modelled.
\<close>

text \<open>\<open>Exec_Raised\<close> is an exception the executor does not catch.\<close>

datatype exec_result =
    Exec_Ok py_value "string list option"
  | Exec_Failed string string "(string \<times> py_value) list" "py_value option"
  | Exec_Raised

definition exec_bind :: "exec_result + 'a \<Rightarrow> ('a \<Rightarrow> exec_result) \<Rightarrow> exec_result" where
  "exec_bind r f = (case r of Inl failed \<Rightarrow> failed | Inr x \<Rightarrow> f x)"

definition or_null :: "json option \<Rightarrow> json" where
  "or_null x = (case x of None \<Rightarrow> JNull | Some j \<Rightarrow> j)"

definition render_field :: "template_env \<Rightarrow> (string \<Rightarrow> template_error + py_value) \<Rightarrow> json option \<Rightarrow> json \<Rightarrow> exec_result + py_value" where
  "render_field env evaluate raw schema =
     (let failed = (\<lambda>code message. Exec_Failed code message [(''expression'', of_json (or_null raw))] None) in
      case raw of
        Some (JStr src) \<Rightarrow>
          (case render env src evaluate schema of
             Inr v \<Rightarrow> Inr v
           | Inl (Template_Type message) \<Rightarrow> Inl (failed ''CHANNEL_VALUE_TYPE_MISMATCH'' message)
           | Inl (Template_Syntax message) \<Rightarrow> Inl (failed ''CHANNEL_NODE_FAILED'' message)
           | Inl (Template_Other message) \<Rightarrow> Inl (failed ''CHANNEL_NODE_FAILED'' message))
      | _ \<Rightarrow> Inl (failed ''CHANNEL_VALUE_TYPE_MISMATCH'' ''Template value must be text''))"

lemma render_field_Inr: "render_field env evaluate raw schema = Inr v \<longleftrightarrow>
    (\<exists>src. raw = Some (JStr src) \<and> render env src evaluate schema = Inr v)"
  by (cases raw) (auto simp: render_field_def Let_def split: json.splits sum.splits template_error.splits)

definition item_limit :: nat where "item_limit = 100000"

lemma item_limit_int [code_unfold]: "item_limit < n \<longleftrightarrow> (100000 :: int) < int n"
  by (simp add: item_limit_def)

definition limit_failed :: exec_result where
  "limit_failed = Exec_Failed ''CHANNEL_ITEM_LIMIT_EXCEEDED'' ''Use Materialize or Dataset Query, then Batch Read.'' [] None"

text \<open>\<open>canonical_json\<close>: the identity of a value.\<close>

definition canonical_json :: "template_env \<Rightarrow> py_value \<Rightarrow> template_error + string" where
  "canonical_json env v = json_text Canonical (te_float env) v"

text \<open>\<open>_json_eq\<close> of the filter node: a boolean equals no number.\<close>

function json_eq :: "py_value \<Rightarrow> py_value \<Rightarrow> bool" where
  "json_eq v w =
     (case (v, w) of
        (P_Bool a, P_Bool b) \<Rightarrow> a = b
      | (P_Bool _, _) \<Rightarrow> False
      | (_, P_Bool _) \<Rightarrow> False
      | (P_Dict xs, P_Dict ys) \<Rightarrow> fst ` set xs = fst ` set ys \<and>
          (\<forall>(k, x) \<in> set xs. case map_of ys k of None \<Rightarrow> False | Some y \<Rightarrow> json_eq x y)
      | (P_List xs, P_List ys) \<Rightarrow> length xs = length ys \<and> (\<forall>(x, y) \<in> set (zip xs ys). json_eq x y)
      | _ \<Rightarrow> py_eq v w)"
  by pat_completeness auto

termination json_eq
  by (relation "measure (\<lambda>(v, w). size v)") (auto simp: less_Suc_eq_le intro: pair_size dest: zip_size)

declare json_eq.simps [simp del]

definition any_schema :: json where
  "any_schema = JObj [(''type'', JArr (map JStr [''object'', ''array'', ''string'', ''number'', ''boolean'', ''null'']))]"

definition list_of_objects :: json where
  "list_of_objects = JObj [(''type'', JStr ''array''), (''items'', JObj [(''type'', JStr ''object'')])]"

end
