(* ===== verification/Channel_Variables.thy ===== *)
theory Channel_Variables
  imports Node_Support "HOL-Library.Product_Lexorder"
begin

text \<open>
  The variable stores (\<open>channel/variables.py\<close>): the records of one namespace, the store in memory, the tables in
  PostgreSQL, and the Variable node that uses them (\<open>nodes/state/variable.py\<close>). An instant is a number of
  microseconds from the day 0 of the calendar. A statement is one step; the two tables are one association list
  whose key has a channel or none. What \<open>jsonb\<close> makes of a value and when it takes two for equal is a parameter. Names are
  ordered by code point, as under the C collation. That the memory keeps the very object it was given is not modelled.
\<close>

section \<open>Records of a namespace\<close>

record var_record =
  vr_name :: string
  vr_value :: py_value
  vr_expires :: "int option"
  vr_updated :: int

record var_result =
  vs_name :: string
  vs_found :: bool
  vs_value :: py_value
  vs_applied :: bool
  vs_expires :: "int option"

datatype var_error = Unknown_Operation | Instant_Overflow | Jsonb_Refused

definition name_char :: "char \<Rightarrow> bool" where
  "name_char c \<longleftrightarrow> is_digit c \<or> is_lower c \<or> is_upper c \<or> c \<in> set ''_.:-''"

definition valid_name :: "string \<Rightarrow> bool" where
  "valid_name name \<longleftrightarrow> list_all name_char name \<and> 1 \<le> length name \<and> length name \<le> 128"

definition live_record :: "int \<Rightarrow> var_record option \<Rightarrow> var_record option" where
  "live_record now row =
     (case row of
        None \<Rightarrow> None
      | Some r \<Rightarrow> (case vr_expires r of Some e \<Rightarrow> if e \<le> now then None else Some r | None \<Rightarrow> Some r))"

text \<open>The last instant of the year 9999.\<close>

definition max_instant :: int where "max_instant = 3652060 * day_us - 1"

definition expires_at :: "int \<Rightarrow> int option \<Rightarrow> var_error + int option" where
  "expires_at now ttl =
     (case ttl of
        None \<Rightarrow> Inr None
      | Some s \<Rightarrow> if now + s * 1000000 > max_instant then Inl Instant_Overflow else Inr (Some (now + s * 1000000)))"

definition result_of :: "string \<Rightarrow> var_record option \<Rightarrow> bool \<Rightarrow> var_result" where
  "result_of name row applied =
     (case row of
        None \<Rightarrow> \<lparr>vs_name = name, vs_found = False, vs_value = P_None, vs_applied = applied, vs_expires = None\<rparr>
      | Some r \<Rightarrow> \<lparr>vs_name = name, vs_found = True, vs_value = vr_value r, vs_applied = applied, vs_expires = vr_expires r\<rparr>)"

record call =
  cl_operation :: string
  cl_name :: string
  cl_value :: py_value
  cl_expected :: py_value
  cl_ttl :: "int option"
  cl_now :: int
  cl_channel :: "string option"

type_synonym rows = "(string \<times> var_record) list"

definition saved_record :: "call \<Rightarrow> int option \<Rightarrow> var_record" where
  "saved_record c expires = \<lparr>vr_name = cl_name c, vr_value = cl_value c, vr_expires = expires, vr_updated = cl_now c\<rparr>"

definition apply_records :: "rows \<Rightarrow> call \<Rightarrow> (var_error + var_result) \<times> rows" where
  "apply_records rows c =
     (let name = cl_name c; current = live_record (cl_now c) (map_of rows name) in
      if cl_operation c = ''get'' then (Inr (result_of name current False), rows)
      else if cl_operation c = ''delete'' then (Inr (result_of name None (current \<noteq> None)), AList.delete name rows)
      else case expires_at (cl_now c) (cl_ttl c) of
        Inl e \<Rightarrow> (Inl e, rows)
      | Inr expires \<Rightarrow>
          (let saved = saved_record c expires; written = (Inr (result_of name (Some saved) True), AList.update name saved rows) in
           if cl_operation c = ''set'' then written
           else if cl_operation c = ''set_if_absent''
           then (if current \<noteq> None then (Inr (result_of name current False), rows) else written)
           else if cl_operation c = ''compare_and_set''
           then (case current of
                   None \<Rightarrow> (Inr (result_of name None False), rows)
                 | Some r \<Rightarrow> if \<not> py_eq (vr_value r) (cl_expected c) then (Inr (result_of name current False), rows) else written)
           else (Inl Unknown_Operation, rows)))"

section \<open>The store in memory\<close>

record memory_store =
  mv_site :: rows
  mv_channels :: "(string \<times> rows) list"

definition channel_rows :: "memory_store \<Rightarrow> string \<Rightarrow> rows" where
  "channel_rows m ch = (case map_of (mv_channels m) ch of None \<Rightarrow> [] | Some rows \<Rightarrow> rows)"

text \<open>\<open>_bag\<close> and the call: the bag of a channel is made on demand.\<close>

definition mem_apply :: "memory_store \<Rightarrow> call \<Rightarrow> (var_error + var_result) \<times> memory_store" where
  "mem_apply m c =
     (case cl_channel c of
        None \<Rightarrow> (case apply_records (mv_site m) c of (r, rows) \<Rightarrow> (r, m\<lparr>mv_site := rows\<rparr>))
      | Some ch \<Rightarrow> (case apply_records (channel_rows m ch) c of (r, rows) \<Rightarrow> (r, m\<lparr>mv_channels := AList.update ch rows (mv_channels m)\<rparr>)))"

definition page_of :: "nat \<Rightarrow> nat \<Rightarrow> var_record list \<Rightarrow> var_record list \<times> nat" where
  "page_of limit offset rows = (take limit (drop offset (sort_key vr_name rows)), length rows)"

definition is_live :: "int \<Rightarrow> var_record \<Rightarrow> bool" where
  "is_live now r = (case vr_expires r of None \<Rightarrow> True | Some e \<Rightarrow> e > now)"

definition mem_list_live :: "memory_store \<Rightarrow> nat \<Rightarrow> nat \<Rightarrow> int \<Rightarrow> string option \<Rightarrow> var_record list \<times> nat" where
  "mem_list_live m limit offset now ch =
     page_of limit offset (filter (is_live now) (map snd (case ch of None \<Rightarrow> mv_site m | Some c \<Rightarrow> channel_rows m c)))"

definition mem_var_delete :: "memory_store \<Rightarrow> string \<Rightarrow> int \<Rightarrow> string option \<Rightarrow> bool \<times> memory_store" where
  "mem_var_delete m name now ch =
     (case ch of
        None \<Rightarrow> (live_record now (map_of (mv_site m) name) \<noteq> None, m\<lparr>mv_site := AList.delete name (mv_site m)\<rparr>)
      | Some c \<Rightarrow> (live_record now (map_of (channel_rows m c) name) \<noteq> None,
          m\<lparr>mv_channels := map (\<lambda>(c', rows). (c', if c' = c then AList.delete name rows else rows)) (mv_channels m)\<rparr>))"

definition mem_delete_for_channel :: "memory_store \<Rightarrow> string \<Rightarrow> memory_store" where
  "mem_delete_for_channel m ch = m\<lparr>mv_channels := AList.delete ch (mv_channels m)\<rparr>"

section \<open>The store in PostgreSQL\<close>

type_synonym var_table = "((string option \<times> string) \<times> var_record) list"

text \<open>The type \<open>jsonb\<close>: what is read back of a value that is dumped and cast (the database orders the keys its own
  way, keeps numbers as decimals, and refuses the character \<open>\u0000\<close>: \<open>None\<close>, as for a value \<open>json.dumps\<close> refuses), and its equality.\<close>

record jsonb =
  pg_kept :: "py_value \<Rightarrow> py_value option"
  pg_equal :: "py_value \<Rightarrow> py_value \<Rightarrow> bool"

definition live_sql :: "var_table \<Rightarrow> call \<Rightarrow> var_record option" where
  "live_sql t c = live_record (cl_now c) (map_of t (cl_channel c, cl_name c))"

definition sql_apply :: "jsonb \<Rightarrow> var_table \<Rightarrow> call \<Rightarrow> (var_error + var_result) \<times> var_table" where
  "sql_apply pg t c =
     (let name = cl_name c; key = (cl_channel c, cl_name c) in
      if cl_operation c = ''get'' then (Inr (result_of name (live_sql t c) False), t)
      else if cl_operation c = ''delete'' then (Inr (result_of name None (live_sql t c \<noteq> None)), AList.delete key t)
      else case expires_at (cl_now c) (cl_ttl c) of
        Inl e \<Rightarrow> (Inl e, t)
      | Inr expires \<Rightarrow>
          if cl_operation c \<notin> {''set'', ''set_if_absent'', ''compare_and_set''} then (Inl Unknown_Operation, t)
          else case pg_kept pg (cl_value c) of
            None \<Rightarrow> (Inl Jsonb_Refused, t)
          | Some kept \<Rightarrow>
              (let t' = AList.update key ((saved_record c expires)\<lparr>vr_value := kept\<rparr>) t in
               if cl_operation c = ''set'' then (Inr (result_of name (live_sql t' c) True), t')
               else if cl_operation c = ''set_if_absent''
               then (let updated = (case map_of t key of None \<Rightarrow> True
                                     | Some r \<Rightarrow> (case vr_expires r of None \<Rightarrow> False | Some e \<Rightarrow> e \<le> cl_now c));
                         t1 = (if updated then t' else t)
                     in (Inr (result_of name (live_sql t1 c) updated), t1))
               else case pg_kept pg (cl_expected c) of
                 None \<Rightarrow> (Inl Jsonb_Refused, t)
               | Some expected \<Rightarrow>
                   (let updated = (case map_of t key of None \<Rightarrow> False
                                    | Some r \<Rightarrow> pg_equal pg (vr_value r) expected \<and>
                                        (case vr_expires r of None \<Rightarrow> True | Some e \<Rightarrow> e > cl_now c));
                        t1 = (if updated then t' else t)
                    in (Inr (result_of name (live_sql t1 c) updated), t1))))"

definition sql_list_live :: "var_table \<Rightarrow> nat \<Rightarrow> nat \<Rightarrow> int \<Rightarrow> string option \<Rightarrow> var_record list \<times> nat" where
  "sql_list_live t limit offset now ch = page_of limit offset (filter (is_live now) (map snd (filter (\<lambda>((c, _), _). c = ch) t)))"

definition sql_var_delete :: "var_table \<Rightarrow> string \<Rightarrow> int \<Rightarrow> string option \<Rightarrow> bool \<times> var_table" where
  "sql_var_delete t name now ch =
     (let hit = (\<lambda>(key, r). key = (ch, name) \<and> is_live now r)
      in (\<exists>x \<in> set t. hit x, filter (\<lambda>x. \<not> hit x) t))"

definition sql_delete_for_channel :: "var_table \<Rightarrow> string \<Rightarrow> var_table" where
  "sql_delete_for_channel t ch = filter (\<lambda>((c, _), _). c \<noteq> Some ch) t"

section \<open>The two stores agree\<close>

datatype var_op =
    Op_Apply call
  | Op_List nat nat int "string option"
  | Op_Delete string int "string option"
  | Op_Delete_Channel string

datatype var_answer = Ans_Result "var_error + var_result" | Ans_List "var_record list \<times> nat" | Ans_Bool bool | Ans_Done

definition mem_op :: "memory_store \<Rightarrow> var_op \<Rightarrow> var_answer \<times> memory_store" where
  "mem_op m op =
     (case op of
        Op_Apply c \<Rightarrow> (case mem_apply m c of (r, m') \<Rightarrow> (Ans_Result r, m'))
      | Op_List limit offset now ch \<Rightarrow> (Ans_List (mem_list_live m limit offset now ch), m)
      | Op_Delete name now ch \<Rightarrow> (case mem_var_delete m name now ch of (b, m') \<Rightarrow> (Ans_Bool b, m'))
      | Op_Delete_Channel ch \<Rightarrow> (Ans_Done, mem_delete_for_channel m ch))"

definition sql_op :: "jsonb \<Rightarrow> var_table \<Rightarrow> var_op \<Rightarrow> var_answer \<times> var_table" where
  "sql_op pg t op =
     (case op of
        Op_Apply c \<Rightarrow> (case sql_apply pg t c of (r, t') \<Rightarrow> (Ans_Result r, t'))
      | Op_List limit offset now ch \<Rightarrow> (Ans_List (sql_list_live t limit offset now ch), t)
      | Op_Delete name now ch \<Rightarrow> (case sql_var_delete t name now ch of (b, t') \<Rightarrow> (Ans_Bool b, t'))
      | Op_Delete_Channel ch \<Rightarrow> (Ans_Done, sql_delete_for_channel t ch))"

fun store_answers :: "('s \<Rightarrow> var_op \<Rightarrow> var_answer \<times> 's) \<Rightarrow> 's \<Rightarrow> var_op list \<Rightarrow> var_answer list" where
  "store_answers f s [] = []"
| "store_answers f s (op # ops) = (case f s op of (a, s') \<Rightarrow> a # store_answers f s' ops)"





definition kept_value :: "jsonb \<Rightarrow> py_value \<Rightarrow> py_value" where
  "kept_value pg v = (case pg_kept pg v of None \<Rightarrow> v | Some w \<Rightarrow> w)"


text \<open>An answer with every value as the database gives it back.\<close>

definition kept_record :: "jsonb \<Rightarrow> var_record \<Rightarrow> var_record" where
  "kept_record pg r = r\<lparr>vr_value := kept_value pg (vr_value r)\<rparr>"








lemma kept_simps [simp]: "vr_name (kept_record pg r) = vr_name r" "vr_expires (kept_record pg r) = vr_expires r"
  "vr_updated (kept_record pg r) = vr_updated r" "vr_value (kept_record pg r) = kept_value pg (vr_value r)"
  by (simp_all add: kept_record_def)

lemma live_none [simp]: "live_record now None = None"
  by (simp add: live_record_def)




























definition no_variables :: memory_store where
  "no_variables = \<lparr>mv_site = [], mv_channels = []\<rparr>"


text \<open>A database that tells booleans from numbers, as \<open>jsonb\<close> does, orders the keys of an object by length and then by
  code point, and refuses \<open>\u0000\<close>; it stands for the real one in what follows, down to two levels.\<close>

definition text_kept :: "py_value \<Rightarrow> bool" where
  "text_kept v = (case v of P_Str s \<Rightarrow> CHR 0x00 \<notin> set s | _ \<Rightarrow> True)"

definition sample_jsonb :: jsonb where
  "sample_jsonb =
     \<lparr>pg_kept = (\<lambda>v. case v of
          P_Dict kvs \<Rightarrow> if list_all (\<lambda>(k, w). CHR 0x00 \<notin> set k \<and> text_kept w) kvs
            then Some (P_Dict (sort_key (\<lambda>(k, w). (length k, k)) kvs)) else None
        | _ \<Rightarrow> if text_kept v then Some v else None),
      pg_equal = json_eq\<rparr>"

text \<open>Without the last condition the stores differ: a compare-and-set that expects \<open>true\<close> replaces a stored 1 in memory (and in the
  variables of a run, which use the same code), and does not in the tables.\<close>

definition set_call :: "string \<Rightarrow> py_value \<Rightarrow> py_value \<Rightarrow> call" where
  "set_call op v expected = \<lparr>cl_operation = op, cl_name = ''x'', cl_value = v, cl_expected = expected, cl_ttl = None, cl_now = 0, cl_channel = None\<rparr>"

lemma compare_and_set_diverges:
  "map (\<lambda>a. case a of Ans_Result (Inr r) \<Rightarrow> Some (vs_applied r, vs_value r) | _ \<Rightarrow> None)
     (store_answers mem_op no_variables [Op_Apply (set_call ''set'' (P_Int 1) P_None), Op_Apply (set_call ''compare_and_set'' (P_Int 2) (P_Bool True))]) =
     [Some (True, P_Int 1), Some (True, P_Int 2)] \<and>
   map (\<lambda>a. case a of Ans_Result (Inr r) \<Rightarrow> Some (vs_applied r, vs_value r) | _ \<Rightarrow> None)
     (store_answers (sql_op sample_jsonb) [] [Op_Apply (set_call ''set'' (P_Int 1) P_None), Op_Apply (set_call ''compare_and_set'' (P_Int 2) (P_Bool True))]) =
     [Some (True, P_Int 1), Some (False, P_Int 1)]"
  by code_simp

text \<open>And a text with \<open>\u0000\<close> is kept by the memory and refused by the tables.\<close>

lemma null_character_diverges:
  "map (\<lambda>a. case a of Ans_Result (Inr r) \<Rightarrow> vs_applied r | _ \<Rightarrow> False)
     (store_answers mem_op no_variables [Op_Apply (set_call ''set'' (P_Str [CHR 0x00]) P_None)]) = [True] \<and>
   store_answers (sql_op sample_jsonb) [] [Op_Apply (set_call ''set'' (P_Str [CHR 0x00]) P_None)] = [Ans_Result (Inl Jsonb_Refused)]"
  by code_simp





end
