(* ===== verification/Transform_Nodes.thy ===== *)
theory Transform_Nodes
  imports Channel_Variables
begin

text \<open>
  Node types whose work is on values: Set fields, Deduplicate, Merge, If and Variable (\<open>nodes/transform\<close>,
  \<open>nodes/state/variable.py\<close>), and the rounds of For and Until (\<open>nodes/volume\<close>). A configuration has passed its
  schema: where the code indexes a field or a name that the schema requires, its absence is \<open>Exec_Raised\<close>.
\<close>

type_synonym evaluator = "string \<Rightarrow> template_error + py_value"

section \<open>Set fields\<close>

fun value_schema :: "json \<Rightarrow> json" where
  "value_schema JNull = JObj [(''type'', JStr ''null'')]"
| "value_schema (JBool b) = JObj [(''type'', JStr ''boolean'')]"
| "value_schema (JInt i) = JObj [(''type'', JStr ''integer'')]"
| "value_schema (JFloat r) = JObj [(''type'', JStr ''number'')]"
| "value_schema (JStr s) = JObj [(''type'', JStr ''string'')]"
| "value_schema (JArr xs) = JObj [(''type'', JStr ''array'')]"
| "value_schema (JObj kvs) = JObj [(''type'', JStr ''object''), (''additionalProperties'', JBool False),
     (''properties'', JObj (map (\<lambda>(k, v). (k, value_schema v)) kvs)), (''required'', JArr (map (JStr \<circ> fst) kvs))]"

fun has_sub :: "string \<Rightarrow> string \<Rightarrow> bool" where
  "has_sub p [] = (p = [])"
| "has_sub p (c # cs) = (starts_with (c # cs) p \<or> has_sub p cs)"

definition static_schema :: "template_env \<Rightarrow> json option \<Rightarrow> json option" where
  "static_schema env v =
     (case v of
        Some (JStr src) \<Rightarrow> if has_sub ''{{'' src then None else map_option value_schema (te_loads env src)
      | _ \<Rightarrow> None)"

definition field_schema :: "template_env \<Rightarrow> json option \<Rightarrow> upstream \<Rightarrow> json" where
  "field_schema env v up =
     (case static_schema env v of
        Some s \<Rightarrow> s
      | None \<Rightarrow>
          (case v of
             Some (JStr src) \<Rightarrow> (case schema_at_path env src up of Some s \<Rightarrow> s | None \<Rightarrow> JObj [])
           | _ \<Rightarrow> JObj []))"

definition set_fields_refine :: "template_env \<Rightarrow> json \<Rightarrow> upstream \<Rightarrow> resolver \<Rightarrow> json" where
  "set_fields_refine env config up rs =
     (case get_arr ''fields'' config of
        None \<Rightarrow> JObj [(''main'', JNull)]
      | Some flds \<Rightarrow>
          if \<exists>f \<in> set flds. get_str ''name'' f = None then JObj [(''main'', JNull)]
          else JObj [(''main'', JObj [(''type'', JStr ''object''), (''additionalProperties'', JBool False),
            (''properties'', JObj (py_dict (map (\<lambda>f. (the (get_str ''name'' f), field_schema env (json_get ''value'' f) up)) flds))),
            (''required'', JArr (map (\<lambda>f. JStr (the (get_str ''name'' f))) flds))])])"

text \<open>\<open>main\<close> is the schema the engine sets for the execution, when it has one.\<close>

definition runtime_field_schema :: "json option \<Rightarrow> string \<Rightarrow> json" where
  "runtime_field_schema main name =
     (let found = (case Option.bind main (\<lambda>s. Option.bind (get_obj ''properties'' s) (\<lambda>props. Option.bind (map_of props name) as_obj)) of
                     Some kvs \<Rightarrow> kvs
                   | None \<Rightarrow> (case as_obj any_schema of Some kvs \<Rightarrow> kvs | None \<Rightarrow> []))
      in JObj (AList.update ''x-refraq-json-template'' (JBool True) found))"

fun set_fields_loop :: "template_env \<Rightarrow> evaluator \<Rightarrow> json option \<Rightarrow> json list \<Rightarrow> (string \<times> py_value) list \<Rightarrow> exec_result" where
  "set_fields_loop env ev main [] out = Exec_Ok (P_Dict out) None"
| "set_fields_loop env ev main (f # fs) out =
     (case get_str ''name'' f of
        None \<Rightarrow> Exec_Raised
      | Some name \<Rightarrow>
          exec_bind (render_field env ev (json_get ''value'' f) (runtime_field_schema main name))
            (\<lambda>v. set_fields_loop env ev main fs (AList.update name v out)))"

definition set_fields_execute :: "template_env \<Rightarrow> evaluator \<Rightarrow> json option \<Rightarrow> json \<Rightarrow> exec_result" where
  "set_fields_execute env ev main config =
     (case get_arr ''fields'' config of None \<Rightarrow> Exec_Raised | Some flds \<Rightarrow> set_fields_loop env ev main flds [])"

section \<open>Rows\<close>

definition rows_schema :: "string \<Rightarrow> json \<Rightarrow> json" where
  "rows_schema dropped items =
     JObj [(''type'', JStr ''object''), (''additionalProperties'', JBool False),
       (''required'', JArr (map JStr ([''rows'', ''count''] @ (if dropped = [] then [] else [dropped])))),
       (''properties'', JObj ([(''rows'', items), (''count'', JObj [(''type'', JStr ''integer'')])] @
          (if dropped = [] then [] else [(dropped, JObj [(''type'', JStr ''integer'')])])))]"

definition array_of :: "json \<Rightarrow> json" where
  "array_of item = JObj [(''type'', JStr ''array''), (''items'', item)]"

definition element_schema :: "template_env \<Rightarrow> json option \<Rightarrow> upstream \<Rightarrow> json option" where
  "element_schema env v up =
     (case v of Some (JStr src) \<Rightarrow> Option.bind (schema_at_path env src up) array_item_schema | _ \<Rightarrow> None)"

definition main_rows :: "string \<Rightarrow> json option \<Rightarrow> json" where
  "main_rows dropped item =
     JObj [(''main'', rows_schema dropped (case item of None \<Rightarrow> list_of_objects | Some s \<Rightarrow> array_of s))]"

definition list_rows :: "py_value \<Rightarrow> py_value list" where
  "list_rows v = (case v of P_List xs \<Rightarrow> xs | _ \<Rightarrow> [])"

definition row_get :: "string \<Rightarrow> py_value \<Rightarrow> py_value" where
  "row_get key row = (case row of P_Dict kvs \<Rightarrow> (case map_of kvs key of Some v \<Rightarrow> v | None \<Rightarrow> P_None) | _ \<Rightarrow> P_None)"

definition rows_output :: "py_value list \<Rightarrow> string \<Rightarrow> nat \<Rightarrow> py_value" where
  "rows_output rows dropped n =
     P_Dict ([(''rows'', P_List rows), (''count'', P_Int (int (length rows)))] @
       (if dropped = [] then [] else [(dropped, P_Int (int n))]))"

subsection \<open>Deduplicate\<close>

definition deduplicate_refine :: "template_env \<Rightarrow> json \<Rightarrow> upstream \<Rightarrow> resolver \<Rightarrow> json" where
  "deduplicate_refine env config up rs = main_rows ''removed'' (element_schema env (json_get ''items'' config) up)"

definition row_token :: "template_env \<Rightarrow> string list \<Rightarrow> py_value \<Rightarrow> template_error + string" where
  "row_token env keys row = canonical_json env (P_List (map (\<lambda>key. row_get key row) keys))"

fun keep_first :: "('a \<Rightarrow> 'e + 'k) \<Rightarrow> 'k set \<Rightarrow> 'a list \<Rightarrow> 'e + 'a list" where
  "keep_first token seen [] = Inr []"
| "keep_first token seen (x # xs) =
     ok_bind (token x) (\<lambda>k. if k \<in> seen then keep_first token seen xs
       else ok_bind (keep_first token (insert k seen) xs) (\<lambda>ys. Inr (x # ys)))"

definition deduplicate_execute :: "template_env \<Rightarrow> evaluator \<Rightarrow> json \<Rightarrow> exec_result" where
  "deduplicate_execute env ev config =
     exec_bind (render_field env ev (json_get ''items'' config) list_of_objects) (\<lambda>items.
       if length (list_rows items) > item_limit then limit_failed
       else case get_arr ''keys'' config of
              None \<Rightarrow> Exec_Raised
            | Some keys \<Rightarrow>
                (case keep_first (row_token env (List.map_filter as_str keys)) {} (list_rows items) of
                   Inl _ \<Rightarrow> Exec_Raised
                 | Inr kept \<Rightarrow> Exec_Ok (rows_output kept ''removed'' (length (list_rows items) - length kept)) None))"

subsection \<open>Merge\<close>

definition object_kind :: "json \<Rightarrow> bool" where
  "object_kind schema =
     (case json_get ''type'' schema of Some (JStr s) \<Rightarrow> s = ''object'' | Some (JArr xs) \<Rightarrow> JStr ''object'' \<in> set xs | _ \<Rightarrow> False)"

definition union_property :: "(string \<times> json) list \<Rightarrow> string \<times> json \<Rightarrow> (string \<times> json) list" where
  "union_property props p =
     (case p of (key, sub) \<Rightarrow>
        if \<not> is_obj sub then props
        else (case map_of props key of
                None \<Rightarrow> AList.update key sub props
              | Some current \<Rightarrow> if py_eq (of_json current) (of_json sub) then props else AList.update key (JObj []) props))"

definition union_properties :: "json list \<Rightarrow> (string \<times> json) list" where
  "union_properties elements =
     foldl union_property [] (concat (map (\<lambda>e. case get_obj ''properties'' e of None \<Rightarrow> [] | Some kvs \<Rightarrow> kvs) elements))"

definition merge_refine :: "template_env \<Rightarrow> json \<Rightarrow> upstream \<Rightarrow> resolver \<Rightarrow> json" where
  "merge_refine env config up rs =
     (case get_arr ''inputs'' config of
        None \<Rightarrow> main_rows [] None
      | Some inputs \<Rightarrow>
          (let items = List.map_filter (\<lambda>v. element_schema env (Some v) up) inputs;
               props = union_properties items
           in if (\<exists>item \<in> set items. \<not> object_kind item) \<or> props = [] then main_rows [] None
              else main_rows [] (Some (JObj [(''type'', JStr ''object''), (''properties'', JObj props)]))))"

definition dict_items :: "py_value \<Rightarrow> (string \<times> py_value) list" where
  "dict_items v = (case v of P_Dict kvs \<Rightarrow> kvs | _ \<Rightarrow> [])"

text \<open>\<open>{**left, **right}\<close> and \<open>update\<close>.\<close>

definition dict_merge :: "(string \<times> py_value) list \<Rightarrow> (string \<times> py_value) list \<Rightarrow> (string \<times> py_value) list" where
  "dict_merge l r = foldl (\<lambda>d (k, v). AList.update k v d) l r"

definition key_token :: "template_env \<Rightarrow> string \<Rightarrow> py_value \<Rightarrow> template_error + string option" where
  "key_token env key row =
     (case row_get key row of P_None \<Rightarrow> Inr None | v \<Rightarrow> ok_bind (canonical_json env v) (\<lambda>t. Inr (Some t)))"

definition bucket_index :: "string option list \<Rightarrow> (string \<times> nat list) list" where
  "bucket_index tokens =
     dict_group (List.map_filter (\<lambda>(i, t). map_option (\<lambda>k. (k, i)) t) (enumerate 0 tokens)) []"

definition hits_of :: "(string \<times> nat list) list \<Rightarrow> string option \<Rightarrow> nat list" where
  "hits_of buckets t = (case t of None \<Rightarrow> [] | Some k \<Rightarrow> dict_get_list buckets k)"

definition merge_by_key :: "template_env \<Rightarrow> string \<Rightarrow> string \<Rightarrow> py_value list \<Rightarrow> py_value list \<Rightarrow> template_error + py_value list" where
  "merge_by_key env key how left right =
     ok_bind (map_ok (key_token env key) right) (\<lambda>rts.
     ok_bind (map_ok (key_token env key) left) (\<lambda>lts.
       let buckets = bucket_index rts;
           rows = concat (map (\<lambda>(l, t).
             let hits = hits_of buckets t in
             if hits \<noteq> [] then map (\<lambda>i. P_Dict (dict_merge (dict_items l) (dict_items (right ! i)))) hits
             else if how = ''left'' \<or> how = ''full'' then [l] else []) (zip left lts));
           matched = concat (map (hits_of buckets) lts);
           rest = (if how = ''full'' then map snd (filter (\<lambda>(i, _). i \<notin> set matched) (enumerate 0 right)) else [])
       in Inr (rows @ rest)))"

fun fold_ok :: "('a \<Rightarrow> 'b \<Rightarrow> 'e + 'a) \<Rightarrow> 'a \<Rightarrow> 'b list \<Rightarrow> 'e + 'a" where
  "fold_ok f acc [] = Inr acc"
| "fold_ok f acc (x # xs) = ok_bind (f acc x) (\<lambda>acc'. fold_ok f acc' xs)"

definition merge_by_position :: "string \<Rightarrow> py_value list list \<Rightarrow> py_value list" where
  "merge_by_position how groups =
     (let lengths = map length groups;
          width = (if how = ''left'' then hd lengths else if how = ''full'' then Max (set lengths) else Min (set lengths))
      in map (\<lambda>i. P_Dict (foldl (\<lambda>d g. if i < length g then dict_merge d (dict_items (g ! i)) else d) [] groups)) [0..<width])"

fun merge_groups :: "template_env \<Rightarrow> evaluator \<Rightarrow> json list \<Rightarrow> exec_result + py_value list list" where
  "merge_groups env ev [] = Inr []"
| "merge_groups env ev (v # vs) =
     (case render_field env ev (Some v) list_of_objects of
        Inl failed \<Rightarrow> Inl failed
      | Inr rows \<Rightarrow>
          if length (list_rows rows) > item_limit then Inl limit_failed
          else ok_bind (merge_groups env ev vs) (\<lambda>gs. Inr (list_rows rows # gs)))"

definition merge_rows :: "template_env \<Rightarrow> string \<Rightarrow> string \<Rightarrow> string option \<Rightarrow> py_value list list \<Rightarrow> exec_result + py_value list" where
  "merge_rows env mode how key groups =
     (if mode = ''append'' then Inr (concat groups)
      else if mode = ''by_position'' then Inr (merge_by_position how groups)
      else (case key of
              Some (c # cs) \<Rightarrow>
                (case fold_ok (merge_by_key env (c # cs) how) (hd groups) (tl groups) of
                   Inl _ \<Rightarrow> Inl Exec_Raised | Inr rows \<Rightarrow> Inr rows)
            | _ \<Rightarrow> Inl (Exec_Failed ''CHANNEL_NODE_FAILED'' ''Merge by_key requires a key'' [] None)))"

definition merge_execute :: "template_env \<Rightarrow> evaluator \<Rightarrow> json \<Rightarrow> exec_result" where
  "merge_execute env ev config =
     (case (get_arr ''inputs'' config, get_str ''mode'' config) of
        (Some inputs, Some mode) \<Rightarrow>
          exec_bind (merge_groups env ev inputs) (\<lambda>groups.
            if groups = [] then Exec_Raised
            else (let how = (case get_str ''join'' config of Some (c # cs) \<Rightarrow> c # cs | _ \<Rightarrow> ''inner'') in
              exec_bind (merge_rows env mode how (get_str ''key'' config) groups) (\<lambda>rows.
                if length rows > item_limit then limit_failed else Exec_Ok (rows_output rows [] 0) None)))
      | _ \<Rightarrow> Exec_Raised)"

section \<open>If and Variable\<close>

definition boolean_schema :: json where "boolean_schema = JObj [(''type'', JStr ''boolean'')]"

definition if_refine :: "json \<Rightarrow> upstream \<Rightarrow> resolver \<Rightarrow> json" where
  "if_refine config up rs =
     (let s = JObj [(''type'', JStr ''object''), (''additionalProperties'', JBool False), (''required'', JArr [JStr ''value'']),
                (''properties'', JObj [(''value'', boolean_schema)])]
      in JObj [(''true'', s), (''false'', s)])"

definition if_execute :: "template_env \<Rightarrow> evaluator \<Rightarrow> json \<Rightarrow> exec_result" where
  "if_execute env ev config =
     exec_bind (render_field env ev (json_get ''condition'' config) boolean_schema) (\<lambda>v.
       Exec_Ok (P_Dict [(''value'', v)]) (Some [if v = P_Bool True then ''true'' else ''false'']))"

text \<open>The bytes of the compact JSON text.\<close>

definition utf8_length :: "string \<Rightarrow> nat" where
  "utf8_length s = (\<Sum>c\<leftarrow>s. if of_char c < (128 :: nat) then 1 else 2)"

definition value_size :: "template_env \<Rightarrow> py_value \<Rightarrow> template_error + nat" where
  "value_size env v = ok_bind (json_text Compact (te_float env) v) (\<lambda>t. Inr (utf8_length t))"

definition value_max_bytes :: nat where "value_max_bytes = 64 * 1024"

lemma value_max_int [code_unfold]: "value_max_bytes < n \<longleftrightarrow> (65536 :: int) < int n"
  by (simp add: value_max_bytes_def)

definition var_failed :: "string \<Rightarrow> exec_result" where
  "var_failed message = Exec_Failed ''CHANNEL_NODE_FAILED'' message [] None"

definition variable_scope :: "json \<Rightarrow> string option" where
  "variable_scope config =
     (case json_get ''scope'' config of
        None \<Rightarrow> Some ''site''
      | Some (JStr s) \<Rightarrow> if s \<in> {''site'', ''channel'', ''run''} then Some s else None
      | _ \<Rightarrow> None)"

record variables =
  vb_run :: rows
  vb_store :: memory_store

definition var_output :: "(int \<Rightarrow> string) \<Rightarrow> var_result \<Rightarrow> py_value" where
  "var_output instant r =
     P_Dict [(''name'', P_Str (vs_name r)), (''found'', P_Bool (vs_found r)), (''value'', vs_value r), (''applied'', P_Bool (vs_applied r)),
       (''expires_at'', case vs_expires r of None \<Rightarrow> P_None | Some e \<Rightarrow> P_Str (instant e))]"

definition variable_call :: "json \<Rightarrow> string \<Rightarrow> string \<Rightarrow> py_value \<Rightarrow> py_value \<Rightarrow> string option \<Rightarrow> int \<Rightarrow> call" where
  "variable_call config op name v expected channel now =
     \<lparr>cl_operation = op, cl_name = name, cl_value = v, cl_expected = expected,
      cl_ttl = (if op \<in> {''set'', ''set_if_absent'', ''compare_and_set''} then (case json_get ''ttl_sec'' config of Some (JInt i) \<Rightarrow> Some i | _ \<Rightarrow> None) else None),
      cl_now = now, cl_channel = channel\<rparr>"

definition variable_execute ::
  "template_env \<Rightarrow> evaluator \<Rightarrow> (int \<Rightarrow> string) \<Rightarrow> string \<Rightarrow> int \<Rightarrow> json \<Rightarrow> variables \<Rightarrow> exec_result \<times> variables" where
  "variable_execute env ev instant channel now config vars =
     (case variable_scope config of
        None \<Rightarrow> (var_failed ''Variable scope is invalid'', vars)
      | Some scope \<Rightarrow>
          if scope = ''run'' \<and> (case json_get ''ttl_sec'' config of None \<Rightarrow> False | Some j \<Rightarrow> j \<noteq> JNull)
          then (var_failed ''Variable expiry is not valid for this run'', vars)
          else (let op = (case get_str ''operation'' config of None \<Rightarrow> [] | Some s \<Rightarrow> s);
                    writes = op \<in> {''set'', ''set_if_absent'', ''compare_and_set''} in
            case render_field env ev (json_get ''name'' config) (JObj [(''type'', JStr ''string'')]) of
              Inl failed \<Rightarrow> (failed, vars)
            | Inr (P_Str name) \<Rightarrow>
                if \<not> valid_name name then (var_failed ''Variable name is invalid'', vars)
                else (case (if writes then render_field env ev (json_get ''value'' config) any_schema else Inr P_None) of
                  Inl failed \<Rightarrow> (failed, vars)
                | Inr v \<Rightarrow>
                    (case (if writes then value_size env v else Inr 0) of
                       Inl _ \<Rightarrow> (Exec_Raised, vars)
                     | Inr bytes \<Rightarrow>
                         if bytes > value_max_bytes then (Exec_Failed ''CHANNEL_VARIABLE_TOO_LARGE'' ''Variable value exceeds 64 KiB'' [] None, vars)
                         else (case (if op = ''compare_and_set'' then render_field env ev (json_get ''expected'' config) any_schema else Inr P_None) of
                             Inl failed \<Rightarrow> (failed, vars)
                           | Inr expected \<Rightarrow>
                               (let c = variable_call config op name v expected (if scope = ''channel'' then Some channel else None) now in
                                if scope = ''run''
                                then (case apply_records (vb_run vars) c of
                                        (Inl _, _) \<Rightarrow> (Exec_Raised, vars)
                                      | (Inr r, rows) \<Rightarrow> (Exec_Ok (var_output instant r) None, vars\<lparr>vb_run := rows\<rparr>))
                                else (case mem_apply (vb_store vars) c of
                                        (Inl _, _) \<Rightarrow> (Exec_Raised, vars)
                                      | (Inr r, m) \<Rightarrow> (Exec_Ok (var_output instant r) None, vars\<lparr>vb_store := m\<rparr>))))))
            | Inr _ \<Rightarrow> (Exec_Raised, vars)))"

section \<open>For and Until\<close>

text \<open>\<open>body\<close> runs a round in the state of the run; \<open>None\<close> is an exception that ends the container.\<close>

type_synonym 's rounds = "py_value \<Rightarrow> py_value \<Rightarrow> 's \<Rightarrow> py_value option \<times> 's"

definition volume_max_bytes :: nat where "volume_max_bytes = 16 * 1024 * 1024"

lemma volume_max_int [code_unfold]: "volume_max_bytes < n \<longleftrightarrow> (16777216 :: int) < int n"
  by (simp add: volume_max_bytes_def)

definition for_step :: "py_value \<Rightarrow> nat \<Rightarrow> nat \<Rightarrow> py_value" where
  "for_step item i n = P_Dict [(''current'', item), (''index'', P_Int (int i)), (''count'', P_Int (int n))]"

fun for_rounds :: "template_env \<Rightarrow> 's rounds \<Rightarrow> nat \<Rightarrow> nat \<Rightarrow> py_value list \<Rightarrow> py_value list \<Rightarrow> 's \<Rightarrow> (exec_result + py_value list) \<times> 's" where
  "for_rounds env body n i [] collected s = (Inr collected, s)"
| "for_rounds env body n i (x # xs) collected s =
     (case body (for_step x i n) (for_step x i n) s of
        (None, s') \<Rightarrow> (Inl Exec_Raised, s')
      | (Some out, s') \<Rightarrow>
          (case value_size env (P_List (collected @ [out])) of
             Inl _ \<Rightarrow> (Inl Exec_Raised, s')
           | Inr bytes \<Rightarrow>
               if bytes > volume_max_bytes
               then (Inl (Exec_Failed ''CHANNEL_ITERATION_VOLUME_EXCEEDED'' ''For iteration output exceeds 16 MiB. Read the items in batches.'' [] None), s')
               else for_rounds env body n (Suc i) xs (collected @ [out]) s'))"

definition for_run :: "template_env \<Rightarrow> evaluator \<Rightarrow> 's rounds \<Rightarrow> json \<Rightarrow> 's \<Rightarrow> exec_result \<times> 's" where
  "for_run env ev body config s =
     (case render_field env ev (json_get ''items'' config) (JObj [(''type'', JStr ''array'')]) of
        Inl failed \<Rightarrow> (failed, s)
      | Inr v \<Rightarrow>
          (let items = list_rows v; n = length items in
           if n > item_limit then (limit_failed, s)
           else case for_rounds env body n 0 items [] s of
                  (Inl failed, s') \<Rightarrow> (failed, s')
                | (Inr collected, s') \<Rightarrow>
                    (Exec_Ok (P_Dict [(''current'', if items = [] then P_None else last items),
                        (''index'', if items = [] then P_None else P_Int (int n - 1)),
                        (''count'', P_Int (int n)), (''iterations'', P_List collected)]) (Some [''done'']), s')))"

definition index_schema :: json where "index_schema = JObj [(''type'', JArr [JStr ''integer'', JStr ''null''])]"

definition integer_schema :: json where "integer_schema = JObj [(''type'', JStr ''integer'')]"

definition closed_object :: "(string \<times> json) list \<Rightarrow> json" where
  "closed_object props =
     JObj [(''type'', JStr ''object''), (''additionalProperties'', JBool False),
       (''required'', JArr (map (JStr \<circ> fst) props)), (''properties'', JObj props)]"

definition for_each :: "json \<Rightarrow> json" where
  "for_each current = closed_object [(''current'', current), (''index'', index_schema), (''count'', integer_schema)]"

definition for_done :: "json \<Rightarrow> json" where
  "for_done current = closed_object [(''current'', current), (''index'', index_schema), (''count'', integer_schema),
     (''iterations'', JObj [(''type'', JStr ''array'')])]"

definition nullable_schema :: "json \<Rightarrow> json" where
  "nullable_schema schema =
     (case schema of
        JObj kvs \<Rightarrow>
          (case map_of kvs ''type'' of
             Some (JStr kind) \<Rightarrow> if kind = ''null'' then schema else JObj (AList.update ''type'' (JArr [JStr kind, JStr ''null'']) kvs)
           | Some (JArr kinds) \<Rightarrow> if JStr ''null'' \<in> set kinds then schema else JObj (AList.update ''type'' (JArr (kinds @ [JStr ''null''])) kvs)
           | _ \<Rightarrow> schema)
      | _ \<Rightarrow> schema)"

definition for_refine :: "template_env \<Rightarrow> json \<Rightarrow> upstream \<Rightarrow> resolver \<Rightarrow> json" where
  "for_refine env config up rs =
     (case element_schema env (json_get ''items'' config) up of
        None \<Rightarrow> JObj [(''each'', for_each any_schema), (''done'', for_done any_schema)]
      | Some item \<Rightarrow> JObj [(''each'', for_each item), (''done'', for_done (nullable_schema item))])"

definition max_iterations :: "json \<Rightarrow> nat option" where
  "max_iterations config =
     (case json_get ''max_iterations'' config of
        Some (JInt i) \<Rightarrow> if i < 1 \<or> i > int item_limit then None else Some (nat i)
      | _ \<Rightarrow> None)"

definition any_object :: json where "any_object = JObj [(''type'', JArr [JStr ''object'', JStr ''null''])]"

definition until_refine :: "json \<Rightarrow> upstream \<Rightarrow> resolver \<Rightarrow> json" where
  "until_refine config up rs =
     JObj [(''each'', closed_object [(''previous'', any_object), (''index'', integer_schema)]),
       (''done'', closed_object [(''index'', integer_schema), (''count'', integer_schema), (''last'', any_object)])]"

text \<open>\<open>check\<close> evaluates the until template after a round.\<close>

fun until_rounds ::
  "'s rounds \<Rightarrow> ('s \<Rightarrow> (exec_result + py_value) \<times> 's) \<Rightarrow> nat \<Rightarrow> nat \<Rightarrow> py_value \<Rightarrow> py_value \<Rightarrow> 's \<Rightarrow> exec_result \<times> 's" where
  "until_rounds body check 0 i previous last_out s =
     (Exec_Failed ''CHANNEL_UNTIL_MAX_ITERATIONS'' ''Until reached max_iterations before its condition became true.'' []
        (Some (P_Dict [(''index'', P_Int (int i - 1)), (''count'', P_Int (int i)), (''last'', last_out)])), s)"
| "until_rounds body check (Suc k) i previous last_out s =
     (case body (P_Dict [(''previous'', previous), (''index'', P_Int (int i))]) (P_Dict [(''index'', P_Int (int i))]) s of
        (None, s') \<Rightarrow> (Exec_Raised, s')
      | (Some out, s') \<Rightarrow>
          (case check s' of
             (Inl failed, s2) \<Rightarrow> (failed, s2)
           | (Inr v, s2) \<Rightarrow>
               if v = P_Bool True
               then (Exec_Ok (P_Dict [(''index'', P_Int (int i)), (''count'', P_Int (int i + 1)), (''last'', out)]) (Some [''done'']), s2)
               else until_rounds body check k (Suc i) out out s2))"

definition until_run :: "'s rounds \<Rightarrow> ('s \<Rightarrow> (exec_result + py_value) \<times> 's) \<Rightarrow> json \<Rightarrow> 's \<Rightarrow> exec_result \<times> 's" where
  "until_run body check config s =
     (case max_iterations config of
        None \<Rightarrow> (Exec_Failed ''CHANNEL_NODE_CONFIG_INVALID'' ''max_iterations must be an integer from 1 through 100000'' [] None, s)
      | Some cap \<Rightarrow> until_rounds body check cap 0 P_None (P_Dict []) s)"

end
