(* ===== verification/Merge_Spec.thy ===== *)
theory Merge_Spec
  imports Transform_Nodes
begin

text \<open>
  Merge by key: the loop over the buckets of the right rows is the nested loop over both lists.
\<close>

text \<open>Two rows join when both have the key, not null, with the same canonical value.\<close>

definition joins :: "template_env \<Rightarrow> string \<Rightarrow> py_value \<Rightarrow> py_value \<Rightarrow> bool" where
  "joins env key l r \<longleftrightarrow> (case (key_token env key l, key_token env key r) of (Inr (Some a), Inr (Some b)) \<Rightarrow> a = b | _ \<Rightarrow> False)"

definition nested_join :: "template_env \<Rightarrow> string \<Rightarrow> string \<Rightarrow> py_value list \<Rightarrow> py_value list \<Rightarrow> py_value list" where
  "nested_join env key how left right =
     concat (map (\<lambda>l. let hits = filter (joins env key l) right in
       if hits \<noteq> [] then map (\<lambda>r. P_Dict (dict_merge (dict_items l) (dict_items r))) hits
       else if how = ''left'' \<or> how = ''full'' then [l] else []) left) @
     (if how = ''full'' then filter (\<lambda>r. \<not> (\<exists>l \<in> set left. joins env key l r)) right else [])"

lemma map_ok_all: "map_ok f xs = Inr ys \<Longrightarrow> ys = map (\<lambda>x. projr (f x)) xs \<and> (\<forall>x \<in> set xs. f x = Inr (projr (f x)))"
  by (induction xs arbitrary: ys) (auto simp: opt_simps)

lemma hits_indices: "hits_of (bucket_index (map tok xs)) t =
    (case t of None \<Rightarrow> [] | Some k \<Rightarrow> map fst (filter (\<lambda>(i, x). tok x = Some k) (enumerate 0 xs)))"
proof -
  have "map snd (filter (\<lambda>kv. fst kv = k) (List.map_filter (\<lambda>(i, t). map_option (\<lambda>k. (k, i)) t) (enumerate n (map tok xs)))) =
      map fst (filter (\<lambda>(i, x). tok x = Some k) (enumerate n xs))" for n k
    by (induction xs arbitrary: n) (auto simp: List.map_filter_def split: option.splits)
  then show ?thesis by (simp add: hits_of_def bucket_index_def dict_simps split: option.split)
qed

lemma filter_enumerate: "map (\<lambda>i. xs ! i) (map fst (filter (\<lambda>(i, x). P x) (enumerate 0 xs))) = filter P xs"
proof -
  have "map (\<lambda>i. f i) (map fst (filter (\<lambda>(i, x). P x) (enumerate n xs))) = filter P xs"
    if "\<And>i. i < length xs \<Longrightarrow> f (n + i) = xs ! i" for f n
    using that
  proof (induction xs arbitrary: n)
    case (Cons x xs)
    have "f n = x" using Cons.prems [of 0] by simp
    moreover have "f (Suc n + i) = xs ! i" if "i < length xs" for i using Cons.prems [of "Suc i"] that by simp
    then have "map (\<lambda>i. f i) (map fst (filter (\<lambda>(i, x). P x) (enumerate (Suc n) xs))) = filter P xs" using Cons.IH by blast
    ultimately show ?case by simp
  qed simp
  from this [of "\<lambda>i. xs ! i" 0] show ?thesis by simp
qed

lemma snd_enumerate_filter: "map snd (filter (\<lambda>(i, y). P y) (enumerate n ys)) = filter P ys"
  by (induction ys arbitrary: n) auto

text \<open>The bucket of a token: the rows of that token, in order.\<close>

lemma hits_rows:
  assumes "\<And>y. y \<in> set ys \<Longrightarrow> P y \<longleftrightarrow> (\<exists>k. t = Some k \<and> tok y = Some k)"
  shows "map (\<lambda>i. ys ! i) (hits_of (bucket_index (map tok ys)) t) = filter P ys"
proof (cases t)
  case None
  then show ?thesis using assms by (simp add: hits_of_def filter_empty_conv)
next
  case (Some k)
  have "map (\<lambda>i. ys ! i) (hits_of (bucket_index (map tok ys)) t) = filter (\<lambda>y. tok y = Some k) ys"
    using filter_enumerate [of ys "\<lambda>y. tok y = Some k"] by (simp add: hits_indices Some)
  also have "\<dots> = filter P ys" using assms Some by (intro filter_cong) auto
  finally show ?thesis .
qed

lemma hits_member:
  assumes "i < length ys" and "P (ys ! i) \<longleftrightarrow> (\<exists>k. t = Some k \<and> tok (ys ! i) = Some k)"
  shows "i \<in> set (hits_of (bucket_index (map tok ys)) t) \<longleftrightarrow> P (ys ! i)"
  using assms by (auto simp: hits_indices in_set_enumerate_eq split: option.splits intro!: image_eqI [of _ fst "(i, ys ! i)"])

text \<open>The right rows no bucket was taken for.\<close>

lemma unmatched_rows:
  assumes "\<And>i. i < length ys \<Longrightarrow> i \<in> M \<longleftrightarrow> Q (ys ! i)"
  shows "map snd (filter (\<lambda>(i, _). i \<notin> M) (enumerate 0 ys)) = filter (\<lambda>y. \<not> Q y) ys"
proof -
  have "filter (\<lambda>(i, _). i \<notin> M) (enumerate 0 ys) = filter (\<lambda>(i, y). \<not> Q y) (enumerate 0 ys)"
  proof (intro filter_cong refl)
    fix p assume "p \<in> set (enumerate 0 ys)"
    then have "fst p < length ys" "snd p = ys ! fst p" by (auto simp: in_set_enumerate_eq)
    then show "(case p of (i, _) \<Rightarrow> i \<notin> M) = (case p of (i, y) \<Rightarrow> \<not> Q y)" using assms [of "fst p"] by (simp only: case_prod_beta)
  qed
  then show ?thesis by (simp only: snd_enumerate_filter)
qed

text \<open>C40: merging two lists by a key is the nested-loop join of them, row for row in the same order: each left row with every right
  row of the same key, an unmatched left row alone in a left or full join, and at the end the unmatched right rows in a
  full join.\<close>
theorem merge_is_join:
  assumes "merge_by_key env key how left right = Inr rows"
  shows "rows = nested_join env key how left right"
proof -
  define tok where "tok = (\<lambda>x. projr (key_token env key x))"
  obtain rts lts where ts: "map_ok (key_token env key) right = Inr rts" "map_ok (key_token env key) left = Inr lts"
    using assms by (auto simp: merge_by_key_def ok_bind_Inr)
  have r: "rts = map tok right" "\<And>x. x \<in> set right \<Longrightarrow> key_token env key x = Inr (tok x)"
    using map_ok_all [OF ts(1)] by (auto simp: tok_def)
  have l: "lts = map tok left" "\<And>x. x \<in> set left \<Longrightarrow> key_token env key x = Inr (tok x)"
    using map_ok_all [OF ts(2)] by (auto simp: tok_def)
  have j: "joins env key x y \<longleftrightarrow> (\<exists>k. tok x = Some k \<and> tok y = Some k)" if "x \<in> set left" "y \<in> set right" for x y
    using l(2) [OF that(1)] r(2) [OF that(2)] by (auto simp: joins_def split: option.splits)
  let ?hits = "\<lambda>x. hits_of (bucket_index rts) (tok x)"
  have hits: "map (\<lambda>i. right ! i) (?hits x) = filter (joins env key x) right" if "x \<in> set left" for x
    unfolding r(1) by (rule hits_rows) (rule j [OF that])
  have some: "?hits x = [] \<longleftrightarrow> filter (joins env key x) right = []" if "x \<in> set left" for x
    using hits [OF that] by (metis map_is_Nil_conv)
  have pairs: "map (\<lambda>i. P_Dict (dict_merge (dict_items x) (dict_items (right ! i)))) (?hits x) =
      map (\<lambda>y. P_Dict (dict_merge (dict_items x) (dict_items y))) (filter (joins env key x) right)" if "x \<in> set left" for x
    unfolding hits [OF that, symmetric] by simp
  have "i \<in> set (concat (map (hits_of (bucket_index rts)) lts)) \<longleftrightarrow> (\<exists>x \<in> set left. joins env key x (right ! i))"
    if i: "i < length right" for i
  proof -
    have "i \<in> set (?hits x) \<longleftrightarrow> joins env key x (right ! i)" if "x \<in> set left" for x
      unfolding r(1) by (rule hits_member [OF i]) (rule j [OF that nth_mem [OF i]])
    then show ?thesis by (simp add: l(1))
  qed
  then have rest: "map snd (filter (\<lambda>(i, _). i \<notin> set (concat (map (hits_of (bucket_index rts)) lts))) (enumerate 0 right)) =
      filter (\<lambda>y. \<not> (\<exists>x \<in> set left. joins env key x y)) right"
    by (rule unmatched_rows)
  have zip: "zip left lts = map (\<lambda>x. (x, tok x)) left" by (simp add: l(1) zip_map2 zip_same_conv_map)
  have rows: "rows = concat (map (\<lambda>x. if ?hits x \<noteq> [] then map (\<lambda>i. P_Dict (dict_merge (dict_items x) (dict_items (right ! i)))) (?hits x)
        else if how = ''left'' \<or> how = ''full'' then [x] else []) left) @
      (if how = ''full'' then map snd (filter (\<lambda>(i, _). i \<notin> set (concat (map (hits_of (bucket_index rts)) lts))) (enumerate 0 right)) else [])"
    using assms by (simp add: merge_by_key_def ts zip Let_def comp_def)
  show ?thesis unfolding rows nested_join_def Let_def
    by (intro arg_cong2 [where f = append] arg_cong [where f = concat] map_cong refl) (simp add: some pairs, simp only: rest)
qed

section \<open>An example\<close>

definition plain_env :: template_env where
  "plain_env = \<lparr>te_ast = (\<lambda>_. None), te_loads = (\<lambda>_. None), te_float = (\<lambda>_. ''0.5'')\<rparr>"

definition demo_left :: "py_value list" where
  "demo_left = [P_Dict [(''id'', P_Int 1), (''a'', P_Str ''x'')], P_Dict [(''id'', P_None)], P_Dict [(''id'', P_Int 2)]]"

definition demo_right :: "py_value list" where
  "demo_right = [P_Dict [(''id'', P_Int 1), (''b'', P_Str ''y'')], P_Dict [(''id'', P_Int 3)], P_Dict [(''id'', P_Int 1)]]"

definition demo_merged :: "py_value list" where
  "demo_merged = [P_Dict [(''id'', P_Int 1), (''a'', P_Str ''x''), (''b'', P_Str ''y'')], P_Dict [(''id'', P_Int 1), (''a'', P_Str ''x'')],
     P_Dict [(''id'', P_None)], P_Dict [(''id'', P_Int 2)], P_Dict [(''id'', P_Int 3)]]"

lemma demo_merge: "merge_by_key plain_env ''id'' ''full'' demo_left demo_right = Inr demo_merged"
  by code_simp

lemma merge_is_join_witness: "demo_merged = nested_join plain_env ''id'' ''full'' demo_left demo_right"
  using merge_is_join [OF demo_merge] .

end
