(* ===== verification/Filter_Node.thy ===== *)
theory Filter_Node
  imports Transform_Nodes
begin

text \<open>
  The Filter node (\<open>channel/nodes/transform/filter.py\<close>) with its temporal comparison, and \<open>temporal_declaration\<close> of
  \<open>channel/values.py\<close>. \<open>fromisoformat\<close> of the standard library is a parameter; a date is a day number, a time the
  microseconds of a day, an offset microseconds. The facts a refinement remembers for an execution are an argument.
\<close>

section \<open>Temporal values\<close>

record iso_parsers =
  ip_date :: "string \<Rightarrow> int option"
  ip_time :: "string \<Rightarrow> (int \<times> int option) option"
  ip_datetime :: "string \<Rightarrow> (int \<times> int option) option"

definition temporal_kinds :: "string list" where
  "temporal_kinds = [''date'', ''time'', ''time_with_offset'', ''local_datetime'', ''timestamp_with_time_zone'',
     ''timestamp_with_local_time_zone'', ''interval'', ''interval_calendar'', ''interval_fixed'']"

type_synonym side = "string \<times> int option"

definition declared_precision :: "json option \<Rightarrow> int option" where
  "declared_precision v = (case v of Some (JInt i) \<Rightarrow> if i < 0 then None else Some i | _ \<Rightarrow> None)"

definition temporal_declaration :: "json \<Rightarrow> side option" where
  "temporal_declaration column =
     (case get_str ''temporal_kind'' column of
        None \<Rightarrow> None
      | Some kind \<Rightarrow> if kind \<in> set temporal_kinds then Some (kind, declared_precision (json_get ''precision'' column)) else None)"

definition side_of :: "json option \<Rightarrow> side option" where
  "side_of schema = (case schema of Some (JObj kvs) \<Rightarrow> temporal_declaration (JObj kvs) | _ \<Rightarrow> None)"

record filter_facts =
  ff_columns :: "(string \<times> side) list"
  ff_rights :: "side option list"

definition condition_side :: "template_env \<Rightarrow> upstream \<Rightarrow> json \<Rightarrow> side option" where
  "condition_side env up condition =
     (let schema = Option.bind (get_str ''value'' condition) (\<lambda>src. schema_at_path env src up)
      in case side_of schema of Some s \<Rightarrow> Some s | None \<Rightarrow> side_of (Option.bind schema array_item_schema))"

definition filter_facts_of :: "template_env \<Rightarrow> json option \<Rightarrow> json \<Rightarrow> upstream \<Rightarrow> filter_facts" where
  "filter_facts_of env element config up =
     \<lparr>ff_columns = (case Option.bind element (get_obj ''properties'') of
        None \<Rightarrow> []
      | Some props \<Rightarrow> List.map_filter (\<lambda>(name, schema). map_option (\<lambda>s. (name, s)) (side_of (Some schema))) props),
      ff_rights = (case get_arr ''conditions'' config of None \<Rightarrow> [] | Some cs \<Rightarrow> map (condition_side env up) cs)\<rparr>"

definition shared_side :: "filter_facts option \<Rightarrow> string \<Rightarrow> nat \<Rightarrow> side option" where
  "shared_side facts key position =
     (case facts of
        None \<Rightarrow> None
      | Some f \<Rightarrow>
          (case (map_of (ff_columns f) key, if position < length (ff_rights f) then ff_rights f ! position else None) of
             (Some left, Some right) \<Rightarrow> if fst left = fst right then Some left else None
           | _ \<Rightarrow> None))"

definition truncate_us :: "int \<Rightarrow> int option \<Rightarrow> int" where
  "truncate_us us precision =
     (case precision of
        None \<Rightarrow> us
      | Some p \<Rightarrow> if p \<ge> 6 then us else if p \<le> 0 then 0 else us div 10 ^ nat (6 - p) * 10 ^ nat (6 - p))"

text \<open>\<open>replace(microsecond=...)\<close> of a time or a datetime.\<close>

definition truncate_clock :: "int \<Rightarrow> int option \<Rightarrow> int" where
  "truncate_clock us precision = us - us mod 1000000 + truncate_us (us mod 1000000) precision"

definition digits_then :: "char \<Rightarrow> string \<Rightarrow> (string \<times> string) option" where
  "digits_then c s =
     (let ds = takeWhile is_digit s; rest = dropWhile is_digit s
      in if ds \<noteq> [] \<and> rest \<noteq> [] \<and> hd rest = c then Some (ds, tl rest) else None)"

definition seconds_then :: "string \<Rightarrow> ((string \<times> string) \<times> string) option" where
  "seconds_then s =
     (case digits_then CHR ''S'' s of
        Some (ds, rest) \<Rightarrow> Some ((ds, []), rest)
      | None \<Rightarrow>
          (case digits_then CHR ''.'' s of
             None \<Rightarrow> None
           | Some (ds, rest) \<Rightarrow> map_option (\<lambda>(fs, rest'). ((ds, fs), rest')) (digits_then CHR ''S'' rest)))"

definition optional_part :: "(string \<Rightarrow> ('a \<times> string) option) \<Rightarrow> string \<Rightarrow> 'a option \<times> string" where
  "optional_part f s = (case f s of None \<Rightarrow> (None, s) | Some (x, rest) \<Rightarrow> (Some x, rest))"

definition timedelta_ok :: "int \<Rightarrow> bool" where
  "timedelta_ok us \<longleftrightarrow> - 999999999 \<le> us div day_us \<and> us div day_us \<le> 999999999"

definition number_or_zero :: "string option \<Rightarrow> int" where
  "number_or_zero ds = (case ds of None \<Rightarrow> 0 | Some s \<Rightarrow> int (nat_of_digits s))"

definition parse_elapsed :: "string \<Rightarrow> int option \<Rightarrow> int option" where
  "parse_elapsed src precision =
     (let neg = starts_with src ''-''; s = (if neg then drop 1 src else src) in
      if \<not> starts_with s ''P'' then None
      else (let (days, s1) = optional_part (digits_then CHR ''D'') (drop 1 s);
                (hours, minutes, seconds, s2) =
                  (if starts_with s1 ''T''
                   then (let (h, a) = optional_part (digits_then CHR ''H'') (drop 1 s1);
                             (m, b) = optional_part (digits_then CHR ''M'') a;
                             (sec, c) = optional_part seconds_then b
                         in (h, m, sec, c))
                   else (None, None, None, s1))
            in if s2 \<noteq> [] \<or> (days = None \<and> hours = None \<and> minutes = None \<and> seconds = None) then None
               else (let (whole, fraction) = (case seconds of None \<Rightarrow> (0, 0)
                           | Some (ds, fs) \<Rightarrow> (int (nat_of_digits ds), int (nat_of_digits (take 6 (fs @ ''000000'')))));
                         us = number_or_zero days * day_us + number_or_zero hours * 3600000000 + number_or_zero minutes * 60000000 +
                              whole * 1000000 + truncate_us fraction precision;
                         value = (if neg then - us else us)
                     in if timedelta_ok us \<and> timedelta_ok value then Some value else None)))"

definition parse_moment :: "iso_parsers \<Rightarrow> string \<Rightarrow> (int \<times> int option) option" where
  "parse_moment ip src =
     ip_datetime ip (if src \<noteq> [] \<and> (last src = CHR ''Z'' \<or> last src = CHR ''z'') then butlast src @ ''+00:00'' else src)"

text \<open>The key two values of a kind are compared by; \<open>None\<close> when the text is no such value.\<close>

definition temporal_key :: "iso_parsers \<Rightarrow> string \<Rightarrow> string \<Rightarrow> int option \<Rightarrow> (int \<times> int) option" where
  "temporal_key ip src kind precision =
     (if kind = ''date'' then map_option (\<lambda>d. (d, 0)) (ip_date ip src)
      else if kind = ''time''
      then (case ip_time ip src of Some (us, None) \<Rightarrow> Some (truncate_clock us precision, 0) | _ \<Rightarrow> None)
      else if kind = ''time_with_offset''
      then (case ip_time ip src of Some (us, Some offset) \<Rightarrow> Some (offset, truncate_clock us precision) | _ \<Rightarrow> None)
      else if kind = ''local_datetime'' \<or> kind = ''timestamp_with_local_time_zone''
      then (case parse_moment ip src of Some (us, None) \<Rightarrow> Some (truncate_clock us precision, 0) | _ \<Rightarrow> None)
      else if kind = ''timestamp_with_time_zone''
      then (case parse_moment ip src of
              Some (us, Some offset) \<Rightarrow>
                (let utc = truncate_clock us precision - offset in if utc < day_us \<or> utc > max_instant then None else Some (utc, 0))
            | _ \<Rightarrow> None)
      else if kind = ''interval'' \<or> kind = ''interval_fixed'' \<or> kind = ''interval_calendar''
      then map_option (\<lambda>us. (us, 0)) (parse_elapsed src precision)
      else None)"

definition sign_of :: "(int \<times> int) \<Rightarrow> (int \<times> int) \<Rightarrow> int" where
  "sign_of a b =
     (if fst a < fst b \<or> (fst a = fst b \<and> snd a < snd b) then - 1
      else if fst b < fst a \<or> (fst a = fst b \<and> snd b < snd a) then 1 else 0)"

definition temporal_order :: "iso_parsers \<Rightarrow> py_value \<Rightarrow> py_value \<Rightarrow> side option \<Rightarrow> int option" where
  "temporal_order ip left right s =
     (case (s, left, right) of
        (Some (kind, precision), P_Str a, P_Str b) \<Rightarrow>
          (case (temporal_key ip a kind precision, temporal_key ip b kind precision) of
             (Some x, Some y) \<Rightarrow> Some (sign_of x y)
           | _ \<Rightarrow> None)
      | _ \<Rightarrow> None)"

section \<open>Conditions\<close>

datatype compare_error = Row_Compare nat string

definition ordered :: "string \<Rightarrow> 'a :: linorder \<Rightarrow> 'a \<Rightarrow> bool" where
  "ordered op a b =
     (if op = ''gt'' then a > b else if op = ''gte'' then a \<ge> b else if op = ''lt'' then a < b else a \<le> b)"

definition plain_number :: "py_value \<Rightarrow> rat option" where
  "plain_number v = (case v of P_Int i \<Rightarrow> Some (of_int i) | P_Float r \<Rightarrow> Some r | _ \<Rightarrow> None)"

definition order_values :: "iso_parsers \<Rightarrow> py_value \<Rightarrow> py_value \<Rightarrow> string \<Rightarrow> nat \<Rightarrow> side option \<Rightarrow> compare_error + bool" where
  "order_values ip left right op index s =
     (if (\<exists>b \<in> {True, False}. left = P_Bool b \<or> right = P_Bool b) then Inl (Row_Compare index op)
      else case (plain_number left, plain_number right) of
        (Some a, Some b) \<Rightarrow> Inr (ordered op a b)
      | _ \<Rightarrow>
          (case temporal_order ip left right s of
             Some c \<Rightarrow> Inr (ordered op c 0)
           | None \<Rightarrow> (case (left, right) of (P_Str a, P_Str b) \<Rightarrow> Inr (ordered op a b) | _ \<Rightarrow> Inl (Row_Compare index op))))"

definition equal_values :: "iso_parsers \<Rightarrow> py_value \<Rightarrow> py_value \<Rightarrow> side option \<Rightarrow> bool" where
  "equal_values ip left right s =
     (case temporal_order ip left right s of Some c \<Rightarrow> c = 0 | None \<Rightarrow> json_eq left right)"

definition ends_with :: "string \<Rightarrow> string \<Rightarrow> bool" where
  "ends_with s p = starts_with (rev s) (rev p)"

definition match_row :: "iso_parsers \<Rightarrow> py_value \<Rightarrow> string \<Rightarrow> string \<Rightarrow> py_value \<Rightarrow> nat \<Rightarrow> side option \<Rightarrow> compare_error + bool" where
  "match_row ip row key op v index s =
     (let left = row_get key row in
      if op = ''is_null'' then Inr (left = P_None)
      else if op = ''is_not_null'' then Inr (left \<noteq> P_None)
      else if op = ''eq'' then Inr (equal_values ip left v s)
      else if op = ''ne'' then Inr (\<not> equal_values ip left v s)
      else if op \<in> {''gt'', ''gte'', ''lt'', ''lte''} then order_values ip left v op index s
      else if op = ''in'' \<or> op = ''not_in'' then
        (case v of
           P_List items \<Rightarrow> (let found = (\<exists>item \<in> set items. equal_values ip left item s) in Inr (if op = ''in'' then found else \<not> found))
         | _ \<Rightarrow> Inl (Row_Compare index op))
      else if op \<in> {''contains'', ''starts_with'', ''ends_with''} then
        (case (left, v) of
           (P_Str a, P_Str b) \<Rightarrow>
             Inr (if op = ''contains'' then has_sub b a else if op = ''starts_with'' then starts_with a b else ends_with a b)
         | _ \<Rightarrow> Inl (Row_Compare index op))
      else Inl (Row_Compare index op))"

type_synonym condition = "string \<times> string \<times> py_value"

definition keep_row :: "iso_parsers \<Rightarrow> condition list \<Rightarrow> string \<Rightarrow> filter_facts option \<Rightarrow> nat \<Rightarrow> py_value \<Rightarrow> compare_error + bool" where
  "keep_row ip conditions combinator facts index row =
     (if conditions = [] then Inr True
      else ok_bind (map_ok (\<lambda>(position, key, op, v). match_row ip row key op v index (shared_side facts key position)) (enumerate 0 conditions))
        (\<lambda>flags. Inr (if combinator = ''any'' then True \<in> set flags else False \<notin> set flags)))"

fun keep_rows :: "(nat \<Rightarrow> py_value \<Rightarrow> compare_error + bool) \<Rightarrow> nat \<Rightarrow> py_value list \<Rightarrow> compare_error + py_value list" where
  "keep_rows keep i [] = Inr []"
| "keep_rows keep i (row # rows) =
     ok_bind (keep i row) (\<lambda>b. ok_bind (keep_rows keep (Suc i) rows) (\<lambda>kept. Inr (if b then row # kept else kept)))"

fun prepared :: "template_env \<Rightarrow> evaluator \<Rightarrow> json list \<Rightarrow> exec_result + condition list" where
  "prepared env ev [] = Inr []"
| "prepared env ev (c # cs) =
     (case (get_str ''operator'' c, get_str ''key'' c) of
        (Some op, Some key) \<Rightarrow>
          (case (if op = ''is_null'' \<or> op = ''is_not_null'' then Inr P_None else render_field env ev (json_get ''value'' c) any_schema) of
             Inl failed \<Rightarrow> Inl failed
           | Inr v \<Rightarrow> ok_bind (prepared env ev cs) (\<lambda>more. Inr ((key, op, v) # more)))
      | _ \<Rightarrow> Inl Exec_Raised)"

definition filter_refine :: "template_env \<Rightarrow> json \<Rightarrow> upstream \<Rightarrow> resolver \<Rightarrow> json" where
  "filter_refine env config up rs = main_rows ''dropped'' (element_schema env (json_get ''items'' config) up)"

definition compare_failed :: "compare_error \<Rightarrow> exec_result" where
  "compare_failed e =
     (case e of Row_Compare i op \<Rightarrow>
        Exec_Failed ''CHANNEL_NODE_FAILED'' (''Row '' @ str_nat i @ '' is not comparable for operator '' @ op) [(''row_index'', P_Int (int i))] None)"

definition filter_execute :: "template_env \<Rightarrow> evaluator \<Rightarrow> iso_parsers \<Rightarrow> filter_facts option \<Rightarrow> json \<Rightarrow> exec_result" where
  "filter_execute env ev ip facts config =
     exec_bind (render_field env ev (json_get ''items'' config) list_of_objects) (\<lambda>items.
       if length (list_rows items) > item_limit then limit_failed
       else (let combinator = (case get_str ''combinator'' config of Some (c # cs) \<Rightarrow> c # cs | _ \<Rightarrow> ''all'') in
         exec_bind (prepared env ev (case get_arr ''conditions'' config of None \<Rightarrow> [] | Some cs \<Rightarrow> cs)) (\<lambda>conditions.
           case keep_rows (keep_row ip conditions combinator facts) 0 (list_rows items) of
             Inl e \<Rightarrow> compare_failed e
           | Inr kept \<Rightarrow> Exec_Ok (rows_output kept ''dropped'' (length (list_rows items) - length kept)) None)))"

end
