(* ===== verification/Transform_Spec.thy ===== *)
theory Transform_Spec
  imports Filter_Node Template_Spec
begin

text \<open>
  What the value nodes promise: the output of Set fields, Filter and Deduplicate matches the schema their
  refinement announces, and Merge by key is a join.
\<close>

section \<open>Matching\<close>

text \<open>Only six keys of a schema matter.\<close>

lemma matches_type_same:
  assumes "\<And>k. k \<in> {''items'', ''required'', ''properties'', ''additionalProperties''} \<Longrightarrow> json_get k s = json_get k s'"
  shows "matches_type widen s name v = matches_type widen s' name v"
proof -
  have keys: "json_get ''items'' s = json_get ''items'' s'" "json_get ''required'' s = json_get ''required'' s'"
    "json_get ''properties'' s = json_get ''properties'' s'"
    "json_get ''additionalProperties'' s = json_get ''additionalProperties'' s'"
    by (intro assms; simp)+
  have parts: "get_obj ''items'' s = get_obj ''items'' s'" "get_arr ''required'' s = get_arr ''required'' s'"
    "get_obj ''properties'' s = get_obj ''properties'' s'"
    unfolding get_obj_def get_arr_def keys by (rule refl)+
  show ?thesis unfolding matches_type.simps [of widen s] matches_type.simps [of widen s'] keys parts ..
qed

lemma matches_same:
  assumes "\<And>k. k \<in> {''type'', ''enum'', ''items'', ''required'', ''properties'', ''additionalProperties''} \<Longrightarrow> json_get k s = json_get k s'"
  shows "matches widen s v = matches widen s' v"
proof -
  have keys: "json_get ''type'' s = json_get ''type'' s'" "json_get ''enum'' s = json_get ''enum'' s'" by (intro assms; simp)+
  have names: "type_names s = type_names s'" unfolding type_names_def keys ..
  have "matches_type widen s name v = matches_type widen s' name v" for name using assms by (intro matches_type_same) blast
  then show ?thesis unfolding matches.simps [of widen s] matches.simps [of widen s'] names keys by simp
qed

lemma matches_array: "matches_type widen s ''array'' v = (case v of
    P_List xs \<Rightarrow> (case get_obj ''items'' s of None \<Rightarrow> True | Some items \<Rightarrow> \<forall>x \<in> set xs. matches widen (JObj items) x) | _ \<Rightarrow> False)"
  by (simp add: matches_type.simps [of widen s "''array''"])

lemma matches_object: "matches_type widen s ''object'' v = (case v of
    P_Dict kvs \<Rightarrow>
      (case get_arr ''required'' s of None \<Rightarrow> True | Some req \<Rightarrow> \<forall>key \<in> set req. key \<in> (JStr \<circ> fst) ` set kvs) \<and>
      (case get_obj ''properties'' s of
         None \<Rightarrow> True
       | Some props \<Rightarrow>
           (\<forall>(k, x) \<in> set kvs. case Option.bind (map_of props k) as_obj of
              None \<Rightarrow> True | Some sub \<Rightarrow> matches widen (JObj sub) x) \<and>
           (json_get ''additionalProperties'' s = Some (JBool False) \<longrightarrow> fst ` set kvs \<subseteq> fst ` set props))
  | _ \<Rightarrow> False)"
  by (simp add: matches_type.simps [of widen s "''object''"])

lemma matches_object_sub:
  assumes "matches_type widen s ''object'' (P_Dict kvs)" and "get_obj ''properties'' s = Some props" and "(k, x) \<in> set kvs"
    and "Option.bind (map_of props k) as_obj = Some sub"
  shows "matches widen (JObj sub) x"
proof -
  have "\<forall>(k, x) \<in> set kvs. case Option.bind (map_of props k) as_obj of None \<Rightarrow> True | Some sub \<Rightarrow> matches widen (JObj sub) x"
    using assms(1,2) by (simp add: matches_object)
  from bspec [OF this assms(3)] show ?thesis using assms(4) by simp
qed

lemma matches_widen: "matches widen s v \<longrightarrow> matches True s v" "matches_type widen s name v \<longrightarrow> matches_type True s name v"
proof (induction widen s v and widen s name v rule: matches_matches_type.induct)
  case (1 widen s v)
  then show ?case by (auto simp: matches.simps [of _ s v] split: if_splits)
next
  case (2 widen s name v)
  show ?case
  proof
    assume m: "matches_type widen s name v"
    consider (array) "name = ''array''" | (object) "name = ''object''" | (plain) "name \<noteq> ''array''" "name \<noteq> ''object''" by blast
    then show "matches_type True s name v"
    proof cases
      case plain
      then show ?thesis using m by (simp add: matches_type.simps [of _ s name v] split: if_splits py_value.splits)
    next
      case array
      obtain xs where xs: "v = P_List xs" using m array by (cases v) (simp_all add: matches_array)
      have "matches True (JObj items) x" if items: "get_obj ''items'' s = Some items" and x: "x \<in> set xs" for items x
        using 2(1) [OF _ _ _ _ _ array xs items x] m x items array xs by (simp add: matches_array)
      then show ?thesis using array xs by (simp add: matches_array split: option.split)
    next
      case object
      obtain kvs where kvs: "v = P_Dict kvs" using m object by (cases v) (simp_all add: matches_object)
      have sub: "case Option.bind (map_of props k) as_obj of None \<Rightarrow> True | Some sub \<Rightarrow> matches True (JObj sub) x"
        if props: "get_obj ''properties'' s = Some props" and x: "(k, x) \<in> set kvs" for props k x
      proof (cases "Option.bind (map_of props k) as_obj")
        case (Some sub)
        have "matches widen (JObj sub) x" using matches_object_sub [OF _ props x Some] m object kvs by simp
        then show ?thesis using 2(2) object kvs props x Some by simp
      qed simp
      have all: "\<forall>(k, x) \<in> set kvs. case Option.bind (map_of props k) as_obj of None \<Rightarrow> True | Some sub \<Rightarrow> matches True (JObj sub) x"
        if props: "get_obj ''properties'' s = Some props" for props
        using sub [OF props] by blast
      show ?thesis
      proof (cases "get_obj ''properties'' s")
        case None
        then show ?thesis using m object kvs by (simp add: matches_object)
      next
        case (Some props)
        show ?thesis using m all [OF Some] unfolding object kvs matches_object by (simp only: Some option.case py_value.case) (elim conjE; intro conjI; assumption | simp)
      qed
    qed
  qed
qed

section \<open>Set fields\<close>

text \<open>What a field renders to has the type of the property it is rendered for.\<close>

lemma runtime_field_typed:
  assumes "render env src ev (runtime_field_schema main name) = Inr v"
    and "main = Some (JObj s)" and "get_obj ''properties'' (JObj s) = Some props" and "Option.bind (map_of props name) as_obj = Some sub"
  shows "matches True (JObj sub) v"
proof -
  have schema: "runtime_field_schema main name = JObj (AList.update ''x-refraq-json-template'' (JBool True) sub)"
    using assms(2-4) by (simp add: runtime_field_schema_def)
  have "json_template (runtime_field_schema main name)" by (simp add: schema json_template_def update_conv')
  then have "matches False (runtime_field_schema main name) v" using render_typed [OF assms(1)] by (simp add: value_matches_def)
  moreover have "matches False (runtime_field_schema main name) v = matches False (JObj sub) v"
    unfolding schema by (rule matches_same) (auto simp: update_conv')
  ultimately show ?thesis using matches_widen(1) by blast
qed

lemma render_field_Ok: "render_field env ev raw schema \<noteq> Inl (Exec_Ok v ports)"
  by (auto simp: render_field_def Let_def split: option.splits json.splits sum.splits template_error.splits)

lemma set_update_pairs: "set (AList.update k v out) \<subseteq> insert (k, v) (set out)"
  by (induction out) auto

lemma set_fields_loop_typed:
  assumes "set_fields_loop env ev main fs out = Exec_Ok v ports" and "\<And>k x. (k, x) \<in> set out \<Longrightarrow> P k x"
    and "\<And>src name x. render env src ev (runtime_field_schema main name) = Inr x \<Longrightarrow> P name x"
  shows "\<exists>kvs. v = P_Dict kvs \<and> (\<forall>k x. (k, x) \<in> set kvs \<longrightarrow> P k x) \<and> fst ` set kvs = fst ` set out \<union> set (List.map_filter (get_str ''name'') fs)"
  using assms(1,2)
proof (induction fs arbitrary: out)
  case (Cons f fs)
  obtain name where name: "get_str ''name'' f = Some name" using Cons.prems(1) by (cases "get_str ''name'' f") simp_all
  obtain x where x: "render_field env ev (json_get ''value'' f) (runtime_field_schema main name) = Inr x"
    "set_fields_loop env ev main fs (AList.update name x out) = Exec_Ok v ports"
    using Cons.prems(1) name render_field_Ok
    by (cases "render_field env ev (json_get ''value'' f) (runtime_field_schema main name)") (auto simp: exec_bind_def)
  have "P k y" if "(k, y) \<in> set (AList.update name x out)" for k y
  proof -
    have "P name x" using x(1) assms(3) by (auto simp: render_field_Inr)
    then show ?thesis using that Cons.prems(2) set_update_pairs [of name x out] by blast
  qed
  then show ?case using Cons.IH [OF x(2)] name by (simp add: List.map_filter_def dom_update) 
qed auto

text \<open>C37: when the validator announces a schema for Set fields, every output of the node matches it, whatever the expressions
  evaluate to: each field is checked against the property it is announced with.\<close>
theorem set_fields_typed:
  assumes "set_fields_refine env config up rs = JObj [(''main'', JObj s)]" and "set_fields_execute env ev (Some (JObj s)) config = Exec_Ok v ports"
  shows "output_matches v (JObj s)"
proof -
  obtain flds where flds: "get_arr ''fields'' config = Some flds" "\<forall>f \<in> set flds. get_str ''name'' f \<noteq> None"
    using assms(1) by (auto simp: set_fields_refine_def split: option.splits if_splits)
  define props where "props = py_dict (map (\<lambda>f. (the (get_str ''name'' f), field_schema env (json_get ''value'' f) up)) flds)"
  have known: "\<not> (\<exists>f \<in> set flds. get_str ''name'' f = None)" using flds(2) by blast
  have s: "s = [(''type'', JStr ''object''), (''additionalProperties'', JBool False), (''properties'', JObj props),
      (''required'', JArr (map (\<lambda>f. JStr (the (get_str ''name'' f))) flds))]"
    using assms(1) unfolding set_fields_refine_def flds(1) option.case if_not_P [OF known] by (simp add: props_def)
  have parts: "get_obj ''properties'' (JObj s) = Some props" "get_arr ''required'' (JObj s) = Some (map (\<lambda>f. JStr (the (get_str ''name'' f))) flds)"
    "type_names (JObj s) = [''object'']" "json_get ''enum'' (JObj s) = None"
    by (simp_all add: s get_obj_def get_arr_def type_names_def)
  define typed where "typed = (\<lambda>k x. case Option.bind (map_of props k) as_obj of None \<Rightarrow> True | Some sub \<Rightarrow> matches True (JObj sub) x)"
  have loop: "set_fields_loop env ev (Some (JObj s)) flds [] = Exec_Ok v ports" using assms(2) flds(1) by (simp add: set_fields_execute_def)
  have each: "typed name x" if "render env src ev (runtime_field_schema (Some (JObj s)) name) = Inr x" for src name x
    using runtime_field_typed [OF that refl parts(1)] by (simp add: typed_def split: option.split)
  obtain kvs where kvs: "v = P_Dict kvs" "\<forall>k x. (k, x) \<in> set kvs \<longrightarrow> typed k x" "fst ` set kvs = set (List.map_filter (get_str ''name'') flds)"
    using set_fields_loop_typed [OF loop, where P = typed] each by auto
  have names: "set (List.map_filter (get_str ''name'') flds) = (\<lambda>f. the (get_str ''name'' f)) ` set flds"
    using flds(2) by (force simp: List.map_filter_def)
  have keys: "fst ` set kvs = fst ` set props" unfolding kvs(3) names by (simp add: props_def keys_py_dict image_image)
  have required: "\<forall>key \<in> set (map (\<lambda>f. JStr (the (get_str ''name'' f))) flds). key \<in> (JStr \<circ> fst) ` set kvs"
    unfolding image_comp [symmetric] kvs(3) names by auto
  have "\<forall>(k, x) \<in> set kvs. case Option.bind (map_of props k) as_obj of None \<Rightarrow> True | Some sub \<Rightarrow> matches True (JObj sub) x"
    using kvs(2) unfolding typed_def by blast
  then have "matches_type True (JObj s) ''object'' v"
    unfolding kvs(1) matches_object parts py_value.case option.case using required keys by blast
  then show ?thesis unfolding output_matches_def matches.simps [of True "JObj s"] parts by simp
qed

section \<open>Rows\<close>

lemma items_rendered:
  assumes "render_field env ev raw list_of_objects = Inr v"
  shows "\<exists>xs. v = P_List xs \<and> (\<forall>x \<in> set xs. matches True (JObj [(''type'', JStr ''object'')]) x)"
proof -
  obtain src where "render env src ev list_of_objects = Inr v" using assms by (auto simp: render_field_Inr)
  moreover have "type_names list_of_objects = [''array'']" "get_obj ''items'' list_of_objects = Some [(''type'', JStr ''object'')]"
    by (simp_all add: list_of_objects_def type_names_def get_obj_def)
  ultimately have "matches_type False list_of_objects ''array'' v" using render_typed
    by (fastforce simp: is_string_def value_matches_def matches.simps [of False list_of_objects])
  then show ?thesis using matches_widen(1) \<open>get_obj _ _ = _\<close> by (cases v) (auto simp: matches_array)
qed

lemma matches_integer: "matches True (JObj [(''type'', JStr ''integer'')]) (P_Int i)"
  by (simp add: matches.simps [of True "JObj _"] type_names_def matches_type.simps [of _ _ "''integer''"])

lemma matches_array_of: "\<forall>x \<in> set xs. matches True (JObj item) x \<Longrightarrow> matches True (array_of (JObj item)) (P_List xs)"
  by (simp add: array_of_def matches.simps [of True "JObj _" "P_List xs"] type_names_def matches_array get_obj_def)

lemma rows_output_matches:
  assumes "\<forall>x \<in> set rows. matches True (JObj item) x" and "dropped \<noteq> ''rows''" and "dropped \<noteq> ''count''"
  shows "output_matches (rows_output rows dropped n) (rows_schema dropped (array_of (JObj item)))"
proof -
  have "matches_type True (rows_schema dropped (array_of (JObj item))) ''object'' (rows_output rows dropped n)"
    using assms matches_array_of [OF assms(1)] matches_integer
    by (auto simp: rows_output_def matches_object rows_schema_def get_arr_def get_obj_def array_of_def)
  then show ?thesis by (simp add: output_matches_def matches.simps [of True "rows_schema _ _"]) (simp add: rows_schema_def type_names_def)
qed

lemma array_item_obj: "array_item_schema s = Some item \<Longrightarrow> \<exists>kvs. item = JObj kvs"
  by (auto simp: array_item_schema_def Let_def split: if_split_asm)

lemma element_obj: "element_schema env e up = Some item \<Longrightarrow> \<exists>kvs. item = JObj kvs"
  by (cases e; cases "the e") (auto simp: element_schema_def bind_eq_Some_conv dest: array_item_obj)

text \<open>The items a node reads have the type the validator knows for them, when it knows one.\<close>

definition items_typed :: "template_env \<Rightarrow> evaluator \<Rightarrow> json option \<Rightarrow> upstream \<Rightarrow> bool" where
  "items_typed env ev raw up \<longleftrightarrow>
     (\<forall>xs item. render_field env ev raw list_of_objects = Inr (P_List xs) \<longrightarrow> element_schema env raw up = Some item \<longrightarrow>
       (\<forall>x \<in> set xs. output_matches x item))"

lemma selected_rows_typed:
  assumes "render_field env ev raw list_of_objects = Inr v" and "items_typed env ev raw up" and "set rows \<subseteq> set (list_rows v)"
    and "dropped \<noteq> ''rows''" and "dropped \<noteq> ''count''"
  shows "\<exists>schema. main_rows dropped (element_schema env raw up) = JObj [(''main'', schema)] \<and> output_matches (rows_output rows dropped n) schema"
proof -
  obtain xs where xs: "v = P_List xs" "\<And>x. x \<in> set xs \<Longrightarrow> matches True (JObj [(''type'', JStr ''object'')]) x"
    using items_rendered [OF assms(1)] by blast
  have rows: "set rows \<subseteq> set xs" using assms(3) xs(1) by (simp add: list_rows_def)
  show ?thesis
  proof (cases "element_schema env raw up")
    case None
    have "output_matches (rows_output rows dropped n) (rows_schema dropped (array_of (JObj [(''type'', JStr ''object'')])))"
      using xs(2) rows assms(4,5) by (intro rows_output_matches) auto
    then show ?thesis by (simp add: main_rows_def None list_of_objects_def array_of_def)
  next
    case (Some item)
    obtain kvs where kvs: "item = JObj kvs" using element_obj [OF Some] by blast
    have "\<forall>x \<in> set rows. matches True (JObj kvs) x"
      using assms(1,2) rows Some unfolding items_typed_def output_matches_def kvs xs(1) by blast
    from rows_output_matches [OF this assms(4,5)] show ?thesis by (simp add: main_rows_def Some kvs)
  qed
qed

lemma keep_rows_subset: "keep_rows keep i rows = Inr kept \<Longrightarrow> set kept \<subseteq> set rows"
  by (induction rows arbitrary: i kept) (fastforce simp: opt_simps split: if_splits)+

lemma keep_first_subset: "keep_first token seen xs = Inr ys \<Longrightarrow> set ys \<subseteq> set xs"
  by (induction xs arbitrary: seen ys) (fastforce simp: opt_simps split: if_splits)+

lemma exec_bind_Ok: "exec_bind r f = Exec_Ok v ports \<Longrightarrow> r \<noteq> Inl (Exec_Ok v ports) \<Longrightarrow> \<exists>x. r = Inr x \<and> f x = Exec_Ok v ports"
  by (cases r) (auto simp: exec_bind_def)

lemma prepared_Ok: "prepared env ev cs \<noteq> Inl (Exec_Ok v ports)"
proof (induction cs)
  case (Cons c cs)
  then show ?case using render_field_Ok by (cases "prepared env ev cs") (auto split: option.splits sum.splits)
qed simp

lemma filter_output:
  assumes "items_typed env ev (json_get ''items'' config) up" and "filter_execute env ev ip facts config = Exec_Ok v ports"
  shows "\<exists>schema. filter_refine env config up rs = JObj [(''main'', schema)] \<and> output_matches v schema"
proof -
  obtain w where w: "render_field env ev (json_get ''items'' config) list_of_objects = Inr w"
    using exec_bind_Ok [OF assms(2) [unfolded filter_execute_def] render_field_Ok] by blast
  from exec_bind_Ok [OF assms(2) [unfolded filter_execute_def] render_field_Ok] w
  obtain cs comb kept where "keep_rows (keep_row ip cs comb facts) 0 (list_rows w) = Inr kept"
    "v = rows_output kept ''dropped'' (length (list_rows w) - length kept)"
    by (auto simp: Let_def limit_failed_def compare_failed_def split: if_splits sum.splits compare_error.splits dest!: exec_bind_Ok [OF _ prepared_Ok])
  then show ?thesis using selected_rows_typed [OF w assms(1)] keep_rows_subset by (auto simp: filter_refine_def)
qed

lemma deduplicate_output:
  assumes "items_typed env ev (json_get ''items'' config) up" and "deduplicate_execute env ev config = Exec_Ok v ports"
  shows "\<exists>schema. deduplicate_refine env config up rs = JObj [(''main'', schema)] \<and> output_matches v schema"
proof -
  obtain w where w: "render_field env ev (json_get ''items'' config) list_of_objects = Inr w"
    using exec_bind_Ok [OF assms(2) [unfolded deduplicate_execute_def] render_field_Ok] by blast
  then obtain keys kept where kept: "keep_first (row_token env keys) {} (list_rows w) = Inr kept"
    "v = rows_output kept ''removed'' (length (list_rows w) - length kept)"
    using assms(2) by (auto simp: deduplicate_execute_def exec_bind_def limit_failed_def split: if_splits sum.splits option.splits)
  then show ?thesis using selected_rows_typed [OF w assms(1) keep_first_subset [OF kept(1)], of "''removed''"] by (simp add: deduplicate_refine_def)
qed

section \<open>For\<close>

lemma matches_closed:
  assumes "\<And>k sub. (k, sub) \<in> set props \<Longrightarrow> \<exists>x. map_of kvs k = Some x \<and> (\<forall>o'. sub = JObj o' \<longrightarrow> matches True sub x)"
    and "map fst kvs = map fst props" and "distinct (map fst props)"
  shows "matches True (closed_object props) (P_Dict kvs)"
proof -
  have keys: "fst ` set kvs = fst ` set props" using assms(2) by (metis list.set_map)
  have req: "\<forall>key \<in> set (map (JStr \<circ> fst) props). key \<in> (JStr \<circ> fst) ` set kvs"
    unfolding set_map image_comp [symmetric] keys by blast
  have sub: "case Option.bind (map_of props k) as_obj of None \<Rightarrow> True | Some sub \<Rightarrow> matches True (JObj sub) x" if kx: "(k, x) \<in> set kvs" for k x
  proof (cases "Option.bind (map_of props k) as_obj")
    case (Some sub)
    then have "(k, JObj sub) \<in> set props" by (auto simp: bind_eq_Some_conv opt_simps dest: map_of_SomeD)
    moreover have "map_of kvs k = Some x" using kx assms(2,3) by simp
    ultimately show ?thesis using assms(1) Some by fastforce
  qed simp
  have all: "\<forall>(k, x) \<in> set kvs. case Option.bind (map_of props k) as_obj of None \<Rightarrow> True | Some sub \<Rightarrow> matches True (JObj sub) x"
    using sub by blast
  have parts: "get_obj ''properties'' (closed_object props) = Some props"
    "get_arr ''required'' (closed_object props) = Some (map (JStr \<circ> fst) props)"
    "type_names (closed_object props) = [''object'']" "json_get ''enum'' (closed_object props) = None"
    by (simp_all add: closed_object_def get_obj_def get_arr_def type_names_def)
  have "matches_type True (closed_object props) ''object'' (P_Dict kvs)"
    unfolding matches_object parts py_value.case option.case using req all keys by blast
  then show ?thesis unfolding matches.simps [of True "closed_object props"] parts by simp
qed

lemma nullable_names: "type_names (nullable_schema (JObj kvs)) =
    (if type_names (JObj kvs) = [] \<and> (\<forall>kinds. map_of kvs ''type'' \<noteq> Some (JArr kinds)) \<or> ''null'' \<in> set (type_names (JObj kvs))
     then type_names (JObj kvs) else type_names (JObj kvs) @ [''null''])"
  by (auto simp: nullable_schema_def type_names_def update_conv' split: option.splits json.splits)

lemma nullable_keys: "k \<noteq> ''type'' \<Longrightarrow> json_get k (nullable_schema s) = json_get k s"
  by (cases s) (auto simp: nullable_schema_def update_conv' split: option.splits json.splits)

lemma nullable_enum: "json_get ''enum'' (nullable_schema s) = json_get ''enum'' s"
  by (rule nullable_keys) simp

lemma nullable_type: "matches_type widen (nullable_schema s) name v = matches_type widen s name v"
  by (rule matches_type_same) (auto intro!: nullable_keys)

lemma nullable_matches:
  assumes "matches True (JObj kvs) v" and "type_names (JObj kvs) \<noteq> []"
  shows "matches True (nullable_schema (JObj kvs)) v"
proof -
  have "set (type_names (JObj kvs)) \<subseteq> set (type_names (nullable_schema (JObj kvs)))" by (auto simp: nullable_names)
  then show ?thesis using assms
    unfolding matches.simps [of True "JObj kvs" v] matches.simps [of True "nullable_schema (JObj kvs)" v] nullable_enum nullable_type
    by auto
qed

lemma nullable_null:
  assumes "json_get ''enum'' (JObj kvs) = None" and "type_names (JObj kvs) \<noteq> []"
  shows "matches True (nullable_schema (JObj kvs)) P_None"
proof -
  have "''null'' \<in> set (type_names (nullable_schema (JObj kvs)))" using assms(2) by (auto simp: nullable_names)
  moreover have "matches_type True (nullable_schema (JObj kvs)) ''null'' P_None" by (simp add: matches_type.simps [of True _ "''null''" P_None])
  ultimately have "\<exists>name \<in> set (type_names (nullable_schema (JObj kvs))). matches_type True (nullable_schema (JObj kvs)) name P_None" by blast
  then show ?thesis unfolding matches.simps [of True "nullable_schema (JObj kvs)" P_None] nullable_enum assms(1) by auto
qed

lemma nullable_obj: "\<exists>nkvs. nullable_schema (JObj kvs) = JObj nkvs"
  by (auto simp: nullable_schema_def split: option.split json.split)

lemma simple_matches:
  "matches True index_schema (P_Int i)" "matches True index_schema P_None" "matches True integer_schema (P_Int i)"
  "matches True (JObj [(''type'', JStr ''array'')]) (P_List xs)" "matches True any_schema P_None"
  by (simp_all add: matches.simps [of True] index_schema_def integer_schema_def any_schema_def type_names_def get_obj_def
    matches_type.simps [of True _ _ "P_Int i"] matches_type.simps [of True _ _ P_None] matches_type.simps [of True _ _ "P_List xs"])

lemma for_each_matches: "matches True (JObj item) x \<Longrightarrow> matches True (for_each (JObj item)) (for_step x i n)"
  unfolding for_each_def for_step_def
  by (rule matches_closed) (auto simp: simple_matches)

lemma for_done_matches:
  assumes "matches True (JObj item) x" and "matches True index_schema i"
  shows "matches True (for_done (JObj item)) (P_Dict [(''current'', x), (''index'', i), (''count'', P_Int n), (''iterations'', P_List ys)])"
  unfolding for_done_def
  by (rule matches_closed) (use assms in \<open>auto simp: simple_matches\<close>)

text \<open>The items of a loop have the type the validator knows for them; without one they are JSON.\<close>

definition loop_items_typed :: "template_env \<Rightarrow> evaluator \<Rightarrow> json option \<Rightarrow> upstream \<Rightarrow> bool" where
  "loop_items_typed env ev raw up \<longleftrightarrow>
     (\<forall>xs. render_field env ev raw (JObj [(''type'', JStr ''array'')]) = Inr (P_List xs) \<longrightarrow>
       (case element_schema env raw up of
          None \<Rightarrow> \<forall>x \<in> set xs. output_matches x any_schema
        | Some item \<Rightarrow> type_names item \<noteq> [] \<and> (\<forall>x \<in> set xs. output_matches x item) \<and> (xs = [] \<longrightarrow> json_get ''enum'' item = None)))"

lemma array_rendered:
  assumes "render_field env ev raw (JObj [(''type'', JStr ''array'')]) = Inr v"
  shows "\<exists>xs. v = P_List xs"
proof -
  obtain src where "render env src ev (JObj [(''type'', JStr ''array'')]) = Inr v" using assms by (auto simp: render_field_Inr)
  from render_typed [OF this] have "matches_type False (JObj [(''type'', JStr ''array'')]) ''array'' v"
    by (simp add: declared_type_def type_names_def)
  then show ?thesis by (cases v) (auto simp: matches_array)
qed

lemma for_rounds_result: "for_rounds env body n i xs collected s = (r, s') \<Longrightarrow>
    case r of Inl e \<Rightarrow> \<forall>v ports. e \<noteq> Exec_Ok v ports | Inr ys \<Rightarrow> length ys = length collected + length xs"
  by (induction xs arbitrary: i collected s) (auto split: prod.splits option.splits sum.splits if_splits)

lemma for_run_output:
  assumes "for_run env ev body config s = (Exec_Ok v ports, s')"
  shows "\<exists>xs ys. render_field env ev (json_get ''items'' config) (JObj [(''type'', JStr ''array'')]) = Inr (P_List xs) \<and> length ys = length xs \<and>
    v = P_Dict [(''current'', if xs = [] then P_None else last xs), (''index'', if xs = [] then P_None else P_Int (int (length xs) - 1)),
      (''count'', P_Int (int (length xs))), (''iterations'', P_List ys)]"
proof -
  let ?r = "render_field env ev (json_get ''items'' config) (JObj [(''type'', JStr ''array'')])"
  obtain w where w: "?r = Inr w" using assms render_field_Ok by (cases ?r) (auto simp: for_run_def)
  obtain xs where xs: "w = P_List xs" using array_rendered [OF w] by blast
  have rounds: "\<exists>ys. for_rounds env body (length xs) 0 xs [] s = (Inr ys, s') \<and>
    v = P_Dict [(''current'', if xs = [] then P_None else last xs), (''index'', if xs = [] then P_None else P_Int (int (length xs) - 1)),
      (''count'', P_Int (int (length xs))), (''iterations'', P_List ys)]"
    using assms for_rounds_result [of env body "length xs" 0 xs "[]" s]
    by (cases "for_rounds env body (length xs) 0 xs [] s") (auto simp: for_run_def w xs list_rows_def Let_def limit_failed_def split: if_split_asm sum.splits)
  then show ?thesis using w xs for_rounds_result [of env body "length xs" 0 xs "[]" s] by fastforce
qed

lemma for_schemas: "\<exists>each don. for_refine env config up rs = JObj [(''each'', each), (''done'', don)]"
  by (simp add: for_refine_def split: option.split)

text \<open>C39: every round of a For gets a step that matches the announced step schema, and its output, one entry per item, matches the
  announced schema, when the items have the type the validator knows for them. The last item of an empty list is null,
  which an enumeration does not admit.\<close>
theorem for_typed:
  assumes "loop_items_typed env ev (json_get ''items'' config) up" and "for_run env ev body config s = (Exec_Ok v ports, s')"
  shows "\<exists>each don xs ys. for_refine env config up rs = JObj [(''each'', each), (''done'', don)] \<and> output_matches v don \<and>
    render_field env ev (json_get ''items'' config) (JObj [(''type'', JStr ''array'')]) = Inr (P_List xs) \<and>
    (\<forall>x \<in> set xs. \<forall>i n. output_matches (for_step x i n) each) \<and> row_get ''iterations'' v = P_List ys \<and> length ys = length xs"
proof -
  obtain xs ys where out: "render_field env ev (json_get ''items'' config) (JObj [(''type'', JStr ''array'')]) = Inr (P_List xs)" "length ys = length xs"
    "v = P_Dict [(''current'', if xs = [] then P_None else last xs), (''index'', if xs = [] then P_None else P_Int (int (length xs) - 1)),
      (''count'', P_Int (int (length xs))), (''iterations'', P_List ys)]"
    using for_run_output [OF assms(2)] by blast
  have iterations: "row_get ''iterations'' v = P_List ys" by (simp add: out(3) row_get_def)
  have index: "matches True index_schema (if xs = [] then P_None else P_Int (int (length xs) - 1))" by (simp add: simple_matches)
  have "\<exists>each don. for_refine env config up rs = JObj [(''each'', each), (''done'', don)] \<and> output_matches v don \<and>
      (\<forall>x \<in> set xs. \<forall>i n. output_matches (for_step x i n) each)"
  proof (cases "element_schema env (json_get ''items'' config) up")
    case None
    then have items: "\<forall>x \<in> set xs. matches True any_schema x" using assms(1) out(1) by (simp add: loop_items_typed_def output_matches_def)
    obtain any where any: "any_schema = JObj any" by (simp add: any_schema_def)
    have "matches True any_schema (if xs = [] then P_None else last xs)" using items by (simp add: simple_matches)
    then show ?thesis using items for_each_matches for_done_matches [OF _ index]
      unfolding for_refine_def None option.case output_matches_def out(3) any by blast
  next
    case (Some item)
    obtain kvs where kvs: "item = JObj kvs" using element_obj [OF Some] by blast
    have items: "type_names (JObj kvs) \<noteq> []" "\<forall>x \<in> set xs. matches True (JObj kvs) x" "xs = [] \<Longrightarrow> json_get ''enum'' (JObj kvs) = None"
      using assms(1) out(1) Some unfolding loop_items_typed_def output_matches_def kvs by simp_all
    have current: "matches True (nullable_schema (JObj kvs)) (if xs = [] then P_None else last xs)"
      using items nullable_matches nullable_null by auto
    obtain nkvs where n: "nullable_schema (JObj kvs) = JObj nkvs" using nullable_obj by blast
    show ?thesis using items(2) for_each_matches for_done_matches [OF current [unfolded n] index]
      unfolding for_refine_def Some option.case output_matches_def out(3) kvs n by blast
  qed
  then show ?thesis using out(1,2) iterations by blast
qed

section \<open>The rows of Filter and Deduplicate\<close>

text \<open>C38: the output of Filter and of Deduplicate matches the schema the validator announces for it, when the items the node
  reads have the type the validator knows for them.\<close>
theorem row_nodes_typed:
  assumes "items_typed env ev (json_get ''items'' config) up"
  shows "(filter_execute env ev ip facts config = Exec_Ok v ports \<longrightarrow>
      (\<exists>schema. filter_refine env config up rs = JObj [(''main'', schema)] \<and> output_matches v schema)) \<and>
    (deduplicate_execute env ev config = Exec_Ok v ports \<longrightarrow>
      (\<exists>schema. deduplicate_refine env config up rs = JObj [(''main'', schema)] \<and> output_matches v schema))"
  using filter_output [OF assms] deduplicate_output [OF assms] by blast

section \<open>Examples\<close>

definition no_references :: resolver where
  "no_references = \<lparr>rs_entity_head = (\<lambda>_. None), rs_channel_exists = (\<lambda>_. False), rs_published_trigger_type = (\<lambda>_. None),
     rs_source_exists = (\<lambda>_. False)\<rparr>"

definition demo_fields :: json where
  "demo_fields = JObj [(''fields'', JArr [JObj [(''name'', JStr ''n''), (''value'', JStr ''3'')],
     JObj [(''name'', JStr ''rows''), (''value'', JStr ''{{ self.a.output.rows }}'')]])]"

definition demo_eval :: evaluator where
  "demo_eval body = (if body = ''self.a.output.rows'' then Inr (P_List demo_rows) else Inr (P_List [P_Dict [(''x'', P_Str ''s'')]]))"

definition demo_schema :: "(string \<times> json) list" where
  "demo_schema = [(''type'', JStr ''object''), (''additionalProperties'', JBool False),
     (''properties'', JObj [(''n'', demo_int), (''rows'', JObj [(''type'', JStr ''array''), (''items'', demo_row)])]),
     (''required'', JArr [JStr ''n'', JStr ''rows''])]"

lemma demo_refined: "set_fields_refine path_env demo_fields demo_up rs = JObj [(''main'', JObj demo_schema)]"
  by code_simp

lemma demo_executed: "set_fields_execute path_env demo_eval (Some (JObj demo_schema)) demo_fields =
    Exec_Ok (P_Dict [(''n'', P_Int 3), (''rows'', P_List demo_rows)]) None"
  by code_simp

lemma set_fields_typed_witness: "output_matches (P_Dict [(''n'', P_Int 3), (''rows'', P_List demo_rows)]) (JObj demo_schema)"
  by (rule set_fields_typed [OF demo_refined demo_executed])

definition demo_items :: json where
  "demo_items = JObj [(''items'', JStr ''{{ self.a.output.rows }}''), (''keys'', JArr [JStr ''x'']),
     (''conditions'', JArr [JObj [(''key'', JStr ''x''), (''operator'', JStr ''is_not_null'')]])]"

definition no_dates :: iso_parsers where
  "no_dates = \<lparr>ip_date = (\<lambda>_. None), ip_time = (\<lambda>_. None), ip_datetime = (\<lambda>_. None)\<rparr>"

lemma demo_rendered: "render_field path_env demo_eval (json_get ''items'' demo_items) list_of_objects = Inr (P_List demo_rows)"
  by code_simp

lemma demo_element:
  "element_schema path_env (json_get ''items'' demo_items) demo_up = Some demo_row"
  by code_simp

lemma demo_typed: "list_all (\<lambda>x. output_matches x demo_row) demo_rows"
  by code_simp

lemma demo_selected: "filter_execute path_env demo_eval no_dates None demo_items = Exec_Ok (rows_output demo_rows ''dropped'' 0) None"
  "deduplicate_execute path_env demo_eval demo_items = Exec_Ok (rows_output (take 2 demo_rows) ''removed'' 1) None"
  by code_simp+

lemma row_nodes_typed_witness:
  "(\<exists>schema. filter_refine path_env demo_items demo_up no_references = JObj [(''main'', schema)] \<and> output_matches (rows_output demo_rows ''dropped'' 0) schema) \<and>
   (\<exists>schema. deduplicate_refine path_env demo_items demo_up no_references = JObj [(''main'', schema)] \<and>
      output_matches (rows_output (take 2 demo_rows) ''removed'' 1) schema)"
proof -
  have "items_typed path_env demo_eval (json_get ''items'' demo_items) demo_up"
    using demo_rendered demo_element demo_typed unfolding items_typed_def list_all_iff by simp
  from row_nodes_typed [OF this] demo_selected show ?thesis by blast
qed

definition demo_rounds :: "unit rounds" where "demo_rounds step record s = (Some (P_Dict []), s)"

definition demo_loop :: py_value where
  "demo_loop = P_Dict [(''current'', P_Dict [(''x'', P_Int 1)]), (''index'', P_Int 2), (''count'', P_Int 3),
     (''iterations'', P_List [P_Dict [], P_Dict [], P_Dict []])]"

lemma demo_loop_run: "for_run path_env demo_eval demo_rounds demo_items () = (Exec_Ok demo_loop (Some [''done'']), ())"
  "type_names demo_row = [''object'']" "render_field path_env demo_eval (json_get ''items'' demo_items) (JObj [(''type'', JStr ''array'')]) = Inr (P_List demo_rows)"
  "demo_rows = [] \<longleftrightarrow> False"
  by code_simp+

lemma for_typed_witness: "\<exists>each don xs ys. for_refine path_env demo_items demo_up no_references = JObj [(''each'', each), (''done'', don)] \<and>
    output_matches demo_loop don \<and>
    render_field path_env demo_eval (json_get ''items'' demo_items) (JObj [(''type'', JStr ''array'')]) = Inr (P_List xs) \<and>
    (\<forall>x \<in> set xs. \<forall>i n. output_matches (for_step x i n) each) \<and> row_get ''iterations'' demo_loop = P_List ys \<and> length ys = length xs"
proof -
  have "loop_items_typed path_env demo_eval (json_get ''items'' demo_items) demo_up"
    using demo_element demo_typed demo_loop_run unfolding loop_items_typed_def list_all_iff by simp
  then show ?thesis by (rule for_typed [OF _ demo_loop_run(1)])
qed

text \<open>Merge announces the type of the inputs it knows and says nothing of the others: the rows of an input of unknown type
  need not have it.\<close>

definition demo_merge_config :: json where
  "demo_merge_config = JObj [(''mode'', JStr ''append''), (''inputs'', JArr [JStr ''{{ self.a.output.rows }}'', JStr ''{{ self.b.output.rows }}''])]"

lemma merge_schema_unsound: "\<exists>schema v. merge_refine path_env demo_merge_config demo_up rs = JObj [(''main'', schema)] \<and>
    merge_execute path_env demo_eval demo_merge_config = Exec_Ok v None \<and> \<not> output_matches v schema"
proof -
  let ?schema = "rows_schema [] (array_of demo_row)"
  let ?rows = "demo_rows @ [P_Dict [(''x'', P_Str ''s'')]]"
  have "merge_refine path_env demo_merge_config demo_up rs = JObj [(''main'', ?schema)]"
    "merge_execute path_env demo_eval demo_merge_config = Exec_Ok (rows_output ?rows [] 0) None" "\<not> output_matches (rows_output ?rows [] 0) ?schema"
    by code_simp+
  then show ?thesis by blast
qed

end
