(* ===== verification/Spec2Isabelle.thy ===== *)
theory Spec2Isabelle
  imports Channel_Schedule Entity_Names Row_Rule_Text Row_Rule_Decoded Due Access_Guarantees Join_Spec Catalog_Locators Sandbox_Spec Merge_Spec Transform_Spec
begin

text \<open>
  A model of the core logic of refraq's Python backend (\<open>src/backend\<close>).

  The program. Refraq keeps business entities in PostgreSQL tables it makes itself, opens them
  through access policies, and moves data between sources and entities with Data Channels: graphs
  of nodes a user draws, which are checked on every save, published, and run by a worker as jobs.
  A definition of an entity is validated and classified against the current version (which edits may
  break readers), turned into DDL, and its rows go through a codec per attribute type. Access rules
  over rows are authored in a small JSON language that is compiled to SQL for views and row
  security and evaluated in memory by the data API. Jobs are rows in a table that workers claim,
  finish, cancel and reap with compare-and-set statements.

  Theories and the code they model (paths under \<open>src/backend\<close>):

  Base. \<open>Prelude\<close> holds Python dictionaries as association lists, the two work-list traversals and
  the graph-search interface; \<open>Json\<close> the decoded JSON values with Python's \<open>str\<close>/\<open>repr\<close>; \<open>Text\<close> the
  string handling and the result type of code that raises; \<open>Calendar\<close> the part of \<open>datetime\<close> that is
  used.

  Data Channel. \<open>Channel_Graph\<close>: the document of \<open>channel/schemas/channels.py\<close>, the declarations of
  \<open>channel/nodes/spec.py\<close>, and the frames, ancestors, reachability and cycle search of
  \<open>channel/graph.py\<close>. \<open>Channel_Topo\<close>: its topological order. \<open>Channel_Validate\<close>: every problem pass,
  \<open>validate\<close> and \<open>refine_ports\<close>. \<open>Channel_Spec\<close>: what a draft without errors satisfies, the exactness of
  the graph algorithms, and \<open>refine_ports\<close> as the solution of its equations.
  \<open>Channel_Engine\<close>: the interpreter of \<open>channel/engine.py\<close> with its run state, gating, retries, error
  policy, containers and partial runs. \<open>Channel_Runs\<close>: the protocol of hook calls as a grammar of
  logs, and the depth that is always enough. \<open>Channel_Schedule\<close>: a walk that ends decides every
  node of its frame. The validator and the engine meet in the graph: what validation promises
  (one start, acyclic frames, bodies inside their container) is what the run theorems assume.

  Values in a channel. \<open>Channel_Template\<close>: \<open>channel/template.py\<close>, the scanner of a template field, the schema at a
  path, rendering, and the match of a value with a schema. \<open>Template_Scan\<close> and \<open>Template_Spec\<close>: a template can be
  written back, the static check is right, a rendered value has the declared type. \<open>Channel_Sandbox\<close>:
  \<open>channel/sandbox/client.py\<close> and what \<open>child.py\<close> answers for a path. \<open>Sandbox_Spec\<close>: the schema the validator finds
  at a path types the value that is read there, and a restart replays what the runner sent.
  \<open>Node_Support\<close> and \<open>Transform_Nodes\<close>: the nodes of \<open>channel/nodes\<close> that work on values, with their refinements.
  \<open>Filter_Node\<close>: \<open>filter.py\<close>. \<open>Transform_Spec\<close>: the output of a node matches the schema its refinement announces,
  which is what the validator tells the nodes behind it. \<open>Merge_Spec\<close>: a merge by key is a nested-loop join.
  \<open>Channel_Variables\<close>: both stores of \<open>channel/variables.py\<close> and their agreement, up to what \<open>jsonb\<close> makes of a value.

  Entities. \<open>Attribute_Type\<close>: the row codec \<open>entity/attribute_type/codec.py\<close>. \<open>Attribute_Catalog\<close>: the type
  objects of \<open>types.py\<close> and the stored attributes of \<open>entity/records.py\<close>. \<open>Entity_Shape\<close>:
  \<open>entity/validate.py\<close>, \<open>lifecycle.py\<close>, \<open>classify.py\<close>, \<open>table_name.py\<close>. \<open>Entity_Ddl\<close>: \<open>entity/ddl.py\<close>.
  \<open>Entity_Spec\<close>, \<open>Entity_Values\<close> and \<open>Entity_Names\<close> prove that validation returns exactly the
  well-formed shapes, that stored attributes and encoded values read back, that accepted values fit
  their columns up to two checks left to the database, that an edit classified as not breaking keeps every value writable, and that
  physical names cannot collide with chosen ones.

  Row rules. \<open>Row_Rule\<close>: \<open>entity/access/dsl.py\<close> with the facts of \<open>facts.py\<close>. \<open>Row_Rule_Spec\<close>: the SQL a rule
  compiles to, given a meaning in three-valued logic, agrees with the evaluation in memory of a stored row, and where it
  does not. \<open>Row_Rule_Decoded\<close>: the same for a row as \<open>entity/data/values.py\<close> decodes it, which is what the data API
  evaluates rules on; dates, times and fractions of a second do not come back and are excluded.
  \<open>Row_Rule_Text\<close>: the text is closed whatever the values are.

  Jobs. \<open>Job_Store\<close>: both stores and the API of \<open>jobs/store.py\<close>. \<open>Job_Machine\<close>: the compare-and-set
  contract as a locale with both stores as instances, the step relation of the API with its
  invariant, the sweeps, and the agreement of the two stores. A log append is two steps of the relation, its read and the
  save of every column, with any other calls between them; what every run keeps and what only runs keep in
  which no append overtakes a change of status are two instances of one locale.

  Schedules. \<open>Cron\<close>: \<open>worker/cron.py\<close> and \<open>resolve_wall_time\<close> of \<open>core/time.py\<close>; a time zone is its offsets
  and transitions, and every reading of the clock is an argument. \<open>Cron_Spec\<close>: what a zone in order satisfies,
  that the search returns the least fire, and the next run of a schedule, for which the zone need
  only be in order from three days before the cursor on (historical changes, such as the end of local mean time, are often
  not). \<open>Due\<close>: \<open>worker/due.py\<close> with the
  operations of \<open>worker/schedules.py\<close> it uses, and the minting transaction of
  \<open>metadata/source_jobs.py\<close>: deliveries, job calls and edits of the schedule in any order.

  Access. \<open>Access_Policy\<close>: the facts, \<open>combos.py\<close> and \<open>masks.py\<close> of \<open>entity/access\<close>. \<open>Access_Compiler\<close>: what of a
  policy is broken, the shapes and the outcome of a subject (\<open>compiler.py\<close>). \<open>Access_View\<close>: the query of a
  shape as a structure, its text, its meaning on a row, and the signed context (\<open>context.py\<close>).
  \<open>Access_Enforce\<close>: the decisions of \<open>enforce.py\<close>. \<open>Access_Spec\<close> states who is admitted to what without shapes
  and finds the shape of a subject in a compilation; \<open>Access_Exact\<close> and \<open>Access_Cells\<close> prove the rows and the
  cells of the view against it; \<open>Access_Guarantees\<close> has the properties, with a sample policy, and what the view shows
  to a person without a role. The row rules enter through \<open>Row_Rule_Spec\<close>: a view admits a row when the rule's SQL is true, and
  \<open>row_visible\<close> evaluates the rule in memory.

  Join paths. \<open>Join_Paths\<close>: \<open>metadata/joins/graph.py\<close>, the graph of a source and the two searches by levels
  over it. \<open>Catalog_Locators\<close>: the locator keys of \<open>metadata/locators.py\<close> and that they are read back. \<open>Join_Routes\<close>: the search by levels as a locale with both loops as instances, and routes over
  joins as an inductive relation. \<open>Join_Spec\<close>: the searches return routes, at most as long as any other.

  State and effects. A record of the code is a record or an association list of the model, changed
  state is returned. An exception is \<open>Inl\<close> of an error datatype or \<open>None\<close>, as the theory says. The
  engine's hooks are a log and functions of the log. A transaction is one step; code that
  reads in one transaction and writes in another is modelled in two halves.

  Bounds and fuel. The interpreter of the engine recurses through container bodies; its depth
  argument runs out only below \<open>length nodes + 1\<close>, and \<open>run_returns\<close> shows that every larger one gives a
  result. The loops of the graph algorithms terminate by measures. Python's stack is not
  modelled. For rules that loses nothing, since the code bounds their depth by 8, and JSON deeper than the limit cannot
  arrive through the parser; but the cycle search of the validator calls itself once per node of a path, so on a chain of about a
  thousand nodes the code raises where the model goes on.

  Outside the model, as parameters: the JSON Schema validator, Python's parser and evaluation of
  an expression that is no path, \<open>json.loads\<close> and the text of a float, the attributes of Python's own objects, in the
  engine the node executors and the rounds container programs ask for, the ISO 8601 parser of the
  standard library, the SHA-1 prefix of a long name and the SHA-256 of a shape, the zone catalog, the \<open>repr\<close> of psycopg's \<open>Jsonb\<close>, what
  \<open>jsonb\<close> keeps of a value and its equality, the rows the
  \<open>acl\<close> functions of the database return, the look-ups of the catalog store. Simplifications that hold throughout: strings are lists of code points
  up to U+00FF, a float is the rational its \<open>repr\<close> denotes (JSON has no NaN), decimals are computed in the
  default context of 28 digits.

  Not modelled: code that only moves data between HTTP, SQL and files (routers, schemas, SQL stores
  of the catalog, tags and settings, migrations, connectors, the MCP surface), the adapters of node types to
  their libraries, the process of the sandbox with its guards, federation and sessions, the requests and tables around the access compiler, the signature of
  an access context, and the frontend. The manifest lists them one by one.
\<close>

end
